(* ===== verification/Zepto_Prelude.thy ===== *)
theory Zepto_Prelude
  imports Main "HOL-Library.AList" "HOL-Library.Sublist" "HOL-Library.Word" "HOL-Library.Code_Target_Nat"
begin

text \<open>
  Shared vocabulary of the development.

  \<^item> Rust strings are UTF-8 byte sequences, so a Rust \<open>str\<close> is a HOL \<open>string\<close> (a list of
    8-bit characters) holding its UTF-8 encoding; \<open>len\<close>, slicing, \<open>contains\<close>,
    \<open>starts_with\<close> and \<open>ends_with\<close> then mean what they mean in Rust.
  \<^item> Machine integers are naturals with the width written out: \<open>wrap32\<close> and \<open>wrap64\<close> are
    the wrap-around of the release build (the release profile leaves overflow checks off),
    \<open>sat32\<close> and \<open>sat64\<close> the saturating operations. Natural subtraction is Rust's
    \<open>saturating_sub\<close>.
  \<^item> A \<open>HashMap\<close> that is only looked up is a map; one that is counted, filtered or
    scanned is an association list with distinct keys (one of its iteration orders).
\<close>

named_theorems width_simps \<open>unfolding of the fixed-width arithmetic\<close>
named_theorems str_simps \<open>unfolding of the string operations\<close>

section \<open>Fixed-width arithmetic\<close>

definition u32_max :: nat where
  "u32_max = 2 ^ 32 - 1"

definition u64_max :: nat where
  "u64_max = 2 ^ 64 - 1"

definition wrap32 :: "nat \<Rightarrow> nat" where
  "wrap32 n = n mod 2 ^ 32"

definition wrap64 :: "nat \<Rightarrow> nat" where
  "wrap64 n = n mod 2 ^ 64"

definition sat32 :: "nat \<Rightarrow> nat" where
  "sat32 n = min n u32_max"

definition sat64 :: "nat \<Rightarrow> nat" where
  "sat64 n = min n u64_max"

declare u32_max_def [width_simps] u64_max_def [width_simps]
  wrap32_def [width_simps] wrap64_def [width_simps] sat32_def [width_simps] sat64_def [width_simps]

lemma wrap32_bound [simp]: "wrap32 n \<le> u32_max"
  by (simp add: width_simps)

lemma wrap32_id: "n \<le> u32_max \<Longrightarrow> wrap32 n = n"
  by (simp add: width_simps)

lemma wrap64_id: "n \<le> u64_max \<Longrightarrow> wrap64 n = n"
  by (simp add: width_simps)

lemma sat32_le [simp]: "sat32 n \<le> n" "sat32 n \<le> u32_max"
  by (simp_all add: sat32_def)

lemma sat64_le [simp]: "sat64 n \<le> n" "sat64 n \<le> u64_max"
  by (simp_all add: sat64_def)

lemma sat64_mono: "m \<le> n \<Longrightarrow> sat64 m \<le> sat64 n"
  by (simp add: sat64_def)

lemma min_sat64: "k \<le> u64_max \<Longrightarrow> min (sat64 n) k = min n k"
  by (simp add: sat64_def)

section \<open>Strings\<close>

abbreviation starts_with :: "string \<Rightarrow> string \<Rightarrow> bool" where
  "starts_with s p \<equiv> prefix p s"

abbreviation ends_with :: "string \<Rightarrow> string \<Rightarrow> bool" where
  "ends_with s p \<equiv> suffix p s"

abbreviation str_contains :: "string \<Rightarrow> string \<Rightarrow> bool" where
  "str_contains s p \<equiv> sublist p s"

definition byte_val :: "char \<Rightarrow> nat" where
  "byte_val c = of_char c"

definition ascii_lower :: "char \<Rightarrow> char" where
  "ascii_lower c = (if 65 \<le> byte_val c \<and> byte_val c \<le> 90 then char_of (byte_val c + 32) else c)"

text \<open>
  \<open>str::to_lowercase\<close>, as far as a search for an ASCII pattern can see it: the ASCII letters,
  and the only two other scalar values whose lower case holds an ASCII letter, U+212A (the
  Kelvin sign, bytes E2 84 AA, to \<open>k\<close>) and U+0130 (bytes C4 B0, to \<open>i\<close> and U+0307). Every
  other scalar value maps to non-ASCII bytes again and is kept.
\<close>

fun to_lowercase :: "string \<Rightarrow> string" where
  "to_lowercase [] = []"
| "to_lowercase (c # cs) =
     (if c = CHR 0xE2 \<and> prefix [CHR 0x84, CHR 0xAA] cs
      then CHR ''k'' # to_lowercase (drop 2 cs)
      else if c = CHR 0xC4 \<and> prefix [CHR 0xB0] cs
      then [CHR ''i'', CHR 0xCC, CHR 0x87] @ to_lowercase (drop 1 cs)
      else ascii_lower c # to_lowercase cs)"

text \<open>The Unicode \<open>White_Space\<close> scalar values in UTF-8, for \<open>str::trim\<close>.\<close>

definition ws_encodings :: "string list" where
  "ws_encodings =
     [[CHR 0x09], [CHR 0x0A], [CHR 0x0B], [CHR 0x0C], [CHR 0x0D], [CHR 0x20],
      [CHR 0xC2, CHR 0x85], [CHR 0xC2, CHR 0xA0], [CHR 0xE1, CHR 0x9A, CHR 0x80],
      [CHR 0xE2, CHR 0x80, CHR 0x80], [CHR 0xE2, CHR 0x80, CHR 0x81], [CHR 0xE2, CHR 0x80, CHR 0x82],
      [CHR 0xE2, CHR 0x80, CHR 0x83], [CHR 0xE2, CHR 0x80, CHR 0x84], [CHR 0xE2, CHR 0x80, CHR 0x85],
      [CHR 0xE2, CHR 0x80, CHR 0x86], [CHR 0xE2, CHR 0x80, CHR 0x87], [CHR 0xE2, CHR 0x80, CHR 0x88],
      [CHR 0xE2, CHR 0x80, CHR 0x89], [CHR 0xE2, CHR 0x80, CHR 0x8A], [CHR 0xE2, CHR 0x80, CHR 0xA8],
      [CHR 0xE2, CHR 0x80, CHR 0xA9], [CHR 0xE2, CHR 0x80, CHR 0xAF],
      [CHR 0xE2, CHR 0x81, CHR 0x9F], [CHR 0xE3, CHR 0x80, CHR 0x80]]"

fun trim_start :: "string \<Rightarrow> string" where
  "trim_start [] = []"
| "trim_start (c # cs) =
     (case find (\<lambda>w. prefix w (c # cs)) ws_encodings of
        Some w \<Rightarrow> trim_start (drop (length w - 1) cs)
      | None \<Rightarrow> c # cs)"

fun trim_end_rev :: "string \<Rightarrow> string" where
  "trim_end_rev [] = []"
| "trim_end_rev (c # cs) =
     (case find (\<lambda>w. prefix (rev w) (c # cs)) ws_encodings of
        Some w \<Rightarrow> trim_end_rev (drop (length w - 1) cs)
      | None \<Rightarrow> c # cs)"

definition trim_end :: "string \<Rightarrow> string" where
  "trim_end s = rev (trim_end_rev (rev s))"

definition trim :: "string \<Rightarrow> string" where
  "trim s = trim_end (trim_start s)"

definition to_ascii_lowercase :: "string \<Rightarrow> string" where
  "to_ascii_lowercase s = map ascii_lower s"

text \<open>\<open>split_whitespace\<close>, \<open>join\<close>, \<open>split(c)\<close> and \<open>lines\<close>.\<close>

fun split_ws :: "string \<Rightarrow> string \<Rightarrow> string list" where
  "split_ws cur [] = (if cur = [] then [] else [cur])"
| "split_ws cur (c # cs) =
     (case find (\<lambda>w. prefix w (c # cs)) ws_encodings of
        Some w \<Rightarrow> (if cur = [] then [] else [cur]) @ split_ws [] (drop (length w - 1) cs)
      | None \<Rightarrow> split_ws (cur @ [c]) cs)"

definition split_whitespace :: "string \<Rightarrow> string list" where
  "split_whitespace s = split_ws [] s"

fun join :: "string \<Rightarrow> string list \<Rightarrow> string" where
  "join sep [] = []"
| "join sep [x] = x"
| "join sep (x # xs) = x @ sep @ join sep xs"

fun split_on :: "char \<Rightarrow> string \<Rightarrow> string list" where
  "split_on c [] = [[]]"
| "split_on c (x # xs) =
     (if x = c then [] # split_on c xs
      else case split_on c xs of y # ys \<Rightarrow> (x # y) # ys | [] \<Rightarrow> [[x]])"

definition strip_cr :: "string \<Rightarrow> string" where
  "strip_cr s = (if s \<noteq> [] \<and> last s = CHR 0x0D then butlast s else s)"

definition str_lines :: "string \<Rightarrow> string list" where
  "str_lines s =
     (let ps = split_on (CHR 0x0A) s
      in map strip_cr (butlast ps) @ (if last ps = [] then [] else [last ps]))"

definition contains_any :: "string \<Rightarrow> string list \<Rightarrow> bool" where
  "contains_any haystack patterns = (\<exists>p \<in> set patterns. str_contains haystack p)"

lemma contains_any_code [code]:
  "contains_any h ps = list_ex (\<lambda>p. str_contains h p) ps"
  by (simp add: contains_any_def list_ex_iff)

text \<open>
  \<open>is_char_boundary\<close> on UTF-8 bytes: the ends of the string, and every byte that does not
  continue a scalar value. \<open>truncate_utf8\<close> walks back from \<open>max_bytes\<close> to a boundary.
\<close>

definition is_char_boundary :: "string \<Rightarrow> nat \<Rightarrow> bool" where
  "is_char_boundary s i \<longleftrightarrow>
     i = 0 \<or> i = length s \<or> (i < length s \<and> \<not> (128 \<le> byte_val (s ! i) \<and> byte_val (s ! i) < 192))"

fun boundary_before :: "string \<Rightarrow> nat \<Rightarrow> nat" where
  "boundary_before s 0 = 0"
| "boundary_before s (Suc n) =
     (if is_char_boundary s (Suc n) then Suc n else boundary_before s n)"

lemma boundary_before_le: "boundary_before s n \<le> n"
  by (induction s n rule: boundary_before.induct) auto

lemma boundary_before_boundary: "is_char_boundary s (boundary_before s n)"
  by (induction s n rule: boundary_before.induct) (auto simp: is_char_boundary_def)

lemma boundary_before_greatest:
  "is_char_boundary s i \<Longrightarrow> i \<le> n \<Longrightarrow> i \<le> boundary_before s n"
  by (induction s n rule: boundary_before.induct) (auto simp: le_Suc_eq)

definition truncate_utf8 :: "string \<Rightarrow> nat \<Rightarrow> string" where
  "truncate_utf8 s max_bytes =
     (if length s \<le> max_bytes then s else take (boundary_before s max_bytes) s)"

lemma truncate_utf8_prefix: "prefix (truncate_utf8 s n) s"
  by (simp add: truncate_utf8_def take_is_prefix)

lemma truncate_utf8_length: "length (truncate_utf8 s n) \<le> n"
  using boundary_before_le [of s n] by (auto simp: truncate_utf8_def)

lemma truncate_utf8_boundary: "is_char_boundary s (length (truncate_utf8 s n))"
  using boundary_before_boundary [of s n] boundary_before_le [of s n]
  by (auto simp: truncate_utf8_def is_char_boundary_def min_def)

lemma truncate_utf8_longest:
  "is_char_boundary s i \<Longrightarrow> i \<le> n \<Longrightarrow> i \<le> length (truncate_utf8 s n)"
  using boundary_before_greatest [of s i n]
  by (auto simp: truncate_utf8_def is_char_boundary_def min_def)

text \<open>The scalar values of a string, each as its UTF-8 bytes: a first byte and what continues it.\<close>

definition continues_char :: "char \<Rightarrow> bool" where
  "continues_char c \<longleftrightarrow> 128 \<le> byte_val c \<and> byte_val c < 192"

function str_chars :: "string \<Rightarrow> string list" where
  "str_chars [] = []"
| "str_chars (c # cs) = (c # takeWhile continues_char cs) # str_chars (dropWhile continues_char cs)"
  by pat_completeness auto
termination
  by (relation "measure length") (simp_all add: length_dropWhile_le less_Suc_eq_le)

lemma concat_str_chars [simp]: "concat (str_chars s) = s"
  by (induction s rule: str_chars.induct) simp_all

lemma str_chars_ascii: "list_all (\<lambda>c. \<not> continues_char c) s \<Longrightarrow> str_chars s = map (\<lambda>c. [c]) s"
proof (induction s rule: str_chars.induct)
  case (2 c cs)
  then have "takeWhile continues_char cs = []" "dropWhile continues_char cs = cs" by (cases cs; simp)+
  with 2 show ?case by simp
qed simp

lemma length_trim_start: "length (trim_start s) \<le> length s"
  by (induction s rule: trim_start.induct) (auto split: option.splits intro: le_trans)

text \<open>A text between single quotes, as the program's messages print names.\<close>

definition quoted :: "string \<Rightarrow> string" where
  "quoted s = [CHR 0x27] @ s @ [CHR 0x27]"

text \<open>Decimal rendering of a natural number, as \<open>format!("{}", n)\<close> prints it.\<close>

fun show_nat :: "nat \<Rightarrow> string" where
  "show_nat n =
     (if n < 10 then [char_of (48 + n)] else show_nat (n div 10) @ [char_of (48 + n mod 10)])"

declare show_nat.simps [simp del]

lemma show_nat_not_empty [simp]: "show_nat n \<noteq> []"
  by (subst show_nat.simps) simp

section \<open>Counting maps\<close>

text \<open>\<open>*map.entry(k).or_insert(0) += 1\<close> on a \<open>HashMap<_, u32>\<close>.\<close>

definition bump :: "'k \<Rightarrow> ('k \<rightharpoonup> nat) \<Rightarrow> ('k \<rightharpoonup> nat)" where
  "bump k m = m(k \<mapsto> wrap32 (case m k of None \<Rightarrow> 1 | Some c \<Rightarrow> c + 1))"

definition count_of :: "('k \<rightharpoonup> nat) \<Rightarrow> 'k \<Rightarrow> nat" where
  "count_of m k = (case m k of None \<Rightarrow> 0 | Some c \<Rightarrow> c)"

lemma wrap32_Suc [simp]: "wrap32 (Suc (wrap32 n)) = wrap32 (Suc n)"
  by (simp add: wrap32_def mod_Suc_eq)

lemma wrap32_0 [simp]: "wrap32 0 = 0" "wrap32 (Suc 0) = Suc 0"
  by (simp_all add: wrap32_def)

lemma count_of_bump [simp]:
  "count_of (bump k m) j = (if j = k then wrap32 (Suc (count_of m k)) else count_of m j)"
  by (auto simp: count_of_def bump_def split: option.splits)

lemma count_of_empty [simp]: "count_of Map.empty k = 0"
  by (simp add: count_of_def)

lemma count_of_rebuild [simp]:
  "count_of (fold bump xs Map.empty) k = wrap32 (count_list xs k)"
proof -
  have "count_of (fold bump xs m) k = wrap32 (count_of m k + count_list xs k)"
    if "count_of m k = wrap32 (count_of m k)" for m
    using that by (induction xs arbitrary: m) (auto simp: wrap32_def mod_simps)
  from this [of Map.empty] show ?thesis by simp
qed

lemma dom_fold_bump: "dom (fold bump xs m) = dom m \<union> set xs"
  by (induction xs arbitrary: m) (auto simp: bump_def)

section \<open>Association lists\<close>

lemma length_delete_less:
  "k \<in> fst ` set al \<Longrightarrow> distinct (map fst al) \<Longrightarrow> Suc (length (AList.delete k al)) = length al"
proof (induction al)
  case (Cons p al)
  obtain j v where p: "p = (j, v)" by (cases p)
  show ?case
  proof (cases "j = k")
    case True
    with Cons.prems p have "k \<notin> fst ` set al" by auto
    then show ?thesis using True p by (simp add: delete_idem)
  next
    case False
    with Cons p show ?thesis by auto
  qed
qed simp

lemma length_update_new:
  "k \<notin> fst ` set al \<Longrightarrow> length (AList.update k v al) = Suc (length al)"
  by (induction al) auto

lemma length_update_old:
  "k \<in> fst ` set al \<Longrightarrow> length (AList.update k v al) = length al"
  by (induction al) auto

lemma length_update_le: "length (AList.update k v al) \<le> Suc (length al)"
  by (cases "k \<in> fst ` set al") (simp_all add: length_update_new length_update_old)

lemma set_update_subset: "set (AList.update k v al) \<subseteq> insert (k, v) (set al)"
  by (induction al) auto

lemma set_delete_subset: "set (AList.delete k al) \<subseteq> set al"
  by (auto simp: AList.delete_eq)

lemma map_of_subset:
  "distinct (map fst ys) \<Longrightarrow> set xs \<subseteq> set ys \<Longrightarrow> map_of xs k = Some v \<Longrightarrow> map_of ys k = Some v"
  by (meson map_of_SomeD map_of_eq_Some_iff subset_iff)

lemma find_Some_in: "find P xs = Some x \<Longrightarrow> x \<in> set xs \<and> P x"
  by (induction xs) (auto split: if_splits)

text \<open>\<open>Iterator::min_by_key\<close>: the first entry with the least key, if there is any entry.\<close>

fun min_by_key :: "('a \<Rightarrow> 'k::linorder) \<Rightarrow> 'a list \<Rightarrow> 'a option" where
  "min_by_key f [] = None"
| "min_by_key f (x # xs) =
     (case min_by_key f xs of
        None \<Rightarrow> Some x
      | Some y \<Rightarrow> if f x \<le> f y then Some x else Some y)"

lemma min_by_key_None [simp]: "min_by_key f xs = None \<longleftrightarrow> xs = []"
  by (cases xs) (auto split: option.splits)

lemma min_by_key_in: "min_by_key f xs = Some x \<Longrightarrow> x \<in> set xs"
  by (induction xs arbitrary: x) (auto split: option.splits if_splits)

lemma min_by_key_least: "min_by_key f xs = Some x \<Longrightarrow> y \<in> set xs \<Longrightarrow> f x \<le> f y"
  by (induction xs arbitrary: x) (fastforce split: option.splits if_splits)+

end
