(* ===== verification/Errors.thy ===== *)
theory Errors
  imports Zepto_Prelude
begin

text \<open>
  The error vocabulary of the program: \<open>ProviderError\<close> and \<open>ZeptoError\<close> of
  \<open>src/src/error.rs\<close>, the pattern-based classifier of
  \<open>src/src/providers/error_classifier.rs\<close> and the mapping from HTTP status codes in
  \<open>src/src/providers/mod.rs\<close>. The retry, fallback, rotation and quota layers all decide on
  these values.
\<close>

section \<open>Error types\<close>

datatype provider_error =
    PE_Auth string
  | PE_RateLimit string
  | PE_Billing string
  | PE_ServerError string
  | PE_InvalidRequest string
  | PE_ModelNotFound string
  | PE_Timeout string
  | PE_Unknown string
  | PE_Overloaded string
  | PE_Format string
  | PE_ContextOverflow string

fun provider_error_display :: "provider_error \<Rightarrow> string" where
  "provider_error_display (PE_Auth m) = ''Authentication error: '' @ m"
| "provider_error_display (PE_RateLimit m) = ''Rate limit error: '' @ m"
| "provider_error_display (PE_Billing m) = ''Billing error: '' @ m"
| "provider_error_display (PE_ServerError m) = ''Server error: '' @ m"
| "provider_error_display (PE_InvalidRequest m) = ''Invalid request: '' @ m"
| "provider_error_display (PE_ModelNotFound m) = ''Model not found: '' @ m"
| "provider_error_display (PE_Timeout m) = ''Timeout: '' @ m"
| "provider_error_display (PE_Unknown m) = ''Unknown provider error: '' @ m"
| "provider_error_display (PE_Overloaded m) = ''Overloaded error: '' @ m"
| "provider_error_display (PE_Format m) = ''Format error: '' @ m"
| "provider_error_display (PE_ContextOverflow m) = ''Context overflow: '' @ m"

fun provider_is_retryable :: "provider_error \<Rightarrow> bool" where
  "provider_is_retryable (PE_RateLimit _) = True"
| "provider_is_retryable (PE_ServerError _) = True"
| "provider_is_retryable (PE_Timeout _) = True"
| "provider_is_retryable (PE_Overloaded _) = True"
| "provider_is_retryable _ = False"

fun should_fallback :: "provider_error \<Rightarrow> bool" where
  "should_fallback (PE_Auth _) = False"
| "should_fallback (PE_InvalidRequest _) = False"
| "should_fallback (PE_Billing _) = False"
| "should_fallback (PE_Format _) = False"
| "should_fallback (PE_ContextOverflow _) = False"
| "should_fallback _ = True"

fun status_code :: "provider_error \<Rightarrow> nat option" where
  "status_code (PE_Auth _) = Some 401"
| "status_code (PE_RateLimit _) = Some 429"
| "status_code (PE_Billing _) = Some 402"
| "status_code (PE_ServerError _) = Some 500"
| "status_code (PE_InvalidRequest _) = Some 400"
| "status_code (PE_ModelNotFound _) = Some 404"
| "status_code (PE_Timeout _) = None"
| "status_code (PE_Overloaded _) = Some 503"
| "status_code (PE_Format _) = Some 400"
| "status_code (PE_ContextOverflow _) = Some 400"
| "status_code (PE_Unknown _) = None"

text \<open>
  The payloads of \<open>Io\<close>, \<open>Json\<close> and \<open>Http\<close> are error objects of other crates; the
  model keeps their rendered text.
\<close>

datatype zepto_error =
    Config string
  | Provider string
  | ProviderTyped provider_error
  | Channel string
  | Tool string
  | SessionErr string
  | Io string
  | Json string
  | Http string
  | BusClosed
  | NotFound string
  | Unauthorized string
  | SecurityViolation string
  | Safety string
  | Mcp string
  | QuotaExceeded string
  | QuotaRejected string

type_synonym 'a zresult = "zepto_error + 'a"

text \<open>
  How \<open>tokio::fs::write\<close> on an existing path ends: the file is written, or it cannot be opened and stays
  as it was, or it was truncated and a part of the new text, possibly nothing, is what it holds now.
\<close>

datatype write_outcome = Write_Ok | Write_Refused | Write_Cut_Short

fun zepto_error_display :: "zepto_error \<Rightarrow> string" where
  "zepto_error_display (Config m) = ''Configuration error: '' @ m"
| "zepto_error_display (Provider m) = ''Provider error: '' @ m"
| "zepto_error_display (ProviderTyped e) = ''Provider error: '' @ provider_error_display e"
| "zepto_error_display (Channel m) = ''Channel error: '' @ m"
| "zepto_error_display (Tool m) = ''Tool error: '' @ m"
| "zepto_error_display (SessionErr m) = ''Session error: '' @ m"
| "zepto_error_display (Io m) = ''IO error: '' @ m"
| "zepto_error_display (Json m) = ''JSON error: '' @ m"
| "zepto_error_display (Http m) = ''HTTP error: '' @ m"
| "zepto_error_display BusClosed = ''Bus error: channel closed''"
| "zepto_error_display (NotFound m) = ''Not found: '' @ m"
| "zepto_error_display (Unauthorized m) = ''Unauthorized: '' @ m"
| "zepto_error_display (SecurityViolation m) = ''Security violation: '' @ m"
| "zepto_error_display (Safety m) = ''Safety violation: '' @ m"
| "zepto_error_display (Mcp m) = ''MCP error: '' @ m"
| "zepto_error_display (QuotaExceeded m) = ''Quota exceeded: '' @ m"
| "zepto_error_display (QuotaRejected m) = ''Quota rejected: '' @ m"

section \<open>The error classifier\<close>

definition billing_patterns :: "string list" where
  "billing_patterns =
     [''402'', ''payment required'', ''insufficient credits'', ''credit balance'',
      ''plans & billing'', ''insufficient balance'', ''billing'']"

definition auth_patterns :: "string list" where
  "auth_patterns =
     [''invalid_api_key'', ''invalid api key'', ''incorrect api key'', ''invalid token'',
      ''authentication'', ''re-authenticate'', ''oauth token refresh failed'', ''unauthorized'',
      ''forbidden'', ''access denied'', ''expired'', ''token has expired'', ''401'', ''403'',
      ''no credentials found'', ''no api key found'']"

definition rate_limit_patterns :: "string list" where
  "rate_limit_patterns =
     [''rate_limit'', ''rate limit'', ''too many requests'', ''429'',
      ''exceeded your current quota'', ''resource has been exhausted'', ''resource_exhausted'',
      ''quota exceeded'', ''usage limit'']"

definition overloaded_patterns :: "string list" where
  "overloaded_patterns =
     [''overloaded_error'', ''\"type\":\"overloaded_error\"'', ''overloaded'']"

definition timeout_patterns :: "string list" where
  "timeout_patterns = [''timeout'', ''timed out'', ''deadline exceeded'', ''context deadline exceeded'']"

definition overflow_patterns :: "string list" where
  "overflow_patterns =
     [''context_length_exceeded'', ''context length exceeded'', ''context window exceeded'',
      ''prompt is too long'', ''maximum context length'', ''too many tokens'',
      ''request too large'', ''token limit exceeded'', ''input is too long'', ''exceeds the model'']"

definition format_patterns :: "string list" where
  "format_patterns =
     [''string should match pattern'', ''tool_use.id'', ''tool_use_id'',
      ''messages.1.content.1.tool_use.id'', ''invalid request format'']"

definition classify_error_message :: "string \<Rightarrow> provider_error" where
  "classify_error_message msg =
     (let lower = to_lowercase msg in
      if contains_any lower billing_patterns then PE_Billing msg
      else if contains_any lower auth_patterns then PE_Auth msg
      else if contains_any lower rate_limit_patterns then PE_RateLimit msg
      else if contains_any lower overloaded_patterns then PE_Overloaded msg
      else if contains_any lower timeout_patterns then PE_Timeout msg
      else if contains_any lower overflow_patterns then PE_ContextOverflow msg
      else if contains_any lower format_patterns then PE_Format msg
      else PE_Unknown msg)"

fun is_format_or_overflow :: "provider_error \<Rightarrow> bool" where
  "is_format_or_overflow (PE_Format _) = True"
| "is_format_or_overflow (PE_ContextOverflow _) = True"
| "is_format_or_overflow _ = False"

fun is_overloaded :: "provider_error \<Rightarrow> bool" where
  "is_overloaded (PE_Overloaded _) = True"
| "is_overloaded _ = False"

definition parse_provider_error :: "nat \<Rightarrow> string \<Rightarrow> provider_error" where
  "parse_provider_error status body =
     (if status = 401 then PE_Auth body
      else if status = 402 then PE_Billing body
      else if status = 404 then PE_ModelNotFound body
      else if status = 429 then PE_RateLimit body
      else if status = 400 then
        (let classified = classify_error_message body in
         if is_format_or_overflow classified then classified else PE_InvalidRequest body)
      else if 500 \<le> status \<and> status \<le> 599 then
        (let classified = classify_error_message body in
         if is_overloaded classified then classified else PE_ServerError body)
      else classify_error_message (''HTTP '' @ show_nat status @ '': '' @ body))"

section \<open>Facts about the classification\<close>

lemma classify_cases:
  "classify_error_message msg \<in>
     {PE_Billing msg, PE_Auth msg, PE_RateLimit msg, PE_Overloaded msg, PE_Timeout msg,
      PE_ContextOverflow msg, PE_Format msg, PE_Unknown msg}"
  by (simp add: classify_error_message_def Let_def)

lemma retryable_falls_back: "provider_is_retryable e \<Longrightarrow> should_fallback e"
  by (cases e) auto

lemma overflow_not_masked:
  assumes "contains_any (to_lowercase msg) overflow_patterns"
    and "\<not> contains_any (to_lowercase msg)
      (billing_patterns @ auth_patterns @ rate_limit_patterns @ overloaded_patterns @ timeout_patterns)"
  shows "classify_error_message msg = PE_ContextOverflow msg"
  using assms by (auto simp: classify_error_message_def Let_def contains_any_def)

lemma classify_retryable:
  "provider_is_retryable (classify_error_message m) =
     (classify_error_message m \<in> range PE_RateLimit \<union> range PE_Overloaded \<union> range PE_Timeout)"
  using classify_cases [of m] by auto

lemma parse_400_429:
  "\<not> provider_is_retryable (parse_provider_error 400 body)"
  "\<not> provider_is_retryable (parse_provider_error 401 body)"
  "\<not> provider_is_retryable (parse_provider_error 402 body)"
  "\<not> provider_is_retryable (parse_provider_error 404 body)"
  "provider_is_retryable (parse_provider_error 429 body)"
  using classify_cases [of body] by (auto simp: parse_provider_error_def Let_def)

lemma parse_5xx:
  "500 \<le> status \<Longrightarrow> status \<le> 599 \<Longrightarrow> provider_is_retryable (parse_provider_error status body)"
  using classify_cases [of body] by (auto simp: parse_provider_error_def Let_def)

lemma parse_other:
  "status \<notin> {400, 401, 402, 404, 429} \<Longrightarrow> \<not> (500 \<le> status \<and> status \<le> 599) \<Longrightarrow>
     parse_provider_error status body = classify_error_message (''HTTP '' @ show_nat status @ '': '' @ body)"
  by (simp only: parse_provider_error_def) simp

section \<open>Properties\<close>

text \<open>
  The retry decision that follows from an HTTP failure: 429 and every 5xx status are
  retried, 400, 401, 402 and 404 never are whatever their body says, and any other status is
  retried only when its text classifies as rate limiting, overload or a timeout. Whatever is
  retried may also fall back to another provider.
\<close>

theorem http_status_retry_policy:
  "provider_is_retryable (parse_provider_error status body) =
     (status = 429 \<or> (500 \<le> status \<and> status \<le> 599)
      \<or> (status \<notin> {400, 401, 402, 404, 429} \<and> \<not> (500 \<le> status \<and> status \<le> 599)
         \<and> classify_error_message (''HTTP '' @ show_nat status @ '': '' @ body)
             \<in> range PE_RateLimit \<union> range PE_Overloaded \<union> range PE_Timeout))
   \<and> (provider_is_retryable (parse_provider_error status body)
       \<longrightarrow> should_fallback (parse_provider_error status body))"
proof -
  let ?e = "parse_provider_error status body"
  have "provider_is_retryable ?e =
     (status = 429 \<or> (500 \<le> status \<and> status \<le> 599)
      \<or> (status \<notin> {400, 401, 402, 404, 429} \<and> \<not> (500 \<le> status \<and> status \<le> 599)
         \<and> classify_error_message (''HTTP '' @ show_nat status @ '': '' @ body)
             \<in> range PE_RateLimit \<union> range PE_Overloaded \<union> range PE_Timeout))"
  proof (cases "status \<in> {400, 401, 402, 404, 429} \<or> (500 \<le> status \<and> status \<le> 599)")
    case True
    then show ?thesis using parse_400_429 parse_5xx [of status body] by auto
  next
    case False
    then have "?e = classify_error_message (''HTTP '' @ show_nat status @ '': '' @ body)"
      by (intro parse_other) blast+
    then have "provider_is_retryable ?e = (classify_error_message (''HTTP '' @ show_nat status @ '': '' @ body)
             \<in> range PE_RateLimit \<union> range PE_Overloaded \<union> range PE_Timeout)"
      by (simp only: classify_retryable)
    then show ?thesis using False by blast
  qed
  then show ?thesis using retryable_falls_back [of ?e] by blast
qed

theorem http_status_retry_policy_witness:
  "provider_is_retryable (parse_provider_error 503 ''overloaded'')
   \<and> should_fallback (parse_provider_error 503 ''overloaded'')"
proof -
  have "provider_is_retryable (parse_provider_error 503 ''overloaded'')"
    by (simp only: http_status_retry_policy) simp
  then show ?thesis using http_status_retry_policy [of 503 "''overloaded''"] by blast
qed

text \<open>
  A numeral in the body can hide a context overflow: the three-digit patterns of the
  earlier classes are plain substrings, so an HTTP 400 body that reports the maximum context
  length and a token count holding 402 becomes an invalid request, which the agent loop does
  not answer by compaction. The same body with another token count is recognised.
\<close>

theorem context_overflow_masked:
  "parse_provider_error 400
     ''maximum context length is 4097 tokens, your messages resulted in 4025 tokens''
     = PE_InvalidRequest ''maximum context length is 4097 tokens, your messages resulted in 4025 tokens''
   \<and> parse_provider_error 400
     ''maximum context length is 4097 tokens, your messages resulted in 4525 tokens''
     = PE_ContextOverflow ''maximum context length is 4097 tokens, your messages resulted in 4525 tokens''"
  by code_simp

end
