(* ===== verification/Session.thy ===== *)
theory Session
  imports Zepto_Prelude
begin

text \<open>
  Conversation sessions: the message and session types of \<open>src/src/session/types.rs\<close> and
  the history repair pipeline of \<open>src/src/session/repair.rs\<close>. Timestamps are passed in
  where the code reads the clock. The lemmas lead to what a repaired history guarantees: every
  tool result answers an earlier tool call, user and assistant turns alternate, and the
  statistics account for every message that went away.
\<close>

section \<open>Messages\<close>

datatype role = RSystem | RUser | RAssistant | RTool

fun role_display :: "role \<Rightarrow> string" where
  "role_display RSystem = ''system''"
| "role_display RUser = ''user''"
| "role_display RAssistant = ''assistant''"
| "role_display RTool = ''tool''"

datatype image_source = Base64 string | FilePath string | Url string

datatype content_part = Text string | Image image_source string

record tool_call =
  tc_id :: string
  tc_name :: string
  tc_arguments :: string

definition tool_call_new :: "string \<Rightarrow> string \<Rightarrow> string \<Rightarrow> tool_call" where
  "tool_call_new i n a = \<lparr>tc_id = i, tc_name = n, tc_arguments = a\<rparr>"

record message =
  msg_role :: role
  content :: string
  content_parts :: "content_part list"
  tool_calls :: "tool_call list option"
  tool_call_id :: "string option"

definition msg_user :: "string \<Rightarrow> message" where
  "msg_user c = \<lparr>msg_role = RUser, content = c, content_parts = [Text c],
     tool_calls = None, tool_call_id = None\<rparr>"

definition msg_assistant :: "string \<Rightarrow> message" where
  "msg_assistant c = \<lparr>msg_role = RAssistant, content = c, content_parts = [Text c],
     tool_calls = None, tool_call_id = None\<rparr>"

definition msg_system :: "string \<Rightarrow> message" where
  "msg_system c = \<lparr>msg_role = RSystem, content = c, content_parts = [Text c],
     tool_calls = None, tool_call_id = None\<rparr>"

definition msg_tool_result :: "string \<Rightarrow> string \<Rightarrow> message" where
  "msg_tool_result tid c = \<lparr>msg_role = RTool, content = c, content_parts = [Text c],
     tool_calls = None, tool_call_id = Some tid\<rparr>"

definition msg_assistant_with_tools :: "string \<Rightarrow> tool_call list \<Rightarrow> message" where
  "msg_assistant_with_tools c tcs = \<lparr>msg_role = RAssistant, content = c, content_parts = [Text c],
     tool_calls = Some tcs, tool_call_id = None\<rparr>"

definition msg_user_with_images :: "string \<Rightarrow> content_part list \<Rightarrow> message" where
  "msg_user_with_images t images = \<lparr>msg_role = RUser, content = t,
     content_parts = Text t # images, tool_calls = None, tool_call_id = None\<rparr>"

fun is_image :: "content_part \<Rightarrow> bool" where
  "is_image (Image _ _) = True"
| "is_image (Text _) = False"

definition has_images :: "message \<Rightarrow> bool" where
  "has_images m = list_ex is_image (content_parts m)"

definition images :: "message \<Rightarrow> content_part list" where
  "images m = filter is_image (content_parts m)"

definition has_tool_calls :: "message \<Rightarrow> bool" where
  "has_tool_calls m = (case tool_calls m of None \<Rightarrow> False | Some tcs \<Rightarrow> tcs \<noteq> [])"

definition is_tool_result :: "message \<Rightarrow> bool" where
  "is_tool_result m \<longleftrightarrow> msg_role m = RTool \<and> tool_call_id m \<noteq> None"

section \<open>Sessions\<close>

record session =
  key :: string
  messages :: "message list"
  summary :: "string option"
  created_at :: nat
  updated_at :: nat

definition session_new :: "nat \<Rightarrow> string \<Rightarrow> session" where
  "session_new now k = \<lparr>key = k, messages = [], summary = None, created_at = now, updated_at = now\<rparr>"

definition add_message :: "nat \<Rightarrow> message \<Rightarrow> session \<Rightarrow> session" where
  "add_message now m s = s\<lparr>messages := messages s @ [m], updated_at := now\<rparr>"

definition session_clear :: "nat \<Rightarrow> session \<Rightarrow> session" where
  "session_clear now s = s\<lparr>messages := [], summary := None, updated_at := now\<rparr>"

definition set_summary :: "nat \<Rightarrow> string \<Rightarrow> session \<Rightarrow> session" where
  "set_summary now t s = s\<lparr>summary := Some t, updated_at := now\<rparr>"

definition message_count :: "session \<Rightarrow> nat" where
  "message_count s = length (messages s)"

definition session_is_empty :: "session \<Rightarrow> bool" where
  "session_is_empty s \<longleftrightarrow> messages s = []"

definition last_message :: "session \<Rightarrow> message option" where
  "last_message s = (if messages s = [] then None else Some (last (messages s)))"

definition messages_by_role :: "role \<Rightarrow> session \<Rightarrow> message list" where
  "messages_by_role r s = filter (\<lambda>m. msg_role m = r) (messages s)"

section \<open>The repair pipeline\<close>

record repair_stats =
  orphan_tool_results_removed :: nat
  empty_messages_removed :: nat
  role_alternation_fixes :: nat
  duplicate_messages_removed :: nat
  truncation_repairs :: nat

definition total_repairs :: "repair_stats \<Rightarrow> nat" where
  "total_repairs st = orphan_tool_results_removed st + empty_messages_removed st
     + role_alternation_fixes st + duplicate_messages_removed st + truncation_repairs st"

definition call_ids :: "message \<Rightarrow> string set" where
  "call_ids m = (case tool_calls m of None \<Rightarrow> {} | Some tcs \<Rightarrow> set (map tc_id tcs))"

fun remove_orphans_from :: "string set \<Rightarrow> message list \<Rightarrow> message list \<times> nat" where
  "remove_orphans_from seen [] = ([], 0)"
| "remove_orphans_from seen (m # ms) =
     (let seen' = seen \<union> call_ids m;
          (repaired, removed) = remove_orphans_from seen' ms
      in if msg_role m = RTool
         then (case tool_call_id m of
                 Some i \<Rightarrow> if i \<in> seen' then (m # repaired, removed) else (repaired, Suc removed)
               | None \<Rightarrow> (repaired, Suc removed))
         else (m # repaired, removed))"

definition remove_orphan_tool_results :: "message list \<Rightarrow> message list \<times> nat" where
  "remove_orphan_tool_results ms = remove_orphans_from {} ms"

definition keep_message :: "message \<Rightarrow> bool" where
  "keep_message m \<longleftrightarrow> trim (content m) \<noteq> [] \<or> has_tool_calls m \<or> msg_role m = RTool"

definition remove_empty_messages :: "message list \<Rightarrow> message list \<times> nat" where
  "remove_empty_messages ms =
     (filter keep_message ms, length (filter (\<lambda>m. \<not> keep_message m) ms))"

text \<open>The merge of a dialog message into the previous one of the same role.\<close>

definition merge_into :: "message \<Rightarrow> message \<Rightarrow> message" where
  "merge_into prev m =
     (let prev1 = (if content m \<noteq> []
                   then prev\<lparr>content := (if content prev \<noteq> [] then content prev @ [CHR 0x0A]
                                        else content prev) @ content m\<rparr>
                   else prev)
      in if msg_role m = RAssistant
         then (case tool_calls m of
                 None \<Rightarrow> prev1
               | Some calls \<Rightarrow>
                   prev1\<lparr>tool_calls := Some ((case tool_calls prev1 of None \<Rightarrow> [] | Some cs \<Rightarrow> cs) @ calls)\<rparr>)
         else prev1)"

text \<open>\<open>out\<close> is kept reversed, so that \<open>out.last_mut()\<close> is its head.\<close>

fun fix_alternation_from :: "message list \<Rightarrow> nat \<Rightarrow> message list \<Rightarrow> message list \<times> nat" where
  "fix_alternation_from out fixed [] = (rev out, fixed)"
| "fix_alternation_from out fixed (m # ms) =
     (if msg_role m \<in> {RUser, RAssistant}
      then (case out of
              prev # rest \<Rightarrow>
                if msg_role prev = msg_role m
                then fix_alternation_from (merge_into prev m # rest) (Suc fixed) ms
                else fix_alternation_from (m # out) fixed ms
            | [] \<Rightarrow> fix_alternation_from (m # out) fixed ms)
      else fix_alternation_from (m # out) fixed ms)"

definition fix_role_alternation :: "message list \<Rightarrow> message list \<times> nat" where
  "fix_role_alternation ms = fix_alternation_from [] 0 ms"

definition same_message :: "message \<Rightarrow> message \<Rightarrow> bool" where
  "same_message p m \<longleftrightarrow> msg_role p = msg_role m \<and> content p = content m
     \<and> tool_call_id p = tool_call_id m \<and> tool_calls p = tool_calls m"

fun remove_duplicates_from :: "message list \<Rightarrow> nat \<Rightarrow> message list \<Rightarrow> message list \<times> nat" where
  "remove_duplicates_from out removed [] = (rev out, removed)"
| "remove_duplicates_from out removed (m # ms) =
     (case out of
        prev # _ \<Rightarrow>
          if same_message prev m then remove_duplicates_from out (Suc removed) ms
          else remove_duplicates_from (m # out) removed ms
      | [] \<Rightarrow> remove_duplicates_from (m # out) removed ms)"

definition remove_consecutive_duplicates :: "message list \<Rightarrow> message list \<times> nat" where
  "remove_consecutive_duplicates ms = remove_duplicates_from [] 0 ms"

text \<open>U+FFFD, the replacement character, in UTF-8.\<close>

definition fffd :: string where
  "fffd = [CHR 0xEF, CHR 0xBF, CHR 0xBD]"

function trim_end_matches :: "string \<Rightarrow> string \<Rightarrow> string" where
  "trim_end_matches p s =
     (if p \<noteq> [] \<and> ends_with s p then trim_end_matches p (take (length s - length p) s) else s)"
  by pat_completeness auto
termination
  by (relation "measure (\<lambda>(p, s). length s)") (auto simp: suffix_def)

declare trim_end_matches.simps [simp del]

definition repair_truncation :: "message \<Rightarrow> message \<times> bool" where
  "repair_truncation m =
     (let (m1, changed1) = (if ends_with (content m) fffd
                            then (m\<lparr>content := trim_end_matches fffd (content m)\<rparr>, True)
                            else (m, False))
      in if ends_with (content m1) ''[...truncated''
         then (m1\<lparr>content := content m1 @ ''...]''\<rparr>, True)
         else (m1, changed1))"

definition repair_truncation_artifacts :: "message list \<Rightarrow> message list \<times> nat" where
  "repair_truncation_artifacts ms =
     (map (\<lambda>m. fst (repair_truncation m)) ms, length (filter (\<lambda>m. snd (repair_truncation m)) ms))"

definition repair_messages :: "message list \<Rightarrow> message list \<times> repair_stats" where
  "repair_messages ms =
     (let (ms1, orphans) = remove_orphan_tool_results ms;
          (ms2, empty_removed) = remove_empty_messages ms1;
          (ms3, alt_fixed) = fix_role_alternation ms2;
          (ms4, dup_removed) = remove_consecutive_duplicates ms3;
          (ms5, trunc_repaired) = repair_truncation_artifacts ms4
      in (ms5, \<lparr>orphan_tool_results_removed = orphans, empty_messages_removed = empty_removed,
                role_alternation_fixes = alt_fixed, duplicate_messages_removed = dup_removed,
                truncation_repairs = trunc_repaired\<rparr>))"

section \<open>What the passes guarantee\<close>

text \<open>
  \<open>answered_from seen ms\<close>: every tool result of \<open>ms\<close> answers a call in \<open>seen\<close> or in a
  message up to it. \<open>calls_by_assistant\<close>: tool calls occur on assistant messages only, as
  every message constructor of the code ensures.
\<close>

fun answered_from :: "string set \<Rightarrow> message list \<Rightarrow> bool" where
  "answered_from seen [] = True"
| "answered_from seen (m # ms) =
     ((msg_role m = RTool \<longrightarrow> (case tool_call_id m of None \<Rightarrow> False | Some i \<Rightarrow> i \<in> seen \<union> call_ids m))
      \<and> answered_from (seen \<union> call_ids m) ms)"

definition calls_by_assistant :: "message list \<Rightarrow> bool" where
  "calls_by_assistant ms = list_all (\<lambda>m. tool_calls m \<noteq> None \<longrightarrow> msg_role m = RAssistant) ms"

lemma calls_by_assistant_simps [simp]:
  "calls_by_assistant []"
  "calls_by_assistant (m # ms) \<longleftrightarrow>
     (tool_calls m \<noteq> None \<longrightarrow> msg_role m = RAssistant) \<and> calls_by_assistant ms"
  "calls_by_assistant (xs @ ys) \<longleftrightarrow> calls_by_assistant xs \<and> calls_by_assistant ys"
  "calls_by_assistant (rev xs) \<longleftrightarrow> calls_by_assistant xs"
  by (auto simp: calls_by_assistant_def list_all_iff)

lemma calls_by_assistant_filter [simp]:
  "calls_by_assistant ms \<Longrightarrow> calls_by_assistant (filter P ms)"
  by (auto simp: calls_by_assistant_def list_all_iff)

lemma call_ids_None: "tool_calls m = None \<Longrightarrow> call_ids m = {}"
  by (simp add: call_ids_def)

lemma answered_append:
  "answered_from seen (xs @ ys) \<longleftrightarrow>
     answered_from seen xs \<and> answered_from (seen \<union> (\<Union>m \<in> set xs. call_ids m)) ys"
  by (induction xs arbitrary: seen) (auto simp: Un_assoc)

lemma remove_orphans_calls:
  "calls_by_assistant ms \<Longrightarrow> calls_by_assistant (fst (remove_orphans_from seen ms))"
  by (induction seen ms rule: remove_orphans_from.induct)
    (auto simp: Let_def split: prod.splits option.splits)

lemma remove_orphans_answered:
  "calls_by_assistant ms \<Longrightarrow> answered_from seen (fst (remove_orphans_from seen ms))"
proof (induction seen ms rule: remove_orphans_from.induct)
  case (2 seen m ms)
  have "msg_role m = RTool \<Longrightarrow> call_ids m = {}"
    using "2.prems" by (cases "tool_calls m") (auto simp: call_ids_None)
  then show ?case
    using 2 by (auto simp: Let_def split: prod.splits option.splits)
qed simp

lemma remove_orphans_length:
  "length (fst (remove_orphans_from seen ms)) + snd (remove_orphans_from seen ms) = length ms"
  by (induction seen ms rule: remove_orphans_from.induct)
    (auto simp: Let_def split: prod.splits option.splits)

lemma filter_keep_answered:
  "answered_from seen ms \<Longrightarrow> answered_from seen (filter keep_message ms)"
proof (induction ms arbitrary: seen)
  case (Cons m ms)
  have "\<not> keep_message m \<Longrightarrow> call_ids m = {}"
    by (auto simp: keep_message_def has_tool_calls_def call_ids_def split: option.splits)
  then show ?case using Cons by auto
qed simp

lemma merge_into_role [simp]: "msg_role (merge_into p m) = msg_role p"
  by (auto simp: merge_into_def Let_def split: option.splits)

lemma merge_into_call_id [simp]: "tool_call_id (merge_into p m) = tool_call_id p"
  by (auto simp: merge_into_def Let_def split: option.splits)

lemma merge_into_calls_None:
  "tool_calls m = None \<Longrightarrow> tool_calls (merge_into p m) = tool_calls p"
  by (auto simp: merge_into_def Let_def)

lemma merge_into_call_ids:
  "msg_role m = RAssistant \<or> tool_calls m = None \<Longrightarrow> call_ids (merge_into p m) = call_ids p \<union> call_ids m"
  by (auto simp: merge_into_def Let_def call_ids_def split: option.splits)

lemma fix_alternation_answered:
  assumes "answered_from {} (rev out @ ms)" "calls_by_assistant (rev out @ ms)"
  shows "answered_from {} (fst (fix_alternation_from out n ms))
    \<and> calls_by_assistant (fst (fix_alternation_from out n ms))"
  using assms
proof (induction out n ms rule: fix_alternation_from.induct)
  case (2 out fixed m ms)
  show ?case
  proof (cases "\<exists>prev rest. out = prev # rest \<and> msg_role prev = msg_role m \<and> msg_role m \<in> {RUser, RAssistant}")
    case True
    then obtain prev rest where out: "out = prev # rest" and same: "msg_role prev = msg_role m"
      and dialog: "msg_role m \<in> {RUser, RAssistant}" by blast
    have ids: "call_ids (merge_into prev m) = call_ids prev \<union> call_ids m"
      using "2.prems"(2) by (intro merge_into_call_ids) auto
    have "answered_from {} (rev (merge_into prev m # rest) @ ms)"
      using "2.prems"(1) out same dialog ids by (auto simp: answered_append Un_assoc)
    moreover have "calls_by_assistant (rev (merge_into prev m # rest) @ ms)"
      using "2.prems"(2) out same by (auto simp: merge_into_calls_None)
    ultimately show ?thesis using 2 out same dialog by simp
  next
    case False
    then show ?thesis using 2 by (auto split: list.splits)
  qed
qed simp

lemma fix_alternation_length:
  "length (fst (fix_alternation_from out n ms)) + snd (fix_alternation_from out n ms)
     = length out + n + length ms"
  by (induction out n ms rule: fix_alternation_from.induct) (auto split: list.splits)

lemma same_message_call_ids: "same_message p m \<Longrightarrow> call_ids p = call_ids m"
  by (simp add: same_message_def call_ids_def)

lemma answered_skip_same:
  assumes "same_message prev m" "answered_from seen (rev (prev # rest) @ m # ms)"
  shows "answered_from seen (rev (prev # rest) @ ms)"
proof -
  have "call_ids m \<subseteq> (\<Union>x \<in> set (rev (prev # rest)). call_ids x)"
    using assms(1) by (auto simp: same_message_call_ids)
  then have "seen \<union> (\<Union>x \<in> set (rev (prev # rest)). call_ids x) \<union> call_ids m
      = seen \<union> (\<Union>x \<in> set (rev (prev # rest)). call_ids x)" by blast
  with assms(2) show ?thesis by (simp only: answered_append answered_from.simps)
qed

lemma remove_duplicates_answered:
  "answered_from {} (rev out @ ms) \<Longrightarrow> answered_from {} (fst (remove_duplicates_from out n ms))"
proof (induction out n ms rule: remove_duplicates_from.induct)
  case (2 out removed m ms)
  then show ?case
    by (cases out) (auto simp del: answered_from.simps intro: answered_skip_same [of _ m, simplified])
qed simp

lemma remove_duplicates_length:
  "length (fst (remove_duplicates_from out n ms)) + snd (remove_duplicates_from out n ms)
     = length out + n + length ms"
  by (induction out n ms rule: remove_duplicates_from.induct) (auto split: list.splits)

text \<open>Truncation repair changes the text of a message and nothing else.\<close>

lemma repair_truncation_frame [simp]:
  "msg_role (fst (repair_truncation m)) = msg_role m"
  "tool_calls (fst (repair_truncation m)) = tool_calls m"
  "tool_call_id (fst (repair_truncation m)) = tool_call_id m"
  "content_parts (fst (repair_truncation m)) = content_parts m"
  by (simp_all add: repair_truncation_def Let_def)

lemma repair_truncation_call_ids [simp]: "call_ids (fst (repair_truncation m)) = call_ids m"
  by (simp add: call_ids_def)

lemma repair_truncation_unchanged: "\<not> snd (repair_truncation m) \<Longrightarrow> fst (repair_truncation m) = m"
  unfolding repair_truncation_def Let_def
  by (cases "ends_with (content m) fffd"; simp split: if_splits)

lemma truncation_answered:
  "answered_from seen (map (\<lambda>m. fst (repair_truncation m)) ms) = answered_from seen ms"
proof (induction ms arbitrary: seen)
  case (Cons m ms)
  show ?case by (cases "tool_call_id m") (simp_all add: Cons.IH)
qed simp

subsection \<open>Alternation\<close>

definition turn_ok :: "message \<Rightarrow> message \<Rightarrow> bool" where
  "turn_ok p m \<longleftrightarrow> \<not> (msg_role p = msg_role m \<and> msg_role m \<in> {RUser, RAssistant})"

definition alternating :: "message list \<Rightarrow> bool" where
  "alternating ms = successively turn_ok ms"

lemma alternating_rev_Cons:
  "alternating (rev (m # out)) \<longleftrightarrow> alternating (rev out) \<and> (out \<noteq> [] \<longrightarrow> turn_ok (hd out) m)"
  by (cases out) (auto simp: alternating_def successively_append_iff)

lemma fix_alternation_alternating:
  "alternating (rev out) \<Longrightarrow> alternating (fst (fix_alternation_from out n ms))"
proof (induction out n ms rule: fix_alternation_from.induct)
  case (2 out fixed m ms)
  have merge: "out = prev # rest \<Longrightarrow> alternating (rev (merge_into prev m # rest))" for prev rest
    using "2.prems" unfolding alternating_rev_Cons
    by (simp add: alternating_rev_Cons turn_ok_def del: rev.simps)
  have push: "out = [] \<or> msg_role (hd out) \<noteq> msg_role m \<or> msg_role m \<notin> {RUser, RAssistant}
      \<Longrightarrow> alternating (rev (m # out))"
    using "2.prems" unfolding alternating_rev_Cons by (auto simp: turn_ok_def)
  show ?case using 2 merge push by (auto split: list.splits simp del: rev.simps)
qed simp

lemma remove_duplicates_alternating:
  "alternating (rev out @ ms) \<Longrightarrow> alternating (fst (remove_duplicates_from out n ms))"
proof (induction out n ms rule: remove_duplicates_from.induct)
  case (2 out removed m ms)
  have skip: "same_message prev m \<Longrightarrow> alternating (rev (prev # rest) @ m # ms)
      \<Longrightarrow> alternating (rev (prev # rest) @ ms)" for prev rest
    by (cases ms) (auto simp: alternating_def successively_append_iff turn_ok_def same_message_def)
  show ?case using 2 skip by (auto split: list.splits)
qed simp

lemma truncation_alternating:
  "alternating (map (\<lambda>m. fst (repair_truncation m)) ms) = alternating ms"
  unfolding alternating_def successively_map
  by (rule arg_cong [where f = "\<lambda>P. successively P ms"]) (auto simp: turn_ok_def fun_eq_iff)

subsection \<open>The whole pipeline\<close>

lemma repair_messages_fst:
  "fst (repair_messages ms) =
     fst (repair_truncation_artifacts (fst (remove_consecutive_duplicates (fst (fix_role_alternation
       (fst (remove_empty_messages (fst (remove_orphan_tool_results ms)))))))))"
  by (simp add: repair_messages_def Let_def split: prod.splits)

lemmas pass_defs = remove_orphan_tool_results_def remove_empty_messages_def
  fix_role_alternation_def remove_consecutive_duplicates_def repair_truncation_artifacts_def

lemma filter_keep_length:
  "length (filter P ms) + length (filter (\<lambda>m. \<not> P m) ms) = length ms"
  by (rule sum_length_filter_compl)

lemma remove_orphans_zero: "snd (remove_orphans_from seen ms) = 0 \<Longrightarrow> fst (remove_orphans_from seen ms) = ms"
  by (induction seen ms rule: remove_orphans_from.induct)
    (auto simp: Let_def split: prod.splits option.splits if_splits)

lemma fix_alternation_counts_up: "n \<le> snd (fix_alternation_from out n ms)"
  by (induction out n ms rule: fix_alternation_from.induct) (auto split: list.splits)

lemma fix_alternation_zero:
  "snd (fix_alternation_from out n ms) = n \<Longrightarrow> fst (fix_alternation_from out n ms) = rev out @ ms"
proof (induction out n ms rule: fix_alternation_from.induct)
  case (2 out fixed m ms)
  have "snd (fix_alternation_from xs (Suc fixed) ms) \<noteq> fixed" for xs
    using fix_alternation_counts_up [of "Suc fixed" xs ms] by simp
  then show ?case using 2 by (auto split: list.splits if_splits)
qed simp

lemma remove_duplicates_counts_up: "n \<le> snd (remove_duplicates_from out n ms)"
  by (induction out n ms rule: remove_duplicates_from.induct) (auto split: list.splits)

lemma remove_duplicates_zero:
  "snd (remove_duplicates_from out n ms) = n \<Longrightarrow> fst (remove_duplicates_from out n ms) = rev out @ ms"
proof (induction out n ms rule: remove_duplicates_from.induct)
  case (2 out removed m ms)
  have "snd (remove_duplicates_from xs (Suc removed) ms) \<noteq> removed" for xs
    using remove_duplicates_counts_up [of "Suc removed" xs ms] by simp
  then show ?case using 2 by (auto split: list.splits if_splits)
qed simp

lemma filter_none_keep: "length (filter (\<lambda>m. \<not> P m) ms) = 0 \<Longrightarrow> filter P ms = ms"
  by (auto simp: filter_empty_conv filter_id_conv)

lemma truncation_zero:
  "length (filter (\<lambda>m. snd (repair_truncation m)) ms) = 0 \<Longrightarrow>
     map (\<lambda>m. fst (repair_truncation m)) ms = ms"
  by (auto simp: filter_empty_conv repair_truncation_unchanged intro: map_idI)

text \<open>A message counted as repaired is really another one: its length changes by \<open>-3k\<close>, \<open>+4\<close> or both.\<close>

lemma trim_end_matches_length:
  "\<exists>k. length s = length (trim_end_matches p s) + k * length p
      \<and> (p \<noteq> [] \<and> ends_with s p \<longrightarrow> 0 < k)"
proof (induction p s rule: trim_end_matches.induct)
  case (1 p s)
  show ?case
  proof (cases "p \<noteq> [] \<and> ends_with s p")
    case True
    with 1 obtain k where "length (take (length s - length p) s)
        = length (trim_end_matches p s) + k * length p"
      by (metis trim_end_matches.simps)
    moreover have "length p \<le> length s" using True by (simp add: suffix_length_le)
    ultimately have "length s = length (trim_end_matches p s) + Suc k * length p" by auto
    then show ?thesis by blast
  next
    case False
    then have "trim_end_matches p s = s" by (subst trim_end_matches.simps) auto
    with False show ?thesis by (intro exI [of _ 0]) simp
  qed
qed

lemma repair_truncation_changed:
  assumes "snd (repair_truncation m)"
  shows "fst (repair_truncation m) \<noteq> m"
proof -
  have "length fffd = 3" "fffd \<noteq> []" by (simp_all add: fffd_def)
  then obtain k where k: "length (content m) = length (trim_end_matches fffd (content m)) + k * 3"
      "ends_with (content m) fffd \<longrightarrow> 0 < k"
    using trim_end_matches_length [of "content m" fffd] by metis
  have "length (content (fst (repair_truncation m))) \<noteq> length (content m)"
    using assms k by (auto simp: repair_truncation_def Let_def split: if_splits) presburger
  then show ?thesis by auto
qed

lemma pass_lengths:
  assumes "repair_messages ms = (out, st)"
  shows "length out + orphan_tool_results_removed st + empty_messages_removed st
     + role_alternation_fixes st + duplicate_messages_removed st = length ms"
  using assms remove_orphans_length [of "{}" ms]
    filter_keep_length [of keep_message "fst (remove_orphans_from {} ms)"]
    fix_alternation_length [of "[]" 0 "filter keep_message (fst (remove_orphans_from {} ms))"]
    remove_duplicates_length [of "[]" 0 "fst (fix_alternation_from [] 0
      (filter keep_message (fst (remove_orphans_from {} ms))))"]
  by (auto simp: repair_messages_def pass_defs Let_def split: prod.splits)

lemma zero_passes:
  "remove_orphans_from {} ms = (xs, 0) \<Longrightarrow> xs = ms"
  "fix_alternation_from [] 0 ms = (xs, 0) \<Longrightarrow> xs = ms"
  "remove_duplicates_from [] 0 ms = (xs, 0) \<Longrightarrow> xs = ms"
  using remove_orphans_zero [of "{}" ms] fix_alternation_zero [of "[]" 0 ms]
    remove_duplicates_zero [of "[]" 0 ms] by simp_all

lemma repair_zero_unchanged:
  assumes r: "repair_messages ms = (out, st)" and z: "total_repairs st = 0"
  shows "out = ms"
proof -
  obtain x1 o1 where 1: "remove_orphans_from {} ms = (x1, o1)" by fastforce
  obtain x3 a3 where 3: "fix_alternation_from [] 0 (filter keep_message x1) = (x3, a3)" by fastforce
  obtain x4 d4 where 4: "remove_duplicates_from [] 0 x3 = (x4, d4)" by fastforce
  have "o1 = 0" "length (filter (\<lambda>m. \<not> keep_message m) x1) = 0" "a3 = 0" "d4 = 0"
      "length (filter (\<lambda>m. snd (repair_truncation m)) x4) = 0"
      and out: "out = map (\<lambda>m. fst (repair_truncation m)) x4"
    using r z 1 3 4 by (auto simp: repair_messages_def pass_defs total_repairs_def Let_def)
  with 1 3 4 show ?thesis
    by (metis zero_passes filter_none_keep truncation_zero)
qed

lemma repair_unchanged_zero:
  assumes r: "repair_messages ms = (out, st)" and same: "out = ms"
  shows "total_repairs st = 0"
proof -
  have four: "orphan_tool_results_removed st = 0 \<and> empty_messages_removed st = 0
      \<and> role_alternation_fixes st = 0 \<and> duplicate_messages_removed st = 0"
    using pass_lengths [OF r] same by simp
  obtain x1 o1 where 1: "remove_orphans_from {} ms = (x1, o1)" by fastforce
  obtain x3 a3 where 3: "fix_alternation_from [] 0 (filter keep_message x1) = (x3, a3)" by fastforce
  obtain x4 d4 where 4: "remove_duplicates_from [] 0 x3 = (x4, d4)" by fastforce
  have z: "o1 = 0" "length (filter (\<lambda>m. \<not> keep_message m) x1) = 0" "a3 = 0" "d4 = 0"
      and out: "out = map (\<lambda>m. fst (repair_truncation m)) x4"
      and t: "truncation_repairs st = length (filter (\<lambda>m. snd (repair_truncation m)) x4)"
    using r four 1 3 4 by (auto simp: repair_messages_def pass_defs Let_def)
  have "x4 = ms" using z 1 3 4 by (metis zero_passes filter_none_keep)
  with out same have "\<forall>m \<in> set ms. fst (repair_truncation m) = m"
    by (metis list.map_ident map_eq_conv)
  then have "filter (\<lambda>m. snd (repair_truncation m)) x4 = []"
    using repair_truncation_changed \<open>x4 = ms\<close> by (auto simp: filter_empty_conv)
  with t four show ?thesis by (simp add: total_repairs_def)
qed

section \<open>Properties\<close>

text \<open>
  C7. Whatever history goes in (with tool calls on assistant messages only, as every constructor makes them), every tool
  result of the repaired history answers a tool call of a message before it: the later passes
  (dropping empty messages, merging turns, dropping duplicates) never lose the call.
\<close>

theorem repair_tool_results_answered:
  assumes "calls_by_assistant ms"
  shows "answered_from {} (fst (repair_messages ms))"
proof -
  let ?ms2 = "filter keep_message (fst (remove_orphans_from {} ms))"
  have "answered_from {} ?ms2" "calls_by_assistant ?ms2"
    using assms remove_orphans_answered remove_orphans_calls filter_keep_answered by auto
  then have "answered_from {} (fst (fix_alternation_from [] 0 ?ms2))"
    using fix_alternation_answered [of "[]" ?ms2 0] by simp
  then have "answered_from {} (fst (remove_duplicates_from [] 0 (fst (fix_alternation_from [] 0 ?ms2))))"
    using remove_duplicates_answered [of "[]"] by simp
  then show ?thesis by (simp add: repair_messages_fst pass_defs truncation_answered)
qed

theorem repair_tool_results_answered_witness:
  "calls_by_assistant [msg_user ''hi'', msg_tool_result ''c1'' ''out'']
   \<and> answered_from {} (fst (repair_messages [msg_user ''hi'', msg_tool_result ''c1'' ''out'']))"
proof -
  have "calls_by_assistant [msg_user ''hi'', msg_tool_result ''c1'' ''out'']"
    by (simp add: msg_user_def msg_tool_result_def)
  then show ?thesis using repair_tool_results_answered by blast
qed

text \<open>
  In a repaired history no two neighbouring messages are both from the user or both from
  the assistant.
\<close>

theorem repair_alternates: "alternating (fst (repair_messages ms))"
proof -
  let ?ms2 = "filter keep_message (fst (remove_orphans_from {} ms))"
  have "alternating (fst (fix_alternation_from [] 0 ?ms2))"
    by (rule fix_alternation_alternating) (simp add: alternating_def)
  then have "alternating (fst (remove_duplicates_from [] 0 (fst (fix_alternation_from [] 0 ?ms2))))"
    using remove_duplicates_alternating [of "[]"] by simp
  then show ?thesis by (simp add: repair_messages_fst pass_defs truncation_alternating)
qed

text \<open>
  The statistics are exact: the four removal counters account for every message that is
  missing from the output, and \<open>total_repairs\<close> is zero exactly when the history comes out
  unchanged, so a caller that skips saving at zero never loses a repair.
\<close>

theorem repair_stats_exact:
  "length (fst (repair_messages ms)) + orphan_tool_results_removed (snd (repair_messages ms))
      + empty_messages_removed (snd (repair_messages ms)) + role_alternation_fixes (snd (repair_messages ms))
      + duplicate_messages_removed (snd (repair_messages ms)) = length ms
   \<and> (total_repairs (snd (repair_messages ms)) = 0) = (fst (repair_messages ms) = ms)"
  using pass_lengths [of ms] repair_zero_unchanged [of ms] repair_unchanged_zero [of ms]
  by (cases "repair_messages ms") auto

text \<open>
  One run is not always enough: truncation repair runs last, so a message that consists
  of replacement characters survives the empty-message pass and leaves as an empty message,
  which only a second run removes. Repair is not idempotent.
\<close>

theorem repair_not_idempotent:
  "fst (repair_messages (fst (repair_messages [msg_user fffd]))) \<noteq> fst (repair_messages [msg_user fffd])"
  by code_simp

text \<open>
  Merging two user turns keeps the text of the second and drops its images: the
  \<open>content_parts\<close> of the merged message are those of the first turn alone.
\<close>

theorem merge_drops_images:
  "has_images m \<Longrightarrow> msg_role m = RUser \<Longrightarrow> keep_message m \<Longrightarrow> keep_message (msg_user c) \<Longrightarrow>
   tool_calls m = None \<Longrightarrow>
   \<not> list_ex has_images (fst (repair_messages [msg_user c, m]))"
  by (simp add: repair_messages_fst pass_defs call_ids_def msg_user_def has_images_def
      merge_into_def Let_def split: prod.splits)

theorem merge_drops_images_witness:
  "\<not> list_ex has_images (fst (repair_messages
     [msg_user ''look'', msg_user_with_images ''here'' [Image (Url ''u'') ''image/png'']]))"
  by (rule merge_drops_images) code_simp+

end
