(* ===== verification/Provider_Api.thy ===== *)
theory Provider_Api
  imports Errors Session "HOL-Library.Monad_Syntax"
begin

text \<open>
  The \<open>LLMProvider\<close> interface of \<open>src/src/providers/types.rs\<close> and the environment its
  decorators run in. A request to a provider is a state transformer on a world \<open>'w\<close> that
  holds whatever the provider reads and writes (its own counters, the network, the clock);
  it yields a result of the program's error type, or \<open>None\<close> where the code panics. The clock
  and \<open>sleep\<close> are operations on that world, collected in the record \<open>world\<close>.

  The contract every provider owes its clients is the locale \<open>provider_call\<close>: a request
  returns (it never panics) and time does not run backwards. The decorators of the following
  theories take such a call and are shown to be such a call again.
\<close>

section \<open>Responses\<close>

record usage =
  prompt_tokens :: nat
  completion_tokens :: nat
  total_tokens :: nat

definition usage_new :: "nat \<Rightarrow> nat \<Rightarrow> usage" where
  "usage_new p c = \<lparr>prompt_tokens = p, completion_tokens = c, total_tokens = wrap32 (p + c)\<rparr>"

record llm_tool_call =
  ltc_id :: string
  ltc_name :: string
  ltc_arguments :: string

record llm_response =
  resp_content :: string
  resp_tool_calls :: "llm_tool_call list"
  resp_usage :: "usage option"

definition llm_response_text :: "string \<Rightarrow> llm_response" where
  "llm_response_text c = \<lparr>resp_content = c, resp_tool_calls = [], resp_usage = None\<rparr>"

datatype stream_event =
    Delta string
  | ToolCalls "llm_tool_call list"
  | Done string "usage option"
  | StreamError zepto_error

section \<open>Calls and worlds\<close>

type_synonym ('a, 'w) call = "'w \<Rightarrow> ('a zresult \<times> 'w) option"

record 'w world =
  instant_ms :: "'w \<Rightarrow> nat"
  epoch_secs :: "'w \<Rightarrow> nat"
  subsec_nanos :: "'w \<Rightarrow> nat"
  sleep_ms :: "nat \<Rightarrow> 'w \<Rightarrow> 'w"

text \<open>
  The request data (messages, tools and options) is passed through unchanged by every
  decorator and stays abstract; the model name is explicit because the fallback layer
  replaces it.
\<close>

record ('r, 'w) llm_provider =
  provider_name :: string
  default_model :: string
  chat :: "'r \<Rightarrow> string option \<Rightarrow> (llm_response, 'w) call"
  chat_stream :: "'r \<Rightarrow> string option \<Rightarrow> (stream_event list, 'w) call"

text \<open>
  The trait's default \<open>chat_stream\<close>: one chat, then its parts as events in a channel of
  capacity three. Nobody receives before the function returns.
\<close>

definition stream_events :: "llm_response \<Rightarrow> stream_event list" where
  "stream_events r =
     (if resp_content r \<noteq> [] then [Delta (resp_content r)] else [])
     @ (if resp_tool_calls r \<noteq> [] then [ToolCalls (resp_tool_calls r)] else [])
     @ [Done (resp_content r) (resp_usage r)]"

definition default_chat_stream ::
    "('r \<Rightarrow> string option \<Rightarrow> (llm_response, 'w) call) \<Rightarrow> 'r \<Rightarrow> string option \<Rightarrow> (stream_event list, 'w) call" where
  "default_chat_stream ch req model w = do {
     (res, w1) \<leftarrow> ch req model w;
     (case res of
        Inl e \<Rightarrow> Some (Inl e, w1)
      | Inr response \<Rightarrow> Some (Inr (stream_events response), w1))
   }"

section \<open>The contract of a call\<close>

locale provider_call =
  fixes W :: "'w world" and call :: "('a, 'w) call"
  assumes returns: "\<exists>r w'. call w = Some (r, w') \<and> instant_ms W w \<le> instant_ms W w'"
begin

lemma no_panic: "call w \<noteq> None"
  using returns [of w] by auto

lemma clock_mono: "call w = Some (r, w') \<Longrightarrow> instant_ms W w \<le> instant_ms W w'"
  using returns [of w] by auto

lemma returnsE:
  obtains r w' where "call w = Some (r, w')" "instant_ms W w \<le> instant_ms W w'"
  using returns by blast

end

text \<open>A provider whose two operations keep the contract of a call.\<close>

locale provider_ok =
  fixes W :: "'w world" and p :: "('r, 'w) llm_provider"
  assumes chat_call: "provider_call W (chat p req model)"
    and stream_call: "provider_call W (chat_stream p req model)"
begin

lemma chat_returnsE:
  obtains r w' where "chat p req model w = Some (r, w')" "instant_ms W w \<le> instant_ms W w'"
  by (rule provider_call.returnsE [OF chat_call])

lemma stream_returnsE:
  obtains r w' where "chat_stream p req model w = Some (r, w')" "instant_ms W w \<le> instant_ms W w'"
  by (rule provider_call.returnsE [OF stream_call])

end

text \<open>An environment whose \<open>sleep\<close> really waits.\<close>

locale sleeping_world =
  fixes W :: "'w world"
  assumes sleep_advances: "instant_ms W w + d \<le> instant_ms W (sleep_ms W d w)"

section \<open>Observing a call\<close>

text \<open>
  \<open>logged\<close> runs a call and appends its result to a log kept beside the world, so that a
  decorator's use of the call it wraps can be stated.
\<close>

definition log_world :: "'w world \<Rightarrow> ('w \<times> 'l) world" where
  "log_world W = \<lparr>instant_ms = instant_ms W \<circ> fst, epoch_secs = epoch_secs W \<circ> fst,
     subsec_nanos = subsec_nanos W \<circ> fst, sleep_ms = (\<lambda>d (w, l). (sleep_ms W d w, l))\<rparr>"

definition logged :: "('a, 'w) call \<Rightarrow> ('a, 'w \<times> 'a zresult list) call" where
  "logged call = (\<lambda>(w, l). map_option (\<lambda>(r, w'). (r, (w', l @ [r]))) (call w))"

definition unlog :: "('b \<times> ('w \<times> 'l)) option \<Rightarrow> ('b \<times> 'w) option" where
  "unlog = map_option (apsnd fst)"

lemma log_world_simps [simp]:
  "instant_ms (log_world W) wl = instant_ms W (fst wl)"
  "epoch_secs (log_world W) wl = epoch_secs W (fst wl)"
  "subsec_nanos (log_world W) wl = subsec_nanos W (fst wl)"
  "sleep_ms (log_world W) d (w, l) = (sleep_ms W d w, l)"
  by (simp_all add: log_world_def)

lemma logged_simps:
  "call w = None \<Longrightarrow> logged call (w, l) = None"
  "call w = Some (r, w') \<Longrightarrow> logged call (w, l) = Some (r, (w', l @ [r]))"
  by (simp_all add: logged_def)

lemma unlog_simps [simp]:
  "unlog None = None" "unlog (Some (b, (w, l))) = Some (b, w)"
  by (simp_all add: unlog_def)

text \<open>
  A scripted world for concrete runs: a clock in milliseconds and the answers still to come.
  Every request takes one millisecond; the last answer repeats.
\<close>

record 'a script =
  sc_clock :: nat
  sc_answers :: "'a zresult list"

definition script_world :: "('a script) world" where
  "script_world = \<lparr>instant_ms = sc_clock, epoch_secs = (\<lambda>s. sc_clock s div 1000),
     subsec_nanos = (\<lambda>s. sc_clock s * 1000), sleep_ms = (\<lambda>d s. s\<lparr>sc_clock := sc_clock s + d\<rparr>)\<rparr>"

definition scripted :: "('a, 'a script) call" where
  "scripted s =
     (case sc_answers s of
        [] \<Rightarrow> Some (Inl (Provider ''script is empty''), s\<lparr>sc_clock := sc_clock s + 1\<rparr>)
      | [r] \<Rightarrow> Some (r, s\<lparr>sc_clock := sc_clock s + 1\<rparr>)
      | r # rs \<Rightarrow> Some (r, s\<lparr>sc_clock := sc_clock s + 1, sc_answers := rs\<rparr>))"

interpretation scripted: provider_call script_world "scripted :: ('a, 'a script) call"
  by unfold_locales (auto simp: scripted_def script_world_def split: list.splits)

lemma default_chat_stream_call:
  assumes "provider_call W (ch req model)"
  shows "provider_call W (default_chat_stream ch req model)"
proof
  fix w
  obtain r w' where "ch req model w = Some (r, w')" "instant_ms W w \<le> instant_ms W w'"
    by (rule provider_call.returnsE [OF assms])
  then show "\<exists>r w'. default_chat_stream ch req model w = Some (r, w') \<and> instant_ms W w \<le> instant_ms W w'"
    by (cases r) (auto simp: default_chat_stream_def)
qed

text \<open>A provider that answers from the script and streams by the trait's default.\<close>

definition scripted_provider :: "string \<Rightarrow> string \<Rightarrow> ('r, llm_response script) llm_provider" where
  "scripted_provider name dm = \<lparr>provider_name = name, default_model = dm,
     chat = (\<lambda>_ _. scripted), chat_stream = default_chat_stream (\<lambda>_ _. scripted)\<rparr>"

interpretation scripted_provider: provider_ok script_world
    "scripted_provider n dm :: ('r, llm_response script) llm_provider" for n dm
  by (rule provider_ok.intro)
    (simp_all add: scripted_provider_def scripted.provider_call_axioms default_chat_stream_call)

interpretation script_sleep: sleeping_world "script_world :: ('a script) world"
  by unfold_locales (simp add: script_world_def)

section \<open>Properties\<close>

text \<open>
  The default streaming path never blocks: every response yields between one and three
  events, which fit the channel's capacity of three although nothing is received meanwhile,
  the last and only the last of them is \<open>Done\<close>, and the deltas concatenate to the content
  that \<open>Done\<close> carries.
\<close>

theorem stream_events_fit:
  "length (stream_events r) \<in> {1..3}
   \<and> last (stream_events r) = Done (resp_content r) (resp_usage r)
   \<and> filter (\<lambda>e. e \<in> range (case_prod Done)) (stream_events r) = [Done (resp_content r) (resp_usage r)]
   \<and> concat (map (\<lambda>e. case e of Delta d \<Rightarrow> d | _ \<Rightarrow> []) (stream_events r)) = resp_content r"
  by (auto simp: stream_events_def)

end
