(* ===== verification/Retry.thy ===== *)
theory Retry
  imports Provider_Api
begin

text \<open>
  The retry decorator of \<open>src/src/providers/retry.rs\<close>: which errors are transient, the
  backoff delay, and the attempt loop shared by \<open>chat\<close> and \<open>chat_stream\<close>. The loop's
  \<open>last_err.unwrap()\<close> is a possible panic (\<open>None\<close>) in the model; the locale lemmas show it
  never happens. \<open>embed\<close>, which passes through without retry, is left out.
\<close>

section \<open>Transient errors\<close>

definition is_context_window_exceeded :: "string \<Rightarrow> bool" where
  "is_context_window_exceeded msg =
     contains_any (to_lowercase msg)
       [''exceeds the context window'', ''context window of this model'', ''maximum context length'',
        ''context length exceeded'', ''max_tokens is too large'']"

definition is_auth_failure :: "string \<Rightarrow> bool" where
  "is_auth_failure msg =
     contains_any (to_lowercase msg)
       [''invalid api key'', ''incorrect api key'', ''missing api key'', ''api key not set'',
        ''authentication failed'', ''auth failed'', ''unauthorized'', ''forbidden'',
        ''permission denied'', ''access denied'', ''invalid_token'']"

definition is_model_not_found :: "string \<Rightarrow> bool" where
  "is_model_not_found msg \<longleftrightarrow>
     str_contains (to_lowercase msg) ''model''
     \<and> (str_contains (to_lowercase msg) ''not found'' \<or> str_contains (to_lowercase msg) ''does not exist''
        \<or> str_contains (to_lowercase msg) ''unknown model'' \<or> str_contains (to_lowercase msg) ''unsupported model'')"

fun is_retryable :: "zepto_error \<Rightarrow> bool" where
  "is_retryable (ProviderTyped pe) = provider_is_retryable pe"
| "is_retryable (Provider msg) =
     (let lower = to_lowercase msg in
      if is_context_window_exceeded msg \<or> is_auth_failure msg \<or> is_model_not_found msg then False
      else if contains_any lower [''http 400'', ''http 401'', ''http 403'', ''http 404''] then False
      else (str_contains lower ''rate limit'' \<or> str_contains lower ''rate_limit'')
           \<or> str_contains lower ''429'' \<or> str_contains lower ''500'' \<or> str_contains lower ''overload''
           \<or> str_contains lower ''server error'' \<or> str_contains lower ''502'' \<or> str_contains lower ''503''
           \<or> str_contains lower ''504'' \<or> str_contains lower ''timeout'')"
| "is_retryable _ = False"

section \<open>Delays\<close>

definition compute_delay :: "nat \<Rightarrow> nat \<Rightarrow> nat \<Rightarrow> nat \<Rightarrow> nat" where
  "compute_delay attempt base_ms max_ms jitter_ms =
     (let exponential = sat64 (base_ms * 2 ^ min attempt 16)
      in min (sat64 (exponential + jitter_ms)) max_ms)"

definition delay_with_jitter :: "'w world \<Rightarrow> nat \<Rightarrow> nat \<Rightarrow> nat \<Rightarrow> 'w \<Rightarrow> 'w" where
  "delay_with_jitter W attempt base_ms max_ms w =
     (let exponential = sat64 (base_ms * 2 ^ min attempt 16);
          jitter_ms = subsec_nanos W w mod max base_ms 1;
          delay = min (sat64 (exponential + jitter_ms)) max_ms
      in sleep_ms W delay w)"

section \<open>The attempt loop\<close>

record retry_config =
  max_retries :: nat
  base_delay_ms :: nat
  max_delay_ms :: nat
  retry_budget_ms :: nat

definition retry_default :: retry_config where
  "retry_default = \<lparr>max_retries = 3, base_delay_ms = 1000, max_delay_ms = 30000, retry_budget_ms = 45000\<rparr>"

definition budget_exceeded :: "'w world \<Rightarrow> retry_config \<Rightarrow> nat \<Rightarrow> 'w \<Rightarrow> bool" where
  "budget_exceeded W c start w \<longleftrightarrow>
     0 < retry_budget_ms c \<and> retry_budget_ms c \<le> wrap64 (instant_ms W w - start)"

text \<open>The statements before an attempt that is not the first: budget check, then the delay.\<close>

definition before_retry ::
    "'w world \<Rightarrow> retry_config \<Rightarrow> nat \<Rightarrow> nat \<Rightarrow> 'w \<Rightarrow> 'w option" where
  "before_retry W c start attempt w =
     (if budget_exceeded W c start w then None
      else Some (delay_with_jitter W (attempt - 1) (base_delay_ms c) (max_delay_ms c) w))"

text \<open>
  \<open>retry_from attempt k\<close> is the loop at index \<open>attempt\<close> with \<open>k\<close> iterations left; at the end
  of the loop comes the final attempt, whose result is returned as it is.
\<close>

fun retry_from ::
    "'w world \<Rightarrow> retry_config \<Rightarrow> nat \<Rightarrow> ('a, 'w) call \<Rightarrow> nat \<Rightarrow> nat \<Rightarrow> zepto_error option \<Rightarrow> ('a, 'w) call" where
  "retry_from W c start call attempt 0 last_err w =
     (if 0 < max_retries c
      then (case before_retry W c start (max_retries c) w of
              None \<Rightarrow> (case last_err of Some e \<Rightarrow> Some (Inl e, w) | None \<Rightarrow> None)
            | Some w1 \<Rightarrow> call w1)
      else call w)"
| "retry_from W c start call attempt (Suc k) last_err w =
     (case (if 0 < attempt then before_retry W c start attempt w else Some w) of
        None \<Rightarrow> (case last_err of Some e \<Rightarrow> Some (Inl e, w) | None \<Rightarrow> None)
      | Some w1 \<Rightarrow> do {
          (res, w2) \<leftarrow> call w1;
          (case res of
             Inr response \<Rightarrow> Some (Inr response, w2)
           | Inl err \<Rightarrow>
               if \<not> is_retryable err then Some (Inl err, w2)
               else retry_from W c start call (Suc attempt) k (Some err) w2)
        })"

definition retry_call :: "'w world \<Rightarrow> retry_config \<Rightarrow> ('a, 'w) call \<Rightarrow> ('a, 'w) call" where
  "retry_call W c call w = retry_from W c (instant_ms W w) call 0 (max_retries c) None w"

definition retry_chat ::
    "'w world \<Rightarrow> retry_config \<Rightarrow> ('r, 'w) llm_provider \<Rightarrow> 'r \<Rightarrow> string option \<Rightarrow> (llm_response, 'w) call" where
  "retry_chat W c inner req model = retry_call W c (chat inner req model)"

definition retry_chat_stream ::
    "'w world \<Rightarrow> retry_config \<Rightarrow> ('r, 'w) llm_provider \<Rightarrow> 'r \<Rightarrow> string option \<Rightarrow> (stream_event list, 'w) call" where
  "retry_chat_stream W c inner req model = retry_call W c (chat_stream inner req model)"

definition retry_provider :: "'w world \<Rightarrow> retry_config \<Rightarrow> ('r, 'w) llm_provider \<Rightarrow> ('r, 'w) llm_provider" where
  "retry_provider W c inner =
     \<lparr>provider_name = provider_name inner, default_model = default_model inner,
      chat = retry_chat W c inner, chat_stream = retry_chat_stream W c inner\<rparr>"

section \<open>Lemmas\<close>

lemma delay_with_jitter_compute:
  "delay_with_jitter W a b m w = sleep_ms W (compute_delay a b m (subsec_nanos W w mod max b 1)) w"
  by (simp add: delay_with_jitter_def compute_delay_def Let_def)

lemma compute_delay_mono:
  assumes "a \<le> a'" shows "compute_delay a b m j \<le> compute_delay a' b m j"
proof -
  have "b * 2 ^ min a 16 \<le> b * 2 ^ min a' 16"
    using assms by (intro mult_le_mono2 power_increasing) auto
  then have "sat64 (sat64 (b * 2 ^ min a 16) + j) \<le> sat64 (sat64 (b * 2 ^ min a' 16) + j)"
    by (simp add: sat64_mono)
  then show ?thesis by (simp add: compute_delay_def Let_def)
qed

lemma compute_delay_exact:
  assumes "m \<le> u64_max" shows "compute_delay a b m j = min (b * 2 ^ min a 16 + j) m"
  using assms by (simp add: compute_delay_def Let_def sat64_def)

locale retry_layer = provider_call W call + sleeping_world W
  for W :: "'w world" and call :: "('a, 'w) call" +
  fixes c :: retry_config
begin

lemma before_retry_clock: "before_retry W c s a w = Some w1 \<Longrightarrow> instant_ms W w \<le> instant_ms W w1"
  using sleep_advances by (auto simp: before_retry_def delay_with_jitter_compute split: if_splits
      intro: add_leD1)

lemma retry_from_returns:
  assumes "0 < attempt \<or> k = max_retries c \<and> last_err = None \<and> attempt = 0"
    and "0 < attempt \<longrightarrow> last_err \<noteq> None"
  shows "\<exists>r w'. retry_from W c s call attempt k last_err w = Some (r, w') \<and> instant_ms W w \<le> instant_ms W w'"
  using assms
proof (induction k arbitrary: attempt last_err w)
  case 0
  show ?case
  proof (cases "before_retry W c s (max_retries c) w")
    case None
    then show ?thesis using 0 returns [of w] by (cases last_err) auto
  next
    case (Some w1)
    then show ?thesis
      using returns [of w1] returns [of w] before_retry_clock [OF Some] by (auto intro: le_trans)
  qed
next
  case (Suc k)
  let ?b = "if 0 < attempt then before_retry W c s attempt w else Some w"
  show ?case
  proof (cases ?b)
    case None
    with Suc.prems show ?thesis by (cases last_err) (auto split: if_splits)
  next
    case (Some w1)
    have w1: "instant_ms W w \<le> instant_ms W w1"
      using Some before_retry_clock by (auto split: if_splits)
    obtain res w2 where res: "call w1 = Some (res, w2)" "instant_ms W w1 \<le> instant_ms W w2"
      by (rule returnsE)
    have rest: "\<exists>r w'. retry_from W c s call (Suc attempt) k (Some e) w2 = Some (r, w')
        \<and> instant_ms W w2 \<le> instant_ms W w'" for e
      by (rule Suc.IH) simp_all
    show ?thesis
    proof (cases res)
      case (Inl e)
      then show ?thesis using Some res w1 rest [of e] by (auto simp del: is_retryable.simps intro: le_trans)
    next
      case (Inr a)
      then show ?thesis using Some res w1 by (auto intro: le_trans)
    qed
  qed
qed

lemma retry_returns:
  "\<exists>r w'. retry_call W c call w = Some (r, w') \<and> instant_ms W w \<le> instant_ms W w'"
  by (simp add: retry_call_def retry_from_returns)

end

text \<open>A call wrapped by the retry layer is a call with the same contract.\<close>

sublocale retry_layer \<subseteq> retried: provider_call W "retry_call W c call"
  by unfold_locales (rule retry_returns)

interpretation scripted_retry: retry_layer script_world "scripted :: ('a, 'a script) call" retry_default
  by unfold_locales

subsection \<open>What the inner calls look like\<close>

text \<open>
  The log of one run: it is not empty, everything before its last entry is a transient error,
  and a run that ends in a transient error has used up its attempts or its time.
\<close>

definition transient :: "'a zresult \<Rightarrow> bool" where
  "transient r = (case r of Inl e \<Rightarrow> is_retryable e | Inr _ \<Rightarrow> False)"

definition retry_log_ok ::
    "'w world \<Rightarrow> retry_config \<Rightarrow> nat \<Rightarrow> 'a zresult \<Rightarrow> 'w \<Rightarrow> 'a zresult list \<Rightarrow> bool" where
  "retry_log_ok W c start r w log \<longleftrightarrow>
     log \<noteq> [] \<and> length log \<le> Suc (max_retries c) \<and> r = last log
     \<and> list_all transient (butlast log)
     \<and> (transient r \<longrightarrow> length log = Suc (max_retries c) \<or> budget_exceeded W c start w)"

lemma before_retry_log:
  "before_retry (log_world W) c s a (w, l) = map_option (\<lambda>w1. (w1, l)) (before_retry W c s a w)"
  by (simp add: before_retry_def budget_exceeded_def delay_with_jitter_compute)

lemma retry_from_log:
  assumes "attempt + k = max_retries c" "length log = attempt" "list_all transient log"
    and "log = [] \<longrightarrow> last_err = None" "log \<noteq> [] \<longrightarrow> (\<exists>e. last_err = Some e \<and> last log = Inl e)"
    and "retry_from (log_world W) c s (logged call) attempt k last_err (w, log) = Some (r, (w', log'))"
  shows "retry_log_ok W c s r w' log'"
  using assms
proof (induction k arbitrary: attempt last_err w log)
  case 0
  show ?case
  proof (cases "max_retries c = 0")
    case True
    with 0 show ?thesis
      by (cases "call w") (auto simp: logged_def retry_log_ok_def)
  next
    case False
    with 0 have ne: "log \<noteq> []" by auto
    then obtain e where e: "last_err = Some e" "last log = Inl e" using 0 by auto
    have tr: "transient (Inl e :: 'a zresult)" using e(2) ne 0 by (metis last_in_set list_all_iff)
    show ?thesis
    proof (cases "before_retry W c s (max_retries c) w")
      case None
      then have b: "budget_exceeded W c s w" by (auto simp: before_retry_def split: if_splits)
      have "r = Inl e" "w' = w" "log' = log" using None 0 False e by (auto simp: before_retry_log)
      then show ?thesis using b 0 ne e tr
        by (auto simp: retry_log_ok_def list_all_iff dest: in_set_butlastD)
    next
      case (Some w1)
      then show ?thesis using 0 False
        by (cases "call w1") (auto simp: before_retry_log logged_def retry_log_ok_def)
    qed
  qed
next
  case (Suc k)
  let ?b = "if 0 < attempt then before_retry W c s attempt w else Some w"
  have b_log: "(if 0 < attempt then before_retry (log_world W) c s attempt (w, log) else Some (w, log))
      = map_option (\<lambda>w1. (w1, log)) ?b"
    by (simp add: before_retry_log)
  show ?case
  proof (cases ?b)
    case None
    then have at: "0 < attempt" and b: "budget_exceeded W c s w"
      by (auto simp: before_retry_def split: if_splits)
    with Suc.prems obtain e where e: "last_err = Some e" "last log = Inl e" and ne: "log \<noteq> []" by auto
    have "r = Inl e" "w' = w" "log' = log" using Suc.prems(6) None at b e b_log
      by (simp_all add: before_retry_log)
    then show ?thesis using b Suc.prems ne e
      by (auto simp: retry_log_ok_def list_all_iff dest: in_set_butlastD)
  next
    case (Some w1)
    obtain res w2 where res: "call w1 = Some (res, w2)"
      using Suc.prems(6) Some b_log by (cases "call w1") (auto simp: logged_def)
    have run: "retry_from (log_world W) c s (logged call) attempt (Suc k) last_err (w, log) =
      (case res of Inr a \<Rightarrow> Some (Inr a, (w2, log @ [res]))
       | Inl e \<Rightarrow> if \<not> is_retryable e then Some (Inl e, (w2, log @ [res]))
           else retry_from (log_world W) c s (logged call) (Suc attempt) k (Some e) (w2, log @ [res]))"
      using Some res b_log by (simp add: logged_simps del: is_retryable.simps)
    show ?thesis
    proof (cases "transient res")
      case True
      then obtain e where e: "res = Inl e" "is_retryable e" by (cases res) (auto simp: transient_def)
      show ?thesis
        by (rule Suc.IH [of "Suc attempt" "log @ [res]" "Some e" w2])
          (use Suc.prems True e run in \<open>simp_all del: is_retryable.simps\<close>)
    next
      case False
      then have "r = res" "w' = w2" "log' = log @ [res]"
        using Suc.prems(6) run
        by (auto simp: transient_def simp del: is_retryable.simps retry_from.simps split: sum.splits)
      then show ?thesis using False Suc.prems by (auto simp: retry_log_ok_def)
    qed
  qed
qed

text \<open>Forgetting the log gives the run of the code itself.\<close>

lemma retry_from_unlog:
  "unlog (retry_from (log_world W) c s (logged call) attempt k last_err (w, log)) =
     retry_from W c s call attempt k last_err w"
proof (induction k arbitrary: attempt last_err w log)
  case 0
  show ?case
    by (cases "before_retry W c s (max_retries c) w"; cases last_err; cases "0 < max_retries c")
      (auto simp: before_retry_log logged_def unlog_def option.map_comp comp_def split: prod.splits
        intro: option.map_ident_strong)
next
  case (Suc k)
  let ?b = "if 0 < attempt then before_retry W c s attempt w else Some w"
  have b_log: "(if 0 < attempt then before_retry (log_world W) c s attempt (w, log) else Some (w, log))
      = map_option (\<lambda>w1. (w1, log)) ?b"
    by (simp add: before_retry_log)
  show ?case
  proof (cases ?b)
    case None
    then show ?thesis using b_log by (cases last_err) simp_all
  next
    case (Some w1)
    show ?thesis
    proof (cases "call w1")
      case None
      then show ?thesis using Some b_log by (simp add: logged_simps)
    next
      case (Some p)
      then obtain res w2 where "call w1 = Some (res, w2)" by (cases p) auto
      then show ?thesis using \<open>?b = Some w1\<close> b_log Suc.IH
        by (cases res) (simp_all add: logged_simps del: is_retryable.simps)
    qed
  qed
qed

section \<open>Properties\<close>

text \<open>
  C36. Retry discipline. Every run makes at least one and at most \<open>max_retries + 1\<close> inner calls;
  the answer is that of the last call made; every earlier call failed with a transient error
  (so a success or a permanent error is returned at once); and a transient error comes back
  only when all attempts are used or the wall-clock budget is spent.
\<close>

theorem retry_discipline:
  assumes "retry_call W c call w = Some (r, w')"
  shows "\<exists>log. retry_call (log_world W) c (logged call) (w, []) = Some (r, (w', log))
    \<and> 1 \<le> length log \<and> length log \<le> Suc (max_retries c)
    \<and> r = last log \<and> list_all transient (butlast log)
    \<and> (transient r \<longrightarrow> length log = Suc (max_retries c) \<or> budget_exceeded W c (instant_ms W w) w')"
proof -
  let ?run = "retry_from (log_world W) c (instant_ms W w) (logged call) 0 (max_retries c) None (w, [])"
  have "unlog ?run = Some (r, w')"
    using assms retry_from_unlog [of W c "instant_ms W w" call 0 "max_retries c" None w "[]"]
    by (simp add: retry_call_def)
  then obtain log where run: "?run = Some (r, (w', log))"
    by (auto simp: unlog_def)
  have "retry_log_ok W c (instant_ms W w) r w' log"
    by (rule retry_from_log [OF _ _ _ _ _ run]) simp_all
  then show ?thesis using run by (auto simp: retry_log_ok_def retry_call_def Suc_le_eq)
qed

definition flaky :: "nat script" where
  "flaky = \<lparr>sc_clock = 0, sc_answers = [Inl (ProviderTyped (PE_RateLimit ''slow down'')), Inr 7]\<rparr>"

theorem retry_discipline_witness:
  "\<exists>w'. retry_call script_world retry_default scripted flaky = Some (Inr 7, w')
   \<and> (\<exists>log. retry_call (log_world script_world) retry_default (logged scripted) (flaky, []) = Some (Inr 7, (w', log))
        \<and> length log \<le> 4 \<and> list_all transient (butlast log))"
proof -
  have run: "retry_call script_world retry_default scripted flaky
      = Some (Inr 7, \<lparr>sc_clock = 1002, sc_answers = [Inr 7]\<rparr>)"
    by code_simp
  from retry_discipline [OF run] run show ?thesis by (auto simp: retry_default_def)
qed

text \<open>
  Around any provider that keeps the contract of a call, in a world where sleeping takes
  time, a retried request always returns: neither \<open>unwrap\<close> on the remembered error can panic,
  and the clock has not run backwards.
\<close>

theorem retry_never_panics:
  assumes "provider_call W call" "sleeping_world W"
  shows "\<exists>r w'. retry_call W c call w = Some (r, w') \<and> instant_ms W w \<le> instant_ms W w'"
proof -
  have "retry_layer W call" using assms by (rule retry_layer.intro)
  then show ?thesis by (rule retry_layer.retry_returns)
qed

theorem retry_never_panics_witness:
  "\<exists>r w'. retry_call script_world retry_default scripted flaky = Some (r, w')
     \<and> instant_ms script_world flaky \<le> instant_ms script_world w'"
  by (rule retry_never_panics) (rule scripted.provider_call_axioms, rule script_sleep.sleeping_world_axioms)

text \<open>
  The backoff delay never exceeds the configured maximum, never decreases from one attempt
  to the next, and below saturation is exactly \<open>base * 2^min(attempt, 16) + jitter\<close> capped at
  the maximum.
\<close>

theorem compute_delay_bounds:
  "compute_delay a b m j \<le> m \<and> compute_delay a b m j \<le> compute_delay (Suc a) b m j
   \<and> (m \<le> u64_max \<longrightarrow> compute_delay a b m j = min (b * 2 ^ min a 16 + j) m)"
  using compute_delay_mono [of a "Suc a" b m j] compute_delay_exact [of m a b j]
  by (auto simp: compute_delay_def Let_def)

theorem compute_delay_bounds_witness: "compute_delay 2 1000 30000 17 = 4017"
proof -
  have "(30000::nat) \<le> u64_max" by (simp add: u64_max_def)
  then have "compute_delay 2 1000 30000 17 = min (1000 * 2 ^ min 2 16 + 17) 30000"
    using compute_delay_bounds by blast
  then show ?thesis by simp
qed

end
