(* ===== verification/Cost.thy ===== *)
theory Cost
  imports Complex_Main Zepto_Prelude
begin

text \<open>
  Model pricing, cost estimation and the session cost tracker of \<open>src/src/utils/cost.rs\<close>.
  Amounts of money are exact rationals; the rounding of the code's floating-point values is
  not modelled. The rendered summary is left out.
\<close>

section \<open>Pricing\<close>

record model_pricing =
  input_cost_per_million :: rat
  output_cost_per_million :: rat

type_synonym pricing = "string \<rightharpoonup> model_pricing"

definition price :: "rat \<Rightarrow> rat \<Rightarrow> model_pricing" where
  "price i oo = \<lparr>input_cost_per_million = i, output_cost_per_million = oo\<rparr>"

definition default_pricing :: pricing where
  "default_pricing = map_of
     [(''claude-sonnet-4-6'', price 3 15),
      (''claude-sonnet-4-5-20250929'', price 3 15),
      (''claude-3-5-sonnet-20241022'', price 3 15),
      (''claude-opus-4-6'', price 15 75),
      (''claude-3-opus-20240229'', price 15 75),
      (''claude-3-haiku-20240307'', price (1/4) (5/4)),
      (''gpt-5.1'', price (5/2) 10),
      (''gpt-4o-mini'', price (3/20) (3/5)),
      (''gpt-4-turbo'', price 10 30)]"

definition estimate_cost :: "string \<Rightarrow> nat \<Rightarrow> nat \<Rightarrow> pricing \<Rightarrow> rat option" where
  "estimate_cost model prompt_tokens completion_tokens custom_pricing =
     (let pricing = (case custom_pricing model of Some p \<Rightarrow> Some p | None \<Rightarrow> default_pricing model)
      in map_option (\<lambda>p.
           let input_cost = (of_nat prompt_tokens / 1000000) * input_cost_per_million p;
               output_cost = (of_nat completion_tokens / 1000000) * output_cost_per_million p
           in input_cost + output_cost) pricing)"

section \<open>The tracker\<close>

record cost_state =
  total_cost :: rat
  per_provider :: "(string \<times> rat) list"
  per_model :: "(string \<times> rat) list"
  call_count :: nat

definition cost_state_new :: cost_state where
  "cost_state_new = \<lparr>total_cost = 0, per_provider = [], per_model = [], call_count = 0\<rparr>"

definition add_to :: "string \<Rightarrow> rat \<Rightarrow> (string \<times> rat) list \<Rightarrow> (string \<times> rat) list" where
  "add_to k c m = AList.update k ((case map_of m k of Some v \<Rightarrow> v | None \<Rightarrow> 0) + c) m"

definition cost_record :: "pricing \<Rightarrow> string \<Rightarrow> string \<Rightarrow> nat \<Rightarrow> nat \<Rightarrow> cost_state \<Rightarrow> cost_state" where
  "cost_record custom provider model prompt_tokens completion_tokens s =
     (let cost = (case estimate_cost model prompt_tokens completion_tokens custom of Some c \<Rightarrow> c | None \<Rightarrow> 0)
      in s\<lparr>total_cost := total_cost s + cost, per_provider := add_to provider cost (per_provider s),
           per_model := add_to model cost (per_model s), call_count := call_count s + 1\<rparr>)"

section \<open>Lemmas\<close>

lemma sum_update:
  "distinct (map fst m) \<Longrightarrow>
     sum_list (map snd (add_to k c m)) = sum_list (map snd m) + c"
proof (induction m)
  case (Cons p m)
  obtain j v where p: "p = (j, v)" by (cases p)
  show ?case
  proof (cases "j = k")
    case True
    then show ?thesis using p by (simp add: add_to_def)
  next
    case False
    with Cons p show ?thesis by (simp add: add_to_def)
  qed
qed (simp add: add_to_def)

lemma add_to_distinct: "distinct (map fst m) \<Longrightarrow> distinct (map fst (add_to k c m))"
  by (simp add: add_to_def distinct_update)

definition cost_inv :: "cost_state \<Rightarrow> bool" where
  "cost_inv s \<longleftrightarrow> distinct (map fst (per_provider s)) \<and> distinct (map fst (per_model s))
     \<and> sum_list (map snd (per_provider s)) = total_cost s
     \<and> sum_list (map snd (per_model s)) = total_cost s"

lemma cost_record_inv: "cost_inv s \<Longrightarrow> cost_inv (cost_record custom p m i oo s)"
  by (simp add: cost_inv_def cost_record_def Let_def sum_update add_to_distinct)

fun record_calls :: "pricing \<Rightarrow> (string \<times> string \<times> nat \<times> nat) list \<Rightarrow> cost_state \<Rightarrow> cost_state" where
  "record_calls custom [] s = s"
| "record_calls custom ((p, m, i, oo) # cs) s = record_calls custom cs (cost_record custom p m i oo s)"

lemma record_calls_inv: "cost_inv s \<Longrightarrow> cost_inv (record_calls custom cs s)"
  by (induction custom cs s rule: record_calls.induct) (simp_all add: cost_record_inv)

lemma record_calls_count: "call_count (record_calls custom cs s) = call_count s + length cs"
  by (induction custom cs s rule: record_calls.induct) (simp_all add: cost_record_def Let_def)

section \<open>Properties\<close>

text \<open>
  The cost tracker's books balance: after any sequence of recorded calls the breakdown by
  provider and the breakdown by model both add up to the total, each lists a name once, and
  the call count is the number of calls.
\<close>

theorem cost_tracker_balances:
  "let s = record_calls custom cs cost_state_new in
     sum_list (map snd (per_provider s)) = total_cost s \<and> sum_list (map snd (per_model s)) = total_cost s
     \<and> distinct (map fst (per_provider s)) \<and> distinct (map fst (per_model s))
     \<and> call_count s = length cs"
proof -
  have "cost_inv cost_state_new" by (simp add: cost_inv_def cost_state_new_def)
  from record_calls_inv [OF this] show ?thesis
    by (simp add: cost_inv_def Let_def record_calls_count) (simp add: cost_state_new_def)
qed

end
