(* ===== verification/Provider_Health.thy ===== *)
theory Provider_Health
  imports Provider_Api
begin

text \<open>
  What the circuit breaker of \<open>src/src/providers/fallback.rs\<close> and the per-provider health of
  \<open>src/src/providers/rotation.rs\<close> have in common: a consecutive-failure counter with a
  threshold, and a cooldown after the last failure. The locale \<open>failure_tracker\<close> is the
  contract the two layers rely on, its lemmas are proved once, and each component interprets
  it on its own record. The second half is the per-reason cooldown tracker of
  \<open>src/src/providers/cooldown.rs\<close>.
\<close>

section \<open>The contract of a failure tracker\<close>

locale failure_tracker =
  fixes failures :: "'h \<Rightarrow> nat" and threshold :: "'h \<Rightarrow> nat"
    and last_failure :: "'h \<Rightarrow> nat" and cooldown :: "'h \<Rightarrow> nat"
    and success :: "'h \<Rightarrow> 'h" and failure :: "nat \<Rightarrow> 'h \<Rightarrow> 'h"
    and available :: "nat \<Rightarrow> 'h \<Rightarrow> bool"
  assumes success_failures: "failures (success h) = 0"
    and success_keeps: "threshold (success h) = threshold h" "cooldown (success h) = cooldown h"
    and failure_failures: "failures (failure t h) = wrap32 (Suc (failures h))"
    and failure_last: "last_failure (failure t h) = t"
    and failure_keeps: "threshold (failure t h) = threshold h" "cooldown (failure t h) = cooldown h"
    and available_iff: "available t h \<longleftrightarrow> failures h < threshold h \<or> cooldown h \<le> t - last_failure h"
begin

lemma success_available: "0 < threshold h \<Longrightarrow> available t (success h)"
  by (simp add: available_iff success_failures success_keeps)

lemma fold_failure_keeps:
  "threshold (fold failure ts h) = threshold h" "cooldown (fold failure ts h) = cooldown h"
  by (induction ts arbitrary: h) (simp_all add: failure_keeps)

lemma fold_failure_failures:
  "failures h + length ts \<le> u32_max \<Longrightarrow> failures (fold failure ts h) = failures h + length ts"
  by (induction ts arbitrary: h) (simp_all add: failure_failures wrap32_id)

lemma fold_failure_last: "ts \<noteq> [] \<Longrightarrow> last_failure (fold failure ts h) = last ts"
  by (induction ts arbitrary: h) (auto simp: failure_last)

text \<open>
  After a success and then failures at the times \<open>ts\<close>, the tracked target is available again
  exactly while the failures stay below the threshold or once the cooldown since the last of
  them has passed.
\<close>

lemma available_after_failures:
  assumes "ts \<noteq> []" "length ts \<le> u32_max"
  shows "available t (fold failure ts (success h)) \<longleftrightarrow> length ts < threshold h \<or> cooldown h \<le> t - last ts"
  using assms fold_failure_failures [of "success h" ts] fold_failure_last [of ts "success h"]
  by (simp add: available_iff fold_failure_keeps success_failures success_keeps)

end

section \<open>Per-reason cooldowns\<close>

datatype failover_reason =
    FR_RateLimit | FR_Overloaded | FR_Timeout | FR_Auth | FR_Billing | FR_Format | FR_Unknown

fun from_provider_error :: "provider_error \<Rightarrow> failover_reason" where
  "from_provider_error (PE_RateLimit _) = FR_RateLimit"
| "from_provider_error (PE_Overloaded _) = FR_Overloaded"
| "from_provider_error (PE_Timeout _) = FR_Timeout"
| "from_provider_error (PE_Auth _) = FR_Auth"
| "from_provider_error (PE_Billing _) = FR_Billing"
| "from_provider_error (PE_Format _) = FR_Format"
| "from_provider_error (PE_InvalidRequest _) = FR_Format"
| "from_provider_error _ = FR_Unknown"

text \<open>\<open>2u64.saturating_pow(consecutive.saturating_sub(1))\<close>, then the cap in seconds.\<close>

definition doubling :: "nat \<Rightarrow> nat" where
  "doubling consecutive = sat64 (2 ^ (consecutive - 1))"

fun cooldown_duration :: "failover_reason \<Rightarrow> nat \<Rightarrow> nat" where
  "cooldown_duration FR_Billing consecutive = min (doubling consecutive) 24 * 3600"
| "cooldown_duration FR_RateLimit consecutive = min (doubling consecutive) 30 * 60"
| "cooldown_duration FR_Overloaded consecutive = min (wrap64 (30 * doubling consecutive)) 300"
| "cooldown_duration FR_Timeout consecutive = min (wrap64 (15 * doubling consecutive)) 120"
| "cooldown_duration FR_Auth consecutive = 300"
| "cooldown_duration FR_Format consecutive = 300"
| "cooldown_duration FR_Unknown consecutive = 60"

text \<open>Instants are in milliseconds, durations of the table above in seconds.\<close>

record cooldown_entry =
  ce_consecutive :: nat
  ce_cooldown_end :: "nat option"
  ce_last_failure :: "nat option"
  ce_billing_disabled_until :: "nat option"

definition cooldown_entry_new :: cooldown_entry where
  "cooldown_entry_new = \<lparr>ce_consecutive = 0, ce_cooldown_end = None, ce_last_failure = None,
     ce_billing_disabled_until = None\<rparr>"

definition entry_in_cooldown :: "nat \<Rightarrow> cooldown_entry \<Rightarrow> bool" where
  "entry_in_cooldown now e =
     (if (case ce_billing_disabled_until e of Some b \<Rightarrow> now < b | None \<Rightarrow> False) then True
      else (case ce_cooldown_end e of Some en \<Rightarrow> now < en | None \<Rightarrow> False))"

definition reset_if_stale :: "nat \<Rightarrow> cooldown_entry \<Rightarrow> cooldown_entry" where
  "reset_if_stale now e =
     (case ce_last_failure e of
        Some l \<Rightarrow>
          if now - l > 86400 * 1000
          then e\<lparr>ce_consecutive := 0, ce_cooldown_end := None, ce_billing_disabled_until := None\<rparr>
          else e
      | None \<Rightarrow> e)"

type_synonym cooldown_tracker = "string \<rightharpoonup> cooldown_entry"

definition is_in_cooldown :: "nat \<Rightarrow> string \<Rightarrow> cooldown_tracker \<Rightarrow> bool" where
  "is_in_cooldown now provider t = (case t provider of Some e \<Rightarrow> entry_in_cooldown now e | None \<Rightarrow> False)"

definition mark_failure :: "nat \<Rightarrow> string \<Rightarrow> failover_reason \<Rightarrow> cooldown_tracker \<Rightarrow> cooldown_tracker" where
  "mark_failure now provider reason t =
     (let e0 = reset_if_stale now (case t provider of Some e \<Rightarrow> e | None \<Rightarrow> cooldown_entry_new);
          e1 = e0\<lparr>ce_consecutive := wrap32 (ce_consecutive e0 + 1), ce_last_failure := Some now\<rparr>;
          until = now + cooldown_duration reason (ce_consecutive e1) * 1000;
          e2 = (if reason = FR_Billing then e1\<lparr>ce_billing_disabled_until := Some until\<rparr>
                else e1\<lparr>ce_cooldown_end := Some until\<rparr>)
      in t(provider \<mapsto> e2))"

definition mark_success :: "string \<Rightarrow> cooldown_tracker \<Rightarrow> cooldown_tracker" where
  "mark_success provider t =
     (case t provider of
        Some e \<Rightarrow> t(provider \<mapsto> e\<lparr>ce_consecutive := 0, ce_cooldown_end := None,
                                ce_billing_disabled_until := None\<rparr>)
      | None \<Rightarrow> t)"

section \<open>Lemmas on cooldowns\<close>

definition consecutive_of :: "string \<Rightarrow> cooldown_tracker \<Rightarrow> nat" where
  "consecutive_of p t = (case t p of Some e \<Rightarrow> ce_consecutive e | None \<Rightarrow> 0)"

lemma doubling_exact: "c \<le> 60 \<Longrightarrow> doubling c = 2 ^ (c - 1)"
proof -
  assume "c \<le> 60"
  then have "(2::nat) ^ (c - 1) \<le> 2 ^ 59" by (intro power_increasing) auto
  then show ?thesis by (simp add: doubling_def sat64_def u64_max_def)
qed

lemma doubling_pos: "0 < doubling c"
  by (simp add: doubling_def sat64_def u64_max_def)

lemma doubling_mono: "c \<le> d \<Longrightarrow> doubling c \<le> doubling d"
  unfolding doubling_def by (intro sat64_mono power_increasing) auto

lemma scaled_doubling: "c \<le> 60 \<Longrightarrow> k \<le> 30 \<Longrightarrow> wrap64 (k * doubling c) = k * doubling c"
proof -
  assume c: "c \<le> 60" and k: "k \<le> 30"
  have "k * 2 ^ (c - 1) \<le> 30 * (2::nat) ^ 59"
    using c k by (intro mult_le_mono power_increasing) auto
  then show ?thesis using c by (simp add: doubling_exact wrap64_id u64_max_def)
qed

lemma cooldown_duration_min:
  assumes "c \<le> 60" shows "15 \<le> cooldown_duration r c"
  using doubling_pos [of c] scaled_doubling [OF assms, of 30] scaled_doubling [OF assms, of 15]
  by (cases r) auto

lemma cooldown_duration_max: "cooldown_duration r c \<le> 24 * 3600"
  by (cases r) (auto simp: min_def)

lemma cooldown_duration_mono:
  assumes "c \<le> d" "d \<le> 60" shows "cooldown_duration r c \<le> cooldown_duration r d"
proof -
  have c: "c \<le> 60" using assms by simp
  show ?thesis
    using doubling_mono [OF assms(1)] scaled_doubling [OF c, of 30] scaled_doubling [OF c, of 15]
      scaled_doubling [OF assms(2), of 30] scaled_doubling [OF assms(2), of 15]
    by (cases r) auto
qed

lemma mark_failure_other: "q \<noteq> p \<Longrightarrow> mark_failure now p r t q = t q"
  by (simp add: mark_failure_def Let_def)

lemma consecutive_mark_failure:
  "consecutive_of p (mark_failure now p r t) \<le> Suc (consecutive_of p t)"
  "consecutive_of p t < 60 \<Longrightarrow> 1 \<le> consecutive_of p (mark_failure now p r t)"
proof -
  let ?e = "case t p of Some e \<Rightarrow> e | None \<Rightarrow> cooldown_entry_new"
  have le: "ce_consecutive (reset_if_stale now ?e) \<le> consecutive_of p t"
    by (auto simp: reset_if_stale_def consecutive_of_def cooldown_entry_new_def split: option.splits)
  have eq: "consecutive_of p (mark_failure now p r t) = wrap32 (Suc (ce_consecutive (reset_if_stale now ?e)))"
    by (simp add: mark_failure_def consecutive_of_def Let_def)
  have "wrap32 (Suc n) \<le> Suc n" for n by (simp add: wrap32_def)
  with le eq show "consecutive_of p (mark_failure now p r t) \<le> Suc (consecutive_of p t)"
    by (metis Suc_le_mono le_trans)
  assume "consecutive_of p t < 60"
  with le eq show "1 \<le> consecutive_of p (mark_failure now p r t)"
    by (simp add: wrap32_id u32_max_def)
qed

lemma mark_failure_in_cooldown:
  assumes "t' < now + cooldown_duration r (consecutive_of p (mark_failure now p r t)) * 1000"
  shows "is_in_cooldown t' p (mark_failure now p r t)"
  using assms
  by (auto simp: is_in_cooldown_def mark_failure_def entry_in_cooldown_def consecutive_of_def Let_def
      split: option.splits)

lemma mark_success_not_in_cooldown: "\<not> is_in_cooldown t' p (mark_success p t)"
  by (auto simp: is_in_cooldown_def mark_success_def entry_in_cooldown_def split: option.splits)

lemma mark_success_other: "q \<noteq> p \<Longrightarrow> mark_success p t q = t q"
  by (auto simp: mark_success_def split: option.splits)

section \<open>Properties\<close>

text \<open>
  Cooldown lengths. No reason ever disables a provider for more than a day; for up to 60
  consecutive failures the cooldown is at least 15 seconds and never gets shorter as the
  failures go on.
\<close>

theorem cooldown_duration_bounds:
  assumes "c \<le> d" "d \<le> 60"
  shows "15 \<le> cooldown_duration r c \<and> cooldown_duration r c \<le> cooldown_duration r d
    \<and> cooldown_duration r d \<le> 24 * 3600"
  using assms cooldown_duration_min cooldown_duration_mono cooldown_duration_max by auto

theorem cooldown_duration_bounds_witness:
  "15 \<le> cooldown_duration FR_Timeout 1 \<and> cooldown_duration FR_Timeout 1 \<le> cooldown_duration FR_Timeout 4
   \<and> cooldown_duration FR_Timeout 4 \<le> 24 * 3600"
  by (rule cooldown_duration_bounds) simp_all

text \<open>
  The multiplication that scales the overload backoff is not saturating: at the 64th
  consecutive overload it wraps to zero, so that failure puts the provider into no cooldown
  at all, where the previous one gave the full five minutes.
\<close>

theorem overload_cooldown_wraps:
  "cooldown_duration FR_Overloaded 60 = 300 \<and> cooldown_duration FR_Overloaded 64 = 0
   \<and> \<not> is_in_cooldown now p (mark_failure now p FR_Overloaded
        [p \<mapsto> \<lparr>ce_consecutive = 63, ce_cooldown_end = Some now, ce_last_failure = Some now,
               ce_billing_disabled_until = None\<rparr>])"
  by (simp add: doubling_def width_simps mark_failure_def is_in_cooldown_def entry_in_cooldown_def
      reset_if_stale_def Let_def)

end
