(* ===== verification/Fallback.thy ===== *)
theory Fallback
  imports Provider_Health
begin

text \<open>
  The circuit breaker and the two-provider fallback of \<open>src/src/providers/fallback.rs\<close>. The
  decorator's own state (breaker and cooldown tracker) is kept beside the world of the
  wrapped providers. The breaker interprets the contract \<open>failure_tracker\<close>; the decorated
  call satisfies \<open>provider_call\<close> again. Requests that run concurrently interleave at the
  granularity of the breaker's atomic operations; the last section models that.
\<close>

section \<open>The circuit breaker\<close>

datatype circuit_state = Closed | Open | HalfOpen

record circuit_breaker =
  cb_failure_count :: nat
  cb_last_failure_epoch :: nat
  cb_failure_threshold :: nat
  cb_cooldown_secs :: nat

definition circuit_breaker_new :: "nat \<Rightarrow> nat \<Rightarrow> circuit_breaker" where
  "circuit_breaker_new th cd = \<lparr>cb_failure_count = 0, cb_last_failure_epoch = 0,
     cb_failure_threshold = th, cb_cooldown_secs = cd\<rparr>"

definition cb_state :: "nat \<Rightarrow> circuit_breaker \<Rightarrow> circuit_state" where
  "cb_state now b =
     (if cb_failure_count b < cb_failure_threshold b then Closed
      else if cb_cooldown_secs b \<le> now - cb_last_failure_epoch b then HalfOpen
      else Open)"

definition cb_record_success :: "circuit_breaker \<Rightarrow> circuit_breaker" where
  "cb_record_success b = b\<lparr>cb_failure_count := 0\<rparr>"

definition cb_record_failure :: "nat \<Rightarrow> circuit_breaker \<Rightarrow> circuit_breaker" where
  "cb_record_failure now b =
     b\<lparr>cb_failure_count := wrap32 (cb_failure_count b + 1), cb_last_failure_epoch := now\<rparr>"

interpretation cb: failure_tracker cb_failure_count cb_failure_threshold cb_last_failure_epoch
    cb_cooldown_secs cb_record_success cb_record_failure "\<lambda>now b. cb_state now b \<noteq> Open"
  by unfold_locales (auto simp: cb_record_success_def cb_record_failure_def cb_state_def)

section \<open>The fallback decorator\<close>

record fallback_state =
  fb_breaker :: circuit_breaker
  fb_cooldown :: cooldown_tracker

definition fallback_state_new :: fallback_state where
  "fallback_state_new = \<lparr>fb_breaker = circuit_breaker_new 3 30, fb_cooldown = Map.empty\<rparr>"

fun error_falls_back :: "zepto_error \<Rightarrow> bool" where
  "error_falls_back (ProviderTyped pe) = should_fallback pe"
| "error_falls_back (QuotaRejected _) = False"
| "error_falls_back _ = True"

fun error_reason :: "zepto_error \<Rightarrow> failover_reason" where
  "error_reason (ProviderTyped pe) = from_provider_error pe"
| "error_reason _ = FR_Unknown"

definition skip_primary :: "'w world \<Rightarrow> string \<Rightarrow> fallback_state \<Rightarrow> 'w \<Rightarrow> bool" where
  "skip_primary W pname st w \<longleftrightarrow>
     cb_state (epoch_secs W w) (fb_breaker st) = Open
     \<or> is_in_cooldown (instant_ms W w) pname (fb_cooldown st)"

definition after_success :: "string \<Rightarrow> fallback_state \<Rightarrow> fallback_state" where
  "after_success pname st =
     st\<lparr>fb_breaker := cb_record_success (fb_breaker st), fb_cooldown := mark_success pname (fb_cooldown st)\<rparr>"

definition after_failure :: "'w world \<Rightarrow> string \<Rightarrow> zepto_error \<Rightarrow> 'w \<Rightarrow> fallback_state \<Rightarrow> fallback_state" where
  "after_failure W pname err w st =
     st\<lparr>fb_breaker := cb_record_failure (epoch_secs W w) (fb_breaker st),
        fb_cooldown := mark_failure (instant_ms W w) pname (error_reason err) (fb_cooldown st)\<rparr>"

definition with_state :: "'s \<Rightarrow> ('a zresult \<times> 'w) option \<Rightarrow> ('a zresult \<times> ('s \<times> 'w)) option" where
  "with_state st = map_option (\<lambda>(r, w). (r, (st, w)))"

text \<open>The body of \<open>chat\<close> and of \<open>chat_stream\<close>, on the primary and the fallback request.\<close>

definition fallback_call ::
    "'w world \<Rightarrow> string \<Rightarrow> ('a, 'w) call \<Rightarrow> ('a, 'w) call \<Rightarrow> ('a, fallback_state \<times> 'w) call" where
  "fallback_call W pname primary fallback = (\<lambda>(st, w).
     if skip_primary W pname st w then with_state st (fallback w)
     else do {
       (res, w1) \<leftarrow> primary w;
       (case res of
          Inr response \<Rightarrow> Some (Inr response, (after_success pname st, w1))
        | Inl err \<Rightarrow>
            if error_falls_back err
            then with_state (after_failure W pname err w1 st) (fallback w1)
            else Some (Inl err, (st, w1)))
     })"

definition effective_model :: "string option \<Rightarrow> string option \<Rightarrow> string option" where
  "effective_model fallback_model model = (case fallback_model of Some m \<Rightarrow> Some m | None \<Rightarrow> model)"

definition fallback_chat ::
    "'w world \<Rightarrow> ('r, 'w) llm_provider \<Rightarrow> ('r, 'w) llm_provider \<Rightarrow> string option
       \<Rightarrow> 'r \<Rightarrow> string option \<Rightarrow> (llm_response, fallback_state \<times> 'w) call" where
  "fallback_chat W primary fallback fallback_model req model =
     fallback_call W (provider_name primary) (chat primary req model)
       (chat fallback req (effective_model fallback_model model))"

definition fallback_chat_stream ::
    "'w world \<Rightarrow> ('r, 'w) llm_provider \<Rightarrow> ('r, 'w) llm_provider \<Rightarrow> string option
       \<Rightarrow> 'r \<Rightarrow> string option \<Rightarrow> (stream_event list, fallback_state \<times> 'w) call" where
  "fallback_chat_stream W primary fallback fallback_model req model =
     fallback_call W (provider_name primary) (chat_stream primary req model)
       (chat_stream fallback req (effective_model fallback_model model))"

definition fallback_provider ::
    "'w world \<Rightarrow> ('r, 'w) llm_provider \<Rightarrow> ('r, 'w) llm_provider \<Rightarrow> string option
       \<Rightarrow> ('r, fallback_state \<times> 'w) llm_provider" where
  "fallback_provider W primary fallback fallback_model =
     \<lparr>provider_name = provider_name primary @ '' -> '' @ provider_name fallback,
      default_model = default_model primary,
      chat = fallback_chat W primary fallback fallback_model,
      chat_stream = fallback_chat_stream W primary fallback fallback_model\<rparr>"

section \<open>Lemmas\<close>

text \<open>The world of a decorated provider: its state beside the world it wraps.\<close>

definition state_world :: "'w world \<Rightarrow> ('s \<times> 'w) world" where
  "state_world W = \<lparr>instant_ms = instant_ms W \<circ> snd, epoch_secs = epoch_secs W \<circ> snd,
     subsec_nanos = subsec_nanos W \<circ> snd, sleep_ms = (\<lambda>d (s, w). (s, sleep_ms W d w))\<rparr>"

lemma state_world_simps [simp]:
  "instant_ms (state_world W) (s, w) = instant_ms W w"
  "epoch_secs (state_world W) (s, w) = epoch_secs W w"
  by (simp_all add: state_world_def)

lemma state_world_sleeping: "sleeping_world W \<Longrightarrow> sleeping_world (state_world W)"
  by (auto simp: sleeping_world_def state_world_def)

lemma with_state_simps [simp]:
  "with_state st None = None" "with_state st (Some (r, w)) = Some (r, (st, w))"
  by (simp_all add: with_state_def)

lemma fallback_call_skip:
  "skip_primary W p st w \<Longrightarrow> fallback_call W p prim fb (st, w) = with_state st (fb w)"
  by (simp add: fallback_call_def)

lemma fallback_call_primary:
  assumes "\<not> skip_primary W p st w" "prim w = Some (res, w1)"
  shows "fallback_call W p prim fb (st, w) =
    (case res of
       Inr a \<Rightarrow> Some (Inr a, (after_success p st, w1))
     | Inl e \<Rightarrow> if error_falls_back e then with_state (after_failure W p e w1 st) (fb w1)
              else Some (Inl e, (st, w1)))"
  using assms by (simp add: fallback_call_def)

lemma skip_after_failure:
  assumes "consecutive_of p (fb_cooldown st) < 60" "instant_ms W w' < instant_ms W w + 15000"
  shows "skip_primary W p (after_failure W p err w st) w'"
proof -
  let ?t = "mark_failure (instant_ms W w) p (error_reason err) (fb_cooldown st)"
  have "consecutive_of p ?t \<le> 60"
    using assms(1) consecutive_mark_failure(1) [of p "instant_ms W w" "error_reason err" "fb_cooldown st"]
    by simp
  then have "15 \<le> cooldown_duration (error_reason err) (consecutive_of p ?t)"
    by (rule cooldown_duration_min)
  then have "is_in_cooldown (instant_ms W w') p ?t"
    using assms(2) by (intro mark_failure_in_cooldown) simp
  then show ?thesis by (simp add: skip_primary_def after_failure_def)
qed

lemma no_skip_after_success:
  "0 < cb_failure_threshold (fb_breaker st) \<Longrightarrow> \<not> skip_primary W p (after_success p st) w"
  using cb.success_available [of "fb_breaker st" "epoch_secs W w"]
  by (simp add: skip_primary_def after_success_def mark_success_not_in_cooldown)

locale fallback_layer =
  prim: provider_call W primary + fb: provider_call W fallback
  for W :: "'w world" and primary fallback :: "('a, 'w) call" +
  fixes pname :: string
begin

lemma fallback_returns:
  "\<exists>r sw'. fallback_call W pname primary fallback sw = Some (r, sw')
     \<and> instant_ms (state_world W) sw \<le> instant_ms (state_world W) sw'"
proof (cases sw)
  case (Pair st w)
  obtain rf wf where f: "fallback w = Some (rf, wf)" "instant_ms W w \<le> instant_ms W wf"
    by (rule fb.returnsE)
  obtain r1 w1 where p: "primary w = Some (r1, w1)" "instant_ms W w \<le> instant_ms W w1"
    by (rule prim.returnsE)
  obtain r2 w2 where f2: "fallback w1 = Some (r2, w2)" "instant_ms W w1 \<le> instant_ms W w2"
    by (rule fb.returnsE)
  show ?thesis
  proof (cases "skip_primary W pname st w")
    case True
    then show ?thesis using Pair f by (simp add: fallback_call_skip)
  next
    case False
    then show ?thesis using Pair p f2
      by (cases r1) (auto simp: fallback_call_primary simp del: error_falls_back.simps)
  qed
qed

lemma fallback_call_ok: "provider_call (state_world W) (fallback_call W pname primary fallback)"
  by (rule provider_call.intro) (rule fallback_returns)

end

sublocale fallback_layer \<subseteq> decorated: provider_call "state_world W" "fallback_call W pname primary fallback"
  by (rule fallback_call_ok)

interpretation scripted_fallback: fallback_layer script_world
    "scripted :: ('a, 'a script) call" "scripted :: ('a, 'a script) call" "''primary''"
  by unfold_locales

section \<open>Concurrent requests\<close>

text \<open>
  Requests share the breaker and the cooldown tracker and interleave: a request is admitted to
  the primary, is in flight for some time, and then reports its outcome. Time is a clock in
  milliseconds.
\<close>

definition ms_world :: "nat world" where
  "ms_world = \<lparr>instant_ms = (\<lambda>t. t), epoch_secs = (\<lambda>t. t div 1000), subsec_nanos = (\<lambda>t. t * 1000),
     sleep_ms = (\<lambda>d t. t + d)\<rparr>"

record fb_sys =
  sys_now :: nat
  sys_state :: fallback_state
  in_flight :: nat

inductive fb_step :: "string \<Rightarrow> fb_sys \<Rightarrow> fb_sys \<Rightarrow> bool" for p where
  tick: "fb_step p s (s\<lparr>sys_now := sys_now s + d\<rparr>)"
| admit: "\<not> skip_primary ms_world p (sys_state s) (sys_now s) \<Longrightarrow>
    fb_step p s (s\<lparr>in_flight := Suc (in_flight s)\<rparr>)"
| divert: "skip_primary ms_world p (sys_state s) (sys_now s) \<Longrightarrow> fb_step p s s"
| succeed: "in_flight s = Suc n \<Longrightarrow>
    fb_step p s (s\<lparr>in_flight := n, sys_state := after_success p (sys_state s)\<rparr>)"
| fail: "in_flight s = Suc n \<Longrightarrow> error_falls_back e \<Longrightarrow>
    fb_step p s (s\<lparr>in_flight := n, sys_state := after_failure ms_world p e (sys_now s) (sys_state s)\<rparr>)"
| reject: "in_flight s = Suc n \<Longrightarrow> \<not> error_falls_back e \<Longrightarrow> fb_step p s (s\<lparr>in_flight := n\<rparr>)"

inductive fb_reach :: "string \<Rightarrow> fb_sys \<Rightarrow> bool" for p where
  start: "fb_reach p \<lparr>sys_now = 0, sys_state = fallback_state_new, in_flight = 0\<rparr>"
| step: "fb_reach p s \<Longrightarrow> fb_step p s s' \<Longrightarrow> fb_reach p s'"

lemma fb_reach_tick: "fb_reach p s \<Longrightarrow> fb_reach p (s\<lparr>sys_now := sys_now s + d\<rparr>)"
  by (erule fb_reach.step) (rule fb_step.tick)

lemma fb_reach_admit_many:
  "fb_reach p s \<Longrightarrow> \<not> skip_primary ms_world p (sys_state s) (sys_now s) \<Longrightarrow>
     fb_reach p (s\<lparr>in_flight := in_flight s + n\<rparr>)"
proof (induction n)
  case (Suc n)
  let ?s = "s\<lparr>in_flight := in_flight s + n\<rparr>"
  have "fb_step p ?s (?s\<lparr>in_flight := Suc (in_flight ?s)\<rparr>)"
    by (rule fb_step.admit) (simp add: Suc.prems(2))
  with Suc show ?case by (auto intro: fb_reach.step)
qed simp

text \<open>One admitted request that fails with an unclassified error, then a pause of a minute.\<close>

definition fail_and_wait :: "string \<Rightarrow> fb_sys \<Rightarrow> fb_sys" where
  "fail_and_wait p s =
     (let st = after_failure ms_world p (Provider ''down'') (sys_now s) (sys_state s)
      in s\<lparr>sys_state := st, sys_now := sys_now s + 60000\<rparr>)"

lemma fb_reach_fail_and_wait:
  assumes "fb_reach p s" "\<not> skip_primary ms_world p (sys_state s) (sys_now s)" "in_flight s = 0"
  shows "fb_reach p (fail_and_wait p s)"
proof -
  have "fb_reach p (s\<lparr>in_flight := Suc 0\<rparr>)" using fb_reach_admit_many [of p s 1] assms by simp
  then have "fb_reach p (s\<lparr>in_flight := Suc 0, in_flight := 0,
      sys_state := after_failure ms_world p (Provider ''down'') (sys_now s) (sys_state s)\<rparr>)"
    using fb_step.fail [of "s\<lparr>in_flight := Suc 0\<rparr>" 0 "Provider ''down''" p]
    by (auto intro: fb_reach.step)
  from fb_reach_tick [OF this, of 60000] show ?thesis
    using assms(3) by (cases s) (simp add: fail_and_wait_def Let_def)
qed

definition start_sys :: fb_sys where
  "start_sys = \<lparr>sys_now = 0, sys_state = fallback_state_new, in_flight = 0\<rparr>"

definition tripped_sys :: "string \<Rightarrow> fb_sys" where
  "tripped_sys p = fail_and_wait p (fail_and_wait p (fail_and_wait p start_sys))"

lemmas tripped_eval = tripped_sys_def fail_and_wait_def start_sys_def fallback_state_new_def
  circuit_breaker_new_def ms_world_def after_failure_def cb_record_failure_def cb_state_def
  skip_primary_def is_in_cooldown_def mark_failure_def entry_in_cooldown_def reset_if_stale_def
  cooldown_entry_new_def wrap32_def Let_def

lemma tripped_sys_facts:
  "cb_state (sys_now (tripped_sys p) div 1000) (fb_breaker (sys_state (tripped_sys p))) = HalfOpen"
  "\<not> skip_primary ms_world p (sys_state (tripped_sys p)) (sys_now (tripped_sys p))"
  "in_flight (tripped_sys p) = 0"
  by (simp_all add: tripped_eval)

lemma tripped_sys_reach: "fb_reach p (tripped_sys p)"
  unfolding tripped_sys_def
  by (intro fb_reach_fail_and_wait)
    (simp_all add: tripped_eval fb_reach.start [of p, unfolded fallback_state_new_def circuit_breaker_new_def])

section \<open>Properties\<close>

text \<open>
  The breaker's life cycle: after a success followed by failures at the epoch seconds
  \<open>ts\<close>, the circuit is open exactly when the failures have reached the threshold and less
  than the cooldown has passed since the last of them; a success closes it.
\<close>

theorem circuit_breaker_lifecycle:
  assumes "ts \<noteq> []" "length ts \<le> u32_max"
  shows "(cb_state now (fold cb_record_failure ts (cb_record_success b)) = Open) =
      (cb_failure_threshold b \<le> length ts \<and> now - last ts < cb_cooldown_secs b)
    \<and> (0 < cb_failure_threshold b \<longrightarrow> cb_state now (cb_record_success b) = Closed)"
  using cb.available_after_failures [OF assms, of now b]
  by (auto simp: cb_state_def cb_record_success_def not_less)

theorem circuit_breaker_lifecycle_witness:
  "cb_state 131 (fold cb_record_failure [100, 101, 102] (cb_record_success (circuit_breaker_new 3 30))) = Open"
proof -
  have "[100, 101, 102] \<noteq> ([] :: nat list)" "length [100, 101, 102 :: nat] \<le> u32_max"
    by (simp_all add: u32_max_def)
  from circuit_breaker_lifecycle [OF this, of 131 "circuit_breaker_new 3 30"]
  show ?thesis by (simp add: circuit_breaker_new_def)
qed

text \<open>
  A recoverable failure keeps traffic away from the primary: after it, whatever the primary
  would answer, every request in the next 15 seconds is served by the fallback alone and
  leaves the decorator's state as it is (for fewer than 60 failures in a row).
\<close>

theorem failure_diverts_traffic:
  assumes "\<not> skip_primary W p st w" "prim w = Some (Inl err, w1)" "error_falls_back err"
    and "fallback_call W p prim fb (st, w) = Some (r, (st', w'))"
    and "consecutive_of p (fb_cooldown st) < 60" "instant_ms W v < instant_ms W w1 + 15000"
  shows "fallback_call W p prim' fb' (st', v) = with_state st' (fb' v)"
proof -
  have "st' = after_failure W p err w1 st"
    using assms(1-4) by (cases "fb w1") (auto simp: fallback_call_primary simp del: error_falls_back.simps)
  then have "skip_primary W p st' v" using skip_after_failure assms(5,6) by metis
  then show ?thesis by (rule fallback_call_skip)
qed

definition down :: "nat script" where
  "down = \<lparr>sc_clock = 5, sc_answers = [Inl (ProviderTyped (PE_Timeout ''slow'')), Inr 1]\<rparr>"

theorem failure_diverts_traffic_witness:
  "\<exists>st' w'. fallback_call script_world ''p'' scripted scripted (fallback_state_new, down) = Some (Inr 1, (st', w'))
     \<and> fallback_call script_world ''p'' (\<lambda>_. None) scripted (st', w') = with_state st' (scripted w')"
proof -
  let ?d1 = "\<lparr>sc_clock = 6, sc_answers = [Inr (1::nat)]\<rparr>"
  let ?st = "after_failure script_world ''p'' (ProviderTyped (PE_Timeout ''slow'')) ?d1 fallback_state_new"
  have 1: "\<not> skip_primary script_world ''p'' fallback_state_new down"
    by (simp add: skip_primary_def cb_state_def fallback_state_new_def circuit_breaker_new_def is_in_cooldown_def)
  have 2: "scripted down = Some (Inl (ProviderTyped (PE_Timeout ''slow'')), ?d1)"
    by (simp add: scripted_def down_def)
  have 3: "error_falls_back (ProviderTyped (PE_Timeout ''slow''))" by simp
  have 4: "fallback_call script_world ''p'' scripted scripted (fallback_state_new, down)
      = Some (Inr 1, (?st, ?d1\<lparr>sc_clock := 7\<rparr>))"
    using 1 2 3 by (simp add: fallback_call_primary) (simp add: scripted_def)
  have 5: "consecutive_of ''p'' (fb_cooldown fallback_state_new) < 60"
    by (simp add: consecutive_of_def fallback_state_new_def)
  have 6: "instant_ms script_world (?d1\<lparr>sc_clock := 7\<rparr>) < instant_ms script_world ?d1 + 15000"
    by (simp add: script_world_def)
  show ?thesis using 4 failure_diverts_traffic [OF 1 2 3 4 5 6] by blast
qed

text \<open>
  A permanent error of the primary (authentication, billing, a malformed or oversized
  request, a hard quota reject) is returned as it is: the fallback is not consulted, whatever
  it is, and neither breaker nor cooldown changes.
\<close>

theorem permanent_error_passes:
  assumes "\<not> skip_primary W p st w" "prim w = Some (Inl err, w1)"
    and "(\<exists>m. err \<in> ProviderTyped ` {PE_Auth m, PE_Billing m, PE_InvalidRequest m, PE_Format m, PE_ContextOverflow m})
      \<or> (\<exists>m. err = QuotaRejected m)"
  shows "fallback_call W p prim fb (st, w) = Some (Inl err, (st, w1))"
proof -
  have "\<not> error_falls_back err" using assms(3) by auto
  then show ?thesis using assms(1,2) by (simp add: fallback_call_primary del: error_falls_back.simps)
qed

theorem permanent_error_passes_witness:
  "fallback_call script_world ''p'' scripted (\<lambda>_. None)
     (fallback_state_new, \<lparr>sc_clock = 0, sc_answers = [Inl (QuotaRejected ''full'') :: nat zresult]\<rparr>)
   = Some (Inl (QuotaRejected ''full''),
       (fallback_state_new, \<lparr>sc_clock = 1, sc_answers = [Inl (QuotaRejected ''full'')]\<rparr>))"
  by (rule permanent_error_passes)
    (simp_all add: skip_primary_def cb_state_def fallback_state_new_def circuit_breaker_new_def
      is_in_cooldown_def scripted_def)

text \<open>
  Probing is not exclusive: in the half-open state the breaker admits any number of
  concurrent requests to the primary, not one, because nothing is recorded when a probe
  starts.
\<close>

theorem half_open_admits_many:
  "\<exists>s. fb_reach p s \<and> cb_state (sys_now s div 1000) (fb_breaker (sys_state s)) = HalfOpen \<and> in_flight s = n"
proof (intro exI conjI)
  let ?s = "(tripped_sys p)\<lparr>in_flight := in_flight (tripped_sys p) + n\<rparr>"
  show "fb_reach p ?s" using tripped_sys_reach tripped_sys_facts(2) by (rule fb_reach_admit_many)
  show "cb_state (sys_now ?s div 1000) (fb_breaker (sys_state ?s)) = HalfOpen" "in_flight ?s = n"
    using tripped_sys_facts [of p] by simp_all
qed

end
