(* ===== verification/Quota.thy ===== *)
theory Quota
  imports Cost Fallback
begin

text \<open>
  Per-provider usage quotas, \<open>src/src/providers/quota.rs\<close>: the usage store with its period
  rollover, the quota check, and the decorator that enforces the configured action. The
  period key is chrono's rendering of the current date; it is the parameter \<open>K\<close>, from the
  period and the clock in seconds to the key. Money is exact rationals. Persistence is
  best-effort file output and is left out: the store is the in-memory map.
\<close>

section \<open>The store\<close>

datatype quota_period = Monthly | Daily

datatype quota_action = ActReject | ActFallback | ActWarn

record quota_config =
  max_cost_usd :: "rat option"
  max_tokens :: "nat option"
  q_period :: quota_period
  q_action :: quota_action

definition quota_config_default :: quota_config where
  "quota_config_default = \<lparr>max_cost_usd = None, max_tokens = None, q_period = Monthly, q_action = ActReject\<rparr>"

record quota_usage =
  period_key :: string
  cost_usd :: rat
  tokens :: nat

datatype quota_check_result = QuotaOk | QuotaWarning rat | QuotaOver

type_synonym quota_store = "string \<rightharpoonup> quota_usage"
type_synonym period_keys = "quota_period \<Rightarrow> nat \<Rightarrow> string"

definition warning_threshold :: rat where
  "warning_threshold = 4 / 5"

definition quota_check :: "period_keys \<Rightarrow> nat \<Rightarrow> string \<Rightarrow> quota_config \<Rightarrow> quota_store \<Rightarrow> quota_check_result" where
  "quota_check K now provider config store =
     (if max_cost_usd config = None \<and> max_tokens config = None then QuotaOk
      else let current_key = K (q_period config) now in
        case store provider of
          None \<Rightarrow> QuotaOk
        | Some u \<Rightarrow>
            if period_key u \<noteq> current_key then QuotaOk
            else
              let cost_pct = (case max_cost_usd config of
                    None \<Rightarrow> 0 | Some m \<Rightarrow> if 0 < m then cost_usd u / m else 0);
                  token_pct = (case max_tokens config of
                    None \<Rightarrow> 0 | Some m \<Rightarrow> if 0 < m then of_nat (tokens u) / of_nat m else 0);
                  max_pct = max cost_pct token_pct
              in if 1 \<le> max_pct then QuotaOver
                 else if warning_threshold \<le> max_pct then QuotaWarning max_pct
                 else QuotaOk)"

definition quota_record :: "period_keys \<Rightarrow> nat \<Rightarrow> string \<Rightarrow> quota_period \<Rightarrow> rat \<Rightarrow> nat \<Rightarrow> quota_store \<Rightarrow> quota_store" where
  "quota_record K now provider period cost n store =
     (let cost = max cost 0;
          current_key = K period now;
          fresh = \<lparr>period_key = current_key, cost_usd = 0, tokens = 0\<rparr>;
          entry = (case store provider of None \<Rightarrow> fresh | Some u \<Rightarrow> u);
          entry = (if period_key entry \<noteq> current_key then fresh else entry)
      in store(provider \<mapsto> entry\<lparr>cost_usd := cost_usd entry + cost, tokens := wrap64 (tokens entry + n)\<rparr>))"

definition reset_provider :: "string \<Rightarrow> quota_store \<Rightarrow> quota_store" where
  "reset_provider name store = store(name := None)"

definition reset_all :: "quota_store \<Rightarrow> quota_store" where
  "reset_all store = Map.empty"

section \<open>The decorator\<close>

definition period_name :: "quota_period \<Rightarrow> string" where
  "period_name p = (case p of Monthly \<Rightarrow> ''monthly'' | Daily \<Rightarrow> ''daily'')"

definition check_and_enforce :: "period_keys \<Rightarrow> nat \<Rightarrow> string \<Rightarrow> quota_config \<Rightarrow> quota_store \<Rightarrow> unit zresult" where
  "check_and_enforce K now name config store =
     (case quota_check K now name config store of
        QuotaOk \<Rightarrow> Inr ()
      | QuotaWarning pct \<Rightarrow> Inr ()
      | QuotaOver \<Rightarrow>
          (case q_action config of
             ActWarn \<Rightarrow> Inr ()
           | ActReject \<Rightarrow>
               Inl (QuotaRejected (name @ '' '' @ period_name (q_period config) @ '' quota exceeded (hard reject)''))
           | ActFallback \<Rightarrow>
               Inl (QuotaExceeded (name @ '' '' @ period_name (q_period config) @ '' quota exceeded''))))"

definition record_usage :: "period_keys \<Rightarrow> nat \<Rightarrow> string \<Rightarrow> quota_config \<Rightarrow> string \<Rightarrow> llm_response \<Rightarrow> quota_store \<Rightarrow> quota_store" where
  "record_usage K now name config inner_default_model response store =
     (case resp_usage response of
        None \<Rightarrow> store
      | Some u \<Rightarrow>
          (let n = total_tokens u;
               cost = (case estimate_cost inner_default_model (prompt_tokens u) (completion_tokens u) Map.empty of
                         Some c \<Rightarrow> c | None \<Rightarrow> 0)
           in if 0 < cost \<or> 0 < n
              then quota_record K now name (q_period config) cost n store
              else store))"

definition quota_chat ::
    "'w world \<Rightarrow> period_keys \<Rightarrow> ('r, 'w) llm_provider \<Rightarrow> string \<Rightarrow> quota_config
       \<Rightarrow> 'r \<Rightarrow> string option \<Rightarrow> (llm_response, quota_store \<times> 'w) call" where
  "quota_chat W K inner name config req model = (\<lambda>(store, w).
     case check_and_enforce K (epoch_secs W w) name config store of
       Inl e \<Rightarrow> Some (Inl e, (store, w))
     | Inr _ \<Rightarrow> do {
         (res, w1) \<leftarrow> chat inner req model w;
         (case res of
            Inl e \<Rightarrow> Some (Inl e, (store, w1))
          | Inr response \<Rightarrow>
              Some (Inr response,
                (record_usage K (epoch_secs W w1) name config (default_model inner) response store, w1)))
       })"

definition quota_chat_stream ::
    "'w world \<Rightarrow> period_keys \<Rightarrow> ('r, 'w) llm_provider \<Rightarrow> string \<Rightarrow> quota_config
       \<Rightarrow> 'r \<Rightarrow> string option \<Rightarrow> (stream_event list, quota_store \<times> 'w) call" where
  "quota_chat_stream W K inner name config req model = (\<lambda>(store, w).
     case check_and_enforce K (epoch_secs W w) name config store of
       Inl e \<Rightarrow> Some (Inl e, (store, w))
     | Inr _ \<Rightarrow> with_state store (chat_stream inner req model w))"

definition quota_provider ::
    "'w world \<Rightarrow> period_keys \<Rightarrow> ('r, 'w) llm_provider \<Rightarrow> string \<Rightarrow> quota_config
       \<Rightarrow> ('r, quota_store \<times> 'w) llm_provider" where
  "quota_provider W K inner name config =
     \<lparr>provider_name = provider_name inner, default_model = default_model inner,
      chat = quota_chat W K inner name config, chat_stream = quota_chat_stream W K inner name config\<rparr>"

section \<open>What a quota promises\<close>

text \<open>A limit of the current period is used up. A limit of zero is no limit in the code.\<close>

definition used_up :: "period_keys \<Rightarrow> nat \<Rightarrow> string \<Rightarrow> quota_config \<Rightarrow> quota_store \<Rightarrow> bool" where
  "used_up K now name config store \<longleftrightarrow>
     (case store name of
        None \<Rightarrow> False
      | Some u \<Rightarrow> period_key u = K (q_period config) now \<and>
          ((case max_cost_usd config of None \<Rightarrow> False | Some m \<Rightarrow> 0 < m \<and> m \<le> cost_usd u)
           \<or> (case max_tokens config of None \<Rightarrow> False | Some m \<Rightarrow> 0 < m \<and> m \<le> tokens u)))"

lemma pct_reached: "0 < (m::nat) \<Longrightarrow> (1::rat) \<le> of_nat n / of_nat m \<longleftrightarrow> m \<le> n"
  by (simp add: divide_simps)

lemma graded_over:
  "(if 1 \<le> p then QuotaOver else if t \<le> p then QuotaWarning p else QuotaOk) = QuotaOver \<longleftrightarrow> 1 \<le> p"
  by simp

lemma check_over: "quota_check K now name config store = QuotaOver \<longleftrightarrow> used_up K now name config store"
  by (auto simp: quota_check_def used_up_def Let_def graded_over pct_reached le_max_iff_disj
      split: option.split)

lemma enforce_pass:
  "check_and_enforce K now name config store = Inr () \<longleftrightarrow>
     \<not> used_up K now name config store \<or> q_action config = ActWarn"
  by (auto simp: check_and_enforce_def simp flip: check_over
      split: quota_check_result.splits quota_action.splits)

lemma enforce_cases:
  "check_and_enforce K now name config store =
     (if used_up K now name config store \<and> q_action config \<noteq> ActWarn
      then Inl (if q_action config = ActReject
                then QuotaRejected (name @ '' '' @ period_name (q_period config) @ '' quota exceeded (hard reject)'')
                else QuotaExceeded (name @ '' '' @ period_name (q_period config) @ '' quota exceeded''))
      else Inr ())"
  by (auto simp: check_and_enforce_def simp flip: check_over
      split: quota_check_result.splits quota_action.splits)

context provider_ok
begin

lemma quota_chat_returns:
  "\<exists>r sw'. quota_chat W K p name config req model sw = Some (r, sw')
     \<and> instant_ms (state_world W) sw \<le> instant_ms (state_world W) sw'"
proof (cases sw)
  case (Pair store w)
  obtain r w' where "chat p req model w = Some (r, w')" "instant_ms W w \<le> instant_ms W w'"
    by (rule chat_returnsE)
  then show ?thesis using Pair
    by (cases "check_and_enforce K (epoch_secs W w) name config store"; cases r) (auto simp: quota_chat_def)
qed

lemma quota_stream_returns:
  "\<exists>r sw'. quota_chat_stream W K p name config req model sw = Some (r, sw')
     \<and> instant_ms (state_world W) sw \<le> instant_ms (state_world W) sw'"
proof (cases sw)
  case (Pair store w)
  obtain r w' where "chat_stream p req model w = Some (r, w')" "instant_ms W w \<le> instant_ms W w'"
    by (rule stream_returnsE)
  then show ?thesis using Pair
    by (cases "check_and_enforce K (epoch_secs W w) name config store") (auto simp: quota_chat_stream_def)
qed

lemma quota_ok: "provider_ok (state_world W) (quota_provider W K p name config)"
  by (intro provider_ok.intro provider_call.intro)
    (simp_all only: quota_provider_def llm_provider.simps quota_chat_returns quota_stream_returns)

end

section \<open>Sequences of requests\<close>

text \<open>The requests of a session, one after the other; a failed request does not stop the rest.\<close>

fun run_requests :: "('a, 's) call list \<Rightarrow> 's \<Rightarrow> 's option" where
  "run_requests [] s = Some s"
| "run_requests (c # cs) s = (case c s of None \<Rightarrow> None | Some (_, s') \<Rightarrow> run_requests cs s')"

text \<open>
  What the code relies on of chrono's calendar: the instants with one period key form an
  interval, so a key that has gone does not come back.
\<close>

definition calendar :: "period_keys \<Rightarrow> bool" where
  "calendar K \<longleftrightarrow> (\<forall>p t1 t2 t3. t1 \<le> t2 \<and> t2 \<le> t3 \<and> K p t1 = K p t3 \<longrightarrow> K p t2 = K p t1)"

text \<open>The recorded usage never exceeds the bound, and its key is of a time that has been.\<close>

definition usage_bounded :: "'w world \<Rightarrow> period_keys \<Rightarrow> string \<Rightarrow> quota_config \<Rightarrow> nat \<Rightarrow> quota_store \<times> 'w \<Rightarrow> bool" where
  "usage_bounded W K name config B = (\<lambda>(store, w).
     \<forall>u. store name = Some u \<longrightarrow>
       tokens u \<le> B \<and> (\<exists>t \<le> epoch_secs W w. period_key u = K (q_period config) t))"

lemma quota_record_tokens:
  "tokens (the (quota_record K now name p c n store name)) =
     wrap64 ((case store name of Some u \<Rightarrow> if period_key u = K p now then tokens u else 0 | None \<Rightarrow> 0) + n)"
  "period_key (the (quota_record K now name p c n store name)) = K p now"
  "quota_record K now name p c n store name \<noteq> None"
  by (auto simp: quota_record_def Let_def split: option.splits)

lemma usage_bounded_step:
  assumes cal: "calendar K"
    and lim: "max_tokens config = Some M" "0 < M" "q_action config \<noteq> ActWarn"
    and inner: "\<And>w r w'. chat inner req model w = Some (r, w') \<Longrightarrow> epoch_secs W w \<le> epoch_secs W w'"
      "\<And>w a w' u. chat inner req model w = Some (Inr a, w') \<Longrightarrow> resp_usage a = Some u \<Longrightarrow> total_tokens u \<le> U"
    and inv: "usage_bounded W K name config (M - 1 + U) sw"
    and run: "quota_chat W K inner name config req model sw = Some (r, sw')"
  shows "usage_bounded W K name config (M - 1 + U) sw'"
proof -
  obtain store w where sw: "sw = (store, w)" by (cases sw)
  obtain store' w' where sw': "sw' = (store', w')" by (cases sw')
  show ?thesis
  proof (cases "check_and_enforce K (epoch_secs W w) name config store")
    case (Inl e)
    with run inv sw sw' show ?thesis by (simp add: quota_chat_def)
  next
    case (Inr x)
    then have free: "\<not> used_up K (epoch_secs W w) name config store"
      using lim(3) by (simp add: enforce_cases split: if_splits)
    from run sw sw' Inr obtain res where res: "chat inner req model w = Some (res, w')"
      by (auto simp: quota_chat_def split: option.splits sum.splits Option.bind_splits)
    have le: "epoch_secs W w \<le> epoch_secs W w'" by (rule inner(1) [OF res])
    have old: "usage_bounded W K name config (M - 1 + U) (store, w')"
      using inv sw le by (auto simp: usage_bounded_def intro: le_trans)
    have carried: "tokens v \<le> M - 1"
      if v: "store name = Some v" "period_key v = K (q_period config) (epoch_secs W w')" for v
    proof -
      obtain t where t: "t \<le> epoch_secs W w" "period_key v = K (q_period config) t"
        using inv sw v(1) by (auto simp: usage_bounded_def)
      then have "K (q_period config) (epoch_secs W w) = K (q_period config) t"
        using cal le v(2) unfolding calendar_def by metis
      then have "\<not> M \<le> tokens v" using free v(1) t(2) lim(1,2) by (simp add: used_up_def)
      then show ?thesis by simp
    qed
    have new: "usage_bounded W K name config (M - 1 + U)
        (quota_record K (epoch_secs W w') name (q_period config) c n store, w')" if "n \<le> U" for c n
    proof -
      let ?u = "the (quota_record K (epoch_secs W w') name (q_period config) c n store name)"
      let ?old = "case store name of
          Some u \<Rightarrow> if period_key u = K (q_period config) (epoch_secs W w') then tokens u else 0 | None \<Rightarrow> 0"
      have "?old + n \<le> M - 1 + U"
        using carried that by (auto split: option.splits intro: add_mono)
      moreover have "wrap64 (?old + n) \<le> ?old + n" by (simp add: wrap64_def)
      ultimately have "tokens ?u \<le> M - 1 + U" unfolding quota_record_tokens(1) by linarith
      moreover have "period_key ?u = K (q_period config) (epoch_secs W w')" by (rule quota_record_tokens(2))
      ultimately show ?thesis
        by (auto simp: usage_bounded_def intro: order_refl)
    qed
    show ?thesis
      using run sw sw' Inr res old new inner(2) [of w _ w']
      by (auto simp: quota_chat_def record_usage_def Let_def split: sum.splits option.splits if_splits)
  qed
qed

lemma usage_bounded_run:
  assumes step: "\<And>c s r s'. c \<in> set cs \<Longrightarrow> I s \<Longrightarrow> c s = Some (r, s') \<Longrightarrow> I s'"
    and "I s" "run_requests cs s = Some s'"
  shows "I s'"
  using assms
proof (induction cs arbitrary: s)
  case (Cons c cs)
  then show ?case by (auto split: option.splits) blast
qed simp

section \<open>Properties\<close>

text \<open>
  A quota acts exactly when it is used up: if some positive limit of the current period is
  reached and the action is not to warn, a request returns the configured quota error, the
  wrapped provider is not called and nothing is recorded; in every other case the wrapped
  provider gets the request and its answer is returned unchanged.
\<close>

theorem quota_gates_requests:
  "quota_chat W K inner name config req model (store, w) =
     (if used_up K (epoch_secs W w) name config store \<and> q_action config \<noteq> ActWarn
      then Some (Inl (if q_action config = ActReject
             then QuotaRejected (name @ '' '' @ period_name (q_period config) @ '' quota exceeded (hard reject)'')
             else QuotaExceeded (name @ '' '' @ period_name (q_period config) @ '' quota exceeded'')), (store, w))
      else map_option (\<lambda>(r, w1). (r, (case r of
             Inl _ \<Rightarrow> store
           | Inr a \<Rightarrow> record_usage K (epoch_secs W w1) name config (default_model inner) a store, w1)))
             (chat inner req model w))"
  by (auto simp: quota_chat_def enforce_cases split: option.splits sum.splits Option.bind_splits)

text \<open>
  C38. The overshoot of a token quota is at most one request: from an empty store, with a limit above zero and an action that
  refuses, whatever non-streaming requests a session makes one after the other, and however often the period rolls
  over, the recorded tokens of the provider stay below the limit plus the largest usage of a single response.
\<close>

theorem quota_overshoot:
  assumes "calendar K"
    and "max_tokens config = Some M" "0 < M" "q_action config \<noteq> ActWarn"
    and "\<And>req model w r w'. chat inner req model w = Some (r, w') \<Longrightarrow> epoch_secs W w \<le> epoch_secs W w'"
    and "\<And>req model w a w' u. chat inner req model w = Some (Inr a, w') \<Longrightarrow> resp_usage a = Some u \<Longrightarrow> total_tokens u \<le> U"
    and "run_requests (map (\<lambda>(req, model). quota_chat W K inner name config req model) reqs) (Map.empty, w)
      = Some (store', w')"
    and "store' name = Some u"
  shows "tokens u < M + U"
proof -
  have "usage_bounded W K name config (M - 1 + U) (store', w')"
  proof (rule usage_bounded_run [OF _ _ assms(7)])
    show "usage_bounded W K name config (M - 1 + U) (Map.empty, w)" by (simp add: usage_bounded_def)
  next
    fix c s r s'
    assume c: "c \<in> set (map (\<lambda>(req, model). quota_chat W K inner name config req model) reqs)"
      and I: "usage_bounded W K name config (M - 1 + U) s" and run: "c s = Some (r, s')"
    from c obtain req model where "c = quota_chat W K inner name config req model" by auto
    with run have "quota_chat W K inner name config req model s = Some (r, s')" by simp
    then show "usage_bounded W K name config (M - 1 + U) s'"
      by (rule usage_bounded_step [OF assms(1-4) _ _ I, rotated 2]) (auto intro: assms(5,6))
  qed
  then show ?thesis using assms(3,8) by (auto simp: usage_bounded_def)
qed

definition day_keys :: period_keys where
  "day_keys p now = replicate (now div 86400) CHR ''d''"

definition sixty :: llm_response where
  "sixty = \<lparr>resp_content = ''ok'', resp_tool_calls = [], resp_usage = Some (usage_new 40 20)\<rparr>"

definition steady :: "(unit, nat) llm_provider" where
  "steady = \<lparr>provider_name = ''steady'', default_model = ''m'', chat = (\<lambda>_ _ w. Some (Inr sixty, w + 1)),
     chat_stream = (\<lambda>_ _ w. Some (Inr [], w + 1))\<rparr>"

definition hundred :: quota_config where
  "hundred = quota_config_default\<lparr>max_tokens := Some 100, q_period := Daily\<rparr>"

lemma day_keys_calendar: "calendar day_keys"
proof -
  have "t2 div 86400 = t1 div 86400" if "t1 \<le> t2" "t2 \<le> t3" "t1 div 86400 = t3 div 86400" for t1 t2 t3 :: nat
    using div_le_mono [OF that(1), of 86400] div_le_mono [OF that(2), of 86400] that(3) by simp
  then show ?thesis by (auto simp: calendar_def day_keys_def)
qed

theorem quota_overshoot_witness:
  "\<exists>store' w' u. run_requests (map (\<lambda>(req, model). quota_chat ms_world day_keys steady ''p'' hundred req model)
       (replicate 3 ((), None))) (Map.empty, 0) = Some (store', w')
     \<and> store' ''p'' = Some u \<and> tokens u = 120 \<and> w' = 2 \<and> tokens u < 100 + 60"
proof -
  let ?u = "\<lparr>period_key = [], cost_usd = 0, tokens = 120\<rparr>"
  have u: "map_option (\<lambda>(s, w). (s ''p'', w)) (run_requests (map (\<lambda>(req, model). quota_chat ms_world day_keys steady ''p'' hundred req model)
       (replicate 3 ((), None))) (Map.empty, 0)) = Some (Some ?u, 2)"
    by code_simp
  then obtain store' where run: "run_requests (map (\<lambda>(req, model). quota_chat ms_world day_keys steady ''p'' hundred req model)
       (replicate 3 ((), None))) (Map.empty, 0) = Some (store', 2)" "store' ''p'' = Some ?u"
    by (auto simp del: replicate.simps)
  have "tokens ?u < 100 + 60"
  proof (rule quota_overshoot [OF day_keys_calendar _ _ _ _ _ run])
    show "max_tokens hundred = Some 100" "0 < (100::nat)" "q_action hundred \<noteq> ActWarn"
      by (simp_all add: hundred_def quota_config_default_def)
  next
    fix req model w r w' assume "chat steady req model w = Some (r, w')"
    then show "epoch_secs ms_world w \<le> epoch_secs ms_world w'"
      by (auto simp: steady_def ms_world_def div_le_mono)
  next
    fix req model w a w' v assume "chat steady req model w = Some (Inr a, w')" "resp_usage a = Some v"
    then show "total_tokens v \<le> 60" by (auto simp: steady_def sixty_def usage_new_def wrap32_def)
  qed
  then show ?thesis using run by (intro exI [of _ store'] exI [of _ 2] exI [of _ ?u]) simp
qed

text \<open>
  A limit of zero is not enforced: with a token limit of zero and no cost limit every
  request passes, whatever was used.
\<close>

theorem zero_limit_is_unlimited:
  "check_and_enforce K now name \<lparr>max_cost_usd = None, max_tokens = Some 0, q_period = p, q_action = a\<rparr> store = Inr ()"
  by (simp add: enforce_cases used_up_def split: option.splits)

end
