(* ===== verification/Registry.thy ===== *)
theory Registry
  imports Zepto_Prelude Quota
begin

text \<open>
  The provider registry, \<open>src/src/providers/registry.rs\<close>: the table of known providers, the
  inference of a provider from a model name, and the resolution of the configured providers
  into runtime selections with credentials (\<open>src/src/auth/mod.rs\<close>). The encrypted token store
  and the import of Claude CLI credentials are input: \<open>load\<close> gives the stored token of a
  provider, \<open>claude\<close> what the import finds.
\<close>

section \<open>The table\<close>

record provider_spec =
  spec_name :: string
  model_keywords :: "string list"
  runtime_supported :: bool
  default_base_url :: "string option"
  spec_backend :: string
  default_auth_header :: "string option"
  default_api_version :: "string option"
  api_key_required :: bool

definition spec :: "string \<Rightarrow> string list \<Rightarrow> string option \<Rightarrow> string \<Rightarrow> string option \<Rightarrow> string option
    \<Rightarrow> bool \<Rightarrow> provider_spec" where
  "spec n kws url be hdr ver req = \<lparr>spec_name = n, model_keywords = kws, runtime_supported = True,
     default_base_url = url, spec_backend = be, default_auth_header = hdr, default_api_version = ver,
     api_key_required = req\<rparr>"

definition provider_registry :: "provider_spec list" where
  "provider_registry =
     [spec ''anthropic'' [''anthropic'', ''claude''] None ''anthropic'' None None True,
      spec ''openai'' [''openai'', ''gpt''] None ''openai'' None None True,
      spec ''openrouter'' [''openrouter''] (Some ''https://openrouter.ai/api/v1'') ''openai'' None None True,
      spec ''groq'' [''groq''] (Some ''https://api.groq.com/openai/v1'') ''openai'' None None True,
      spec ''zhipu'' [''zhipu'', ''glm'', ''zai''] (Some ''https://open.bigmodel.cn/api/paas/v4'') ''openai'' None None True,
      spec ''vllm'' [''vllm''] (Some ''http://localhost:8000/v1'') ''openai'' None None False,
      spec ''gemini'' [''gemini''] (Some ''https://generativelanguage.googleapis.com/v1beta/openai'') ''openai'' None None True,
      spec ''vertex'' [''vertex''] None ''vertex'' None None False,
      spec ''ollama'' [''ollama''] (Some ''http://localhost:11434/v1'') ''openai'' None None False,
      spec ''nvidia'' [''nvidia'', ''nim''] (Some ''https://integrate.api.nvidia.com/v1'') ''openai'' None None True,
      spec ''deepseek'' [''deepseek''] (Some ''https://api.deepseek.com/v1'') ''openai'' None None True,
      spec ''kimi'' [''kimi'', ''moonshot''] (Some ''https://api.moonshot.cn/v1'') ''openai'' None None True,
      spec ''azure'' [''azure''] None ''openai'' (Some ''api-key'') (Some ''2024-08-01-preview'') True,
      spec ''bedrock'' [''bedrock'', ''anthropic.claude'', ''meta.llama'', ''amazon.titan''] None ''openai'' None None True,
      spec ''xai'' [''xai'', ''grok''] (Some ''https://api.x.ai/v1'') ''openai'' None None True,
      spec ''qianfan'' [''qianfan'', ''ernie'', ''baidu''] (Some ''https://qianfan.baidubce.com/v2'') ''openai'' None None True,
      spec ''novita'' [''novita''] (Some ''https://api.novita.ai/openai'') ''openai'' None None True,
      spec ''liquid'' [''liquid'', ''lfm'', ''lfm2''] (Some ''https://labs.liquid.ai/api/v1'') ''openai'' None None True]"

section \<open>Configuration\<close>

datatype auth_method = AuthApiKey | AuthOAuth | AuthAuto

definition auth_method_from_option :: "string option \<Rightarrow> auth_method" where
  "auth_method_from_option s =
     (if s = Some ''oauth'' then AuthOAuth else if s = Some ''auto'' then AuthAuto else AuthApiKey)"

record provider_config =
  pc_api_key :: "string option"
  pc_api_base :: "string option"
  pc_auth_method :: "string option"
  pc_model :: "string option"
  pc_quota :: "quota_config option"
  pc_auth_header :: "string option"
  pc_api_version :: "string option"

definition provider_config_default :: provider_config where
  "provider_config_default = \<lparr>pc_api_key = None, pc_api_base = None, pc_auth_method = None,
     pc_model = None, pc_quota = None, pc_auth_header = None, pc_api_version = None\<rparr>"

text \<open>The provider sections of the configuration, one field per known provider.\<close>

type_synonym providers_config = "string \<rightharpoonup> provider_config"

definition provider_config_by_name :: "providers_config \<Rightarrow> string \<Rightarrow> provider_config option" where
  "provider_config_by_name config name =
     (if name \<in> {''anthropic'', ''openai'', ''openrouter'', ''groq'', ''zhipu'', ''vllm'', ''gemini'',
        ''vertex'', ''ollama'', ''nvidia'', ''deepseek'', ''kimi'', ''azure'',
        ''bedrock'', ''xai'', ''qianfan'', ''novita'', ''liquid''}
      then config name else None)"

definition configured_api_key :: "provider_config option \<Rightarrow> string option" where
  "configured_api_key p =
     (case p of
        None \<Rightarrow> None
      | Some pc \<Rightarrow> (case pc_api_key pc of Some k \<Rightarrow> if k = [] then None else Some k | None \<Rightarrow> None))"

definition configured_provider_names :: "providers_config \<Rightarrow> string list" where
  "configured_provider_names config =
     List.map_filter (\<lambda>s.
       case provider_config_by_name config (spec_name s) of
         None \<Rightarrow> None
       | Some p \<Rightarrow>
           if \<not> api_key_required s \<or> configured_api_key (Some p) \<noteq> None then Some (spec_name s) else None)
       provider_registry"

definition configured_provider_models :: "providers_config \<Rightarrow> (string \<times> string) list" where
  "configured_provider_models config =
     List.map_filter (\<lambda>s.
       case provider_config_by_name config (spec_name s) of
         None \<Rightarrow> None
       | Some p \<Rightarrow>
           if api_key_required s \<and> configured_api_key (Some p) = None then None
           else (case pc_model p of
                   None \<Rightarrow> None
                 | Some m \<Rightarrow> if m = [] then None else Some (spec_name s, m)))
       provider_registry"

definition configured_unsupported_provider_names :: "providers_config \<Rightarrow> string list" where
  "configured_unsupported_provider_names config =
     List.map_filter (\<lambda>s.
       if runtime_supported s then None
       else map_option (\<lambda>_. spec_name s) (configured_api_key (provider_config_by_name config (spec_name s))))
       provider_registry"

section \<open>From model to provider\<close>

fun split_once :: "char \<Rightarrow> string \<Rightarrow> (string \<times> string) option" where
  "split_once d [] = None"
| "split_once d (c # cs) =
     (if c = d then Some ([], cs) else map_option (\<lambda>(a, b). (c # a, b)) (split_once d cs))"

definition keyword_match :: "string \<Rightarrow> string option" where
  "keyword_match text =
     map_option spec_name
       (find (\<lambda>s. list_ex (\<lambda>kw. str_contains text kw) (model_keywords s))
          (filter runtime_supported provider_registry))"

definition infer_provider_name_for_model :: "string \<Rightarrow> string list \<Rightarrow> string option" where
  "infer_provider_name_for_model model available_providers =
     (let model_lower = to_ascii_lowercase model in
      case split_once CHR ''/'' model_lower of
        Some (pre, suf) \<Rightarrow>
          if pre = ''openrouter'' then Some ''openrouter''
          else (case find (\<lambda>s. spec_name s = pre) (filter runtime_supported provider_registry) of
                  Some s \<Rightarrow>
                    if spec_name s \<in> set available_providers then Some (spec_name s)
                    else if ''openrouter'' \<in> set available_providers then Some ''openrouter''
                    else keyword_match suf
                | None \<Rightarrow>
                    if ''openrouter'' \<in> set available_providers then Some ''openrouter''
                    else keyword_match suf)
      | None \<Rightarrow> keyword_match model_lower)"

definition provider_name_for_model :: "string \<Rightarrow> string option" where
  "provider_name_for_model model = infer_provider_name_for_model model []"

definition provider_name_for_model_with_available :: "string \<Rightarrow> string list \<Rightarrow> string option" where
  "provider_name_for_model_with_available model available = infer_provider_name_for_model model available"

section \<open>Credentials\<close>

datatype resolved_credential = ApiKey string | BearerToken string "int option"

record oauth_token_set =
  token_provider :: string
  access_token :: string
  refresh_token :: "string option"
  expires_at :: "int option"
  token_type :: string
  token_scope :: "string option"
  obtained_at :: int
  client_id :: "string option"

definition is_expired :: "int \<Rightarrow> oauth_token_set \<Rightarrow> bool" where
  "is_expired now t = (case expires_at t of Some e \<Rightarrow> e \<le> now | None \<Rightarrow> False)"

definition expires_within :: "int \<Rightarrow> int \<Rightarrow> oauth_token_set \<Rightarrow> bool" where
  "expires_within now secs t = (case expires_at t of Some e \<Rightarrow> e \<le> now + secs | None \<Rightarrow> False)"

definition is_bearer :: "resolved_credential \<Rightarrow> bool" where
  "is_bearer c = (case c of BearerToken _ _ \<Rightarrow> True | ApiKey _ \<Rightarrow> False)"

type_synonym token_loader = "string \<Rightarrow> oauth_token_set option"

definition try_load_oauth_token :: "int \<Rightarrow> string \<Rightarrow> token_loader option \<Rightarrow> resolved_credential option" where
  "try_load_oauth_token now name store =
     (case store of
        None \<Rightarrow> None
      | Some load \<Rightarrow>
          (case load name of
             None \<Rightarrow> None
           | Some t \<Rightarrow> if is_expired now t then None else Some (BearerToken (access_token t) (expires_at t))))"

definition resolve_credential ::
    "int \<Rightarrow> token_loader option \<Rightarrow> oauth_token_set option \<Rightarrow> provider_spec \<Rightarrow> auth_method
       \<Rightarrow> provider_config option \<Rightarrow> (resolved_credential \<times> string) option" where
  "resolve_credential now store claude s auth pc =
     (let api_key = configured_api_key pc;
          key_text = (case api_key of Some k \<Rightarrow> k | None \<Rightarrow> []);
          by_key = map_option (\<lambda>k. (ApiKey k, k)) api_key;
          oauth = try_load_oauth_token now (spec_name s) store;
          res = (case auth of
                   AuthApiKey \<Rightarrow> by_key
                 | AuthOAuth \<Rightarrow> map_option (\<lambda>t. (t, key_text)) oauth
                 | AuthAuto \<Rightarrow> (case oauth of Some t \<Rightarrow> Some (t, key_text) | None \<Rightarrow> by_key))
      in if res = None \<and> \<not> api_key_required s \<and> pc \<noteq> None then Some (ApiKey [], [])
         else if res = None \<and> spec_name s = ''anthropic'' \<and> pc \<noteq> None
         then (case claude of
                 Some t \<Rightarrow> Some (BearerToken (access_token t) (expires_at t), [])
               | None \<Rightarrow> res)
         else res)"

section \<open>Resolution\<close>

record runtime_selection =
  sel_name :: string
  sel_api_key :: string
  sel_api_base :: "string option"
  sel_backend :: string
  sel_credential :: resolved_credential
  sel_model :: "string option"
  sel_auth_header :: "string option"
  sel_api_version :: "string option"

definition eq_ignore_ascii_case :: "string \<Rightarrow> string \<Rightarrow> bool" where
  "eq_ignore_ascii_case a b \<longleftrightarrow> to_ascii_lowercase a = to_ascii_lowercase b"

definition opt_or :: "'a option \<Rightarrow> 'a option \<Rightarrow> 'a option" where
  "opt_or a b = (case a of Some x \<Rightarrow> Some x | None \<Rightarrow> b)"

definition resolve_one ::
    "int \<Rightarrow> token_loader option \<Rightarrow> oauth_token_set option \<Rightarrow> providers_config \<Rightarrow> provider_spec
       \<Rightarrow> runtime_selection option" where
  "resolve_one now store claude config s =
     (let provider = provider_config_by_name config (spec_name s);
          auth = (case provider of Some p \<Rightarrow> auth_method_from_option (pc_auth_method p) | None \<Rightarrow> AuthApiKey)
      in case resolve_credential now store claude s auth provider of
           None \<Rightarrow> None
         | Some (credential, api_key_str) \<Rightarrow>
             let user_base = (case Option.bind provider pc_api_base of
                   Some b \<Rightarrow> if b = [] then None else Some b | None \<Rightarrow> None);
                 auth_header = (case map_option trim (Option.bind provider pc_auth_header) of
                   Some h \<Rightarrow> if eq_ignore_ascii_case h ''bearer'' then None
                             else if h \<noteq> [] then Some h else default_auth_header s
                 | None \<Rightarrow> default_auth_header s);
                 user_version = (case map_option trim (Option.bind provider pc_api_version) of
                   Some v \<Rightarrow> if v = [] then None else Some v | None \<Rightarrow> None)
             in Some \<lparr>sel_name = spec_name s, sel_api_key = api_key_str,
                  sel_api_base = opt_or user_base (default_base_url s), sel_backend = spec_backend s,
                  sel_credential = credential, sel_model = Option.bind provider pc_model,
                  sel_auth_header = auth_header,
                  sel_api_version = opt_or user_version (default_api_version s)\<rparr>)"

definition resolve_runtime_providers ::
    "int \<Rightarrow> token_loader option \<Rightarrow> oauth_token_set option \<Rightarrow> providers_config \<Rightarrow> runtime_selection list" where
  "resolve_runtime_providers now store claude config =
     List.map_filter (resolve_one now store claude config) (filter runtime_supported provider_registry)"

definition resolve_runtime_provider ::
    "int \<Rightarrow> token_loader option \<Rightarrow> oauth_token_set option \<Rightarrow> providers_config \<Rightarrow> runtime_selection option" where
  "resolve_runtime_provider now store claude config =
     (case resolve_runtime_providers now store claude config of [] \<Rightarrow> None | s # _ \<Rightarrow> Some s)"

section \<open>Lemmas\<close>

lemma map_filter_Cons:
  "List.map_filter f (x # xs) = (case f x of None \<Rightarrow> List.map_filter f xs | Some y \<Rightarrow> y # List.map_filter f xs)"
  by (simp add: List.map_filter_simps)

lemma map_filter_subseq:
  assumes "\<And>x y. f x = Some y \<Longrightarrow> g y = h x"
  shows "subseq (map g (List.map_filter f xs)) (map h xs)"
proof (induction xs)
  case (Cons x xs)
  then show ?case using assms [of x] by (cases "f x") (auto simp: map_filter_Cons)
qed (simp add: List.map_filter_simps)

lemma registry_names_distinct: "distinct (map spec_name provider_registry)"
  by code_simp

lemma registry_supported [simp]: "filter runtime_supported provider_registry = provider_registry"
  by code_simp

lemma resolve_one_name: "resolve_one now store claude config s = Some sel \<Longrightarrow> sel_name sel = spec_name s"
  by (auto simp: resolve_one_def Let_def split: option.splits)

lemma subseq_distinct: "subseq xs ys \<Longrightarrow> distinct ys \<Longrightarrow> distinct xs"
  by (induction rule: list_emb.induct) (auto dest: list_emb_set)

lemma registry_member:
  "s \<in> set provider_registry \<Longrightarrow> \<not> api_key_required s \<Longrightarrow> spec_name s \<in> {''vllm'', ''vertex'', ''ollama''}"
  by (auto simp: provider_registry_def spec_def)

lemma resolve_credential_kinds:
  assumes "resolve_credential now store claude s auth pc = Some (c, k)"
  shows "(c = ApiKey k \<and> k \<noteq> [] \<and> Option.bind pc pc_api_key = Some k)
    \<or> (c = ApiKey [] \<and> k = [] \<and> \<not> api_key_required s \<and> pc \<noteq> None)
    \<or> (\<exists>load t. store = Some load \<and> load (spec_name s) = Some t \<and> \<not> is_expired now t
         \<and> c = BearerToken (access_token t) (expires_at t) \<and> auth \<noteq> AuthApiKey)
    \<or> (\<exists>t. claude = Some t \<and> spec_name s = ''anthropic'' \<and> c = BearerToken (access_token t) (expires_at t))"
  using assms
  by (auto simp: resolve_credential_def try_load_oauth_token_def configured_api_key_def Let_def
      split: option.splits if_splits auth_method.splits)

lemma find_hd: "P x \<Longrightarrow> find P (x # xs) = Some x"
  by simp

lemma split_once_None: "split_once d s = None \<longleftrightarrow> d \<notin> set s"
  by (induction s) auto

section \<open>Properties\<close>

text \<open>
  The runtime selections are the configured providers in registry order, each at most once,
  and every selection carries a credential of the allowed kind: the provider's own non-empty
  key, an unexpired stored token, an imported Claude token for Anthropic only, or the empty
  key of one of the three keyless providers, which then has a section in the configuration.
\<close>

theorem resolution_sound:
  assumes "sel \<in> set (resolve_runtime_providers now store claude config)"
  shows "subseq (map sel_name (resolve_runtime_providers now store claude config)) (map spec_name provider_registry)
    \<and> distinct (map sel_name (resolve_runtime_providers now store claude config))
    \<and> ((\<exists>k. sel_credential sel = ApiKey k \<and> k \<noteq> [] \<and> sel_api_key sel = k
          \<and> Option.bind (provider_config_by_name config (sel_name sel)) pc_api_key = Some k)
       \<or> (sel_credential sel = ApiKey [] \<and> sel_name sel \<in> {''vllm'', ''vertex'', ''ollama''}
          \<and> provider_config_by_name config (sel_name sel) \<noteq> None)
       \<or> (\<exists>load t. store = Some load \<and> load (sel_name sel) = Some t \<and> \<not> is_expired now t
          \<and> sel_credential sel = BearerToken (access_token t) (expires_at t))
       \<or> (\<exists>t. claude = Some t \<and> sel_name sel = ''anthropic''
          \<and> sel_credential sel = BearerToken (access_token t) (expires_at t)))"
proof -
  have sub: "subseq (map sel_name (resolve_runtime_providers now store claude config)) (map spec_name provider_registry)"
    unfolding resolve_runtime_providers_def registry_supported
    by (rule map_filter_subseq) (rule resolve_one_name)
  from assms obtain s where s: "s \<in> set provider_registry" "resolve_one now store claude config s = Some sel"
    by (auto simp: resolve_runtime_providers_def List.map_filter_def)
  then obtain auth where "resolve_credential now store claude s auth (provider_config_by_name config (spec_name s))
      = Some (sel_credential sel, sel_api_key sel)"
    by (auto simp: resolve_one_def Let_def split: option.splits)
  from resolve_credential_kinds [OF this] show ?thesis
    using sub subseq_distinct [OF sub registry_names_distinct] registry_member [OF s(1)]
    unfolding resolve_one_name [OF s(2)] by blast
qed

definition sample_config :: providers_config where
  "sample_config = [''ollama'' \<mapsto> provider_config_default,
     ''openai'' \<mapsto> provider_config_default\<lparr>pc_api_key := Some ''sk''\<rparr>]"

theorem resolution_sound_witness:
  "map sel_name (resolve_runtime_providers 0 None None sample_config) = [''openai'', ''ollama'']
   \<and> distinct (map sel_name (resolve_runtime_providers 0 None None sample_config))"
proof -
  let ?sel = "hd (resolve_runtime_providers 0 None None sample_config)"
  have names: "map sel_name (resolve_runtime_providers 0 None None sample_config) = [''openai'', ''ollama'']"
    by code_simp
  then have "?sel \<in> set (resolve_runtime_providers 0 None None sample_config)"
    by (intro hd_in_set) (metis list.simps(8) list.distinct(1))
  from resolution_sound [OF this] names show ?thesis by (elim conjE) (intro conjI)
qed

text \<open>
  The Bedrock keyword \<open>anthropic.claude\<close> never selects Bedrock: a plain model name that
  holds it also holds Anthropic's own keyword, which comes first in the registry.
\<close>

theorem bedrock_keyword_shadowed:
  assumes "CHR ''/'' \<notin> set (to_ascii_lowercase model)"
    and "str_contains (to_ascii_lowercase model) ''anthropic.claude''"
  shows "infer_provider_name_for_model model available = Some ''anthropic''"
proof -
  have "sublist ''anthropic'' ''anthropic.claude''" by (simp add: sublist_Cons_right)
  then have "str_contains (to_ascii_lowercase model) ''anthropic''"
    using assms(2) sublist_order.order.trans by blast
  then have "keyword_match (to_ascii_lowercase model) = Some ''anthropic''"
    by (simp add: keyword_match_def provider_registry_def spec_def)
  moreover have "split_once CHR ''/'' (to_ascii_lowercase model) = None"
    using assms(1) by (simp add: split_once_None)
  ultimately show ?thesis by (simp add: infer_provider_name_for_model_def)
qed

theorem bedrock_keyword_shadowed_witness:
  "infer_provider_name_for_model ''anthropic.claude-3-sonnet'' [''bedrock''] = Some ''anthropic''"
  by (rule bedrock_keyword_shadowed) code_simp+

end
