(* ===== verification/Provider_Chain.thy ===== *)
theory Provider_Chain
  imports Retry Registry "HOL-Library.Multiset"
begin

text \<open>
  The assembly of the provider chain, \<open>src/src/kernel/provider.rs\<close>: every resolved provider is
  wrapped in its quota, the candidates are reordered by the configured model and by the
  preferred fallback, nested in \<open>FallbackProvider\<close>s and wrapped in the retry decorator. The
  providers themselves (\<open>provider_from_runtime_selection\<close>) are the parameter \<open>mk\<close>; reading
  the OAuth refresh endpoint is left out.

  The quota store is shared by all candidates; the state of the nested fallbacks is a function
  from the nesting level to the fallback's state. Both are kept beside the base world.
\<close>

section \<open>Wrapping\<close>

definition lift_provider :: "('r, 'w) llm_provider \<Rightarrow> ('r, 's \<times> 'w) llm_provider" where
  "lift_provider p =
     \<lparr>provider_name = provider_name p, default_model = default_model p,
      chat = (\<lambda>req model (s, w). with_state s (chat p req model w)),
      chat_stream = (\<lambda>req model (s, w). with_state s (chat_stream p req model w))\<rparr>"

definition apply_quota_wrapper ::
    "'w world \<Rightarrow> period_keys \<Rightarrow> ('r, 'w) llm_provider \<Rightarrow> string \<Rightarrow> quota_config option
       \<Rightarrow> ('r, quota_store \<times> 'w) llm_provider" where
  "apply_quota_wrapper W K provider name quota =
     (case quota of
        Some config \<Rightarrow> quota_provider W K provider name config
      | None \<Rightarrow> lift_provider provider)"

record ('r, 'w) candidate =
  cand_name :: string
  cand_provider :: "('r, 'w) llm_provider"
  cand_model :: "string option"

section \<open>Ordering the candidates\<close>

definition move_to :: "nat \<Rightarrow> nat \<Rightarrow> 'a list \<Rightarrow> 'a list" where
  "move_to i j xs = (let ys = take i xs @ drop (Suc i) xs in take j ys @ [xs ! i] @ drop j ys)"

fun position :: "('a \<Rightarrow> bool) \<Rightarrow> 'a list \<Rightarrow> nat option" where
  "position P [] = None"
| "position P (x # xs) = (if P x then Some 0 else map_option Suc (position P xs))"

definition promote_for_model :: "string \<Rightarrow> ('r, 'w) candidate list \<Rightarrow> ('r, 'w) candidate list" where
  "promote_for_model configured_model candidates =
     (case provider_name_for_model_with_available configured_model (map cand_name candidates) of
        None \<Rightarrow> candidates
      | Some preferred \<Rightarrow>
          (case position (\<lambda>c. cand_name c = preferred) candidates of
             None \<Rightarrow> candidates
           | Some idx \<Rightarrow> if 0 < idx then move_to idx 0 candidates else candidates))"

definition apply_fallback_preference :: "string option \<Rightarrow> ('r, 'w) candidate list \<Rightarrow> ('r, 'w) candidate list" where
  "apply_fallback_preference preferred candidates =
     (case preferred of
        None \<Rightarrow> candidates
      | Some p \<Rightarrow>
          let name = trim p in
          if name = [] then candidates
          else if length candidates < 2 then candidates
          else if eq_ignore_ascii_case (cand_name (candidates ! 0)) name then candidates
          else (case position (\<lambda>c. eq_ignore_ascii_case (cand_name c) name) (drop 1 candidates) of
                  Some i \<Rightarrow> move_to (Suc i) 1 candidates
                | None \<Rightarrow> candidates))"

section \<open>The nested fallbacks\<close>

type_synonym chain_state = "nat \<Rightarrow> fallback_state"

definition at_level :: "nat \<Rightarrow> ('a, fallback_state \<times> (chain_state \<times> 'w)) call \<Rightarrow> ('a, chain_state \<times> 'w) call" where
  "at_level n call = (\<lambda>(f, w).
     map_option (\<lambda>(r, (st, (f', w'))). (r, (f'(n := st), w'))) (call (f n, (f, w))))"

definition level_provider ::
    "nat \<Rightarrow> ('r, fallback_state \<times> (chain_state \<times> 'w)) llm_provider \<Rightarrow> ('r, chain_state \<times> 'w) llm_provider" where
  "level_provider n p =
     \<lparr>provider_name = provider_name p, default_model = default_model p,
      chat = (\<lambda>req model. at_level n (chat p req model)),
      chat_stream = (\<lambda>req model. at_level n (chat_stream p req model))\<rparr>"

fun extend_chain ::
    "'w world \<Rightarrow> nat \<Rightarrow> ('r, chain_state \<times> 'w) llm_provider \<Rightarrow> ('r, 'w) candidate list
       \<Rightarrow> ('r, chain_state \<times> 'w) llm_provider" where
  "extend_chain W n provider_chain [] = provider_chain"
| "extend_chain W n provider_chain (c # cs) =
     extend_chain W (Suc n)
       (level_provider n
          (fallback_provider (state_world W) provider_chain (lift_provider (cand_provider c)) (cand_model c))) cs"

section \<open>Assembly\<close>

record chain_config =
  cc_providers :: providers_config
  cc_model :: string
  cc_fallback_enabled :: bool
  cc_fallback_provider :: "string option"
  cc_retry_enabled :: bool
  cc_retry :: retry_config

definition runtime_candidates ::
    "'w world \<Rightarrow> period_keys \<Rightarrow> (runtime_selection \<Rightarrow> string \<Rightarrow> ('r, 'w) llm_provider option)
       \<Rightarrow> chain_config \<Rightarrow> runtime_selection list \<Rightarrow> ('r, quota_store \<times> 'w) candidate list" where
  "runtime_candidates W K mk config selections =
     List.map_filter (\<lambda>sel.
       case mk sel (cc_model config) of
         Some provider \<Rightarrow>
           (let quota = Option.bind (provider_config_by_name (cc_providers config) (sel_name sel)) pc_quota
            in Some \<lparr>cand_name = sel_name sel,
                 cand_provider = apply_quota_wrapper W K provider (sel_name sel) quota,
                 cand_model = sel_model sel\<rparr>)
       | None \<Rightarrow> None) selections"

definition build_runtime_provider_chain ::
    "'w world \<Rightarrow> chain_config \<Rightarrow> ('r, 'w) candidate list
       \<Rightarrow> (('r, chain_state \<times> 'w) llm_provider \<times> string list) option" where
  "build_runtime_provider_chain W config candidates =
     (case promote_for_model (cc_model config) candidates of
        [] \<Rightarrow> None
      | first # rest \<Rightarrow>
          if \<not> cc_fallback_enabled config then Some (lift_provider (cand_provider first), [cand_name first])
          else if rest \<noteq> [] then
            (case apply_fallback_preference (cc_fallback_provider config) (first # rest) of
               [] \<Rightarrow> None
             | primary # others \<Rightarrow>
                 Some (extend_chain W 0 (lift_provider (cand_provider primary)) others,
                       map cand_name (primary # others)))
          else Some (lift_provider (cand_provider first), [cand_name first]))"

definition apply_retry_wrapper :: "'w world \<Rightarrow> chain_config \<Rightarrow> ('r, 'w) llm_provider \<Rightarrow> ('r, 'w) llm_provider" where
  "apply_retry_wrapper W config provider =
     (if \<not> cc_retry_enabled config then provider else retry_provider W (cc_retry config) provider)"

definition build_provider_chain ::
    "'w world \<Rightarrow> period_keys \<Rightarrow> (runtime_selection \<Rightarrow> string \<Rightarrow> ('r, 'w) llm_provider option)
       \<Rightarrow> chain_config \<Rightarrow> runtime_selection list
       \<Rightarrow> (('r, chain_state \<times> (quota_store \<times> 'w)) llm_provider \<times> string list) option" where
  "build_provider_chain W K mk config selections =
     map_option (\<lambda>(chain, names). (apply_retry_wrapper (state_world (state_world W)) config chain, names))
       (build_runtime_provider_chain (state_world W) config (runtime_candidates W K mk config selections))"

section \<open>Lemmas\<close>

context provider_ok
begin

lemma lift_ok: "provider_ok (state_world W) (lift_provider p :: ('r, 's \<times> 'w) llm_provider)"
proof (intro provider_ok.intro provider_call.intro)
  fix req model and sw :: "'s \<times> 'w"
  obtain s w where sw: "sw = (s, w)" by (cases sw)
  show "\<exists>r w'. chat (lift_provider p) req model sw = Some (r, w') \<and> instant_ms (state_world W) sw \<le> instant_ms (state_world W) w'"
    using provider_call.returns [OF chat_call, of req model w] sw by (auto simp: lift_provider_def)
  show "\<exists>r w'. chat_stream (lift_provider p) req model sw = Some (r, w') \<and> instant_ms (state_world W) sw \<le> instant_ms (state_world W) w'"
    using provider_call.returns [OF stream_call, of req model w] sw by (auto simp: lift_provider_def)
qed

lemma retry_ok: "sleeping_world W \<Longrightarrow> provider_ok W (retry_provider W c p)"
  by (intro provider_ok.intro provider_call.intro)
    (simp_all add: retry_provider_def retry_chat_def retry_chat_stream_def chat_call stream_call
      retry_layer.retry_returns [OF retry_layer.intro])

lemma quota_wrapper_ok: "provider_ok (state_world W) (apply_quota_wrapper W K p name quota)"
  by (cases quota) (simp_all add: apply_quota_wrapper_def lift_ok quota_ok)

lemma retry_wrapper_ok: "sleeping_world W \<Longrightarrow> provider_ok W (apply_retry_wrapper W config p)"
  by (simp add: apply_retry_wrapper_def retry_ok provider_ok_axioms)

end

lemma at_level_call:
  assumes "provider_call (state_world (state_world W)) call"
  shows "provider_call (state_world W) (at_level n call)"
proof
  fix fw :: "chain_state \<times> 'a"
  obtain f w where fw: "fw = (f, w)" by (cases fw)
  obtain r st f' w' where "call (f n, (f, w)) = Some (r, (st, (f', w')))" "instant_ms W w \<le> instant_ms W w'"
    using provider_call.returns [OF assms, of "(f n, (f, w))"] by (auto simp: state_world_def)
  then show "\<exists>r w'. at_level n call fw = Some (r, w') \<and> instant_ms (state_world W) fw \<le> instant_ms (state_world W) w'"
    using fw by (simp add: at_level_def)
qed

lemma level_fallback_ok:
  assumes "provider_ok (state_world W) prim" "provider_ok W p"
  shows "provider_ok (state_world W)
    (level_provider n (fallback_provider (state_world W) prim (lift_provider p) m))"
proof -
  have lp: "provider_ok (state_world W) (lift_provider p :: ('b, chain_state \<times> 'a) llm_provider)"
    by (rule provider_ok.lift_ok [OF assms(2)])
  show ?thesis
    by (rule provider_ok.intro)
      (auto simp: level_provider_def fallback_provider_def fallback_chat_def fallback_chat_stream_def
        intro!: at_level_call fallback_layer.fallback_call_ok fallback_layer.intro
          provider_ok.chat_call provider_ok.stream_call assms(1) lp)
qed

lemma extend_chain_ok:
  "provider_ok (state_world W) prim \<Longrightarrow> \<forall>c \<in> set cs. provider_ok W (cand_provider c) \<Longrightarrow>
     provider_ok (state_world W) (extend_chain W n prim cs)"
  by (induction cs arbitrary: n prim) (auto intro: level_fallback_ok)

lemma mset_move_to: "i < length xs \<Longrightarrow> mset (move_to i j xs) = mset xs"
proof -
  assume i: "i < length xs"
  have "mset (take j ys @ [x] @ drop j ys) = mset (x # ys)" for x :: 'a and ys
    by (metis append_take_drop_id add_mset_add_single mset.simps(2) mset_append union_mset_add_mset_right append_Cons append_Nil)
  moreover have "mset (xs ! i # take i xs @ drop (Suc i) xs) = mset xs"
    using id_take_nth_drop [OF i] by (metis mset.simps(2) mset_append union_mset_add_mset_right)
  ultimately show ?thesis by (simp only: move_to_def Let_def)
qed

lemma position_bound: "position P xs = Some i \<Longrightarrow> i < length xs"
  by (induction xs arbitrary: i) (auto split: if_splits)

lemma mset_promote: "mset (promote_for_model m cs) = mset cs"
  by (auto simp: promote_for_model_def mset_move_to dest: position_bound split: option.splits)

lemma mset_preference: "mset (apply_fallback_preference p cs) = mset cs"
  by (auto simp: apply_fallback_preference_def Let_def mset_move_to dest!: position_bound split: option.splits)

section \<open>What the nested fallbacks compute\<close>

text \<open>Try a second call where the first ends in an error that falls back; scan a list of calls.\<close>

definition then_try :: "('a, 'w) call \<Rightarrow> ('a, 'w) call \<Rightarrow> ('a, 'w) call" where
  "then_try a b w = do {
     (res, w1) \<leftarrow> a w;
     (case res of
        Inl e \<Rightarrow> if error_falls_back e then b w1 else Some (Inl e, w1)
      | Inr x \<Rightarrow> Some (Inr x, w1))
   }"

fun first_answer :: "('a, 'w) call \<Rightarrow> ('a, 'w) call list \<Rightarrow> ('a, 'w) call" where
  "first_answer c [] = c"
| "first_answer c (d # ds) = then_try c (first_answer d ds)"

definition forget :: "('b \<times> ('s \<times> 'w)) option \<Rightarrow> ('b \<times> 'w) option" where
  "forget = map_option (\<lambda>(r, (s, w)). (r, w))"

lemma forget_simps [simp]:
  "forget None = None" "forget (Some (r, (s, w))) = Some (r, w)" "forget (with_state s x) = x"
  by (simp_all add: forget_def with_state_def option.map_comp option.map_ident case_prod_unfold comp_def)

lemma then_try_assoc: "then_try (then_try a b) c = then_try a (then_try b c)"
  by (rule ext) (auto simp: then_try_def split: Option.bind_splits sum.splits simp del: error_falls_back.simps)

lemma foldl_then_try: "foldl then_try a (d # ds) = then_try a (first_answer d ds)"
proof (induction ds arbitrary: a d)
  case (Cons e ds)
  have "foldl then_try a (d # e # ds) = foldl then_try (then_try a d) (e # ds)" by simp
  also have "\<dots> = then_try (then_try a d) (first_answer e ds)" by (rule Cons.IH)
  finally show ?case by (simp add: then_try_assoc)
qed simp

lemma foldl_first_answer: "foldl then_try a ds = first_answer a ds"
  by (cases ds) (simp, metis foldl_then_try first_answer.simps(2))

lemma fresh_no_skip: "\<not> skip_primary W p fallback_state_new w"
  by (simp add: skip_primary_def fallback_state_new_def circuit_breaker_new_def cb_state_def is_in_cooldown_def)

lemma level_step:
  assumes "f n = fallback_state_new" "forget (chat prim req model (f, w)) = scan w"
  shows "forget (chat (level_provider n (fallback_provider (state_world W) prim (lift_provider p) m)) req model (f, w))
    = then_try scan (chat p req (effective_model m model)) w"
proof (cases "chat prim req model (f, w)")
  case None
  moreover have "scan w = None" using assms(2) None by simp
  ultimately show ?thesis using assms(1)
    by (simp add: fresh_no_skip level_provider_def fallback_provider_def fallback_chat_def at_level_def fallback_call_def then_try_def)
next
  case (Some x)
  obtain res f1 w1 where x: "x = (res, (f1, w1))" by (cases x) auto
  have "scan w = Some (res, w1)" using assms(2) Some x by simp
  then show ?thesis using assms(1) Some x
    by (cases res; cases "chat p req (effective_model m model) w1")
      (auto simp: fresh_no_skip level_provider_def fallback_provider_def fallback_chat_def at_level_def fallback_call_def
        then_try_def lift_provider_def simp del: error_falls_back.simps)
qed

lemma extend_chain_scan:
  assumes "\<forall>n. f n = fallback_state_new" "\<And>w. forget (chat prim req model (f, w)) = scan w"
  shows "forget (chat (extend_chain W n prim cs) req model (f, w)) =
    foldl then_try scan (map (\<lambda>c. chat (cand_provider c) req (effective_model (cand_model c) model)) cs) w"
  using assms
proof (induction cs arbitrary: n prim scan)
  case (Cons c cs)
  have "forget (chat (level_provider n
      (fallback_provider (state_world W) prim (lift_provider (cand_provider c)) (cand_model c))) req model (f, v))
    = then_try scan (chat (cand_provider c) req (effective_model (cand_model c) model)) v" for v
    by (rule level_step) (simp_all add: Cons.prems)
  from Cons.IH [OF Cons.prems(1) this] show ?case by simp
qed simp

lemma reject_passes_level:
  assumes "f n = fallback_state_new" "chat prim req model (f, w) = Some (Inl (QuotaRejected m), (f, w))"
  shows "chat (level_provider n (fallback_provider (state_world W) prim fb fm)) req model (f, w)
    = Some (Inl (QuotaRejected m), (f, w))"
proof -
  have "f(n := fallback_state_new) = f" using assms(1) by auto
  then show ?thesis using assms
    by (simp add: level_provider_def fallback_provider_def fallback_chat_def at_level_def fallback_call_def
        fresh_no_skip)
qed

lemma reject_passes_chain:
  "\<forall>n. f n = fallback_state_new \<Longrightarrow> chat prim req model (f, w) = Some (Inl (QuotaRejected m), (f, w)) \<Longrightarrow>
     chat (extend_chain W n prim cs) req model (f, w) = Some (Inl (QuotaRejected m), (f, w))"
  by (induction cs arbitrary: n prim) (simp_all add: reject_passes_level)

lemma reject_passes_retry:
  assumes "chat p req model w = Some (Inl (QuotaRejected m), w)"
  shows "chat (apply_retry_wrapper W config p) req model w = Some (Inl (QuotaRejected m), w)"
  using assms
  by (cases "max_retries (cc_retry config)")
    (simp_all add: apply_retry_wrapper_def retry_provider_def retry_chat_def retry_call_def)

lemma runtime_candidates_in:
  assumes "c \<in> set (runtime_candidates W K mk config sels)"
  obtains sel prov where "sel \<in> set sels" "mk sel (cc_model config) = Some prov" "cand_name c = sel_name sel"
    "cand_provider c = apply_quota_wrapper W K prov (sel_name sel)
       (Option.bind (provider_config_by_name (cc_providers config) (sel_name sel)) pc_quota)"
  using assms by (auto simp: runtime_candidates_def List.map_filter_def Let_def split: option.splits if_splits)

lemma chain_shape:
  assumes "build_runtime_provider_chain W config cands = Some (p, names)"
  obtains c cs where "names = map cand_name (c # cs)" "p = extend_chain W 0 (lift_provider (cand_provider c)) cs"
    "set (c # cs) \<subseteq> set cands" "cc_fallback_enabled config \<Longrightarrow> mset (c # cs) = mset cands"
proof (cases "promote_for_model (cc_model config) cands")
  case Nil
  then show ?thesis using assms by (simp add: build_runtime_provider_chain_def)
next
  case (Cons first rest)
  have ms: "mset (first # rest) = mset cands" using mset_promote [of "cc_model config" cands] Cons by simp
  then have st: "set (first # rest) = set cands" by (metis set_mset_mset)
  show ?thesis
  proof (cases "cc_fallback_enabled config \<and> rest \<noteq> []")
    case True
    let ?o = "apply_fallback_preference (cc_fallback_provider config) (first # rest)"
    have o: "mset ?o = mset cands" using mset_preference [of _ "first # rest"] ms by metis
    then obtain c cs where c: "?o = c # cs" using ms by (cases ?o) auto
    show ?thesis
    proof (rule that)
      show "names = map cand_name (c # cs)" "p = extend_chain W 0 (lift_provider (cand_provider c)) cs"
        using assms Cons True c by (auto simp: build_runtime_provider_chain_def)
      show m: "mset (c # cs) = mset cands" using o c by simp
      then show "set (c # cs) \<subseteq> set cands" by (metis set_mset_mset order_refl)
    qed
  next
    case False
    show ?thesis
    proof (rule that)
      show "names = map cand_name [first]" "p = extend_chain W 0 (lift_provider (cand_provider first)) []"
        using assms Cons False by (auto simp: build_runtime_provider_chain_def split: if_splits)
      show "set [first] \<subseteq> set cands" using st by auto
      show "cc_fallback_enabled config \<Longrightarrow> mset [first] = mset cands" using False ms by simp
    qed
  qed
qed

section \<open>Properties\<close>

text \<open>
  The assembled chain keeps the contract of its parts: if every provider that can be
  constructed returns and lets time pass forward, so does the whole stack of quota, nested
  fallbacks and retry, for every request, in every state of its breakers, cooldowns and quotas.
\<close>

theorem chain_contract:
  assumes "sleeping_world W" "\<And>sel m p. mk sel m = Some p \<Longrightarrow> provider_ok W p"
    and "build_provider_chain W K mk config sels = Some (p, names)"
  shows "provider_ok (state_world (state_world W)) p"
proof -
  let ?cands = "runtime_candidates W K mk config sels"
  from assms(3) obtain q where q: "build_runtime_provider_chain (state_world W) config ?cands = Some (q, names)"
      "p = apply_retry_wrapper (state_world (state_world W)) config q"
    by (auto simp: build_provider_chain_def)
  obtain c cs where c: "q = extend_chain (state_world W) 0 (lift_provider (cand_provider c)) cs"
      "set (c # cs) \<subseteq> set ?cands"
    by (rule chain_shape [OF q(1)])
  have ok: "provider_ok (state_world W) (cand_provider d)" if "d \<in> set ?cands" for d
  proof -
    from that obtain sel prov where "mk sel (cc_model config) = Some prov"
        "cand_provider d = apply_quota_wrapper W K prov (sel_name sel)
          (Option.bind (provider_config_by_name (cc_providers config) (sel_name sel)) pc_quota)"
      by (rule runtime_candidates_in)
    then show ?thesis using provider_ok.quota_wrapper_ok [OF assms(2)] by simp
  qed
  have "provider_ok (state_world (state_world W)) q"
    unfolding c(1) using c(2) ok by (intro extend_chain_ok provider_ok.lift_ok) auto
  then show ?thesis
    unfolding q(2) by (rule provider_ok.retry_wrapper_ok) (intro state_world_sleeping assms(1))
qed

definition one_config :: chain_config where
  "one_config = \<lparr>cc_providers = sample_config, cc_model = ''llama'', cc_fallback_enabled = True,
     cc_fallback_provider = None, cc_retry_enabled = True, cc_retry = retry_default\<rparr>"

definition script_mk :: "runtime_selection \<Rightarrow> string \<Rightarrow> (unit, llm_response script) llm_provider option" where
  "script_mk sel m = Some (scripted_provider (sel_name sel) m)"

lemma one_chain:
  obtains p where "build_provider_chain script_world day_keys script_mk one_config
      (resolve_runtime_providers 0 None None sample_config) = Some (p, [''openai'', ''ollama''])"
proof -
  have "map_option snd (build_provider_chain script_world day_keys script_mk one_config
      (resolve_runtime_providers 0 None None sample_config)) = Some [''openai'', ''ollama'']"
    by code_simp
  then show ?thesis using that by auto
qed

theorem chain_contract_witness:
  "\<exists>p. build_provider_chain script_world day_keys script_mk one_config
      (resolve_runtime_providers 0 None None sample_config) = Some (p, [''openai'', ''ollama''])
     \<and> provider_ok (state_world (state_world script_world)) p"
proof -
  obtain p where p: "build_provider_chain script_world day_keys script_mk one_config
      (resolve_runtime_providers 0 None None sample_config) = Some (p, [''openai'', ''ollama''])"
    by (rule one_chain)
  have "provider_ok (state_world (state_world script_world)) p"
    by (rule chain_contract [OF script_sleep.sleeping_world_axioms _ p])
      (auto simp: script_mk_def scripted_provider.provider_ok_axioms)
  with p show ?thesis by blast
qed

text \<open>
  C34. With fallback enabled and no failure recorded yet, the nested fallbacks ask the providers
  one after the other in the order of the reported names, which are all the candidates: the
  first result that is not an error to fall back on is the answer. The first provider is asked
  with the request's own model, every later one with its configured model if it has one.
\<close>

theorem chain_tries_in_order:
  assumes "build_runtime_provider_chain W config cands = Some (p, names)"
    and "cc_fallback_enabled config" "\<forall>n. f n = fallback_state_new"
  shows "\<exists>c cs. names = map cand_name (c # cs) \<and> mset (c # cs) = mset cands
    \<and> forget (chat p req model (f, w)) =
        first_answer (chat (cand_provider c) req model)
          (map (\<lambda>d. chat (cand_provider d) req (effective_model (cand_model d) model)) cs) w"
proof -
  obtain c cs where c: "names = map cand_name (c # cs)" "p = extend_chain W 0 (lift_provider (cand_provider c)) cs"
      "mset (c # cs) = mset cands"
    by (rule chain_shape [OF assms(1)]) (use assms(2) in blast)
  have "forget (chat (lift_provider (cand_provider c)) req model (f, w)) = chat (cand_provider c) req model w" for w
    by (simp add: lift_provider_def)
  from extend_chain_scan [OF assms(3) this] have
    "forget (chat p req model (f, w)) = foldl then_try (chat (cand_provider c) req model)
       (map (\<lambda>d. chat (cand_provider d) req (effective_model (cand_model d) model)) cs) w"
    using c(2) by simp
  then show ?thesis using c(1,3) unfolding foldl_first_answer by blast
qed

definition two_candidates :: "(unit, llm_response script) candidate list" where
  "two_candidates =
     [\<lparr>cand_name = ''anthropic'', cand_provider = scripted_provider ''claude'' ''c'', cand_model = None\<rparr>,
      \<lparr>cand_name = ''openai'', cand_provider = scripted_provider ''openai'' ''g'', cand_model = Some ''gpt''\<rparr>]"

definition gpt_config :: chain_config where
  "gpt_config = one_config\<lparr>cc_model := ''gpt-5.1''\<rparr>"

theorem chain_tries_in_order_witness:
  "\<exists>p (c :: (unit, llm_response script) candidate) cs. build_runtime_provider_chain script_world gpt_config two_candidates = Some (p, [''openai'', ''anthropic''])
     \<and> [''openai'', ''anthropic''] = map cand_name (c # cs)
     \<and> forget (chat p () None (\<lambda>_. fallback_state_new, \<lparr>sc_clock = 0, sc_answers = []\<rparr>)) =
         first_answer (chat (cand_provider c) () None)
           (map (\<lambda>d. chat (cand_provider d) () (effective_model (cand_model d) None)) cs)
           \<lparr>sc_clock = 0, sc_answers = []\<rparr>"
proof -
  have "map_option snd (build_runtime_provider_chain script_world gpt_config two_candidates)
      = Some [''openai'', ''anthropic'']" by code_simp
  then obtain p where p: "build_runtime_provider_chain script_world gpt_config two_candidates
      = Some (p, [''openai'', ''anthropic''])" by auto
  have "cc_fallback_enabled gpt_config" by code_simp
  from chain_tries_in_order [OF p this allI [OF refl], of "()" None "\<lparr>sc_clock = 0, sc_answers = []\<rparr>"]
  obtain c :: "(unit, llm_response script) candidate" and cs where
    "[''openai'', ''anthropic''] = map cand_name (c # cs)"
    "forget (chat p () None (\<lambda>_. fallback_state_new, \<lparr>sc_clock = 0, sc_answers = []\<rparr>)) =
       first_answer (chat (cand_provider c) () None)
         (map (\<lambda>d. chat (cand_provider d) () (effective_model (cand_model d) None)) cs)
         \<lparr>sc_clock = 0, sc_answers = []\<rparr>"
    by (elim exE conjE)
  with p show ?thesis by (intro exI [of _ p] exI [of _ c] exI [of _ cs] conjI)
qed

text \<open>
  C8. A hard quota stops the whole stack: when the first provider of the chain has used up its
  quota with the action to reject, and no breaker is open and no cooldown runs because no failure is recorded
  yet, the stack answers with that rejection. No provider is called, none falls back, nothing is retried
  and no state changes. (A first provider that is skipped for earlier failures is not asked for its quota.)
\<close>

theorem hard_reject_stops_stack:
  assumes "build_provider_chain W K mk config sels = Some (p, name # names)"
    and "\<forall>n. f n = fallback_state_new"
    and "Option.bind (provider_config_by_name (cc_providers config) name) pc_quota = Some q"
    and "q_action q = ActReject" "used_up K (epoch_secs W w) name q store"
  shows "chat p req model (f, (store, w)) =
    Some (Inl (QuotaRejected (name @ '' '' @ period_name (q_period q) @ '' quota exceeded (hard reject)'')), (f, (store, w)))"
proof -
  let ?cands = "runtime_candidates W K mk config sels"
  from assms(1) obtain r where r: "build_runtime_provider_chain (state_world W) config ?cands = Some (r, name # names)"
      "p = apply_retry_wrapper (state_world (state_world W)) config r"
    by (auto simp: build_provider_chain_def)
  obtain c cs where c: "name # names = map cand_name (c # cs)"
      "r = extend_chain (state_world W) 0 (lift_provider (cand_provider c)) cs" "set (c # cs) \<subseteq> set ?cands"
    by (rule chain_shape [OF r(1)])
  have "c \<in> set ?cands" using c(3) by simp
  then obtain sel :: runtime_selection and prov where "cand_name c = sel_name sel" "cand_provider c = apply_quota_wrapper W K prov (sel_name sel)
      (Option.bind (provider_config_by_name (cc_providers config) (sel_name sel)) pc_quota)"
    by (rule runtime_candidates_in)
  then have "cand_provider c = quota_provider W K prov name q"
    using c(1) assms(3) by (simp add: apply_quota_wrapper_def)
  then have "chat (lift_provider (cand_provider c)) req model (f, (store, w)) =
      Some (Inl (QuotaRejected (name @ '' '' @ period_name (q_period q) @ '' quota exceeded (hard reject)'')), (f, (store, w)))"
    using assms(4,5) by (simp add: lift_provider_def quota_provider_def quota_chat_def enforce_cases)
  then show ?thesis unfolding r(2) c(2) by (intro reject_passes_retry reject_passes_chain assms(2))
qed

definition quota_config_chain :: chain_config where
  "quota_config_chain = one_config\<lparr>cc_providers :=
     sample_config(''openai'' \<mapsto> provider_config_default\<lparr>pc_api_key := Some ''sk'', pc_quota := Some hundred\<rparr>)\<rparr>"

definition full_store :: quota_store where
  "full_store = [''openai'' \<mapsto> \<lparr>period_key = [], cost_usd = 0, tokens = 100\<rparr>]"

theorem hard_reject_stops_stack_witness:
  "\<exists>p. build_provider_chain script_world day_keys script_mk quota_config_chain
      (resolve_runtime_providers 0 None None (cc_providers quota_config_chain)) = Some (p, [''openai'', ''ollama''])
     \<and> chat p () None (\<lambda>_. fallback_state_new, (full_store, \<lparr>sc_clock = 0, sc_answers = []\<rparr>)) =
         Some (Inl (QuotaRejected ''openai daily quota exceeded (hard reject)''),
           (\<lambda>_. fallback_state_new, (full_store, \<lparr>sc_clock = 0, sc_answers = []\<rparr>)))"
proof -
  have "map_option snd (build_provider_chain script_world day_keys script_mk quota_config_chain
      (resolve_runtime_providers 0 None None (cc_providers quota_config_chain))) = Some [''openai'', ''ollama'']"
    by code_simp
  then obtain p where p: "build_provider_chain script_world day_keys script_mk quota_config_chain
      (resolve_runtime_providers 0 None None (cc_providers quota_config_chain)) = Some (p, [''openai'', ''ollama''])"
    by auto
  have q: "Option.bind (provider_config_by_name (cc_providers quota_config_chain) ''openai'') pc_quota = Some hundred"
    by code_simp
  have a: "q_action hundred = ActReject" by code_simp
  have u: "used_up day_keys (epoch_secs script_world \<lparr>sc_clock = 0, sc_answers = [] :: llm_response zresult list\<rparr>)
      ''openai'' hundred full_store" by code_simp
  have m: "''openai'' @ '' '' @ period_name (q_period hundred) @ '' quota exceeded (hard reject)''
      = ''openai daily quota exceeded (hard reject)''" by code_simp
  from hard_reject_stops_stack [OF p allI [OF refl] q a u, of "()" None] p show ?thesis
    unfolding m by blast
qed

end
