(* ===== verification/Rotation.thy ===== *)
theory Rotation
  imports Provider_Health Cost Fallback
begin

text \<open>
  Rotation over several providers, \<open>src/src/providers/rotation.rs\<close>: per-provider health, the
  three selection strategies and the request loop of \<open>chat\<close> and \<open>chat_stream\<close>. The health
  record interprets \<open>failure_tracker\<close>; a rotation over providers that keep the call
  contract keeps it too. A model without a price costs \<open>f64::MAX\<close> in the code, which is
  \<open>None\<close> here: no price compares below it.
\<close>

section \<open>Provider health\<close>

record provider_health =
  ph_failure_count :: nat
  ph_last_failure_epoch :: nat
  ph_failure_threshold :: nat
  ph_cooldown_secs :: nat

definition provider_health_new :: "nat \<Rightarrow> nat \<Rightarrow> provider_health" where
  "provider_health_new th cd = \<lparr>ph_failure_count = 0, ph_last_failure_epoch = 0,
     ph_failure_threshold = th, ph_cooldown_secs = cd\<rparr>"

definition is_healthy :: "nat \<Rightarrow> provider_health \<Rightarrow> bool" where
  "is_healthy now h =
     (if ph_failure_count h < ph_failure_threshold h then True
      else ph_cooldown_secs h \<le> now - ph_last_failure_epoch h)"

definition ph_record_success :: "provider_health \<Rightarrow> provider_health" where
  "ph_record_success h = h\<lparr>ph_failure_count := 0\<rparr>"

definition ph_record_failure :: "nat \<Rightarrow> provider_health \<Rightarrow> provider_health" where
  "ph_record_failure now h =
     h\<lparr>ph_failure_count := wrap32 (ph_failure_count h + 1), ph_last_failure_epoch := now\<rparr>"

interpretation ph: failure_tracker ph_failure_count ph_failure_threshold ph_last_failure_epoch
    ph_cooldown_secs ph_record_success ph_record_failure is_healthy
  by unfold_locales (auto simp: ph_record_success_def ph_record_failure_def is_healthy_def)

section \<open>Selection\<close>

datatype rotation_strategy = Priority | RoundRobin | CostAware

text \<open>
  The rotation's own state: the health of each provider, in the configured order, and the
  round-robin counter.
\<close>

record rotation_state =
  rs_health :: "provider_health list"
  rs_round_robin :: nat

definition rotation_new :: "nat \<Rightarrow> nat \<Rightarrow> nat \<Rightarrow> rotation_state option" where
  "rotation_new n_providers th cd =
     (if n_providers = 0 then None
      else Some \<lparr>rs_health = replicate n_providers (provider_health_new th cd), rs_round_robin = 0\<rparr>)"

definition oldest_unhealthy_index :: "provider_health list \<Rightarrow> nat" where
  "oldest_unhealthy_index hs =
     (case min_by_key (\<lambda>(i, h). ph_last_failure_epoch h) (enumerate 0 hs) of
        Some (i, _) \<Rightarrow> i
      | None \<Rightarrow> 0)"

fun weigh :: "nat \<Rightarrow> pricing \<Rightarrow> nat \<times> string \<times> provider_health \<Rightarrow> (nat \<times> rat) option
    \<Rightarrow> (nat \<times> rat) option" where
  "weigh now pricing (i, model, h) best =
     (if \<not> is_healthy now h then best
      else case pricing model of
        None \<Rightarrow> best
      | Some p \<Rightarrow>
          (case best of
             None \<Rightarrow> Some (i, input_cost_per_million p)
           | Some (j, best_cost) \<Rightarrow>
               if input_cost_per_million p < best_cost then Some (i, input_cost_per_million p) else best))"

definition cheapest :: "nat \<Rightarrow> pricing \<Rightarrow> (nat \<times> string \<times> provider_health) list \<Rightarrow> (nat \<times> rat) option" where
  "cheapest now pricing ps = fold (weigh now pricing) ps None"

definition select_provider_index ::
    "rotation_strategy \<Rightarrow> nat \<Rightarrow> string list \<Rightarrow> rotation_state \<Rightarrow> nat \<times> rotation_state" where
  "select_provider_index strategy now models st =
     (let hs = rs_health st; len = length hs in
      case strategy of
        Priority \<Rightarrow>
          (case find (\<lambda>i. is_healthy now (hs ! i)) [0..<len] of
             Some i \<Rightarrow> (i, st)
           | None \<Rightarrow> (oldest_unhealthy_index hs, st))
      | RoundRobin \<Rightarrow>
          (let start = rs_round_robin st; st1 = st\<lparr>rs_round_robin := wrap32 (start + 1)\<rparr> in
           case find (\<lambda>i. is_healthy now (hs ! i)) (map (\<lambda>offset. (start + offset) mod len) [0..<len]) of
             Some i \<Rightarrow> (i, st1)
           | None \<Rightarrow> (oldest_unhealthy_index hs, st1))
      | CostAware \<Rightarrow>
          (case cheapest now default_pricing (enumerate 0 (zip models hs)) of
             Some (i, _) \<Rightarrow> (i, st)
           | None \<Rightarrow> (oldest_unhealthy_index hs, st)))"

section \<open>The request loop\<close>

fun should_rotate :: "zepto_error \<Rightarrow> bool" where
  "should_rotate (ProviderTyped pe) = should_fallback pe"
| "should_rotate _ = True"

fun rotate_loop ::
    "'w world \<Rightarrow> string \<Rightarrow> ('a, 'w) call list \<Rightarrow> nat \<Rightarrow> nat list \<Rightarrow> zepto_error option
       \<Rightarrow> ('a, provider_health list \<times> 'w) call" where
  "rotate_loop W all_failed calls start [] last_err (hs, w) =
     Some (Inl (case last_err of Some e \<Rightarrow> e | None \<Rightarrow> Provider all_failed), (hs, w))"
| "rotate_loop W all_failed calls start (offset # offsets) last_err (hs, w) =
     (let i = (start + offset) mod length calls in
      if 0 < offset \<and> \<not> is_healthy (epoch_secs W w) (hs ! i)
      then rotate_loop W all_failed calls start offsets last_err (hs, w)
      else do {
        (res, w1) \<leftarrow> (calls ! i) w;
        (case res of
           Inr response \<Rightarrow> Some (Inr response, (hs[i := ph_record_success (hs ! i)], w1))
         | Inl err \<Rightarrow>
             if should_rotate err
             then rotate_loop W all_failed calls start offsets (Some err)
                    (hs[i := ph_record_failure (epoch_secs W w1) (hs ! i)], w1)
             else Some (Inl err, (hs, w1)))
      })"

definition rotation_call ::
    "'w world \<Rightarrow> string \<Rightarrow> rotation_strategy \<Rightarrow> string list \<Rightarrow> ('a, 'w) call list
       \<Rightarrow> ('a, rotation_state \<times> 'w) call" where
  "rotation_call W all_failed strategy models calls = (\<lambda>(st, w).
     let (start_index, st1) = select_provider_index strategy (epoch_secs W w) models st
     in map_option (\<lambda>(r, (hs, w')). (r, (st1\<lparr>rs_health := hs\<rparr>, w')))
          (rotate_loop W all_failed calls start_index [0..<length calls] None (rs_health st1, w)))"

definition rotation_chat ::
    "'w world \<Rightarrow> rotation_strategy \<Rightarrow> ('r, 'w) llm_provider list \<Rightarrow> 'r \<Rightarrow> string option
       \<Rightarrow> (llm_response, rotation_state \<times> 'w) call" where
  "rotation_chat W strategy providers req model =
     rotation_call W ''All rotation providers failed'' strategy (map default_model providers)
       (map (\<lambda>p. chat p req model) providers)"

definition rotation_chat_stream ::
    "'w world \<Rightarrow> rotation_strategy \<Rightarrow> ('r, 'w) llm_provider list \<Rightarrow> 'r \<Rightarrow> string option
       \<Rightarrow> (stream_event list, rotation_state \<times> 'w) call" where
  "rotation_chat_stream W strategy providers req model =
     rotation_call W ''All rotation providers failed (streaming)'' strategy (map default_model providers)
       (map (\<lambda>p. chat_stream p req model) providers)"

section \<open>Lemmas on selection\<close>

lemma enumerate_in_range: "(i, x) \<in> set (enumerate 0 xs) \<Longrightarrow> i < length xs \<and> xs ! i = x"
  by (auto simp: in_set_enumerate_eq)

lemma oldest_unhealthy_bound: "hs \<noteq> [] \<Longrightarrow> oldest_unhealthy_index hs < length hs"
  by (auto simp: oldest_unhealthy_index_def split: option.splits
      dest!: min_by_key_in enumerate_in_range)

lemma oldest_unhealthy_least:
  assumes "hs \<noteq> []" "i < length hs"
  shows "ph_last_failure_epoch (hs ! oldest_unhealthy_index hs) \<le> ph_last_failure_epoch (hs ! i)"
proof -
  obtain j h where m: "min_by_key (\<lambda>(i, h). ph_last_failure_epoch h) (enumerate 0 hs) = Some (j, h)"
    using assms(1) min_by_key_None by (metis length_enumerate length_0_conv not_None_eq surj_pair)
  have "(i, hs ! i) \<in> set (enumerate 0 hs)" using assms(2) by (simp add: in_set_enumerate_eq)
  from min_by_key_least [OF m this] min_by_key_in [OF m] m show ?thesis
    by (auto simp: oldest_unhealthy_index_def dest!: enumerate_in_range)
qed

text \<open>What the scan returns: a healthy priced provider, and none of them is cheaper.\<close>

definition best_of :: "nat \<Rightarrow> pricing \<Rightarrow> (nat \<times> string \<times> provider_health) set \<Rightarrow> (nat \<times> rat) option \<Rightarrow> bool" where
  "best_of now pr S b \<longleftrightarrow>
     (case b of
        None \<Rightarrow> \<forall>(i, m, h) \<in> S. is_healthy now h \<longrightarrow> pr m = None
      | Some (i, c) \<Rightarrow>
          (\<exists>m h p. (i, m, h) \<in> S \<and> is_healthy now h \<and> pr m = Some p \<and> c = input_cost_per_million p)
          \<and> (\<forall>(j, m, h) \<in> S. is_healthy now h \<longrightarrow> (\<forall>p. pr m = Some p \<longrightarrow> c \<le> input_cost_per_million p)))"

lemma weigh_best:
  "best_of now pr S b \<Longrightarrow> best_of now pr (insert x S) (weigh now pr x b)"
  by (cases x) (fastforce simp: best_of_def split: option.splits)

lemma cheapest_best: "best_of now pr (set ps) (cheapest now pr ps)"
proof -
  have "best_of now pr S b \<Longrightarrow> best_of now pr (set ps \<union> S) (fold (weigh now pr) ps b)" for S b
  proof (induction ps arbitrary: S b)
    case (Cons x ps)
    from Cons.IH [OF weigh_best [OF Cons.prems, of x]] show ?case by simp
  qed simp
  from this [of "{}" None] show ?thesis by (simp add: cheapest_def best_of_def)
qed

lemma cheapest_Some:
  "cheapest now pr ps = Some (i, c) \<Longrightarrow>
     (\<exists>m h p. (i, m, h) \<in> set ps \<and> is_healthy now h \<and> pr m = Some p \<and> c = input_cost_per_million p)
     \<and> (\<forall>(j, m, h) \<in> set ps. is_healthy now h \<longrightarrow> (\<forall>p. pr m = Some p \<longrightarrow> c \<le> input_cost_per_million p))"
  using cheapest_best [of now pr ps] by (simp add: best_of_def)

lemma cheapest_None:
  "cheapest now pr ps = None \<Longrightarrow> \<forall>(i, m, h) \<in> set ps. is_healthy now h \<longrightarrow> pr m = None"
  using cheapest_best [of now pr ps] by (simp add: best_of_def)

lemma rr_covers:
  assumes "i < (len::nat)" shows "i \<in> set (map (\<lambda>offset. (start + offset) mod len) [0..<len])"
proof -
  let ?o = "(i + len - start mod len) mod len"
  have "(start + ?o) mod len = (start mod len + (i + len - start mod len)) mod len"
    by (simp add: mod_simps)
  also have "start mod len + (i + len - start mod len) = i + len"
    using assms mod_less_divisor [of len start] by (intro le_add_diff_inverse) linarith
  finally have "(start + ?o) mod len = i" using assms by simp
  moreover have "?o < len" using assms by simp
  ultimately show ?thesis by (auto intro!: image_eqI [of _ _ ?o])
qed

lemma select_round_robin:
  "fst (select_provider_index RoundRobin now models st) =
     (case find (\<lambda>i. is_healthy now (rs_health st ! i))
        (map (\<lambda>offset. (rs_round_robin st + offset) mod length (rs_health st)) [0..<length (rs_health st)]) of
        Some i \<Rightarrow> i | None \<Rightarrow> oldest_unhealthy_index (rs_health st))"
  by (simp add: select_provider_index_def Let_def split: option.splits)

lemma select_health [simp]: "rs_health (snd (select_provider_index s now models st)) = rs_health st"
  by (simp add: select_provider_index_def Let_def split: rotation_strategy.splits option.splits prod.splits)

lemma select_bound:
  assumes "rs_health st \<noteq> []"
  shows "fst (select_provider_index s now models st) < length (rs_health st)"
proof (cases s)
  case Priority
  then show ?thesis using oldest_unhealthy_bound [OF assms]
    by (auto simp: select_provider_index_def Let_def split: option.splits dest!: find_Some_in)
next
  case RoundRobin
  then show ?thesis using oldest_unhealthy_bound [OF assms] assms
    by (auto simp: select_round_robin split: option.splits dest!: find_Some_in)
next
  case CostAware
  then show ?thesis using oldest_unhealthy_bound [OF assms]
    by (auto simp: select_provider_index_def Let_def split: option.splits
        dest!: cheapest_Some enumerate_in_range)
qed

section \<open>Lemmas on the loop\<close>

locale rotation_layer =
  fixes W :: "'w world" and calls :: "('a, 'w) call list"
  assumes some_provider: "calls \<noteq> []"
    and each_call: "c \<in> set calls \<Longrightarrow> provider_call W c"
begin

lemma call_returns:
  obtains r w' where "(calls ! (n mod length calls)) w = Some (r, w')" "instant_ms W w \<le> instant_ms W w'"
proof -
  have "n mod length calls < length calls" using some_provider by simp
  then have "provider_call W (calls ! (n mod length calls))" by (intro each_call) simp
  then show ?thesis using that by (rule provider_call.returnsE)
qed

lemma rotate_loop_returns:
  "\<exists>r hs' w'. rotate_loop W af calls start offsets last_err (hs, w) = Some (r, (hs', w'))
     \<and> length hs' = length hs \<and> instant_ms W w \<le> instant_ms W w'"
proof (induction offsets arbitrary: last_err hs w)
  case (Cons offset offsets)
  let ?i = "(start + offset) mod length calls"
  show ?case
  proof (cases "0 < offset \<and> \<not> is_healthy (epoch_secs W w) (hs ! ?i)")
    case True
    then show ?thesis using Cons.IH by (simp add: Let_def)
  next
    case False
    obtain res w1 where res: "(calls ! ?i) w = Some (res, w1)" "instant_ms W w \<le> instant_ms W w1"
      by (rule call_returns)
    show ?thesis
    proof (cases res)
      case (Inl e)
      from Cons.IH [of "Some e" "hs[?i := ph_record_failure (epoch_secs W w1) (hs ! ?i)]" w1]
      show ?thesis using False res Inl
        by (auto simp: Let_def simp del: should_rotate.simps intro: le_trans)
    next
      case (Inr a)
      then show ?thesis using False res by (auto simp: Let_def)
    qed
  qed
qed simp

lemma rotation_returns:
  "\<exists>r sw'. rotation_call W af strategy models calls sw = Some (r, sw')
     \<and> instant_ms (state_world W) sw \<le> instant_ms (state_world W) sw'"
proof (cases sw)
  case (Pair st w)
  obtain i st1 where sel: "select_provider_index strategy (epoch_secs W w) models st = (i, st1)" by fastforce
  obtain r hs' w' where "rotate_loop W af calls i [0..<length calls] None (rs_health st1, w) = Some (r, (hs', w'))"
      "instant_ms W w \<le> instant_ms W w'"
    using rotate_loop_returns by blast
  then show ?thesis using Pair sel by (simp add: rotation_call_def)
qed

end

sublocale rotation_layer \<subseteq> decorated: provider_call "state_world W" "rotation_call W af strategy models calls"
  for af strategy models
  by unfold_locales (rule rotation_returns)

interpretation scripted_rotation: rotation_layer script_world
    "[scripted, scripted] :: (('a, 'a script) call) list"
  by (rule rotation_layer.intro) (auto intro: scripted.provider_call_axioms)

text \<open>The order in which providers are asked, observed by tagging each call with its index.\<close>

definition tagged :: "nat \<Rightarrow> ('a, 'w) call \<Rightarrow> ('a, 'w \<times> nat list) call" where
  "tagged i call = (\<lambda>(w, l). map_option (\<lambda>(r, w'). (r, (w', l @ [i]))) (call w))"

definition tag_all :: "('a, 'w) call list \<Rightarrow> ('a, 'w \<times> nat list) call list" where
  "tag_all calls = map (\<lambda>(i, c). tagged i c) (enumerate 0 calls)"

lemma tag_all_length [simp]: "length (tag_all calls) = length calls"
  by (simp add: tag_all_def)

lemma tag_all_nth: "i < length calls \<Longrightarrow> tag_all calls ! i = tagged i (calls ! i)"
  by (simp add: tag_all_def nth_enumerate_eq)

lemma rotate_loop_visits:
  assumes "calls \<noteq> []"
    and "rotate_loop (log_world W) af (tag_all calls) start offsets last_err (hs, (w, l)) = Some (r, (hs', (w', l')))"
  shows "\<exists>ks. subseq ks offsets \<and> l' = l @ map (\<lambda>k. (start + k) mod length calls) ks"
  using assms(2)
proof (induction offsets arbitrary: last_err hs w l)
  case Nil
  then show ?case by auto
next
  case (Cons offset offsets)
  let ?i = "(start + offset) mod length calls"
  have i: "tag_all calls ! ?i = tagged ?i (calls ! ?i)"
    using assms(1) by (intro tag_all_nth) simp
  show ?case
  proof (cases "0 < offset \<and> \<not> is_healthy (epoch_secs W w) (hs ! ?i)")
    case True
    with Cons.prems have "rotate_loop (log_world W) af (tag_all calls) start offsets last_err (hs, (w, l))
        = Some (r, (hs', (w', l')))" by (simp add: Let_def)
    from Cons.IH [OF this] show ?thesis by (auto intro: subseq_Cons')
  next
    case False
    then obtain res w1 where res: "(calls ! ?i) w = Some (res, w1)"
      using Cons.prems i by (cases "(calls ! ?i) w") (auto simp: Let_def tagged_def)
    have one: "subseq [offset] (offset # offsets)" by simp
    show ?thesis
    proof (cases "\<exists>e. res = Inl e \<and> should_rotate e")
      case True
      then obtain e where e: "res = Inl e" "should_rotate e" by blast
      have "rotate_loop (log_world W) af (tag_all calls) start offsets (Some e)
          (hs[?i := ph_record_failure (epoch_secs W w1) (hs ! ?i)], (w1, l @ [?i])) = Some (r, (hs', (w', l')))"
        using Cons.prems False res e i by (simp add: Let_def tagged_def del: should_rotate.simps)
      from Cons.IH [OF this] obtain ks where "subseq ks offsets"
          "l' = (l @ [?i]) @ map (\<lambda>k. (start + k) mod length calls) ks" by blast
      then show ?thesis by (intro exI [of _ "offset # ks"]) simp
    next
      case stop: False
      then have "l' = l @ [?i]"
        using Cons.prems False res i
        by (cases res) (auto simp: Let_def tagged_def simp del: should_rotate.simps)
      then show ?thesis using one by (intro exI [of _ "[offset]"]) simp
    qed
  qed
qed

lemma subseq_distinct_set: "subseq xs ys \<Longrightarrow> distinct ys \<Longrightarrow> distinct xs \<and> set xs \<subseteq> set ys"
  by (induction rule: list_emb.induct) auto

lemma shifted_distinct:
  assumes "subseq ks [0..<n]" shows "distinct (map (\<lambda>k. (start + k) mod n) ks)"
proof -
  have ks: "distinct ks" "set ks \<subseteq> {..<n}"
    using subseq_distinct_set [OF assms] by auto
  have "inj_on (\<lambda>k. (start + k) mod n) {..<n}"
  proof (rule inj_onI)
    fix x y assume xy: "x \<in> {..<n}" "y \<in> {..<n}" "(start + x) mod n = (start + y) mod n"
    then have "int n dvd int x - int y"
      by (simp add: mod_eq_dvd_iff flip: of_nat_eq_iff [where 'a = int] add: zmod_int)
    then have "int x mod int n = int y mod int n" by (simp add: mod_eq_dvd_iff)
    then show "x = y" using xy by simp
  qed
  then show ?thesis using ks by (simp add: distinct_map inj_on_subset)
qed

section \<open>Properties\<close>

text \<open>
  Selection is in range and prefers health: whatever the strategy, the selected index is
  that of a configured provider; with the priority and the round-robin strategy it is healthy
  whenever any provider is, and priority picks the first healthy one.
\<close>

theorem select_prefers_healthy:
  assumes "rs_health st \<noteq> []"
  shows "fst (select_provider_index s now models st) < length (rs_health st)
    \<and> (s \<noteq> CostAware \<and> (\<exists>h \<in> set (rs_health st). is_healthy now h) \<longrightarrow>
        is_healthy now (rs_health st ! fst (select_provider_index s now models st)))
    \<and> (s = Priority \<longrightarrow> (\<forall>j < fst (select_provider_index s now models st).
        (\<exists>h \<in> set (rs_health st). is_healthy now h) \<longrightarrow> \<not> is_healthy now (rs_health st ! j)))"
proof (intro conjI impI allI)
  show "fst (select_provider_index s now models st) < length (rs_health st)"
    using assms by (rule select_bound)
  let ?hs = "rs_health st"
  assume h: "s \<noteq> CostAware \<and> (\<exists>h \<in> set ?hs. is_healthy now h)"
  then obtain j where j: "j < length ?hs" "is_healthy now (?hs ! j)" by (auto simp: in_set_conv_nth)
  show "is_healthy now (?hs ! fst (select_provider_index s now models st))"
  proof (cases s)
    case Priority
    then show ?thesis using j
      by (auto simp: select_provider_index_def Let_def find_None_iff split: option.splits dest!: find_Some_in)
  next
    case RoundRobin
    have "j \<in> set (map (\<lambda>offset. (rs_round_robin st + offset) mod length ?hs) [0..<length ?hs])"
      using j(1) by (rule rr_covers)
    with j(2) obtain i where "find (\<lambda>i. is_healthy now (?hs ! i))
        (map (\<lambda>offset. (rs_round_robin st + offset) mod length ?hs) [0..<length ?hs]) = Some i"
      by (metis (mono_tags, lifting) find_None_iff not_None_eq)
    then show ?thesis using RoundRobin by (auto simp: select_round_robin dest: find_Some_in)
  qed (use h in simp)
next
  fix j
  assume s: "s = Priority" and j: "j < fst (select_provider_index s now models st)"
    and "\<exists>h \<in> set (rs_health st). is_healthy now h"
  then obtain k where k: "k < length (rs_health st)" "is_healthy now (rs_health st ! k)"
    by (auto simp: in_set_conv_nth)
  then obtain i where i: "find (\<lambda>i. is_healthy now (rs_health st ! i)) [0..<length (rs_health st)] = Some i"
    by (metis (mono_tags, lifting) add.left_neutral find_None_iff in_set_conv_nth length_upt minus_nat.diff_0
        not_None_eq nth_upt)
  then have "fst (select_provider_index s now models st) = i"
    using s by (simp add: select_provider_index_def Let_def)
  with i j show "\<not> is_healthy now (rs_health st ! j)"
    by (auto simp: find_Some_iff)
qed

definition two_providers :: rotation_state where
  "two_providers = \<lparr>rs_health =
     [\<lparr>ph_failure_count = 3, ph_last_failure_epoch = 100, ph_failure_threshold = 3, ph_cooldown_secs = 30\<rparr>,
      \<lparr>ph_failure_count = 1, ph_last_failure_epoch = 110, ph_failure_threshold = 3, ph_cooldown_secs = 30\<rparr>],
     rs_round_robin = 0\<rparr>"

theorem select_prefers_healthy_witness:
  "is_healthy 120 (rs_health two_providers ! fst (select_provider_index Priority 120 [''a'', ''b''] two_providers))"
proof -
  have "rs_health two_providers \<noteq> []" by (simp add: two_providers_def)
  moreover have "\<exists>h \<in> set (rs_health two_providers). is_healthy 120 h"
    by (simp add: two_providers_def is_healthy_def)
  ultimately show ?thesis using select_prefers_healthy by blast
qed

text \<open>
  Cost-aware selection picks, among the healthy providers whose model has a price, one with
  the least input price.
\<close>

theorem select_cheapest:
  assumes "i < length (rs_health st)" "length models = length (rs_health st)"
    and "is_healthy now (rs_health st ! i)" "default_pricing (models ! i) = Some p"
  shows "\<exists>q. default_pricing (models ! fst (select_provider_index CostAware now models st)) = Some q
    \<and> is_healthy now (rs_health st ! fst (select_provider_index CostAware now models st))
    \<and> input_cost_per_million q \<le> input_cost_per_million p"
proof -
  let ?ps = "enumerate 0 (zip models (rs_health st))"
  have mem: "(i, models ! i, rs_health st ! i) \<in> set ?ps"
    using assms(1,2) by (simp add: in_set_enumerate_eq)
  then have "cheapest now default_pricing ?ps \<noteq> None"
    using cheapest_None assms(3,4) by fastforce
  then obtain k c where k: "cheapest now default_pricing ?ps = Some (k, c)" by auto
  from cheapest_Some [OF k] obtain m h q where kin: "(k, m, h) \<in> set ?ps"
      and hh: "is_healthy now h" "default_pricing m = Some q" "c = input_cost_per_million q"
      and least: "\<forall>(j, m, h) \<in> set ?ps. is_healthy now h \<longrightarrow>
        (\<forall>p. default_pricing m = Some p \<longrightarrow> c \<le> input_cost_per_million p)"
    by blast
  have "fst (select_provider_index CostAware now models st) = k"
    using k by (simp add: select_provider_index_def Let_def)
  moreover have "m = models ! k" "h = rs_health st ! k"
    using enumerate_in_range [OF kin] assms(2) by auto
  moreover have "c \<le> input_cost_per_million p" using least mem assms(3,4) by fastforce
  ultimately show ?thesis using hh by auto
qed

theorem select_cheapest_witness:
  "fst (select_provider_index CostAware 120 [''claude-opus-4-6'', ''gpt-4o-mini''] two_providers) = 1"
proof -
  have "\<exists>q. default_pricing ([''claude-opus-4-6'', ''gpt-4o-mini''] !
        fst (select_provider_index CostAware 120 [''claude-opus-4-6'', ''gpt-4o-mini''] two_providers)) = Some q
      \<and> is_healthy 120 (rs_health two_providers !
          fst (select_provider_index CostAware 120 [''claude-opus-4-6'', ''gpt-4o-mini''] two_providers))
      \<and> input_cost_per_million q \<le> input_cost_per_million (price (3/20) (3/5))"
    by (rule select_cheapest [of 1])
      (simp_all add: two_providers_def is_healthy_def default_pricing_def)
  then have "is_healthy 120 (rs_health two_providers !
        fst (select_provider_index CostAware 120 [''claude-opus-4-6'', ''gpt-4o-mini''] two_providers))" by blast
  moreover have "fst (select_provider_index CostAware 120 [''claude-opus-4-6'', ''gpt-4o-mini''] two_providers)
      < length (rs_health two_providers)"
    by (rule select_bound) (simp add: two_providers_def)
  ultimately show ?thesis
    by (auto simp: two_providers_def is_healthy_def less_Suc_eq numeral_2_eq_2 nth_Cons')
qed

text \<open>
  A healthy provider whose model has no price is never chosen by the cost-aware scan: with
  an unhealthy priced provider beside it, the selection falls through to the oldest failure
  and takes the unhealthy one, although the strategy promises the unpriced provider then.
\<close>

theorem cost_aware_takes_unhealthy:
  "is_healthy 120 (rs_health two_providers ! 1)
   \<and> fst (select_provider_index CostAware 120 [''gpt-5.1'', ''local-model''] two_providers) = 0
   \<and> \<not> is_healthy 120 (rs_health two_providers ! 0)"
  by code_simp

text \<open>
  One request asks each provider at most once: the providers are asked in rotation order
  from the selected one, and the sequence of indices asked has no repetition, so a request
  never costs more calls than there are providers.
\<close>

theorem rotation_asks_once:
  assumes "calls \<noteq> []"
    and "rotate_loop (log_world W) af (tag_all calls) start [0..<length calls] None (hs, (w, [])) = Some (r, (hs', (w', asked)))"
  shows "distinct asked \<and> set asked \<subseteq> {..<length calls} \<and> length asked \<le> length calls
    \<and> (\<exists>ks. subseq ks [0..<length calls] \<and> asked = map (\<lambda>k. (start + k) mod length calls) ks)"
proof -
  from rotate_loop_visits [OF assms] obtain ks where ks: "subseq ks [0..<length calls]"
      "asked = map (\<lambda>k. (start + k) mod length calls) ks" by auto
  moreover have "distinct asked" using shifted_distinct [OF ks(1)] ks(2) by simp
  moreover have "set asked \<subseteq> {..<length calls}" using ks(2) assms(1) by auto
  moreover have "length asked \<le> length calls"
    using list_emb_length [OF ks(1)] ks(2) by simp
  ultimately show ?thesis by blast
qed

theorem rotation_asks_once_witness:
  "\<exists>r hs' w' asked.
     rotate_loop (log_world script_world) ''none'' (tag_all [scripted, scripted]) 1 [0..<2] None
       (rs_health two_providers, (down, [])) = Some (r, (hs', (w', asked)))
     \<and> distinct asked \<and> asked = [1]"
proof -
  have ne: "[scripted, scripted] \<noteq> ([] :: (nat, nat script) call list)" by simp
  have run: "rotate_loop (log_world script_world) ''none'' (tag_all [scripted, scripted]) 1
      [0..<length [scripted, scripted :: (nat, nat script) call]] None (rs_health two_providers, (down, []))
      = Some (Inl (ProviderTyped (PE_Timeout ''slow'')),
         ((rs_health two_providers)[1 := ph_record_failure 0 (rs_health two_providers ! 1)],
          (\<lparr>sc_clock = 6, sc_answers = [Inr 1]\<rparr>, [1])))"
    by code_simp
  have "distinct [1::nat]" using rotation_asks_once [OF ne run] by (elim conjE)
  moreover have "length [scripted, scripted :: (nat, nat script) call] = 2" by simp
  ultimately show ?thesis using run by metis
qed

end
