(* ===== verification/Loop_Guard.thy ===== *)
theory Loop_Guard
  imports Zepto_Prelude
begin

text \<open>
  The tool loop guard of \<open>src/src/agent/loop_guard.rs\<close> with its configuration from
  \<open>src/src/config/types.rs\<close>. SHA-256 with its hex encoding and the JSON re-serialisation of
  the serde crate are parameters (\<open>sha\<close>, and \<open>canon\<close>, which is \<open>None\<close> for text that
  is not JSON). The 32-bit counters and threshold products wrap as in the release build; the
  64-bit statistics are unbounded naturals.
\<close>

section \<open>Types\<close>

record loop_guard_config =
  enabled :: bool
  warn_threshold :: nat
  block_threshold :: nat
  global_circuit_breaker :: nat
  ping_pong_min_repeats :: nat
  poll_multiplier :: nat
  outcome_warn_threshold :: nat
  outcome_block_threshold :: nat
  window_size :: nat

definition loop_guard_config_default :: loop_guard_config where
  "loop_guard_config_default =
     \<lparr>enabled = True, warn_threshold = 3, block_threshold = 5, global_circuit_breaker = 30,
      ping_pong_min_repeats = 3, poll_multiplier = 3, outcome_warn_threshold = 2,
      outcome_block_threshold = 3, window_size = 200\<rparr>"

datatype loop_guard_action =
    Allow
  | Warn string "nat option"
  | Block string
  | CircuitBreak nat

record loop_guard_stats =
  total_checks :: nat
  warnings :: nat
  blocks :: nat
  circuit_breaks :: nat
  ping_pong_detections :: nat
  outcome_blocks :: nat

record tool_call_sig =
  sig_name :: string
  sig_arguments :: string

record loop_guard =
  config :: loop_guard_config
  call_counts :: "string \<rightharpoonup> nat"
  outcome_counts :: "string \<rightharpoonup> nat"
  call_sequence :: "string list"
  outcome_sequence :: "string list"
  total_repetitions :: nat
  stats :: loop_guard_stats

definition loop_guard_new :: "loop_guard_config \<Rightarrow> loop_guard" where
  "loop_guard_new c =
     \<lparr>config = c, call_counts = Map.empty, outcome_counts = Map.empty, call_sequence = [],
      outcome_sequence = [], total_repetitions = 0,
      stats = \<lparr>total_checks = 0, warnings = 0, blocks = 0, circuit_breaks = 0,
               ping_pong_detections = 0, outcome_blocks = 0\<rparr>\<rparr>"

section \<open>Hashing and poll detection\<close>

definition normalize_args :: "(string \<Rightarrow> string option) \<Rightarrow> string \<Rightarrow> string" where
  "normalize_args canon raw = (case canon raw of Some v \<Rightarrow> v | None \<Rightarrow> trim raw)"

definition hash_call_batch ::
    "(string \<Rightarrow> string) \<Rightarrow> (string \<Rightarrow> string option) \<Rightarrow> tool_call_sig list \<Rightarrow> string" where
  "hash_call_batch sha canon batch =
     sha (concat (map (\<lambda>c. sig_name c @ [CHR 0x0A] @ normalize_args canon (sig_arguments c)
                          @ [CHR 0x0A] @ ''--'' @ [CHR 0x0A]) batch))"

definition hash_outcome ::
    "(string \<Rightarrow> string) \<Rightarrow> (string \<Rightarrow> string option) \<Rightarrow> string \<Rightarrow> string \<Rightarrow> string \<Rightarrow> string" where
  "hash_outcome sha canon name params result_prefix =
     sha (name @ [CHR 0x0A] @ normalize_args canon (truncate_utf8 params 2048)
          @ [CHR 0x0A] @ ''--'' @ [CHR 0x0A] @ truncate_utf8 result_prefix 1000)"

definition poll_patterns :: "string list" where
  "poll_patterns = [''status'', ''poll'', ''wait'', ''docker ps'', ''kubectl get'', ''git status'']"

definition is_poll_command :: "tool_call_sig list \<Rightarrow> bool" where
  "is_poll_command calls =
     list_ex (\<lambda>c. list_ex (\<lambda>p. str_contains (to_lowercase (sig_name c)) p
                            \<or> str_contains (to_lowercase (sig_arguments c)) p) poll_patterns) calls"

text \<open>\<open>1u64.wrapping_shl(e)\<close> shifts by \<open>e mod 64\<close>.\<close>

definition backoff_delay :: "nat \<Rightarrow> nat \<Rightarrow> nat" where
  "backoff_delay count warn_at =
     (let exponent = count - warn_at; delay_secs = min (2 ^ (exponent mod 64)) 30
      in delay_secs * 1000)"

section \<open>Pattern detection and the window\<close>

definition has_periodic_pattern :: "'h list \<Rightarrow> nat \<Rightarrow> nat \<Rightarrow> bool" where
  "has_periodic_pattern seq period min_repeats =
     (if period = 0 \<or> min_repeats = 0 then False
      else let needed = period * min_repeats in
        if length seq < needed then False
        else let tail = drop (length seq - needed) seq; pattern = take period tail in
          if list_all (\<lambda>h. h = pattern ! 0) pattern then False
          else list_all (\<lambda>cycle. list_all (\<lambda>i. tail ! (cycle * period + i) = pattern ! i) [0..<period])
                 [1..<min_repeats])"

definition prune_call_window :: "nat \<Rightarrow> loop_guard \<Rightarrow> loop_guard" where
  "prune_call_window keep g =
     (let half = keep div 2;
          seq = drop (length (call_sequence g) - half) (call_sequence g)
      in g\<lparr>call_sequence := seq, call_counts := fold bump seq Map.empty\<rparr>)"

definition prune_outcome_window :: "nat \<Rightarrow> loop_guard \<Rightarrow> loop_guard" where
  "prune_outcome_window keep g =
     (let half = keep div 2;
          seq = drop (length (outcome_sequence g) - half) (outcome_sequence g)
      in g\<lparr>outcome_sequence := seq, outcome_counts := fold bump seq Map.empty\<rparr>)"

definition ping_pong_hit :: "nat \<Rightarrow> nat \<Rightarrow> loop_guard \<Rightarrow> loop_guard_action \<times> loop_guard" where
  "ping_pong_hit period min_repeats g =
     (let reps = wrap32 (total_repetitions g + 1);
          st = (stats g)\<lparr>ping_pong_detections := ping_pong_detections (stats g) + 1,
                         warnings := warnings (stats g) + 1\<rparr>;
          g1 = g\<lparr>total_repetitions := reps, stats := st\<rparr>
      in if global_circuit_breaker (config g) \<le> reps
         then (CircuitBreak reps, g1\<lparr>stats := st\<lparr>circuit_breaks := circuit_breaks st + 1\<rparr>\<rparr>)
         else (Warn (''ping-pong pattern (period '' @ show_nat period @ '') detected over ''
                     @ show_nat min_repeats @ '' cycles'') None, g1))"

definition check_ping_pong :: "loop_guard \<Rightarrow> loop_guard_action option \<times> loop_guard" where
  "check_ping_pong g =
     (if ping_pong_min_repeats (config g) = 0 then (None, g)
      else let seq = call_sequence g; min_repeats = ping_pong_min_repeats (config g) in
        if 2 * min_repeats \<le> length seq \<and> has_periodic_pattern seq 2 min_repeats
        then apfst Some (ping_pong_hit 2 min_repeats g)
        else if 3 * min_repeats \<le> length seq \<and> has_periodic_pattern seq 3 min_repeats
        then apfst Some (ping_pong_hit 3 min_repeats g)
        else (None, g))"

section \<open>The two entry points\<close>

text \<open>The bookkeeping of \<open>check\<close> up to the decision: record, prune, count.\<close>

definition record_call :: "string \<Rightarrow> loop_guard \<Rightarrow> loop_guard" where
  "record_call h g =
     (let g1 = g\<lparr>stats := (stats g)\<lparr>total_checks := total_checks (stats g) + 1\<rparr>,
                 call_sequence := call_sequence g @ [h]\<rparr>;
          window = window_size (config g);
          g2 = (if 0 < window \<and> window < length (call_sequence g1) then prune_call_window window g1 else g1)
      in g2\<lparr>call_counts := bump h (call_counts g2)\<rparr>)"

definition graduated :: "nat \<Rightarrow> bool \<Rightarrow> nat \<Rightarrow> nat \<Rightarrow> loop_guard \<Rightarrow> loop_guard_action \<times> loop_guard" where
  "graduated count is_poll warn_at block_at g =
     (if warn_at \<le> count then
        let reps = wrap32 (total_repetitions g + 1); g1 = g\<lparr>total_repetitions := reps\<rparr>; st = stats g in
        if global_circuit_breaker (config g) \<le> reps
        then (CircuitBreak reps, g1\<lparr>stats := st\<lparr>circuit_breaks := circuit_breaks st + 1\<rparr>\<rparr>)
        else if block_at \<le> count
        then (Block (''tool call repeated '' @ show_nat count @ '' times (threshold ''
                     @ show_nat block_at @ '')''),
              g1\<lparr>stats := st\<lparr>blocks := blocks st + 1\<rparr>\<rparr>)
        else (Warn (''tool call repeated '' @ show_nat count @ '' times (warn threshold ''
                    @ show_nat warn_at @ '')'')
                (if is_poll then Some (backoff_delay count warn_at) else None),
              g1\<lparr>stats := st\<lparr>warnings := warnings st + 1\<rparr>\<rparr>)
      else (Allow, g))"

definition check_hash :: "string \<Rightarrow> bool \<Rightarrow> loop_guard \<Rightarrow> loop_guard_action \<times> loop_guard" where
  "check_hash h is_poll g =
     (let g1 = record_call h g;
          count = count_of (call_counts g1) h;
          multiplier = (if is_poll then poll_multiplier (config g) else 1);
          warn_at = wrap32 (warn_threshold (config g) * multiplier);
          block_at = wrap32 (block_threshold (config g) * multiplier)
      in case check_ping_pong g1 of
           (Some action, g2) \<Rightarrow> (action, g2)
         | (None, g2) \<Rightarrow> graduated count is_poll warn_at block_at g2)"

definition loop_check ::
    "(string \<Rightarrow> string) \<Rightarrow> (string \<Rightarrow> string option) \<Rightarrow> tool_call_sig list \<Rightarrow> loop_guard
       \<Rightarrow> loop_guard_action \<times> loop_guard" where
  "loop_check sha canon calls g =
     (if \<not> enabled (config g) \<or> calls = [] then (Allow, g)
      else check_hash (hash_call_batch sha canon calls) (is_poll_command calls) g)"

definition push_outcome :: "string \<Rightarrow> loop_guard \<Rightarrow> loop_guard" where
  "push_outcome h g =
     (let g1 = g\<lparr>outcome_sequence := outcome_sequence g @ [h]\<rparr>;
          window = window_size (config g);
          g2 = (if 0 < window \<and> window < length (outcome_sequence g1)
                then prune_outcome_window window g1 else g1)
      in g2\<lparr>outcome_counts := bump h (outcome_counts g2)\<rparr>)"

definition outcome_response :: "nat \<Rightarrow> loop_guard \<Rightarrow> loop_guard_action option \<times> loop_guard" where
  "outcome_response count g =
     (let st = stats g in
      if outcome_block_threshold (config g) \<le> count then
        let reps = wrap32 (total_repetitions g + 1);
            st1 = st\<lparr>outcome_blocks := outcome_blocks st + 1\<rparr>;
            g1 = g\<lparr>total_repetitions := reps, stats := st1\<rparr>
        in if global_circuit_breaker (config g) \<le> reps
           then (Some (CircuitBreak reps), g1\<lparr>stats := st1\<lparr>circuit_breaks := circuit_breaks st1 + 1\<rparr>\<rparr>)
           else (Some (Block (''identical outcome repeated '' @ show_nat count @ '' times (threshold ''
                   @ show_nat (outcome_block_threshold (config g)) @ '')'')), g1)
      else if outcome_warn_threshold (config g) \<le> count then
        (Some (Warn (''identical outcome repeated '' @ show_nat count @ '' times (warn threshold ''
            @ show_nat (outcome_warn_threshold (config g)) @ '')'') None),
         g\<lparr>stats := st\<lparr>warnings := warnings st + 1\<rparr>\<rparr>)
      else (None, g))"

definition record_outcome ::
    "(string \<Rightarrow> string) \<Rightarrow> (string \<Rightarrow> string option) \<Rightarrow> string \<Rightarrow> string \<Rightarrow> string \<Rightarrow> loop_guard
       \<Rightarrow> loop_guard_action option \<times> loop_guard" where
  "record_outcome sha canon name params result_prefix g =
     (if \<not> enabled (config g) then (None, g)
      else
        let outcome_hash = hash_outcome sha canon name params result_prefix;
            g1 = push_outcome outcome_hash g
        in outcome_response (count_of (outcome_counts g1) outcome_hash) g1)"

section \<open>Periodic tails\<close>

lemma length_concat_replicate [simp]: "length (concat (replicate n p)) = n * length p"
  by (induction n) simp_all

lemma nth_concat_replicate:
  "c < n \<Longrightarrow> i < length p \<Longrightarrow> concat (replicate n p) ! (c * length p + i) = p ! i"
proof (induction n arbitrary: c)
  case (Suc n)
  show ?case
  proof (cases c)
    case 0
    with Suc.prems show ?thesis by (simp add: nth_append)
  next
    case (Suc c')
    with Suc.IH [of c'] Suc.prems show ?thesis by (simp add: nth_append add.assoc)
  qed
qed simp

lemma periodic_concat:
  assumes len: "length xs = k * n" and k: "0 < k"
    and rep: "\<And>c i. 1 \<le> c \<Longrightarrow> c < n \<Longrightarrow> i < k \<Longrightarrow> xs ! (c * k + i) = take k xs ! i"
  shows "xs = concat (replicate n (take k xs))"
proof (cases "n = 0")
  case True
  with len show ?thesis by simp
next
  case False
  with len have kle: "k \<le> length xs" by (cases n) auto
  show ?thesis
  proof (rule nth_equalityI)
    have "length (take k xs) = k" using kle by simp
    then show "length xs = length (concat (replicate n (take k xs)))"
      using len by (simp only: length_concat_replicate mult.commute)
  next
    fix j assume j: "j < length xs"
    let ?c = "j div k" and ?i = "j mod k"
    have c: "?c < n" using j len k by (simp add: div_less_iff_less_mult mult.commute)
    have i: "?i < k" using k by simp
    have split: "j = ?c * k + ?i" by simp
    have "xs ! (?c * k + ?i) = take k xs ! ?i"
    proof (cases "?c = 0")
      case True
      then show ?thesis using i by simp
    next
      case False
      then show ?thesis by (intro rep) (use c i in simp_all)
    qed
    also have "\<dots> = concat (replicate n (take k xs)) ! (?c * k + ?i)"
    proof -
      have tk: "length (take k xs) = k" using kle by simp
      have "concat (replicate n (take k xs)) ! (?c * length (take k xs) + ?i) = take k xs ! ?i"
        by (rule nth_concat_replicate) (use c i tk in simp_all)
      then show ?thesis using tk by simp
    qed
    finally show "xs ! j = concat (replicate n (take k xs)) ! j" by (simp flip: split)
  qed
qed

definition varied :: "'a list \<Rightarrow> bool" where
  "varied p \<longleftrightarrow> (\<exists>x \<in> set p. \<exists>y \<in> set p. x \<noteq> y)"

lemma varied_iff: "p \<noteq> [] \<Longrightarrow> varied p \<longleftrightarrow> \<not> list_all (\<lambda>h. h = p ! 0) p"
  by (cases p) (fastforce simp: varied_def list_all_iff)+

lemma has_periodic_pattern_tail:
  assumes "0 < period" "0 < n" "period * n \<le> length seq"
  defines "tail \<equiv> drop (length seq - period * n) seq"
  shows "has_periodic_pattern seq period n \<longleftrightarrow>
    tail = concat (replicate n (take period tail)) \<and> varied (take period tail)"
proof -
  have len: "length tail = period * n" using assms by simp
  have kle: "period \<le> length tail" using len assms(2) by (cases n) auto
  have ne: "take period tail \<noteq> []" using kle assms(1) by auto
  have eq: "list_all (\<lambda>cycle. list_all (\<lambda>i. tail ! (cycle * period + i) = take period tail ! i) [0..<period])
      [1..<n] \<longleftrightarrow> tail = concat (replicate n (take period tail))" (is "?L = ?R")
  proof
    assume ?L
    then show ?R by (intro periodic_concat) (use len assms(1) in \<open>auto simp: list_all_iff\<close>)
  next
    assume R: ?R
    have tk: "length (take period tail) = period" using kle by simp
    have "tail ! (c * period + i) = take period tail ! i" if "c < n" "i < period" for c i
    proof -
      have "concat (replicate n (take period tail)) ! (c * length (take period tail) + i)
          = take period tail ! i"
        by (rule nth_concat_replicate) (use that tk in simp_all)
      then show ?thesis using R tk by metis
    qed
    then show ?L by (auto simp: list_all_iff)
  qed
  show ?thesis
    using assms eq varied_iff [OF ne] unfolding has_periodic_pattern_def Let_def by auto
qed

section \<open>Repetitions and the breaker\<close>

lemma ping_pong_hit_frame [simp]:
  "config (snd (ping_pong_hit p n g)) = config g"
  "call_sequence (snd (ping_pong_hit p n g)) = call_sequence g"
  "call_counts (snd (ping_pong_hit p n g)) = call_counts g"
  "outcome_sequence (snd (ping_pong_hit p n g)) = outcome_sequence g"
  "outcome_counts (snd (ping_pong_hit p n g)) = outcome_counts g"
  "total_repetitions (snd (ping_pong_hit p n g)) = wrap32 (Suc (total_repetitions g))"
  by (simp_all add: ping_pong_hit_def Let_def)

lemma check_ping_pong_disj:
  "check_ping_pong g = (None, g) \<or> (\<exists>p n. check_ping_pong g = apfst Some (ping_pong_hit p n g))"
  unfolding check_ping_pong_def Let_def by auto

lemma check_ping_pong_cases:
  obtains "check_ping_pong g = (None, g)"
  | p n where "check_ping_pong g = apfst Some (ping_pong_hit p n g)"
  using check_ping_pong_disj [of g] by blast

lemma check_ping_pong_frame [simp]:
  "config (snd (check_ping_pong g)) = config g"
  "call_sequence (snd (check_ping_pong g)) = call_sequence g"
  "call_counts (snd (check_ping_pong g)) = call_counts g"
  "outcome_sequence (snd (check_ping_pong g)) = outcome_sequence g"
  "outcome_counts (snd (check_ping_pong g)) = outcome_counts g"
  by (cases g rule: check_ping_pong_cases; simp)+

lemma graduated_frame [simp]:
  "config (snd (graduated c p w b g)) = config g"
  "call_sequence (snd (graduated c p w b g)) = call_sequence g"
  "call_counts (snd (graduated c p w b g)) = call_counts g"
  "outcome_sequence (snd (graduated c p w b g)) = outcome_sequence g"
  "outcome_counts (snd (graduated c p w b g)) = outcome_counts g"
  by (simp_all add: graduated_def Let_def)

lemma record_call_frame [simp]:
  "config (record_call h g) = config g"
  "total_repetitions (record_call h g) = total_repetitions g"
  "outcome_sequence (record_call h g) = outcome_sequence g"
  "outcome_counts (record_call h g) = outcome_counts g"
  by (simp_all add: record_call_def prune_call_window_def Let_def)

text \<open>
  What one answer means: \<open>Allow\<close> leaves the repetition count alone, every other answer adds one,
  and the answer is \<open>CircuitBreak\<close> exactly when the new count has reached the breaker.
\<close>

definition counted :: "loop_guard_action \<Rightarrow> loop_guard \<Rightarrow> loop_guard \<Rightarrow> bool" where
  "counted a g g' \<longleftrightarrow>
     (a = Allow \<longrightarrow> total_repetitions g' = total_repetitions g)
     \<and> (a \<noteq> Allow \<longrightarrow> total_repetitions g' = wrap32 (Suc (total_repetitions g))
          \<and> ((\<exists>n. a = CircuitBreak n) \<longleftrightarrow> global_circuit_breaker (config g) \<le> total_repetitions g')
          \<and> (\<forall>n. a = CircuitBreak n \<longrightarrow> n = total_repetitions g'))"

lemma ping_pong_hit_counted:
  "counted (fst (ping_pong_hit p n g)) g (snd (ping_pong_hit p n g))
   \<and> fst (ping_pong_hit p n g) \<noteq> Allow"
  by (simp add: counted_def ping_pong_hit_def Let_def)

lemma graduated_counted: "counted (fst (graduated c p w b g)) g (snd (graduated c p w b g))"
  by (simp add: counted_def graduated_def Let_def)

lemma counted_record_call [simp]: "counted a (record_call h g) g' = counted a g g'"
  by (simp add: counted_def)

lemma check_hash_counted: "counted (fst (check_hash h p g)) g (snd (check_hash h p g))"
proof (cases "record_call h g" rule: check_ping_pong_cases)
  case 1
  then show ?thesis
    using graduated_counted [where g = "record_call h g"] by (simp add: check_hash_def Let_def)
next
  case (2 per n)
  then show ?thesis
    using ping_pong_hit_counted [of per n "record_call h g"]
    by (cases "ping_pong_hit per n (record_call h g)") (simp add: check_hash_def Let_def)
qed

lemma check_hash_frame [simp]:
  "config (snd (check_hash h p g)) = config g"
  "call_sequence (snd (check_hash h p g)) = call_sequence (record_call h g)"
  "call_counts (snd (check_hash h p g)) = call_counts (record_call h g)"
  "outcome_sequence (snd (check_hash h p g)) = outcome_sequence g"
  "outcome_counts (snd (check_hash h p g)) = outcome_counts g"
proof -
  obtain a g2 where e: "check_ping_pong (record_call h g) = (a, g2)" by fastforce
  note frame = check_ping_pong_frame [of "record_call h g", unfolded e snd_conv]
  show "config (snd (check_hash h p g)) = config g"
    "call_sequence (snd (check_hash h p g)) = call_sequence (record_call h g)"
    "call_counts (snd (check_hash h p g)) = call_counts (record_call h g)"
    "outcome_sequence (snd (check_hash h p g)) = outcome_sequence g"
    "outcome_counts (snd (check_hash h p g)) = outcome_counts g"
    using frame e by (cases a; simp add: check_hash_def Let_def)+
qed

section \<open>Reachable guards\<close>

inductive guard_reach ::
    "(string \<Rightarrow> string) \<Rightarrow> (string \<Rightarrow> string option) \<Rightarrow> loop_guard_config \<Rightarrow> loop_guard \<Rightarrow> bool"
  for sha canon cfg where
  start: "guard_reach sha canon cfg (loop_guard_new cfg)"
| check: "guard_reach sha canon cfg g \<Longrightarrow> guard_reach sha canon cfg (snd (loop_check sha canon calls g))"
| outcome: "guard_reach sha canon cfg g \<Longrightarrow>
    guard_reach sha canon cfg (snd (record_outcome sha canon name params res g))"

text \<open>
  The counters against the window they are rebuilt from. They agree except that one hash may
  be counted once too often: the call that triggers a prune is counted by the rebuild and then
  incremented again.
\<close>

definition counts_match :: "(string \<rightharpoonup> nat) \<Rightarrow> string list \<Rightarrow> bool" where
  "counts_match m seq \<longleftrightarrow>
     (\<exists>extra. \<forall>h. count_of m h = wrap32 (count_list seq h + (if extra = Some h then 1 else 0)))"

definition in_window :: "nat \<Rightarrow> 'a list \<Rightarrow> bool" where
  "in_window w seq \<longleftrightarrow> (0 < w \<longrightarrow> length seq \<le> w)"

definition guard_inv :: "loop_guard \<Rightarrow> bool" where
  "guard_inv g \<longleftrightarrow>
     counts_match (call_counts g) (call_sequence g)
     \<and> counts_match (outcome_counts g) (outcome_sequence g)
     \<and> in_window (window_size (config g)) (call_sequence g)
     \<and> in_window (window_size (config g)) (outcome_sequence g)"

lemma counts_match_push:
  "counts_match m seq \<Longrightarrow> counts_match (bump h m) (seq @ [h])"
  unfolding counts_match_def by (auto simp: count_list_append)

lemma counts_match_rebuild: "counts_match (bump h (fold bump seq Map.empty)) seq"
  unfolding counts_match_def by (intro exI [of _ "Some h"]) auto

lemma counts_match_window:
  assumes "counts_match m seq"
  shows "counts_match
     (bump h (let s = seq @ [h] in if 0 < w \<and> w < length s
              then fold bump (drop (length s - w div 2) s) Map.empty else m))
     (let s = seq @ [h] in if 0 < w \<and> w < length s then drop (length s - w div 2) s else s)"
  by (cases "0 < w \<and> w < length (seq @ [h])")
    (simp_all only: Let_def if_True if_False simp_thms counts_match_rebuild counts_match_push [OF assms])

lemma in_window_push:
  "in_window w (let s = seq @ [h] in if 0 < w \<and> w < length s then drop (length s - w div 2) s else s)"
  unfolding Let_def by (auto simp: in_window_def)

lemma record_call_sequence:
  "call_sequence (record_call h g) =
     (let seq = call_sequence g @ [h]; w = window_size (config g)
      in if 0 < w \<and> w < length seq then drop (length seq - w div 2) seq else seq)"
  by (simp add: record_call_def prune_call_window_def Let_def)

lemma record_call_counts:
  "call_counts (record_call h g) =
     bump h (let seq = call_sequence g @ [h]; w = window_size (config g)
             in if 0 < w \<and> w < length seq
                then fold bump (drop (length seq - w div 2) seq) Map.empty else call_counts g)"
  by (simp add: record_call_def prune_call_window_def Let_def)

lemma record_call_inv:
  assumes "guard_inv g" shows "guard_inv (record_call h g)"
proof -
  have "counts_match (call_counts (record_call h g)) (call_sequence (record_call h g))"
    using assms counts_match_window unfolding record_call_sequence record_call_counts guard_inv_def
    by (simp only: Let_def)
  moreover have "in_window (window_size (config g)) (call_sequence (record_call h g))"
    unfolding record_call_sequence using in_window_push by (simp only: Let_def)
  ultimately show ?thesis using assms by (simp add: guard_inv_def)
qed

lemma check_hash_inv: "guard_inv g \<Longrightarrow> guard_inv (snd (check_hash h p g))"
  using record_call_inv [of g h] by (simp add: guard_inv_def)

lemma push_outcome_frame [simp]:
  "config (push_outcome h g) = config g"
  "call_sequence (push_outcome h g) = call_sequence g"
  "call_counts (push_outcome h g) = call_counts g"
  "total_repetitions (push_outcome h g) = total_repetitions g"
  by (simp_all add: push_outcome_def prune_outcome_window_def Let_def)

lemma outcome_response_frame [simp]:
  "config (snd (outcome_response c g)) = config g"
  "call_sequence (snd (outcome_response c g)) = call_sequence g"
  "call_counts (snd (outcome_response c g)) = call_counts g"
  "outcome_sequence (snd (outcome_response c g)) = outcome_sequence g"
  "outcome_counts (snd (outcome_response c g)) = outcome_counts g"
  by (simp_all add: outcome_response_def Let_def)

lemma record_outcome_frame [simp]:
  "config (snd (record_outcome sha canon nm ps rs g)) = config g"
  "call_sequence (snd (record_outcome sha canon nm ps rs g)) = call_sequence g"
  "call_counts (snd (record_outcome sha canon nm ps rs g)) = call_counts g"
  by (simp_all add: record_outcome_def Let_def)

lemma push_outcome_sequence:
  "outcome_sequence (push_outcome h g) =
     (let seq = outcome_sequence g @ [h]; w = window_size (config g)
      in if 0 < w \<and> w < length seq then drop (length seq - w div 2) seq else seq)"
  by (simp add: push_outcome_def prune_outcome_window_def Let_def)

lemma push_outcome_counts:
  "outcome_counts (push_outcome h g) =
     bump h (let seq = outcome_sequence g @ [h]; w = window_size (config g)
             in if 0 < w \<and> w < length seq
                then fold bump (drop (length seq - w div 2) seq) Map.empty else outcome_counts g)"
  by (simp add: push_outcome_def prune_outcome_window_def Let_def)

lemma push_outcome_inv:
  assumes "guard_inv g" shows "guard_inv (push_outcome h g)"
proof -
  have "counts_match (outcome_counts (push_outcome h g)) (outcome_sequence (push_outcome h g))"
    using assms counts_match_window unfolding push_outcome_sequence push_outcome_counts guard_inv_def
    by (simp only: Let_def)
  moreover have "in_window (window_size (config g)) (outcome_sequence (push_outcome h g))"
    unfolding push_outcome_sequence using in_window_push by (simp only: Let_def)
  ultimately show ?thesis using assms by (simp add: guard_inv_def)
qed

lemma record_outcome_inv:
  assumes "guard_inv g" shows "guard_inv (snd (record_outcome sha canon nm ps rs g))"
  using assms push_outcome_inv [of g "hash_outcome sha canon nm ps rs"]
  by (simp add: record_outcome_def Let_def guard_inv_def)

lemma guard_inv_new: "guard_inv (loop_guard_new cfg)"
  by (auto simp: guard_inv_def loop_guard_new_def counts_match_def in_window_def)

lemma guard_reach_inv: "guard_reach sha canon cfg g \<Longrightarrow> guard_inv g \<and> config g = cfg"
proof (induction rule: guard_reach.induct)
  case start
  show ?case using guard_inv_new by (simp add: loop_guard_new_def)
next
  case (check g calls)
  then show ?case using check_hash_inv by (auto simp: loop_check_def)
next
  case (outcome g name params res)
  then show ?case using record_outcome_inv by simp
qed

section \<open>The same call over and over\<close>

lemma uniform_not_periodic [simp]: "\<not> has_periodic_pattern (replicate n h) period m"
  by (auto simp: has_periodic_pattern_def Let_def take_replicate list_all_iff)

lemma uniform_no_ping_pong: "call_sequence g = replicate n h \<Longrightarrow> check_ping_pong g = (None, g)"
  by (simp add: check_ping_pong_def Let_def)

definition threshold :: "bool \<Rightarrow> nat \<Rightarrow> loop_guard_config \<Rightarrow> nat" where
  "threshold is_poll t cfg = t * (if is_poll then poll_multiplier cfg else 1)"

text \<open>The graduated response to the \<open>k\<close>-th identical call, as a table.\<close>

definition ladder :: "loop_guard_config \<Rightarrow> bool \<Rightarrow> nat \<Rightarrow> loop_guard_action" where
  "ladder cfg is_poll k =
     (let warn_at = threshold is_poll (warn_threshold cfg) cfg;
          block_at = threshold is_poll (block_threshold cfg) cfg
      in if k < warn_at then Allow
         else if global_circuit_breaker cfg \<le> k + 1 - warn_at then CircuitBreak (k + 1 - warn_at)
         else if block_at \<le> k
         then Block (''tool call repeated '' @ show_nat k @ '' times (threshold '' @ show_nat block_at @ '')'')
         else Warn (''tool call repeated '' @ show_nat k @ '' times (warn threshold ''
                    @ show_nat warn_at @ '')'')
                (if is_poll then Some (backoff_delay k warn_at) else None))"

definition repeat_state :: "loop_guard_config \<Rightarrow> bool \<Rightarrow> string \<Rightarrow> nat \<Rightarrow> loop_guard \<Rightarrow> bool" where
  "repeat_state cfg is_poll h k g \<longleftrightarrow>
     config g = cfg \<and> call_sequence g = replicate k h \<and> count_of (call_counts g) h = k
     \<and> total_repetitions g = k + 1 - threshold is_poll (warn_threshold cfg) cfg"

lemma repeat_step:
  assumes st: "repeat_state cfg is_poll h k g"
    and win: "window_size cfg = 0 \<or> Suc k \<le> window_size cfg"
    and small: "Suc k \<le> u32_max"
    and warn: "1 \<le> threshold is_poll (warn_threshold cfg) cfg"
      "threshold is_poll (warn_threshold cfg) cfg \<le> u32_max"
    and block: "threshold is_poll (block_threshold cfg) cfg \<le> u32_max"
  shows "fst (check_hash h is_poll g) = ladder cfg is_poll (Suc k)
    \<and> repeat_state cfg is_poll h (Suc k) (snd (check_hash h is_poll g))"
proof -
  let ?g1 = "record_call h g"
  have seq: "call_sequence ?g1 = replicate (Suc k) h"
    using st win by (auto simp: record_call_sequence Let_def repeat_state_def replicate_append_same)
  have cnt: "count_of (call_counts ?g1) h = Suc k"
    using st win small by (auto simp: record_call_counts Let_def repeat_state_def wrap32_id)
  have cfg: "config g = cfg" "config ?g1 = cfg"
    and tot: "total_repetitions ?g1 = Suc k - threshold is_poll (warn_threshold cfg) cfg"
    using st by (simp_all add: repeat_state_def)
  have res: "check_hash h is_poll g = graduated (Suc k) is_poll
      (threshold is_poll (warn_threshold cfg) cfg) (threshold is_poll (block_threshold cfg) cfg) ?g1"
    using uniform_no_ping_pong [OF seq] cnt cfg wrap32_id [OF warn(2)] wrap32_id [OF block]
    by (simp add: check_hash_def Let_def flip: threshold_def)
  have reps: "wrap32 (total_repetitions ?g1 + 1) = Suc (Suc k) - threshold is_poll (warn_threshold cfg) cfg"
    if "threshold is_poll (warn_threshold cfg) cfg \<le> Suc k"
    using that tot small warn by (subst wrap32_id) auto
  have "fst (graduated (Suc k) is_poll (threshold is_poll (warn_threshold cfg) cfg)
      (threshold is_poll (block_threshold cfg) cfg) ?g1) = ladder cfg is_poll (Suc k)"
    using reps cfg by (simp add: graduated_def ladder_def Let_def)
  moreover have "total_repetitions (snd (graduated (Suc k) is_poll (threshold is_poll (warn_threshold cfg) cfg)
      (threshold is_poll (block_threshold cfg) cfg) ?g1)) = Suc k + 1 - threshold is_poll (warn_threshold cfg) cfg"
    using reps tot by (simp add: graduated_def Let_def)
  ultimately show ?thesis
    using res seq cnt cfg by (simp add: repeat_state_def)
qed

text \<open>The guard after \<open>k\<close> checks of the same batch.\<close>

primrec after_repeats ::
    "(string \<Rightarrow> string) \<Rightarrow> (string \<Rightarrow> string option) \<Rightarrow> tool_call_sig list \<Rightarrow> loop_guard_config \<Rightarrow> nat \<Rightarrow> loop_guard"
where
  "after_repeats sha canon calls cfg 0 = loop_guard_new cfg"
| "after_repeats sha canon calls cfg (Suc k) = snd (loop_check sha canon calls (after_repeats sha canon calls cfg k))"

lemma after_repeats_state:
  assumes "enabled cfg" "calls \<noteq> []" "window_size cfg = 0 \<or> k \<le> window_size cfg" "k \<le> u32_max"
    "1 \<le> threshold (is_poll_command calls) (warn_threshold cfg) cfg"
    "threshold (is_poll_command calls) (warn_threshold cfg) cfg \<le> u32_max"
    "threshold (is_poll_command calls) (block_threshold cfg) cfg \<le> u32_max"
  shows "repeat_state cfg (is_poll_command calls) (hash_call_batch sha canon calls) k
    (after_repeats sha canon calls cfg k)"
  using assms(3,4)
proof (induction k)
  case 0
  then show ?case using assms(5) by (simp add: repeat_state_def loop_guard_new_def)
next
  case (Suc k)
  then have st: "repeat_state cfg (is_poll_command calls) (hash_call_batch sha canon calls) k
      (after_repeats sha canon calls cfg k)" by auto
  then have "config (after_repeats sha canon calls cfg k) = cfg" by (simp add: repeat_state_def)
  with repeat_step [OF st] Suc.prems assms show ?case by (simp add: loop_check_def)
qed

section \<open>Properties\<close>

text \<open>
  Ping-pong detection is exact: the index loops of \<open>has_periodic_pattern\<close> accept a call
  sequence exactly when it ends in \<open>n\<close> copies of one block of the given length that holds at
  least two different hashes.
\<close>

theorem has_periodic_pattern_iff:
  "has_periodic_pattern seq period n =
     (0 < period \<and> 0 < n
      \<and> (\<exists>pre pat. seq = pre @ concat (replicate n pat) \<and> length pat = period \<and> varied pat))"
proof (cases "0 < period \<and> 0 < n \<and> period * n \<le> length seq")
  case True
  let ?t = "drop (length seq - period * n) seq"
  show ?thesis
  proof
    assume "has_periodic_pattern seq period n"
    then have "?t = concat (replicate n (take period ?t))" "varied (take period ?t)"
      using has_periodic_pattern_tail True by auto
    moreover have "length (take period ?t) = period" using True by (cases n) auto
    moreover have "seq = take (length seq - period * n) seq @ ?t" by simp
    ultimately show "0 < period \<and> 0 < n
      \<and> (\<exists>pre pat. seq = pre @ concat (replicate n pat) \<and> length pat = period \<and> varied pat)"
      using True by metis
  next
    assume "0 < period \<and> 0 < n
      \<and> (\<exists>pre pat. seq = pre @ concat (replicate n pat) \<and> length pat = period \<and> varied pat)"
    then obtain pre pat where seq: "seq = pre @ concat (replicate n pat)"
      and len: "length pat = period" and var: "varied pat" by blast
    have t: "?t = concat (replicate n pat)" using seq len by (simp add: mult.commute)
    moreover have "take period ?t = pat"
      using t len True by (cases n) auto
    ultimately show "has_periodic_pattern seq period n"
      using has_periodic_pattern_tail [of period n seq] True var by simp
  qed
next
  case False
  then show ?thesis by (auto simp: has_periodic_pattern_def Let_def mult.commute)
qed

text \<open>
  C39. The guard's memory is bounded and its counters are wrong by at most one. In every reachable state
  (any mix of checks and recorded outcomes) a positive window bounds both sequences, and
  every counter equals the number of occurrences in its window, with at most one hash counted
  once too often.
\<close>

theorem guard_reachable_inv:
  assumes "guard_reach sha canon cfg g"
  shows "(0 < window_size cfg \<longrightarrow>
      length (call_sequence g) \<le> window_size cfg \<and> length (outcome_sequence g) \<le> window_size cfg)
    \<and> (\<exists>extra. \<forall>h. count_of (call_counts g) h =
         wrap32 (count_list (call_sequence g) h + (if extra = Some h then 1 else 0)))
    \<and> (\<exists>extra. \<forall>h. count_of (outcome_counts g) h =
         wrap32 (count_list (outcome_sequence g) h + (if extra = Some h then 1 else 0)))"
  using guard_reach_inv [OF assms] by (auto simp: guard_inv_def counts_match_def in_window_def)

definition sig_a :: tool_call_sig where
  "sig_a = \<lparr>sig_name = ''a'', sig_arguments = ''x''\<rparr>"

theorem guard_reachable_inv_witness:
  "length (call_sequence (snd (loop_check id (\<lambda>_. None) [sig_a] (loop_guard_new loop_guard_config_default)))) \<le> 200"
proof -
  have "guard_reach id (\<lambda>_. None) loop_guard_config_default
      (snd (loop_check id (\<lambda>_. None) [sig_a] (loop_guard_new loop_guard_config_default)))"
    by (intro guard_reach.intros)
  from guard_reachable_inv [OF this] show ?thesis by (simp add: loop_guard_config_default_def)
qed

text \<open>
  Graduated response: the \<open>k\<close>-th check of one and the same batch on a fresh guard answers
  exactly by the documented ladder (allow below the warn threshold, then warn, then block,
  and the circuit breaker once the repetitions past the warn threshold reach it), with the
  poll multiplier applied to poll commands, while the calls fit the window and the
  thresholds fit 32 bits.
\<close>

theorem graduated_response:
  assumes "enabled cfg" "calls \<noteq> []" "window_size cfg = 0 \<or> Suc k \<le> window_size cfg" "Suc k \<le> u32_max"
    "1 \<le> threshold (is_poll_command calls) (warn_threshold cfg) cfg"
    "threshold (is_poll_command calls) (warn_threshold cfg) cfg \<le> u32_max"
    "threshold (is_poll_command calls) (block_threshold cfg) cfg \<le> u32_max"
  shows "fst (loop_check sha canon calls (after_repeats sha canon calls cfg k))
    = ladder cfg (is_poll_command calls) (Suc k)"
proof -
  have st: "repeat_state cfg (is_poll_command calls) (hash_call_batch sha canon calls) k
      (after_repeats sha canon calls cfg k)"
    using assms by (intro after_repeats_state) auto
  then have "config (after_repeats sha canon calls cfg k) = cfg" by (simp add: repeat_state_def)
  with repeat_step [OF st assms(3-7)] assms(1,2) show ?thesis by (simp add: loop_check_def)
qed

theorem graduated_response_witness:
  "fst (loop_check id (\<lambda>_. None) [sig_a] (after_repeats id (\<lambda>_. None) [sig_a] loop_guard_config_default 4))
     = Block ''tool call repeated 5 times (threshold 5)''"
proof -
  have "fst (loop_check id (\<lambda>_. None) [sig_a] (after_repeats id (\<lambda>_. None) [sig_a] loop_guard_config_default 4))
      = ladder loop_guard_config_default (is_poll_command [sig_a]) (Suc 4)"
    by (rule graduated_response) code_simp+
  also have "\<dots> = Block ''tool call repeated 5 times (threshold 5)''" by code_simp
  finally show ?thesis .
qed

text \<open>
  The global breaker stays tripped: once the repetition count is within one of the breaker
  threshold, every further check is either allowed or answered by the circuit breaker with the
  exact count, never by a mere warning or block.
\<close>

theorem breaker_sticky:
  assumes "global_circuit_breaker (config g) \<le> Suc (total_repetitions g)" "total_repetitions g < u32_max"
  shows "fst (loop_check sha canon calls g) = Allow
    \<or> fst (loop_check sha canon calls g) = CircuitBreak (Suc (total_repetitions g))"
proof (cases "\<not> enabled (config g) \<or> calls = []")
  case False
  have "wrap32 (Suc (total_repetitions g)) = Suc (total_repetitions g)"
    using assms(2) by (intro wrap32_id) simp
  then show ?thesis
    using False assms(1) check_hash_counted [of "hash_call_batch sha canon calls" "is_poll_command calls" g]
    by (auto simp: loop_check_def counted_def)
qed (auto simp: loop_check_def)

definition tripped_guard :: loop_guard where
  "tripped_guard = (after_repeats id (\<lambda>_. None) [sig_a]
     (loop_guard_config_default\<lparr>global_circuit_breaker := 2\<rparr>) 3)"

theorem breaker_sticky_witness:
  "fst (loop_check id (\<lambda>_. None) [sig_a] tripped_guard) = CircuitBreak 2"
proof -
  have t: "total_repetitions tripped_guard = 1" "global_circuit_breaker (config tripped_guard) = 2"
    by code_simp+
  have "fst (loop_check id (\<lambda>_. None) [sig_a] tripped_guard) = Allow
      \<or> fst (loop_check id (\<lambda>_. None) [sig_a] tripped_guard) = CircuitBreak (Suc (total_repetitions tripped_guard))"
    by (rule breaker_sticky) (simp_all add: t u32_max_def)
  moreover have "fst (loop_check id (\<lambda>_. None) [sig_a] tripped_guard) \<noteq> Allow" by code_simp
  ultimately show ?thesis by (simp add: t)
qed

text \<open>
  The call that triggers a prune is counted twice: right after it, its counter is one more
  than its occurrences in the surviving window. A call made for the first time can therefore
  be answered by a warning.
\<close>

theorem prune_counts_twice:
  assumes "0 < window_size (config g)" "window_size (config g) \<le> length (call_sequence g)"
  shows "count_of (call_counts (record_call h g)) h
    = wrap32 (Suc (count_list (call_sequence (record_call h g)) h))"
proof -
  have "0 < window_size (config g) \<and> window_size (config g) < length (call_sequence g @ [h])"
    using assms by simp
  then show ?thesis
    unfolding record_call_sequence record_call_counts Let_def
    by (simp only: if_True simp_thms count_of_bump count_of_rebuild wrap32_Suc)
qed

text \<open>A two-entry window: the third call of the run is new, and the guard says it was repeated.\<close>

definition small_window_guard :: loop_guard where
  "small_window_guard =
     snd (check_hash ''B'' False (snd (check_hash ''A'' False
       (loop_guard_new (loop_guard_config_default\<lparr>warn_threshold := 2, window_size := 2\<rparr>)))))"

theorem prune_counts_twice_witness:
  "count_of (call_counts (record_call ''C'' small_window_guard)) ''C'' = 2
   \<and> call_sequence (record_call ''C'' small_window_guard) = [''C'']
   \<and> fst (check_hash ''C'' False small_window_guard)
       = Warn ''tool call repeated 2 times (warn threshold 2)'' None"
proof -
  have "0 < window_size (config small_window_guard)"
    "window_size (config small_window_guard) \<le> length (call_sequence small_window_guard)"
    by code_simp+
  from prune_counts_twice [OF this, of "''C''"]
  have "count_of (call_counts (record_call ''C'' small_window_guard)) ''C''
      = wrap32 (Suc (count_list (call_sequence (record_call ''C'' small_window_guard)) ''C''))" .
  moreover have "call_sequence (record_call ''C'' small_window_guard) = [''C'']" by code_simp
  moreover have "fst (check_hash ''C'' False small_window_guard)
       = Warn ''tool call repeated 2 times (warn threshold 2)'' None" by code_simp
  ultimately show ?thesis by (simp add: wrap32_def)
qed

text \<open>
  The suggested poll delay is always between 1 and 30 seconds, and for fewer than 64 calls
  past the warn threshold it is the documented capped power of two; at 64 calls past it the
  shift wraps and the suggestion starts again at one second.
\<close>

theorem backoff_delay_bounds:
  "1000 \<le> backoff_delay c w \<and> backoff_delay c w \<le> 30000
   \<and> (c - w < 64 \<longrightarrow> backoff_delay c w = 1000 * min 30 (2 ^ (c - w)))
   \<and> backoff_delay (w + 64) w = 1000"
  by (simp add: backoff_delay_def Let_def min_def mult.commute)

theorem backoff_delay_bounds_witness: "backoff_delay 6 3 = 8000"
proof -
  have "(6::nat) - 3 < 64" by simp
  then have "backoff_delay 6 3 = 1000 * min 30 (2 ^ (6 - 3))" using backoff_delay_bounds by blast
  then show ?thesis by simp
qed

end
