(* ===== verification/Agent_Budget.thy ===== *)
theory Agent_Budget
  imports Zepto_Prelude "HOL-Library.Multiset"
begin

text \<open>
  The per-run limits of the agent loop: the token budget of \<open>src/src/agent/budget.rs\<close> and the
  tool call counter of \<open>src/src/agent/tool_call_limit.rs\<close>. Both are atomic counters, so their
  fields are machine words and every \<open>fetch_add\<close> wraps; \<open>TokenBudget::record\<close> is two
  separate atomic additions, which the model keeps apart to speak about interleavings of
  several threads. The rendered summary and the percentage (a floating-point value for
  display) are left out.
\<close>

section \<open>Token budget\<close>

record token_budget =
  tb_limit :: "64 word"
  tb_input_used :: "64 word"
  tb_output_used :: "64 word"

definition budget_new :: "64 word \<Rightarrow> token_budget" where
  "budget_new l = \<lparr>tb_limit = l, tb_input_used = 0, tb_output_used = 0\<rparr>"

definition budget_unlimited :: token_budget where
  "budget_unlimited = budget_new 0"

datatype budget_add = AddInput "64 word" | AddOutput "64 word"

fun budget_fetch_add :: "token_budget \<Rightarrow> budget_add \<Rightarrow> token_budget" where
  "budget_fetch_add b (AddInput n) = b\<lparr>tb_input_used := tb_input_used b + n\<rparr>"
| "budget_fetch_add b (AddOutput n) = b\<lparr>tb_output_used := tb_output_used b + n\<rparr>"

definition budget_record :: "64 word \<Rightarrow> 64 word \<Rightarrow> token_budget \<Rightarrow> token_budget" where
  "budget_record inp outp b =
     budget_fetch_add (budget_fetch_add b (AddInput inp)) (AddOutput outp)"

definition total_used :: "token_budget \<Rightarrow> 64 word" where
  "total_used b = tb_input_used b + tb_output_used b"

definition is_unlimited :: "token_budget \<Rightarrow> bool" where
  "is_unlimited b \<longleftrightarrow> tb_limit b = 0"

definition budget_remaining :: "token_budget \<Rightarrow> (64 word) option" where
  "budget_remaining b =
     (if is_unlimited b then None
      else let used = total_used b in
        if tb_limit b \<le> used then Some 0 else Some (tb_limit b - used))"

definition budget_is_exceeded :: "token_budget \<Rightarrow> bool" where
  "budget_is_exceeded b = (if is_unlimited b then False else tb_limit b \<le> total_used b)"

definition budget_reset :: "token_budget \<Rightarrow> token_budget" where
  "budget_reset b = b\<lparr>tb_input_used := 0, tb_output_used := 0\<rparr>"

definition resolve_token_budget :: "64 word \<Rightarrow> (64 word) option \<Rightarrow> 64 word" where
  "resolve_token_budget global template =
     (case template of
        None \<Rightarrow> global
      | Some tpl \<Rightarrow> if tpl = 0 then global else if global = 0 then tpl else min global tpl)"

section \<open>Tool call limit\<close>

record tool_call_limit =
  tl_limit :: "(32 word) option"
  tl_count :: "32 word"

definition tracker_new :: "(32 word) option \<Rightarrow> tool_call_limit" where
  "tracker_new l = \<lparr>tl_limit = l, tl_count = 0\<rparr>"

definition tracker_increment :: "32 word \<Rightarrow> tool_call_limit \<Rightarrow> tool_call_limit" where
  "tracker_increment n t = t\<lparr>tl_count := tl_count t + n\<rparr>"

definition tracker_is_exceeded :: "tool_call_limit \<Rightarrow> bool" where
  "tracker_is_exceeded t = (case tl_limit t of None \<Rightarrow> False | Some m \<Rightarrow> m \<le> tl_count t)"

definition tracker_reset :: "tool_call_limit \<Rightarrow> tool_call_limit" where
  "tracker_reset t = t\<lparr>tl_count := 0\<rparr>"

definition tracker_remaining :: "tool_call_limit \<Rightarrow> (32 word) option" where
  "tracker_remaining t =
     map_option (\<lambda>m. if m \<le> tl_count t then 0 else m - tl_count t) (tl_limit t)"

section \<open>Lemmas\<close>

text \<open>A run of recorded calls, and the tokens it really used.\<close>

fun record_all :: "(64 word \<times> 64 word) list \<Rightarrow> token_budget \<Rightarrow> token_budget" where
  "record_all [] b = b"
| "record_all ((i, oo) # us) b = record_all us (budget_record i oo b)"

fun tokens_of :: "(64 word \<times> 64 word) list \<Rightarrow> nat" where
  "tokens_of [] = 0"
| "tokens_of ((i, oo) # us) = unat i + unat oo + tokens_of us"

lemma budget_record_simps [simp]:
  "tb_limit (budget_record i oo b) = tb_limit b"
  "tb_input_used (budget_record i oo b) = tb_input_used b + i"
  "tb_output_used (budget_record i oo b) = tb_output_used b + oo"
  "total_used (budget_record i oo b) = total_used b + i + oo"
  by (simp_all add: budget_record_def total_used_def)

lemma record_all_limit [simp]: "tb_limit (record_all us b) = tb_limit b"
  by (induction us b rule: record_all.induct) simp_all

lemma unat_add_small:
  "unat (x :: 'a::len word) + unat y < 2 ^ LENGTH('a) \<Longrightarrow> unat (x + y) = unat x + unat y"
  by (simp add: unat_word_ariths)

lemma record_all_total:
  "unat (total_used b) + tokens_of us < 2 ^ 64 \<Longrightarrow>
     unat (total_used (record_all us b)) = unat (total_used b) + tokens_of us"
proof (induction us b rule: record_all.induct)
  case (2 i oo us b)
  have "unat (total_used b + i) = unat (total_used b) + unat i"
    using "2.prems" by (intro unat_add_small) simp
  moreover from this have "unat (total_used b + i + oo) = unat (total_used b) + unat i + unat oo"
    using "2.prems" by (subst unat_add_small) simp_all
  ultimately show ?case using 2 by simp
qed simp

text \<open>
  Additions commute, so the counters depend only on which additions happened, not on the order
  in which the threads performed them.
\<close>

definition inputs_sum :: "budget_add multiset \<Rightarrow> 64 word" where
  "inputs_sum es = (\<Sum>e \<in># es. case e of AddInput n \<Rightarrow> n | AddOutput _ \<Rightarrow> 0)"

definition outputs_sum :: "budget_add multiset \<Rightarrow> 64 word" where
  "outputs_sum es = (\<Sum>e \<in># es. case e of AddOutput n \<Rightarrow> n | AddInput _ \<Rightarrow> 0)"

lemma fold_fetch_add:
  "foldl budget_fetch_add b es =
     b\<lparr>tb_input_used := tb_input_used b + inputs_sum (mset es),
       tb_output_used := tb_output_used b + outputs_sum (mset es)\<rparr>"
proof (induction es arbitrary: b)
  case Nil
  show ?case by (simp add: inputs_sum_def outputs_sum_def)
next
  case (Cons e es)
  show ?case
    by (cases e) (simp_all add: Cons.IH inputs_sum_def outputs_sum_def add.assoc)
qed

fun adds_of :: "(64 word \<times> 64 word) list \<Rightarrow> budget_add list" where
  "adds_of [] = []"
| "adds_of ((i, oo) # us) = AddInput i # AddOutput oo # adds_of us"

lemma record_all_fold: "record_all us b = foldl budget_fetch_add b (adds_of us)"
  by (induction us b rule: record_all.induct) (simp_all add: budget_record_def)

section \<open>Properties\<close>

text \<open>
  As long as the tokens really used fit 64 bits, a limited budget reports exactly the
  abstract accounting: it is exceeded when the tokens recorded since creation reach the
  limit, and what remains is the limit minus what was used, never below zero.
\<close>

theorem budget_accounts:
  assumes "tokens_of us < 2 ^ 64"
  shows "budget_is_exceeded (record_all us (budget_new l)) = (l \<noteq> 0 \<and> unat l \<le> tokens_of us)
    \<and> map_option unat (budget_remaining (record_all us (budget_new l))) =
        (if l = 0 then None else Some (unat l - tokens_of us))"
proof -
  let ?b = "record_all us (budget_new l)"
  have used: "unat (total_used ?b) = tokens_of us"
    using assms record_all_total [of "budget_new l" us] by (simp add: total_used_def budget_new_def)
  have lim: "tb_limit ?b = l" by (simp add: budget_new_def)
  show ?thesis
    using used lim
    by (auto simp: budget_is_exceeded_def budget_remaining_def is_unlimited_def Let_def
        word_le_nat_alt unat_sub)
qed

theorem budget_accounts_witness:
  "budget_is_exceeded (record_all [(500, 200), (9000, 300)] (budget_new 10000))
   \<and> budget_remaining (record_all [(500, 200)] (budget_new 10000)) = Some 9300"
proof -
  have "tokens_of [(500, 200), (9000, 300)] < 2 ^ 64" by simp
  from budget_accounts [OF this, of 10000]
  have "budget_is_exceeded (record_all [(500, 200), (9000, 300)] (budget_new 10000))" by simp
  moreover have "budget_remaining (record_all [(500, 200)] (budget_new 10000)) = Some 9300"
    by code_simp
  ultimately show ?thesis by simp
qed

text \<open>
  No interleaving loses tokens: when several threads record concurrently, the atomic
  additions may happen in any order, and every order ends in the same budget as recording the
  calls one after the other.
\<close>

theorem budget_interleaving:
  assumes "mset es = mset (adds_of us)"
  shows "foldl budget_fetch_add b es = record_all us b"
  using assms by (simp add: record_all_fold fold_fetch_add)

theorem budget_interleaving_witness:
  "foldl budget_fetch_add (budget_new 100) [AddOutput 4, AddInput 1, AddOutput 2, AddInput 3]
     = record_all [(1, 2), (3, 4)] (budget_new 100)"
  by (rule budget_interleaving) (simp add: add_mset_commute)

text \<open>
  A template can only tighten the budget: the resolved limit is unlimited only when the
  global limit is unlimited and the template gives none, and it never exceeds a global limit.
\<close>

theorem resolve_token_budget_tightens:
  "(resolve_token_budget g t = 0) = (g = 0 \<and> (t = None \<or> t = Some 0))
   \<and> (g \<noteq> 0 \<longrightarrow> resolve_token_budget g t \<le> g)
   \<and> (\<forall>l. t = Some l \<longrightarrow> l \<noteq> 0 \<longrightarrow> resolve_token_budget g t \<le> l)"
  by (auto simp: resolve_token_budget_def min_def split: option.splits)

theorem resolve_token_budget_tightens_witness:
  "resolve_token_budget 5000 (Some 3000) \<le> 5000 \<and> resolve_token_budget 5000 (Some 3000) \<le> 3000"
proof -
  have "(5000 :: 64 word) \<noteq> 0" "(3000 :: 64 word) \<noteq> 0" by simp_all
  then show ?thesis using resolve_token_budget_tightens [of 5000 "Some 3000"] by blast
qed

text \<open>The tracker's two views agree: no call remains exactly when the limit is reached.\<close>

lemma tracker_remaining_zero:
  "tl_limit t = Some m \<Longrightarrow> tracker_remaining t = Some 0 \<longleftrightarrow> tracker_is_exceeded t"
  by (auto simp: tracker_remaining_def tracker_is_exceeded_def)

lemma tracker_reset_not_exceeded:
  "tl_limit t \<noteq> Some 0 \<Longrightarrow> \<not> tracker_is_exceeded (tracker_reset t)"
  by (auto simp: tracker_is_exceeded_def tracker_reset_def word_le_nat_alt unat_eq_0
      split: option.splits)

end
