(* ===== verification/Dedup.thy ===== *)
theory Dedup
  imports Zepto_Prelude
begin

text \<open>
  Duplicate suppression: the gateway's idempotency store
  (\<open>src/src/gateway/idempotency.rs\<close>) and the event deduplicator of the r8r bridge
  (\<open>src/src/r8r_bridge/dedup.rs\<close>). Both keep a bounded set of recent keys and promise the same
  contract, the locale \<open>dedup\<close>: a replay within the time to live is rejected, and a rejection
  is always justified by an acceptance within it. Instants are integers in milliseconds; each
  operation runs under the code's lock and is one step.
\<close>

section \<open>The contract\<close>

text \<open>A run processes requests in order and keeps the verdicts.\<close>

fun run_checks :: "(int \<Rightarrow> string \<Rightarrow> 's \<Rightarrow> bool \<times> 's) \<Rightarrow> (int \<times> string) list \<Rightarrow> 's
    \<Rightarrow> (int \<times> string \<times> bool) list \<times> 's" where
  "run_checks check [] s = ([], s)"
| "run_checks check ((now, k) # es) s =
     (let (b, s1) = check now k s; (vs, s2) = run_checks check es s1 in ((now, k, b) # vs, s2))"

lemma run_checks_simps [simp]:
  "fst (run_checks check (e # es) s) =
     (fst e, snd e, fst (check (fst e) (snd e) s)) # fst (run_checks check es (snd (check (fst e) (snd e) s)))"
  "snd (run_checks check (e # es) s) = snd (run_checks check es (snd (check (fst e) (snd e) s)))"
  by (cases e; simp split: prod.split)+

declare run_checks.simps(2) [simp del]

lemma sorted_last: "sorted (x # xs) \<Longrightarrow> x \<le> last (x # xs)"
  by (cases xs rule: rev_cases) auto

locale dedup =
  fixes inv :: "int \<Rightarrow> 's \<Rightarrow> bool"
    and seen :: "int \<Rightarrow> string \<Rightarrow> 's \<Rightarrow> bool"
    and check :: "int \<Rightarrow> string \<Rightarrow> 's \<Rightarrow> bool \<times> 's"
    and count :: "'s \<Rightarrow> nat"
    and ttl :: int and cap :: nat
  assumes inv_mono: "inv t s \<Longrightarrow> t \<le> t' \<Longrightarrow> inv t' s"
    and inv_check: "inv now s \<Longrightarrow> inv now (snd (check now k s))"
    and verdict: "inv now s \<Longrightarrow> fst (check now k s) \<longleftrightarrow> \<not> seen now k s"
    and remembers: "inv now s \<Longrightarrow> fst (check now k s) \<Longrightarrow> now \<le> t \<Longrightarrow> t - now < ttl \<Longrightarrow>
      seen t k (snd (check now k s))"
    and invents_nothing: "inv now s \<Longrightarrow> now \<le> t \<Longrightarrow> seen t j (snd (check now k s)) \<Longrightarrow>
      seen t j s \<or> j = k \<and> fst (check now k s) \<and> t - now < ttl"
    and bounded: "inv now s \<Longrightarrow> count s \<le> cap"
begin

lemma run_inv:
  "inv t s \<Longrightarrow> sorted (t # map fst es) \<Longrightarrow> inv (last (t # map fst es)) (snd (run_checks check es s))"
proof (induction es arbitrary: s t)
  case (Cons e es)
  have "inv (fst e) (snd (check (fst e) (snd e) s))"
    using Cons.prems by (intro inv_check, elim inv_mono) auto
  from Cons.IH [OF this] Cons.prems(2) show ?case by simp
qed simp

lemma run_bounded: "inv t s \<Longrightarrow> sorted (t # map fst es) \<Longrightarrow> count (snd (run_checks check es s)) \<le> cap"
  using run_inv bounded by blast

lemma replay_rejected:
  assumes "inv now s" "fst (check now k s)" "now \<le> t" "t - now < ttl"
  shows "\<not> fst (check t k (snd (check now k s)))"
  using remembers [OF assms] verdict [OF inv_mono [OF inv_check [OF assms(1)] assms(3)]] by blast

text \<open>Everything remembered was remembered before the run or accepted in it.\<close>

lemma run_seen:
  "inv t0 s \<Longrightarrow> sorted (t0 # map fst es) \<Longrightarrow> last (t0 # map fst es) \<le> t \<Longrightarrow>
     seen t j (snd (run_checks check es s)) \<Longrightarrow>
     seen t j s \<or> (\<exists>now. (now, j, True) \<in> set (fst (run_checks check es s)) \<and> now \<le> t \<and> t - now < ttl)"
proof (induction es arbitrary: s t0)
  case (Cons e es)
  obtain now k where e: "e = (now, k)" by (cases e)
  let ?s1 = "snd (check now k s)"
  have now: "inv now s" using Cons.prems(1,2) e by (elim inv_mono) auto
  have rest: "sorted (now # map fst es)" "last (now # map fst es) \<le> t" using Cons.prems(2,3) e by auto
  have le: "now \<le> t" using sorted_last [OF rest(1)] rest(2) by linarith
  have "seen t j ?s1 \<or> (\<exists>u. (u, j, True) \<in> set (fst (run_checks check es ?s1)) \<and> u \<le> t \<and> t - u < ttl)"
    using Cons.IH [OF inv_check [OF now] rest] Cons.prems(4) e by simp
  moreover have "seen t j ?s1 \<Longrightarrow> seen t j s \<or> j = k \<and> fst (check now k s) \<and> t - now < ttl"
    by (rule invents_nothing [OF now le])
  ultimately show ?case using e le by auto
qed simp

text \<open>From an empty store, a rejection is justified by an acceptance less than the time to live ago.\<close>

lemma rejection_justified:
  assumes "inv t0 s" "\<And>t j. \<not> seen t j s" "sorted (t0 # map fst es @ [now])"
    and "\<not> fst (check now k (snd (run_checks check es s)))"
  shows "\<exists>t. (t, k, True) \<in> set (fst (run_checks check es s)) \<and> t \<le> now \<and> now - t < ttl"
proof -
  have sorted: "sorted (t0 # map fst es)" "last (t0 # map fst es) \<le> now"
    using assms(3) by (auto simp: sorted_append last_map split: if_splits)
  have "seen now k (snd (run_checks check es s))"
    using verdict [OF inv_mono [OF run_inv [OF assms(1) sorted(1)] sorted(2)]] assms(4) by blast
  from run_seen [OF assms(1) sorted this] assms(2) show ?thesis by blast
qed

text \<open>The three promises together, for a store that starts empty.\<close>

lemma contract:
  assumes "\<And>t. inv t s" "\<And>t j. \<not> seen t j s" "sorted (map fst es @ [now, later])"
    and "run_checks check es s = (log, st)"
  shows "(\<not> fst (check now k st) \<longrightarrow> (\<exists>t. (t, k, True) \<in> set log \<and> t \<le> now \<and> now - t < ttl))
    \<and> count (snd (check now k st)) \<le> cap
    \<and> (fst (check now k st) \<and> later - now < ttl \<longrightarrow> \<not> fst (check later k (snd (check now k st))))"
proof -
  let ?t0 = "hd (map fst es @ [now])"
  have sorted: "sorted (?t0 # map fst es @ [now])" "now \<le> later"
    using assms(3) by (cases es; auto simp: sorted_append)+
  then have t: "sorted (?t0 # map fst es)" "last (?t0 # map fst es) \<le> now"
    by (auto simp: sorted_append last_map split: if_splits)
  have inv: "inv now st"
    using inv_mono [OF run_inv [OF assms(1) t(1)] t(2)] assms(4) by simp
  show ?thesis
    using rejection_justified [OF assms(1,2) sorted(1)] replay_rejected [OF inv _ sorted(2)]
      bounded [OF inv_check [OF inv]] assms(4) by auto
qed

end

section \<open>The idempotency store\<close>

record idempotency_store =
  idem_entries :: "(string \<times> int) list"
  idem_ttl :: int
  idem_max_entries :: nat

definition idempotency_store_new :: "int \<Rightarrow> nat \<Rightarrow> idempotency_store" where
  "idempotency_store_new t m = \<lparr>idem_entries = [], idem_ttl = t, idem_max_entries = m\<rparr>"

definition evict_oldest :: "(string \<times> int) list \<Rightarrow> (string \<times> int) list" where
  "evict_oldest es = (case min_by_key snd es of Some (k, _) \<Rightarrow> AList.delete k es | None \<Rightarrow> es)"

definition check_and_record :: "int \<Rightarrow> string \<Rightarrow> idempotency_store \<Rightarrow> bool \<times> idempotency_store" where
  "check_and_record now key st =
     (if (case map_of (idem_entries st) key of Some t \<Rightarrow> now - t < idem_ttl st | None \<Rightarrow> False)
      then (False, st)
      else
        let cutoff = now - idem_ttl st;
            live = filter (\<lambda>(_, t). cutoff < t) (idem_entries st);
            kept = (if idem_max_entries st \<le> length live then evict_oldest live else live)
        in (True, st\<lparr>idem_entries := AList.update key now kept\<rparr>))"

section \<open>The bridge's deduplicator\<close>

record deduplicator =
  dd_seen :: "(string \<times> int) list"
  dd_max_entries :: nat
  dd_ttl_secs :: int

definition deduplicator_new :: "nat \<Rightarrow> int \<Rightarrow> deduplicator" where
  "deduplicator_new m t = \<lparr>dd_seen = [], dd_max_entries = m, dd_ttl_secs = t\<rparr>"

definition deduplicator_default :: deduplicator where
  "deduplicator_default = deduplicator_new 200 600"

definition dd_expired :: "int \<Rightarrow> int \<Rightarrow> string \<times> int \<Rightarrow> bool" where
  "dd_expired ttl_secs now e \<longleftrightarrow> ttl_secs \<le> (now - snd e) div 1000"

definition is_new :: "int \<Rightarrow> string \<Rightarrow> deduplicator \<Rightarrow> bool \<times> deduplicator" where
  "is_new now event_id d =
     (let pruned = dropWhile (dd_expired (dd_ttl_secs d) now) (dd_seen d) in
      if event_id \<in> fst ` set pruned then (False, d\<lparr>dd_seen := pruned\<rparr>)
      else let kept = (if dd_max_entries d \<le> length pruned then tl pruned else pruned)
           in (True, d\<lparr>dd_seen := kept @ [(event_id, now)]\<rparr>))"

section \<open>Both stores keep the contract\<close>

definition idem_inv :: "int \<Rightarrow> nat \<Rightarrow> int \<Rightarrow> idempotency_store \<Rightarrow> bool" where
  "idem_inv T m now st \<longleftrightarrow>
     idem_ttl st = T \<and> idem_max_entries st = m \<and> distinct (map fst (idem_entries st))
     \<and> length (idem_entries st) \<le> max 1 m \<and> (\<forall>e \<in> set (idem_entries st). snd e \<le> now)"

definition idem_seen :: "int \<Rightarrow> string \<Rightarrow> idempotency_store \<Rightarrow> bool" where
  "idem_seen now k st \<longleftrightarrow> (case map_of (idem_entries st) k of Some t \<Rightarrow> now - t < idem_ttl st | None \<Rightarrow> False)"

lemma evict_oldest_subset: "set (evict_oldest es) \<subseteq> set es"
  by (auto simp: evict_oldest_def AList.delete_eq split: option.splits)

lemma evict_oldest_distinct: "distinct (map fst es) \<Longrightarrow> distinct (map fst (evict_oldest es))"
  by (auto simp: evict_oldest_def distinct_delete split: option.splits)

lemma evict_oldest_length:
  assumes "distinct (map fst es)" "es \<noteq> []" shows "Suc (length (evict_oldest es)) = length es"
proof -
  obtain k t where m: "min_by_key snd es = Some (k, t)" using assms(2) by (metis min_by_key_None not_None_eq surj_pair)
  then have "k \<in> fst ` set es" by (force dest: min_by_key_in)
  then show ?thesis using m length_delete_less [OF _ assms(1)] by (simp add: evict_oldest_def)
qed

lemma check_and_record_accept:
  assumes "\<not> idem_seen now k st"
  shows "\<exists>kept. check_and_record now k st = (True, st\<lparr>idem_entries := AList.update k now kept\<rparr>)
    \<and> set kept \<subseteq> set (idem_entries st) \<and> (distinct (map fst (idem_entries st)) \<longrightarrow> distinct (map fst kept))
    \<and> (distinct (map fst (idem_entries st)) \<longrightarrow> length (idem_entries st) \<le> max 1 (idem_max_entries st) \<longrightarrow>
        Suc (length kept) \<le> max 1 (idem_max_entries st))"
proof -
  let ?live = "filter (\<lambda>(_, t). now - idem_ttl st < t) (idem_entries st)"
  let ?kept = "if idem_max_entries st \<le> length ?live then evict_oldest ?live else ?live"
  have d: "distinct (map fst (idem_entries st)) \<Longrightarrow> distinct (map fst ?live)"
    by (simp add: distinct_map_filter)
  have len: "Suc (length ?kept) \<le> max 1 (idem_max_entries st)"
    if "distinct (map fst (idem_entries st))" "length (idem_entries st) \<le> max 1 (idem_max_entries st)"
  proof -
    have "length ?live \<le> max 1 (idem_max_entries st)"
      using that(2) length_filter_le le_trans by blast
    then show ?thesis
      using evict_oldest_length [OF d [OF that(1)]]
      by (cases "?live = []") (auto simp: evict_oldest_def)
  qed
  show ?thesis
    using assms d len evict_oldest_subset [of ?live] evict_oldest_distinct [of ?live]
    by (intro exI [of _ ?kept]) (auto simp: check_and_record_def idem_seen_def Let_def)
qed

lemma idem_step:
  assumes "idem_inv T m now st"
  shows "idem_seen now k st \<Longrightarrow> check_and_record now k st = (False, st)"
    "\<not> idem_seen now k st \<Longrightarrow> \<exists>kept. check_and_record now k st = (True, st\<lparr>idem_entries := AList.update k now kept\<rparr>)
      \<and> set kept \<subseteq> set (idem_entries st) \<and> distinct (map fst kept) \<and> Suc (length kept) \<le> max 1 m"
  using assms check_and_record_accept [of now k st]
  by (auto simp: check_and_record_def idem_seen_def idem_inv_def)

interpretation idem: dedup "idem_inv T m" idem_seen check_and_record "\<lambda>st. length (idem_entries st)" T "max 1 m"
  for T m
proof
  fix t t' :: int and s
  show "idem_inv T m t s \<Longrightarrow> t \<le> t' \<Longrightarrow> idem_inv T m t' s" by (fastforce simp: idem_inv_def)
  show "idem_inv T m t s \<Longrightarrow> length (idem_entries s) \<le> max 1 m" by (simp add: idem_inv_def)
next
  fix now s k assume inv: "idem_inv T m now s"
  show "fst (check_and_record now k s) = (\<not> idem_seen now k s)"
    using idem_step [OF inv, of k] by auto
  show "idem_inv T m now (snd (check_and_record now k s))"
  proof (cases "idem_seen now k s")
    case True
    then show ?thesis using idem_step(1) [OF inv] inv by simp
  next
    case False
    then obtain kept where kept: "check_and_record now k s = (True, s\<lparr>idem_entries := AList.update k now kept\<rparr>)"
        "set kept \<subseteq> set (idem_entries s)" "distinct (map fst kept)" "Suc (length kept) \<le> max 1 m"
      using idem_step(2) [OF inv] by blast
    have "length (AList.update k now kept) \<le> max 1 m" using kept(4) by (rule le_trans [OF length_update_le])
    moreover have "snd e \<le> now" if "e \<in> set (AList.update k now kept)" for e
    proof -
      have "e = (k, now) \<or> e \<in> set (idem_entries s)"
        using that kept(2) set_update_subset [of k now kept] by blast
      then show ?thesis using inv by (auto simp: idem_inv_def)
    qed
    moreover have "distinct (map fst (AList.update k now kept))" using kept(3) by (rule distinct_update)
    ultimately show ?thesis using kept(1) inv by (simp add: idem_inv_def)
  qed
  fix t assume "now \<le> t"
  show "fst (check_and_record now k s) \<Longrightarrow> t - now < T \<Longrightarrow> idem_seen t k (snd (check_and_record now k s))"
    using idem_step [OF inv, of k] inv by (cases "idem_seen now k s") (auto simp: idem_seen_def idem_inv_def update_conv')
  fix j assume seen: "idem_seen t j (snd (check_and_record now k s))"
  show "idem_seen t j s \<or> j = k \<and> fst (check_and_record now k s) \<and> t - now < T"
  proof (cases "idem_seen now k s")
    case True
    then show ?thesis using idem_step(1) [OF inv] seen by simp
  next
    case False
    then obtain kept where kept: "check_and_record now k s = (True, s\<lparr>idem_entries := AList.update k now kept\<rparr>)"
        "set kept \<subseteq> set (idem_entries s)"
      using idem_step(2) [OF inv] by blast
    have "map_of kept j = Some u \<Longrightarrow> map_of (idem_entries s) j = Some u" for u
      using map_of_subset [OF _ kept(2)] inv by (simp add: idem_inv_def)
    then have "j \<noteq> k \<Longrightarrow> idem_seen t j s"
      using seen kept(1) by (simp add: idem_seen_def update_conv' split: option.splits)
    moreover have "j = k \<Longrightarrow> t - now < T"
      using seen kept(1) inv by (simp add: idem_seen_def idem_inv_def update_conv')
    ultimately show ?thesis using kept(1) by auto
  qed
qed

definition dd_inv :: "int \<Rightarrow> nat \<Rightarrow> int \<Rightarrow> deduplicator \<Rightarrow> bool" where
  "dd_inv T m now d \<longleftrightarrow>
     dd_ttl_secs d = T \<and> dd_max_entries d = m \<and> sorted (map snd (dd_seen d))
     \<and> length (dd_seen d) \<le> max 1 m \<and> (\<forall>e \<in> set (dd_seen d). snd e \<le> now)"

definition dd_holds :: "int \<Rightarrow> string \<Rightarrow> deduplicator \<Rightarrow> bool" where
  "dd_holds now k d \<longleftrightarrow> (\<exists>u. (k, u) \<in> set (dd_seen d) \<and> now - u < 1000 * dd_ttl_secs d)"

lemma dd_expired_iff: "dd_expired T now e \<longleftrightarrow> 1000 * T \<le> now - snd e"
  unfolding dd_expired_def by linarith

lemma prune_is_filter:
  "sorted (map snd es) \<Longrightarrow> dropWhile (dd_expired T now) es = filter (\<lambda>e. \<not> dd_expired T now e) es"
proof (induction es)
  case (Cons e es)
  have "\<not> dd_expired T now e \<Longrightarrow> x \<in> set es \<Longrightarrow> \<not> dd_expired T now x" for x
    using Cons.prems by (auto simp: dd_expired_iff)
  then have "\<not> dd_expired T now e \<Longrightarrow> filter (\<lambda>e. \<not> dd_expired T now e) es = es"
    by (simp add: filter_id_conv)
  then show ?case using Cons by auto
qed simp

lemma sorted_map_filter_tl: "sorted (map f es) \<Longrightarrow> sorted (map f (filter P es)) \<and> sorted (map f (tl (filter P es)))"
  using sorted_filter [of f es P] by (metis map_tl sorted_tl)

lemma is_new_step:
  assumes "dd_inv T m now d"
  defines "live \<equiv> filter (\<lambda>e. \<not> dd_expired T now e) (dd_seen d)"
  shows "dd_holds now k d \<Longrightarrow> is_new now k d = (False, d\<lparr>dd_seen := live\<rparr>)"
    "\<not> dd_holds now k d \<Longrightarrow> is_new now k d =
       (True, d\<lparr>dd_seen := (if m \<le> length live then tl live else live) @ [(k, now)]\<rparr>)"
proof -
  have "dropWhile (dd_expired (dd_ttl_secs d) now) (dd_seen d) = live"
    using assms prune_is_filter by (auto simp: dd_inv_def)
  moreover have "k \<in> fst ` set live \<longleftrightarrow> dd_holds now k d"
    using assms by (force simp: dd_holds_def dd_inv_def dd_expired_iff)
  ultimately show "dd_holds now k d \<Longrightarrow> is_new now k d = (False, d\<lparr>dd_seen := live\<rparr>)"
    "\<not> dd_holds now k d \<Longrightarrow> is_new now k d =
       (True, d\<lparr>dd_seen := (if m \<le> length live then tl live else live) @ [(k, now)]\<rparr>)"
    using assms(1) by (simp_all add: is_new_def dd_inv_def)
qed

lemma tl_subset: "set (tl xs) \<subseteq> set xs"
  by (cases xs) auto

interpretation bridge: dedup "dd_inv T m" dd_holds is_new "\<lambda>d. length (dd_seen d)" "1000 * T" "max 1 m"
  for T m
proof
  fix t t' :: int and d
  show "dd_inv T m t d \<Longrightarrow> t \<le> t' \<Longrightarrow> dd_inv T m t' d" by (fastforce simp: dd_inv_def)
  show "dd_inv T m t d \<Longrightarrow> length (dd_seen d) \<le> max 1 m" by (simp add: dd_inv_def)
next
  fix now d k assume inv: "dd_inv T m now d"
  let ?live = "filter (\<lambda>e. \<not> dd_expired T now e) (dd_seen d)"
  let ?kept = "if m \<le> length ?live then tl ?live else ?live"
  note step = is_new_step [OF inv, of k]
  have sub: "set ?kept \<subseteq> set (dd_seen d)" using tl_subset [of ?live] by auto
  show "fst (is_new now k d) = (\<not> dd_holds now k d)" using step by auto
  have "length (dd_seen d) \<le> max 1 m" using inv by (simp add: dd_inv_def)
  then have len: "length ?live \<le> max 1 m" by (rule le_trans [OF length_filter_le])
  have "dd_inv T m now (d\<lparr>dd_seen := ?live\<rparr>)"
    using inv len sorted_map_filter_tl by (auto simp: dd_inv_def)
  moreover have "dd_inv T m now (d\<lparr>dd_seen := ?kept @ [(k, now)]\<rparr>)"
  proof -
    have "sorted (map snd ?kept)" using inv sorted_map_filter_tl by (auto simp: dd_inv_def)
    moreover have "length (?kept @ [(k, now)]) \<le> max 1 m" using len by auto
    moreover have "\<forall>e \<in> set ?kept. snd e \<le> now" using sub inv unfolding dd_inv_def by blast
    ultimately show ?thesis using inv by (simp add: dd_inv_def sorted_append)
  qed
  ultimately show "dd_inv T m now (snd (is_new now k d))" using step by (cases "dd_holds now k d") auto
  fix t assume "now \<le> t"
  show "fst (is_new now k d) \<Longrightarrow> t - now < 1000 * T \<Longrightarrow> dd_holds t k (snd (is_new now k d))"
    using step inv by (cases "dd_holds now k d") (auto simp: dd_holds_def dd_inv_def)
  fix j assume holds: "dd_holds t j (snd (is_new now k d))"
  show "dd_holds t j d \<or> j = k \<and> fst (is_new now k d) \<and> t - now < 1000 * T"
    using holds step sub inv by (cases "dd_holds now k d") (auto simp: dd_holds_def dd_inv_def split: if_splits)
qed

lemmas idem_init = idem_inv_def idem_seen_def idempotency_store_new_def
lemmas bridge_init = dd_inv_def dd_holds_def deduplicator_new_def

section \<open>Properties\<close>

text \<open>
  No webhook is lost to the idempotency store: in every run from a fresh store, whatever the
  capacity evictions, a message is skipped as a duplicate only if the same key was accepted
  less than the time to live before; the store never holds more than its capacity; and a
  replay directly after an acceptance within the time to live is always skipped.
\<close>

theorem idempotency_exact:
  assumes "sorted (map fst es @ [now, later])"
    and "run_checks check_and_record es (idempotency_store_new T m) = (log, st)"
  shows "(\<not> fst (check_and_record now k st) \<longrightarrow> (\<exists>t. (t, k, True) \<in> set log \<and> t \<le> now \<and> now - t < T))
    \<and> length (idem_entries (snd (check_and_record now k st))) \<le> max 1 m
    \<and> (fst (check_and_record now k st) \<and> later - now < T \<longrightarrow>
        \<not> fst (check_and_record later k (snd (check_and_record now k st))))"
  by (rule idem.contract [OF _ _ assms]) (simp_all add: idem_init)

theorem idempotency_exact_witness:
  "\<exists>log st. run_checks check_and_record [(0, ''a''), (10, ''b''), (20, ''c'')] (idempotency_store_new 300 2) = (log, st)
     \<and> fst (check_and_record 30 ''a'' st) \<and> \<not> fst (check_and_record 40 ''a'' (snd (check_and_record 30 ''a'' st)))
     \<and> length (idem_entries (snd (check_and_record 30 ''a'' st))) \<le> 2"
proof -
  let ?es = "[(0, ''a''), (10, ''b''), (20, ''c'')] :: (int \<times> string) list"
  let ?log = "[(0, ''a'', True), (10, ''b'', True), (20, ''c'', True)] :: (int \<times> string \<times> bool) list"
  let ?st = "\<lparr>idem_entries = [(''b'', 10), (''c'', 20)], idem_ttl = 300, idem_max_entries = 2\<rparr>"
  have run: "run_checks check_and_record ?es (idempotency_store_new 300 2) = (?log, ?st)" by code_simp
  have a: "fst (check_and_record 30 ''a'' ?st)" by code_simp
  from idempotency_exact [OF _ run, of 30 40 "''a''"] a run show ?thesis by auto
qed

text \<open>
  The bridge's deduplicator keeps the same promise with its time to live in whole seconds: an
  event is dropped only if the same event was accepted less than that time before, the set of
  remembered events stays within its capacity, and an immediate replay is dropped.
\<close>

theorem deduplicator_exact:
  assumes "sorted (map fst es @ [now, later])"
    and "run_checks is_new es (deduplicator_new m T) = (log, d)"
  shows "(\<not> fst (is_new now k d) \<longrightarrow> (\<exists>t. (t, k, True) \<in> set log \<and> t \<le> now \<and> now - t < 1000 * T))
    \<and> length (dd_seen (snd (is_new now k d))) \<le> max 1 m
    \<and> (fst (is_new now k d) \<and> later - now < 1000 * T \<longrightarrow>
        \<not> fst (is_new later k (snd (is_new now k d))))"
  by (rule bridge.contract [OF _ _ assms]) (simp_all add: bridge_init)

theorem deduplicator_exact_witness:
  "\<exists>log d. run_checks is_new [(0, ''a''), (10, ''b''), (20, ''c'')] (deduplicator_new 2 1) = (log, d)
     \<and> fst (is_new 30 ''a'' d) \<and> \<not> fst (is_new 1029 ''a'' (snd (is_new 30 ''a'' d)))"
proof -
  let ?es = "[(0, ''a''), (10, ''b''), (20, ''c'')] :: (int \<times> string) list"
  let ?log = "[(0, ''a'', True), (10, ''b'', True), (20, ''c'', True)] :: (int \<times> string \<times> bool) list"
  let ?d = "\<lparr>dd_seen = [(''b'', 10), (''c'', 20)], dd_max_entries = 2, dd_ttl_secs = 1\<rparr>"
  have run: "run_checks is_new ?es (deduplicator_new 2 1) = (?log, ?d)" by code_simp
  have a: "fst (is_new 30 ''a'' ?d)" by code_simp
  from deduplicator_exact [OF _ run, of 30 1029 "''a''"] a run show ?thesis by auto
qed

end
