(* ===== verification/Gateway.thy ===== *)
theory Gateway
  imports Zepto_Prelude
begin

text \<open>
  Gateway protection: the sliding-window rate limiter (\<open>src/src/gateway/rate_limit.rs\<close>) and the
  crash guard (\<open>src/src/gateway/startup_guard.rs\<close>). Instants are integers in milliseconds; an
  address is any key. Each operation holds the code's lock and is one step; the code reads the clock just
  before it takes the lock, so the times of racing requests may be a little out of order there, which sorted
  times leave out. The crash guard's
  state is the persisted record; reading and writing the file is left out.
\<close>

section \<open>The rate limiter\<close>

record 'ip rate_limiter =
  rl_limit :: nat
  rl_window :: int
  rl_entries :: "'ip \<rightharpoonup> int list"

definition rate_limiter_new :: "nat \<Rightarrow> int \<Rightarrow> 'ip rate_limiter" where
  "rate_limiter_new limit window = \<lparr>rl_limit = limit, rl_window = window, rl_entries = Map.empty\<rparr>"

definition rl_check :: "int \<Rightarrow> 'ip \<Rightarrow> 'ip rate_limiter \<Rightarrow> bool \<times> 'ip rate_limiter" where
  "rl_check now ip r =
     (if rl_limit r = 0 then (True, r)
      else
        let cutoff = now - rl_window r;
            timestamps = (case rl_entries r ip of Some ts \<Rightarrow> ts | None \<Rightarrow> []);
            timestamps = dropWhile (\<lambda>t. t \<le> cutoff) timestamps
        in if rl_limit r \<le> length timestamps
           then (False, r\<lparr>rl_entries := (rl_entries r)(ip \<mapsto> timestamps)\<rparr>)
           else (True, r\<lparr>rl_entries := (rl_entries r)(ip \<mapsto> timestamps @ [now])\<rparr>))"

definition rl_sweep :: "int \<Rightarrow> 'ip rate_limiter \<Rightarrow> 'ip rate_limiter" where
  "rl_sweep now r =
     (let cutoff = now - rl_window r
      in r\<lparr>rl_entries := (\<lambda>ip.
           case rl_entries r ip of
             None \<Rightarrow> None
           | Some ts \<Rightarrow> (let ts' = dropWhile (\<lambda>t. t \<le> cutoff) ts in if ts' = [] then None else Some ts'))\<rparr>)"

record 'ip gateway_rate_limiter =
  pair_limiter :: "'ip rate_limiter"
  webhook_limiter :: "'ip rate_limiter"

definition gateway_rate_limiter_new :: "nat \<Rightarrow> nat \<Rightarrow> int \<Rightarrow> 'ip gateway_rate_limiter" where
  "gateway_rate_limiter_new pair_per_min webhook_per_min window =
     \<lparr>pair_limiter = rate_limiter_new pair_per_min window, webhook_limiter = rate_limiter_new webhook_per_min window\<rparr>"

definition check_pair :: "int \<Rightarrow> 'ip \<Rightarrow> 'ip gateway_rate_limiter \<Rightarrow> bool \<times> 'ip gateway_rate_limiter" where
  "check_pair now ip g = (let (b, r) = rl_check now ip (pair_limiter g) in (b, g\<lparr>pair_limiter := r\<rparr>))"

definition check_webhook :: "int \<Rightarrow> 'ip \<Rightarrow> 'ip gateway_rate_limiter \<Rightarrow> bool \<times> 'ip gateway_rate_limiter" where
  "check_webhook now ip g = (let (b, r) = rl_check now ip (webhook_limiter g) in (b, g\<lparr>webhook_limiter := r\<rparr>))"

definition gateway_sweep :: "int \<Rightarrow> 'ip gateway_rate_limiter \<Rightarrow> 'ip gateway_rate_limiter" where
  "gateway_sweep now g =
     g\<lparr>pair_limiter := rl_sweep now (pair_limiter g), webhook_limiter := rl_sweep now (webhook_limiter g)\<rparr>"

section \<open>Runs of the limiter and their specification\<close>

datatype 'ip rl_event = Request 'ip | Sweep

text \<open>The accepted requests of a run, in order, as pairs of address and time.\<close>

fun rl_run :: "(int \<times> 'ip rl_event) list \<Rightarrow> 'ip rate_limiter \<Rightarrow> ('ip \<times> int) list" where
  "rl_run [] r = []"
| "rl_run ((now, Sweep) # es) r = rl_run es (rl_sweep now r)"
| "rl_run ((now, Request ip) # es) r =
     (let (b, r') = rl_check now ip r in (if b then [(ip, now)] else []) @ rl_run es r')"

text \<open>
  The specification needs no windows to keep: a request is accepted if fewer than the limit of
  the same address were accepted in the window that ends now.
\<close>

definition recent :: "int \<Rightarrow> int \<Rightarrow> 'ip \<Rightarrow> ('ip \<times> int) list \<Rightarrow> int list" where
  "recent window now ip log = filter (\<lambda>t. now - window < t \<and> t \<le> now) (map snd (filter (\<lambda>(i, _). i = ip) log))"

fun spec_run :: "nat \<Rightarrow> int \<Rightarrow> (int \<times> 'ip rl_event) list \<Rightarrow> ('ip \<times> int) list \<Rightarrow> ('ip \<times> int) list" where
  "spec_run limit window [] log = log"
| "spec_run limit window ((now, Sweep) # es) log = spec_run limit window es log"
| "spec_run limit window ((now, Request ip) # es) log =
     spec_run limit window es
       (if limit = 0 \<or> length (recent window now ip log) < limit then log @ [(ip, now)] else log)"

text \<open>
  The window kept for an address is what is left of its accepted requests after some cutoff
  that has already passed.
\<close>

definition times_of :: "'ip \<Rightarrow> ('ip \<times> int) list \<Rightarrow> int list" where
  "times_of ip log = map snd (filter (\<lambda>(i, _). i = ip) log)"

definition rl_window_ok :: "int \<Rightarrow> 'ip rate_limiter \<Rightarrow> ('ip \<times> int) list \<Rightarrow> bool" where
  "rl_window_ok now r log \<longleftrightarrow>
     sorted (map snd log) \<and> (\<forall>e \<in> set log. snd e \<le> now)
     \<and> (\<forall>ip. \<exists>c \<le> now - rl_window r.
          (case rl_entries r ip of Some ts \<Rightarrow> ts | None \<Rightarrow> []) = filter (\<lambda>t. c < t) (times_of ip log))"

lemma times_of_simps [simp]:
  "times_of ip [] = []"
  "times_of ip (log @ [(j, t)]) = times_of ip log @ (if j = ip then [t] else [])"
  by (simp_all add: times_of_def)

lemma times_of_sorted: "sorted (map snd log) \<Longrightarrow> sorted (times_of ip log)"
  by (simp add: times_of_def sorted_filter)

lemma times_of_bound: "\<forall>e \<in> set log. snd e \<le> now \<Longrightarrow> t \<in> set (times_of ip log) \<Longrightarrow> t \<le> now"
  by (auto simp: times_of_def)

lemma recent_times:
  assumes "\<forall>e \<in> set log. snd e \<le> now"
  shows "recent w now ip log = filter (\<lambda>t. now - w < t) (times_of ip log)"
proof -
  have "t \<le> now" if "t \<in> set (times_of ip log)" for t using times_of_bound [OF assms that] .
  then show ?thesis by (auto simp: recent_def times_of_def intro: filter_cong)
qed

lemma drop_le_filter: "sorted ts \<Longrightarrow> dropWhile (\<lambda>t. t \<le> (c::int)) ts = filter (\<lambda>t. c < t) ts"
proof (induction ts)
  case (Cons t ts)
  have "c < t \<Longrightarrow> filter (\<lambda>t. c < t) ts = ts" using Cons.prems by (intro filter_True) auto
  then show ?case using Cons by auto
qed simp

lemma drop_window:
  assumes "sorted ts" "c \<le> (d::int)"
  shows "dropWhile (\<lambda>t. t \<le> d) (filter (\<lambda>t. c < t) ts) = filter (\<lambda>t. d < t) ts"
proof -
  have "dropWhile (\<lambda>t. t \<le> d) (filter (\<lambda>t. c < t) ts) = filter (\<lambda>t. d < t) (filter (\<lambda>t. c < t) ts)"
    using sorted_wrt_filter [OF assms(1)] by (rule drop_le_filter)
  also have "\<dots> = filter (\<lambda>t. d < t) ts" using assms(2) by (auto intro: filter_cong)
  finally show ?thesis .
qed

lemma window_after_drop:
  assumes "rl_window_ok t r log" "t \<le> now"
  shows "dropWhile (\<lambda>t. t \<le> now - rl_window r) (case rl_entries r ip of Some ts \<Rightarrow> ts | None \<Rightarrow> [])
    = filter (\<lambda>t. now - rl_window r < t) (times_of ip log)"
proof -
  obtain c where c: "c \<le> t - rl_window r"
      "(case rl_entries r ip of Some ts \<Rightarrow> ts | None \<Rightarrow> []) = filter (\<lambda>t. c < t) (times_of ip log)"
    using assms(1) by (auto simp: rl_window_ok_def)
  moreover have "sorted (times_of ip log)" using assms(1) times_of_sorted by (auto simp: rl_window_ok_def)
  ultimately show ?thesis using drop_window [of "times_of ip log" c "now - rl_window r"] assms(2) by simp
qed

lemma window_ok_upd:
  assumes "rl_window_ok t r log" "t \<le> now" "sorted (map snd log')" "\<forall>e \<in> set log'. snd e \<le> now"
    and "rl_window r' = rl_window r"
    and "\<And>j. \<exists>c \<le> now - rl_window r.
      (case rl_entries r' j of Some ts \<Rightarrow> ts | None \<Rightarrow> []) = filter (\<lambda>t. c < t) (times_of j log')"
  shows "rl_window_ok now r' log'"
  using assms by (simp add: rl_window_ok_def)

lemma window_other:
  assumes "rl_window_ok t r log" "t \<le> now"
  shows "\<exists>c \<le> now - rl_window r.
    (case rl_entries r j of Some ts \<Rightarrow> ts | None \<Rightarrow> []) = filter (\<lambda>t. c < t) (times_of j log)"
proof -
  obtain c where "c \<le> t - rl_window r"
      "(case rl_entries r j of Some ts \<Rightarrow> ts | None \<Rightarrow> []) = filter (\<lambda>t. c < t) (times_of j log)"
    using assms(1) unfolding rl_window_ok_def by blast
  then show ?thesis using assms(2) by (intro exI [of _ c]) simp
qed

lemma window_log: "rl_window_ok t r log \<Longrightarrow> t \<le> now \<Longrightarrow> sorted (map snd log) \<and> (\<forall>e \<in> set log. snd e \<le> now)"
  by (auto simp: rl_window_ok_def intro: order_trans)

lemma sweep_ok:
  assumes "rl_window_ok t r log" "t \<le> now"
  shows "rl_window_ok now (rl_sweep now r) log"
proof (rule window_ok_upd [OF assms])
  show "sorted (map snd log)" "\<forall>e \<in> set log. snd e \<le> now" using window_log [OF assms] by auto
  show "rl_window (rl_sweep now r) = rl_window r" by (simp add: rl_sweep_def Let_def)
  fix j
  have "(case rl_entries (rl_sweep now r) j of Some ts \<Rightarrow> ts | None \<Rightarrow> [])
      = dropWhile (\<lambda>t. t \<le> now - rl_window r) (case rl_entries r j of Some ts \<Rightarrow> ts | None \<Rightarrow> [])"
    by (cases "rl_entries r j") (auto simp: rl_sweep_def Let_def eq_commute [of "[]"])
  then show "\<exists>c \<le> now - rl_window r.
      (case rl_entries (rl_sweep now r) j of Some ts \<Rightarrow> ts | None \<Rightarrow> []) = filter (\<lambda>t. c < t) (times_of j log)"
    using window_after_drop [OF assms] by (intro exI [of _ "now - rl_window r"]) simp
qed

lemma check_ok:
  fixes ip
  assumes "rl_window_ok t r log" "t \<le> now" "0 < rl_limit r" "0 < rl_window r"
  defines "log' \<equiv> (if length (recent (rl_window r) now ip log) < rl_limit r then log @ [(ip, now)] else log)"
  shows "fst (rl_check now ip r) \<longleftrightarrow> length (recent (rl_window r) now ip log) < rl_limit r"
    and "rl_window_ok now (snd (rl_check now ip r)) log'"
proof -
  let ?ts = "filter (\<lambda>t. now - rl_window r < t) (times_of ip log)"
  have log: "sorted (map snd log)" "\<forall>e \<in> set log. snd e \<le> now" using window_log [OF assms(1,2)] by auto
  have rec: "recent (rl_window r) now ip log = ?ts" by (rule recent_times [OF log(2)])
  have chk: "rl_check now ip r =
      (if rl_limit r \<le> length ?ts then (False, r\<lparr>rl_entries := (rl_entries r)(ip \<mapsto> ?ts)\<rparr>)
       else (True, r\<lparr>rl_entries := (rl_entries r)(ip \<mapsto> ?ts @ [now])\<rparr>))"
    using assms(3) by (simp add: rl_check_def Let_def window_after_drop [OF assms(1,2)])
  show "fst (rl_check now ip r) \<longleftrightarrow> length (recent (rl_window r) now ip log) < rl_limit r"
    by (simp add: chk rec)
  show "rl_window_ok now (snd (rl_check now ip r)) log'"
  proof (rule window_ok_upd [OF assms(1,2)])
    show "sorted (map snd log')" "\<forall>e \<in> set log'. snd e \<le> now"
      using log by (auto simp: log'_def sorted_append)
    show "rl_window (snd (rl_check now ip r)) = rl_window r" by (simp add: chk)
    fix j
    show "\<exists>c \<le> now - rl_window r. (case rl_entries (snd (rl_check now ip r)) j of Some ts \<Rightarrow> ts | None \<Rightarrow> [])
        = filter (\<lambda>t. c < t) (times_of j log')"
    proof (cases "j = ip")
      case True
      then show ?thesis using assms(4)
        by (intro exI [of _ "now - rl_window r"]) (simp add: chk log'_def rec)
    next
      case False
      then show ?thesis using window_other [OF assms(1,2), of j] by (simp add: chk log'_def)
    qed
  qed
qed

lemma rl_frame [simp]:
  "rl_limit (snd (rl_check now ip r)) = rl_limit r" "rl_window (snd (rl_check now ip r)) = rl_window r"
  "rl_limit (rl_sweep now r) = rl_limit r" "rl_window (rl_sweep now r) = rl_window r"
  by (simp_all add: rl_check_def rl_sweep_def Let_def)

lemma rl_run_request [simp]:
  "rl_run ((now, Request ip) # es) r =
     (if fst (rl_check now ip r) then [(ip, now)] else []) @ rl_run es (snd (rl_check now ip r))"
  by (simp split: prod.split)

declare rl_run.simps(3) [simp del]

lemma run_refines:
  assumes "rl_window_ok t r log" "sorted (t # map fst es)" "0 < rl_limit r" "0 < rl_window r"
  shows "log @ rl_run es r = spec_run (rl_limit r) (rl_window r) es log"
  using assms
proof (induction es arbitrary: t r log)
  case (Cons e es)
  obtain now ev where e: "e = (now, ev)" by (cases e)
  have le: "t \<le> now" and rest: "sorted (now # map fst es)" using Cons.prems(2) e by auto
  show ?case
  proof (cases ev)
    case Sweep
    then show ?thesis using Cons.IH [OF sweep_ok [OF Cons.prems(1) le] rest] Cons.prems(3,4) e by simp
  next
    case (Request ip)
    note c = check_ok [OF Cons.prems(1) le Cons.prems(3,4), of ip]
    show ?thesis using Cons.IH [OF c(2) rest] c(1) Cons.prems(3,4) e Request by auto
  qed
qed simp

lemma run_unlimited:
  "rl_limit r = 0 \<Longrightarrow> log @ rl_run es r = spec_run 0 w es log"
proof (induction es arbitrary: r log)
  case (Cons e es)
  obtain now ev where e: "e = (now, ev)" by (cases e)
  show ?case
  proof (cases ev)
    case (Request ip)
    then show ?thesis using Cons.IH [OF Cons.prems, of "log @ [(ip, now)]"] Cons.prems e by (simp add: rl_check_def)
  next
    case Sweep
    then show ?thesis using Cons.IH [of "rl_sweep now r" log] Cons.prems e by simp
  qed
qed simp

lemma window_ok_new: "rl_window_ok t (rate_limiter_new limit window) []"
  by (auto simp: rl_window_ok_def rate_limiter_new_def)

text \<open>The specification never lets more than the limit through in any window.\<close>

lemma spec_bound:
  assumes "0 < limit" "\<forall>e \<in> set log. snd e \<le> t" "sorted (t # map fst es)"
    and "\<And>u. length (recent w u ip log) \<le> limit"
  shows "length (recent w u ip (spec_run limit w es log)) \<le> limit"
  using assms(2-4)
proof (induction es arbitrary: t log)
  case (Cons e es)
  obtain now ev where e: "e = (now, ev)" by (cases e)
  have le: "t \<le> now" and rest: "sorted (now # map fst es)" using Cons.prems(2) e by auto
  have old: "\<forall>e \<in> set log. snd e \<le> now" using Cons.prems(1) le by force
  show ?case
  proof (cases ev)
    case Sweep
    then show ?thesis using Cons.IH [OF old rest Cons.prems(3)] e by simp
  next
    case (Request j)
    let ?log = "if limit = 0 \<or> length (recent w now j log) < limit then log @ [(j, now)] else log"
    have "length (recent w v ip ?log) \<le> limit" for v
    proof (cases "j = ip \<and> now \<le> v \<and> length (recent w now j log) < limit")
      case True
      have "recent w v ip log = filter (\<lambda>s. v - w < s) (recent w now ip log)"
        using True old by (auto simp: recent_def intro!: filter_cong)
      then have "length (recent w v ip log) \<le> length (recent w now ip log)"
        by simp
      then show ?thesis using True assms(1) by (auto simp: recent_def)
    next
      case False
      then show ?thesis using Cons.prems(3) [of v] assms(1) by (auto simp: recent_def)
    qed
    moreover have "\<forall>e \<in> set ?log. snd e \<le> now" using old by auto
    ultimately show ?thesis using Cons.IH [OF _ rest] e Request by simp
  qed
qed simp

section \<open>The crash guard\<close>

record crash_state =
  consecutive_crashes :: nat
  last_crash_ts :: nat
  total_crashes :: nat

definition crash_state_default :: crash_state where
  "crash_state_default = \<lparr>consecutive_crashes = 0, last_crash_ts = 0, total_crashes = 0\<rparr>"

record startup_guard =
  sg_threshold :: nat
  sg_window_secs :: nat

definition guard_check :: "startup_guard \<Rightarrow> nat \<Rightarrow> crash_state \<Rightarrow> bool" where
  "guard_check g now st =
     (if sg_threshold g = 0 then False
      else if consecutive_crashes st < sg_threshold g then False
      else \<not> (sg_window_secs g < now - last_crash_ts st))"

definition record_crash :: "startup_guard \<Rightarrow> nat \<Rightarrow> crash_state \<Rightarrow> crash_state" where
  "record_crash g now st =
     (let st = (if 0 < last_crash_ts st \<and> sg_window_secs g < now - last_crash_ts st
                then st\<lparr>consecutive_crashes := 0\<rparr> else st)
      in st\<lparr>consecutive_crashes := wrap32 (consecutive_crashes st + 1),
           total_crashes := wrap32 (total_crashes st + 1), last_crash_ts := now\<rparr>)"

definition record_clean_start :: "crash_state \<Rightarrow> crash_state" where
  "record_clean_start st = st\<lparr>consecutive_crashes := 0, last_crash_ts := 0\<rparr>"

text \<open>The length of the last run of crashes with no gap longer than the window.\<close>

fun burst :: "nat \<Rightarrow> nat list \<Rightarrow> nat" where
  "burst w [] = 0"
| "burst w [t] = 1"
| "burst w (t # u # ts) = (if w < t - u then 1 else Suc (burst w (u # ts)))"

lemma burst_le: "burst w ts \<le> length ts"
  by (induction w ts rule: burst.induct) auto

text \<open>Crashes after a clean start, newest first.\<close>

definition after_crashes :: "startup_guard \<Rightarrow> nat list \<Rightarrow> crash_state \<Rightarrow> crash_state" where
  "after_crashes g ts st = foldr (record_crash g) ts (record_clean_start st)"

lemma after_crashes_simps:
  "after_crashes g [] st = record_clean_start st"
  "after_crashes g (t # ts) st = record_crash g t (after_crashes g ts st)"
  by (simp_all add: after_crashes_def)

lemma after_crashes_last: "last_crash_ts (after_crashes g ts st) = (case ts of [] \<Rightarrow> 0 | t # _ \<Rightarrow> t)"
  by (cases ts) (simp_all add: after_crashes_simps record_clean_start_def record_crash_def Let_def)

lemma after_crashes_burst:
  "\<forall>t \<in> set ts. 0 < t \<Longrightarrow> length ts \<le> u32_max \<Longrightarrow>
     consecutive_crashes (after_crashes g ts st) = burst (sg_window_secs g) ts"
proof (induction "sg_window_secs g" ts rule: burst.induct)
  case 1
  then show ?case by (simp add: after_crashes_simps record_clean_start_def)
next
  case (2 t)
  then show ?case by (simp add: after_crashes_simps record_clean_start_def record_crash_def)
next
  case (3 t u ts)
  let ?s = "after_crashes g (u # ts) st"
  have IH: "consecutive_crashes ?s = burst (sg_window_secs g) (u # ts)" if "\<not> sg_window_secs g < t - u"
    using 3 that by simp
  have "Suc (burst (sg_window_secs g) (u # ts)) \<le> u32_max"
    using burst_le [of "sg_window_secs g" "u # ts"] "3.prems"(2) by simp
  then have "wrap32 (Suc (burst (sg_window_secs g) (u # ts))) = Suc (burst (sg_window_secs g) (u # ts))"
    by (rule wrap32_id)
  moreover have "last_crash_ts ?s = u" "0 < u" using "3.prems"(1) by (simp_all add: after_crashes_last)
  moreover have "after_crashes g (t # u # ts) st = record_crash g t ?s" by (rule after_crashes_simps)
  ultimately show ?case using IH by (auto simp: record_crash_def Let_def)
qed

section \<open>Properties\<close>

text \<open>
  C37. The rate limiter accepts exactly the requests its specification accepts, for any mix of
  addresses, requests and sweeps at non-decreasing times: a request passes iff fewer than the
  limit of the same address passed in the window ending now, a limit of zero passes all, and
  sweeping never changes a verdict. (The code reads the clock before it takes its lock, so
  that the times of racing requests do not decrease is an idealisation.)
\<close>

theorem rate_limiter_refines:
  assumes "sorted (map fst es)" "0 < window"
  shows "rl_run es (rate_limiter_new limit window) = spec_run limit window es []"
proof (cases "limit = 0 \<or> es = []")
  case True
  then show ?thesis using run_unlimited [of "rate_limiter_new limit window" "[]" es window]
    by (auto simp: rate_limiter_new_def)
next
  case False
  have "sorted (fst (hd es) # map fst es)" using assms(1) by (cases es) auto
  from run_refines [OF window_ok_new this, of limit window] False assms(2) show ?thesis
    by (simp add: rate_limiter_new_def)
qed

theorem rate_limiter_refines_witness:
  "rl_run [(0, Request 7), (10, Request 7), (20, Request 7), (65, Sweep), (70, Request (7::nat))] (rate_limiter_new 2 60)
     = spec_run 2 60 [(0, Request 7), (10, Request 7), (20, Request 7), (65, Sweep), (70, Request 7)] []"
  by (rule rate_limiter_refines) simp_all

text \<open>
  No address gets more than its limit through in any window, wherever the window is placed:
  among the requests the limiter accepted, every half-open window of the configured length
  holds at most the limit of one address.
\<close>

theorem rate_limiter_bound:
  assumes "sorted (map fst es)" "0 < window" "0 < limit"
  shows "length (recent window u ip (rl_run es (rate_limiter_new limit window))) \<le> limit"
proof -
  have "sorted ((case es of [] \<Rightarrow> 0 | e # _ \<Rightarrow> fst e) # map fst es)" using assms(1) by (cases es) auto
  from run_refines [OF window_ok_new this, of limit window] assms
  have "rl_run es (rate_limiter_new limit window) = spec_run limit window es []"
    by (simp add: rate_limiter_new_def)
  moreover have "length (recent window u ip (spec_run limit window es [])) \<le> limit"
    by (rule spec_bound [OF assms(3) _ \<open>sorted (_ # map fst es)\<close>]) (simp_all add: recent_def)
  ultimately show ?thesis by simp
qed

theorem rate_limiter_bound_witness:
  "length (recent 60 60 7 (rl_run [(0, Request 7), (10, Request 7), (20, Request (7::nat))] (rate_limiter_new 2 60))) \<le> 2"
  by (rule rate_limiter_bound) simp_all

text \<open>
  Degraded mode starts exactly after a burst: after a clean start and crashes at the seconds
  \<open>ts\<close> (newest first), the guard reports degraded mode iff the last run of crashes without a gap
  longer than the window has reached the threshold and the newest of them is within the window.
\<close>

theorem degraded_iff_burst:
  assumes "\<forall>t \<in> set ts. 0 < t" "length ts \<le> u32_max" "0 < sg_threshold g"
  shows "guard_check g now (after_crashes g ts st) \<longleftrightarrow>
    sg_threshold g \<le> burst (sg_window_secs g) ts \<and> now - hd ts \<le> sg_window_secs g"
  using after_crashes_burst [OF assms(1,2), of g st] after_crashes_last [of g ts st] assms(3)
  by (cases ts) (auto simp: guard_check_def)

theorem degraded_iff_burst_witness:
  "guard_check \<lparr>sg_threshold = 3, sg_window_secs = 300\<rparr> 1200
     (after_crashes \<lparr>sg_threshold = 3, sg_window_secs = 300\<rparr> [1100, 1000, 900, 100] crash_state_default)"
proof -
  have "\<forall>t \<in> set [1100, 1000, 900, 100 :: nat]. 0 < t" "length [1100, 1000, 900, 100 :: nat] \<le> u32_max"
    by (simp_all add: u32_max_def)
  from degraded_iff_burst [OF this, of "\<lparr>sg_threshold = 3, sg_window_secs = 300\<rparr>" 1200 crash_state_default]
  show ?thesis by simp
qed

end
