(* ===== verification/Response_Cache.thy ===== *)
theory Response_Cache
  imports Zepto_Prelude
begin

text \<open>
  The response cache, \<open>src/src/cache/response_cache.rs\<close>: the key's length-prefixed encoding,
  lookup with expiry, insertion with expiry and eviction of the least recently used entries,
  and statistics. The digest (SHA-256, then hexadecimal) is the parameter \<open>digest\<close>; the JSON file
  is left out. Times are seconds since the epoch.
\<close>

section \<open>Keys\<close>

definition le_bytes :: "nat \<Rightarrow> string" where
  "le_bytes n = map (\<lambda>i. char_of (n div 256 ^ i mod 256)) [0..<8]"

definition length_prefixed :: "string \<Rightarrow> string" where
  "length_prefixed s = le_bytes (length s) @ s"

definition cache_preimage :: "string \<Rightarrow> string \<Rightarrow> string \<Rightarrow> string" where
  "cache_preimage model system_prompt user_prompt =
     length_prefixed model @ length_prefixed system_prompt @ length_prefixed user_prompt"

definition cache_key :: "(string \<Rightarrow> string) \<Rightarrow> string \<Rightarrow> string \<Rightarrow> string \<Rightarrow> string" where
  "cache_key digest model system_prompt user_prompt = digest (cache_preimage model system_prompt user_prompt)"

section \<open>The store\<close>

record cache_entry =
  ce_response :: string
  ce_token_count :: nat
  ce_created_at :: nat
  ce_accessed_at :: nat
  ce_hit_count :: nat

record response_cache =
  rc_entries :: "(string \<times> cache_entry) list"
  rc_ttl_secs :: nat
  rc_max_entries :: nat

definition response_cache_new :: "(string \<times> cache_entry) list \<Rightarrow> nat \<Rightarrow> nat \<Rightarrow> response_cache" where
  "response_cache_new stored ttl_secs max_entries =
     \<lparr>rc_entries = stored, rc_ttl_secs = ttl_secs, rc_max_entries = max max_entries 1\<rparr>"

definition cache_get :: "nat \<Rightarrow> string \<Rightarrow> response_cache \<Rightarrow> string option \<times> response_cache" where
  "cache_get now key c =
     (case map_of (rc_entries c) key of
        None \<Rightarrow> (None, c)
      | Some e \<Rightarrow>
          if rc_ttl_secs c < now - ce_created_at e
          then (None, c\<lparr>rc_entries := AList.delete key (rc_entries c)\<rparr>)
          else (Some (ce_response e),
                c\<lparr>rc_entries := AList.update key
                     (e\<lparr>ce_accessed_at := now, ce_hit_count := sat32 (ce_hit_count e + 1)\<rparr>) (rc_entries c)\<rparr>))"

definition evict_expired :: "nat \<Rightarrow> response_cache \<Rightarrow> response_cache" where
  "evict_expired now c =
     c\<lparr>rc_entries := filter (\<lambda>(_, e). now - ce_created_at e \<le> rc_ttl_secs c) (rc_entries c)\<rparr>"

definition evict_lru :: "(string \<times> cache_entry) list \<Rightarrow> (string \<times> cache_entry) list" where
  "evict_lru es =
     (case min_by_key (\<lambda>(_, e). ce_accessed_at e) es of
        Some (k, _) \<Rightarrow> AList.delete k es
      | None \<Rightarrow> es)"

lemma evict_lru_shrinks: "es \<noteq> [] \<Longrightarrow> length (evict_lru es) < length es"
proof -
  assume "es \<noteq> []"
  then obtain k e where m: "min_by_key (\<lambda>(_, e). ce_accessed_at e) es = Some (k, e)"
    by (metis min_by_key_None not_None_eq surj_pair)
  then have "(k, e) \<in> set es" by (rule min_by_key_in)
  then have "\<exists>x \<in> set es. \<not> (k \<noteq> fst x)" by force
  then have "length (filter (\<lambda>x. k \<noteq> fst x) es) < length es" by (auto intro: length_filter_less)
  then show ?thesis using m by (simp add: evict_lru_def AList.delete_eq case_prod_unfold)
qed

text \<open>
  The eviction loop of \<open>put\<close>. Its capacity is at least one, so the loop condition already
  implies that there is an entry to evict; the second conjunct only makes that explicit.
\<close>

function evict_until :: "nat \<Rightarrow> (string \<times> cache_entry) list \<Rightarrow> (string \<times> cache_entry) list" where
  "evict_until effective_max es =
     (if effective_max \<le> length es \<and> es \<noteq> [] then evict_until effective_max (evict_lru es) else es)"
  by auto
termination
  by (relation "measure (\<lambda>(_, es). length es)") (auto simp: evict_lru_shrinks)

declare evict_until.simps [simp del]

definition cache_put :: "nat \<Rightarrow> string \<Rightarrow> string \<Rightarrow> nat \<Rightarrow> response_cache \<Rightarrow> response_cache" where
  "cache_put now key response token_count c =
     (let c1 = evict_expired now c;
          effective_max = max (rc_max_entries c1) 1;
          kept = evict_until effective_max (rc_entries c1)
      in c1\<lparr>rc_entries := AList.update key
           \<lparr>ce_response = response, ce_token_count = token_count, ce_created_at = now,
            ce_accessed_at = now, ce_hit_count = 0\<rparr> kept\<rparr>)"

definition cache_clear :: "response_cache \<Rightarrow> response_cache" where
  "cache_clear c = c\<lparr>rc_entries := []\<rparr>"

record cache_stats =
  total_entries :: nat
  total_hits :: nat
  total_tokens_saved :: nat

definition cache_stats_of :: "response_cache \<Rightarrow> cache_stats" where
  "cache_stats_of c =
     \<lparr>total_entries = length (rc_entries c),
      total_hits = wrap64 (sum_list (map (\<lambda>(_, e). ce_hit_count e) (rc_entries c))),
      total_tokens_saved = wrap64 (sum_list (map (\<lambda>(_, e). wrap64 (ce_hit_count e * ce_token_count e)) (rc_entries c)))\<rparr>"

section \<open>Lemmas\<close>

lemma le_bytes_length [simp]: "length (le_bytes n) = 8"
  by (simp add: le_bytes_def)

lemma le_bytes_inj: "n < 256 ^ 8 \<Longrightarrow> m < 256 ^ 8 \<Longrightarrow> le_bytes n = le_bytes m \<Longrightarrow> n = m"
proof -
  assume n: "n < 256 ^ 8" "m < 256 ^ 8" and eq: "le_bytes n = le_bytes m"
  have digit: "n div 256 ^ i mod 256 = m div 256 ^ i mod 256" if "i < 8" for i
  proof -
    have "char_of (n div 256 ^ i mod 256) = (char_of (m div 256 ^ i mod 256) :: char)"
      using eq that by (simp add: le_bytes_def map_eq_conv)
    then have "(of_char (char_of (n div 256 ^ i mod 256) :: char) :: nat) = of_char (char_of (m div 256 ^ i mod 256) :: char)"
      by simp
    then show ?thesis by (simp add: of_char_of)
  qed
  have "n mod 256 ^ k = m mod 256 ^ k" if "k \<le> 8" for k
    using that
  proof (induction k)
    case (Suc k)
    have "x mod 256 ^ Suc k = x mod 256 ^ k + 256 ^ k * (x div 256 ^ k mod 256)" for x :: nat
      by (simp add: mod_mult2_eq mult.commute [of 256])
    then show ?case using Suc digit [of k] by simp
  qed simp
  from this [of 8] n show ?thesis by simp
qed

lemma length_prefixed_cancel:
  assumes "length a \<le> u64_max" "length b \<le> u64_max"
  shows "length_prefixed a @ xs = length_prefixed b @ ys \<longleftrightarrow> a = b \<and> xs = ys"
proof
  assume eq: "length_prefixed a @ xs = length_prefixed b @ ys"
  then have "le_bytes (length a) = le_bytes (length b)"
    by (simp add: length_prefixed_def append_eq_append_conv)
  then have "length a = length b" using assms by (intro le_bytes_inj) (simp_all add: u64_max_def)
  with eq show "a = b \<and> xs = ys" by (simp add: length_prefixed_def append_eq_append_conv)
qed simp

lemma evict_lru_subset: "set (evict_lru es) \<subseteq> set es"
  by (auto simp: evict_lru_def AList.delete_eq split: option.splits)

lemma evict_lru_distinct: "distinct (map fst es) \<Longrightarrow> distinct (map fst (evict_lru es))"
  by (auto simp: evict_lru_def distinct_delete split: option.splits)

lemma evict_until_subset: "set (evict_until m es) \<subseteq> set es"
proof (induction m es rule: evict_until.induct)
  case (1 m es)
  then show ?case using evict_lru_subset [of es] by (subst evict_until.simps) auto
qed

lemma evict_until_distinct: "distinct (map fst es) \<Longrightarrow> distinct (map fst (evict_until m es))"
proof (induction m es rule: evict_until.induct)
  case (1 m es)
  then show ?case using evict_lru_distinct [of es] by (subst evict_until.simps) auto
qed

lemma evict_until_length: "0 < m \<Longrightarrow> length (evict_until m es) < m"
proof (induction m es rule: evict_until.induct)
  case (1 m es)
  then show ?case by (subst evict_until.simps) auto
qed

text \<open>Operations, runs, and the last response put under each key.\<close>

datatype cache_op = OpGet nat string | OpPut nat string string nat | OpClear

fun cache_exec :: "cache_op \<Rightarrow> response_cache \<Rightarrow> response_cache" where
  "cache_exec (OpGet now k) c = snd (cache_get now k c)"
| "cache_exec (OpPut now k r n) c = cache_put now k r n c"
| "cache_exec OpClear c = cache_clear c"

fun last_put :: "cache_op \<Rightarrow> (string \<rightharpoonup> string \<times> nat) \<Rightarrow> (string \<rightharpoonup> string \<times> nat)" where
  "last_put (OpGet now k) h = h"
| "last_put (OpPut now k r n) h = h(k \<mapsto> (r, now))"
| "last_put OpClear h = Map.empty"

definition cache_view :: "nat \<Rightarrow> nat \<Rightarrow> response_cache \<Rightarrow> (string \<rightharpoonup> string \<times> nat) \<Rightarrow> bool" where
  "cache_view ttl m c h \<longleftrightarrow>
     rc_ttl_secs c = ttl \<and> rc_max_entries c = m \<and> distinct (map fst (rc_entries c)) \<and> length (rc_entries c) \<le> m
     \<and> (\<forall>k e. map_of (rc_entries c) k = Some e \<longrightarrow> h k = Some (ce_response e, ce_created_at e))"

lemma put_shape:
  assumes "distinct (map fst (rc_entries c))"
  obtains kept e where "cache_put now k r n c = c\<lparr>rc_entries := AList.update k e kept\<rparr>"
    "set kept \<subseteq> set (rc_entries c)" "distinct (map fst kept)" "length kept < max (rc_max_entries c) 1"
    "ce_response e = r" "ce_created_at e = now"
proof -
  let ?live = "filter (\<lambda>(_, e). now - ce_created_at e \<le> rc_ttl_secs c) (rc_entries c)"
  let ?kept = "evict_until (max (rc_max_entries c) 1) ?live"
  let ?e = "\<lparr>ce_response = r, ce_token_count = n, ce_created_at = now, ce_accessed_at = now, ce_hit_count = 0\<rparr>"
  show ?thesis
  proof (rule that [of ?e ?kept])
    show "cache_put now k r n c = c\<lparr>rc_entries := AList.update k ?e ?kept\<rparr>"
      by (simp add: cache_put_def evict_expired_def Let_def)
    show "set ?kept \<subseteq> set (rc_entries c)" using evict_until_subset [of _ ?live] by auto
    have "distinct (map fst ?live)" using assms by (simp add: distinct_map_filter)
    then show "distinct (map fst ?kept)" by (rule evict_until_distinct)
    show "length ?kept < max (rc_max_entries c) 1" by (rule evict_until_length) simp
  qed simp_all
qed

lemma view_put:
  assumes "cache_view ttl m c h" "0 < m"
  shows "cache_view ttl m (cache_put now k r n c) (h(k \<mapsto> (r, now)))"
proof -
  have d: "distinct (map fst (rc_entries c))" using assms(1) by (simp add: cache_view_def)
  obtain kept e where p: "cache_put now k r n c = c\<lparr>rc_entries := AList.update k e kept\<rparr>"
      "set kept \<subseteq> set (rc_entries c)" "distinct (map fst kept)" "length kept < max (rc_max_entries c) 1"
      "ce_response e = r" "ce_created_at e = now"
    by (rule put_shape [OF d])
  have "length (AList.update k e kept) \<le> m"
    using p(4) assms length_update_le [of k e kept] by (simp add: cache_view_def)
  moreover have "map_of (rc_entries c) j = Some x" if "map_of kept j = Some x" for j x
    using map_of_subset [OF d p(2) that] .
  ultimately show ?thesis
    using assms(1) p(1,5,6) distinct_update [OF p(3), of k e] by (simp add: cache_view_def update_conv')
qed

lemma view_get:
  assumes "cache_view ttl m c h"
  shows "cache_view ttl m (snd (cache_get now k c)) h"
proof (cases "map_of (rc_entries c) k")
  case None
  then show ?thesis using assms by (simp add: cache_get_def)
next
  case (Some e)
  have "k \<in> fst ` set (rc_entries c)" using Some by (metis domI dom_map_of_conv_image_fst)
  moreover have "length (AList.delete k (rc_entries c)) \<le> length (rc_entries c)" by (rule length_delete_le)
  ultimately show ?thesis using Some assms
    by (auto simp: cache_get_def cache_view_def length_update_old distinct_update distinct_delete
        update_conv' delete_conv' simp del: map_of_eq_Some_iff split: if_splits)
qed

lemma view_exec: "cache_view ttl m c h \<Longrightarrow> 0 < m \<Longrightarrow> cache_view ttl m (cache_exec op c) (last_put op h)"
  by (cases op) (simp_all add: view_put view_get, simp add: cache_view_def cache_clear_def)

lemma view_run:
  "cache_view ttl m c h \<Longrightarrow> 0 < m \<Longrightarrow> cache_view ttl m (fold cache_exec ops c) (fold last_put ops h)"
  by (induction ops arbitrary: c h) (simp_all add: view_exec)

lemma view_new: "cache_view ttl (max m 1) (response_cache_new [] ttl m) Map.empty"
  by (simp add: cache_view_def response_cache_new_def)

section \<open>Properties\<close>

text \<open>
  The key encoding cannot be confused: two triples of model, system prompt and user prompt
  feed the same bytes to the digest only if they are equal (a Rust string is at most
  \<open>u64::MAX\<close> bytes long).
\<close>

theorem cache_preimage_injective:
  assumes "\<forall>x \<in> {m, s, u, m', s', u'}. length x \<le> u64_max"
  shows "cache_preimage m s u = cache_preimage m' s' u' \<longleftrightarrow> m = m' \<and> s = s' \<and> u = u'"
  using assms length_prefixed_cancel [of u u' "[]" "[]"]
  by (auto simp: cache_preimage_def length_prefixed_cancel)

theorem cache_preimage_injective_witness:
  "cache_preimage ''a|b'' [] ''hi'' \<noteq> cache_preimage ''a'' ''|b'' ''hi''"
  using cache_preimage_injective [of "''a|b''" "[]" "''hi''" "''a''" "''|b''" "''hi''"]
  by (simp add: u64_max_def)

text \<open>
  The cache never lies and never outgrows its capacity: after any sequence of operations
  from an empty cache, a hit returns the response of the last put under that key since the last
  clear, and that put is not older than the time to live; the number of entries is within the
  capacity; and directly after a put the key is served until its time to live is over.
\<close>

theorem cache_sound:
  assumes "c = fold cache_exec ops (response_cache_new [] ttl m)"
  shows "(fst (cache_get now k c) = Some r \<longrightarrow>
      (\<exists>t. fold last_put ops Map.empty k = Some (r, t) \<and> now - t \<le> ttl))
    \<and> length (rc_entries c) \<le> max m 1
    \<and> fst (cache_get later k (cache_put now k r n c)) = (if later - now \<le> ttl then Some r else None)"
proof -
  have view: "cache_view ttl (max m 1) c (fold last_put ops Map.empty)"
    unfolding assms by (rule view_run [OF view_new]) simp
  have hit: "fst (cache_get now k c) = Some r \<longrightarrow>
      (\<exists>t. fold last_put ops Map.empty k = Some (r, t) \<and> now - t \<le> ttl)"
    using view by (auto simp: cache_get_def cache_view_def split: option.splits if_splits)
  have d: "distinct (map fst (rc_entries c))" using view by (simp add: cache_view_def)
  obtain kept e where "cache_put now k r n c = c\<lparr>rc_entries := AList.update k e kept\<rparr>"
      "ce_response e = r" "ce_created_at e = now"
    by (rule put_shape [OF d])
  then have "fst (cache_get later k (cache_put now k r n c)) = (if later - now \<le> ttl then Some r else None)"
    using view by (simp add: cache_get_def cache_view_def update_conv')
  with hit view show ?thesis by (simp add: cache_view_def)
qed

definition full_cache :: response_cache where
  "full_cache = fold cache_exec [OpPut 1 ''a'' ''x'' 5, OpPut 2 ''b'' ''y'' 5] (response_cache_new [] 100 2)"

theorem cache_sound_witness:
  "fst (cache_get 3 ''a'' full_cache) = Some ''x''
   \<and> (\<exists>t. fold last_put [OpPut 1 ''a'' ''x'' 5, OpPut 2 ''b'' ''y'' 5] Map.empty ''a'' = Some (''x'', t) \<and> 3 - t \<le> 100)"
proof -
  have hit: "fst (cache_get 3 ''a'' full_cache) = Some ''x''" by code_simp
  with cache_sound [OF full_cache_def, of 3 "''a''" "''x''"] show ?thesis by blast
qed

text \<open>
  Refreshing a key at capacity throws out another entry: the room is made before the code
  looks whether the key is present, so a full cache of two entries keeps only one of them.
\<close>

theorem refresh_evicts_other:
  "map fst (rc_entries full_cache) = [''a'', ''b'']
   \<and> map fst (rc_entries (cache_put 3 ''b'' ''z'' 5 full_cache)) = [''b'']"
  by code_simp

end
