(* ===== verification/Tool_Policy.thy ===== *)
theory Tool_Policy
  imports Zepto_Prelude
begin

text \<open>
  Who may run a tool: tool categories (\<open>src/src/tools/types.rs\<close>), the agent mode
  (\<open>src/src/security/agent_mode.rs\<close>), the approval gate (\<open>src/src/tools/approval.rs\<close>), the hard
  floor (\<open>src/src/tools/hard_floor.rs\<close>), the before-tool hooks (\<open>src/src/hooks/mod.rs\<close>) and the
  admission sequence of the agent loop that composes them (\<open>src/src/agent/loop.rs\<close>).

  Parameters: \<open>rx\<close> tells whether the compiled regular expression of the rule with a given
  identifier matches a command; the record \<open>json_api\<close> holds what is used of serde_json values.
  The approval handler is a function from the request to the response.
\<close>

section \<open>Categories and modes\<close>

datatype tool_category =
    FilesystemRead | FilesystemWrite | NetworkRead | NetworkWrite | Shell | Hardware | Memory
  | Messaging | Destructive

definition category_display :: "tool_category \<Rightarrow> string" where
  "category_display c = (case c of FilesystemRead \<Rightarrow> ''filesystem_read'' | FilesystemWrite \<Rightarrow> ''filesystem_write''
     | NetworkRead \<Rightarrow> ''network_read'' | NetworkWrite \<Rightarrow> ''network_write'' | Shell \<Rightarrow> ''shell''
     | Hardware \<Rightarrow> ''hardware'' | Memory \<Rightarrow> ''memory'' | Messaging \<Rightarrow> ''messaging'' | Destructive \<Rightarrow> ''destructive'')"

definition all_categories :: "tool_category list" where
  "all_categories = [FilesystemRead, FilesystemWrite, NetworkRead, NetworkWrite, Shell, Hardware, Memory,
     Messaging, Destructive]"

datatype agent_mode = Observer | Assistant | Autonomous

definition mode_display :: "agent_mode \<Rightarrow> string" where
  "mode_display m = (case m of Observer \<Rightarrow> ''observer'' | Assistant \<Rightarrow> ''assistant'' | Autonomous \<Rightarrow> ''autonomous'')"

definition mode_from_str :: "string \<Rightarrow> agent_mode option" where
  "mode_from_str s =
     (let l = to_lowercase s in
      if l = ''observer'' then Some Observer
      else if l = ''assistant'' then Some Assistant
      else if l = ''autonomous'' then Some Autonomous
      else None)"

definition resolve_mode :: "string \<Rightarrow> agent_mode" where
  "resolve_mode s = (case mode_from_str s of Some m \<Rightarrow> m | None \<Rightarrow> Autonomous)"

datatype category_permission = Allowed | RequiresApproval | Blocked

fun mode_check :: "agent_mode \<Rightarrow> tool_category \<Rightarrow> category_permission" where
  "mode_check Autonomous c = Allowed"
| "mode_check Observer c = (if c \<in> {FilesystemRead, NetworkRead, Memory} then Allowed else Blocked)"
| "mode_check Assistant c =
     (if c \<in> {FilesystemRead, FilesystemWrite, NetworkRead, NetworkWrite, Memory, Messaging}
      then Allowed else RequiresApproval)"

definition blocked_categories :: "agent_mode \<Rightarrow> tool_category list" where
  "blocked_categories m = filter (\<lambda>c. mode_check m c = Blocked) all_categories"

definition approval_categories :: "agent_mode \<Rightarrow> tool_category list" where
  "approval_categories m = filter (\<lambda>c. mode_check m c = RequiresApproval) all_categories"

section \<open>The approval gate\<close>

datatype approval_policy = AlwaysAllow | AlwaysRequire | RequireForTools "string list" | RequireForDangerous

datatype approval_policy_config = CfgAlwaysAllow | CfgAlwaysRequire | CfgRequireForTools | CfgRequireForDangerous

record approval_config =
  ac_enabled :: bool
  ac_policy :: approval_policy_config
  ac_require_for :: "string list"
  ac_dangerous_tools :: "string list"
  ac_auto_approve_timeout_secs :: nat
  ac_approval_timeout_secs :: nat

definition default_dangerous_tools :: "string list" where
  "default_dangerous_tools = [''shell'', ''write_file'', ''edit_file'']"

definition approval_config_default :: approval_config where
  "approval_config_default = \<lparr>ac_enabled = True, ac_policy = CfgRequireForDangerous, ac_require_for = [],
     ac_dangerous_tools = default_dangerous_tools, ac_auto_approve_timeout_secs = 0, ac_approval_timeout_secs = 0\<rparr>"

record 'v approval_request =
  ar_tool_name :: string
  ar_arguments :: 'v
  ar_timestamp :: nat
  ar_auto_approve_at :: "nat option"
  ar_channel :: "string option"
  ar_chat_id :: "string option"
  ar_user_id :: "string option"
  ar_agent_id :: "string option"
  ar_hard_floor_reason :: "string option"

definition approval_request_new :: "nat \<Rightarrow> string \<Rightarrow> 'v \<Rightarrow> nat \<Rightarrow> 'v approval_request" where
  "approval_request_new now tool_name args timeout_secs =
     \<lparr>ar_tool_name = tool_name, ar_arguments = args, ar_timestamp = now,
      ar_auto_approve_at = (if 0 < timeout_secs then Some (now + timeout_secs) else None),
      ar_channel = None, ar_chat_id = None, ar_user_id = None, ar_agent_id = None, ar_hard_floor_reason = None\<rparr>"

definition is_auto_approved :: "nat \<Rightarrow> 'v approval_request \<Rightarrow> bool" where
  "is_auto_approved now r = (case ar_auto_approve_at r of Some deadline \<Rightarrow> deadline \<le> now | None \<Rightarrow> False)"

datatype approval_response = Approved | Denied string | TimedOut

record approval_gate =
  ag_enabled :: bool
  ag_policy :: approval_policy
  ag_auto_approve_timeout_secs :: nat

definition approval_gate_new :: "approval_config \<Rightarrow> approval_gate" where
  "approval_gate_new config =
     (let policy = (case ac_policy config of
            CfgAlwaysAllow \<Rightarrow> AlwaysAllow
          | CfgAlwaysRequire \<Rightarrow> AlwaysRequire
          | CfgRequireForTools \<Rightarrow> RequireForTools (ac_require_for config)
          | CfgRequireForDangerous \<Rightarrow> RequireForDangerous);
          policy = (if policy = RequireForDangerous then RequireForTools (ac_dangerous_tools config) else policy)
      in \<lparr>ag_enabled = ac_enabled config, ag_policy = policy,
          ag_auto_approve_timeout_secs = ac_auto_approve_timeout_secs config\<rparr>)"

definition matches_tool_pattern :: "string \<Rightarrow> string \<Rightarrow> bool" where
  "matches_tool_pattern pattern tool_name =
     (if pattern = ''*'' then True
      else if suffix ''*'' pattern then starts_with tool_name (butlast pattern)
      else if prefix ''*'' pattern then ends_with tool_name (tl pattern)
      else pattern = tool_name)"

definition requires_approval :: "approval_gate \<Rightarrow> string \<Rightarrow> bool" where
  "requires_approval g tool_name =
     (if \<not> ag_enabled g then False
      else case ag_policy g of
        AlwaysAllow \<Rightarrow> False
      | AlwaysRequire \<Rightarrow> True
      | RequireForTools tools \<Rightarrow> list_ex (\<lambda>p. matches_tool_pattern p tool_name) tools
      | RequireForDangerous \<Rightarrow> list_ex (\<lambda>p. matches_tool_pattern p tool_name) default_dangerous_tools)"

section \<open>The hard floor\<close>

record hard_floor_rule =
  hf_id :: string
  hf_reason :: string

definition default_rules :: "hard_floor_rule list" where
  "default_rules =
     [\<lparr>hf_id = ''rm_rf_root'', hf_reason = ''`rm -rf /` or `rm -rf /*` would wipe the entire filesystem.''\<rparr>,
      \<lparr>hf_id = ''rm_rf_home'', hf_reason = ''`rm -rf` against $HOME / ~ recursively deletes the user'' @ [CHR 0x27] @ ''s data.''\<rparr>,
      \<lparr>hf_id = ''mkfs_any'', hf_reason = ''`mkfs.*` formats a filesystem, destroying all data on the target.''\<rparr>,
      \<lparr>hf_id = ''dd_to_block_device'', hf_reason = ''`dd of=/dev/...` writes raw bytes to a block device.''\<rparr>,
      \<lparr>hf_id = ''wipefs_or_partition_destroy'', hf_reason = ''`wipefs` / destructive `parted` removes partition tables.''\<rparr>,
      \<lparr>hf_id = ''fork_bomb'', hf_reason = ''Classic fork-bomb pattern exhausts process limits.''\<rparr>,
      \<lparr>hf_id = ''chmod_777_root_recursive'', hf_reason = ''`chmod -R 777 /` makes the entire filesystem world-writable.''\<rparr>,
      \<lparr>hf_id = ''shutdown_or_reboot'', hf_reason = ''`shutdown` / `reboot` / `halt` takes the host offline.''\<rparr>]"

text \<open>What is used of JSON values: the pretty rendering and the text of a string field.\<close>

record 'v json_api =
  js_pretty :: "'v \<Rightarrow> string"
  js_text :: "'v \<Rightarrow> string"
  js_str_field :: "'v \<Rightarrow> string \<Rightarrow> string option"

definition hard_floor_check ::
    "(string \<Rightarrow> string \<Rightarrow> bool) \<Rightarrow> 'v json_api \<Rightarrow> string \<Rightarrow> 'v \<Rightarrow> hard_floor_rule option" where
  "hard_floor_check rx J tool_name args =
     (if tool_name \<noteq> ''shell'' then None
      else case js_str_field J args ''command'' of
        None \<Rightarrow> None
      | Some command \<Rightarrow> find (\<lambda>r. rx (hf_id r) command) default_rules)"

section \<open>Resolving an approval\<close>

definition format_approval_request :: "'v json_api \<Rightarrow> string \<Rightarrow> 'v \<Rightarrow> string" where
  "format_approval_request J tool_name args =
     ''[Approval Required]'' @ [CHR 0x0A] @ ''Tool: '' @ tool_name @ [CHR 0x0A] @ ''Arguments:'' @ [CHR 0x0A]
     @ js_pretty J args @ [CHR 0x0A, CHR 0x0A] @ ''Approve execution? (yes/no)''"

definition make_request ::
    "approval_gate \<Rightarrow> nat \<Rightarrow> (string \<times> string) option \<Rightarrow> string \<Rightarrow> 'v \<Rightarrow> string option \<Rightarrow> string option
       \<Rightarrow> hard_floor_rule option \<Rightarrow> 'v approval_request" where
  "make_request g now identity tool_name args channel chat_id hard_floor =
     (approval_request_new now tool_name args (ag_auto_approve_timeout_secs g))
       \<lparr>ar_channel := channel, ar_chat_id := chat_id,
        ar_user_id := map_option fst identity, ar_agent_id := map_option snd identity,
        ar_hard_floor_reason := map_option hf_reason hard_floor\<rparr>"

text \<open>\<open>None\<close> lets the call pass; \<open>Some\<close> is the refusal shown to the model.\<close>

definition resolve_tool_approval ::
    "(string \<Rightarrow> string \<Rightarrow> bool) \<Rightarrow> 'v json_api \<Rightarrow> nat \<Rightarrow> approval_gate
       \<Rightarrow> ('v approval_request \<Rightarrow> approval_response) option \<Rightarrow> (string \<times> string) option
       \<Rightarrow> string \<Rightarrow> 'v \<Rightarrow> string option \<Rightarrow> string option \<Rightarrow> string option" where
  "resolve_tool_approval rx J now g handler identity tool_name args channel chat_id =
     (let hard_floor = hard_floor_check rx J tool_name args in
      if hard_floor = None \<and> \<not> requires_approval g tool_name then None
      else case handler of
        Some h \<Rightarrow>
          (case h (make_request g now identity tool_name args channel chat_id hard_floor) of
             Approved \<Rightarrow> None
           | Denied reason \<Rightarrow>
               Some (''Tool '' @ quoted tool_name @ '' was denied by user approval. '' @ reason)
           | TimedOut \<Rightarrow>
               (case hard_floor of
                  Some rule \<Rightarrow> Some (''Tool '' @ quoted tool_name @ '' was denied: HardFloor approval ('' @ hf_id rule @ '') timed out.'')
                | None \<Rightarrow> Some (''Tool '' @ quoted tool_name @ '' approval timed out and was not executed.'')))
      | None \<Rightarrow>
          Some (''Tool '' @ quoted tool_name @ '' requires user approval and was not executed. ''
            @ format_approval_request J tool_name args))"

section \<open>Hooks\<close>

datatype hook_action = HookLog | HookBlock | HookNotify

record hook_rule =
  hr_action :: hook_action
  hr_tools :: "string list"
  hr_channels :: "string list"
  hr_level :: "string option"
  hr_message :: "string option"
  hr_channel :: "string option"
  hr_chat_id :: "string option"

definition matches_tool :: "hook_rule \<Rightarrow> string \<Rightarrow> bool" where
  "matches_tool r tool_name = list_ex (\<lambda>t. t = ''*'' \<or> t = tool_name) (hr_tools r)"

definition matches_channel :: "hook_rule \<Rightarrow> string \<Rightarrow> bool" where
  "matches_channel r channel_name =
     (hr_channels r = [] \<or> list_ex (\<lambda>c. c = ''*'' \<or> c = channel_name) (hr_channels r))"

record hooks_config =
  hc_enabled :: bool
  hc_before_tool :: "hook_rule list"
  hc_after_tool :: "hook_rule list"
  hc_on_error :: "hook_rule list"

text \<open>The verdict of the before-tool hooks: the message of the first block rule that matches, if any.\<close>

fun eval_before_tool :: "hook_rule list \<Rightarrow> string \<Rightarrow> string \<Rightarrow> string option" where
  "eval_before_tool [] tool_name channel = None"
| "eval_before_tool (r # rs) tool_name channel =
     (if \<not> matches_tool r tool_name \<or> \<not> matches_channel r channel then eval_before_tool rs tool_name channel
      else case hr_action r of
        HookLog \<Rightarrow> eval_before_tool rs tool_name channel
      | HookBlock \<Rightarrow>
          Some (case hr_message r of Some m \<Rightarrow> m | None \<Rightarrow> ''Tool '' @ quoted tool_name @ '' blocked by hook'')
      | HookNotify \<Rightarrow> eval_before_tool rs tool_name channel)"

definition before_tool :: "hooks_config \<Rightarrow> string \<Rightarrow> string \<Rightarrow> string option" where
  "before_tool c tool_name channel =
     (if \<not> hc_enabled c then None else eval_before_tool (hc_before_tool c) tool_name channel)"

section \<open>Admission of a tool call\<close>

definition is_trusted_local_session :: "string \<Rightarrow> (string \<rightharpoonup> string) \<Rightarrow> bool" where
  "is_trusted_local_session channel metadata \<longleftrightarrow>
     channel = ''cli'' \<and> metadata ''interactive_cli'' = Some ''true''
     \<and> metadata ''trusted_local_session'' = Some ''true'' \<and> metadata ''is_batch'' \<noteq> Some ''true''"

record 'v admission =
  ad_hooks :: hooks_config
  ad_mode :: agent_mode
  ad_category :: "string \<rightharpoonup> tool_category"
  ad_gate :: approval_gate
  ad_handler :: "('v approval_request \<Rightarrow> approval_response) option"
  ad_identity :: "(string \<times> string) option"
  ad_channel :: "string option"
  ad_chat_id :: "string option"
  ad_trusted :: bool
  ad_dry_run :: bool

datatype decision = Refuse string | DescribeOnly | Run

text \<open>The agent loop's sequence: hooks, then the mode, then the approval, then the dry run.\<close>

definition admit_tool :: "(string \<Rightarrow> string \<Rightarrow> bool) \<Rightarrow> 'v json_api \<Rightarrow> nat \<Rightarrow> 'v admission \<Rightarrow> string \<Rightarrow> 'v \<Rightarrow> decision" where
  "admit_tool rx J now a name args =
     (let channel_name = (case ad_channel a of Some c \<Rightarrow> c | None \<Rightarrow> ''cli'') in
      case before_tool (ad_hooks a) name channel_name of
        Some msg \<Rightarrow> Refuse (''Tool '' @ quoted name @ '' blocked by hook: '' @ msg)
      | None \<Rightarrow>
          let mode_refusal = (case ad_category a name of
                None \<Rightarrow> None
              | Some cat \<Rightarrow>
                  (case mode_check (ad_mode a) cat of
                     Blocked \<Rightarrow>
                       Some (''Tool '' @ quoted name @ '' is blocked in '' @ mode_display (ad_mode a)
                         @ '' mode (category: '' @ category_display cat @ '')'')
                   | RequiresApproval \<Rightarrow>
                       if ad_trusted a then None
                       else if \<not> requires_approval (ad_gate a) name
                       then Some (''Tool '' @ quoted name @ '' requires approval in '' @ mode_display (ad_mode a)
                              @ '' mode (category: '' @ category_display cat @ ''). Not executed.'')
                       else None
                   | Allowed \<Rightarrow> None))
          in case mode_refusal of
               Some m \<Rightarrow> Refuse m
             | None \<Rightarrow>
                 (case (if ad_trusted a then None
                        else resolve_tool_approval rx J now (ad_gate a) (ad_handler a) (ad_identity a) name args
                               (ad_channel a) (ad_chat_id a)) of
                    Some message \<Rightarrow> Refuse message
                  | None \<Rightarrow> if ad_dry_run a then DescribeOnly else Run))"

section \<open>Lemmas\<close>

definition blocking_rule :: "hook_rule \<Rightarrow> string \<Rightarrow> string \<Rightarrow> bool" where
  "blocking_rule r tool_name channel \<longleftrightarrow>
     hr_action r = HookBlock \<and> matches_tool r tool_name \<and> matches_channel r channel"

lemma eval_before_tool_None:
  "eval_before_tool rs t c = None \<longleftrightarrow> (\<forall>r \<in> set rs. \<not> blocking_rule r t c)"
  by (induction rs t c rule: eval_before_tool.induct) (auto simp: blocking_rule_def split: hook_action.splits)

lemma before_tool_None:
  "before_tool hc t c = None \<longleftrightarrow> \<not> (hc_enabled hc \<and> (\<exists>r \<in> set (hc_before_tool hc). blocking_rule r t c))"
  by (auto simp: before_tool_def eval_before_tool_None)

definition asks_human :: "(string \<Rightarrow> string \<Rightarrow> bool) \<Rightarrow> 'v json_api \<Rightarrow> 'v admission \<Rightarrow> string \<Rightarrow> 'v \<Rightarrow> bool" where
  "asks_human rx J a name args \<longleftrightarrow> hard_floor_check rx J name args \<noteq> None \<or> requires_approval (ad_gate a) name"

definition human_approved :: "(string \<Rightarrow> string \<Rightarrow> bool) \<Rightarrow> 'v json_api \<Rightarrow> nat \<Rightarrow> 'v admission \<Rightarrow> string \<Rightarrow> 'v \<Rightarrow> bool" where
  "human_approved rx J now a name args \<longleftrightarrow>
     (case ad_handler a of
        None \<Rightarrow> False
      | Some h \<Rightarrow> h (make_request (ad_gate a) now (ad_identity a) name args (ad_channel a) (ad_chat_id a)
          (hard_floor_check rx J name args)) = Approved)"

lemma resolve_None:
  "resolve_tool_approval rx J now (ad_gate a) (ad_handler a) (ad_identity a) name args (ad_channel a) (ad_chat_id a) = None
   \<longleftrightarrow> (asks_human rx J a name args \<longrightarrow> human_approved rx J now a name args)"
  by (auto simp: resolve_tool_approval_def asks_human_def human_approved_def Let_def
      split: option.splits approval_response.splits)

definition mode_admits :: "'v admission \<Rightarrow> string \<Rightarrow> bool" where
  "mode_admits a name \<longleftrightarrow>
     (case ad_category a name of
        None \<Rightarrow> True
      | Some cat \<Rightarrow>
          mode_check (ad_mode a) cat = Allowed
          \<or> mode_check (ad_mode a) cat = RequiresApproval \<and> (ad_trusted a \<or> requires_approval (ad_gate a) name))"

text \<open>The admission sequence, each stage reduced to its condition.\<close>

lemma admit_run:
  "admit_tool rx J now a name args = Run \<longleftrightarrow>
     before_tool (ad_hooks a) name (case ad_channel a of Some c \<Rightarrow> c | None \<Rightarrow> ''cli'') = None
     \<and> mode_admits a name
     \<and> (ad_trusted a \<or> (asks_human rx J a name args \<longrightarrow> human_approved rx J now a name args))
     \<and> \<not> ad_dry_run a"
  unfolding resolve_None [symmetric]
  by (auto simp: admit_tool_def mode_admits_def Let_def
      split: option.splits category_permission.splits if_splits)

lemma matches_inner_wildcard:
  assumes "CHR ''*'' \<notin> set name" shows "\<not> matches_tool_pattern (''*'' @ mid @ ''*'') name"
proof -
  have "CHR ''*'' \<in> set (butlast (''*'' @ mid @ ''*''))" by (simp add: butlast_append)
  then show ?thesis using assms set_mono_prefix by (fastforce simp: matches_tool_pattern_def suffix_def)
qed

section \<open>Properties\<close>

text \<open>
  C5. A tool call of the agent loop runs exactly when every stage lets it: no enabled blocking
  hook matches; the mode admits the tool's category (a category that needs approval only in a
  trusted session or when the gate asks for this tool); outside a trusted session, the approval
  handler approved it if the gate or the hard floor asks for that; and it is not a dry run.
\<close>

theorem admission_exact:
  "admit_tool rx J now a name args = Run \<longleftrightarrow>
     \<not> (hc_enabled (ad_hooks a) \<and> (\<exists>r \<in> set (hc_before_tool (ad_hooks a)).
          blocking_rule r name (case ad_channel a of Some c \<Rightarrow> c | None \<Rightarrow> ''cli'')))
     \<and> mode_admits a name
     \<and> (ad_trusted a \<or> \<not> asks_human rx J a name args \<or> human_approved rx J now a name args)
     \<and> \<not> ad_dry_run a"
  unfolding admit_run before_tool_None by blast

text \<open>
  C40. Dangerous categories need the approval handler: outside a trusted session and below the autonomous mode,
  a shell, hardware or destructive tool runs only after the handler approved exactly
  this request (the handler may ask a human or approve by itself); in observer mode nothing but file reads, network
  reads and memory runs, not even in a trusted session.
\<close>

theorem dangerous_needs_approval:
  assumes "admit_tool rx J now a name args = Run" "ad_category a name = Some cat"
  shows "(cat \<in> {Shell, Hardware, Destructive} \<and> \<not> ad_trusted a \<and> ad_mode a \<noteq> Autonomous \<longrightarrow>
      human_approved rx J now a name args)
    \<and> (ad_mode a = Observer \<longrightarrow> cat \<in> {FilesystemRead, NetworkRead, Memory})"
  using assms by (cases "ad_mode a") (auto simp: admit_run mode_admits_def asks_human_def split: if_splits)

definition sample_json :: "string json_api" where
  "sample_json = \<lparr>js_pretty = (\<lambda>v. v), js_text = (\<lambda>v. v), js_str_field = (\<lambda>v f. if f = ''command'' then Some v else None)\<rparr>"

definition sample_rx :: "string \<Rightarrow> string \<Rightarrow> bool" where
  "sample_rx rule_id command \<longleftrightarrow> rule_id = ''rm_rf_root'' \<and> command = ''rm -rf /''"

definition sample_admission :: "string admission" where
  "sample_admission = \<lparr>ad_hooks = \<lparr>hc_enabled = False, hc_before_tool = [], hc_after_tool = [], hc_on_error = []\<rparr>,
     ad_mode = Assistant, ad_category = [''shell'' \<mapsto> Shell], ad_gate = approval_gate_new approval_config_default,
     ad_handler = Some (\<lambda>r. Approved), ad_identity = None, ad_channel = Some ''telegram'', ad_chat_id = None,
     ad_trusted = False, ad_dry_run = False\<rparr>"

theorem admission_exact_witness:
  "admit_tool sample_rx sample_json 0 sample_admission ''shell'' ''ls'' = Run
   \<and> mode_admits sample_admission ''shell''
   \<and> human_approved sample_rx sample_json 0 sample_admission ''shell'' ''ls''
   \<and> admit_tool sample_rx sample_json 0 (sample_admission\<lparr>ad_dry_run := True\<rparr>) ''shell'' ''ls'' \<noteq> Run"
proof -
  have r: "admit_tool sample_rx sample_json 0 sample_admission ''shell'' ''ls'' = Run" by code_simp
  have "\<not> ad_trusted sample_admission" by (simp add: sample_admission_def)
  moreover have "asks_human sample_rx sample_json sample_admission ''shell'' ''ls''" by code_simp
  ultimately have "mode_admits sample_admission ''shell''"
      "human_approved sample_rx sample_json 0 sample_admission ''shell'' ''ls''"
    using r admission_exact by metis+
  moreover have "admit_tool sample_rx sample_json 0 (sample_admission\<lparr>ad_dry_run := True\<rparr>) ''shell'' ''ls'' \<noteq> Run"
    using admission_exact [of sample_rx sample_json 0 "sample_admission\<lparr>ad_dry_run := True\<rparr>"] by simp
  ultimately show ?thesis using r by simp
qed

theorem dangerous_needs_approval_witness:
  "admit_tool sample_rx sample_json 0 sample_admission ''shell'' ''ls'' = Run
   \<and> human_approved sample_rx sample_json 0 sample_admission ''shell'' ''ls''"
proof -
  have r: "admit_tool sample_rx sample_json 0 sample_admission ''shell'' ''ls'' = Run" by code_simp
  have "ad_category sample_admission ''shell'' = Some Shell" "\<not> ad_trusted sample_admission"
      "ad_mode sample_admission \<noteq> Autonomous"
    by (simp_all add: sample_admission_def)
  with dangerous_needs_approval [OF r this(1)] r show ?thesis by simp
qed

text \<open>
  The hard floor cannot be configured away outside a trusted session: a command that matches
  one of its rules runs only after the handler approved a request that carries the rule's
  reason, in every mode and under every approval policy; without a handler, on denial and on
  timeout it is refused.
\<close>

theorem hard_floor_holds:
  assumes "hard_floor_check rx J name args = Some rule" "\<not> ad_trusted a"
    and "admit_tool rx J now a name args = Run"
  shows "\<exists>h. ad_handler a = Some h \<and>
    h ((approval_request_new now name args (ag_auto_approve_timeout_secs (ad_gate a)))
        \<lparr>ar_channel := ad_channel a, ar_chat_id := ad_chat_id a,
         ar_user_id := map_option fst (ad_identity a), ar_agent_id := map_option snd (ad_identity a),
         ar_hard_floor_reason := Some (hf_reason rule)\<rparr>) = Approved"
  using assms by (auto simp: admit_run asks_human_def human_approved_def make_request_def split: option.splits)

theorem hard_floor_holds_witness:
  "hard_floor_check sample_rx sample_json ''shell'' ''rm -rf /'' \<noteq> None
   \<and> admit_tool sample_rx sample_json 0 sample_admission ''shell'' ''rm -rf /'' = Run
   \<and> ad_handler sample_admission \<noteq> None"
proof -
  obtain rule where f: "hard_floor_check sample_rx sample_json ''shell'' ''rm -rf /'' = Some rule"
    by (auto simp: hard_floor_check_def sample_json_def sample_rx_def default_rules_def)
  have "\<not> ad_trusted sample_admission" by (simp add: sample_admission_def)
  moreover have "admit_tool sample_rx sample_json 0 sample_admission ''shell'' ''rm -rf /'' = Run" by code_simp
  ultimately show ?thesis using hard_floor_holds [OF f] f by auto
qed

text \<open>
  A trusted local session skips the hard floor: the whole approval step is skipped, so a
  command that a rule reserves for a human runs even in assistant mode, with no handler at all.
\<close>

theorem trusted_session_skips_hard_floor:
  "hard_floor_check sample_rx sample_json ''shell'' ''rm -rf /'' \<noteq> None
   \<and> admit_tool sample_rx sample_json 0 (sample_admission\<lparr>ad_trusted := True, ad_handler := None\<rparr>)
       ''shell'' ''rm -rf /'' = Run"
  by code_simp

end
