(* ===== verification/Tool_Gate.thy ===== *)
theory Tool_Gate
  imports Safety Tool_Policy Errors
begin

text \<open>
  The gated execution of a tool, \<open>src/src/kernel/gate.rs\<close>, with the tool registry's dispatch
  (\<open>src/src/tools/registry.rs\<close>) and the tool output type (\<open>src/src/tools/types.rs\<close>). The tools
  themselves are the registry's functions on the outside world \<open>'w\<close>. The safety layer is an
  argument: its verdict on a text, with a direction and the policy rules to ignore. The audit
  chain and the metrics are lists of the recorded events; elapsed times are left out.
\<close>

section \<open>Tool outputs and the registry\<close>

record tool_output =
  for_llm :: string
  for_user :: "string option"
  is_error :: bool
  is_async :: bool
  pause_for_input :: bool

definition output_llm_only :: "string \<Rightarrow> tool_output" where
  "output_llm_only c = \<lparr>for_llm = c, for_user = None, is_error = False, is_async = False, pause_for_input = False\<rparr>"

definition output_user_visible :: "string \<Rightarrow> tool_output" where
  "output_user_visible c = \<lparr>for_llm = c, for_user = Some c, is_error = False, is_async = False, pause_for_input = False\<rparr>"

definition output_error :: "string \<Rightarrow> tool_output" where
  "output_error c = \<lparr>for_llm = c, for_user = None, is_error = True, is_async = False, pause_for_input = False\<rparr>"

definition output_async :: "string \<Rightarrow> tool_output" where
  "output_async c = \<lparr>for_llm = c, for_user = None, is_error = False, is_async = True, pause_for_input = False\<rparr>"

record tool_context =
  tctx_channel :: "string option"
  tctx_chat_id :: "string option"

type_synonym ('v, 'w) tool = "'v \<Rightarrow> tool_context \<Rightarrow> 'w \<Rightarrow> tool_output zresult option \<times> 'w"
type_synonym ('v, 'w) tool_registry = "string \<rightharpoonup> ('v, 'w) tool"

definition registry_register :: "string \<Rightarrow> ('v, 'w) tool \<Rightarrow> ('v, 'w) tool_registry \<Rightarrow> ('v, 'w) tool_registry" where
  "registry_register name tool reg = reg(name \<mapsto> tool)"

definition opt_in_tool_hint :: "string \<Rightarrow> string" where
  "opt_in_tool_hint name =
     (if name \<in> {''grep'', ''find''}
      then '' (coding tool '' @ [CHR 0xE2, CHR 0x80, CHR 0x94]
        @ '' enable with `--template coder` or set `tools.coding_tools: true` in config)''
      else [])"

definition execute_with_context :: "('v, 'w) tool_registry \<Rightarrow> string \<Rightarrow> ('v, 'w) tool" where
  "execute_with_context reg name args ctx w =
     (case reg name of
        None \<Rightarrow> (Some (Inr (output_error (''Tool not found: '' @ name @ opt_in_tool_hint name))), w)
      | Some tool \<Rightarrow> tool args ctx w)"

section \<open>Audit\<close>

datatype audit_action =
    ToolInvoke | ShellExec | NetworkAccess | AgentSpawn | AgentMessage | MemoryAccess | FileAccess | AuthAttempt
  | ConfigChange

record audit_event =
  ae_actor :: string
  ae_action :: audit_action
  ae_detail :: string
  ae_outcome :: string

definition audit_actor_id :: "tool_context \<Rightarrow> string" where
  "audit_actor_id ctx =
     (case (tctx_channel ctx, tctx_chat_id ctx) of
        (Some channel, Some chat_id) \<Rightarrow> channel @ '':'' @ chat_id
      | (Some channel, None) \<Rightarrow> channel
      | (None, Some chat_id) \<Rightarrow> ''chat:'' @ chat_id
      | (None, None) \<Rightarrow> ''system'')"

definition audit_specific_action :: "string \<Rightarrow> audit_action option" where
  "audit_specific_action name =
     (if name \<in> {''shell'', ''shell_execute''} then Some ShellExec
      else if name \<in> {''web_fetch'', ''web_search''} then Some NetworkAccess
      else if name \<in> {''spawn'', ''delegate''} then Some AgentSpawn
      else None)"

definition tool_audit :: "string \<Rightarrow> string \<Rightarrow> string \<Rightarrow> audit_event" where
  "tool_audit actor_id name outcome =
     \<lparr>ae_actor = actor_id,
      ae_action = (case audit_specific_action name of Some a \<Rightarrow> a | None \<Rightarrow> ToolInvoke),
      ae_detail = ''tool='' @ name, ae_outcome = outcome\<rparr>"

section \<open>Safety scans\<close>

text \<open>A scan that panics yields \<open>None\<close>, and then so does the call.\<close>

type_synonym safety_layer = "check_direction \<Rightarrow> string list \<Rightarrow> string \<Rightarrow> safety_result option"

definition file_body_ignored_policy_rules :: "string list" where
  "file_body_ignored_policy_rules = [''shell_injection'']"

definition scan_segment :: "safety_layer \<Rightarrow> string list \<Rightarrow> string \<Rightarrow> safety_result option option" where
  "scan_segment safety ignored content =
     map_option (\<lambda>r. if sr_blocked r then Some r else None) (safety InputCheck ignored content)"

fun first_verdict :: "('a \<Rightarrow> 'b option option) \<Rightarrow> 'a list \<Rightarrow> 'b option option" where
  "first_verdict f [] = Some None"
| "first_verdict f (x # xs) =
     (case f x of None \<Rightarrow> None | Some (Some y) \<Rightarrow> Some (Some y) | Some None \<Rightarrow> first_verdict f xs)"

definition scan_path :: "safety_layer \<Rightarrow> 'v json_api \<Rightarrow> 'v \<Rightarrow> safety_result option option" where
  "scan_path safety J input =
     scan_segment safety [] (case js_str_field J input ''path'' of Some p \<Rightarrow> p | None \<Rightarrow> [])"

definition scan_fields :: "safety_layer \<Rightarrow> 'v json_api \<Rightarrow> 'v \<Rightarrow> string list \<Rightarrow> safety_result option option" where
  "scan_fields safety J input field_names =
     first_verdict (scan_segment safety file_body_ignored_policy_rules)
       (List.map_filter (js_str_field J input) field_names)"

definition scan_file_input :: "safety_layer \<Rightarrow> 'v json_api \<Rightarrow> 'v \<Rightarrow> string list \<Rightarrow> safety_result option option" where
  "scan_file_input safety J input field_names =
     (case scan_path safety J input of
        None \<Rightarrow> None
      | Some (Some r) \<Rightarrow> Some (Some r)
      | Some None \<Rightarrow> scan_fields safety J input field_names)"

definition scan_tool_input :: "safety_layer \<Rightarrow> 'v json_api \<Rightarrow> string \<Rightarrow> 'v \<Rightarrow> safety_result option option" where
  "scan_tool_input safety J name input =
     (if name = ''write_file'' then scan_file_input safety J input [''content'']
      else if name = ''edit_file'' then scan_file_input safety J input [''old_text'', ''new_text'', ''diff'']
      else scan_segment safety [] (js_text J input))"

text \<open>Without a safety layer both scans pass.\<close>

definition input_scan :: "safety_layer option \<Rightarrow> 'v json_api \<Rightarrow> string \<Rightarrow> 'v \<Rightarrow> safety_result option option" where
  "input_scan safety J name input =
     (case safety of None \<Rightarrow> Some None | Some s \<Rightarrow> scan_tool_input s J name input)"

definition output_scan :: "safety_layer option \<Rightarrow> tool_output \<Rightarrow> safety_result option option" where
  "output_scan safety out =
     (case safety of
        None \<Rightarrow> Some None
      | Some s \<Rightarrow> map_option (\<lambda>r. if sr_blocked r then Some r else None) (s OutputCheck [] (for_llm out)))"

definition blocked_input_output :: "string \<Rightarrow> safety_result \<Rightarrow> tool_output" where
  "blocked_input_output name r =
     output_error (''Tool '' @ quoted name @ '' input blocked by safety: '' @ join ''; '' (sr_warnings r))"

section \<open>The gate\<close>

record 'w gate_state =
  gs_world :: 'w
  gs_taint :: "taint_engine option"
  gs_audit :: "audit_event list"
  gs_metrics :: "(string \<times> bool) list"

definition note_call :: "tool_context \<Rightarrow> string \<Rightarrow> string \<Rightarrow> bool \<Rightarrow> 'w gate_state \<Rightarrow> 'w gate_state" where
  "note_call ctx name outcome success st =
     st\<lparr>gs_audit := gs_audit st @ [tool_audit (audit_actor_id ctx) name outcome],
        gs_metrics := gs_metrics st @ [(name, success)]\<rparr>"

definition gate_output ::
    "safety_layer option \<Rightarrow> string \<Rightarrow> tool_context \<Rightarrow> tool_output \<Rightarrow> 'w gate_state
       \<Rightarrow> tool_output zresult option \<times> 'w gate_state" where
  "gate_output safety name ctx out st =
     (case output_scan safety out of
        None \<Rightarrow> (None, st)
      | Some (Some r) \<Rightarrow>
          (Some (Inr (output_error (''Tool '' @ quoted name @ '' output blocked by safety: '' @ join ''; '' (sr_warnings r)))),
           note_call ctx name ''blocked_output_safety'' False st)
      | Some None \<Rightarrow>
          let st2 = st\<lparr>gs_taint := map_option (\<lambda>e. snd (label_output name (for_llm out) e)) (gs_taint st)\<rparr>
          in (Some (Inr out),
              note_call ctx name (if is_error out then ''tool_error'' else ''success'') (\<not> is_error out) st2))"

text \<open>The result is \<open>None\<close> where the code panics; the state is what was done up to there.\<close>

definition execute_tool ::
    "'v json_api \<Rightarrow> ('v, 'w) tool_registry \<Rightarrow> safety_layer option \<Rightarrow> string \<Rightarrow> 'v \<Rightarrow> tool_context
       \<Rightarrow> 'w gate_state \<Rightarrow> tool_output zresult option \<times> 'w gate_state" where
  "execute_tool J reg safety name input ctx st =
     (case input_scan safety J name input of
        None \<Rightarrow> (None, st)
      | Some (Some r) \<Rightarrow>
          (Some (Inr (blocked_input_output name r)), note_call ctx name ''blocked_input_safety'' False st)
      | Some None \<Rightarrow>
          (case Option.bind (gs_taint st) (check_sink (js_text J) name input) of
             Some violation \<Rightarrow>
               (Some (Inr (output_error (''Tool '' @ quoted name @ '' blocked by taint tracking: ''
                  @ taint_violation_display violation))),
                note_call ctx name ''blocked_taint'' False st)
           | None \<Rightarrow>
               let (res, w') = execute_with_context reg name input ctx (gs_world st);
                   st1 = st\<lparr>gs_world := w'\<rparr>
               in (case res of
                     None \<Rightarrow> (None, st1)
                   | Some (Inl e) \<Rightarrow> (Some (Inl e), note_call ctx name ''execution_error'' False st1)
                   | Some (Inr out) \<Rightarrow> gate_output safety name ctx out st1)))"

section \<open>Lemmas\<close>

definition input_refused :: "'v json_api \<Rightarrow> safety_layer option \<Rightarrow> string \<Rightarrow> 'v \<Rightarrow> 'w gate_state \<Rightarrow> bool" where
  "input_refused J safety name input st \<longleftrightarrow>
     (case input_scan safety J name input of Some (Some r) \<Rightarrow> True | _ \<Rightarrow> False)
     \<or> Option.bind (gs_taint st) (check_sink (js_text J) name input) \<noteq> None"

lemma note_call_simps [simp]:
  "gs_world (note_call ctx n out b st) = gs_world st" "gs_taint (note_call ctx n out b st) = gs_taint st"
  "gs_metrics (note_call ctx n out b st) = gs_metrics st @ [(n, b)]"
  "gs_audit (note_call ctx n out b st) = gs_audit st @ [tool_audit (audit_actor_id ctx) n out]"
  by (simp_all add: note_call_def)

lemma execute_cases:
  assumes "execute_tool J reg safety name input ctx st = (Some res, st')"
  obtains (refused) msg outcome where "input_refused J safety name input st" "res = Inr (output_error msg)"
      "st' = note_call ctx name outcome False st" "outcome \<in> {''blocked_input_safety'', ''blocked_taint''}"
  | (failed) e w' where "\<not> input_refused J safety name input st"
      "execute_with_context reg name input ctx (gs_world st) = (Some (Inl e), w')" "res = Inl e"
      "st' = note_call ctx name ''execution_error'' False (st\<lparr>gs_world := w'\<rparr>)"
  | (withheld) out w' r where "\<not> input_refused J safety name input st"
      "execute_with_context reg name input ctx (gs_world st) = (Some (Inr out), w')" "output_scan safety out = Some (Some r)"
      "res = Inr (output_error (''Tool '' @ quoted name @ '' output blocked by safety: '' @ join ''; '' (sr_warnings r)))"
      "st' = note_call ctx name ''blocked_output_safety'' False (st\<lparr>gs_world := w'\<rparr>)"
  | (returned) out w' where "\<not> input_refused J safety name input st"
      "execute_with_context reg name input ctx (gs_world st) = (Some (Inr out), w')" "output_scan safety out = Some None"
      "res = Inr out"
      "st' = note_call ctx name (if is_error out then ''tool_error'' else ''success'') (\<not> is_error out)
         (st\<lparr>gs_world := w', gs_taint := map_option (\<lambda>e. snd (label_output name (for_llm out) e)) (gs_taint st)\<rparr>)"
proof (cases "input_refused J safety name input st")
  case True
  then show ?thesis using refused assms
    by (fastforce simp: execute_tool_def input_refused_def blocked_input_output_def split: option.splits)
next
  case False
  then have pass: "input_scan safety J name input = Some None"
    using assms by (auto simp: input_refused_def execute_tool_def split: option.splits)
  have taint: "Option.bind (gs_taint st) (check_sink (js_text J) name input) = None"
    using False by (simp add: input_refused_def)
  obtain x w' where x: "execute_with_context reg name input ctx (gs_world st) = (x, w')" by fastforce
  show ?thesis
  proof (cases x)
    case None
    then show ?thesis using x assms pass taint by (simp add: execute_tool_def)
  next
    case (Some y)
    show ?thesis
    proof (cases y)
      case (Inl e)
      then show ?thesis using failed [OF False] x assms pass taint Some by (simp add: execute_tool_def)
    next
      case (Inr out)
      have "gate_output safety name ctx out (st\<lparr>gs_world := w'\<rparr>) = (Some res, st')"
        using Inr x assms pass taint Some by (simp add: execute_tool_def)
      then show ?thesis using x Inr Some withheld [OF False] returned [OF False]
        by (auto simp: gate_output_def Let_def split: option.splits)
    qed
  qed
qed

text \<open>The gate panics only if the tool or one of the scans does.\<close>

lemma execute_returns:
  assumes "input_scan safety J name input \<noteq> None" "\<And>out. output_scan safety out \<noteq> None"
    and "fst (execute_with_context reg name input ctx (gs_world st)) \<noteq> None"
  shows "\<exists>res st'. execute_tool J reg safety name input ctx st = (Some res, st')"
proof -
  have "\<exists>r st'. gate_output safety name ctx out st1 = (Some r, st')" for out st1
    using assms(2) [of out] by (auto simp: gate_output_def Let_def split: option.splits)
  then show ?thesis using assms(1,3) by (auto simp: execute_tool_def Let_def split: option.splits sum.splits prod.splits)
qed

section \<open>Properties\<close>

text \<open>
  The gate refuses before it runs: if the safety layer blocks the input or the taint check
  objects, the tool is not run (the world and the taint state are untouched) and an error is
  returned; otherwise the tool runs exactly once on the given input.
\<close>

theorem gate_refuses_first:
  assumes "execute_tool J reg safety name input ctx st = (Some res, st')"
  shows "(input_refused J safety name input st \<longrightarrow>
      gs_world st' = gs_world st \<and> gs_taint st' = gs_taint st \<and> (\<exists>msg. res = Inr (output_error msg)))
    \<and> (\<not> input_refused J safety name input st \<longrightarrow>
      gs_world st' = snd (execute_with_context reg name input ctx (gs_world st)))"
  using assms by (cases rule: execute_cases) auto

definition deny_all :: safety_layer where
  "deny_all d ignored text = Some \<lparr>sr_content = [], sr_warnings = [''no''], sr_was_modified = True, sr_blocked = True,
     sr_block_reason = None\<rparr>"

definition idle_state :: "nat gate_state" where
  "idle_state = \<lparr>gs_world = 0, gs_taint = Some (taint_engine_new taint_config_default), gs_audit = [], gs_metrics = []\<rparr>"

definition counting_tool :: "(string, nat) tool" where
  "counting_tool args ctx w = (Some (Inr (output_llm_only args)), w + 1)"

definition no_ctx :: tool_context where
  "no_ctx = \<lparr>tctx_channel = None, tctx_chat_id = None\<rparr>"

theorem gate_refuses_first_witness:
  "\<exists>res st'. execute_tool sample_json [''echo'' \<mapsto> counting_tool] (Some deny_all) ''echo'' ''hi'' no_ctx idle_state
       = (Some res, st')
     \<and> gs_world st' = 0"
proof -
  have ref: "input_refused sample_json (Some deny_all) ''echo'' ''hi'' idle_state"
    by (simp add: input_refused_def input_scan_def scan_tool_input_def scan_segment_def deny_all_def)
  have "\<exists>res st'. execute_tool sample_json [''echo'' \<mapsto> counting_tool] (Some deny_all) ''echo'' ''hi'' no_ctx idle_state
      = (Some res, st')"
    by (rule execute_returns) (simp_all add: input_scan_def scan_tool_input_def scan_segment_def output_scan_def deny_all_def
        execute_with_context_def counting_tool_def)
  then obtain res st' where x: "execute_tool sample_json [''echo'' \<mapsto> counting_tool] (Some deny_all) ''echo'' ''hi''
       no_ctx idle_state = (Some res, st')" by blast
  with gate_refuses_first [OF x] ref have "gs_world st' = gs_world idle_state" by blast
  then show ?thesis using x by (simp add: idle_state_def)
qed

text \<open>
  Every call that returns leaves one trace: exactly one audit event of the caller for
  this tool and exactly one metrics sample are appended; the sample counts as a success and
  the outcome says \<open>success\<close> iff the tool's own output without error is returned, and an
  execution error is the only way the gate itself fails.
\<close>

theorem gate_accounts_every_call:
  assumes "execute_tool J reg safety name input ctx st = (Some res, st')"
  shows "\<exists>outcome ok. gs_audit st' = gs_audit st @ [tool_audit (audit_actor_id ctx) name outcome]
    \<and> gs_metrics st' = gs_metrics st @ [(name, ok)]
    \<and> (ok \<longleftrightarrow> outcome = ''success'') \<and> (ok \<longrightarrow> (\<exists>out. res = Inr out \<and> \<not> is_error out))
    \<and> ((\<exists>e. res = Inl e) \<longleftrightarrow> outcome = ''execution_error'')
    \<and> (\<not> ok \<longrightarrow> (\<exists>e. res = Inl e) \<or> (\<exists>out. res = Inr out \<and> is_error out))"
  using assms by (cases rule: execute_cases) (auto simp: output_error_def)

lemma no_safety_returns:
  "fst (execute_with_context reg name input ctx (gs_world st)) \<noteq> None \<Longrightarrow>
     \<exists>res st'. execute_tool J reg None name input ctx st = (Some res, st')"
  by (rule execute_returns) (simp_all add: input_scan_def output_scan_def)

theorem gate_accounts_every_call_witness:
  "\<exists>res st'. execute_tool sample_json [''echo'' \<mapsto> counting_tool] None ''echo'' ''hi'' no_ctx idle_state = (Some res, st')
     \<and> length (gs_audit st') = 1 \<and> length (gs_metrics st') = 1"
proof -
  have "fst (execute_with_context [''echo'' \<mapsto> counting_tool] ''echo'' ''hi'' no_ctx (gs_world idle_state)) \<noteq> None"
    by (simp add: execute_with_context_def counting_tool_def)
  from no_safety_returns [OF this] obtain res st' where
    x: "execute_tool sample_json [''echo'' \<mapsto> counting_tool] None ''echo'' ''hi'' no_ctx idle_state = (Some res, st')"
    by blast
  from gate_accounts_every_call [OF x] x show ?thesis by (auto simp: idle_state_def)
qed

text \<open>
  C19. What the safety layer lets through: an output without error that the gate returns with the layer in place, and whose text for
  the model is within the output limit, holds no null byte, no private key header when leak detection is on, and nothing that
  a blocking rule for both directions matches once the keys in it are masked. The text is returned as it was, not masked;
  of a longer text only the part up to the limit is looked at.
\<close>

theorem returned_output_clean:
  assumes "execute_tool J reg (Some (scan_impl rx say c)) name input ctx st = (Some (Inr out), st')" "\<not> is_error out"
    and "length (for_llm out) \<le> sc_max_output_length c"
  shows "length (for_llm out) \<le> max_input_bytes \<and> CHR 0x00 \<notin> set (for_llm out)
    \<and> (sc_leak_detection_enabled c \<longrightarrow> rx ''pem_private_key'' (for_llm out) = [])
    \<and> rx ''system_file_access'' (masked_content rx c (for_llm out)) = []
    \<and> rx ''crypto_key_patterns'' (masked_content rx c (for_llm out)) = []"
  using assms(1)
proof (cases rule: execute_cases)
  case (returned out' w')
  then obtain r where r: "scan_impl rx say c OutputCheck [] (for_llm out) = Some r" "\<not> sr_blocked r"
    by (auto simp: output_scan_def split: if_splits)
  have l: "limit_output (sc_max_output_length c) (for_llm out) = Some (for_llm out)"
    using assms(3) by (simp add: limit_output_def)
  have "\<not> (\<exists>rule \<in> set rule_defs. pr_action rule = Pol_Block \<and> rx (pr_name rule) (masked_content rx c (for_llm out)) \<noteq> []
      \<and> pr_name rule \<notin> set [] \<and> \<not> (OutputCheck = OutputCheck \<and> pr_scope rule = Scope_InputOnly))"
    using scan_impl_verdict [OF r(1) l] r(2) by blast
  then show ?thesis using scan_impl_verdict [OF r(1) l] r(2) by (auto simp: rule_defs_def)
qed (use assms(2) in \<open>auto simp: output_error_def\<close>)

theorem returned_output_clean_witness:
  "\<exists>st'. execute_tool sample_json [''echo'' \<mapsto> counting_tool] (Some (scan_impl secret_rx no_words safety_config_default))
       ''echo'' ''hi'' no_ctx idle_state = (Some (Inr (output_llm_only ''hi'')), st')
     \<and> secret_rx ''pem_private_key'' ''hi'' = []"
proof -
  let ?x = "execute_tool sample_json [''echo'' \<mapsto> counting_tool] (Some (scan_impl secret_rx no_words safety_config_default))
       ''echo'' ''hi'' no_ctx idle_state"
  have "fst ?x = Some (Inr (output_llm_only ''hi''))" by code_simp
  then obtain st' where x: "?x = (Some (Inr (output_llm_only ''hi'')), st')" by (metis prod.collapse)
  have "length (for_llm (output_llm_only ''hi'')) \<le> sc_max_output_length safety_config_default"
    by (simp add: safety_config_default_def output_llm_only_def)
  from returned_output_clean [OF x _ this] x show ?thesis by (simp add: output_llm_only_def safety_config_default_def)
qed

text \<open>
  Masking does not reach the model: when the layer finds a key in a tool's output and masks it,
  the gate still returns the output of the tool as it was, because it reads only the verdict
  and not the scanned content.
\<close>

theorem masked_output_returned_raw:
  assumes "execute_tool J reg (Some (scan_impl rx say c)) name input ctx st = (Some res, st')"
    and "\<not> input_refused J (Some (scan_impl rx say c)) name input st"
    and "execute_with_context reg name input ctx (gs_world st) = (Some (Inr out), w')"
    and "scan_impl rx say c OutputCheck [] (for_llm out) = Some r" "\<not> sr_blocked r" "sr_content r \<noteq> for_llm out"
  shows "res = Inr out"
  using assms(1)
proof (cases rule: execute_cases)
  case (withheld out' w' r')
  then show ?thesis using assms(3,4,5) by (auto simp: output_scan_def)
qed (use assms(2,3) in auto)

definition fixed_tool :: "string \<Rightarrow> (string, nat) tool" where
  "fixed_tool text args ctx w = (Some (Inr (output_llm_only text)), w + 1)"

theorem masked_output_returned_raw_witness:
  "\<exists>st' r. execute_tool sample_json [''echo'' \<mapsto> fixed_tool ''sk-abcdefghijklmnopqrstuvwx'']
       (Some (scan_impl secret_rx no_words safety_config_default)) ''echo'' ''hi'' no_ctx idle_state
       = (Some (Inr (output_llm_only ''sk-abcdefghijklmnopqrstuvwx'')), st')
     \<and> scan_impl secret_rx no_words safety_config_default OutputCheck [] ''sk-abcdefghijklmnopqrstuvwx'' = Some r
     \<and> sr_content r = ''sk-a***uvwx''"
proof -
  let ?reg = "[''echo'' \<mapsto> fixed_tool ''sk-abcdefghijklmnopqrstuvwx'']"
  let ?s = "Some (scan_impl secret_rx no_words safety_config_default)"
  let ?out = "output_llm_only ''sk-abcdefghijklmnopqrstuvwx''"
  have "map_option sr_blocked (scan_impl secret_rx no_words safety_config_default OutputCheck [] (for_llm ?out)) = Some False"
      "map_option sr_content (scan_impl secret_rx no_words safety_config_default OutputCheck [] (for_llm ?out))
        = Some ''sk-a***uvwx''"
    by code_simp+
  then obtain r where r: "scan_impl secret_rx no_words safety_config_default OutputCheck [] (for_llm ?out) = Some r"
      "\<not> sr_blocked r" "sr_content r = ''sk-a***uvwx''" by auto
  have i: "\<not> input_refused sample_json ?s ''echo'' ''hi'' idle_state" by code_simp
  have "fst (execute_tool sample_json ?reg ?s ''echo'' ''hi'' no_ctx idle_state) \<noteq> None" by code_simp
  then obtain res st' where x: "execute_tool sample_json ?reg ?s ''echo'' ''hi'' no_ctx idle_state = (Some res, st')"
    by (metis option.exhaust prod.collapse)
  have e: "execute_with_context ?reg ''echo'' ''hi'' no_ctx (gs_world idle_state) = (Some (Inr ?out), 1)"
    by (simp add: execute_with_context_def fixed_tool_def idle_state_def)
  have n: "sr_content r \<noteq> for_llm ?out" using r(3) by (simp add: output_llm_only_def)
  from masked_output_returned_raw [OF x i e r(1,2) n] x r show ?thesis by (simp add: output_llm_only_def)
qed

end
