(* ===== verification/Approval_Broker.thy ===== *)
theory Approval_Broker
  imports Zepto_Prelude
begin

text \<open>
  The approval broker (\<open>src/src/tools/approval_broker.rs\<close>): pending tool approvals in one FIFO
  queue per conversation thread, each with the sending half of a oneshot channel on whose
  receiving half the approval handler waits. The broker's state is the \<open>HashMap\<close> of queues as an
  association list with distinct keys; the channels live in a store of their own, addressed by
  numbers, so that dropping a receiver (a handler that timed out or was cancelled) and dropping
  a sender (a swept entry) are visible. Every operation holds the mutex and is one step.
  Instants are milliseconds.
\<close>

section \<open>Thread keys\<close>

record thread_key =
  tk_user :: string
  tk_agent :: string

definition thread_key_new :: "string \<Rightarrow> string \<Rightarrow> thread_key" where
  "thread_key_new user agent = \<lparr>tk_user = user, tk_agent = agent\<rparr>"

definition from_chat_id_fallback :: "string \<Rightarrow> thread_key" where
  "from_chat_id_fallback chat_id = \<lparr>tk_user = chat_id, tk_agent = []\<rparr>"

definition is_fallback :: "thread_key \<Rightarrow> bool" where
  "is_fallback k \<longleftrightarrow> tk_agent k = []"

section \<open>Oneshot channels\<close>

datatype oneshot = Open | Delivered bool | Receiver_Dropped | Sender_Dropped

definition chan_send :: "bool \<Rightarrow> oneshot \<Rightarrow> bool \<times> oneshot" where
  "chan_send v c = (if c = Open then (True, Delivered v) else (False, c))"

definition drop_sender :: "oneshot \<Rightarrow> oneshot" where
  "drop_sender c = (if c = Open then Sender_Dropped else c)"

definition drop_receiver :: "oneshot \<Rightarrow> oneshot" where
  "drop_receiver c = (if c = Open then Receiver_Dropped else c)"

section \<open>The broker\<close>

record pending_entry =
  pe_request_id :: string
  pe_hard_floor :: bool
  pe_created_at :: int
  pe_tx :: nat

record broker =
  br_pending :: "(thread_key \<times> pending_entry list) list"
  br_chan :: "nat \<Rightarrow> oneshot"
  br_next :: nat

definition broker_new :: broker where
  "broker_new = \<lparr>br_pending = [], br_chan = (\<lambda>_. Open), br_next = 0\<rparr>"

definition queue_of :: "broker \<Rightarrow> thread_key \<Rightarrow> pending_entry list" where
  "queue_of b t = (case map_of (br_pending b) t of None \<Rightarrow> [] | Some q \<Rightarrow> q)"

text \<open>Writing a queue back: a queue that became empty is removed from the map.\<close>

definition set_queue :: "thread_key \<Rightarrow> pending_entry list \<Rightarrow> broker \<Rightarrow> broker" where
  "set_queue t q b =
     b\<lparr>br_pending := (if q = [] then AList.delete t (br_pending b) else AList.update t q (br_pending b))\<rparr>"

definition send_on :: "nat \<Rightarrow> bool \<Rightarrow> broker \<Rightarrow> bool \<times> broker" where
  "send_on c v b = (let (ok, st) = chan_send v (br_chan b c) in (ok, b\<lparr>br_chan := (br_chan b)(c := st)\<rparr>))"

definition register :: "int \<Rightarrow> thread_key \<Rightarrow> string \<Rightarrow> bool \<Rightarrow> broker \<Rightarrow> nat \<times> broker" where
  "register now t request_id hard_floor b =
     (let rx = br_next b;
          e = \<lparr>pe_request_id = request_id, pe_hard_floor = hard_floor, pe_created_at = now, pe_tx = rx\<rparr>
      in (rx, set_queue t (queue_of b t @ [e]) (b\<lparr>br_next := Suc rx, br_chan := (br_chan b)(rx := Open)\<rparr>)))"

text \<open>\<open>position\<close> and \<open>remove(idx)\<close>: the first entry with the identifier and the queue without it.\<close>

fun take_entry :: "string \<Rightarrow> pending_entry list \<Rightarrow> (pending_entry \<times> pending_entry list) option" where
  "take_entry i [] = None"
| "take_entry i (e # q) =
     (if pe_request_id e = i then Some (e, q)
      else map_option (\<lambda>(x, r). (x, e # r)) (take_entry i q))"

definition resolve_by_id :: "thread_key \<Rightarrow> string \<Rightarrow> bool \<Rightarrow> broker \<Rightarrow> bool \<times> broker" where
  "resolve_by_id t request_id approved b =
     (case take_entry request_id (queue_of b t) of
        None \<Rightarrow> (False, b)
      | Some (e, q) \<Rightarrow> send_on (pe_tx e) approved (set_queue t q b))"

definition resolve_fifo :: "thread_key \<Rightarrow> bool \<Rightarrow> broker \<Rightarrow> bool \<times> broker" where
  "resolve_fifo t approved b =
     (case queue_of b t of
        [] \<Rightarrow> (False, b)
      | e # q \<Rightarrow> send_on (pe_tx e) approved (set_queue t q b))"

text \<open>The walk of \<open>resolve_all\<close>: hard-floor entries are stepped over, all others removed and answered.\<close>

fun drain_soft :: "bool \<Rightarrow> pending_entry list \<Rightarrow> (nat \<Rightarrow> oneshot) \<Rightarrow> pending_entry list \<times> nat \<times> (nat \<Rightarrow> oneshot)" where
  "drain_soft v [] ch = ([], 0, ch)"
| "drain_soft v (e # q) ch =
     (if pe_hard_floor e
      then (case drain_soft v q ch of (kept, n, ch') \<Rightarrow> (e # kept, n, ch'))
      else (case drain_soft v q (ch(pe_tx e := snd (chan_send v (ch (pe_tx e))))) of
              (kept, n, ch') \<Rightarrow> (kept, Suc n, ch')))"

definition resolve_all :: "thread_key \<Rightarrow> bool \<Rightarrow> broker \<Rightarrow> nat \<times> broker" where
  "resolve_all t approved b =
     (case map_of (br_pending b) t of
        None \<Rightarrow> (0, b)
      | Some q \<Rightarrow>
          (case drain_soft approved q (br_chan b) of
             (kept, drained, ch) \<Rightarrow> (drained, set_queue t kept (b\<lparr>br_chan := ch\<rparr>))))"

definition pending_count :: "broker \<Rightarrow> thread_key \<Rightarrow> nat" where
  "pending_count b t = length (queue_of b t)"

definition has_pending :: "broker \<Rightarrow> thread_key \<Rightarrow> bool" where
  "has_pending b t \<longleftrightarrow> 0 < pending_count b t"

definition aged_out :: "int \<Rightarrow> int \<Rightarrow> pending_entry \<Rightarrow> bool" where
  "aged_out now max_age e \<longleftrightarrow> max_age < now - pe_created_at e"

definition sweep_expired :: "int \<Rightarrow> int \<Rightarrow> broker \<Rightarrow> nat \<times> broker" where
  "sweep_expired now max_age b =
     (let swept = concat (map (\<lambda>(t, q). filter (aged_out now max_age) q) (br_pending b));
          kept = filter (\<lambda>(t, q). q \<noteq> [])
                   (map (\<lambda>(t, q). (t, filter (\<lambda>e. \<not> aged_out now max_age e) q)) (br_pending b))
      in (length swept,
          b\<lparr>br_pending := kept,
            br_chan := fold (\<lambda>e ch. ch(pe_tx e := drop_sender (ch (pe_tx e)))) swept (br_chan b)\<rparr>))"

text \<open>The waiting handler gives up: its receiver is dropped, the entry stays in the queue.\<close>

definition abandon :: "nat \<Rightarrow> broker \<Rightarrow> broker" where
  "abandon rx b = b\<lparr>br_chan := (br_chan b)(rx := drop_receiver (br_chan b rx))\<rparr>"

section \<open>Runs\<close>

datatype broker_event =
    Register int thread_key string bool
  | Answer_Id thread_key string bool
  | Answer_Fifo thread_key bool
  | Answer_All thread_key bool
  | Sweep int int
  | Abandon nat

fun broker_apply :: "broker_event \<Rightarrow> broker \<Rightarrow> broker" where
  "broker_apply (Register now t i hf) b = snd (register now t i hf b)"
| "broker_apply (Answer_Id t i v) b = snd (resolve_by_id t i v b)"
| "broker_apply (Answer_Fifo t v) b = snd (resolve_fifo t v b)"
| "broker_apply (Answer_All t v) b = snd (resolve_all t v b)"
| "broker_apply (Sweep now age) b = snd (sweep_expired now age b)"
| "broker_apply (Abandon rx) b = abandon rx b"

inductive broker_reachable :: "broker \<Rightarrow> bool" where
  init: "broker_reachable broker_new"
| step: "broker_reachable b \<Longrightarrow> broker_reachable (broker_apply ev b)"

section \<open>What the operations do to queues and channels\<close>

lemma queue_of_set_queue [simp]: "queue_of (set_queue t q b) = (queue_of b)(t := q)"
  by (auto simp: fun_eq_iff queue_of_def set_queue_def update_conv' delete_conv')

lemma queue_of_more [simp]:
  "queue_of (b\<lparr>br_chan := ch\<rparr>) = queue_of b" "queue_of (b\<lparr>br_next := n\<rparr>) = queue_of b"
  by (simp_all add: fun_eq_iff queue_of_def)

lemma set_queue_fields [simp]:
  "br_chan (set_queue t q b) = br_chan b" "br_next (set_queue t q b) = br_next b"
  by (simp_all add: set_queue_def)

lemma send_on_effect [simp]:
  "queue_of (snd (send_on c v b)) = queue_of b" "br_pending (snd (send_on c v b)) = br_pending b"
  "br_next (snd (send_on c v b)) = br_next b"
  "br_chan (snd (send_on c v b)) = (br_chan b)(c := snd (chan_send v (br_chan b c)))"
  "fst (send_on c v b) \<longleftrightarrow> br_chan b c = Open"
  by (simp_all add: send_on_def chan_send_def)

lemma take_entry_None: "take_entry i q = None \<longleftrightarrow> i \<notin> pe_request_id ` set q"
  by (induction q) auto

lemma take_entry_Some:
  "take_entry i q = Some (e, r) \<Longrightarrow>
     \<exists>xs ys. q = xs @ e # ys \<and> r = xs @ ys \<and> pe_request_id e = i \<and> i \<notin> pe_request_id ` set xs"
proof (induction q arbitrary: e r)
  case (Cons a q)
  show ?case
  proof (cases "pe_request_id a = i")
    case True
    with Cons.prems show ?thesis by (intro exI [of _ "[]"] exI [of _ q]) auto
  next
    case False
    with Cons.prems obtain r' where r': "take_entry i q = Some (e, r')" "r = a # r'" by auto
    then obtain xs ys where "q = xs @ e # ys" "r' = xs @ ys" "pe_request_id e = i" "i \<notin> pe_request_id ` set xs"
      using Cons.IH by blast
    with r' False show ?thesis by (intro exI [of _ "a # xs"] exI [of _ ys]) auto
  qed
qed simp

lemma chan_send_idem [simp]: "snd (chan_send v (snd (chan_send v c))) = snd (chan_send v c)"
  by (simp add: chan_send_def)

lemma drain_soft_eq:
  "drain_soft v q ch =
     (filter pe_hard_floor q, length (filter (\<lambda>e. \<not> pe_hard_floor e) q),
      \<lambda>c. if \<exists>e \<in> set q. \<not> pe_hard_floor e \<and> pe_tx e = c then snd (chan_send v (ch c)) else ch c)"
proof (induction q arbitrary: ch)
  case (Cons e q)
  show ?case by (simp add: Cons.IH) (auto simp: fun_eq_iff)
qed simp

lemma resolve_all_effect:
  "queue_of (snd (resolve_all t v b)) = (queue_of b)(t := filter pe_hard_floor (queue_of b t))"
  "br_next (snd (resolve_all t v b)) = br_next b"
  "br_chan (snd (resolve_all t v b)) c =
     (if \<exists>e \<in> set (queue_of b t). \<not> pe_hard_floor e \<and> pe_tx e = c
      then snd (chan_send v (br_chan b c)) else br_chan b c)"
  "fst (resolve_all t v b) = length (filter (\<lambda>e. \<not> pe_hard_floor e) (queue_of b t))"
proof -
  have "resolve_all t v b =
      (length (filter (\<lambda>e. \<not> pe_hard_floor e) (queue_of b t)),
       if map_of (br_pending b) t = None then b
       else set_queue t (filter pe_hard_floor (queue_of b t)) (b\<lparr>br_chan := snd (snd (drain_soft v (queue_of b t) (br_chan b)))\<rparr>))"
    by (simp add: resolve_all_def drain_soft_eq queue_of_def Bex_def split: option.split)
  note eq = this
  have none: "map_of (br_pending b) t = None \<Longrightarrow> queue_of b t = []" by (simp add: queue_of_def)
  show "queue_of (snd (resolve_all t v b)) = (queue_of b)(t := filter pe_hard_floor (queue_of b t))"
    using none by (auto simp: eq fun_eq_iff)
  show "br_next (snd (resolve_all t v b)) = br_next b" by (simp add: eq)
  show "br_chan (snd (resolve_all t v b)) c =
      (if \<exists>e \<in> set (queue_of b t). \<not> pe_hard_floor e \<and> pe_tx e = c
       then snd (chan_send v (br_chan b c)) else br_chan b c)"
    using none by (auto simp: eq drain_soft_eq)
  show "fst (resolve_all t v b) = length (filter (\<lambda>e. \<not> pe_hard_floor e) (queue_of b t))" by (simp add: eq)
qed

lemma fold_drop_sender:
  "fold (\<lambda>e ch. ch(pe_tx e := drop_sender (ch (pe_tx e)))) es ch c =
     (if c \<in> pe_tx ` set es then drop_sender (ch c) else ch c)"
  by (induction es arbitrary: ch) (auto simp: drop_sender_def)

lemma map_of_pruned:
  "distinct (map fst al) \<Longrightarrow>
   map_of (filter (\<lambda>(t, q). q \<noteq> []) (map (\<lambda>(t, q). (t, f q)) al)) t =
     (case map_of al t of None \<Rightarrow> None | Some q \<Rightarrow> if f q = [] then None else Some (f q))"
proof (induction al)
  case (Cons p al)
  obtain k q where p: "p = (k, q)" by (cases p)
  show ?case
  proof (cases "t = k")
    case True
    with Cons.prems p have "map_of al t = None" by (simp add: map_of_eq_None_iff)
    with Cons p True show ?thesis by auto
  qed (use Cons p in auto)
qed simp

lemma sweep_expired_effect:
  assumes "distinct (map fst (br_pending b))"
  shows "queue_of (snd (sweep_expired now age b)) t = filter (\<lambda>e. \<not> aged_out now age e) (queue_of b t)"
    and "br_next (snd (sweep_expired now age b)) = br_next b"
    and "br_chan (snd (sweep_expired now age b)) c =
      (if \<exists>t. \<exists>e \<in> set (queue_of b t). aged_out now age e \<and> pe_tx e = c
       then drop_sender (br_chan b c) else br_chan b c)"
proof -
  show "queue_of (snd (sweep_expired now age b)) t = filter (\<lambda>e. \<not> aged_out now age e) (queue_of b t)"
    by (simp add: sweep_expired_def Let_def queue_of_def map_of_pruned [OF assms] split: option.split)
  show "br_next (snd (sweep_expired now age b)) = br_next b"
    by (simp add: sweep_expired_def Let_def)
  have "(\<exists>t. \<exists>e \<in> set (queue_of b t). aged_out now age e \<and> pe_tx e = c) \<longleftrightarrow>
      c \<in> pe_tx ` set (concat (map (\<lambda>(t, q). filter (aged_out now age) q) (br_pending b)))"
    using assms by (fastforce simp: queue_of_def image_iff split: option.splits dest: map_of_SomeD)
  then show "br_chan (snd (sweep_expired now age b)) c =
      (if \<exists>t. \<exists>e \<in> set (queue_of b t). aged_out now age e \<and> pe_tx e = c
       then drop_sender (br_chan b c) else br_chan b c)"
    by (simp add: sweep_expired_def Let_def fold_drop_sender)
qed

section \<open>Invariant\<close>

text \<open>
  The keys are distinct, no empty queue is stored, every pending entry holds the sender of a
  channel of its own that is not answered yet.
\<close>

definition sender_held :: "oneshot \<Rightarrow> bool" where
  "sender_held c \<longleftrightarrow> c = Open \<or> c = Receiver_Dropped"

definition map_inv :: "broker \<Rightarrow> bool" where
  "map_inv b \<longleftrightarrow> distinct (map fst (br_pending b)) \<and> [] \<notin> snd ` set (br_pending b)"

definition own_channels :: "(thread_key \<Rightarrow> pending_entry list) \<Rightarrow> bool" where
  "own_channels q \<longleftrightarrow> (\<forall>t. distinct (map pe_tx (q t)))
     \<and> (\<forall>t t'. \<forall>e \<in> set (q t). \<forall>e' \<in> set (q t'). pe_tx e = pe_tx e' \<longrightarrow> t = t')"

definition broker_inv :: "broker \<Rightarrow> bool" where
  "broker_inv b \<longleftrightarrow> map_inv b \<and> own_channels (queue_of b)
     \<and> (\<forall>t. \<forall>e \<in> set (queue_of b t). pe_tx e < br_next b \<and> sender_held (br_chan b (pe_tx e)))"

lemma map_inv_more [simp]: "map_inv (b\<lparr>br_chan := ch\<rparr>) = map_inv b" "map_inv (b\<lparr>br_next := n\<rparr>) = map_inv b"
  by (simp_all add: map_inv_def)

lemma map_inv_set_queue: "map_inv b \<Longrightarrow> map_inv (set_queue t q b)"
  by (auto simp: map_inv_def set_queue_def distinct_update distinct_delete
      dest!: set_delete_subset [THEN subsetD] set_update_subset [THEN subsetD])

lemma own_channels_shrink:
  assumes "own_channels q" "\<And>t. distinct (map pe_tx (q' t))" "\<And>t. set (q' t) \<subseteq> set (q t)"
  shows "own_channels q'"
  using assms unfolding own_channels_def by (meson subsetD)

lemma broker_inv_shrink:
  assumes inv: "broker_inv b" and "map_inv b'" "br_next b' = br_next b"
    and dist: "\<And>t. distinct (map pe_tx (queue_of b' t))" and sub: "\<And>t. set (queue_of b' t) \<subseteq> set (queue_of b t)"
    and held: "\<And>t e. e \<in> set (queue_of b' t) \<Longrightarrow> sender_held (br_chan b (pe_tx e)) \<Longrightarrow> sender_held (br_chan b' (pe_tx e))"
  shows "broker_inv b'"
proof -
  have "own_channels (queue_of b')" using own_channels_shrink [OF _ dist sub] inv by (simp add: broker_inv_def)
  moreover have "pe_tx e < br_next b' \<and> sender_held (br_chan b' (pe_tx e))" if "e \<in> set (queue_of b' t)" for e t
    using inv that sub [of t] held [OF that] assms(3) by (auto simp: broker_inv_def)
  ultimately show ?thesis using assms(2) by (simp add: broker_inv_def)
qed

lemma own_channelsD:
  "own_channels q \<Longrightarrow> e \<in> set (q t) \<Longrightarrow> e' \<in> set (q t') \<Longrightarrow> pe_tx e = pe_tx e' \<Longrightarrow> t = t' \<and> e = e'"
  unfolding own_channels_def by (metis distinct_map inj_onD)

text \<open>Answering one entry \<open>e\<close> of a queue \<open>xs @ e # ys\<close>, the common core of two resolve paths.\<close>

lemma broker_inv_answer:
  assumes inv: "broker_inv b" and q: "queue_of b t = xs @ e # ys"
  shows "broker_inv (snd (send_on (pe_tx e) v (set_queue t (xs @ ys) b)))"
proof (rule broker_inv_shrink [OF inv])
  have own: "own_channels (queue_of b)" using inv by (simp add: broker_inv_def)
  have d: "distinct (map pe_tx (xs @ e # ys))"
    using own unfolding own_channels_def q [symmetric] by blast
  show "map_inv (snd (send_on (pe_tx e) v (set_queue t (xs @ ys) b)))"
    using inv map_inv_set_queue by (auto simp: broker_inv_def send_on_def split: prod.split)
  show "distinct (map pe_tx (queue_of (snd (send_on (pe_tx e) v (set_queue t (xs @ ys) b))) t'))" for t'
    using own d by (simp add: own_channels_def)
  fix t' e' assume e': "e' \<in> set (queue_of (snd (send_on (pe_tx e) v (set_queue t (xs @ ys) b))) t')"
    and held: "sender_held (br_chan b (pe_tx e'))"
  have "pe_tx e' \<noteq> pe_tx e"
  proof
    assume eq: "pe_tx e' = pe_tx e"
    have "e \<in> set (queue_of b t)" using q by simp
    moreover have "e' \<in> set (queue_of b t')" using e' q by (auto split: if_splits)
    ultimately have "t' = t" "e' = e" using own_channelsD [OF own _ _ eq] by blast+
    with e' d show False by auto
  qed
  then show "sender_held (br_chan (snd (send_on (pe_tx e) v (set_queue t (xs @ ys) b))) (pe_tx e'))"
    using held by simp
qed (use q in auto)

lemma broker_inv_step:
  assumes inv: "broker_inv b"
  shows "broker_inv (broker_apply ev b)"
proof (cases ev)
  case (Register now t i hf)
  have "e \<in> set (queue_of b t') \<Longrightarrow> pe_tx e < br_next b" for e t'
    using inv by (auto simp: broker_inv_def)
  then show ?thesis using inv map_inv_set_queue
    by (fastforce simp: Register register_def Let_def broker_inv_def own_channels_def sender_held_def)
next
  case (Answer_Id t i v)
  show ?thesis
  proof (cases "take_entry i (queue_of b t)")
    case (Some p)
    then obtain e r where "take_entry i (queue_of b t) = Some (e, r)" by (cases p) auto
    then show ?thesis
      using take_entry_Some broker_inv_answer [OF inv] by (fastforce simp: Answer_Id resolve_by_id_def)
  qed (simp add: Answer_Id resolve_by_id_def inv)
next
  case (Answer_Fifo t v)
  then show ?thesis using inv broker_inv_answer [OF inv, of t "[]"]
    by (auto simp: resolve_fifo_def split: list.split)
next
  case (Answer_All t v)
  show ?thesis unfolding Answer_All broker_apply.simps
  proof (rule broker_inv_shrink [OF inv])
    show "map_inv (snd (resolve_all t v b))"
      using inv map_inv_set_queue by (auto simp: resolve_all_def broker_inv_def split: option.split prod.split)
    show "distinct (map pe_tx (queue_of (snd (resolve_all t v b)) t'))" for t'
      using inv by (auto simp: resolve_all_effect broker_inv_def own_channels_def distinct_map_filter)
    fix t' e assume e: "e \<in> set (queue_of (snd (resolve_all t v b)) t')" and h: "sender_held (br_chan b (pe_tx e))"
    have own: "own_channels (queue_of b)" using inv by (simp add: broker_inv_def)
    have "e' \<in> set (queue_of b t) \<Longrightarrow> pe_tx e' = pe_tx e \<Longrightarrow> pe_hard_floor e'" for e'
      using e own_channelsD [OF own, of e t' e' t] by (auto simp: resolve_all_effect split: if_splits)
    then show "sender_held (br_chan (snd (resolve_all t v b)) (pe_tx e))" using h by (auto simp: resolve_all_effect)
  qed (auto simp: resolve_all_effect)
next
  case (Sweep now age)
  have d: "distinct (map fst (br_pending b))" using inv by (simp add: broker_inv_def map_inv_def)
  note eff = sweep_expired_effect [OF d]
  show ?thesis unfolding Sweep broker_apply.simps
  proof (rule broker_inv_shrink [OF inv])
    show "map_inv (snd (sweep_expired now age b))"
      using d by (auto simp: sweep_expired_def Let_def map_inv_def map_filter_def comp_def case_prod_beta
          intro!: distinct_map_filter)
    show "distinct (map pe_tx (queue_of (snd (sweep_expired now age b)) t'))" for t'
      using inv by (auto simp: eff broker_inv_def own_channels_def distinct_map_filter)
    fix t' e assume e: "e \<in> set (queue_of (snd (sweep_expired now age b)) t')" and h: "sender_held (br_chan b (pe_tx e))"
    have own: "own_channels (queue_of b)" using inv by (simp add: broker_inv_def)
    have "e' \<in> set (queue_of b t'') \<Longrightarrow> pe_tx e' = pe_tx e \<Longrightarrow> \<not> aged_out now age e'" for e' t''
      using e own_channelsD [OF own, of e t' e' t''] by (auto simp: eff)
    then show "sender_held (br_chan (snd (sweep_expired now age b)) (pe_tx e))" using h by (auto simp: eff)
  qed (auto simp: eff)
next
  case (Abandon rx)
  have "map_inv (abandon rx b)" "br_next (abandon rx b) = br_next b" "queue_of (abandon rx b) = queue_of b"
    using inv by (simp_all add: abandon_def broker_inv_def)
  then show ?thesis using inv by (auto simp: Abandon broker_inv_def abandon_def drop_receiver_def sender_held_def)
qed

lemma broker_reachable_inv: "broker_reachable b \<Longrightarrow> broker_inv b"
proof (induction rule: broker_reachable.induct)
  case init
  show ?case by (simp add: broker_new_def broker_inv_def map_inv_def own_channels_def queue_of_def)
qed (rule broker_inv_step)

section \<open>Decisions\<close>

text \<open>When an event answers the entry \<open>e\<close> of thread \<open>t\<close> with \<open>v\<close>.\<close>

fun answers :: "broker_event \<Rightarrow> broker \<Rightarrow> thread_key \<Rightarrow> pending_entry \<Rightarrow> bool \<Rightarrow> bool" where
  "answers (Answer_Id t' i w) b t e v \<longleftrightarrow> t' = t \<and> w = v \<and> find (\<lambda>x. pe_request_id x = i) (queue_of b t) = Some e"
| "answers (Answer_Fifo t' w) b t e v \<longleftrightarrow> t' = t \<and> w = v \<and> take 1 (queue_of b t) = [e]"
| "answers (Answer_All t' w) b t e v \<longleftrightarrow> t' = t \<and> w = v \<and> \<not> pe_hard_floor e"
| "answers _ b t e v \<longleftrightarrow> False"

lemma find_take_entry: "find (\<lambda>x. pe_request_id x = i) q = map_option fst (take_entry i q)"
  by (induction q) (auto simp: option.map_comp comp_def case_prod_beta)

lemma pending_facts:
  assumes "broker_inv b" "e \<in> set (queue_of b t)"
  shows "pe_tx e < br_next b"
    and "e' \<in> set (queue_of b t') \<Longrightarrow> pe_tx e' = pe_tx e \<longleftrightarrow> t' = t \<and> e' = e"
    and "distinct (map fst (br_pending b))"
  using assms own_channelsD [of "queue_of b" e t e' t'] by (auto simp: broker_inv_def map_inv_def)

lemma chan_send_Delivered: "snd (chan_send w c) = Delivered v \<longleftrightarrow> c = Delivered v \<or> c = Open \<and> w = v"
  by (auto simp: chan_send_def)

lemma decision_step:
  assumes inv: "broker_inv b" and e: "e \<in> set (queue_of b t)" and op: "br_chan b (pe_tx e) = Open"
  shows "br_chan (broker_apply ev b) (pe_tx e) = Delivered v \<longleftrightarrow> answers ev b t e v"
proof (cases ev)
  case (Answer_Id t' i w)
  show ?thesis
  proof (cases "take_entry i (queue_of b t')")
    case (Some p)
    then obtain x r where x: "take_entry i (queue_of b t') = Some (x, r)" by (cases p) auto
    then have "x \<in> set (queue_of b t')" using take_entry_Some by fastforce
    with pending_facts(2) [OF inv e] have "pe_tx x = pe_tx e \<longleftrightarrow> t' = t \<and> x = e" by blast
    then show ?thesis
      using x op by (auto simp: Answer_Id resolve_by_id_def find_take_entry chan_send_Delivered)
  qed (use op in \<open>auto simp: Answer_Id resolve_by_id_def find_take_entry\<close>)
next
  case (Answer_Fifo t' w)
  show ?thesis
  proof (cases "queue_of b t'")
    case (Cons x r)
    with pending_facts(2) [OF inv e, of x t'] have "pe_tx x = pe_tx e \<longleftrightarrow> t' = t \<and> x = e" by simp
    then show ?thesis
      using Cons op by (auto simp: Answer_Fifo resolve_fifo_def chan_send_Delivered)
  qed (use op in \<open>auto simp: Answer_Fifo resolve_fifo_def\<close>)
next
  case (Answer_All t' w)
  have "(\<exists>x \<in> set (queue_of b t'). \<not> pe_hard_floor x \<and> pe_tx x = pe_tx e) \<longleftrightarrow> t' = t \<and> \<not> pe_hard_floor e"
    using pending_facts(2) [OF inv e] e by blast
  then show ?thesis using op by (auto simp: Answer_All resolve_all_effect chan_send_Delivered)
qed (use op pending_facts [OF inv e] in \<open>auto simp: register_def Let_def sweep_expired_effect abandon_def
  drop_sender_def drop_receiver_def\<close>)

text \<open>Allocated channels that are decided stay as they are.\<close>

lemma settled_step:
  assumes inv: "broker_inv b" and c: "c < br_next b" "br_chan b c \<noteq> Open"
  shows "br_chan (broker_apply ev b) c = br_chan b c \<and> c < br_next (broker_apply ev b)"
proof (cases ev)
  case (Answer_Id t i w)
  then show ?thesis using c by (auto simp: resolve_by_id_def chan_send_def split: option.split)
next
  case (Answer_Fifo t w)
  then show ?thesis using c by (auto simp: resolve_fifo_def chan_send_def split: list.split)
next
  case (Sweep now age)
  have "distinct (map fst (br_pending b))" using inv by (simp add: broker_inv_def map_inv_def)
  then show ?thesis using c by (auto simp: Sweep sweep_expired_effect drop_sender_def)
qed (use c in \<open>auto simp: register_def Let_def resolve_all_effect chan_send_def abandon_def drop_receiver_def\<close>)

text \<open>One event moves a pending entry forward, or decides it; a FIFO answer does one of the two.\<close>

definition waits_behind :: "broker \<Rightarrow> thread_key \<Rightarrow> pending_entry \<Rightarrow> nat \<Rightarrow> bool" where
  "waits_behind b t e n \<longleftrightarrow> (\<exists>xs ys. queue_of b t = xs @ e # ys \<and> length xs \<le> n)"

definition settled :: "broker \<Rightarrow> pending_entry \<Rightarrow> bool" where
  "settled b e \<longleftrightarrow> pe_tx e < br_next b \<and> br_chan b (pe_tx e) \<noteq> Open"

lemma filter_neq_id [simp]: "x \<notin> set zs \<Longrightarrow> filter (\<lambda>y. y \<noteq> x) zs = zs"
  by (induction zs) auto

lemma waits_filter:
  assumes "waits_behind b t e n" "queue_of b' t = filter P (queue_of b t)" "P e"
  shows "waits_behind b' t e n"
proof -
  obtain xs ys where "queue_of b t = xs @ e # ys" "length xs \<le> n" using assms(1) by (auto simp: waits_behind_def)
  then have "queue_of b' t = filter P xs @ e # filter P ys" "length (filter P xs) \<le> n"
    using assms(2,3) by (auto intro: le_trans length_filter_le)
  then show ?thesis unfolding waits_behind_def by blast
qed

lemma waits_pending: "waits_behind b t e n \<Longrightarrow> e \<in> set (queue_of b t)"
  by (auto simp: waits_behind_def)

lemma settled_answer: "pe_tx e < br_next b \<Longrightarrow> settled (snd (send_on (pe_tx e) v (set_queue t q b))) e"
  by (auto simp: settled_def chan_send_def)

lemma queue_distinct: "broker_inv b \<Longrightarrow> distinct (queue_of b t)"
  by (auto simp: broker_inv_def own_channels_def distinct_map)

lemma waits_step:
  assumes inv: "broker_inv b" and w: "waits_behind b t e n"
  shows "settled (broker_apply ev b) e \<or> waits_behind (broker_apply ev b) t e n"
proof -
  note e = waits_pending [OF w] and pf = pending_facts [OF inv waits_pending [OF w]]
  show ?thesis
  proof (cases ev)
    case (Register now t' i hf)
    obtain xs ys where q: "queue_of b t = xs @ e # ys" "length xs \<le> n" using w by (auto simp: waits_behind_def)
    then obtain zs where "queue_of (broker_apply ev b) t = xs @ e # ys @ zs"
      by (cases "t' = t") (auto simp: Register register_def Let_def)
    then show ?thesis using q unfolding waits_behind_def by blast
  next
    case (Answer_Id t' i v)
    show ?thesis
    proof (cases "take_entry i (queue_of b t')")
      case (Some p)
      then obtain x r where x: "take_entry i (queue_of b t') = Some (x, r)" by (cases p) auto
      then have r: "r = filter (\<lambda>y. y \<noteq> x) (queue_of b t')" "x \<in> set (queue_of b t')"
        using take_entry_Some [OF x] queue_distinct [OF inv, of t'] by auto
      show ?thesis
      proof (cases "t' = t \<and> x = e")
        case True
        then show ?thesis using x settled_answer [OF pf(1)] by (simp add: Answer_Id resolve_by_id_def)
      next
        case False
        then have "queue_of (broker_apply ev b) t = filter (\<lambda>y. t' = t \<longrightarrow> y \<noteq> x) (queue_of b t)"
          using x r by (simp add: Answer_Id resolve_by_id_def)
        then show ?thesis using waits_filter [OF w] False by blast
      qed
    qed (simp add: Answer_Id resolve_by_id_def w)
  next
    case (Answer_Fifo t' v)
    show ?thesis
    proof (cases "queue_of b t'")
      case (Cons x r)
      show ?thesis
      proof (cases "t' = t \<and> x = e")
        case True
        then show ?thesis using Cons settled_answer [OF pf(1)] by (simp add: Answer_Fifo resolve_fifo_def)
      next
        case False
        then have "queue_of (broker_apply ev b) t = filter (\<lambda>y. t' = t \<longrightarrow> y \<noteq> x) (queue_of b t)"
          using Cons queue_distinct [OF inv, of t'] by (auto simp: Answer_Fifo resolve_fifo_def)
        then show ?thesis using waits_filter [OF w] False by blast
      qed
    qed (simp add: Answer_Fifo resolve_fifo_def w)
  next
    case (Answer_All t' v)
    have f: "queue_of (broker_apply ev b) t = filter (\<lambda>y. t' = t \<longrightarrow> pe_hard_floor y) (queue_of b t)"
      by (simp add: Answer_All resolve_all_effect)
    show ?thesis
    proof (cases "t' = t \<and> \<not> pe_hard_floor e")
      case True
      then show ?thesis using e pf(1) by (auto simp: Answer_All resolve_all_effect settled_def chan_send_def)
    qed (use waits_filter [OF w f] in blast)
  next
    case (Sweep now age)
    then show ?thesis using waits_filter [OF w, of "broker_apply ev b" "\<lambda>y. \<not> aged_out now age y"] e pf(1,3)
      by (auto simp: sweep_expired_effect settled_def drop_sender_def)
  qed (use w in \<open>auto simp: abandon_def waits_behind_def\<close>)
qed

lemma fifo_step:
  assumes inv: "broker_inv b" and w: "waits_behind b t e n"
  shows "settled (broker_apply (Answer_Fifo t v) b) e
    \<or> 0 < n \<and> waits_behind (broker_apply (Answer_Fifo t v) b) t e (n - 1)"
proof -
  obtain xs ys where q: "queue_of b t = xs @ e # ys" "length xs \<le> n" using w by (auto simp: waits_behind_def)
  show ?thesis
  proof (cases xs)
    case Nil
    then show ?thesis using q settled_answer pending_facts(1) [OF inv waits_pending [OF w]]
      by (simp add: resolve_fifo_def)
  next
    case (Cons x zs)
    then show ?thesis using q by (auto simp: resolve_fifo_def waits_behind_def)
  qed
qed

lemma settled_run: "broker_inv b \<Longrightarrow> settled b e \<Longrightarrow> settled (fold broker_apply evs b) e"
proof (induction evs arbitrary: b)
  case (Cons ev evs)
  then show ?case using settled_step [of b "pe_tx e" ev] broker_inv_step by (auto simp: settled_def)
qed simp

fun is_fifo_on :: "thread_key \<Rightarrow> broker_event \<Rightarrow> bool" where
  "is_fifo_on t (Answer_Fifo t' v) \<longleftrightarrow> t' = t"
| "is_fifo_on t ev \<longleftrightarrow> False"

lemma is_fifo_on_iff: "is_fifo_on t ev \<longleftrightarrow> (\<exists>v. ev = Answer_Fifo t v)"
  by (cases ev) auto

lemma waits_run:
  assumes "broker_inv b" "waits_behind b t e n" "n < length (filter (is_fifo_on t) evs)"
  shows "settled (fold broker_apply evs b) e"
  using assms
proof (induction evs arbitrary: b n)
  case (Cons ev evs)
  note inv = broker_inv_step [OF Cons.prems(1), of ev]
  consider "settled (broker_apply ev b) e"
    | "is_fifo_on t ev" "0 < n" "waits_behind (broker_apply ev b) t e (n - 1)"
    | "\<not> is_fifo_on t ev" "waits_behind (broker_apply ev b) t e n"
    using waits_step [OF Cons.prems(1,2), of ev] fifo_step [OF Cons.prems(1,2)]
    by (cases "is_fifo_on t ev") (metis is_fifo_on_iff)+
  then show ?case
  proof cases
    case 1
    then show ?thesis using settled_run [OF inv] by simp
  next
    case 2
    then show ?thesis using Cons.IH [OF inv 2(3)] Cons.prems(3) by auto
  next
    case 3
    then show ?thesis using Cons.IH [OF inv 3(2)] Cons.prems(3) by auto
  qed
qed simp

section \<open>Properties\<close>

text \<open>
  C9. A decision reaches exactly the request it addresses: in every reachable state, an event makes
  the waiting handler of a pending request see the answer \<open>v\<close> if and only if it is an answer
  \<open>v\<close> on the request's own thread that names the request's identifier (as the first with it),
  or is untargeted with the request at the head of the queue, or is a batch answer and the
  request is not on the hard floor; and no later event changes a decision.
\<close>

theorem decision_exact:
  assumes "broker_reachable b" "e \<in> set (queue_of b t)" "br_chan b (pe_tx e) = Open"
  shows "(br_chan (broker_apply ev b) (pe_tx e) = Delivered v \<longleftrightarrow> answers ev b t e v)
    \<and> (\<forall>c w. c < br_next b \<and> br_chan b c = Delivered w \<longrightarrow> br_chan (broker_apply ev b) c = Delivered w)"
  using decision_step settled_step broker_reachable_inv [OF assms(1)] assms(2,3) by auto

lemma broker_reachable_run: "broker_reachable b \<Longrightarrow> broker_reachable (fold broker_apply evs b)"
  by (induction evs arbitrary: b) (simp_all add: broker_reachable.step)

definition sample_broker :: broker where
  "sample_broker = fold broker_apply
     [Register 0 (thread_key_new ''u'' ''a'') ''r1'' True, Register 5 (thread_key_new ''u'' ''a'') ''r2'' False] broker_new"

lemma sample_broker_reachable: "broker_reachable sample_broker"
  unfolding sample_broker_def by (rule broker_reachable_run [OF broker_reachable.init])

definition sample_entry :: "string \<Rightarrow> bool \<Rightarrow> int \<Rightarrow> nat \<Rightarrow> pending_entry" where
  "sample_entry i hf at c = \<lparr>pe_request_id = i, pe_hard_floor = hf, pe_created_at = at, pe_tx = c\<rparr>"

lemma sample_broker_queue:
  "queue_of sample_broker (thread_key_new ''u'' ''a'') = [sample_entry ''r1'' True 0 0, sample_entry ''r2'' False 5 1]"
  "br_chan sample_broker c = Open"
  by (simp_all add: sample_broker_def sample_entry_def register_def broker_new_def Let_def)
    (simp_all add: queue_of_def)

theorem decision_exact_witness:
  "br_chan (broker_apply (Answer_All (thread_key_new ''u'' ''a'') True) sample_broker) 0 \<noteq> Delivered True
   \<and> br_chan (broker_apply (Answer_All (thread_key_new ''u'' ''a'') True) sample_broker) 1 = Delivered True"
  using decision_exact [OF sample_broker_reachable, of "sample_entry ''r1'' True 0 0" "thread_key_new ''u'' ''a''"
      "Answer_All (thread_key_new ''u'' ''a'') True" True]
    decision_exact [OF sample_broker_reachable, of "sample_entry ''r2'' False 5 1" "thread_key_new ''u'' ''a''"
      "Answer_All (thread_key_new ''u'' ''a'') True" True]
  by (simp add: sample_broker_queue) (simp add: sample_entry_def)

text \<open>
  C10. No pending request starves: if \<open>n\<close> requests of its thread are ahead of it, then after any
  sequence of events that holds more than \<open>n\<close> untargeted answers on that thread the request's
  channel is closed for good, whatever registrations, sweeps, time-outs and answers on this or
  other threads come in between.
\<close>

theorem no_starvation:
  assumes "broker_reachable b" "queue_of b t = xs @ e # ys"
    and "length xs < length (filter (is_fifo_on t) evs)"
  shows "br_chan (fold broker_apply evs b) (pe_tx e) \<noteq> Open"
  using waits_run [OF broker_reachable_inv [OF assms(1)] _ assms(3), of e] assms(2)
  by (auto simp: waits_behind_def settled_def)

theorem no_starvation_witness:
  "br_chan (fold broker_apply [Answer_Fifo (thread_key_new ''u'' ''a'') False, Sweep 7 600,
      Answer_Fifo (thread_key_new ''u'' ''a'') True] sample_broker) 1 \<noteq> Open"
  using no_starvation [OF sample_broker_reachable, of "thread_key_new ''u'' ''a''" "[sample_entry ''r1'' True 0 0]"
      "sample_entry ''r2'' False 5 1" "[]" "[Answer_Fifo (thread_key_new ''u'' ''a'') False, Sweep 7 600,
      Answer_Fifo (thread_key_new ''u'' ''a'') True]"]
  by (simp del: fold_simps add: sample_broker_queue) (simp del: fold_simps add: sample_entry_def)

text \<open>
  An untargeted answer is spent on a request nobody waits for any more: a handler that timed out
  leaves its entry at the head of the queue until a sweep, and the next answer goes to it, is
  reported as not handled, and leaves the live request behind it undecided.
\<close>

theorem stale_entry_eats_answer:
  assumes "broker_reachable b" "queue_of b t = e # e' # q"
    and "br_chan b (pe_tx e) = Receiver_Dropped" "br_chan b (pe_tx e') = Open"
  shows "\<not> fst (resolve_fifo t v b) \<and> queue_of (snd (resolve_fifo t v b)) t = e' # q
    \<and> br_chan (snd (resolve_fifo t v b)) (pe_tx e') = Open"
  using assms pending_facts(2) [OF broker_reachable_inv [OF assms(1)], of e t e' t]
  by (auto simp: resolve_fifo_def chan_send_def)

theorem stale_entry_eats_answer_witness:
  "\<not> fst (resolve_fifo (thread_key_new ''u'' ''a'') True (broker_apply (Abandon 0) sample_broker))"
proof -
  have "queue_of (broker_apply (Abandon 0) sample_broker) (thread_key_new ''u'' ''a'') =
      [sample_entry ''r1'' True 0 0, sample_entry ''r2'' False 5 1]"
    "br_chan (broker_apply (Abandon 0) sample_broker) = (\<lambda>_. Open)(0 := Receiver_Dropped)"
    by (simp_all add: abandon_def sample_broker_queue drop_receiver_def fun_eq_iff)
  from stale_entry_eats_answer [OF broker_reachable.step [OF sample_broker_reachable] this(1)] this(2)
  show ?thesis by (simp add: sample_entry_def)
qed

end
