(* ===== verification/Bus.thy ===== *)
theory Bus
  imports Errors
begin

text \<open>
  The message bus (\<open>src/src/bus/mod.rs\<close>, \<open>src/src/bus/message.rs\<close>): the message types, and two
  bounded multi-producer queues, from the channels to the agent and back, with an interceptor
  in front of the first. A queue is its buffered messages and the messages of the senders that
  wait for room, in the order in which the fair semaphore of the channel serves them. A publish
  that has to wait is a value of its own. The interceptor is a function of the message and of the
  state it shares with the rest of the program.
\<close>

section \<open>Messages\<close>

datatype media_type = Media_Image | Media_Audio | Media_Video | Media_Document

record media_attachment =
  ma_media_type :: media_type
  ma_url :: "string option"
  ma_data :: "string option"
  ma_filename :: "string option"
  ma_mime_type :: "string option"

definition media_new :: "media_type \<Rightarrow> media_attachment" where
  "media_new t = \<lparr>ma_media_type = t, ma_url = None, ma_data = None, ma_filename = None, ma_mime_type = None\<rparr>"

definition media_with_url :: "string \<Rightarrow> media_attachment \<Rightarrow> media_attachment" where
  "media_with_url u a = a\<lparr>ma_url := Some u\<rparr>"

definition media_with_data :: "string \<Rightarrow> media_attachment \<Rightarrow> media_attachment" where
  "media_with_data d a = a\<lparr>ma_data := Some d\<rparr>"

definition media_with_filename :: "string \<Rightarrow> media_attachment \<Rightarrow> media_attachment" where
  "media_with_filename f a = a\<lparr>ma_filename := Some f\<rparr>"

definition media_with_mime_type :: "string \<Rightarrow> media_attachment \<Rightarrow> media_attachment" where
  "media_with_mime_type m a = a\<lparr>ma_mime_type := Some m\<rparr>"

definition media_has_url :: "media_attachment \<Rightarrow> bool" where
  "media_has_url a \<longleftrightarrow> ma_url a \<noteq> None"

definition media_has_data :: "media_attachment \<Rightarrow> bool" where
  "media_has_data a \<longleftrightarrow> ma_data a \<noteq> None"

record inbound_message =
  im_channel :: string
  im_sender_id :: string
  im_chat_id :: string
  im_content :: string
  im_media :: "media_attachment list"
  im_session_key :: string
  im_metadata :: "string \<rightharpoonup> string"

definition inbound_new :: "string \<Rightarrow> string \<Rightarrow> string \<Rightarrow> string \<Rightarrow> inbound_message" where
  "inbound_new channel sender_id chat_id content =
     \<lparr>im_channel = channel, im_sender_id = sender_id, im_chat_id = chat_id, im_content = content, im_media = [],
      im_session_key = channel @ '':'' @ chat_id, im_metadata = Map.empty\<rparr>"

definition inbound_with_media :: "media_attachment \<Rightarrow> inbound_message \<Rightarrow> inbound_message" where
  "inbound_with_media a m = m\<lparr>im_media := im_media m @ [a]\<rparr>"

definition inbound_with_metadata :: "string \<Rightarrow> string \<Rightarrow> inbound_message \<Rightarrow> inbound_message" where
  "inbound_with_metadata k v m = m\<lparr>im_metadata := (im_metadata m)(k \<mapsto> v)\<rparr>"

definition inbound_has_media :: "inbound_message \<Rightarrow> bool" where
  "inbound_has_media m \<longleftrightarrow> im_media m \<noteq> []"

datatype outbound_message_kind = Full | Chunk | ChunkEnd | Custom

record outbound_message =
  om_channel :: string
  om_chat_id :: string
  om_content :: string
  om_reply_to :: "string option"
  om_metadata :: "string \<rightharpoonup> string"
  om_kind :: outbound_message_kind

definition outbound_error_key :: string where
  "outbound_error_key = ''error''"

definition outbound_new :: "string \<Rightarrow> string \<Rightarrow> string \<Rightarrow> outbound_message" where
  "outbound_new channel chat_id content =
     \<lparr>om_channel = channel, om_chat_id = chat_id, om_content = content, om_reply_to = None,
      om_metadata = Map.empty, om_kind = Full\<rparr>"

definition outbound_with_kind :: "outbound_message_kind \<Rightarrow> outbound_message \<Rightarrow> outbound_message" where
  "outbound_with_kind k m = m\<lparr>om_kind := k\<rparr>"

definition outbound_with_metadata :: "string \<Rightarrow> string \<Rightarrow> outbound_message \<Rightarrow> outbound_message" where
  "outbound_with_metadata k v m = m\<lparr>om_metadata := (om_metadata m)(k \<mapsto> v)\<rparr>"

definition mark_error :: "outbound_message \<Rightarrow> outbound_message" where
  "mark_error = outbound_with_metadata outbound_error_key ''true''"

definition outbound_is_error :: "outbound_message \<Rightarrow> bool" where
  "outbound_is_error m \<longleftrightarrow> om_metadata m outbound_error_key = Some ''true''"

definition outbound_with_reply :: "string \<Rightarrow> outbound_message \<Rightarrow> outbound_message" where
  "outbound_with_reply i m = m\<lparr>om_reply_to := Some i\<rparr>"

definition outbound_reply_to :: "inbound_message \<Rightarrow> string \<Rightarrow> outbound_message" where
  "outbound_reply_to m content = outbound_new (im_channel m) (im_chat_id m) content"

section \<open>Bounded channels\<close>

record 'm mpsc =
  ch_cap :: nat
  ch_buf :: "'m list"
  ch_waiting :: "'m list"
  ch_open :: bool

definition mpsc_channel :: "nat \<Rightarrow> 'm mpsc" where
  "mpsc_channel cap = \<lparr>ch_cap = cap, ch_buf = [], ch_waiting = [], ch_open = True\<rparr>"

datatype send_status = Sent | Waiting | Buffer_Full | Receiver_Gone

definition mpsc_send :: "'m \<Rightarrow> 'm mpsc \<Rightarrow> send_status \<times> 'm mpsc" where
  "mpsc_send m c =
     (if \<not> ch_open c then (Receiver_Gone, c)
      else if length (ch_buf c) < ch_cap c then (Sent, c\<lparr>ch_buf := ch_buf c @ [m]\<rparr>)
      else (Waiting, c\<lparr>ch_waiting := ch_waiting c @ [m]\<rparr>))"

definition mpsc_try_send :: "'m \<Rightarrow> 'm mpsc \<Rightarrow> send_status \<times> 'm mpsc" where
  "mpsc_try_send m c =
     (if \<not> ch_open c then (Receiver_Gone, c)
      else if length (ch_buf c) < ch_cap c then (Sent, c\<lparr>ch_buf := ch_buf c @ [m]\<rparr>)
      else (Buffer_Full, c))"

text \<open>Receiving frees a slot, which goes to the sender that waits longest. \<open>None\<close>: the receiver has to wait.\<close>

definition mpsc_recv :: "'m mpsc \<Rightarrow> 'm option \<times> 'm mpsc" where
  "mpsc_recv c =
     (case ch_buf c of
        [] \<Rightarrow> (None, c)
      | m # r \<Rightarrow> (Some m, c\<lparr>ch_buf := r @ take 1 (ch_waiting c), ch_waiting := drop 1 (ch_waiting c)\<rparr>))"

section \<open>The bus\<close>

definition default_buffer_size :: nat where
  "default_buffer_size = 100"

record 'w message_bus =
  bus_inbound :: "inbound_message mpsc"
  bus_outbound :: "outbound_message mpsc"
  bus_interceptor :: "(inbound_message \<Rightarrow> 'w \<Rightarrow> bool \<times> 'w) option"

text \<open>A buffer of size zero panics in the channel constructor.\<close>

definition with_buffer_size :: "nat \<Rightarrow> 'w message_bus option" where
  "with_buffer_size n =
     (if n = 0 then None
      else Some \<lparr>bus_inbound = mpsc_channel n, bus_outbound = mpsc_channel n, bus_interceptor = None\<rparr>)"

definition bus_new :: "'w message_bus option" where
  "bus_new = with_buffer_size default_buffer_size"

datatype publish_outcome = Intercepted | Queued | Awaiting_Room | Failed zepto_error

definition publish_outcome_of :: "string \<Rightarrow> send_status \<Rightarrow> publish_outcome" where
  "publish_outcome_of dir s =
     (case s of Sent \<Rightarrow> Queued | Waiting \<Rightarrow> Awaiting_Room
      | Buffer_Full \<Rightarrow> Failed (Channel (dir @ '' buffer full'')) | Receiver_Gone \<Rightarrow> Failed BusClosed)"

definition intercept :: "inbound_message \<Rightarrow> 'w message_bus \<Rightarrow> 'w \<Rightarrow> bool \<times> 'w" where
  "intercept msg b w = (case bus_interceptor b of None \<Rightarrow> (False, w) | Some f \<Rightarrow> f msg w)"

definition publish_inbound_with_status ::
    "inbound_message \<Rightarrow> 'w message_bus \<Rightarrow> 'w \<Rightarrow> publish_outcome \<times> 'w message_bus \<times> 'w" where
  "publish_inbound_with_status msg b w =
     (case intercept msg b w of
        (True, w') \<Rightarrow> (Intercepted, b, w')
      | (False, w') \<Rightarrow>
          (case mpsc_send msg (bus_inbound b) of
             (s, c) \<Rightarrow> (publish_outcome_of ''inbound'' s, b\<lparr>bus_inbound := c\<rparr>, w')))"

definition try_publish_inbound_with_status ::
    "inbound_message \<Rightarrow> 'w message_bus \<Rightarrow> 'w \<Rightarrow> publish_outcome \<times> 'w message_bus \<times> 'w" where
  "try_publish_inbound_with_status msg b w =
     (case intercept msg b w of
        (True, w') \<Rightarrow> (Intercepted, b, w')
      | (False, w') \<Rightarrow>
          (case mpsc_try_send msg (bus_inbound b) of
             (s, c) \<Rightarrow> (publish_outcome_of ''inbound'' s, b\<lparr>bus_inbound := c\<rparr>, w')))"

text \<open>The cloned sender of \<open>inbound_sender\<close> goes around the interceptor.\<close>

definition send_direct :: "inbound_message \<Rightarrow> 'w message_bus \<Rightarrow> publish_outcome \<times> 'w message_bus" where
  "send_direct msg b =
     (case mpsc_send msg (bus_inbound b) of (s, c) \<Rightarrow> (publish_outcome_of ''inbound'' s, b\<lparr>bus_inbound := c\<rparr>))"

definition consume_inbound :: "'w message_bus \<Rightarrow> inbound_message option \<times> 'w message_bus" where
  "consume_inbound b = (case mpsc_recv (bus_inbound b) of (m, c) \<Rightarrow> (m, b\<lparr>bus_inbound := c\<rparr>))"

definition publish_outbound :: "outbound_message \<Rightarrow> 'w message_bus \<Rightarrow> publish_outcome \<times> 'w message_bus" where
  "publish_outbound msg b =
     (case mpsc_send msg (bus_outbound b) of (s, c) \<Rightarrow> (publish_outcome_of ''outbound'' s, b\<lparr>bus_outbound := c\<rparr>))"

definition try_publish_outbound :: "outbound_message \<Rightarrow> 'w message_bus \<Rightarrow> publish_outcome \<times> 'w message_bus" where
  "try_publish_outbound msg b =
     (case mpsc_try_send msg (bus_outbound b) of (s, c) \<Rightarrow> (publish_outcome_of ''outbound'' s, b\<lparr>bus_outbound := c\<rparr>))"

definition consume_outbound :: "'w message_bus \<Rightarrow> outbound_message option \<times> 'w message_bus" where
  "consume_outbound b = (case mpsc_recv (bus_outbound b) of (m, c) \<Rightarrow> (m, b\<lparr>bus_outbound := c\<rparr>))"

definition set_inbound_interceptor ::
    "(inbound_message \<Rightarrow> 'w \<Rightarrow> bool \<times> 'w) \<Rightarrow> 'w message_bus \<Rightarrow> 'w message_bus" where
  "set_inbound_interceptor f b = b\<lparr>bus_interceptor := Some f\<rparr>"

section \<open>Runs of a queue and its contract\<close>

datatype ('k, 'm) queue_op = Put 'k 'm | Get

definition accepted :: "publish_outcome \<Rightarrow> bool" where
  "accepted r \<longleftrightarrow> r = Queued \<or> r = Awaiting_Room"

text \<open>The messages accepted and the messages delivered by a sequence of operations, and the state after it.\<close>

fun queue_run ::
    "('k \<Rightarrow> 'm \<Rightarrow> 's \<Rightarrow> publish_outcome \<times> 's) \<Rightarrow> ('s \<Rightarrow> 'm option \<times> 's) \<Rightarrow> ('k, 'm) queue_op list \<Rightarrow> 's
       \<Rightarrow> 'm list \<times> 'm list \<times> 's" where
  "queue_run send recv [] s = ([], [], s)"
| "queue_run send recv (Put k m # ops) s =
     (case send k m s of (r, s1) \<Rightarrow>
        (case queue_run send recv ops s1 of (acc, del, s2) \<Rightarrow> (if accepted r then m # acc else acc, del, s2)))"
| "queue_run send recv (Get # ops) s =
     (case recv s of (r, s1) \<Rightarrow>
        (case queue_run send recv ops s1 of (acc, del, s2) \<Rightarrow> (acc, (case r of None \<Rightarrow> del | Some m \<Rightarrow> m # del), s2)))"

locale fifo_queue =
  fixes ok :: "'s \<Rightarrow> bool"
    and contents :: "'s \<Rightarrow> 'm list"
    and send :: "'k \<Rightarrow> 'm \<Rightarrow> 's \<Rightarrow> publish_outcome \<times> 's"
    and recv :: "'s \<Rightarrow> 'm option \<times> 's"
  assumes send_ok: "ok s \<Longrightarrow> ok (snd (send k m s))"
    and send_contents: "ok s \<Longrightarrow>
      contents (snd (send k m s)) = contents s @ (if accepted (fst (send k m s)) then [m] else [])"
    and recv_ok: "ok s \<Longrightarrow> ok (snd (recv s))"
    and recv_contents: "ok s \<Longrightarrow> contents s = (case fst (recv s) of None \<Rightarrow> [] | Some m \<Rightarrow> [m]) @ contents (snd (recv s))"
    and recv_None: "ok s \<Longrightarrow> fst (recv s) = None \<Longrightarrow> contents s = []"
begin

lemma run_fifo:
  "ok s \<Longrightarrow> queue_run send recv ops s = (acc, del, s') \<Longrightarrow> ok s' \<and> contents s @ acc = del @ contents s'"
proof (induction ops arbitrary: s acc del s')
  case (Cons x ops)
  show ?case
  proof (cases x)
    case (Put k m)
    obtain r s1 where r: "send k m s = (r, s1)" by fastforce
    obtain acc1 del1 s2 where q: "queue_run send recv ops s1 = (acc1, del1, s2)" by (metis prod_cases3)
    have "ok s1" "contents s1 = contents s @ (if accepted r then [m] else [])"
      using send_ok [OF Cons.prems(1), of k m] send_contents [OF Cons.prems(1), of k m] r by auto
    with Cons.IH [OF _ q] Cons.prems(2) show ?thesis by (auto simp: Put r q split: if_splits)
  next
    case Get
    obtain r s1 where r: "recv s = (r, s1)" by fastforce
    obtain acc1 del1 s2 where q: "queue_run send recv ops s1 = (acc1, del1, s2)" by (metis prod_cases3)
    have "ok s1" "contents s = (case r of None \<Rightarrow> [] | Some m \<Rightarrow> [m]) @ contents s1"
      using recv_ok [OF Cons.prems(1)] recv_contents [OF Cons.prems(1)] r by auto
    with Cons.IH [OF _ q] Cons.prems(2) show ?thesis by (auto simp: Get r q split: option.splits)
  qed
qed simp

lemma run_progress:
  "ok s \<Longrightarrow> queue_run send recv ops s = (acc, del, s') \<Longrightarrow>
     min (length (contents s)) (length (filter (\<lambda>x. x = Get) ops)) \<le> length del"
proof (induction ops arbitrary: s acc del s')
  case (Cons x ops)
  show ?case
  proof (cases x)
    case (Put k m)
    obtain r s1 where r: "send k m s = (r, s1)" by fastforce
    obtain acc1 del1 s2 where q: "queue_run send recv ops s1 = (acc1, del1, s2)" by (metis prod_cases3)
    have "ok s1" "length (contents s) \<le> length (contents s1)"
      using send_ok [OF Cons.prems(1), of k m] send_contents [OF Cons.prems(1), of k m] r by auto
    with Cons.IH [OF _ q] Cons.prems(2) show ?thesis by (auto simp: Put r q)
  next
    case Get
    obtain r s1 where r: "recv s = (r, s1)" by fastforce
    obtain acc1 del1 s2 where q: "queue_run send recv ops s1 = (acc1, del1, s2)" by (metis prod_cases3)
    have "ok s1" "contents s = (case r of None \<Rightarrow> [] | Some m \<Rightarrow> [m]) @ contents s1" "r = None \<Longrightarrow> contents s = []"
      using recv_ok [OF Cons.prems(1)] recv_contents [OF Cons.prems(1)] recv_None [OF Cons.prems(1)] r by auto
    with Cons.IH [OF _ q] Cons.prems(2) show ?thesis by (auto simp: Get r q split: option.splits)
  qed
qed simp

end

section \<open>The bus keeps the contract\<close>

definition mpsc_ok :: "'m mpsc \<Rightarrow> bool" where
  "mpsc_ok c \<longleftrightarrow> 0 < ch_cap c \<and> length (ch_buf c) \<le> ch_cap c
     \<and> (ch_waiting c \<noteq> [] \<longrightarrow> length (ch_buf c) = ch_cap c)"

definition mpsc_contents :: "'m mpsc \<Rightarrow> 'm list" where
  "mpsc_contents c = ch_buf c @ ch_waiting c"

lemma mpsc_send_ok: "mpsc_ok c \<Longrightarrow> mpsc_ok (snd (mpsc_send m c))" "mpsc_ok c \<Longrightarrow> mpsc_ok (snd (mpsc_try_send m c))"
  by (auto simp: mpsc_send_def mpsc_try_send_def mpsc_ok_def)

lemma mpsc_send_contents:
  assumes "mpsc_ok c"
  shows "mpsc_contents (snd (mpsc_send m c)) =
      mpsc_contents c @ (if accepted (publish_outcome_of d (fst (mpsc_send m c))) then [m] else [])"
    and "mpsc_contents (snd (mpsc_try_send m c)) =
      mpsc_contents c @ (if accepted (publish_outcome_of d (fst (mpsc_try_send m c))) then [m] else [])"
  using assms by (auto simp: mpsc_send_def mpsc_try_send_def mpsc_contents_def mpsc_ok_def accepted_def publish_outcome_of_def)

lemma mpsc_recv_ok: "mpsc_ok c \<Longrightarrow> mpsc_ok (snd (mpsc_recv c))"
  by (cases "ch_waiting c") (auto simp: mpsc_recv_def mpsc_ok_def split: list.split)

lemma mpsc_recv_contents:
  "mpsc_contents c = (case fst (mpsc_recv c) of None \<Rightarrow> [] | Some m \<Rightarrow> [m]) @ mpsc_contents (snd (mpsc_recv c))"
  by (cases "ch_waiting c") (auto simp: mpsc_recv_def mpsc_contents_def split: list.split)

lemma mpsc_recv_None: "mpsc_ok c \<Longrightarrow> fst (mpsc_recv c) = None \<Longrightarrow> mpsc_contents c = []"
  by (cases "ch_waiting c") (auto simp: mpsc_recv_def mpsc_contents_def mpsc_ok_def split: list.splits)

datatype publish_way = Await | Try | Direct

fun inbound_send :: "publish_way \<Rightarrow> inbound_message \<Rightarrow> 'w message_bus \<times> 'w \<Rightarrow> publish_outcome \<times> 'w message_bus \<times> 'w" where
  "inbound_send Await m (b, w) = publish_inbound_with_status m b w"
| "inbound_send Try m (b, w) = try_publish_inbound_with_status m b w"
| "inbound_send Direct m (b, w) = (case send_direct m b of (r, b') \<Rightarrow> (r, b', w))"

definition inbound_recv :: "'w message_bus \<times> 'w \<Rightarrow> inbound_message option \<times> 'w message_bus \<times> 'w" where
  "inbound_recv = (\<lambda>(b, w). case consume_inbound b of (r, b') \<Rightarrow> (r, b', w))"

fun outbound_send :: "bool \<Rightarrow> outbound_message \<Rightarrow> 'w message_bus \<Rightarrow> publish_outcome \<times> 'w message_bus" where
  "outbound_send True m b = publish_outbound m b"
| "outbound_send False m b = try_publish_outbound m b"

lemma inbound_send_cases:
  obtains (intercepted) w' where "inbound_send k m (b, w) = (Intercepted, b, w')"
  | (sent) w' where "inbound_send k m (b, w) =
      (publish_outcome_of ''inbound'' (fst (mpsc_send m (bus_inbound b))), b\<lparr>bus_inbound := snd (mpsc_send m (bus_inbound b))\<rparr>, w')"
  | (tried) w' where "inbound_send k m (b, w) =
      (publish_outcome_of ''inbound'' (fst (mpsc_try_send m (bus_inbound b))), b\<lparr>bus_inbound := snd (mpsc_try_send m (bus_inbound b))\<rparr>, w')"
proof -
  obtain hit w' where i: "intercept m b w = (hit, w')" by fastforce
  show thesis
    by (cases k; cases hit)
      (auto simp: i publish_inbound_with_status_def try_publish_inbound_with_status_def send_direct_def case_prod_beta
        intro: intercepted sent tried)
qed

interpretation inq: fifo_queue "\<lambda>(b, w). mpsc_ok (bus_inbound b)" "\<lambda>(b, w). mpsc_contents (bus_inbound b)"
  inbound_send inbound_recv
proof (unfold_locales, goal_cases)
  case (1 s k m)
  then show ?case
    by (cases s) (cases rule: inbound_send_cases [of k m "fst s" "snd s"]; auto simp: mpsc_send_ok)
next
  case (2 s k m)
  then show ?case
    by (cases s) (cases rule: inbound_send_cases [of k m "fst s" "snd s"];
        auto simp: mpsc_send_contents [where d = "''inbound''"] accepted_def)
next
  case (3 s)
  then show ?case by (cases s) (auto simp: inbound_recv_def consume_inbound_def split: prod.split dest: mpsc_recv_ok)
next
  case (4 s)
  then show ?case using mpsc_recv_contents [of "bus_inbound (fst s)"]
    by (cases s) (auto simp: inbound_recv_def consume_inbound_def split: prod.split)
next
  case (5 s)
  then show ?case using mpsc_recv_None [of "bus_inbound (fst s)"]
    by (cases s) (auto simp: inbound_recv_def consume_inbound_def split: prod.splits)
qed

interpretation outq: fifo_queue "\<lambda>b. mpsc_ok (bus_outbound b)" "\<lambda>b. mpsc_contents (bus_outbound b)"
  outbound_send consume_outbound
proof (unfold_locales, goal_cases)
  case (1 s k m)
  then show ?case
    by (cases k) (auto simp: publish_outbound_def try_publish_outbound_def mpsc_send_ok case_prod_beta)
next
  case (2 s k m)
  then show ?case
    by (cases k) (auto simp: publish_outbound_def try_publish_outbound_def case_prod_beta
        mpsc_send_contents [where d = "''outbound''"])
next
  case (3 s)
  then show ?case by (auto simp: consume_outbound_def case_prod_beta mpsc_recv_ok)
next
  case (4 s)
  then show ?case using mpsc_recv_contents [of "bus_outbound s"] by (simp add: consume_outbound_def case_prod_beta)
next
  case (5 s)
  then show ?case using mpsc_recv_None [of "bus_outbound s"] by (simp add: consume_outbound_def case_prod_beta)
qed

lemma with_buffer_size_ok:
  "with_buffer_size n = Some b \<Longrightarrow> mpsc_ok (bus_inbound b) \<and> mpsc_ok (bus_outbound b)"
  by (auto simp: with_buffer_size_def mpsc_channel_def mpsc_ok_def split: if_splits)

section \<open>Properties\<close>

text \<open>
  Inbound messages are neither lost, duplicated nor reordered: over any sequence of awaited,
  tried and direct publishes and of receives, the messages waiting at the start followed by the
  accepted ones are the delivered ones followed by those still waiting; a message consumed by
  the interceptor or refused is not among them; the buffer stays within its capacity; and a
  receive returns a message whenever one waits, so \<open>k\<close> receives drain at least \<open>k\<close> waiting messages.
\<close>

theorem inbound_fifo:
  assumes "mpsc_ok (bus_inbound b)" "queue_run inbound_send inbound_recv ops (b, w) = (acc, del, b', w')"
  shows "mpsc_contents (bus_inbound b) @ acc = del @ mpsc_contents (bus_inbound b')
    \<and> length (ch_buf (bus_inbound b')) \<le> ch_cap (bus_inbound b')
    \<and> min (length (mpsc_contents (bus_inbound b))) (length (filter (\<lambda>x. x = Get) ops)) \<le> length del"
  using inq.run_fifo [of "(b, w)" ops acc del "(b', w')"] inq.run_progress [of "(b, w)" ops acc del "(b', w')"] assms
  by (simp add: mpsc_ok_def)

definition sample_bus :: "nat message_bus" where
  "sample_bus = \<lparr>bus_inbound = mpsc_channel 1, bus_outbound = mpsc_channel 1,
     bus_interceptor = Some (\<lambda>m n. (im_content m = ''yes'', Suc n))\<rparr>"

definition sample_inbound :: "string \<Rightarrow> inbound_message" where
  "sample_inbound text = inbound_new ''telegram'' ''u'' ''c'' text"

theorem inbound_fifo_witness:
  "fst (queue_run inbound_send inbound_recv [Put Await (sample_inbound ''a''), Put Await (sample_inbound ''yes''),
      Put Await (sample_inbound ''b''), Put Try (sample_inbound ''c''), Get, Get] (sample_bus, 0))
    = [sample_inbound ''a'', sample_inbound ''b'']
   \<and> fst (snd (queue_run inbound_send inbound_recv [Put Await (sample_inbound ''a''), Put Await (sample_inbound ''yes''),
      Put Await (sample_inbound ''b''), Put Try (sample_inbound ''c''), Get, Get] (sample_bus, 0)))
    = [sample_inbound ''a'', sample_inbound ''b'']"
proof -
  let ?ops = "[Put Await (sample_inbound ''a''), Put Await (sample_inbound ''yes''),
      Put Await (sample_inbound ''b''), Put Try (sample_inbound ''c''), Get, Get]"
  let ?del = "fst (snd (queue_run inbound_send inbound_recv ?ops (sample_bus, 0)))"
  obtain acc del b' w' where r: "queue_run inbound_send inbound_recv ?ops (sample_bus, 0) = (acc, del, b', w')"
    by (metis prod_cases4)
  have acc: "fst (queue_run inbound_send inbound_recv ?ops (sample_bus, 0)) = [sample_inbound ''a'', sample_inbound ''b'']"
    and len: "length ?del = 2"
    by (simp_all add: sample_bus_def sample_inbound_def inbound_new_def mpsc_channel_def publish_inbound_with_status_def
        try_publish_inbound_with_status_def intercept_def mpsc_send_def mpsc_try_send_def inbound_recv_def
        consume_inbound_def mpsc_recv_def accepted_def publish_outcome_of_def)
  have "mpsc_ok (bus_inbound sample_bus)" "mpsc_contents (bus_inbound sample_bus) = []"
    by (simp_all add: sample_bus_def mpsc_channel_def mpsc_ok_def mpsc_contents_def)
  from inbound_fifo [OF this(1) r] this(2) have "acc = del @ mpsc_contents (bus_inbound b')" by simp
  moreover from acc have "acc = [sample_inbound ''a'', sample_inbound ''b'']" by (simp only: r fst_conv)
  moreover from len have "length del = 2" by (simp only: r fst_conv snd_conv)
  ultimately have "acc = [sample_inbound ''a'', sample_inbound ''b''] \<and> del = [sample_inbound ''a'', sample_inbound ''b'']"
    by (metis append_eq_append_conv append.right_neutral length_Cons list.size(3) numeral_2_eq_2)
  then show ?thesis by (simp only: r fst_conv snd_conv)
qed

text \<open>
  The same holds of the outbound queue.
\<close>

theorem outbound_fifo:
  assumes "mpsc_ok (bus_outbound b)" "queue_run outbound_send consume_outbound ops b = (acc, del, b')"
  shows "mpsc_contents (bus_outbound b) @ acc = del @ mpsc_contents (bus_outbound b')
    \<and> length (ch_buf (bus_outbound b')) \<le> ch_cap (bus_outbound b')"
  using outq.run_fifo [of b ops acc del b'] assms by (simp add: mpsc_ok_def)

end
