(* ===== verification/Hitl.thy ===== *)
theory Hitl
  imports Approval_Broker Bus Tool_Policy
begin

text \<open>
  Human approval in the gateway: the thread identity (\<open>src/src/tools/thread_identity.rs\<close>), the
  per-thread approval mode with its file (\<open>src/src/tools/thread_approval.rs\<close>), and the two ends
  that meet in the approval broker (\<open>src/src/cli/gateway.rs\<close>): the approval handler of the agent
  and the inbound interceptor with its commands \<open>/skip-approval\<close>, \<open>/require-approval\<close>,
  \<open>/approval-status\<close> and \<open>/help\<close>.

  A JSON file is what reading it yields: nothing, an error, or the record that serde decoded.
  Writing goes through a temporary file and a rename, either of which may fail. The texts sent to
  the user are the constructors of \<open>notice\<close>. Instants are milliseconds; wall-clock times seconds.
\<close>

section \<open>Thread identity\<close>

datatype 'a json_file = File_Missing | File_Unreadable | File_Corrupt | File_Value 'a

record thread_meta_file =
  tm_user_id :: string
  tm_agent_id :: string

datatype thread_identity = Known thread_key | Unknown

definition load_identity :: "thread_meta_file json_file \<Rightarrow> thread_identity" where
  "load_identity f =
     (case f of
        File_Value meta \<Rightarrow>
          if tm_user_id meta = [] \<or> tm_agent_id meta = [] then Unknown
          else Known (thread_key_new (tm_user_id meta) (tm_agent_id meta))
      | _ \<Rightarrow> Unknown)"

definition resolve_key :: "thread_identity \<Rightarrow> string \<Rightarrow> thread_key" where
  "resolve_key i chat_id = (case i of Known k \<Rightarrow> k | Unknown \<Rightarrow> from_chat_id_fallback chat_id)"

section \<open>The approval mode of a thread\<close>

datatype thread_approval_mode = Require_Approval | Auto_Approve

record thread_approval_state =
  ts_mode :: thread_approval_mode
  ts_updated_at :: nat
  ts_updated_by :: string

definition thread_state_default :: "nat \<Rightarrow> thread_approval_state" where
  "thread_state_default now = \<lparr>ts_mode = Require_Approval, ts_updated_at = now, ts_updated_by = []\<rparr>"

record persisted_thread =
  pt_user_id :: string
  pt_agent_id :: string
  pt_mode :: thread_approval_mode
  pt_updated_at :: nat
  pt_updated_by :: string

record persisted_file =
  pf_version :: nat
  pf_threads :: "persisted_thread list"

definition file_version :: nat where
  "file_version = 1"

datatype io_outcome = Io_Fine | Write_Failed | Rename_Failed

record approval_store =
  st_states :: "(thread_key \<times> thread_approval_state) list"
  st_has_root :: bool
  st_file :: "persisted_file json_file"

definition thread_entry :: "persisted_thread \<Rightarrow> thread_key \<times> thread_approval_state" where
  "thread_entry t =
     (thread_key_new (pt_user_id t) (pt_agent_id t),
      \<lparr>ts_mode = pt_mode t, ts_updated_at = pt_updated_at t, ts_updated_by = pt_updated_by t\<rparr>)"

definition load_states :: "persisted_file json_file \<Rightarrow> (thread_key \<times> thread_approval_state) list" where
  "load_states f =
     (case f of
        File_Value v \<Rightarrow> fold (\<lambda>(k, s). AList.update k s) (map thread_entry (pf_threads v)) []
      | _ \<Rightarrow> [])"

definition persist_entry :: "thread_key \<times> thread_approval_state \<Rightarrow> persisted_thread" where
  "persist_entry p = (case p of (k, s) \<Rightarrow>
     \<lparr>pt_user_id = tk_user k, pt_agent_id = tk_agent k, pt_mode = ts_mode s,
      pt_updated_at = ts_updated_at s, pt_updated_by = ts_updated_by s\<rparr>)"

definition save_states ::
    "io_outcome \<Rightarrow> (thread_key \<times> thread_approval_state) list \<Rightarrow> persisted_file json_file \<Rightarrow> bool \<times> persisted_file json_file" where
  "save_states io states f =
     (if io = Io_Fine then (True, File_Value \<lparr>pf_version = file_version, pf_threads = map persist_entry states\<rparr>)
      else (False, f))"

definition store_open :: "persisted_file json_file \<Rightarrow> approval_store" where
  "store_open f = \<lparr>st_states = load_states f, st_has_root = True, st_file = f\<rparr>"

definition store_get :: "nat \<Rightarrow> approval_store \<Rightarrow> thread_key \<Rightarrow> thread_approval_state" where
  "store_get now s t = (case map_of (st_states s) t of Some x \<Rightarrow> x | None \<Rightarrow> thread_state_default now)"

definition is_auto_approve :: "approval_store \<Rightarrow> thread_key \<Rightarrow> bool" where
  "is_auto_approve s t \<longleftrightarrow> ts_mode (store_get 0 s t) = Auto_Approve"

text \<open>The map is changed before the file is written, and stays changed when writing fails.\<close>

definition store_set ::
    "nat \<Rightarrow> io_outcome \<Rightarrow> thread_key \<Rightarrow> thread_approval_mode \<Rightarrow> string \<Rightarrow> approval_store \<Rightarrow> bool \<times> approval_store" where
  "store_set now io t mode source s =
     (let states = AList.update t \<lparr>ts_mode = mode, ts_updated_at = now, ts_updated_by = source\<rparr> (st_states s);
          s = s\<lparr>st_states := states\<rparr>
      in if st_has_root s
         then (case save_states io states (st_file s) of (ok, f) \<Rightarrow> (ok, s\<lparr>st_file := f\<rparr>))
         else (True, s))"

section \<open>Replies and commands\<close>

definition parse_approval_reply :: "string \<Rightarrow> bool option" where
  "parse_approval_reply content =
     (let s = to_lowercase (trim content) in
      if s \<in> {''yes'', ''y'', ''approve'', [CHR 0xE6, CHR 0x98, CHR 0xAF]} then Some True
      else if s \<in> {''no'', ''n'', ''deny'', [CHR 0xE5, CHR 0x90, CHR 0xA6]} then Some False
      else None)"

datatype thread_command = Cmd_Skip_Approval | Cmd_Require_Approval | Cmd_Status | Cmd_Help

definition parse_thread_command :: "string \<Rightarrow> thread_command option" where
  "parse_thread_command content =
     (let lower = to_ascii_lowercase content in
      if lower \<in> {''/skip-approval'', ''/skip_approval''} then Some Cmd_Skip_Approval
      else if lower \<in> {''/require-approval'', ''/require_approval''} then Some Cmd_Require_Approval
      else if lower \<in> {''/approval-status'', ''/approval_status''} then Some Cmd_Status
      else if lower \<in> {''/help'', ''/?''} then Some Cmd_Help
      else None)"

definition confirm_window :: int where
  "confirm_window = 60000"

record confirm_pending =
  cp_deadline :: int
  cp_channel :: string
  cp_chat_id :: string

datatype notice =
    Auto_Enabled | Not_Persisted | Already_Auto | Confirm_Please | Manual_Again | Help_Text
  | Status_Of thread_approval_state nat
  | Prompt string bool nat
  | Resolved string string

section \<open>The gateway's approval state\<close>

record hitl =
  hi_identity :: thread_identity
  hi_store :: approval_store
  hi_broker :: broker
  hi_confirms :: "thread_key \<rightharpoonup> confirm_pending"
  hi_notices :: "(string \<times> string \<times> notice) list"

definition notify :: "string \<Rightarrow> string \<Rightarrow> notice \<Rightarrow> hitl \<Rightarrow> hitl" where
  "notify channel chat_id n h = h\<lparr>hi_notices := hi_notices h @ [(channel, chat_id, n)]\<rparr>"

definition set_mode ::
    "nat \<Rightarrow> io_outcome \<Rightarrow> thread_key \<Rightarrow> thread_approval_mode \<Rightarrow> string \<Rightarrow> string \<Rightarrow> string \<Rightarrow> notice \<Rightarrow> hitl \<Rightarrow> hitl" where
  "set_mode utc io t mode source channel chat_id done_notice h =
     (case store_set utc io t mode source (hi_store h) of
        (ok, s) \<Rightarrow> notify channel chat_id (if ok then done_notice else Not_Persisted) (h\<lparr>hi_store := s\<rparr>))"

definition handle_pending_confirm ::
    "int \<Rightarrow> nat \<Rightarrow> io_outcome \<Rightarrow> thread_key \<Rightarrow> string \<Rightarrow> inbound_message \<Rightarrow> hitl \<Rightarrow> bool \<times> hitl" where
  "handle_pending_confirm now utc io t trimmed msg h =
     (case hi_confirms h t of
        None \<Rightarrow> (False, h)
      | Some p \<Rightarrow>
          (let h = h\<lparr>hi_confirms := (hi_confirms h)(t := None)\<rparr> in
           if \<not> now < cp_deadline p then (False, h)
           else if to_ascii_lowercase trimmed = ''confirm''
           then (True, set_mode utc io t Auto_Approve (im_channel msg) (cp_channel p) (cp_chat_id p) Auto_Enabled h)
           else (False, h)))"

definition handle_thread_command ::
    "int \<Rightarrow> nat \<Rightarrow> io_outcome \<Rightarrow> thread_command \<Rightarrow> thread_key \<Rightarrow> inbound_message \<Rightarrow> hitl \<Rightarrow> hitl" where
  "handle_thread_command now utc io cmd t msg h =
     (let reply = notify (im_channel msg) (im_chat_id msg) in
      case cmd of
        Cmd_Skip_Approval \<Rightarrow>
          if is_auto_approve (hi_store h) t then reply Already_Auto h
          else reply Confirm_Please
                 (h\<lparr>hi_confirms := (hi_confirms h)(t \<mapsto>
                     \<lparr>cp_deadline = now + confirm_window, cp_channel = im_channel msg, cp_chat_id = im_chat_id msg\<rparr>)\<rparr>)
      | Cmd_Require_Approval \<Rightarrow>
          set_mode utc io t Require_Approval (im_channel msg) (im_channel msg) (im_chat_id msg) Manual_Again
            (h\<lparr>hi_confirms := (hi_confirms h)(t := None)\<rparr>)
      | Cmd_Status \<Rightarrow> reply (Status_Of (store_get utc (hi_store h) t) (pending_count (hi_broker h) t)) h
      | Cmd_Help \<Rightarrow> reply Help_Text h)"

text \<open>Which answer of the broker a yes/no message becomes, if any.\<close>

definition reply_route :: "thread_key \<Rightarrow> inbound_message \<Rightarrow> broker_event option" where
  "reply_route t msg =
     (case parse_approval_reply (im_content msg) of
        None \<Rightarrow> None
      | Some approved \<Rightarrow>
          (case im_metadata msg ''inject_kind'' of
             None \<Rightarrow> Some (Answer_Fifo t approved)
           | Some kind \<Rightarrow>
               if kind \<noteq> ''approval_response'' then None
               else (case im_metadata msg ''request_id'' of
                       None \<Rightarrow> None
                     | Some i \<Rightarrow> if i = [] then Some (Answer_Fifo t approved) else Some (Answer_Id t i approved))))"

definition route_reply :: "thread_key \<Rightarrow> inbound_message \<Rightarrow> broker \<Rightarrow> bool \<times> broker" where
  "route_reply t msg b =
     (case reply_route t msg of
        Some (Answer_Fifo t approved) \<Rightarrow> resolve_fifo t approved b
      | Some (Answer_Id t i approved) \<Rightarrow> resolve_by_id t i approved b
      | _ \<Rightarrow> (False, b))"

definition interceptor :: "int \<Rightarrow> nat \<Rightarrow> io_outcome \<Rightarrow> inbound_message \<Rightarrow> hitl \<Rightarrow> bool \<times> hitl" where
  "interceptor now utc io msg h =
     (let t = resolve_key (hi_identity h) (im_chat_id msg);
          trimmed = trim (im_content msg)
      in case handle_pending_confirm now utc io t trimmed msg h of
           (True, h) \<Rightarrow> (True, h)
         | (False, h) \<Rightarrow>
             (case parse_thread_command trimmed of
                Some cmd \<Rightarrow> (True, handle_thread_command now utc io cmd t msg h)
              | None \<Rightarrow> (case route_reply t msg (hi_broker h) of (r, b) \<Rightarrow> (r, h\<lparr>hi_broker := b\<rparr>))))"

section \<open>The approval handler\<close>

datatype handler_start = Answered approval_response | Waits_On nat

definition request_thread :: "thread_identity \<Rightarrow> string \<Rightarrow> 'v approval_request \<Rightarrow> thread_key" where
  "request_thread i chat_id r =
     (case (ar_user_id r, ar_agent_id r) of
        (Some u, Some a) \<Rightarrow> if u \<noteq> [] \<and> a \<noteq> [] then thread_key_new u a else resolve_key i chat_id
      | _ \<Rightarrow> resolve_key i chat_id)"

definition approval_handler ::
    "int \<Rightarrow> string \<Rightarrow> 'v approval_request \<Rightarrow> hitl \<Rightarrow> handler_start \<times> hitl" where
  "approval_handler now request_id r h =
     (case (ar_chat_id r, ar_channel r) of
        (None, _) \<Rightarrow> (Answered (Denied ''No chat routing context for approval''), h)
      | (Some chat_id, ch) \<Rightarrow>
          if chat_id = [] then (Answered (Denied ''No chat routing context for approval''), h)
          else (case ch of
            None \<Rightarrow> (Answered (Denied ''No channel routing context for approval''), h)
          | Some channel \<Rightarrow>
              if channel = [] then (Answered (Denied ''No channel routing context for approval''), h)
              else let t = request_thread (hi_identity h) chat_id r;
                       hard_floor = ar_hard_floor_reason r \<noteq> None
                   in if \<not> hard_floor \<and> is_auto_approve (hi_store h) t then (Answered Approved, h)
                      else (case register now t request_id hard_floor (hi_broker h) of
                        (rx, b) \<Rightarrow>
                          (Waits_On rx, notify channel chat_id (Prompt request_id hard_floor (pending_count b t))
                                          (h\<lparr>hi_broker := b\<rparr>)))))"

definition is_acp_channel :: "string \<Rightarrow> bool" where
  "is_acp_channel channel \<longleftrightarrow> channel = ''acp'' \<or> channel = ''acp_http''"

definition approval_decision_label :: "approval_response \<Rightarrow> string option" where
  "approval_decision_label r =
     (case r of Approved \<Rightarrow> Some ''approve'' | Denied _ \<Rightarrow> Some ''deny'' | TimedOut \<Rightarrow> None)"

text \<open>What the handler returns once its channel is no longer open; the time-out drops the receiver.\<close>

definition handler_outcome :: "oneshot \<Rightarrow> approval_response option" where
  "handler_outcome c =
     (case c of Open \<Rightarrow> None | Delivered True \<Rightarrow> Some Approved | Delivered False \<Rightarrow> Some (Denied ''User denied'')
      | Receiver_Dropped \<Rightarrow> Some TimedOut | Sender_Dropped \<Rightarrow> Some TimedOut)"

definition finish_request :: "string \<Rightarrow> string \<Rightarrow> string \<Rightarrow> approval_response \<Rightarrow> hitl \<Rightarrow> hitl" where
  "finish_request channel chat_id request_id outcome h =
     (if is_acp_channel channel
      then (case approval_decision_label outcome of
              Some d \<Rightarrow> notify channel chat_id (Resolved request_id d) h
            | None \<Rightarrow> h)
      else h)"

definition default_approval_timeout_secs :: nat where
  "default_approval_timeout_secs = 120"

definition resolve_approval_timeout :: "approval_config \<Rightarrow> nat" where
  "resolve_approval_timeout c =
     (if 0 < ac_approval_timeout_secs c then ac_approval_timeout_secs c else default_approval_timeout_secs)"

definition entry_ttl :: int where
  "entry_ttl = 600000"

section \<open>Runs\<close>

datatype 'v hitl_event =
    Inbound int nat io_outcome inbound_message
  | Ask int string "'v approval_request"
  | Give_Up nat
  | Finish string string string approval_response
  | Gc int

fun hitl_apply :: "'v hitl_event \<Rightarrow> hitl \<Rightarrow> hitl" where
  "hitl_apply (Inbound now utc io msg) h = snd (interceptor now utc io msg h)"
| "hitl_apply (Ask now i r) h = snd (approval_handler now i r h)"
| "hitl_apply (Give_Up rx) h = h\<lparr>hi_broker := abandon rx (hi_broker h)\<rparr>"
| "hitl_apply (Finish channel chat_id i outcome) h = finish_request channel chat_id i outcome h"
| "hitl_apply (Gc now) h = h\<lparr>hi_broker := snd (sweep_expired now entry_ttl (hi_broker h))\<rparr>"

definition hitl_start :: "thread_identity \<Rightarrow> persisted_file json_file \<Rightarrow> hitl" where
  "hitl_start i f = \<lparr>hi_identity = i, hi_store = store_open f, hi_broker = broker_new,
     hi_confirms = Map.empty, hi_notices = []\<rparr>"

definition hitl_run :: "thread_identity \<Rightarrow> persisted_file json_file \<Rightarrow> 'v hitl_event list \<Rightarrow> hitl" where
  "hitl_run i f evs = fold hitl_apply evs (hitl_start i f)"

text \<open>The messages of a thread, with their arrival times, in order.\<close>

fun thread_msgs :: "thread_identity \<Rightarrow> thread_key \<Rightarrow> 'v hitl_event list \<Rightarrow> (int \<times> inbound_message) list" where
  "thread_msgs i t [] = []"
| "thread_msgs i t (Inbound now utc io msg # evs) =
     (if resolve_key i (im_chat_id msg) = t then (now, msg) # thread_msgs i t evs else thread_msgs i t evs)"
| "thread_msgs i t (ev # evs) = thread_msgs i t evs"

lemma thread_msgs_append: "thread_msgs i t (xs @ ys) = thread_msgs i t xs @ thread_msgs i t ys"
  by (induction i t xs rule: thread_msgs.induct) auto

definition asks_to_skip :: "inbound_message \<Rightarrow> bool" where
  "asks_to_skip m \<longleftrightarrow> parse_thread_command (trim (im_content m)) = Some Cmd_Skip_Approval"

definition asks_to_require :: "inbound_message \<Rightarrow> bool" where
  "asks_to_require m \<longleftrightarrow> parse_thread_command (trim (im_content m)) = Some Cmd_Require_Approval"

definition says_confirm :: "inbound_message \<Rightarrow> bool" where
  "says_confirm m \<longleftrightarrow> to_ascii_lowercase (trim (im_content m)) = ''confirm''"

text \<open>
  The history justifies the automatic mode: somewhere a request to skip approval is directly
  followed, within the confirmation window, by a confirmation, and no request for manual
  approval comes later.
\<close>

definition auto_justified :: "(int \<times> inbound_message) list \<Rightarrow> bool" where
  "auto_justified ms \<longleftrightarrow>
     (\<exists>xs n1 m1 n2 m2 ys. ms = xs @ (n1, m1) # (n2, m2) # ys \<and> asks_to_skip m1 \<and> says_confirm m2
        \<and> n2 < n1 + confirm_window \<and> (\<forall>(n, m) \<in> set ys. \<not> asks_to_require m))"

lemma auto_justified_append:
  assumes "auto_justified ms" "\<not> asks_to_require m"
  shows "auto_justified (ms @ [(n, m)])"
proof -
  obtain xs n1 m1 n2 m2 ys where j: "ms = xs @ (n1, m1) # (n2, m2) # ys" "asks_to_skip m1" "says_confirm m2"
      "n2 < n1 + confirm_window" "\<forall>(n, m) \<in> set ys. \<not> asks_to_require m"
    using assms(1) by (auto simp: auto_justified_def)
  then show ?thesis using assms(2) unfolding auto_justified_def
    by (intro exI [of _ xs] exI [of _ n1] exI [of _ m1] exI [of _ n2] exI [of _ m2] exI [of _ "ys @ [(n, m)]"]) auto
qed

lemma auto_justified_confirm:
  "asks_to_skip m1 \<Longrightarrow> says_confirm m2 \<Longrightarrow> n2 < n1 + confirm_window \<Longrightarrow> auto_justified (xs @ [(n1, m1)] @ [(n2, m2)])"
  unfolding auto_justified_def by force

section \<open>Effect of the operations on the mode\<close>

lemma is_auto_approve_store_set [simp]:
  "is_auto_approve (snd (store_set utc io t mode src s)) t' \<longleftrightarrow>
     (if t' = t then mode = Auto_Approve else is_auto_approve s t')"
  by (auto simp: is_auto_approve_def store_get_def store_set_def Let_def update_conv' split: prod.split)

lemma notify_fields [simp]:
  "hi_store (notify c i n h) = hi_store h" "hi_confirms (notify c i n h) = hi_confirms h"
  "hi_broker (notify c i n h) = hi_broker h" "hi_identity (notify c i n h) = hi_identity h"
  by (simp_all add: notify_def)

lemma set_mode_fields [simp]:
  "is_auto_approve (hi_store (set_mode utc io t mode src c i n h)) t' \<longleftrightarrow>
     (if t' = t then mode = Auto_Approve else is_auto_approve (hi_store h) t')"
  "hi_confirms (set_mode utc io t mode src c i n h) = hi_confirms h"
  "hi_broker (set_mode utc io t mode src c i n h) = hi_broker h"
  "hi_identity (set_mode utc io t mode src c i n h) = hi_identity h"
  by (simp_all add: set_mode_def case_prod_beta)

lemma handler_fields [simp]:
  "hi_store (snd (approval_handler now i r h)) = hi_store h"
  "hi_confirms (snd (approval_handler now i r h)) = hi_confirms h"
  "hi_identity (snd (approval_handler now i r h)) = hi_identity h"
  by (auto simp: approval_handler_def Let_def split: option.split prod.split)

lemma finish_fields [simp]:
  "hi_store (finish_request c i r out h) = hi_store h" "hi_confirms (finish_request c i r out h) = hi_confirms h"
  "hi_broker (finish_request c i r out h) = hi_broker h" "hi_identity (finish_request c i r out h) = hi_identity h"
  by (auto simp: finish_request_def split: option.split)

lemma command_fields [simp]:
  "hi_broker (handle_thread_command now utc io cmd t msg h) = hi_broker h"
  "hi_identity (handle_thread_command now utc io cmd t msg h) = hi_identity h"
  by (auto simp: handle_thread_command_def Let_def split: thread_command.split)

lemma confirm_fields [simp]:
  "hi_broker (snd (handle_pending_confirm now utc io t s msg h)) = hi_broker h"
  "hi_identity (snd (handle_pending_confirm now utc io t s msg h)) = hi_identity h"
  by (auto simp: handle_pending_confirm_def Let_def split: option.split)

lemma interceptor_identity [simp]: "hi_identity (snd (interceptor now utc io msg h)) = hi_identity h"
proof -
  let ?t = "resolve_key (hi_identity h) (im_chat_id msg)"
  obtain hit h1 where c: "handle_pending_confirm now utc io ?t (trim (im_content msg)) msg h = (hit, h1)" by fastforce
  have "hi_identity h1 = hi_identity h"
    using confirm_fields(2) [of now utc io ?t "trim (im_content msg)" msg h] by (simp add: c)
  then show ?thesis by (cases hit) (auto simp: interceptor_def Let_def c split: option.split prod.split)
qed

lemma hitl_identity [simp]: "hi_identity (hitl_apply ev h) = hi_identity h"
  by (cases ev) simp_all

text \<open>The mode and the pending confirmation of the thread, before and after one message.\<close>

definition mode_inv :: "thread_key \<Rightarrow> (int \<times> inbound_message) list \<Rightarrow> hitl \<Rightarrow> bool" where
  "mode_inv t ms h \<longleftrightarrow>
     (\<forall>p. hi_confirms h t = Some p \<longrightarrow>
        (\<exists>xs n m. ms = xs @ [(n, m)] \<and> asks_to_skip m \<and> cp_deadline p = n + confirm_window))
     \<and> (is_auto_approve (hi_store h) t \<longrightarrow> auto_justified ms)"

lemma handle_pending_confirm_mode:
  assumes "mode_inv t ms h" "handle_pending_confirm now utc io t (trim (im_content msg)) msg h = (hit, h')"
  shows "hi_confirms h' t = None
    \<and> (is_auto_approve (hi_store h') t \<longrightarrow>
         (if hit then auto_justified (ms @ [(now, msg)]) else auto_justified ms))"
proof (cases "hi_confirms h t")
  case None
  then show ?thesis using assms by (auto simp: handle_pending_confirm_def mode_inv_def)
next
  case (Some p)
  then obtain xs n m where l: "ms = xs @ [(n, m)]" "asks_to_skip m" "cp_deadline p = n + confirm_window"
    using assms(1) by (auto simp: mode_inv_def)
  show ?thesis
  proof (cases "now < cp_deadline p \<and> says_confirm msg")
    case True
    then have "auto_justified (ms @ [(now, msg)])" using l auto_justified_confirm by simp
    with True assms(2) Some show ?thesis by (auto simp: handle_pending_confirm_def Let_def says_confirm_def)
  next
    case False
    then show ?thesis using assms Some
      by (auto simp: handle_pending_confirm_def Let_def says_confirm_def mode_inv_def split: if_splits)
  qed
qed

lemma handle_thread_command_mode:
  assumes "hi_confirms h t = None" "is_auto_approve (hi_store h) t \<Longrightarrow> auto_justified ms"
    and "parse_thread_command (trim (im_content msg)) = Some cmd"
  shows "mode_inv t (ms @ [(now, msg)]) (handle_thread_command now utc io cmd t msg h)"
  using assms auto_justified_append [of ms msg now]
  by (cases cmd) (auto simp: handle_thread_command_def Let_def mode_inv_def asks_to_skip_def asks_to_require_def)

lemma interceptor_mode:
  assumes inv: "mode_inv t ms h" and t: "resolve_key (hi_identity h) (im_chat_id msg) = t"
  shows "mode_inv t (ms @ [(now, msg)]) (snd (interceptor now utc io msg h))"
proof -
  obtain hit h1 where c: "handle_pending_confirm now utc io t (trim (im_content msg)) msg h = (hit, h1)" by fastforce
  note m = handle_pending_confirm_mode [OF inv c]
  show ?thesis
  proof (cases hit)
    case True
    then show ?thesis using m by (auto simp: interceptor_def Let_def t c mode_inv_def)
  next
    case False
    show ?thesis
    proof (cases "parse_thread_command (trim (im_content msg))")
      case None
      have "auto_justified ms \<Longrightarrow> auto_justified (ms @ [(now, msg)])"
        using auto_justified_append None by (simp add: asks_to_require_def)
      then show ?thesis using m False None
        by (auto simp: interceptor_def Let_def t c mode_inv_def split: prod.split)
    next
      case (Some cmd)
      then show ?thesis using m False handle_thread_command_mode [of h1 t ms msg cmd now utc io]
        by (simp add: interceptor_def Let_def t c)
    qed
  qed
qed

lemma interceptor_other_thread:
  assumes "resolve_key (hi_identity h) (im_chat_id msg) \<noteq> t"
  shows "hi_confirms (snd (interceptor now utc io msg h)) t = hi_confirms h t
    \<and> is_auto_approve (hi_store (snd (interceptor now utc io msg h))) t = is_auto_approve (hi_store h) t"
proof -
  let ?t = "resolve_key (hi_identity h) (im_chat_id msg)"
  obtain hit h1 where c: "handle_pending_confirm now utc io ?t (trim (im_content msg)) msg h = (hit, h1)" by fastforce
  have h1: "hi_confirms h1 t = hi_confirms h t" "is_auto_approve (hi_store h1) t = is_auto_approve (hi_store h) t"
    using c assms by (auto simp: handle_pending_confirm_def Let_def split: option.splits if_splits)
  show ?thesis using h1 assms
    by (cases hit; cases "parse_thread_command (trim (im_content msg))")
      (auto simp: interceptor_def Let_def c handle_thread_command_def split: prod.split thread_command.split)
qed

lemma hitl_apply_mode:
  assumes "mode_inv t (thread_msgs (hi_identity h) t evs) h"
  shows "mode_inv t (thread_msgs (hi_identity h) t (evs @ [ev])) (hitl_apply ev h)"
proof (cases ev)
  case (Inbound now utc io msg)
  show ?thesis
  proof (cases "resolve_key (hi_identity h) (im_chat_id msg) = t")
    case True
    then show ?thesis using interceptor_mode [OF assms True] by (simp add: Inbound thread_msgs_append)
  next
    case False
    then show ?thesis using assms interceptor_other_thread [OF False, of now utc io]
      by (simp add: Inbound thread_msgs_append mode_inv_def)
  qed
qed (use assms in \<open>simp_all add: thread_msgs_append mode_inv_def\<close>)

lemma hitl_run_mode:
  assumes "\<not> is_auto_approve (store_open f) t"
  shows "mode_inv t (thread_msgs i t evs) (hitl_run i f evs) \<and> hi_identity (hitl_run i f evs) = i"
proof (induction evs rule: rev_induct)
  case Nil
  then show ?case using assms by (simp add: hitl_run_def hitl_start_def mode_inv_def)
next
  case (snoc ev evs)
  then show ?case using hitl_apply_mode [of t "hitl_run i f evs" evs ev] by (simp add: hitl_run_def)
qed

section \<open>Effect of the operations on the broker\<close>

fun broker_event_of :: "'v hitl_event \<Rightarrow> hitl \<Rightarrow> broker_event option" where
  "broker_event_of (Inbound now utc io msg) h =
     (let t = resolve_key (hi_identity h) (im_chat_id msg) in
      if fst (handle_pending_confirm now utc io t (trim (im_content msg)) msg h)
         \<or> parse_thread_command (trim (im_content msg)) \<noteq> None
      then None else reply_route t msg)"
| "broker_event_of (Ask now i r) h =
     (case approval_handler now i r h of
        (Waits_On _, _) \<Rightarrow> Some (Register now (request_thread (hi_identity h) (the (ar_chat_id r)) r) i
           (ar_hard_floor_reason r \<noteq> None))
      | _ \<Rightarrow> None)"
| "broker_event_of (Give_Up rx) h = Some (Abandon rx)"
| "broker_event_of (Finish _ _ _ _) h = None"
| "broker_event_of (Gc now) h = Some (Sweep now entry_ttl)"

lemma reply_route_event:
  "reply_route t msg = Some be \<Longrightarrow>
     (\<exists>v. be = Answer_Fifo t v \<and> parse_approval_reply (im_content msg) = Some v)
     \<or> (\<exists>i v. be = Answer_Id t i v \<and> parse_approval_reply (im_content msg) = Some v)"
  by (auto simp: reply_route_def split: option.splits if_splits)

lemma route_reply_broker:
  "snd (route_reply t msg b) = (case reply_route t msg of None \<Rightarrow> b | Some be \<Rightarrow> broker_apply be b)"
proof (cases "reply_route t msg")
  case (Some be)
  from reply_route_event [OF this] show ?thesis by (auto simp: route_reply_def Some)
qed (simp add: route_reply_def)

lemma hitl_broker_step:
  "hi_broker (hitl_apply ev h) =
     (case broker_event_of ev h of None \<Rightarrow> hi_broker h | Some be \<Rightarrow> broker_apply be (hi_broker h))"
proof (cases ev)
  case (Inbound now utc io msg)
  let ?t = "resolve_key (hi_identity h) (im_chat_id msg)"
  obtain hit h1 where c: "handle_pending_confirm now utc io ?t (trim (im_content msg)) msg h = (hit, h1)" by fastforce
  have b: "hi_broker h1 = hi_broker h"
    using confirm_fields(1) [of now utc io ?t "trim (im_content msg)" msg h] by (simp add: c)
  show ?thesis
    by (cases hit; cases "parse_thread_command (trim (im_content msg))")
      (auto simp: Inbound interceptor_def Let_def c b case_prod_beta route_reply_broker)
next
  case (Ask now i r)
  then show ?thesis by (auto simp: approval_handler_def Let_def case_prod_beta split: option.splits)
qed simp_all

lemma hitl_broker_reachable: "broker_reachable (hi_broker (hitl_run i f evs))"
proof (induction evs rule: rev_induct)
  case Nil
  then show ?case by (simp add: hitl_run_def hitl_start_def broker_reachable.init)
next
  case (snoc ev evs)
  then show ?case by (simp add: hitl_run_def hitl_broker_step broker_reachable.step split: option.split)
qed

section \<open>Properties\<close>

text \<open>
  C14. A request is approved without asking only by a confirmed choice: if no thread was automatic
  when the gateway started (a mode kept from an earlier run was confirmed there) and the handler approves at once, then the request is not on the hard
  floor, and among the messages of its thread one that asked to skip approval was directly
  followed, within sixty seconds, by a confirmation, and no later one asked for manual approval.
\<close>

theorem auto_approval_confirmed:
  assumes "\<And>t. \<not> is_auto_approve (store_open f) t"
    and "approval_handler now i r (hitl_run ident f evs) = (Answered Approved, h')"
  shows "ar_hard_floor_reason r = None
    \<and> (\<exists>chat_id. ar_chat_id r = Some chat_id \<and> auto_justified (thread_msgs ident (request_thread ident chat_id r) evs))"
  using assms(2) hitl_run_mode [OF assms(1), where i = ident and evs = evs]
  by (fastforce simp: approval_handler_def Let_def mode_inv_def split: option.splits if_splits prod.splits)

definition sample_request :: "string option \<Rightarrow> string approval_request" where
  "sample_request reason = (approval_request_new 0 ''shell'' ''ls'' 0)
     \<lparr>ar_channel := Some ''telegram'', ar_chat_id := Some ''c'', ar_hard_floor_reason := reason\<rparr>"

definition sample_events :: "string hitl_event list" where
  "sample_events = [Inbound 0 0 Io_Fine (sample_inbound ''/skip-approval''), Inbound 1000 1 Io_Fine (sample_inbound ''confirm'')]"

theorem auto_approval_confirmed_witness:
  "auto_justified (thread_msgs Unknown (from_chat_id_fallback ''c'') sample_events)"
proof -
  have a: "\<not> is_auto_approve (store_open File_Missing) t" for t
    by (simp add: is_auto_approve_def store_get_def store_open_def load_states_def thread_state_default_def)
  have "fst (approval_handler 2000 ''r'' (sample_request None) (hitl_run Unknown File_Missing sample_events)) = Answered Approved"
    by code_simp
  then obtain h' where h: "approval_handler 2000 ''r'' (sample_request None) (hitl_run Unknown File_Missing sample_events)
      = (Answered Approved, h')" by (metis prod.collapse)
  from auto_approval_confirmed [OF a h] show ?thesis
    by (simp add: sample_request_def request_thread_def approval_request_new_def resolve_key_def)
qed

text \<open>
  Nothing but a human's answer decides a pending request: in every run of the gateway, an event
  after which the handler of a waiting request sees the answer \<open>v\<close> is an inbound message of the
  request's thread that reads as \<open>v\<close>, and either carries the request's identifier or carries none
  and the request is the oldest of its thread.
\<close>

theorem decision_needs_reply:
  assumes "e \<in> set (queue_of (hi_broker (hitl_run ident f evs)) t)"
    and "br_chan (hi_broker (hitl_run ident f evs)) (pe_tx e) = Open"
    and "br_chan (hi_broker (hitl_run ident f (evs @ [ev]))) (pe_tx e) = Delivered v"
  shows "\<exists>now utc io msg. ev = Inbound now utc io msg \<and> resolve_key ident (im_chat_id msg) = t
    \<and> parse_approval_reply (im_content msg) = Some v
    \<and> (im_metadata msg ''request_id'' = Some (pe_request_id e)
       \<or> take 1 (queue_of (hi_broker (hitl_run ident f evs)) t) = [e])"
proof -
  let ?h = "hitl_run ident f evs"
  have id: "hi_identity ?h = ident"
    by (induction evs rule: rev_induct) (simp_all add: hitl_run_def hitl_start_def)
  have step: "hi_broker (hitl_run ident f (evs @ [ev])) =
      (case broker_event_of ev ?h of None \<Rightarrow> hi_broker ?h | Some be \<Rightarrow> broker_apply be (hi_broker ?h))"
    using hitl_broker_step [of ev ?h] by (simp add: hitl_run_def)
  then obtain be where be: "broker_event_of ev ?h = Some be"
    using assms(2,3) by (cases "broker_event_of ev ?h") auto
  then have ans: "answers be (hi_broker ?h) t e v"
    using decision_step [OF broker_reachable_inv [OF hitl_broker_reachable] assms(1,2)] assms(3) step by simp
  show ?thesis
  proof (cases ev)
    case (Inbound now utc io msg)
    have rr: "reply_route (resolve_key ident (im_chat_id msg)) msg = Some be"
      using be by (simp add: Inbound Let_def id split: if_splits)
    from reply_route_event [OF this] show ?thesis
    proof (elim disjE exE conjE)
      fix w assume "be = Answer_Fifo (resolve_key ident (im_chat_id msg)) w" "parse_approval_reply (im_content msg) = Some w"
      then show ?thesis using ans Inbound by auto
    next
      fix i w assume b: "be = Answer_Id (resolve_key ident (im_chat_id msg)) i w" "parse_approval_reply (im_content msg) = Some w"
      then have "im_metadata msg ''request_id'' = Some i"
        using rr by (auto simp: reply_route_def split: option.splits if_splits)
      then show ?thesis using ans b Inbound by (auto dest: find_Some_in)
    qed
  qed (use be ans in \<open>auto split: prod.splits handler_start.splits\<close>)
qed

theorem decision_needs_reply_witness:
  "parse_approval_reply (im_content (sample_inbound ''Yes'')) = Some True"
proof -
  let ?evs = "[Ask 0 ''r1'' (sample_request (Some ''reason''))] :: string hitl_event list"
  let ?ev = "Inbound 5 0 Io_Fine (sample_inbound ''Yes'') :: string hitl_event"
  let ?e = "sample_entry ''r1'' True 0 0"
  have "queue_of (hi_broker (hitl_run Unknown File_Missing ?evs)) (from_chat_id_fallback ''c'') = [?e]"
    "br_chan (hi_broker (hitl_run Unknown File_Missing ?evs)) 0 = Open"
    "br_chan (hi_broker (hitl_run Unknown File_Missing (?evs @ [?ev]))) 0 = Delivered True"
    by code_simp+
  then obtain now utc io msg where "?ev = Inbound now utc io msg" "parse_approval_reply (im_content msg) = Some True"
    using decision_needs_reply [where e = ?e and ident = Unknown and f = File_Missing and evs = ?evs
        and ev = ?ev and v = True and t = "from_chat_id_fallback ''c''"]
    by (auto simp: sample_entry_def)
  then show ?thesis by simp
qed

text \<open>
  A failed confirmation still switches approval off: when the mode cannot be written to disk the
  user is told that the change was not persisted and to try again, but the running gateway
  approves the thread's requests automatically from then on.
\<close>

theorem failed_persist_still_automatic:
  assumes "hi_confirms h t = Some p" "now < cp_deadline p" "says_confirm msg" "io \<noteq> Io_Fine"
    and "st_has_root (hi_store h)" "resolve_key (hi_identity h) (im_chat_id msg) = t"
  shows "is_auto_approve (hi_store (snd (interceptor now utc io msg h))) t
    \<and> last (hi_notices (snd (interceptor now utc io msg h))) = (cp_channel p, cp_chat_id p, Not_Persisted)
    \<and> st_file (hi_store (snd (interceptor now utc io msg h))) = st_file (hi_store h)"
proof -
  let ?h = "h\<lparr>hi_confirms := (hi_confirms h)(t := None)\<rparr>"
  have i: "snd (interceptor now utc io msg h) =
      set_mode utc io t Auto_Approve (im_channel msg) (cp_channel p) (cp_chat_id p) Auto_Enabled ?h"
    using assms(1-3,6) by (simp add: interceptor_def handle_pending_confirm_def Let_def says_confirm_def)
  have "set_mode utc io t Auto_Approve (im_channel msg) (cp_channel p) (cp_chat_id p) Auto_Enabled ?h =
      notify (cp_channel p) (cp_chat_id p) Not_Persisted
        (?h\<lparr>hi_store := snd (store_set utc io t Auto_Approve (im_channel msg) (hi_store h))\<rparr>)"
    using assms(4,5) by (simp add: set_mode_def store_set_def save_states_def Let_def)
  with i show ?thesis using assms(4,5)
    by (simp add: notify_def) (simp add: store_set_def save_states_def Let_def)
qed

theorem failed_persist_still_automatic_witness:
  "is_auto_approve (hi_store (snd (interceptor 1000 1 Write_Failed (sample_inbound ''confirm'')
     (hitl_run Unknown File_Missing [Inbound 0 0 Io_Fine (sample_inbound ''/skip-approval'') :: string hitl_event]))))
     (from_chat_id_fallback ''c'')"
proof -
  let ?h = "hitl_run Unknown File_Missing [Inbound 0 0 Io_Fine (sample_inbound ''/skip-approval'') :: string hitl_event]"
  have "hi_confirms ?h (from_chat_id_fallback ''c'') = Some \<lparr>cp_deadline = 60000, cp_channel = ''telegram'', cp_chat_id = ''c''\<rparr>"
    "says_confirm (sample_inbound ''confirm'')" "st_has_root (hi_store ?h)"
    "resolve_key (hi_identity ?h) (im_chat_id (sample_inbound ''confirm'')) = from_chat_id_fallback ''c''"
    by code_simp+
  from failed_persist_still_automatic [OF this(1) _ this(2) _ this(3,4), of 1000 Write_Failed 1]
  show ?thesis by simp
qed

text \<open>
  What a successful change writes is what a restarted gateway reads: opening the file that a
  change left behind gives every thread the mode it has in memory.
\<close>

lemma thread_entry_persist: "thread_entry (persist_entry p) = p"
  by (cases p) (simp add: thread_entry_def persist_entry_def thread_key_new_def)

lemma fold_update_distinct:
  "distinct (map fst (al @ bs)) \<Longrightarrow> fold (\<lambda>(k, s). AList.update k s) bs al = al @ bs"
proof (induction bs arbitrary: al)
  case (Cons b bs)
  obtain k s where b: "b = (k, s)" by (cases b)
  have "k \<notin> fst ` set al" using Cons.prems b by auto
  then have "AList.update k s al = al @ [(k, s)]" by (induction al) auto
  with Cons b show ?case by (simp add: b)
qed simp

theorem store_survives_restart:
  assumes "distinct (map fst (st_states s))" "store_set utc Io_Fine t mode src s = (ok, s')" "st_has_root s"
  shows "ok \<and> st_states (store_open (st_file s')) = st_states s' \<and> distinct (map fst (st_states s'))"
proof -
  have d: "distinct (map fst (AList.update t x (st_states s)))" for x
    by (rule distinct_update [OF assms(1)])
  have f: "fold (\<lambda>(k, s). AList.update k s) (AList.update t x (st_states s)) [] = AList.update t x (st_states s)" for x
    using fold_update_distinct [of "[]" "AList.update t x (st_states s)"] d by simp
  show ?thesis using assms(2,3) d
    by (auto simp: f store_set_def save_states_def Let_def store_open_def load_states_def comp_def thread_entry_persist)
qed

end
