(* ===== verification/Pairing.thy ===== *)
theory Pairing
  imports Zepto_Prelude
begin

text \<open>
  Device pairing (\<open>src/src/security/pairing.rs\<close>): one-time codes, bearer tokens of which only a
  digest is stored, and the lockout of identifiers that fail too often. Parameters: the digest
  \<open>hash\<close>, the random number behind a code and the fresh token. Every call reads one clock value in
  milliseconds (and the epoch second); the constant-time comparison of two byte strings is their
  equality. The device list is the persisted state, its file is left out.
\<close>

section \<open>State\<close>

record paired_device =
  pd_name :: string
  pd_token_hash :: string
  pd_paired_at :: nat
  pd_last_seen :: nat

record device_info =
  di_name :: string
  di_paired_at :: nat
  di_last_seen :: nat

record pending_code =
  pc_code :: string
  pc_expires_at :: int

record lockout_entry =
  le_attempts :: nat
  le_locked_until :: "int option"

record pairing_manager =
  pm_devices :: "paired_device list"
  pm_pending_code :: "pending_code option"
  pm_lockouts :: "(string \<times> lockout_entry) list"
  pm_max_attempts :: nat
  pm_lockout_duration :: int

definition pairing_new :: "paired_device list \<Rightarrow> nat \<Rightarrow> nat \<Rightarrow> pairing_manager" where
  "pairing_new devices max_attempts lockout_secs =
     \<lparr>pm_devices = devices, pm_pending_code = None, pm_lockouts = [], pm_max_attempts = max_attempts,
      pm_lockout_duration = 1000 * int lockout_secs\<rparr>"

section \<open>Operations\<close>

definition random_6_digit_code :: "nat \<Rightarrow> string" where
  "random_6_digit_code n =
     (let s = show_nat (wrap32 n mod 1000000) in replicate (6 - length s) (CHR ''0'') @ s)"

definition generate_pairing_code :: "int \<Rightarrow> nat \<Rightarrow> pairing_manager \<Rightarrow> string \<times> pairing_manager" where
  "generate_pairing_code now n m =
     (let code = random_6_digit_code n
      in (code, m\<lparr>pm_pending_code := Some \<lparr>pc_code = code, pc_expires_at = now + 300000\<rparr>\<rparr>))"

definition is_locked_out :: "int \<Rightarrow> pairing_manager \<Rightarrow> string \<Rightarrow> bool" where
  "is_locked_out now m identifier =
     (case map_of (pm_lockouts m) identifier of
        None \<Rightarrow> False
      | Some e \<Rightarrow> (case le_locked_until e of None \<Rightarrow> False | Some u \<Rightarrow> now < u))"

definition failed_attempts :: "pairing_manager \<Rightarrow> string \<Rightarrow> nat" where
  "failed_attempts m identifier = (case map_of (pm_lockouts m) identifier of None \<Rightarrow> 0 | Some e \<Rightarrow> le_attempts e)"

definition prune_expired_lockouts :: "int \<Rightarrow> pairing_manager \<Rightarrow> pairing_manager" where
  "prune_expired_lockouts now m =
     m\<lparr>pm_lockouts := filter (\<lambda>(i, e). case le_locked_until e of None \<Rightarrow> True | Some u \<Rightarrow> now < u) (pm_lockouts m)\<rparr>"

definition count_failure :: "int \<Rightarrow> nat \<Rightarrow> int \<Rightarrow> lockout_entry \<Rightarrow> lockout_entry" where
  "count_failure now max_attempts duration e =
     (let e = (case le_locked_until e of
                 Some u \<Rightarrow> if u \<le> now then \<lparr>le_attempts = 0, le_locked_until = None\<rparr> else e
               | None \<Rightarrow> e);
          e = e\<lparr>le_attempts := wrap32 (le_attempts e + 1)\<rparr>
      in if max_attempts \<le> le_attempts e then e\<lparr>le_locked_until := Some (now + duration)\<rparr> else e)"

definition record_failed_attempt :: "int \<Rightarrow> string \<Rightarrow> pairing_manager \<Rightarrow> pairing_manager" where
  "record_failed_attempt now identifier m =
     (let m = (if 100 < length (pm_lockouts m) then prune_expired_lockouts now m else m);
          e = (case map_of (pm_lockouts m) identifier of
                 Some e \<Rightarrow> e | None \<Rightarrow> \<lparr>le_attempts = 0, le_locked_until = None\<rparr>)
      in m\<lparr>pm_lockouts := AList.update identifier
             (count_failure now (pm_max_attempts m) (pm_lockout_duration m) e) (pm_lockouts m)\<rparr>)"

definition clear_lockout :: "string \<Rightarrow> pairing_manager \<Rightarrow> pairing_manager" where
  "clear_lockout identifier m = m\<lparr>pm_lockouts := AList.delete identifier (pm_lockouts m)\<rparr>"

definition complete_pairing ::
    "(string \<Rightarrow> string) \<Rightarrow> int \<Rightarrow> nat \<Rightarrow> string \<Rightarrow> string \<Rightarrow> string \<Rightarrow> string \<Rightarrow> pairing_manager
       \<Rightarrow> string option \<times> pairing_manager" where
  "complete_pairing hash now epoch raw_token code device_name identifier m =
     (if is_locked_out now m identifier then (None, m)
      else
        let valid = (case pm_pending_code m of
              None \<Rightarrow> False
            | Some pc \<Rightarrow> pc_code pc = code \<and> now < pc_expires_at pc)
        in if \<not> valid then (None, record_failed_attempt now identifier m)
           else let m = clear_lockout identifier (m\<lparr>pm_pending_code := None\<rparr>) in
                (Some raw_token,
                 m\<lparr>pm_devices := filter (\<lambda>d. pd_name d \<noteq> device_name) (pm_devices m)
                     @ [\<lparr>pd_name = device_name, pd_token_hash = hash raw_token, pd_paired_at = epoch, pd_last_seen = epoch\<rparr>]\<rparr>))"

text \<open>The scan over all devices keeps the last index that matches.\<close>

fun last_match :: "string \<Rightarrow> paired_device list \<Rightarrow> nat \<Rightarrow> nat option \<Rightarrow> nat option" where
  "last_match h [] i found = found"
| "last_match h (d # ds) i found = last_match h ds (Suc i) (if pd_token_hash d = h then Some i else found)"

definition validate_token ::
    "(string \<Rightarrow> string) \<Rightarrow> int \<Rightarrow> nat \<Rightarrow> string \<Rightarrow> string \<Rightarrow> pairing_manager \<Rightarrow> string option \<times> pairing_manager" where
  "validate_token hash now epoch raw_token identifier m =
     (if is_locked_out now m identifier then (None, m)
      else case last_match (hash raw_token) (pm_devices m) 0 None of
        Some idx \<Rightarrow>
          (Some (pd_name (pm_devices m ! idx)),
           clear_lockout identifier
             (m\<lparr>pm_devices := (pm_devices m)[idx := (pm_devices m ! idx)\<lparr>pd_last_seen := epoch\<rparr>]\<rparr>))
      | None \<Rightarrow> (None, record_failed_attempt now identifier m))"

definition revoke :: "string \<Rightarrow> pairing_manager \<Rightarrow> bool \<times> pairing_manager" where
  "revoke device_name m =
     (let kept = filter (\<lambda>d. pd_name d \<noteq> device_name) (pm_devices m)
      in (length kept < length (pm_devices m), m\<lparr>pm_devices := kept\<rparr>))"

definition list_devices :: "pairing_manager \<Rightarrow> device_info list" where
  "list_devices m =
     map (\<lambda>d. \<lparr>di_name = pd_name d, di_paired_at = pd_paired_at d, di_last_seen = pd_last_seen d\<rparr>) (pm_devices m)"

definition has_devices :: "pairing_manager \<Rightarrow> bool" where
  "has_devices m \<longleftrightarrow> pm_devices m \<noteq> []"

section \<open>Runs\<close>

datatype pairing_event =
    Generate int nat
  | Try_Code int nat string string string string
  | Try_Token int nat string string
  | Revoke string
  | Prune int

fun pairing_apply :: "(string \<Rightarrow> string) \<Rightarrow> pairing_event \<Rightarrow> pairing_manager \<Rightarrow> pairing_manager" where
  "pairing_apply hash (Generate now n) m = snd (generate_pairing_code now n m)"
| "pairing_apply hash (Try_Code now epoch tok code name i) m = snd (complete_pairing hash now epoch tok code name i m)"
| "pairing_apply hash (Try_Token now epoch tok i) m = snd (validate_token hash now epoch tok i m)"
| "pairing_apply hash (Revoke name) m = snd (revoke name m)"
| "pairing_apply hash (Prune now) m = prune_expired_lockouts now m"

text \<open>
  A guess of an identifier is an attempt that is compared with the code or the tokens, that is,
  one made while the identifier is not locked out.
\<close>

fun is_guess :: "string \<Rightarrow> pairing_event \<Rightarrow> pairing_manager \<Rightarrow> bool" where
  "is_guess i (Try_Code now epoch tok code name i') m \<longleftrightarrow> i' = i \<and> \<not> is_locked_out now m i"
| "is_guess i (Try_Token now epoch tok i') m \<longleftrightarrow> i' = i \<and> \<not> is_locked_out now m i"
| "is_guess i ev m \<longleftrightarrow> False"

fun succeeds :: "(string \<Rightarrow> string) \<Rightarrow> string \<Rightarrow> pairing_event \<Rightarrow> pairing_manager \<Rightarrow> bool" where
  "succeeds hash i (Try_Code now epoch tok code name i') m \<longleftrightarrow>
     i' = i \<and> fst (complete_pairing hash now epoch tok code name i' m) \<noteq> None"
| "succeeds hash i (Try_Token now epoch tok i') m \<longleftrightarrow> i' = i \<and> fst (validate_token hash now epoch tok i' m) \<noteq> None"
| "succeeds hash i ev m \<longleftrightarrow> False"

fun event_time :: "pairing_event \<Rightarrow> int option" where
  "event_time (Generate now n) = Some now"
| "event_time (Try_Code now epoch tok code name i) = Some now"
| "event_time (Try_Token now epoch tok i) = Some now"
| "event_time (Revoke name) = None"
| "event_time (Prune now) = Some now"

fun count_guesses :: "(string \<Rightarrow> string) \<Rightarrow> string \<Rightarrow> pairing_event list \<Rightarrow> pairing_manager \<Rightarrow> nat" where
  "count_guesses hash i [] m = 0"
| "count_guesses hash i (ev # evs) m =
     (if is_guess i ev m then 1 else 0) + count_guesses hash i evs (pairing_apply hash ev m)"

fun never_succeeds :: "(string \<Rightarrow> string) \<Rightarrow> string \<Rightarrow> pairing_event list \<Rightarrow> pairing_manager \<Rightarrow> bool" where
  "never_succeeds hash i [] m \<longleftrightarrow> True"
| "never_succeeds hash i (ev # evs) m \<longleftrightarrow> \<not> succeeds hash i ev m \<and> never_succeeds hash i evs (pairing_apply hash ev m)"

section \<open>Lockout entries\<close>

definition guess_limit :: "pairing_manager \<Rightarrow> nat" where
  "guess_limit m = max 1 (pm_max_attempts m)"

definition lock_inv :: "pairing_manager \<Rightarrow> bool" where
  "lock_inv m \<longleftrightarrow> distinct (map fst (pm_lockouts m)) \<and> pm_max_attempts m \<le> u32_max
     \<and> (\<forall>i e. map_of (pm_lockouts m) i = Some e \<longrightarrow> le_locked_until e = None \<longrightarrow> le_attempts e < guess_limit m)"

lemma map_of_filter_distinct:
  "distinct (map fst al) \<Longrightarrow>
   map_of (filter (\<lambda>(k, v). P v) al) k = (case map_of al k of None \<Rightarrow> None | Some v \<Rightarrow> if P v then Some v else None)"
proof (induction al)
  case (Cons p al)
  obtain j v where p: "p = (j, v)" by (cases p)
  show ?case
  proof (cases "k = j")
    case True
    with Cons.prems p have "map_of al k = None" by (simp add: map_of_eq_None_iff)
    with Cons p True show ?thesis by auto
  qed (use Cons p in auto)
qed simp

lemma map_of_prune:
  "lock_inv m \<Longrightarrow> map_of (pm_lockouts (prune_expired_lockouts now m)) i =
     (case map_of (pm_lockouts m) i of
        None \<Rightarrow> None
      | Some e \<Rightarrow> (case le_locked_until e of Some u \<Rightarrow> if now < u then Some e else None | None \<Rightarrow> Some e))"
  by (auto simp: prune_expired_lockouts_def lock_inv_def map_of_filter_distinct split: option.splits)

lemma prune_fields [simp]:
  "pm_max_attempts (prune_expired_lockouts now m) = pm_max_attempts m"
  "pm_lockout_duration (prune_expired_lockouts now m) = pm_lockout_duration m"
  "pm_devices (prune_expired_lockouts now m) = pm_devices m"
  "pm_pending_code (prune_expired_lockouts now m) = pm_pending_code m"
  "guess_limit (prune_expired_lockouts now m) = guess_limit m"
  by (simp_all add: prune_expired_lockouts_def guess_limit_def)

lemma lock_inv_prune: "lock_inv m \<Longrightarrow> lock_inv (prune_expired_lockouts now m)"
  unfolding lock_inv_def [of "prune_expired_lockouts now m"]
  by (auto simp: map_of_prune split: option.splits if_splits)
    (auto simp: lock_inv_def prune_expired_lockouts_def distinct_map_filter)

text \<open>The guesses an identifier has left before the end of a window.\<close>

definition guesses_left :: "int \<Rightarrow> pairing_manager \<Rightarrow> string \<Rightarrow> nat" where
  "guesses_left fin m i =
     (case map_of (pm_lockouts m) i of
        None \<Rightarrow> guess_limit m
      | Some e \<Rightarrow> (case le_locked_until e of
            None \<Rightarrow> guess_limit m - le_attempts e
          | Some u \<Rightarrow> if fin \<le> u then 0 else guess_limit m))"

lemma guesses_left_prune: "lock_inv m \<Longrightarrow> now < fin \<Longrightarrow> guesses_left fin (prune_expired_lockouts now m) i = guesses_left fin m i"
  by (auto simp: guesses_left_def map_of_prune split: option.splits)

lemma is_locked_out_prune: "lock_inv m \<Longrightarrow> is_locked_out now (prune_expired_lockouts now m) i = is_locked_out now m i"
  by (auto simp: is_locked_out_def map_of_prune split: option.splits)

text \<open>The entry a failure starts from, and what a counted failure makes of it.\<close>

definition entry_of :: "pairing_manager \<Rightarrow> string \<Rightarrow> lockout_entry" where
  "entry_of m i = (case map_of (pm_lockouts m) i of Some e \<Rightarrow> e | None \<Rightarrow> \<lparr>le_attempts = 0, le_locked_until = None\<rparr>)"

definition count_at :: "int \<Rightarrow> string \<Rightarrow> pairing_manager \<Rightarrow> pairing_manager" where
  "count_at now i m = m\<lparr>pm_lockouts := AList.update i
     (count_failure now (pm_max_attempts m) (pm_lockout_duration m) (entry_of m i)) (pm_lockouts m)\<rparr>"

lemma record_failed_attempt_alt:
  "record_failed_attempt now i m = count_at now i (if 100 < length (pm_lockouts m) then prune_expired_lockouts now m else m)"
  by (simp add: record_failed_attempt_def count_at_def entry_of_def Let_def)

lemma count_failure_limit:
  assumes "mx \<le> u32_max" "le_locked_until e = None \<Longrightarrow> le_attempts e < max 1 mx"
    and "case le_locked_until e of None \<Rightarrow> True | Some u \<Rightarrow> u \<le> now"
  shows "let e' = count_failure now mx dur e in
    (le_locked_until e' = None \<longrightarrow> le_attempts e' < max 1 mx)
    \<and> (le_locked_until e' = None \<longrightarrow> max 1 mx - le_attempts e'
         < (if le_locked_until e = None then max 1 mx - le_attempts e else max 1 mx))
    \<and> (le_locked_until e' = None \<or> le_locked_until e' = Some (now + dur))"
proof (cases "le_locked_until e")
  case None
  then have w: "wrap32 (Suc (le_attempts e)) = Suc (le_attempts e)"
    using assms(1,2) by (intro wrap32_id) (auto simp: width_simps split: if_splits)
  then show ?thesis using None assms by (auto simp: count_failure_def Let_def)
next
  case (Some u)
  have "wrap32 (Suc 0) = Suc 0" by simp
  then show ?thesis using Some assms by (auto simp: count_failure_def Let_def)
qed

lemma count_entry_limit:
  assumes inv: "lock_inv m" and free: "\<not> is_locked_out now m i"
  shows "let e = entry_of m i; e' = count_failure now (pm_max_attempts m) (pm_lockout_duration m) e in
    (le_locked_until e = None \<longrightarrow> le_attempts e < guess_limit m)
    \<and> (case le_locked_until e of None \<Rightarrow> True | Some u \<Rightarrow> u \<le> now)
    \<and> (le_locked_until e' = None \<longrightarrow> le_attempts e' < guess_limit m)
    \<and> (le_locked_until e' = None \<longrightarrow> guess_limit m - le_attempts e'
         < (if le_locked_until e = None then guess_limit m - le_attempts e else guess_limit m))
    \<and> (le_locked_until e' = None \<or> le_locked_until e' = Some (now + pm_lockout_duration m))"
proof -
  let ?e = "entry_of m i"
  have lim: "le_locked_until ?e = None \<Longrightarrow> le_attempts ?e < max 1 (pm_max_attempts m)"
    using inv by (cases "map_of (pm_lockouts m) i")
      (auto simp: entry_of_def lock_inv_def guess_limit_def simp del: map_of_eq_Some_iff)
  have exp: "case le_locked_until ?e of None \<Rightarrow> True | Some u \<Rightarrow> u \<le> now"
    using free by (auto simp: entry_of_def is_locked_out_def split: option.splits)
  have "pm_max_attempts m \<le> u32_max" using inv by (simp add: lock_inv_def)
  from count_failure_limit [OF this lim exp, of "pm_lockout_duration m"] lim exp
  show ?thesis unfolding Let_def guess_limit_def by blast
qed

lemma guess_limit_count [simp]: "guess_limit (count_at now i m) = guess_limit m"
  by (simp add: guess_limit_def count_at_def)

lemma lock_inv_count: "lock_inv m \<Longrightarrow> \<not> is_locked_out now m i \<Longrightarrow> lock_inv (count_at now i m)"
  using count_entry_limit [of m now i] unfolding lock_inv_def guess_limit_count Let_def
  by (auto simp: count_at_def distinct_update update_conv')

lemma guesses_left_count:
  assumes inv: "lock_inv m" and free: "\<not> is_locked_out now m i" and t: "now < fin" "fin \<le> now + pm_lockout_duration m"
  shows "guesses_left fin (count_at now i m) i < guesses_left fin m i"
    and "j \<noteq> i \<Longrightarrow> guesses_left fin (count_at now i m) j = guesses_left fin m j"
proof -
  let ?e = "entry_of m i"
  let ?e' = "count_failure now (pm_max_attempts m) (pm_lockout_duration m) ?e"
  note c = count_entry_limit [OF inv free, unfolded Let_def]
  have new: "guesses_left fin (count_at now i m) i = (if le_locked_until ?e' = None then guess_limit m - le_attempts ?e' else 0)"
    using c t unfolding guesses_left_def guess_limit_count by (auto simp: count_at_def update_conv' split: option.split)
  have old: "guesses_left fin m i = (if le_locked_until ?e = None then guess_limit m - le_attempts ?e else guess_limit m)"
    using c t by (auto simp: guesses_left_def entry_of_def split: option.splits)
  have "0 < guess_limit m" by (simp add: guess_limit_def)
  then show "guesses_left fin (count_at now i m) i < guesses_left fin m i"
    unfolding new old using c by auto
  show "j \<noteq> i \<Longrightarrow> guesses_left fin (count_at now i m) j = guesses_left fin m j"
    unfolding guesses_left_def guess_limit_count by (simp add: count_at_def update_conv')
qed

text \<open>A failed attempt, a cleared lockout and a changed device list or code.\<close>

lemma lock_inv_failed_attempt:
  "lock_inv m \<Longrightarrow> \<not> is_locked_out now m i \<Longrightarrow> lock_inv (record_failed_attempt now i m)"
  unfolding record_failed_attempt_alt by (simp add: lock_inv_count lock_inv_prune is_locked_out_prune)

lemma failed_attempt_left:
  assumes inv: "lock_inv m" and free: "\<not> is_locked_out now m i" and t: "now < fin" "fin \<le> now + pm_lockout_duration m"
  shows "lock_inv (record_failed_attempt now i m) \<and> pm_lockout_duration (record_failed_attempt now i m) = pm_lockout_duration m
    \<and> guesses_left fin (record_failed_attempt now i m) i < guesses_left fin m i
    \<and> (\<forall>j. j \<noteq> i \<longrightarrow> guesses_left fin (record_failed_attempt now i m) j = guesses_left fin m j)"
proof -
  let ?m = "if 100 < length (pm_lockouts m) then prune_expired_lockouts now m else m"
  have "lock_inv ?m" "\<not> is_locked_out now ?m i" "fin \<le> now + pm_lockout_duration ?m"
    using inv free t by (simp_all add: lock_inv_prune is_locked_out_prune)
  note c = guesses_left_count [OF this(1,2) t(1) this(3)]
  have same: "guesses_left fin ?m j = guesses_left fin m j" for j
    using inv t by (simp add: guesses_left_prune)
  have "pm_lockout_duration (count_at now i ?m) = pm_lockout_duration m" by (simp add: count_at_def)
  then show ?thesis using c same lock_inv_failed_attempt [OF inv free] unfolding record_failed_attempt_alt by auto
qed

lemma clear_lockout_left:
  assumes "lock_inv m"
  shows "lock_inv (clear_lockout i m)" "pm_lockout_duration (clear_lockout i m) = pm_lockout_duration m"
    "j \<noteq> i \<Longrightarrow> guesses_left fin (clear_lockout i m) j = guesses_left fin m j"
  using assms
  by (auto simp: lock_inv_def clear_lockout_def distinct_delete delete_conv' guesses_left_def guess_limit_def
      split: option.split)

lemma lock_fields_only:
  assumes "pm_lockouts m' = pm_lockouts m" "pm_max_attempts m' = pm_max_attempts m"
  shows "lock_inv m' = lock_inv m" "guesses_left fin m' j = guesses_left fin m j"
proof -
  have "guess_limit m' = guess_limit m" using assms(2) by (simp add: guess_limit_def)
  then show "lock_inv m' = lock_inv m" "guesses_left fin m' j = guesses_left fin m j"
    using assms by (simp_all add: lock_inv_def guesses_left_def split: option.split)
qed

definition fits_window :: "int \<Rightarrow> int \<Rightarrow> pairing_event \<Rightarrow> bool" where
  "fits_window start fin ev \<longleftrightarrow> (case event_time ev of None \<Rightarrow> True | Some t \<Rightarrow> start \<le> t \<and> t < fin)"

lemma pairing_step_left:
  assumes inv: "lock_inv m" and win: "fits_window start fin ev" "fin \<le> start + pm_lockout_duration m"
    and nope: "\<not> succeeds hash i ev m"
  shows "lock_inv (pairing_apply hash ev m) \<and> pm_lockout_duration (pairing_apply hash ev m) = pm_lockout_duration m
    \<and> (if is_guess i ev m then 1 else 0) + guesses_left fin (pairing_apply hash ev m) i \<le> guesses_left fin m i"
proof (cases ev)
  case (Generate now n)
  then show ?thesis using inv lock_fields_only [of "snd (generate_pairing_code now n m)" m]
    by (simp add: generate_pairing_code_def Let_def)
next
  case (Try_Code now epoch tok code name j)
  have t: "now < fin" "fin \<le> now + pm_lockout_duration m" using win by (auto simp: Try_Code fits_window_def)
  consider "is_locked_out now m j" | "\<not> is_locked_out now m j" "fst (complete_pairing hash now epoch tok code name j m) = None"
    | "\<not> is_locked_out now m j" "fst (complete_pairing hash now epoch tok code name j m) \<noteq> None" by blast
  then show ?thesis
  proof cases
    case 1
    then show ?thesis using inv by (auto simp: Try_Code complete_pairing_def)
  next
    case 2
    then have "snd (complete_pairing hash now epoch tok code name j m) = record_failed_attempt now j m"
      by (auto simp: complete_pairing_def Let_def split: if_splits)
    then show ?thesis using 2 failed_attempt_left [OF inv 2(1) t] by (cases "j = i") (auto simp: Try_Code)
  next
    case 3
    let ?m = "clear_lockout j (m\<lparr>pm_pending_code := None\<rparr>)"
    have eq: "snd (complete_pairing hash now epoch tok code name j m) = ?m\<lparr>pm_devices := filter (\<lambda>d. pd_name d \<noteq> name) (pm_devices ?m)
        @ [\<lparr>pd_name = name, pd_token_hash = hash tok, pd_paired_at = epoch, pd_last_seen = epoch\<rparr>]\<rparr>"
      using 3 by (auto simp: complete_pairing_def Let_def split: if_splits)
    have "j \<noteq> i" using nope 3 by (auto simp: Try_Code)
    moreover have "lock_inv (m\<lparr>pm_pending_code := None\<rparr>)" using inv lock_fields_only(1) [of "m\<lparr>pm_pending_code := None\<rparr>" m] by simp
    ultimately show ?thesis
      using clear_lockout_left [of "m\<lparr>pm_pending_code := None\<rparr>", where i = j] lock_fields_only [of "m\<lparr>pm_pending_code := None\<rparr>" m]
        lock_fields_only [of "snd (complete_pairing hash now epoch tok code name j m)" ?m]
      by (auto simp: Try_Code eq clear_lockout_def)
  qed
next
  case (Try_Token now epoch tok j)
  have t: "now < fin" "fin \<le> now + pm_lockout_duration m" using win by (auto simp: Try_Token fits_window_def)
  consider "is_locked_out now m j" | "\<not> is_locked_out now m j" "last_match (hash tok) (pm_devices m) 0 None = None"
    | idx where "\<not> is_locked_out now m j" "last_match (hash tok) (pm_devices m) 0 None = Some idx" by fastforce
  then show ?thesis
  proof cases
    case 1
    then show ?thesis using inv by (auto simp: Try_Token validate_token_def)
  next
    case 2
    then show ?thesis using failed_attempt_left [OF inv 2(1) t]
      by (cases "j = i") (auto simp: Try_Token validate_token_def)
  next
    case (3 idx)
    let ?m = "m\<lparr>pm_devices := (pm_devices m)[idx := (pm_devices m ! idx)\<lparr>pd_last_seen := epoch\<rparr>]\<rparr>"
    have "lock_inv ?m" "\<And>k. guesses_left fin ?m k = guesses_left fin m k"
      using inv lock_fields_only [of ?m m] by simp_all
    moreover have "j \<noteq> i" using nope 3 by (auto simp: Try_Token validate_token_def)
    ultimately show ?thesis using 3 clear_lockout_left [of ?m, where i = j] by (auto simp: Try_Token validate_token_def)
  qed
next
  case (Revoke name)
  then show ?thesis using inv lock_fields_only [of "snd (revoke name m)" m] by (simp add: revoke_def Let_def)
next
  case (Prune now)
  then show ?thesis using inv win lock_inv_prune guesses_left_prune by (auto simp: fits_window_def)
qed

lemma guesses_bounded:
  assumes "lock_inv m" "fin \<le> start + pm_lockout_duration m" "\<forall>ev \<in> set evs. fits_window start fin ev"
    and "never_succeeds hash i evs m"
  shows "count_guesses hash i evs m \<le> guesses_left fin m i"
  using assms
proof (induction evs arbitrary: m)
  case (Cons ev evs)
  have f: "fits_window start fin ev" "\<not> succeeds hash i ev m" using Cons.prems by auto
  note step = pairing_step_left [OF Cons.prems(1) f(1) Cons.prems(2) f(2)]
  have "count_guesses hash i evs (pairing_apply hash ev m) \<le> guesses_left fin (pairing_apply hash ev m) i"
    using Cons step by (intro Cons.IH) auto
  then show ?case using step by auto
qed simp

lemma guesses_left_le: "guesses_left fin m i \<le> guess_limit m"
  by (auto simp: guesses_left_def split: option.split)

lemma lock_inv_step: "lock_inv m \<Longrightarrow> lock_inv (pairing_apply hash ev m)"
proof (cases ev)
  case (Generate now n)
  then show "lock_inv m \<Longrightarrow> ?thesis" using lock_fields_only [of "snd (generate_pairing_code now n m)" m]
    by (simp add: generate_pairing_code_def Let_def)
next
  case (Try_Code now epoch tok code name i)
  assume inv: "lock_inv m"
  have "lock_inv (clear_lockout i (m\<lparr>pm_pending_code := None\<rparr>)\<lparr>pm_devices := ds\<rparr>)" for ds
    using clear_lockout_left(1) [OF inv, of i]
    by (auto simp: clear_lockout_def intro: lock_fields_only(1) [THEN iffD2, rotated 2])
  then show ?thesis using inv lock_inv_failed_attempt
    by (auto simp: Try_Code complete_pairing_def Let_def)
next
  case (Try_Token now epoch tok i)
  assume inv: "lock_inv m"
  have "lock_inv (clear_lockout i (m\<lparr>pm_devices := ds\<rparr>))" for ds
    using clear_lockout_left(1) [OF inv, of i]
    by (auto simp: clear_lockout_def intro: lock_fields_only(1) [THEN iffD2, rotated 2])
  then show ?thesis using inv lock_inv_failed_attempt
    by (auto simp: Try_Token validate_token_def split: option.split)
next
  case (Revoke name)
  then show "lock_inv m \<Longrightarrow> ?thesis" using lock_fields_only [of "snd (revoke name m)" m] by (simp add: revoke_def Let_def)
qed (simp add: lock_inv_prune)

lemma pairing_run_inv:
  assumes "max_attempts \<le> u32_max"
  shows "lock_inv (fold (pairing_apply hash) evs (pairing_new ds max_attempts secs))"
proof -
  have "lock_inv (pairing_new ds max_attempts secs)" using assms by (simp add: lock_inv_def pairing_new_def)
  then show ?thesis by (induction evs arbitrary: ds rule: rev_induct) (simp_all add: lock_inv_step)
qed

lemma pairing_run_config:
  "pm_lockout_duration (fold (pairing_apply hash) evs m) = pm_lockout_duration m
   \<and> pm_max_attempts (fold (pairing_apply hash) evs m) = pm_max_attempts m"
proof (induction evs rule: rev_induct)
  case (snoc ev evs)
  have "pm_lockout_duration (pairing_apply hash ev m') = pm_lockout_duration m'
      \<and> pm_max_attempts (pairing_apply hash ev m') = pm_max_attempts m'" for m'
    by (cases ev) (auto simp: generate_pairing_code_def complete_pairing_def validate_token_def revoke_def
        record_failed_attempt_def clear_lockout_def Let_def split: option.split)
  then show ?case using snoc by simp
qed simp

section \<open>Tokens\<close>

lemma last_match_none: "last_match h ds i found = None \<longleftrightarrow> found = None \<and> (\<forall>d \<in> set ds. pd_token_hash d \<noteq> h)"
  by (induction h ds i found rule: last_match.induct) auto

lemma last_match_some:
  assumes "last_match h ds 0 None = Some idx"
  shows "idx < length ds \<and> pd_token_hash (ds ! idx) = h \<and> (\<forall>j. idx < j \<and> j < length ds \<longrightarrow> pd_token_hash (ds ! j) \<noteq> h)"
proof -
  have "last_match h ds i found = Some idx \<Longrightarrow>
      (found = Some idx \<and> (\<forall>d \<in> set ds. pd_token_hash d \<noteq> h))
      \<or> (i \<le> idx \<and> idx < i + length ds \<and> pd_token_hash (ds ! (idx - i)) = h
         \<and> (\<forall>j. idx - i < j \<and> j < length ds \<longrightarrow> pd_token_hash (ds ! j) \<noteq> h))" for i found
  proof (induction ds arbitrary: i found)
    case (Cons d ds)
    from Cons.prems have "last_match h ds (Suc i) (if pd_token_hash d = h then Some i else found) = Some idx" by simp
    from Cons.IH [OF this] show ?case
    proof (elim disjE conjE)
      assume a: "(if pd_token_hash d = h then Some i else found) = Some idx" "\<forall>d \<in> set ds. pd_token_hash d \<noteq> h"
      show ?thesis
      proof (cases "pd_token_hash d = h")
        case True
        with a show ?thesis by (auto simp: nth_Cons split: nat.split)
      qed (use a in auto)
    next
      assume b: "Suc i \<le> idx" "idx < Suc i + length ds" "pd_token_hash (ds ! (idx - Suc i)) = h"
        "\<forall>j. idx - Suc i < j \<and> j < length ds \<longrightarrow> pd_token_hash (ds ! j) \<noteq> h"
      then have "idx - i = Suc (idx - Suc i)" by simp
      with b show ?thesis by (auto simp: nth_Cons split: nat.splits)
    qed
  qed simp
  from this [OF assms] show ?thesis by simp
qed

lemma validate_token_known:
  "\<not> is_locked_out now m i \<Longrightarrow>
     fst (validate_token hash now epoch tok i m) = None \<longleftrightarrow> (\<forall>d \<in> set (pm_devices m). pd_token_hash d \<noteq> hash tok)"
  using last_match_none [of "hash tok" "pm_devices m" 0 None] by (auto simp: validate_token_def split: option.split)

lemma validate_token_name:
  assumes "fst (validate_token hash now epoch tok i m) = Some name"
  shows "\<exists>d \<in> set (pm_devices m). pd_name d = name \<and> pd_token_hash d = hash tok"
  using assms last_match_some [of "hash tok" "pm_devices m"]
  by (auto simp: validate_token_def split: if_splits option.splits intro!: bexI [where x = "pm_devices m ! _"])

section \<open>Properties\<close>

text \<open>
  A success forgives every failure: after a valid token the identifier has no failed attempt left, so the
  holder of one valid token who uses it between guesses is never locked out.
\<close>

theorem success_forgives_failures:
  assumes "validate_token hash now epoch tok i m = (Some name, m')"
  shows "failed_attempts m' i = 0 \<and> \<not> is_locked_out now' m' i"
  using assms
  by (auto simp: validate_token_def clear_lockout_def failed_attempts_def is_locked_out_def delete_conv split: if_splits option.splits)

text \<open>
  C15. Guessing is bounded per identifier that does not succeed: after any history, in any stretch of events shorter than the
  lockout duration in which the identifier never succeeds, at most \<open>max_attempts\<close> (and at least
  one) of its attempts are compared with the pending code or the stored tokens; all others
  are rejected unseen, whatever other identifiers do and whenever expired lockouts are pruned.
\<close>

theorem brute_force_bounded:
  assumes "max_attempts \<le> u32_max"
    and "m = fold (pairing_apply hash) history (pairing_new ds max_attempts lockout_secs)"
    and "\<forall>ev \<in> set evs. fits_window start (start + 1000 * int lockout_secs) ev"
    and "never_succeeds hash i evs m"
  shows "count_guesses hash i evs m \<le> max 1 max_attempts"
proof -
  have c: "pm_lockout_duration m = 1000 * int lockout_secs" "pm_max_attempts m = max_attempts"
    using pairing_run_config [of hash history "pairing_new ds max_attempts lockout_secs"] assms(2)
    by (simp_all add: pairing_new_def)
  have "count_guesses hash i evs m \<le> guesses_left (start + 1000 * int lockout_secs) m i"
    using guesses_bounded [OF _ _ assms(3,4)] pairing_run_inv [OF assms(1)] assms(2) c(1) by simp
  then show ?thesis using guesses_left_le [of _ m i] c(2) by (metis guess_limit_def le_trans)
qed

theorem brute_force_bounded_witness:
  "count_guesses id ''ip'' [Try_Token 0 0 ''a'' ''ip'', Try_Token 1 0 ''b'' ''ip'', Try_Token 2 0 ''c'' ''ip'']
     (pairing_new [] 2 300) \<le> 2"
proof -
  have "never_succeeds id ''ip'' [Try_Token 0 0 ''a'' ''ip'', Try_Token 1 0 ''b'' ''ip'', Try_Token 2 0 ''c'' ''ip'']
     (pairing_new [] 2 300)"
    by code_simp
  then show ?thesis
    using brute_force_bounded [of 2 "pairing_new [] 2 300" id "[]" "[]" 300
        "[Try_Token 0 0 ''a'' ''ip'', Try_Token 1 0 ''b'' ''ip'', Try_Token 2 0 ''c'' ''ip'']" 0 "''ip''"]
    by (simp add: fits_window_def width_simps)
qed

text \<open>
  The life of a token: pairing succeeds exactly when the identifier is not locked out and the
  code is the pending one and has not expired; it uses the code up; the token it hands out then
  names the device, until the device is revoked, after which the token is worth nothing. The
  digest must not identify the fresh token with one of another device.
\<close>

theorem token_lifecycle:
  assumes "complete_pairing hash now epoch tok code name i m = (r, m')"
    and "\<forall>d \<in> set (pm_devices m). pd_token_hash d \<noteq> hash tok"
  shows "(r = Some tok \<longleftrightarrow> \<not> is_locked_out now m i \<and>
      (\<exists>pc. pm_pending_code m = Some pc \<and> pc_code pc = code \<and> now < pc_expires_at pc))
    \<and> (r = Some tok \<longrightarrow> pm_pending_code m' = None
        \<and> (\<forall>t e j. \<not> is_locked_out t m' j \<longrightarrow> fst (validate_token hash t e tok j m') = Some name)
        \<and> (\<forall>t e j. fst (validate_token hash t e tok j (snd (revoke name m'))) = None))"
proof -
  have ok: "r = Some tok \<longleftrightarrow> \<not> is_locked_out now m i \<and>
      (\<exists>pc. pm_pending_code m = Some pc \<and> pc_code pc = code \<and> now < pc_expires_at pc)"
    using assms(1) by (auto simp: complete_pairing_def Let_def split: if_splits option.splits)
  moreover have "pm_pending_code m' = None
        \<and> (\<forall>t e j. \<not> is_locked_out t m' j \<longrightarrow> fst (validate_token hash t e tok j m') = Some name)
        \<and> (\<forall>t e j. fst (validate_token hash t e tok j (snd (revoke name m'))) = None)" if "r = Some tok"
  proof -
    have p: "pm_pending_code m' = None" and dev: "pm_devices m' = filter (\<lambda>d. pd_name d \<noteq> name) (pm_devices m)
        @ [\<lparr>pd_name = name, pd_token_hash = hash tok, pd_paired_at = epoch, pd_last_seen = epoch\<rparr>]"
      using assms(1) that ok by (auto simp: complete_pairing_def Let_def clear_lockout_def split: if_splits)
    have "fst (validate_token hash t e tok j m') = Some name" if "\<not> is_locked_out t m' j" for t e j
    proof -
      have "fst (validate_token hash t e tok j m') \<noteq> None"
        unfolding validate_token_known [OF that] by (simp add: dev)
      then obtain n where n: "fst (validate_token hash t e tok j m') = Some n" by blast
      from validate_token_name [OF this] n dev assms(2) show ?thesis by auto
    qed
    moreover have "fst (validate_token hash t e tok j (snd (revoke name m'))) = None" for t e j
      using validate_token_name [of hash t e tok j "snd (revoke name m')"] assms(2)
      by (cases "fst (validate_token hash t e tok j (snd (revoke name m')))") (auto simp: revoke_def Let_def dev)
    ultimately show ?thesis using p by blast
  qed
  ultimately show ?thesis by blast
qed

definition sample_pairing :: pairing_manager where
  "sample_pairing = snd (generate_pairing_code 0 42 (pairing_new [] 5 300))"

theorem token_lifecycle_witness:
  "fst (validate_token rev 2000 2 ''tok'' ''ip'' (snd (complete_pairing rev 1000 1 ''tok'' ''000042'' ''phone'' ''ip'' sample_pairing)))
     = Some ''phone''"
proof -
  let ?m = "snd (complete_pairing rev 1000 1 ''tok'' ''000042'' ''phone'' ''ip'' sample_pairing)"
  have "fst (complete_pairing rev 1000 1 ''tok'' ''000042'' ''phone'' ''ip'' sample_pairing) = Some ''tok''"
    "\<not> is_locked_out 2000 ?m ''ip''" "pm_devices sample_pairing = []"
    by code_simp+
  then show ?thesis using token_lifecycle [of rev 1000 1 "''tok''" "''000042''" "''phone''" "''ip''" sample_pairing "Some ''tok''" ?m]
    by (metis empty_iff empty_set prod.collapse)
qed

text \<open>
  The lockout table is not bounded by pruning: entries below the threshold have no deadline and
  are never pruned, so one failure each from \<open>n\<close> distinct identifiers leaves \<open>n\<close> entries.
\<close>

definition counting_only :: "nat \<Rightarrow> string set \<Rightarrow> pairing_manager \<Rightarrow> bool" where
  "counting_only mx ids m \<longleftrightarrow> pm_devices m = [] \<and> pm_max_attempts m = mx \<and> fst ` set (pm_lockouts m) = ids
     \<and> (\<forall>p \<in> set (pm_lockouts m). le_locked_until (snd p) = None)"

lemma prune_keeps_counting:
  assumes "counting_only mx ids m"
  shows "prune_expired_lockouts now m = m"
proof -
  have "filter (\<lambda>(i, e). case le_locked_until e of None \<Rightarrow> True | Some u \<Rightarrow> now < u) (pm_lockouts m) = pm_lockouts m"
    using assms by (intro filter_True) (auto simp: counting_only_def)
  then show ?thesis by (simp add: prune_expired_lockouts_def)
qed

lemma counting_only_step:
  assumes c: "counting_only mx ids m" and "2 \<le> mx" "i \<notin> ids"
  shows "counting_only mx (insert i ids) (snd (validate_token hash now 0 tok i m))
    \<and> length (pm_lockouts (snd (validate_token hash now 0 tok i m))) = Suc (length (pm_lockouts m))"
proof -
  let ?e = "\<lparr>le_attempts = 1, le_locked_until = None\<rparr>"
  have new: "i \<notin> fst ` set (pm_lockouts m)" using assms by (simp add: counting_only_def)
  then have "map_of (pm_lockouts m) i = None" by (simp add: map_of_eq_None_iff)
  then have "snd (validate_token hash now 0 tok i m) = m\<lparr>pm_lockouts := AList.update i ?e (pm_lockouts m)\<rparr>"
    using assms(1,2) prune_keeps_counting [OF c]
    by (simp add: counting_only_def validate_token_def is_locked_out_def record_failed_attempt_def count_failure_def Let_def)
  then show ?thesis using c new set_update_subset [of i ?e "pm_lockouts m"]
    by (auto simp: counting_only_def dom_update length_update_new)
qed

theorem lockout_table_unbounded:
  assumes "2 \<le> max_attempts" "distinct ids"
  shows "length (pm_lockouts (fold (\<lambda>i m. snd (validate_token hash now 0 tok i m)) ids (pairing_new [] max_attempts secs))) = length ids"
proof -
  have "counting_only max_attempts (set ids) (fold (\<lambda>i m. snd (validate_token hash now 0 tok i m)) ids (pairing_new [] max_attempts secs))
      \<and> length (pm_lockouts (fold (\<lambda>i m. snd (validate_token hash now 0 tok i m)) ids (pairing_new [] max_attempts secs))) = length ids"
    using assms(2)
  proof (induction ids rule: rev_induct)
    case Nil
    then show ?case by (simp add: pairing_new_def counting_only_def)
  next
    case (snoc i ids)
    then show ?case using counting_only_step [OF _ assms(1), of "set ids" _ i] by auto
  qed
  then show ?thesis by simp
qed

theorem lockout_table_unbounded_witness:
  "length (pm_lockouts (fold (\<lambda>i m. snd (validate_token id 0 0 ''x'' i m)) [''a'', ''b'', ''c''] (pairing_new [] 5 300))) = 3"
  using lockout_table_unbounded [of 5 "[''a'', ''b'', ''c'']"] by (simp del: fold_simps)

end
