(* ===== verification/Path_Fs.thy ===== *)
theory Path_Fs
  imports Zepto_Prelude
begin

text \<open>
  What the program uses of \<open>std::path\<close> and \<open>std::fs\<close> on Unix: the components of a path, pushing and
  popping, and a file system of directories, files and symbolic links with the resolution that
  \<open>canonicalize\<close>, \<open>metadata\<close> and \<open>symlink_metadata\<close> perform. A \<open>PathBuf\<close> is the list of its
  components. Resolution follows at most 40 links, the limit of the Linux kernel and of glibc, and
  fails with an error beyond it, so the count is part of the behaviour and not a fuel.
\<close>

section \<open>Paths\<close>

datatype path_component = RootDir | CurDir | ParentDir | Normal string

type_synonym path_buf = "path_component list"

fun split_slash :: "string \<Rightarrow> string \<Rightarrow> string list" where
  "split_slash acc [] = [acc]"
| "split_slash acc (c # cs) = (if c = CHR ''/'' then acc # split_slash [] cs else split_slash (acc @ [c]) cs)"

definition segment :: "string \<Rightarrow> path_component list" where
  "segment s = (if s = [] \<or> s = ''.'' then [] else if s = ''..'' then [ParentDir] else [Normal s])"

definition is_absolute_str :: "string \<Rightarrow> bool" where
  "is_absolute_str s = prefix ''/'' s"

text \<open>\<open>Path::components\<close>: separators collapse, and a dot counts only at the start of a relative path.\<close>

definition path_of :: "string \<Rightarrow> path_buf" where
  "path_of s =
     (let segs = split_slash [] s in
      if is_absolute_str s then RootDir # concat (map segment segs)
      else (if hd segs = ''.'' then [CurDir] else []) @ concat (map segment segs))"

definition is_absolute :: "path_buf \<Rightarrow> bool" where
  "is_absolute p \<longleftrightarrow> (case p of RootDir # _ \<Rightarrow> True | _ \<Rightarrow> False)"

definition path_push :: "path_buf \<Rightarrow> path_component \<Rightarrow> path_buf" where
  "path_push p c = (if c = RootDir then [RootDir] else p @ [c])"

definition path_pop :: "path_buf \<Rightarrow> path_buf" where
  "path_pop p = (if p = [] \<or> last p = RootDir then p else butlast p)"

definition path_join :: "path_buf \<Rightarrow> path_buf \<Rightarrow> path_buf" where
  "path_join p q = (if is_absolute q then q else if p = [] then q else p @ filter (\<lambda>c. c \<noteq> CurDir) q)"

fun strip_prefix :: "path_buf \<Rightarrow> path_buf \<Rightarrow> path_buf option" where
  "strip_prefix p [] = Some p"
| "strip_prefix [] (c # cs) = None"
| "strip_prefix (x # p) (c # cs) = (if x = c then strip_prefix p cs else None)"

lemma strip_prefix_Some: "strip_prefix p q = Some r \<longleftrightarrow> p = q @ r"
  by (induction p q rule: strip_prefix.induct) auto

lemma strip_prefix_None: "strip_prefix p q = None \<longleftrightarrow> \<not> prefix q p"
  by (induction p q rule: strip_prefix.induct) auto

fun show_component :: "path_component \<Rightarrow> string" where
  "show_component RootDir = ''/''"
| "show_component CurDir = ''.''"
| "show_component ParentDir = ''..''"
| "show_component (Normal s) = s"

fun show_parts :: "path_buf \<Rightarrow> string" where
  "show_parts [] = []"
| "show_parts [c] = show_component c"
| "show_parts (c # cs) = show_component c @ ''/'' @ show_parts cs"

definition show_path :: "path_buf \<Rightarrow> string" where
  "show_path p = (case p of RootDir # cs \<Rightarrow> ''/'' @ show_parts cs | _ \<Rightarrow> show_parts p)"

section \<open>The file system\<close>

datatype node = Dir_Node | File_Node nat | Link_Node path_buf

datatype io_error = Not_Found | Not_A_Directory | Link_Loop | Already_Exists | Permission_Denied

text \<open>Nodes by absolute name; the root directory always exists. \<open>fs_writable\<close> tells where entries may
  be created, \<open>fs_dir_links\<close> the link count the file system reports for a directory.\<close>

record file_system =
  fs_node :: "string list \<Rightarrow> node option"
  fs_cwd :: "string list"
  fs_writable :: "string list \<Rightarrow> bool"
  fs_dir_links :: "string list \<Rightarrow> nat"

definition node_at :: "(string list \<Rightarrow> node option) \<Rightarrow> string list \<Rightarrow> node option" where
  "node_at nd p = (if p = [] then Some Dir_Node else nd p)"

definition max_symlinks :: nat where
  "max_symlinks = 40"

text \<open>Walking the components from a directory; the result holds the links that may still be followed.\<close>

function walk ::
    "(string list \<Rightarrow> node option) \<Rightarrow> nat \<Rightarrow> string list \<Rightarrow> path_component list \<Rightarrow> io_error + string list \<times> nat" where
  "walk nd n here [] = Inr (here, n)"
| "walk nd n here (RootDir # cs) = walk nd n [] cs"
| "walk nd n here (CurDir # cs) =
     (if node_at nd here \<noteq> Some Dir_Node then Inl Not_A_Directory else walk nd n here cs)"
| "walk nd n here (ParentDir # cs) =
     (if node_at nd here \<noteq> Some Dir_Node then Inl Not_A_Directory else walk nd n (butlast here) cs)"
| "walk nd n here (Normal s # cs) =
     (if node_at nd here \<noteq> Some Dir_Node then Inl Not_A_Directory
      else case nd (here @ [s]) of
        None \<Rightarrow> Inl Not_Found
      | Some (Link_Node t) \<Rightarrow>
          if t = [] then Inl Not_Found
          else if n = 0 then Inl Link_Loop
          else (case walk nd (n - 1) here t of
                  Inl e \<Rightarrow> Inl e
                | Inr (there, k) \<Rightarrow> walk nd (min k (n - 1)) there cs)
      | Some _ \<Rightarrow> walk nd n (here @ [s]) cs)"
  by pat_completeness auto

termination
  by (relation "measures [\<lambda>(nd, n, here, cs). n, \<lambda>(nd, n, here, cs). length cs]") auto

definition abs_path :: "string list \<Rightarrow> path_buf" where
  "abs_path ns = RootDir # map Normal ns"

definition resolve :: "file_system \<Rightarrow> path_buf \<Rightarrow> io_error + string list" where
  "resolve fs p =
     (if p = [] then Inl Not_Found
      else case walk (fs_node fs) max_symlinks (fs_cwd fs) p of Inl e \<Rightarrow> Inl e | Inr (d, _) \<Rightarrow> Inr d)"

definition canonicalize :: "file_system \<Rightarrow> path_buf \<Rightarrow> io_error + path_buf" where
  "canonicalize fs p = (case resolve fs p of Inl e \<Rightarrow> Inl e | Inr d \<Rightarrow> Inr (abs_path d))"

definition metadata :: "file_system \<Rightarrow> path_buf \<Rightarrow> io_error + node" where
  "metadata fs p =
     (case resolve fs p of
        Inl e \<Rightarrow> Inl e
      | Inr d \<Rightarrow> (case node_at (fs_node fs) d of None \<Rightarrow> Inl Not_Found | Some nd \<Rightarrow> Inr nd))"

definition nlink :: "file_system \<Rightarrow> path_buf \<Rightarrow> io_error + nat" where
  "nlink fs p =
     (case resolve fs p of
        Inl e \<Rightarrow> Inl e
      | Inr d \<Rightarrow>
          (case node_at (fs_node fs) d of
             None \<Rightarrow> Inl Not_Found
           | Some Dir_Node \<Rightarrow> Inr (fs_dir_links fs d)
           | Some (File_Node n) \<Rightarrow> Inr n
           | Some (Link_Node t) \<Rightarrow> Inr 1))"

text \<open>The directory that holds the last entry of a path: all links but a final one are followed.\<close>

definition resolve_parent :: "file_system \<Rightarrow> path_buf \<Rightarrow> io_error + string list" where
  "resolve_parent fs p =
     (case walk (fs_node fs) max_symlinks (fs_cwd fs) p of
        Inl e \<Rightarrow> Inl e
      | Inr (d, _) \<Rightarrow> if node_at (fs_node fs) d = Some Dir_Node then Inr d else Inl Not_A_Directory)"

definition symlink_metadata :: "file_system \<Rightarrow> path_buf \<Rightarrow> io_error + node" where
  "symlink_metadata fs p =
     (if p = [] then Inl Not_Found
      else case last p of
        Normal s \<Rightarrow>
          (case resolve_parent fs (butlast p) of
             Inl e \<Rightarrow> Inl e
           | Inr d \<Rightarrow> (case fs_node fs (d @ [s]) of None \<Rightarrow> Inl Not_Found | Some nd \<Rightarrow> Inr nd))
      | _ \<Rightarrow> metadata fs p)"

definition create_dir :: "file_system \<Rightarrow> path_buf \<Rightarrow> io_error + file_system" where
  "create_dir fs p =
     (if p = [] then Inl Not_Found
      else case last p of
        Normal s \<Rightarrow>
          (case resolve_parent fs (butlast p) of
             Inl e \<Rightarrow> Inl e
           | Inr d \<Rightarrow>
               if fs_node fs (d @ [s]) \<noteq> None then Inl Already_Exists
               else if \<not> fs_writable fs d then Inl Permission_Denied
               else Inr (fs\<lparr>fs_node := (fs_node fs)(d @ [s] \<mapsto> Dir_Node)\<rparr>))
      | _ \<Rightarrow> Inl Already_Exists)"

section \<open>Resolution\<close>

lemma walk_NormalE:
  assumes "walk nd n here (Normal s # cs) = Inr (d, k)"
  obtains (link) t there j where "node_at nd here = Some Dir_Node" "nd (here @ [s]) = Some (Link_Node t)" "t \<noteq> []" "n \<noteq> 0"
      "walk nd (n - 1) here t = Inr (there, j)" "walk nd (min j (n - 1)) there cs = Inr (d, k)"
  | (plain) x where "node_at nd here = Some Dir_Node" "nd (here @ [s]) = Some x" "\<forall>t. x \<noteq> Link_Node t"
      "walk nd n (here @ [s]) cs = Inr (d, k)"
  using assms by (auto split: if_splits option.splits node.splits sum.splits)

lemma walk_budget: "walk nd n here cs = Inr (d, k) \<Longrightarrow> k \<le> n"
proof (induction nd n here cs arbitrary: d k rule: walk.induct)
  case (5 nd n here s cs)
  from 5(5) show ?case
  proof (cases rule: walk_NormalE)
    case (link t there j)
    have "k \<le> min j (n - 1)" using 5(4) [OF _ link(2) refl link(3,4,5) refl link(6)] link(1) by simp
    then show ?thesis by auto
  next
    case (plain x)
    with 5(1,2) show ?thesis by (cases x) auto
  qed
qed (auto split: if_splits)

lemma walk_no_exists: "walk nd n here cs \<noteq> Inl Already_Exists"
proof (induction nd n here cs rule: walk.induct)
  case (5 nd n here s cs)
  show ?case
  proof (cases "\<exists>t. nd (here @ [s]) = Some (Link_Node t) \<and> node_at nd here = Some Dir_Node \<and> t \<noteq> [] \<and> n \<noteq> 0")
    case True
    then obtain t where t: "nd (here @ [s]) = Some (Link_Node t)" "node_at nd here = Some Dir_Node" "t \<noteq> []" "n \<noteq> 0"
      by blast
    then show ?thesis using 5(3) [OF _ t(1) refl t(3,4)] 5(4) [OF _ t(1) refl t(3,4) _ refl]
      by (auto split: sum.split)
  next
    case False
    then show ?thesis using 5(1,2) by (auto split: option.split node.split)
  qed
qed auto

lemma walk_append:
  "walk nd n here (xs @ ys) = (case walk nd n here xs of Inl e \<Rightarrow> Inl e | Inr (d, k) \<Rightarrow> walk nd k d ys)"
  by (induction nd n here xs rule: walk.induct) (simp_all split: option.split node.split sum.split)

text \<open>A real name: every part of it exists and is no link, and all but the last are directories.\<close>

definition real_name :: "(string list \<Rightarrow> node option) \<Rightarrow> string list \<Rightarrow> bool" where
  "real_name nd q \<longleftrightarrow> (\<forall>p s. prefix (p @ [s]) q \<longrightarrow>
     node_at nd p = Some Dir_Node \<and> (\<exists>x. nd (p @ [s]) = Some x \<and> (\<forall>t. x \<noteq> Link_Node t)))"

lemma real_name_Nil [simp]: "real_name nd []"
  by (simp add: real_name_def)

lemma real_name_snoc:
  "real_name nd (q @ [s]) \<longleftrightarrow> real_name nd q \<and> node_at nd q = Some Dir_Node
     \<and> (\<exists>x. nd (q @ [s]) = Some x \<and> (\<forall>t. x \<noteq> Link_Node t))"
  by (auto simp: real_name_def prefix_snoc)

lemma real_name_prefix: "real_name nd q \<Longrightarrow> prefix p q \<Longrightarrow> real_name nd p"
  unfolding real_name_def using prefix_order.trans by blast

lemma real_name_butlast: "real_name nd q \<Longrightarrow> real_name nd (butlast q)"
  by (simp add: prefixeq_butlast real_name_prefix)

lemma walk_real: "real_name nd here \<Longrightarrow> walk nd n here cs = Inr (d, k) \<Longrightarrow> real_name nd d"
proof (induction nd n here cs arbitrary: d k rule: walk.induct)
  case (5 nd n here s cs)
  from 5(6) show ?case
  proof (cases rule: walk_NormalE)
    case (link t there j)
    have "real_name nd there" using 5(3) [OF _ link(2) refl link(3,4) _ link(5)] link(1) 5(5) by simp
    then show ?thesis using 5(4) [OF _ link(2) refl link(3,4,5) refl _ link(6)] link(1) by simp
  next
    case (plain x)
    then have "real_name nd (here @ [s])" using 5(5) by (simp add: real_name_snoc)
    with plain 5(1,2) show ?thesis by (cases x) auto
  qed
qed (auto simp: real_name_butlast split: if_splits)

lemma walk_real_id: "real_name nd q \<Longrightarrow> walk nd n [] (map Normal q) = Inr (q, n)"
proof (induction q rule: rev_induct)
  case (snoc s q)
  then obtain x where x: "node_at nd q = Some Dir_Node" "nd (q @ [s]) = Some x" "\<forall>t. x \<noteq> Link_Node t" "real_name nd q"
    by (auto simp: real_name_snoc)
  with snoc show ?case by (cases x) (simp_all add: walk_append)
qed simp

text \<open>The working directory is a real directory, as \<open>getcwd\<close> reports it.\<close>

definition fs_ok :: "file_system \<Rightarrow> bool" where
  "fs_ok fs \<longleftrightarrow> real_name (fs_node fs) (fs_cwd fs)"

lemma resolve_real: "fs_ok fs \<Longrightarrow> resolve fs p = Inr d \<Longrightarrow> real_name (fs_node fs) d"
  by (auto simp: resolve_def fs_ok_def dest: walk_real split: if_splits sum.splits)

lemma resolve_real_id: "real_name (fs_node fs) d \<Longrightarrow> resolve fs (abs_path d) = Inr d"
  by (simp add: resolve_def abs_path_def walk_real_id)

lemma canonicalize_idem: "fs_ok fs \<Longrightarrow> canonicalize fs p = Inr c \<Longrightarrow> canonicalize fs c = Inr c"
  by (auto simp: canonicalize_def resolve_real_id dest: resolve_real split: sum.splits)

lemma canonicalize_abs:
  "fs_ok fs \<Longrightarrow> canonicalize fs p = Inr c \<Longrightarrow> \<exists>d. c = abs_path d \<and> resolve fs p = Inr d \<and> real_name (fs_node fs) d"
  by (auto simp: canonicalize_def dest: resolve_real split: sum.splits)

text \<open>Resolution of a path with one more name: the entry is found in the resolved parent.\<close>

lemma resolve_snoc:
  assumes "resolve fs (p @ [Normal s]) = Inr d" "p \<noteq> []"
  obtains (plain) r x where "resolve fs p = Inr r" "resolve_parent fs p = Inr r" "fs_node fs (r @ [s]) = Some x"
      "\<forall>t. x \<noteq> Link_Node t" "d = r @ [s]"
  | (link) r t where "resolve fs p = Inr r" "resolve_parent fs p = Inr r" "fs_node fs (r @ [s]) = Some (Link_Node t)"
proof -
  obtain r k e j where r: "walk (fs_node fs) max_symlinks (fs_cwd fs) p = Inr (r, k)"
      "walk (fs_node fs) k r [Normal s] = Inr (e, j)" "d = e"
    using assms by (auto simp: resolve_def walk_append split: sum.splits)
  from r(2) show thesis
  proof (cases rule: walk_NormalE)
    case (link t there j')
    with r show ?thesis by (intro that(2) [of r t]) (auto simp: resolve_def resolve_parent_def assms(2))
  next
    case (plain x)
    with r show ?thesis by (intro that(1) [of r x]) (auto simp: resolve_def resolve_parent_def assms(2))
  qed
qed

lemma symlink_metadata_snoc:
  "resolve_parent fs p = Inr r \<Longrightarrow> fs_node fs (r @ [s]) = Some x \<Longrightarrow> symlink_metadata fs (p @ [Normal s]) = Inr x"
  by (simp add: symlink_metadata_def)

end
