(* ===== verification/Path_Security.thy ===== *)
theory Path_Security
  imports Path_Fs Errors
begin

text \<open>
  Path validation (\<open>src/src/security/path.rs\<close>): keeping file tools inside the workspace. The
  functions run on the file system model of \<open>Path_Fs\<close>; audit log lines are left out.
\<close>

section \<open>Definitions\<close>

definition contains_traversal_pattern :: "string \<Rightarrow> bool" where
  "contains_traversal_pattern path =
     list_ex (\<lambda>p. str_contains (to_lowercase path) p)
       [''..'', ''%2e%2e'', ''%252e%252e'', ''..%2f'', ''%2f..'', ''..'' @ [CHR 0x5C], [CHR 0x5C] @ ''..'' @ [CHR 0x5C]]"

definition normalize_step :: "path_component \<Rightarrow> path_buf \<Rightarrow> path_buf" where
  "normalize_step c acc =
     (case c of ParentDir \<Rightarrow> path_pop acc | CurDir \<Rightarrow> acc | _ \<Rightarrow> path_push acc c)"

definition normalize_lexical :: "path_buf \<Rightarrow> path_buf" where
  "normalize_lexical p = fold normalize_step p []"

definition normalize_path :: "file_system \<Rightarrow> path_buf \<Rightarrow> path_buf" where
  "normalize_path fs p =
     (let normalized = normalize_lexical p
      in case canonicalize fs normalized of Inr c \<Rightarrow> c | Inl _ \<Rightarrow> normalized)"

definition canonical_workspace :: "file_system \<Rightarrow> string \<Rightarrow> path_buf" where
  "canonical_workspace fs workspace =
     (case canonicalize fs (path_of workspace) of Inr c \<Rightarrow> c | Inl _ \<Rightarrow> normalize_path fs (path_of workspace))"

definition symlink_escape_error :: "path_buf \<Rightarrow> path_buf \<Rightarrow> zepto_error" where
  "symlink_escape_error current canonical =
     SecurityViolation (''Symlink escape detected: '' @ quoted (show_path current) @ '' resolves to ''
       @ quoted (show_path canonical) @ '' which is outside workspace'')"

fun check_components :: "file_system \<Rightarrow> path_buf \<Rightarrow> path_buf \<Rightarrow> path_component list \<Rightarrow> zepto_error option" where
  "check_components fs ws current [] = None"
| "check_components fs ws current (c # cs) =
     (let current = path_push current c in
      case symlink_metadata fs current of
        Inr (Link_Node t) \<Rightarrow>
          (case canonicalize fs current of
             Inr canonical \<Rightarrow>
               if \<not> prefix ws canonical then Some (symlink_escape_error current canonical)
               else check_components fs ws current cs
           | Inl _ \<Rightarrow>
               Some (SecurityViolation (''Dangling symlink detected: '' @ quoted (show_path current)
                 @ '' target does not exist and cannot be validated'')))
      | Inr Dir_Node \<Rightarrow>
          (case canonicalize fs current of
             Inr canonical \<Rightarrow>
               if \<not> prefix ws canonical then Some (symlink_escape_error current canonical)
               else check_components fs ws current cs
           | Inl _ \<Rightarrow> check_components fs ws current cs)
      | Inr (File_Node n) \<Rightarrow> check_components fs ws current cs
      | Inl _ \<Rightarrow> check_components fs ws current cs)"

definition check_symlink_escape :: "file_system \<Rightarrow> path_buf \<Rightarrow> path_buf \<Rightarrow> zepto_error option" where
  "check_symlink_escape fs path ws =
     (case strip_prefix path ws of None \<Rightarrow> None | Some relative \<Rightarrow> check_components fs ws ws relative)"

definition validate_path_in_workspace :: "file_system \<Rightarrow> string \<Rightarrow> string \<Rightarrow> path_buf zresult" where
  "validate_path_in_workspace fs path workspace =
     (if contains_traversal_pattern path
      then Inl (SecurityViolation (''Path contains suspicious traversal pattern: '' @ path))
      else
        let resolved = (if is_absolute_str path then path_of path else path_join (path_of workspace) (path_of path));
            normalized = normalize_path fs resolved;
            ws = canonical_workspace fs workspace
        in case check_symlink_escape fs normalized ws of
             Some e \<Rightarrow> Inl e
           | None \<Rightarrow>
               if \<not> prefix ws normalized
               then Inl (SecurityViolation (''Path escapes workspace: '' @ path @ '' is not within '' @ workspace))
               else Inr normalized)"

definition revalidate_path :: "file_system \<Rightarrow> path_buf \<Rightarrow> string \<Rightarrow> unit zresult" where
  "revalidate_path fs path workspace =
     (let ws = canonical_workspace fs workspace in
      case check_symlink_escape fs path ws of
        Some e \<Rightarrow> Inl e
      | None \<Rightarrow>
          (case canonicalize fs path of
             Inl _ \<Rightarrow> Inr ()
           | Inr canonical \<Rightarrow>
               if \<not> prefix ws canonical
               then Inl (SecurityViolation (''Path escaped workspace between validation and use: ''
                      @ quoted (show_path path) @ '' resolves to '' @ quoted (show_path canonical)))
               else Inr ()))"

definition show_io_error :: "io_error \<Rightarrow> string" where
  "show_io_error e = (case e of
      Not_Found \<Rightarrow> ''No such file or directory (os error 2)''
    | Not_A_Directory \<Rightarrow> ''Not a directory (os error 20)''
    | Link_Loop \<Rightarrow> ''Too many levels of symbolic links (os error 40)''
    | Already_Exists \<Rightarrow> ''File exists (os error 17)''
    | Permission_Denied \<Rightarrow> ''Permission denied (os error 13)'')"

text \<open>One directory of the chain: it must be a directory, or is created and inspected again.\<close>

definition ensure_directory :: "file_system \<Rightarrow> path_buf \<Rightarrow> file_system zresult" where
  "ensure_directory fs current =
     (case symlink_metadata fs current of
        Inr (Link_Node t) \<Rightarrow>
          Inl (SecurityViolation (''Symlink escape detected while creating directory '' @ quoted (show_path current)))
      | Inr Dir_Node \<Rightarrow> Inr fs
      | Inr (File_Node n) \<Rightarrow>
          Inl (SecurityViolation (''Cannot create directory '' @ quoted (show_path current) @ '': existing path is not a directory''))
      | Inl Not_Found \<Rightarrow>
          (case (case create_dir fs current of
                   Inr fs' \<Rightarrow> Inr fs'
                 | Inl Already_Exists \<Rightarrow> Inr fs
                 | Inl e \<Rightarrow> Inl (Tool (''Failed to create directory '' @ quoted (show_path current) @ '': '' @ show_io_error e))) of
             Inl e \<Rightarrow> Inl e
           | Inr fs \<Rightarrow>
               (case symlink_metadata fs current of
                  Inl e \<Rightarrow>
                    Inl (Tool (''Failed to inspect directory '' @ quoted (show_path current) @ '' after creation: '' @ show_io_error e))
                | Inr Dir_Node \<Rightarrow> Inr fs
                | Inr _ \<Rightarrow> Inl (SecurityViolation (''Directory '' @ quoted (show_path current) @ '' became unsafe during creation''))))
      | Inl e \<Rightarrow> Inl (Tool (''Failed to inspect directory '' @ quoted (show_path current) @ '': '' @ show_io_error e)))"

fun ensure_components :: "path_buf \<Rightarrow> path_buf \<Rightarrow> path_component list \<Rightarrow> file_system \<Rightarrow> file_system zresult" where
  "ensure_components ws current [] fs = Inr fs"
| "ensure_components ws current (c # cs) fs =
     (let current = path_push current c in
      case check_symlink_escape fs current ws of
        Some e \<Rightarrow> Inl e
      | None \<Rightarrow>
          (case ensure_directory fs current of
             Inl e \<Rightarrow> Inl e
           | Inr fs \<Rightarrow>
               (case canonicalize fs current of
                  Inl _ \<Rightarrow> ensure_components ws current cs fs
                | Inr canonical \<Rightarrow>
                    if \<not> prefix ws canonical
                    then Inl (SecurityViolation (''Directory '' @ quoted (show_path current)
                           @ '' resolves outside workspace to '' @ quoted (show_path canonical)))
                    else ensure_components ws current cs fs)))"

definition ensure_directory_chain_secure :: "path_buf \<Rightarrow> string \<Rightarrow> file_system \<Rightarrow> file_system zresult" where
  "ensure_directory_chain_secure path workspace fs =
     (let ws = canonical_workspace fs workspace;
          normalized = normalize_path fs path
      in case strip_prefix normalized ws of
           None \<Rightarrow>
             Inl (SecurityViolation (''Directory path escapes workspace: '' @ quoted (show_path normalized)
               @ '' is not within '' @ quoted (show_path ws)))
         | Some relative \<Rightarrow> ensure_components ws ws relative fs)"

definition check_hardlink_write :: "file_system \<Rightarrow> path_buf \<Rightarrow> unit zresult" where
  "check_hardlink_write fs path =
     (case nlink fs path of
        Inr n \<Rightarrow>
          if 1 < n
          then Inl (SecurityViolation (''Write blocked: '' @ quoted (show_path path) @ '' has '' @ show_nat n
                 @ '' hard links and may alias content outside workspace''))
          else Inr ()
      | Inl Not_Found \<Rightarrow> Inr ()
      | Inl e \<Rightarrow> Inl (Tool (''Failed to check file metadata for '' @ quoted (show_path path) @ '': '' @ show_io_error e)))"

section \<open>Normalisation\<close>

text \<open>A normal path: a root, or none, followed by names only.\<close>

definition is_normal :: "path_component \<Rightarrow> bool" where
  "is_normal c \<longleftrightarrow> (\<exists>s. c = Normal s)"

definition normal_path :: "path_buf \<Rightarrow> bool" where
  "normal_path p \<longleftrightarrow> list_all is_normal p \<or> (\<exists>q. p = RootDir # q \<and> list_all is_normal q)"

lemma normalize_step_normal: "normal_path p \<Longrightarrow> normal_path (normalize_step c p)"
proof (cases c)
  case ParentDir
  assume "normal_path p"
  then show ?thesis
  proof (cases p rule: rev_cases)
    case (snoc q x)
    show ?thesis using \<open>normal_path p\<close>
      by (cases q) (auto simp: snoc ParentDir normalize_step_def path_pop_def normal_path_def is_normal_def)
  qed (simp add: ParentDir normalize_step_def path_pop_def)
qed (auto simp: normalize_step_def path_push_def normal_path_def is_normal_def)

lemma normalize_lexical_normal: "normal_path (normalize_lexical p)"
proof -
  have "normal_path q \<Longrightarrow> normal_path (fold normalize_step p q)" for q
    by (induction p arbitrary: q) (simp_all add: normalize_step_normal)
  then show ?thesis by (simp add: normalize_lexical_def normal_path_def)
qed

lemma abs_path_normal: "normal_path (abs_path d)"
  by (auto simp: abs_path_def normal_path_def is_normal_def list_all_iff)

lemma normalize_path_normal: "fs_ok fs \<Longrightarrow> normal_path (normalize_path fs p)"
  using canonicalize_abs [of fs "normalize_lexical p"] abs_path_normal normalize_lexical_normal [of p]
  by (fastforce simp: normalize_path_def Let_def split: sum.split)

text \<open>What a normalised path resolves to, if anything, is itself.\<close>

lemma normalize_path_fixed: "fs_ok fs \<Longrightarrow> canonicalize fs (normalize_path fs p) = Inr c \<Longrightarrow> c = normalize_path fs p"
  using canonicalize_idem [of fs "normalize_lexical p"]
  by (auto simp: normalize_path_def Let_def split: sum.splits)

lemma canonical_workspace_fixed:
  "fs_ok fs \<Longrightarrow> canonicalize fs (canonical_workspace fs w) = Inr c \<Longrightarrow> c = canonical_workspace fs w"
  using canonicalize_idem [of fs "path_of w"] normalize_path_fixed [of fs "path_of w" c]
  by (auto simp: canonical_workspace_def split: sum.splits)

section \<open>The link check\<close>

lemma check_components_sound:
  assumes "check_components fs ws cur cs = None" "list_all is_normal cs" "cur \<noteq> []"
    and base: "\<And>c. canonicalize fs cur = Inr c \<Longrightarrow> prefix ws c"
    and "prefix q cs" "canonicalize fs (cur @ q) = Inr c"
  shows "prefix ws c"
  using assms
proof (induction cs arbitrary: cur q)
  case (Cons x cs)
  obtain s where x: "x = Normal s" using Cons.prems(2) by (auto simp: is_normal_def)
  have nxt: "prefix ws c" if can: "canonicalize fs (cur @ [x]) = Inr c" for c
  proof -
    obtain d where d: "resolve fs (cur @ [Normal s]) = Inr d" "c = abs_path d"
      using can x by (auto simp: canonicalize_def split: sum.splits)
    from d(1) Cons.prems(3) show ?thesis
    proof (cases rule: resolve_snoc)
      case (plain r y)
      show ?thesis
      proof (cases y)
        case Dir_Node
        then show ?thesis using Cons.prems(1) symlink_metadata_snoc [OF plain(2,3)] can x
          by (auto simp: path_push_def Let_def split: if_splits)
      next
        case (File_Node n)
        have "prefix ws (abs_path r)" using Cons.prems(4) plain(1) by (simp add: canonicalize_def)
        moreover have "c = abs_path r @ [Normal s]" using d(2) plain(5) by (simp add: abs_path_def)
        ultimately show ?thesis by (simp add: prefix_prefix)
      qed (use plain in auto)
    next
      case (link r t)
      then show ?thesis using Cons.prems(1) symlink_metadata_snoc [OF link(2,3)] can x
        by (auto simp: path_push_def Let_def split: if_splits)
    qed
  qed
  have rest: "check_components fs ws (cur @ [x]) cs = None"
    using Cons.prems(1) by (auto simp: Let_def path_push_def x split: sum.splits node.splits if_splits)
  show ?case
  proof (cases q)
    case Nil
    then show ?thesis using Cons.prems by simp
  next
    case (Cons y q')
    then have "y = x" "prefix q' cs" using Cons.prems(5) by auto
    then show ?thesis using Cons.IH [OF rest _ _ nxt] Cons.prems Cons by auto
  qed
qed auto

lemma normal_path_suffix: "normal_path (ws @ r) \<Longrightarrow> ws \<noteq> [] \<Longrightarrow> list_all is_normal r"
  by (cases ws) (auto simp: normal_path_def)

section \<open>Properties\<close>

lemma validated_parts:
  assumes "validate_path_in_workspace fs path workspace = Inr p"
  obtains r where "p = canonical_workspace fs workspace @ r"
    "check_components fs (canonical_workspace fs workspace) (canonical_workspace fs workspace) r = None"
    "\<exists>res. p = normalize_path fs res" "\<not> contains_traversal_pattern path"
proof -
  let ?ws = "canonical_workspace fs workspace"
  let ?res = "if is_absolute_str path then path_of path else path_join (path_of workspace) (path_of path)"
  have "\<not> contains_traversal_pattern path" and p: "p = normalize_path fs ?res"
    and "check_symlink_escape fs p ?ws = None" "prefix ?ws p"
    using assms by (auto simp: validate_path_in_workspace_def Let_def split: if_splits option.splits)
  moreover from this obtain r where "p = ?ws @ r" by (auto elim: prefixE)
  moreover from this have "strip_prefix p ?ws = Some r" by (simp add: strip_prefix_Some)
  ultimately show thesis by (intro that [of r]) (auto simp: check_symlink_escape_def)
qed

lemma validated_contained:
  assumes "fs_ok fs" "validate_path_in_workspace fs path workspace = Inr p"
    and "prefix (canonical_workspace fs workspace) q" "prefix q p" "canonicalize fs q = Inr c"
  shows "prefix (canonical_workspace fs workspace) c"
proof (cases "canonical_workspace fs workspace = []")
  case False
  let ?ws = "canonical_workspace fs workspace"
  from assms(2) obtain r where r: "p = ?ws @ r" "check_components fs ?ws ?ws r = None" "normal_path p"
    by (cases rule: validated_parts) (use normalize_path_normal [OF assms(1)] in auto)
  have "list_all is_normal r" using normal_path_suffix r False by blast
  moreover have "prefix ?ws c" if "canonicalize fs ?ws = Inr c" for c
    using canonical_workspace_fixed [OF assms(1) that] by simp
  moreover obtain q' where "q = ?ws @ q'" "prefix q' r" using assms(3,4) r(1) by (auto elim: prefixE)
  ultimately show ?thesis using check_components_sound [OF r(2)] False assms(5) by blast
qed simp

text \<open>
  C4. A validated path stays inside the workspace: it lies below the canonical workspace, and
  whatever part of it between the workspace and the path itself exists resolves, through all
  links, to a place inside the workspace; so opening it, creating it or creating a directory on
  the way does not leave the workspace.
\<close>

theorem validated_path_contained:
  assumes "fs_ok fs" "validate_path_in_workspace fs path workspace = Inr p"
  shows "prefix (canonical_workspace fs workspace) p
    \<and> (\<forall>q c. prefix (canonical_workspace fs workspace) q \<and> prefix q p \<and> canonicalize fs q = Inr c
          \<longrightarrow> prefix (canonical_workspace fs workspace) c)"
proof -
  have "prefix (canonical_workspace fs workspace) p" by (rule validated_parts [OF assms(2)]) simp
  then show ?thesis using validated_contained [OF assms] by blast
qed

definition sample_fs :: file_system where
  "sample_fs = \<lparr>fs_node = [[''ws''] \<mapsto> Dir_Node, [''ws'', ''src''] \<mapsto> Dir_Node, [''etc''] \<mapsto> Dir_Node,
       [''ws'', ''evil''] \<mapsto> Link_Node [RootDir, Normal ''etc''], [''link''] \<mapsto> Link_Node [RootDir, Normal ''ws'']],
     fs_cwd = [], fs_writable = (\<lambda>_. True), fs_dir_links = (\<lambda>_. 2)\<rparr>"

lemma sample_fs_ok: "fs_ok sample_fs"
  by (simp add: fs_ok_def sample_fs_def)

theorem validated_path_contained_witness:
  "validate_path_in_workspace sample_fs ''src/new.rs'' ''/ws'' = Inr [RootDir, Normal ''ws'', Normal ''src'', Normal ''new.rs'']
   \<and> prefix (canonical_workspace sample_fs ''/ws'') [RootDir, Normal ''ws'', Normal ''src'', Normal ''new.rs'']
   \<and> (\<exists>e. validate_path_in_workspace sample_fs ''evil/passwd'' ''/ws'' = Inl e)"
proof -
  have v: "validate_path_in_workspace sample_fs ''src/new.rs'' ''/ws'' = Inr [RootDir, Normal ''ws'', Normal ''src'', Normal ''new.rs'']"
    and e: "validate_path_in_workspace sample_fs ''evil/passwd'' ''/ws'' \<noteq> Inr p" for p
    by code_simp+
  show ?thesis using v e validated_path_contained [OF sample_fs_ok v]
    by (cases "validate_path_in_workspace sample_fs ''evil/passwd'' ''/ws''") auto
qed

section \<open>Creating directories\<close>

lemma resolve_parent_abs: "real_name (fs_node fs) d \<Longrightarrow>
  resolve_parent fs (abs_path d) = (if node_at (fs_node fs) d = Some Dir_Node then Inr d else Inl Not_A_Directory)"
  by (simp add: resolve_parent_def abs_path_def walk_real_id)

lemma real_name_extend: "real_name nd q \<Longrightarrow> nd \<subseteq>\<^sub>m nd' \<Longrightarrow> real_name nd' q"
  unfolding real_name_def node_at_def by (metis domI map_le_def)

definition adds_dirs :: "(string list \<Rightarrow> bool) \<Rightarrow> file_system \<Rightarrow> file_system \<Rightarrow> bool" where
  "adds_dirs P fs fs' \<longleftrightarrow> fs_node fs \<subseteq>\<^sub>m fs_node fs' \<and> fs_cwd fs' = fs_cwd fs
     \<and> (\<forall>q. fs_node fs q = None \<longrightarrow> fs_node fs' q \<noteq> None \<longrightarrow> fs_node fs' q = Some Dir_Node \<and> P q)"

lemma adds_dirs_refl: "adds_dirs P fs fs"
  by (simp add: adds_dirs_def)

lemma adds_dirs_trans: "adds_dirs P fs fs1 \<Longrightarrow> adds_dirs P fs1 fs2 \<Longrightarrow> adds_dirs P fs fs2"
  unfolding adds_dirs_def by (metis domIff map_le_def map_le_trans)

lemma adds_dirs_mono: "adds_dirs P fs fs' \<Longrightarrow> (\<And>q. P q \<Longrightarrow> Q q) \<Longrightarrow> adds_dirs Q fs fs'"
  unfolding adds_dirs_def by blast

lemma ensure_directory_abs:
  assumes "real_name (fs_node fs) d" "ensure_directory fs (abs_path d @ [Normal s]) = Inr fs'"
  shows "adds_dirs (\<lambda>q. q = d @ [s]) fs fs' \<and> real_name (fs_node fs') (d @ [s])
    \<and> node_at (fs_node fs') (d @ [s]) = Some Dir_Node"
proof -
  have lstat: "symlink_metadata fs (abs_path d @ [Normal s]) =
      (if node_at (fs_node fs) d \<noteq> Some Dir_Node then Inl Not_A_Directory
       else case fs_node fs (d @ [s]) of None \<Rightarrow> Inl Not_Found | Some x \<Rightarrow> Inr x)"
    using assms(1) by (simp add: symlink_metadata_def resolve_parent_abs)
  have dir: "node_at (fs_node fs) d = Some Dir_Node"
    using assms(2) by (auto simp: ensure_directory_def lstat split: if_splits)
  show ?thesis
  proof (cases "fs_node fs (d @ [s])")
    case None
    let ?fs = "fs\<lparr>fs_node := (fs_node fs)(d @ [s] \<mapsto> Dir_Node)\<rparr>"
    have "create_dir fs (abs_path d @ [Normal s]) = (if fs_writable fs d then Inr ?fs else Inl Permission_Denied)"
      using assms(1) None dir by (simp add: create_dir_def resolve_parent_abs)
    with assms(2) have fs': "fs' = ?fs"
      by (auto simp: ensure_directory_def lstat dir None split: if_splits sum.splits node.splits)
    have sub: "fs_node fs \<subseteq>\<^sub>m fs_node fs'" using None by (auto simp: fs' map_le_def)
    have "node_at (fs_node fs') d = Some Dir_Node" using dir by (auto simp: node_at_def fs')
    then have "real_name (fs_node fs') (d @ [s])" using real_name_extend [OF assms(1) sub]
      by (simp add: real_name_snoc fs')
    with sub None show ?thesis by (auto simp: adds_dirs_def fs' node_at_def split: if_splits)
  next
    case (Some x)
    then have "x = Dir_Node" "fs' = fs" using assms(2) by (auto simp: ensure_directory_def lstat dir split: node.splits)
    with Some assms(1) dir show ?thesis by (auto simp: adds_dirs_refl real_name_snoc node_at_def)
  qed
qed

lemma ensure_components_abs:
  assumes "ensure_components ws (abs_path d) cs fs = Inr fs'" "list_all is_normal cs" "real_name (fs_node fs) d"
  shows "adds_dirs (\<lambda>q. strict_prefix d q) fs fs'
    \<and> (\<exists>ns. cs = map Normal ns \<and> real_name (fs_node fs') (d @ ns) \<and> (ns \<noteq> [] \<longrightarrow> node_at (fs_node fs') (d @ ns) = Some Dir_Node))"
  using assms
proof (induction cs arbitrary: d fs)
  case Nil
  then show ?case by (auto simp: adds_dirs_refl)
next
  case (Cons c cs)
  obtain s where c: "c = Normal s" using Cons.prems(2) by (auto simp: is_normal_def)
  have abs: "abs_path (d @ [s]) = abs_path d @ [Normal s]" by (simp add: abs_path_def)
  obtain fs1 where fs1: "ensure_directory fs (abs_path d @ [Normal s]) = Inr fs1"
      "ensure_components ws (abs_path (d @ [s])) cs fs1 = Inr fs'"
    using Cons.prems(1) unfolding abs by (auto simp: Let_def path_push_def c split: option.splits sum.splits if_splits)
  note e = ensure_directory_abs [OF Cons.prems(3) fs1(1)]
  obtain ns where ns: "adds_dirs (\<lambda>q. strict_prefix (d @ [s]) q) fs1 fs'" "cs = map Normal ns"
      "real_name (fs_node fs') ((d @ [s]) @ ns)" "ns \<noteq> [] \<longrightarrow> node_at (fs_node fs') ((d @ [s]) @ ns) = Some Dir_Node"
    using Cons.IH [OF fs1(2)] Cons.prems(2) e by auto
  have "adds_dirs (\<lambda>q. strict_prefix d q) fs fs1"
    by (rule adds_dirs_mono [OF e [THEN conjunct1]]) (simp add: strict_prefix_def)
  moreover have "adds_dirs (\<lambda>q. strict_prefix d q) fs1 fs'"
    using ns(1) by (rule adds_dirs_mono) (auto simp: strict_prefix_def dest: append_prefixD)
  ultimately have "adds_dirs (\<lambda>q. strict_prefix d q) fs fs'" by (rule adds_dirs_trans)
  moreover have "node_at (fs_node fs') (d @ [s] @ ns) = Some Dir_Node"
  proof (cases "ns = []")
    case True
    have "fs_node fs1 (d @ [s]) = Some Dir_Node" using e by (simp add: node_at_def)
    then have "fs_node fs' (d @ [s]) = Some Dir_Node" using ns(1) unfolding adds_dirs_def map_le_def by (metis domI)
    then show ?thesis using True by (simp add: node_at_def)
  qed (use ns in auto)
  ultimately show ?case using ns by (intro conjI exI [of _ "s # ns"]) (auto simp: c)
qed

lemma missing_workspace_no_dirs:
  assumes "canonicalize fs ws = Inl e" "ws \<noteq> []"
  shows "\<exists>err. ensure_components ws ws (Normal s # cs) fs = Inl err"
proof -
  have p: "resolve_parent fs ws = Inl e"
    using assms by (auto simp: canonicalize_def resolve_def resolve_parent_def split: sum.splits)
  have "e \<noteq> Already_Exists"
    using assms walk_no_exists by (auto simp: canonicalize_def resolve_def split: sum.splits)
  then show ?thesis using p
    by (cases e) (auto simp: Let_def path_push_def ensure_directory_def symlink_metadata_def create_dir_def
        split: option.split)
qed

lemma canonical_workspace_cases:
  assumes "fs_ok fs"
  obtains (exists) w where "canonical_workspace fs workspace = abs_path w" "real_name (fs_node fs) w"
  | (missing) e where "canonicalize fs (canonical_workspace fs workspace) = Inl e"
proof (cases "canonicalize fs (canonical_workspace fs workspace)")
  case (Inr c)
  with canonical_workspace_fixed [OF assms Inr] canonicalize_abs [OF assms Inr] show thesis
    by (auto intro: exists)
qed (rule missing)

text \<open>
  Directories are created only inside the workspace and only where nothing was: if securing a
  directory chain succeeds, the file system differs by new directories strictly below the
  canonical workspace, and every directory of the chain is then a real directory that
  resolves to itself.
\<close>

theorem directories_created_inside:
  assumes "fs_ok fs" "canonical_workspace fs workspace \<noteq> []"
    and "ensure_directory_chain_secure path workspace fs = Inr fs'"
  shows "adds_dirs (\<lambda>q. strict_prefix (canonical_workspace fs workspace) (abs_path q)) fs fs'
    \<and> (normalize_path fs path \<noteq> canonical_workspace fs workspace \<longrightarrow>
         canonicalize fs' (normalize_path fs path) = Inr (normalize_path fs path))"
proof -
  let ?ws = "canonical_workspace fs workspace" and ?p = "normalize_path fs path"
  obtain r where r: "?p = ?ws @ r" "ensure_components ?ws ?ws r fs = Inr fs'"
    using assms(3) by (auto simp: ensure_directory_chain_secure_def Let_def strip_prefix_Some split: option.splits)
  have n: "list_all is_normal r"
    using normal_path_suffix [of ?ws r] normalize_path_normal [OF assms(1), of path] r(1) assms(2) by simp
  from assms(1) show ?thesis
  proof (cases rule: canonical_workspace_cases [where workspace = workspace])
    case (exists w)
    from ensure_components_abs [OF _ n exists(2)] r(2) exists(1)
    obtain ns where ns: "adds_dirs (\<lambda>q. strict_prefix w q) fs fs'" "r = map Normal ns" "real_name (fs_node fs') (w @ ns)"
      by metis
    have "?p = abs_path (w @ ns)" using r(1) ns(2) exists(1) by (simp add: abs_path_def)
    then have "canonicalize fs' ?p = Inr ?p" using ns(3) resolve_real_id by (simp add: canonicalize_def)
    moreover have "adds_dirs (\<lambda>q. strict_prefix ?ws (abs_path q)) fs fs'"
      using ns(1) by (rule adds_dirs_mono) (auto simp: exists(1) abs_path_def strict_prefix_def prefix_def)
    ultimately show ?thesis by blast
  next
    case (missing e)
    have "r = []"
    proof (cases r)
      case (Cons c cs)
      then obtain s where "c = Normal s" using n by (auto simp: is_normal_def)
      with missing_workspace_no_dirs [OF missing assms(2), of s cs] Cons r(2) show ?thesis by auto
    qed
    with r show ?thesis by (simp add: adds_dirs_refl)
  qed
qed

theorem directories_created_inside_witness:
  "\<exists>fs'. ensure_directory_chain_secure [RootDir, Normal ''ws'', Normal ''a'', Normal ''b''] ''/ws'' sample_fs = Inr fs'
     \<and> canonicalize fs' [RootDir, Normal ''ws'', Normal ''a'', Normal ''b''] = Inr [RootDir, Normal ''ws'', Normal ''a'', Normal ''b'']"
proof -
  let ?p = "[RootDir, Normal ''ws'', Normal ''a'', Normal ''b'']"
  have ws: "canonical_workspace sample_fs ''/ws'' = [RootDir, Normal ''ws'']" "normalize_path sample_fs ?p = ?p"
    and ok: "isl (ensure_directory_chain_secure ?p ''/ws'' sample_fs) = False"
    by code_simp+
  then obtain fs' where e: "ensure_directory_chain_secure ?p ''/ws'' sample_fs = Inr fs'"
    by (cases "ensure_directory_chain_secure ?p ''/ws'' sample_fs") auto
  from directories_created_inside [OF sample_fs_ok _ e] ws e show ?thesis by auto
qed

text \<open>
  A workspace reached through a link refuses every new file: if the workspace's own path is not
  canonical and a plain relative name does not exist in it yet, validation compares the
  unresolved path with the resolved workspace and reports an escape.
\<close>

theorem linked_workspace_refuses_new_files:
  assumes "\<not> contains_traversal_pattern path" "\<not> is_absolute_str path"
    and "canonicalize fs (path_of workspace) = Inr ws"
    and "normalize_lexical (path_join (path_of workspace) (path_of path)) = n" "canonicalize fs n = Inl e" "\<not> prefix ws n"
  shows "validate_path_in_workspace fs path workspace =
    Inl (SecurityViolation (''Path escapes workspace: '' @ path @ '' is not within '' @ workspace))"
proof -
  have "strip_prefix n ws = None" using assms(6) by (simp add: strip_prefix_None)
  then show ?thesis using assms
    by (simp add: validate_path_in_workspace_def normalize_path_def canonical_workspace_def Let_def check_symlink_escape_def)
qed

theorem linked_workspace_refuses_new_files_witness:
  "validate_path_in_workspace sample_fs ''new.txt'' ''/link'' =
     Inl (SecurityViolation (''Path escapes workspace: '' @ ''new.txt'' @ '' is not within '' @ ''/link''))
   \<and> canonicalize sample_fs (path_of ''/link'') = Inr [RootDir, Normal ''ws'']"
proof -
  have "\<not> contains_traversal_pattern ''new.txt''" "\<not> is_absolute_str ''new.txt''"
    "canonicalize sample_fs (path_of ''/link'') = Inr [RootDir, Normal ''ws'']"
    "normalize_lexical (path_join (path_of ''/link'') (path_of ''new.txt'')) = [RootDir, Normal ''link'', Normal ''new.txt'']"
    "canonicalize sample_fs [RootDir, Normal ''link'', Normal ''new.txt''] = Inl Not_Found"
    "\<not> prefix [RootDir, Normal ''ws''] [RootDir, Normal ''link'', Normal ''new.txt'']"
    by code_simp+
  from linked_workspace_refuses_new_files [OF this] this(3) show ?thesis by simp
qed

text \<open>
  An empty workspace admits everything: its normal form is the empty path, of which every path is
  an extension.
\<close>

theorem empty_workspace_admits_all:
  assumes "\<not> contains_traversal_pattern path" "is_absolute_str path"
    and "fs_ok fs" "normalize_path fs (path_of path) = p" "canonicalize fs p = Inr p"
  shows "validate_path_in_workspace fs path [] = Inr p"
proof -
  have "path_of [] = []" by (simp add: path_of_def is_absolute_str_def segment_def)
  then have ws: "canonical_workspace fs [] = []"
    by (simp add: canonical_workspace_def normalize_path_def normalize_lexical_def canonicalize_def resolve_def)
  obtain d where d: "p = abs_path d" "real_name (fs_node fs) d"
    using canonicalize_abs [OF assms(3,5)] by auto
  have "check_components fs [] q (map Normal ns) = None" if "real_name (fs_node fs) (m @ ns)" "q = abs_path m" for q m ns
    using that
  proof (induction ns arbitrary: q m)
    case (Cons s ns)
    then have "real_name (fs_node fs) (m @ [s])" using real_name_prefix by (metis append.assoc append_Cons append_Nil prefixI)
    then obtain x where "symlink_metadata fs (q @ [Normal s]) = Inr x" "\<forall>t. x \<noteq> Link_Node t"
      using Cons.prems(2) symlink_metadata_snoc [of fs q m s]
      by (auto simp: real_name_snoc resolve_parent_abs)
    moreover have "check_components fs [] (q @ [Normal s]) (map Normal ns) = None"
      using Cons.IH [of "m @ [s]"] Cons.prems by (simp add: abs_path_def)
    ultimately show ?case by (cases x) (auto simp: path_push_def Let_def split: sum.split)
  qed simp
  from this [of "[]" d "[RootDir]"] d have "check_components fs [] [RootDir] (map Normal d) = None" by (simp add: abs_path_def)
  moreover have "symlink_metadata fs [RootDir] = Inr Dir_Node"
    by (simp add: symlink_metadata_def metadata_def resolve_def node_at_def)
  ultimately have "check_components fs [] [] p = None"
    by (auto simp: d(1) abs_path_def path_push_def canonicalize_def Let_def split: sum.split)
  then show ?thesis using assms(1,2,4) by (simp add: validate_path_in_workspace_def ws check_symlink_escape_def)
qed

theorem empty_workspace_admits_all_witness:
  "validate_path_in_workspace sample_fs ''/etc'' [] = Inr [RootDir, Normal ''etc'']"
proof -
  have "\<not> contains_traversal_pattern ''/etc''" "is_absolute_str ''/etc''"
    "normalize_path sample_fs (path_of ''/etc'') = [RootDir, Normal ''etc'']"
    "canonicalize sample_fs [RootDir, Normal ''etc''] = Inr [RootDir, Normal ''etc'']"
    by code_simp+
  from empty_workspace_admits_all [OF this(1,2) sample_fs_ok this(3,4)] show ?thesis .
qed

text \<open>
  The check before use looks only at what exists: it passes every path outside the workspace that
  does not exist yet, so it does not by itself confine the creation of a file.
\<close>

theorem revalidate_passes_missing:
  assumes "\<not> prefix (canonical_workspace fs workspace) path" "canonicalize fs path = Inl e"
  shows "revalidate_path fs path workspace = Inr ()"
proof -
  have "strip_prefix path (canonical_workspace fs workspace) = None" using assms(1) by (simp add: strip_prefix_None)
  then show ?thesis using assms(2) by (simp add: revalidate_path_def check_symlink_escape_def)
qed

text \<open>Validation followed by the check before use, on an unchanged file system, always passes.\<close>

theorem revalidate_after_validate:
  assumes "fs_ok fs" "validate_path_in_workspace fs path workspace = Inr p"
  shows "revalidate_path fs p workspace = Inr ()"
proof -
  have "check_symlink_escape fs p (canonical_workspace fs workspace) = None"
    by (rule validated_parts [OF assms(2)]) (simp add: check_symlink_escape_def strip_prefix_Some [THEN iffD2, OF refl])
  moreover have "prefix (canonical_workspace fs workspace) p" by (rule validated_parts [OF assms(2)]) simp
  ultimately show ?thesis using validated_contained [OF assms, of p]
    by (auto simp: revalidate_path_def split: sum.split)
qed

end
