(* ===== verification/Shell_Security.thy ===== *)
theory Shell_Security
  imports Errors
begin

text \<open>
  The shell command filter (\<open>src/src/security/shell.rs\<close>): regular expression and literal blocklists,
  the structured policy on the parsed command, and the allowlist of executables. The parameter
  \<open>rx\<close> tells whether the regular expression with a given source text matches a text; the
  expressions that the program builds from shell globs are matched here. All characters the
  parsers look at are ASCII, so they run on the bytes. Allowlist entries are ASCII names. Log and
  audit lines are left out.
\<close>

section \<open>Tables\<close>

definition git_global_opts_with_value :: "string list" where
  "git_global_opts_with_value =
     [''-C'', ''-c'', ''--git-dir'', ''--work-tree'', ''--namespace'', ''--super-prefix'', ''--config-env'']"

definition git_global_flags :: "string list" where
  "git_global_flags =
     [''--bare'', ''--no-replace-objects'', ''--literal-pathspecs'', ''--glob-pathspecs'', ''--noglob-pathspecs'',
      ''--icase-pathspecs'', ''--no-optional-locks'', ''--no-pager'', ''-p'', ''--paginate'', ''--info-path'',
      ''--html-path'', ''--man-path'', ''--exec-path'']"

definition bsl :: string where
  "bsl = [CHR 0x5C]"

definition git_cmd_re :: string where
  "git_cmd_re = ''(?i)^'' @ bsl @ ''s*git'' @ bsl @ ''b''"

definition literal_blocked_patterns :: "string list" where
  "literal_blocked_patterns =
     [''/etc/shadow'', ''/etc/passwd'', ''~/.ssh/'', ''.ssh/id_rsa'', ''.ssh/id_ed25519'', ''.ssh/id_ecdsa'',
      ''.ssh/id_dsa'', ''.ssh/authorized_keys'', ''.aws/credentials'', ''.kube/config'',
      ''.zeptoclaw/config.json'', ''.zeptoclaw/config.yaml'']"

section \<open>Git commands\<close>

fun skip_git_options :: "string list \<Rightarrow> string list" where
  "skip_git_options [] = []"
| "skip_git_options (tok # toks) =
     (let tok_lower = to_lowercase tok in
      if list_ex (\<lambda>o'. tok_lower = to_lowercase o' \<or> starts_with tok_lower (to_lowercase o' @ ''='')) git_global_opts_with_value
      then if CHR ''='' \<notin> set tok then skip_git_options (tl toks) else skip_git_options toks
      else if list_ex (\<lambda>f. tok_lower = to_lowercase f) git_global_flags then skip_git_options toks
      else tok # toks)"

definition normalize_git_command :: "(string \<Rightarrow> string \<Rightarrow> bool) \<Rightarrow> string \<Rightarrow> string" where
  "normalize_git_command rx command =
     (if \<not> rx git_cmd_re command then command
      else case split_whitespace command of
        [] \<Rightarrow> command
      | t # ts \<Rightarrow> join '' '' (t # skip_git_options ts))"

section \<open>Globs\<close>

datatype glob_item = Any_Char | Any_Run | Lit char

fun glob_items :: "string \<Rightarrow> glob_item list" where
  "glob_items [] = []"
| "glob_items (c # cs) =
     (if c = CHR ''?'' then Any_Char # glob_items cs
      else if c = CHR ''*'' then Any_Run # glob_items cs
      else if c = CHR ''['' \<or> c = CHR '']'' then glob_items cs
      else Lit c # glob_items cs)"

definition build_glob :: "string \<Rightarrow> glob_item list option" where
  "build_glob command =
     (let items = glob_items command in if list_ex (\<lambda>i. case i of Lit c \<Rightarrow> True | _ \<Rightarrow> False) items then Some items else None)"

text \<open>A match at the start of the text; the expression is then searched at every position.\<close>

fun glob_here :: "glob_item list \<Rightarrow> string \<Rightarrow> bool" where
  "glob_here [] s = True"
| "glob_here (Lit c # g) [] = False"
| "glob_here (Lit c # g) (x # s) = (x = c \<and> glob_here g s)"
| "glob_here (Any_Char # g) [] = False"
| "glob_here (Any_Char # g) (x # s) = (x \<noteq> CHR 0x0A \<and> glob_here g s)"
| "glob_here (Any_Run # g) [] = glob_here g []"
| "glob_here (Any_Run # g) (x # s) = (glob_here g (x # s) \<or> x \<noteq> CHR 0x0A \<and> glob_here (Any_Run # g) s)"

fun glob_search :: "glob_item list \<Rightarrow> string \<Rightarrow> bool" where
  "glob_search g [] = glob_here g []"
| "glob_search g (x # s) = (glob_here g (x # s) \<or> glob_search g s)"

section \<open>Parsing commands\<close>

record command_segment =
  cs_binary :: string
  cs_args :: "string list"
  cs_raw :: string

datatype quote_state = Unquoted | In_Single | In_Double

fun tokenize_chars :: "quote_state \<Rightarrow> string \<Rightarrow> string \<Rightarrow> string list" where
  "tokenize_chars q cur [] = (if cur = [] then [] else [cur])"
| "tokenize_chars In_Single cur (c # cs) =
     (if c = CHR 0x27 then tokenize_chars Unquoted cur cs else tokenize_chars In_Single (cur @ [c]) cs)"
| "tokenize_chars In_Double cur (c # cs) =
     (if c = CHR 0x22 then tokenize_chars Unquoted cur cs else tokenize_chars In_Double (cur @ [c]) cs)"
| "tokenize_chars Unquoted cur (c # cs) =
     (if c = CHR 0x27 then tokenize_chars In_Single cur cs
      else if c = CHR 0x22 then tokenize_chars In_Double cur cs
      else case find (\<lambda>w. prefix w (c # cs)) ws_encodings of
        Some w \<Rightarrow> (if cur = [] then [] else [cur]) @ tokenize_chars Unquoted [] (drop (length w - 1) cs)
      | None \<Rightarrow> tokenize_chars Unquoted (cur @ [c]) cs)"

definition tokenize_segment :: "string \<Rightarrow> string list" where
  "tokenize_segment s = tokenize_chars Unquoted [] s"

text \<open>\<open>rsplit('/').next()\<close>: what follows the last slash.\<close>

definition base_name :: "string \<Rightarrow> string" where
  "base_name s = rev (takeWhile (\<lambda>c. c \<noteq> CHR ''/'') (rev s))"

definition push_segment :: "string \<Rightarrow> command_segment list" where
  "push_segment raw =
     (let trimmed = trim raw in
      if trimmed = [] then []
      else case tokenize_segment trimmed of
        [] \<Rightarrow> []
      | t # ts \<Rightarrow> [\<lparr>cs_binary = to_lowercase (base_name t), cs_args = ts, cs_raw = trimmed\<rparr>])"

text \<open>
  An unquoted metacharacter that separates commands, with the number of further characters that
  belong to it. An ampersand next to \<open>>\<close> is a redirection.
\<close>

definition metachar :: "char option \<Rightarrow> char \<Rightarrow> string \<Rightarrow> nat option" where
  "metachar prev c cs =
     (if c = CHR '';'' \<or> c = CHR 0x0A then Some 0
      else if c = CHR ''|'' then Some (if take 1 cs = ''|'' then 1 else 0)
      else if c = CHR ''&''
      then (if prev = Some (CHR ''>'') \<or> take 1 cs = ''>'' then None
            else Some (if take 1 cs = ''&'' then 1 else 0))
      else if c = CHR 0x60 then Some 0
      else if c = CHR ''$'' \<and> take 1 cs = ''('' then Some 1
      else None)"

text \<open>
  The scan over the command: the quoting state, the previous character, the segment read so far
  and the rest. The result holds the segments and whether an unquoted metacharacter was met.
\<close>

function (sequential) scan :: "quote_state \<Rightarrow> char option \<Rightarrow> string \<Rightarrow> string \<Rightarrow> command_segment list \<times> bool" where
  "scan q prev cur [] = (push_segment cur, False)"
| "scan In_Single prev cur (c # cs) =
     scan (if c = CHR 0x27 then Unquoted else In_Single) (Some c) (cur @ [c]) cs"
| "scan In_Double prev cur (c # cs) =
     scan (if c = CHR 0x22 then Unquoted else In_Double) (Some c) (cur @ [c]) cs"
| "scan Unquoted prev cur (c # cs) =
     (if c = CHR 0x5C \<and> cs \<noteq> [] then scan Unquoted (Some (hd cs)) (cur @ [c, hd cs]) (tl cs)
      else if c = CHR 0x27 then scan In_Single (Some c) (cur @ [c]) cs
      else if c = CHR 0x22 then scan In_Double (Some c) (cur @ [c]) cs
      else case metachar prev c cs of
        Some n \<Rightarrow>
          (case scan Unquoted (Some (last (c # take n cs))) [] (drop n cs) of
             (segs, _) \<Rightarrow> (push_segment cur @ segs, True))
      | None \<Rightarrow> scan Unquoted (Some c) (cur @ [c]) cs)"
  by pat_completeness auto

termination
  by (relation "measure (\<lambda>(q, prev, cur, cs). length cs)") auto

definition tokenize_command :: "string \<Rightarrow> command_segment list \<times> bool" where
  "tokenize_command command = scan Unquoted None [] command"

section \<open>Structured policy\<close>

definition short_option :: "string \<Rightarrow> bool" where
  "short_option a \<longleftrightarrow> prefix ''-'' a \<and> \<not> prefix ''--'' a"

definition arg_has_flag :: "string list \<Rightarrow> char \<Rightarrow> bool" where
  "arg_has_flag args flag = list_ex (\<lambda>a. short_option a \<and> flag \<in> set (tl a)) args"

definition is_glob_char :: "char \<Rightarrow> bool" where
  "is_glob_char c \<longleftrightarrow> c = CHR ''?'' \<or> c = CHR ''*'' \<or> c = CHR ''[''"

definition deglob :: "string \<Rightarrow> string" where
  "deglob s = filter (\<lambda>c. c \<noteq> CHR ''['' \<and> c \<noteq> CHR '']'' \<and> c \<noteq> CHR ''*'' \<and> c \<noteq> CHR ''?'') s"

definition glob_hits :: "string \<Rightarrow> string \<Rightarrow> bool" where
  "glob_hits word literal \<longleftrightarrow> list_ex is_glob_char word \<and>
     (case build_glob word of Some g \<Rightarrow> glob_search g literal | None \<Rightarrow> False)"

definition literal_in_arg :: "string \<Rightarrow> string option" where
  "literal_in_arg arg =
     (let arg_lower = to_lowercase arg; literals = map to_lowercase literal_blocked_patterns in
      case find (\<lambda>l. str_contains arg_lower l) literals of
        Some l \<Rightarrow> Some l
      | None \<Rightarrow>
          (case find (\<lambda>l. str_contains (deglob arg_lower) l) literals of
             Some l \<Rightarrow> Some l
           | None \<Rightarrow> find (\<lambda>l. glob_hits arg_lower l) literals))"

fun arg_matches_sensitive_path :: "string list \<Rightarrow> string option" where
  "arg_matches_sensitive_path [] = None"
| "arg_matches_sensitive_path (a # as) =
     (case literal_in_arg a of Some l \<Rightarrow> Some l | None \<Rightarrow> arg_matches_sensitive_path as)"

definition trim_end_stars :: "string \<Rightarrow> string" where
  "trim_end_stars s = rev (dropWhile (\<lambda>c. c = CHR ''*'') (rev s))"

definition rm_root :: "string list \<Rightarrow> bool" where
  "rm_root args \<longleftrightarrow>
     list_ex (\<lambda>a. a = ''-r'' \<or> a = ''-R'' \<or> short_option a \<and> (CHR ''r'' \<in> set a \<or> CHR ''R'' \<in> set a)) args
     \<and> list_ex (\<lambda>a. a = ''-f'' \<or> short_option a \<and> CHR ''f'' \<in> set a) args
     \<and> list_ex (\<lambda>a. \<not> prefix ''-'' a \<and>
          (trim_end_stars a = ''/'' \<or> trim_end_stars a = [] \<and> prefix ''*'' a)) args"

definition git_opts_with_value :: "string list" where
  "git_opts_with_value = [''-C'', ''-c'', ''--git-dir'', ''--work-tree'', ''--namespace'']"

fun git_subcommand :: "string list \<Rightarrow> string" where
  "git_subcommand [] = []"
| "git_subcommand (a # as) =
     (if prefix ''-'' a
      then (if takeWhile (\<lambda>c. c \<noteq> CHR ''='') a \<in> set git_opts_with_value \<and> CHR ''='' \<notin> set a
            then git_subcommand (tl as) else git_subcommand as)
      else a)"

definition git_violation :: "string list \<Rightarrow> string option" where
  "git_violation args =
     (let sub = git_subcommand args; short = (\<lambda>c. list_ex (\<lambda>a. short_option a \<and> c \<in> set a) args) in
      if sub = ''push''
      then if list_ex (\<lambda>a. a = ''--force'' \<or> a = ''--force-with-lease'') args \<or> short (CHR ''f'')
           then Some ''Blocked: git push --force (destructive push)'' else None
      else if sub = ''reset''
      then if list_ex (\<lambda>a. a = ''--hard'') args then Some ''Blocked: git reset --hard (destructive reset)'' else None
      else if sub = ''clean''
      then if list_ex (\<lambda>a. a = ''--force'') args \<or> short (CHR ''f'')
           then Some ''Blocked: git clean -f (destructive clean)'' else None
      else if sub = ''branch''
      then if short (CHR ''D'') then Some ''Blocked: git branch -D (force delete)'' else None
      else None)"

definition check_structured_policy :: "command_segment \<Rightarrow> string option" where
  "check_structured_policy seg =
     (let bin = cs_binary seg; args = cs_args seg in
      if bin \<in> {''python'', ''python2'', ''python3''} \<or> starts_with bin ''python3.'' then
        if arg_has_flag args (CHR ''c'') then Some (''Blocked: '' @ bin @ '' with inline code execution flag (-c)'')
        else map_option (\<lambda>p. ''Blocked: argument contains prohibited path '' @ quoted p) (arg_matches_sensitive_path args)
      else if bin \<in> {''perl'', ''ruby'', ''node''} \<and> arg_has_flag args (CHR ''e'')
      then Some (''Blocked: '' @ bin @ '' with inline code execution flag (-e)'')
      else if bin = ''rm'' \<and> rm_root args then Some ''Blocked: rm -rf / (destructive root deletion)''
      else if bin = ''git'' \<and> git_violation args \<noteq> None then git_violation args
      else map_option (\<lambda>p. ''Blocked: argument contains prohibited path '' @ quoted p) (arg_matches_sensitive_path args))"

section \<open>The filter\<close>

datatype allowlist_mode = Allowlist_Off | Allowlist_Warn | Allowlist_Strict

record shell_security =
  sh_patterns :: "string list"
  sh_literals :: "string list"
  sh_enabled :: bool
  sh_allowlist :: "string list"
  sh_mode :: allowlist_mode

text \<open>The built-in expressions, all of which compile, are the parameter \<open>builtin\<close>.\<close>

definition shell_security_new :: "string list \<Rightarrow> shell_security" where
  "shell_security_new builtin =
     \<lparr>sh_patterns = map (\<lambda>p. ''(?i)'' @ p) builtin, sh_literals = map to_lowercase literal_blocked_patterns,
      sh_enabled = True, sh_allowlist = [], sh_mode = Allowlist_Off\<rparr>"

definition shell_security_permissive :: shell_security where
  "shell_security_permissive =
     \<lparr>sh_patterns = [], sh_literals = [], sh_enabled = False, sh_allowlist = [], sh_mode = Allowlist_Off\<rparr>"

definition block_pattern :: "(string \<Rightarrow> bool) \<Rightarrow> string \<Rightarrow> shell_security \<Rightarrow> shell_security" where
  "block_pattern compiles p c =
     (if compiles (''(?i)'' @ p) then c\<lparr>sh_patterns := sh_patterns c @ [''(?i)'' @ p]\<rparr> else c)"

definition block_literal :: "string \<Rightarrow> shell_security \<Rightarrow> shell_security" where
  "block_literal l c = c\<lparr>sh_literals := sh_literals c @ [to_lowercase l]\<rparr>"

definition with_allowlist :: "string list \<Rightarrow> allowlist_mode \<Rightarrow> shell_security \<Rightarrow> shell_security" where
  "with_allowlist names mode c = c\<lparr>sh_allowlist := map to_lowercase names, sh_mode := mode\<rparr>"

definition literal_in_segment :: "shell_security \<Rightarrow> command_segment \<Rightarrow> string option" where
  "literal_in_segment c seg =
     (let seg_lower = to_lowercase (cs_raw seg) in
      find (\<lambda>l. str_contains seg_lower l \<or> str_contains (deglob seg_lower) l
              \<or> list_ex (\<lambda>w. glob_hits w l) (split_whitespace seg_lower)) (sh_literals c))"

fun check_segments :: "shell_security \<Rightarrow> command_segment list \<Rightarrow> string option" where
  "check_segments c [] = None"
| "check_segments c (seg # segs) =
     (case literal_in_segment c seg of
        Some l \<Rightarrow> Some (''Command blocked: contains prohibited path '' @ quoted l)
      | None \<Rightarrow>
          (case check_structured_policy seg of Some m \<Rightarrow> Some m | None \<Rightarrow> check_segments c segs))"

definition check_allowlist :: "shell_security \<Rightarrow> command_segment list \<Rightarrow> bool \<Rightarrow> string option" where
  "check_allowlist c segs has_metachar =
     (if sh_mode c \<noteq> Allowlist_Strict then None
      else if has_metachar then Some ''Command blocked: contains shell metacharacters that bypass allowlist''
      else map_option (\<lambda>seg. ''Command '' @ quoted (cs_binary seg) @ '' not in allowlist'')
             (find (\<lambda>seg. cs_binary seg \<notin> set (sh_allowlist c)) segs))"

definition validate_command :: "(string \<Rightarrow> string \<Rightarrow> bool) \<Rightarrow> shell_security \<Rightarrow> string \<Rightarrow> unit zresult" where
  "validate_command rx c command =
     (if \<not> sh_enabled c then Inr ()
      else
        let (segs, has_metachar) = tokenize_command command;
            normalized = normalize_git_command rx command
        in case find (\<lambda>p. rx p command \<or> rx p normalized) (sh_patterns c) of
             Some p \<Rightarrow> Inl (SecurityViolation (''Command blocked: matches prohibited pattern '' @ quoted p))
           | None \<Rightarrow>
               (case check_segments c segs of
                  Some m \<Rightarrow> Inl (SecurityViolation m)
                | None \<Rightarrow>
                    (case check_allowlist c segs has_metachar of
                       Some m \<Rightarrow> Inl (SecurityViolation m)
                     | None \<Rightarrow> Inr ())))"

section \<open>What the scan decides\<close>

text \<open>Without a metacharacter the whole command is one segment.\<close>

lemma scan_whole: "\<not> snd (scan q prev cur cs) \<Longrightarrow> fst (scan q prev cur cs) = push_segment (cur @ cs)"
proof (induction q prev cur cs rule: scan.induct)
  case (4 prev cur c cs)
  show ?case
  proof (cases "c = CHR 0x5C \<and> cs \<noteq> []")
    case True
    then have "cs = hd cs # tl cs" by simp
    with 4 True show ?thesis by (metis (no_types, lifting) append.assoc append_Cons append_Nil scan.simps(4))
  next
    case False
    with 4 show ?thesis by (auto split: if_splits option.splits prod.splits)
  qed
qed auto

text \<open>The character at a position, seen with its neighbours.\<close>

definition separates_at :: "char option \<Rightarrow> string \<Rightarrow> nat \<Rightarrow> bool" where
  "separates_at prev s i \<longleftrightarrow> metachar (if i = 0 then prev else Some (s ! (i - 1))) (s ! i) (drop (Suc i) s) \<noteq> None"

definition in_single_at :: "string \<Rightarrow> nat \<Rightarrow> bool" where
  "in_single_at s i \<longleftrightarrow> odd (count_list (take i s) (CHR 0x27))"

lemma separates_at_Suc: "separates_at prev (c # cs) (Suc i) \<longleftrightarrow> separates_at (Some c) cs i"
  by (cases i) (simp_all add: separates_at_def)

lemma separates_quote [simp]: "\<not> separates_at prev (CHR 0x27 # cs) 0"
  by (simp add: separates_at_def metachar_def)

lemma ex_less_Suc_split: "(\<exists>i < Suc n. P i) \<longleftrightarrow> P 0 \<or> (\<exists>i < n. P (Suc i))"
  using less_Suc_eq_0_disj by auto

lemma scan_metachar_iff:
  assumes "CHR 0x22 \<notin> set cs" "CHR 0x5C \<notin> set cs" "q \<noteq> In_Double"
  shows "snd (scan q prev cur cs) \<longleftrightarrow>
    (\<exists>i < length cs. (q = In_Single \<longleftrightarrow> in_single_at cs i) \<and> separates_at prev cs i)"
  using assms
proof (induction q prev cur cs rule: scan.induct)
  case (2 prev cur c cs)
  show ?case
  proof (cases "c = CHR 0x27")
    case True
    with 2 show ?thesis by (simp add: ex_less_Suc_split separates_at_Suc in_single_at_def del: not_ex)
  next
    case False
    with 2 show ?thesis by (simp add: ex_less_Suc_split separates_at_Suc in_single_at_def del: not_ex)
  qed
next
  case (4 prev cur c cs)
  have n: "c \<noteq> CHR 0x5C" "c \<noteq> CHR 0x22" using "4.prems" by auto
  show ?case
  proof (cases "c = CHR 0x27")
    case True
    with 4 show ?thesis by (simp add: ex_less_Suc_split separates_at_Suc in_single_at_def)
  next
    case False
    show ?thesis
    proof (cases "metachar prev c cs")
      case None
      then have "snd (scan Unquoted prev cur (c # cs)) = snd (scan Unquoted (Some c) (cur @ [c]) cs)" using n False by simp
      moreover have "\<not> separates_at prev (c # cs) 0" using None by (simp add: separates_at_def)
      ultimately show ?thesis using 4 None n False
        by (simp add: ex_less_Suc_split separates_at_Suc in_single_at_def)
    next
      case (Some k)
      then have "snd (scan Unquoted prev cur (c # cs))" using n False by (simp split: prod.split)
      moreover have "separates_at prev (c # cs) 0" "\<not> in_single_at (c # cs) 0"
        using Some by (simp_all add: separates_at_def in_single_at_def)
      ultimately show ?thesis by auto
    qed
  qed
qed auto

lemma check_segments_None:
  "check_segments c segs = None \<longleftrightarrow> (\<forall>seg \<in> set segs. literal_in_segment c seg = None \<and> check_structured_policy seg = None)"
  by (induction c segs rule: check_segments.induct) (auto split: option.split)

lemma check_allowlist_None:
  "check_allowlist c segs meta = None \<longleftrightarrow>
     (sh_mode c = Allowlist_Strict \<longrightarrow> \<not> meta \<and> (\<forall>seg \<in> set segs. cs_binary seg \<in> set (sh_allowlist c)))"
  by (auto simp: check_allowlist_def find_None_iff)

section \<open>Properties\<close>

lemma validate_command_iff:
  assumes "sh_enabled c"
  shows "validate_command rx c command = Inr () \<longleftrightarrow>
    (\<forall>p \<in> set (sh_patterns c). \<not> rx p command \<and> \<not> rx p (normalize_git_command rx command))
    \<and> (\<forall>seg \<in> set (fst (tokenize_command command)). literal_in_segment c seg = None \<and> check_structured_policy seg = None)
    \<and> (sh_mode c = Allowlist_Strict \<longrightarrow> \<not> snd (tokenize_command command)
         \<and> (\<forall>seg \<in> set (fst (tokenize_command command)). cs_binary seg \<in> set (sh_allowlist c)))"
  using assms
  by (auto simp: validate_command_def case_prod_beta check_segments_None [symmetric] check_allowlist_None [symmetric]
      find_None_iff split: option.splits dest: find_Some_in)

definition never_rx :: "string \<Rightarrow> string \<Rightarrow> bool" where
  "never_rx p s \<longleftrightarrow> False"

definition strict_echo :: shell_security where
  "strict_echo = with_allowlist [''echo'', ''ls''] Allowlist_Strict (shell_security_new [])"

lemma strict_echo_enabled: "sh_enabled strict_echo" "sh_mode strict_echo = Allowlist_Strict"
  by (simp_all add: strict_echo_def with_allowlist_def shell_security_new_def)

lemma no_separator:
  assumes "\<not> separates_at None s i" "i < length s"
  shows "s ! i \<notin> {CHR '';'', CHR 0x0A, CHR ''|'', CHR 0x60}
    \<and> (s ! i = CHR ''&'' \<longrightarrow> (0 < i \<and> s ! (i - 1) = CHR ''>'') \<or> (Suc i < length s \<and> s ! Suc i = CHR ''>''))
    \<and> (s ! i = CHR ''$'' \<longrightarrow> Suc i < length s \<longrightarrow> s ! Suc i \<noteq> CHR ''('')"
proof -
  have t: "take 1 (drop (Suc i) s) = (if Suc i < length s then [s ! Suc i] else [])"
    by (simp add: Cons_nth_drop_Suc [symmetric])
  show ?thesis using assms unfolding separates_at_def metachar_def t by (auto split: if_splits)
qed

text \<open>
  C16. A strict allowlist confines commands without double quotes and backslashes: if such a command passes an enabled filter, then
  outside single quotes it has no semicolon, line feed, pipe or backquote, no ampersand that is not next to \<open>>\<close>, and
  no dollar sign before a parenthesis, so for the filter it is one simple command; and the base name of its first word, in
  lower case, is on the allowlist.
\<close>

theorem strict_allowlist_confines:
  assumes "sh_enabled c" "sh_mode c = Allowlist_Strict" "validate_command rx c command = Inr ()"
    and "CHR 0x22 \<notin> set command" "CHR 0x5C \<notin> set command"
  shows "(\<forall>i < length command. even (count_list (take i command) (CHR 0x27)) \<longrightarrow>
        command ! i \<notin> {CHR '';'', CHR 0x0A, CHR ''|'', CHR 0x60}
        \<and> (command ! i = CHR ''&'' \<longrightarrow>
             (0 < i \<and> command ! (i - 1) = CHR ''>'') \<or> (Suc i < length command \<and> command ! Suc i = CHR ''>''))
        \<and> (command ! i = CHR ''$'' \<longrightarrow> Suc i < length command \<longrightarrow> command ! Suc i \<noteq> CHR ''(''))
    \<and> (\<forall>t ts. tokenize_segment (trim command) = t # ts \<longrightarrow> to_lowercase (base_name t) \<in> set (sh_allowlist c))"
proof -
  have m: "\<not> snd (tokenize_command command)"
    and b: "\<forall>seg \<in> set (fst (tokenize_command command)). cs_binary seg \<in> set (sh_allowlist c)"
    using validate_command_iff [OF assms(1)] assms(2,3) by auto
  from m have f: "fst (tokenize_command command) = push_segment command"
    using scan_whole [of Unquoted None "[]" command] by (simp add: tokenize_command_def)
  have "\<not> separates_at None command i" if "i < length command" "even (count_list (take i command) (CHR 0x27))" for i
    using that m scan_metachar_iff [OF assms(4,5), of Unquoted None "[]"] by (auto simp: tokenize_command_def in_single_at_def)
  moreover have "to_lowercase (base_name t) \<in> set (sh_allowlist c)" if "tokenize_segment (trim command) = t # ts" for t ts
    using that b f by (cases "trim command = []") (auto simp: push_segment_def Let_def tokenize_segment_def)
  ultimately show ?thesis using no_separator by blast
qed

theorem strict_allowlist_confines_witness:
  "to_lowercase (base_name ''/bin/echo'') \<in> set (sh_allowlist strict_echo)"
proof -
  have v: "validate_command never_rx strict_echo ''/bin/echo hi'' = Inr ()" by code_simp
  have t: "tokenize_segment (trim ''/bin/echo hi'') = [''/bin/echo'', ''hi'']" by code_simp
  from strict_allowlist_confines [OF strict_echo_enabled v] t show ?thesis by simp
qed

text \<open>
  An ampersand before \<open>>\<close> is taken for a redirection, as in \<open>bash\<close>. The command is run by \<open>sh\<close>, where such an
  ampersand ends a command in the background, so the words after the target are a command of their own that the allowlist never saw.
\<close>

theorem background_passes_allowlist:
  "validate_command never_rx strict_echo ''echo a &>/dev/null id'' = Inr ()"
  by code_simp

text \<open>
  Double quotes defeat the strict allowlist: the scan takes everything between double quotes
  as text, but the shell performs command substitution there, so a command whose only
  executable for the filter is \<open>echo\<close> runs any other program.
\<close>

theorem quoted_substitution_passes:
  assumes "\<forall>p \<in> set builtin. \<not> rx (''(?i)'' @ p) (''echo '' @ [CHR 0x22] @ ''$(id)'' @ [CHR 0x22])"
    and "\<not> rx git_cmd_re (''echo '' @ [CHR 0x22] @ ''$(id)'' @ [CHR 0x22])"
  shows "validate_command rx (with_allowlist [''echo''] Allowlist_Strict (shell_security_new builtin))
      (''echo '' @ [CHR 0x22] @ ''$(id)'' @ [CHR 0x22]) = Inr ()"
proof -
  let ?c = "with_allowlist [''echo''] Allowlist_Strict (shell_security_new builtin)"
  let ?d = "with_allowlist [''echo''] Allowlist_Strict (shell_security_new [])"
  let ?cmd = "''echo '' @ [CHR 0x22] @ ''$(id)'' @ [CHR 0x22]"
  have en: "sh_enabled ?c" by (simp add: with_allowlist_def shell_security_new_def)
  have lit: "literal_in_segment ?c = literal_in_segment ?d" and al: "sh_allowlist ?c = sh_allowlist ?d"
    by (simp_all add: fun_eq_iff literal_in_segment_def with_allowlist_def shell_security_new_def Let_def)
  have t: "\<not> snd (tokenize_command ?cmd)"
    "list_all (\<lambda>seg. literal_in_segment ?d seg = None \<and> check_structured_policy seg = None
       \<and> cs_binary seg \<in> set (sh_allowlist ?d)) (fst (tokenize_command ?cmd))"
    by code_simp+
  have "normalize_git_command rx ?cmd = ?cmd" using assms(2) by (simp add: normalize_git_command_def)
  then show ?thesis using assms(1) t unfolding validate_command_iff [OF en] lit al
    by (simp add: list_all_iff with_allowlist_def shell_security_new_def)
qed

theorem quoted_substitution_passes_witness:
  "validate_command never_rx (with_allowlist [''echo''] Allowlist_Strict (shell_security_new [''/dev/tcp/'']))
      (''echo '' @ [CHR 0x22] @ ''$(id)'' @ [CHR 0x22]) = Inr ()"
  by (rule quoted_substitution_passes) (simp_all add: never_rx_def)

end
