(* ===== verification/Session_Store.thy ===== *)
theory Session_Store
  imports Session Errors
begin

text \<open>
  The session manager (\<open>src/src/session/mod.rs\<close>), the conversation list of the command line
  (\<open>src/src/session/history.rs\<close>) and the image checks (\<open>src/src/session/media.rs\<close>).

  The storage directory is a map from file names to their contents; a content is a session as serde
  reads it back, or text that does not parse. Whether reading succeeds and how a write ends is an
  argument of the operation, the text of the operating system's error is left out. A manager without
  a directory keeps its sessions in memory only.
\<close>

section \<open>File names\<close>

definition key_escapes :: "(char \<times> string) list" where
  "key_escapes =
     [(CHR ''/'', ''%2F''), (CHR 0x5C, ''%5C''), (CHR '':'', ''%3A''), (CHR ''*'', ''%2A''), (CHR ''?'', ''%3F''),
      (CHR 0x22, ''%22''), (CHR ''<'', ''%3C''), (CHR ''>'', ''%3E''), (CHR ''|'', ''%7C''), (CHR ''%'', ''%25'')]"

definition escape_char :: "char \<Rightarrow> string" where
  "escape_char c = (case map_of key_escapes c of Some e \<Rightarrow> e | None \<Rightarrow> [c])"

definition sanitize_key :: "string \<Rightarrow> string" where
  "sanitize_key k = concat (map escape_char k)"

text \<open>Two hexadecimal digits as \<open>u8::from_str_radix\<close> reads them, a leading plus sign included.\<close>

definition hex_digit :: "char \<Rightarrow> nat option" where
  "hex_digit c =
     (let v = byte_val c
      in if 48 \<le> v \<and> v \<le> 57 then Some (v - 48)
         else if 65 \<le> v \<and> v \<le> 70 then Some (v - 55)
         else if 97 \<le> v \<and> v \<le> 102 then Some (v - 87)
         else None)"

definition hex_byte :: "char \<Rightarrow> char \<Rightarrow> nat option" where
  "hex_byte a b =
     (case hex_digit b of
        None \<Rightarrow> None
      | Some y \<Rightarrow>
          (case hex_digit a of
             Some x \<Rightarrow> Some (16 * x + y)
           | None \<Rightarrow> if a = CHR ''+'' then Some y else None))"

text \<open>A scalar value below 256 in UTF-8.\<close>

definition latin1_utf8 :: "nat \<Rightarrow> string" where
  "latin1_utf8 n = (if n < 128 then [char_of n] else [char_of (192 + n div 64), char_of (128 + n mod 64)])"

fun unsanitize_chars :: "string list \<Rightarrow> string" where
  "unsanitize_chars (c # cs) =
     (if c = ''%''
      then (case cs of
              [a] # [b] # rest \<Rightarrow>
                (case hex_byte a b of
                   Some n \<Rightarrow> latin1_utf8 n @ unsanitize_chars rest
                 | None \<Rightarrow> ''%'' @ [a, b] @ unsanitize_chars rest)
            | _ \<Rightarrow> ''%'' @ concat (take 2 cs) @ unsanitize_chars (drop 2 cs))
      else c @ unsanitize_chars cs)"
| "unsanitize_chars [] = []"

definition unsanitize_key :: "string \<Rightarrow> string" where
  "unsanitize_key s = unsanitize_chars (str_chars s)"

definition session_file :: "string \<Rightarrow> string" where
  "session_file k = sanitize_key k @ ''.json''"

section \<open>The manager\<close>

datatype stored_file = Stored_Session session | Stored_Garbage

record session_manager =
  sm_sessions :: "string \<rightharpoonup> session"
  sm_disk :: "(string \<rightharpoonup> stored_file) option"
  sm_auto_repair :: bool

definition new_memory :: "bool \<Rightarrow> session_manager" where
  "new_memory repair = \<lparr>sm_sessions = Map.empty, sm_disk = None, sm_auto_repair = repair\<rparr>"

definition manager_with_path :: "bool \<Rightarrow> (string \<rightharpoonup> stored_file) \<Rightarrow> session_manager" where
  "manager_with_path repair disk = \<lparr>sm_sessions = Map.empty, sm_disk = Some disk, sm_auto_repair = repair\<rparr>"

definition maybe_repair :: "bool \<Rightarrow> session \<Rightarrow> session" where
  "maybe_repair repair s = (if repair then s\<lparr>messages := fst (repair_messages (messages s))\<rparr> else s)"

text \<open>
  Loading from the directory: nothing there, an error, or the session. \<open>readable\<close> says whether
  the file can be read.
\<close>

definition load_file :: "bool \<Rightarrow> string \<Rightarrow> session_manager \<Rightarrow> (session option) zresult" where
  "load_file readable k m =
     (case sm_disk m of
        None \<Rightarrow> Inr None
      | Some disk \<Rightarrow>
          (case disk (session_file k) of
             None \<Rightarrow> Inr None
           | Some f \<Rightarrow>
               if \<not> readable then Inl (Io ''read'')
               else (case f of
                       Stored_Garbage \<Rightarrow> Inl (Json ''session'')
                     | Stored_Session s \<Rightarrow> Inr (Some (maybe_repair (sm_auto_repair m) s)))))"

definition cache_session :: "string \<Rightarrow> session \<Rightarrow> session_manager \<Rightarrow> session_manager" where
  "cache_session k s m = m\<lparr>sm_sessions := (sm_sessions m)(k \<mapsto> s)\<rparr>"

definition sm_get :: "bool \<Rightarrow> string \<Rightarrow> session_manager \<Rightarrow> (session option) zresult \<times> session_manager" where
  "sm_get readable k m =
     (case sm_sessions m k of
        Some s \<Rightarrow> (Inr (Some s), m)
      | None \<Rightarrow>
          (case load_file readable k m of
             Inl e \<Rightarrow> (Inl e, m)
           | Inr None \<Rightarrow> (Inr None, m)
           | Inr (Some s) \<Rightarrow> (Inr (Some s), cache_session k s m)))"

definition get_or_create :: "bool \<Rightarrow> nat \<Rightarrow> string \<Rightarrow> session_manager \<Rightarrow> session zresult \<times> session_manager" where
  "get_or_create readable now k m =
     (case sm_sessions m k of
        Some s \<Rightarrow> (Inr s, m)
      | None \<Rightarrow>
          (case load_file readable k m of
             Inl e \<Rightarrow> (Inl e, m)
           | Inr (Some s) \<Rightarrow> (Inr s, cache_session k s m)
           | Inr None \<Rightarrow> (Inr (session_new now k), cache_session k (session_new now k) m)))"

text \<open>
  The file is written in place: it is truncated first, so a write that fails once the file is open leaves a
  beginning of the new text, which does not parse. The session stays in memory either way.
\<close>

definition sm_save :: "write_outcome \<Rightarrow> session \<Rightarrow> session_manager \<Rightarrow> unit zresult \<times> session_manager" where
  "sm_save fate s m =
     (let m1 = cache_session (key s) s m
      in case sm_disk m of
           None \<Rightarrow> (Inr (), m1)
         | Some disk \<Rightarrow>
             (case fate of
                Write_Ok \<Rightarrow> (Inr (), m1\<lparr>sm_disk := Some (disk(session_file (key s) \<mapsto> Stored_Session s))\<rparr>)
              | Write_Refused \<Rightarrow> (Inl (Io ''write''), m1)
              | Write_Cut_Short \<Rightarrow>
                  (Inl (Io ''write''), m1\<lparr>sm_disk := Some (disk(session_file (key s) \<mapsto> Stored_Garbage))\<rparr>)))"

definition sm_delete :: "bool \<Rightarrow> string \<Rightarrow> session_manager \<Rightarrow> unit zresult \<times> session_manager" where
  "sm_delete removable k m =
     (let m1 = m\<lparr>sm_sessions := (sm_sessions m)(k := None)\<rparr>
      in case sm_disk m of
           None \<Rightarrow> (Inr (), m1)
         | Some disk \<Rightarrow>
             if disk (session_file k) = None then (Inr (), m1)
             else if removable then (Inr (), m1\<lparr>sm_disk := Some (disk(session_file k := None))\<rparr>)
             else (Inl (Io ''remove''), m1))"

definition sm_exists :: "string \<Rightarrow> session_manager \<Rightarrow> bool" where
  "sm_exists k m \<longleftrightarrow>
     sm_sessions m k \<noteq> None \<or> (case sm_disk m of None \<Rightarrow> False | Some disk \<Rightarrow> disk (session_file k) \<noteq> None)"

definition clear_cache :: "session_manager \<Rightarrow> session_manager" where
  "clear_cache m = m\<lparr>sm_sessions := Map.empty\<rparr>"

section \<open>The conversation list\<close>

record conversation_entry =
  ce_session_key :: string
  ce_title :: string
  ce_message_count :: nat
  ce_last_updated :: nat
  ce_file_size :: nat

text \<open>A directory entry: the file name, its content unless it cannot be read, its size.\<close>

type_synonym dir_entry = "string \<times> stored_file option \<times> nat"

definition extract_title :: "message list \<Rightarrow> string" where
  "extract_title ms =
     (if ms = [] then ''(empty conversation)''
      else case find (\<lambda>m. msg_role m = RUser) ms of
             None \<Rightarrow> ''(no user messages)''
           | Some m \<Rightarrow>
               let c = trim (content m)
               in if length c \<le> 80 then c else concat (take 80 (str_chars c)) @ ''...'')"

definition entry_of :: "dir_entry \<Rightarrow> conversation_entry option" where
  "entry_of d =
     (case d of (name, f, bytes) \<Rightarrow>
        if \<not> ends_with name ''.json'' \<or> \<not> starts_with name ''cli%3A'' then None
        else case f of
               Some (Stored_Session s) \<Rightarrow>
                 if starts_with (key s) ''cli:''
                 then Some \<lparr>ce_session_key = key s, ce_title = extract_title (messages s),
                   ce_message_count = length (messages s), ce_last_updated = updated_at s, ce_file_size = bytes\<rparr>
                 else None
             | _ \<Rightarrow> None)"

text \<open>A stable sort, newest first; the rendered times sort like the times.\<close>

definition newest_first :: "conversation_entry list \<Rightarrow> conversation_entry list" where
  "newest_first es = rev (sort_key ce_last_updated (rev es))"

definition list_conversations :: "dir_entry list \<Rightarrow> conversation_entry list" where
  "list_conversations dir = newest_first (List.map_filter entry_of dir)"

definition latest_conversation :: "dir_entry list \<Rightarrow> conversation_entry option" where
  "latest_conversation dir = (case list_conversations dir of [] \<Rightarrow> None | e # _ \<Rightarrow> Some e)"

definition find_conversation :: "string \<Rightarrow> dir_entry list \<Rightarrow> conversation_entry option" where
  "find_conversation query dir =
     (case find (\<lambda>e. ce_session_key e = query) (list_conversations dir) of
        Some e \<Rightarrow> Some e
      | None \<Rightarrow> find (\<lambda>e. str_contains (to_lowercase (ce_title e)) (to_lowercase query)) (list_conversations dir))"

definition generate_session_key :: "nat \<Rightarrow> string" where
  "generate_session_key now_secs = ''cli:'' @ show_nat now_secs"

definition cleanup_old :: "nat \<Rightarrow> dir_entry list \<Rightarrow> nat \<times> dir_entry list" where
  "cleanup_old keep_count dir =
     (let doomed = map (session_file \<circ> ce_session_key) (drop keep_count (list_conversations dir));
          present = filter (\<lambda>f. f \<in> fst ` set dir) (remdups doomed)
      in (length present, filter (\<lambda>d. fst d \<notin> set doomed) dir))"

section \<open>Images\<close>

definition max_image_size :: nat where
  "max_image_size = 20 * 1024 * 1024"

definition supported_types :: "string list" where
  "supported_types = [''image/jpeg'', ''image/png'', ''image/gif'', ''image/webp'']"

definition mime_to_ext :: "string \<Rightarrow> string" where
  "mime_to_ext mime =
     (if mime = ''image/jpeg'' then ''jpg'' else if mime = ''image/png'' then ''png''
      else if mime = ''image/gif'' then ''gif'' else if mime = ''image/webp'' then ''webp'' else ''bin'')"

definition validate_image :: "string \<Rightarrow> string \<Rightarrow> nat \<Rightarrow> unit zresult" where
  "validate_image data mime max_size =
     (if max_size < length data
      then Inl (Tool (''Image size '' @ show_nat (length data) @ '' bytes exceeds the maximum allowed size of ''
             @ show_nat max_size @ '' bytes''))
      else if mime \<notin> set supported_types
      then Inl (Tool (''Unsupported image type '' @ quoted mime @ ''. Supported types: ''
             @ ''image/jpeg, image/png, image/gif, image/webp''))
      else Inr ())"

section \<open>Lemmas\<close>

lemma escape_char_prefix_free:
  "escape_char c @ x = escape_char d @ y \<Longrightarrow> c = d \<and> x = y"
  by (auto simp: escape_char_def key_escapes_def split: if_splits)

lemma escape_char_not_empty: "escape_char c \<noteq> []"
  by (simp add: escape_char_def key_escapes_def)

lemma sanitize_key_inj: "sanitize_key a = sanitize_key b \<longleftrightarrow> a = b"
proof
  show "sanitize_key a = sanitize_key b \<Longrightarrow> a = b"
  proof (induction a arbitrary: b)
    case Nil
    then show ?case by (cases b) (simp_all add: sanitize_key_def escape_char_not_empty)
  next
    case (Cons c a)
    then obtain d b' where b: "b = d # b'"
      by (cases b) (simp_all add: sanitize_key_def escape_char_not_empty)
    then have "c = d \<and> sanitize_key a = sanitize_key b'"
      using Cons.prems by (intro escape_char_prefix_free) (simp add: sanitize_key_def)
    then show ?case using Cons.IH b by simp
  qed
qed simp

lemma session_file_inj [simp]: "session_file a = session_file b \<longleftrightarrow> a = b"
  by (simp add: session_file_def sanitize_key_inj)

lemma sanitize_no_separator: "CHR ''/'' \<notin> set (session_file k) \<and> CHR 0x5C \<notin> set (session_file k)"
proof -
  have "CHR ''/'' \<notin> set (escape_char c) \<and> CHR 0x5C \<notin> set (escape_char c)" for c
    by (auto simp: escape_char_def key_escapes_def)
  then show ?thesis by (auto simp: session_file_def sanitize_key_def)
qed

lemma str_chars_append:
  "b = [] \<or> \<not> continues_char (hd b) \<Longrightarrow> str_chars (a @ b) = str_chars a @ str_chars b"
proof (induction a rule: str_chars.induct)
  case (2 c cs)
  have "takeWhile continues_char (cs @ b) = takeWhile continues_char cs
      \<and> dropWhile continues_char (cs @ b) = dropWhile continues_char cs @ b"
  proof (cases "\<forall>x \<in> set cs. continues_char x")
    case True
    have t: "takeWhile continues_char cs = cs" and d: "dropWhile continues_char cs = []"
      using True by (simp_all add: takeWhile_eq_all_conv dropWhile_eq_Nil_conv)
    have b: "takeWhile continues_char b = []" "dropWhile continues_char b = b" using 2(2) by (cases b; simp)+
    show ?thesis using True b unfolding t d by (simp add: takeWhile_append2 dropWhile_append2)
  next
    case False
    then obtain x where "x \<in> set cs" "\<not> continues_char x" by blast
    then show ?thesis by (simp add: takeWhile_append1 dropWhile_append1)
  qed
  with 2 show ?case by simp
qed simp

text \<open>In UTF-8 a scalar value of several bytes does not start with an ASCII byte.\<close>

definition utf8_ok :: "string \<Rightarrow> bool" where
  "utf8_ok s \<longleftrightarrow> (\<forall>c \<in> set (str_chars s). length c = 1 \<or> 128 \<le> byte_val (hd c))"

lemma escape_char_cases:
  "escape_char c = [c] \<and> c \<noteq> CHR ''%''
   \<or> (\<exists>a b. escape_char c = [CHR ''%'', a, b] \<and> hex_byte a b = Some (byte_val c) \<and> byte_val c < 128
        \<and> \<not> continues_char a \<and> \<not> continues_char b)"
  by (auto simp: escape_char_def key_escapes_def hex_byte_def hex_digit_def byte_val_def continues_char_def Let_def)

lemma unsanitize_escape:
  "unsanitize_chars (str_chars (escape_char c) @ cs) = c # unsanitize_chars cs"
  using escape_char_cases [of c]
proof (elim disjE exE conjE)
  fix a b assume e: "escape_char c = [CHR ''%'', a, b]" "hex_byte a b = Some (byte_val c)" "byte_val c < 128"
    "\<not> continues_char a" "\<not> continues_char b"
  then have "str_chars (escape_char c) = [''%'', [a], [b]]" by simp
  then show ?thesis using e by (simp add: latin1_utf8_def byte_val_def)
qed simp

lemma escape_multibyte: "128 \<le> byte_val c \<Longrightarrow> escape_char c = [c]"
proof -
  have "list_all (\<lambda>d. byte_val d < 128) (map fst key_escapes)"
    by (simp add: key_escapes_def byte_val_def)
  then have "\<forall>d \<in> fst ` set key_escapes. byte_val d < 128" by (simp add: list_all_iff)
  moreover assume "128 \<le> byte_val c"
  ultimately have "c \<notin> fst ` set key_escapes" by force
  then show ?thesis by (simp add: escape_char_def map_of_eq_None_iff [THEN iffD2])
qed

lemma sanitize_key_append: "sanitize_key (a @ b) = sanitize_key a @ sanitize_key b"
  by (simp add: sanitize_key_def)

lemma sanitize_cont: "\<forall>x \<in> set w. continues_char x \<Longrightarrow> sanitize_key w = w"
  by (induction w) (simp_all add: sanitize_key_def continues_char_def escape_multibyte)

lemma hd_sanitize: "k \<noteq> [] \<Longrightarrow> \<not> continues_char (hd k) \<Longrightarrow> sanitize_key k = [] \<or> \<not> continues_char (hd (sanitize_key k))"
  using escape_char_cases [of "hd k"] by (cases k) (auto simp: sanitize_key_def continues_char_def byte_val_def)

lemma str_chars_one: "\<forall>x \<in> set w. continues_char x \<Longrightarrow> str_chars (c # w) = [c # w]"
proof -
  assume "\<forall>x \<in> set w. continues_char x"
  then have "takeWhile continues_char w = w" "dropWhile continues_char w = []" by simp_all
  then show ?thesis by (simp only: str_chars.simps)
qed

lemma unsanitize_sanitize:
  assumes "utf8_ok k"
  shows "unsanitize_key (sanitize_key k) = k"
  using assms
proof (induction k rule: str_chars.induct)
  case 1
  then show ?case by (simp add: unsanitize_key_def sanitize_key_def)
next
  case (2 c cs)
  let ?w = "takeWhile continues_char cs" and ?r = "dropWhile continues_char cs"
  have ok: "utf8_ok ?r" and w: "?w = [] \<or> 128 \<le> byte_val c" using 2(2) by (auto simp: utf8_ok_def)
  have r: "?r = [] \<or> \<not> continues_char (hd ?r)" using hd_dropWhile by blast
  have "sanitize_key (c # cs) = (escape_char c @ ?w) @ sanitize_key ?r"
    using sanitize_key_append [of ?w ?r] sanitize_cont [of ?w] by (auto simp: sanitize_key_def dest: set_takeWhileD)
  moreover have "sanitize_key ?r = [] \<or> \<not> continues_char (hd (sanitize_key ?r))"
  proof (cases "?r = []")
    case True
    then show ?thesis by (simp only: sanitize_key_def list.map concat.simps simp_thms)
  qed (use r hd_sanitize [of ?r] in blast)
  ultimately have "str_chars (sanitize_key (c # cs)) = str_chars (escape_char c @ ?w) @ str_chars (sanitize_key ?r)"
    by (metis str_chars_append)
  moreover have "unsanitize_chars (str_chars (escape_char c @ ?w) @ xs) = c # ?w @ unsanitize_chars xs" for xs
  proof (cases "?w = []")
    case True
    then show ?thesis by (simp add: unsanitize_escape)
  next
    case False
    then have "escape_char c = [c]" using w escape_multibyte by blast
    moreover have "c \<noteq> CHR ''%''" using False w by (auto simp: byte_val_def)
    moreover have "str_chars (c # ?w) = [c # ?w]" by (rule str_chars_one) (auto dest: set_takeWhileD)
    ultimately show ?thesis by (simp del: str_chars.simps)
  qed
  ultimately show ?case using 2(1) [OF ok] by (simp add: unsanitize_key_def)
qed

lemma map_filter_as_filter:
  "List.map_filter f (filter P xs) = filter Q (List.map_filter f xs)"
  if "\<And>x y. x \<in> set xs \<Longrightarrow> f x = Some y \<Longrightarrow> P x \<longleftrightarrow> Q y"
  using that
proof (induction xs)
  case (Cons x xs)
  then show ?case by (cases "f x") (auto simp: List.map_filter_def)
qed (simp add: List.map_filter_def)

lemma newest_first_filter: "newest_first (filter P es) = filter P (newest_first es)"
  unfolding newest_first_def by (simp add: rev_filter [symmetric] filter_sort)

lemma newest_first_mset [simp]: "set (newest_first es) = set es"
  by (simp add: newest_first_def)

lemma filter_take_drop:
  assumes "distinct (map f xs)"
  shows "filter (\<lambda>x. f x \<notin> f ` set (drop k xs)) xs = take k xs"
proof -
  have "distinct (map f (take k xs) @ map f (drop k xs))"
    using assms by (simp flip: map_append)
  then have d: "f ` set (take k xs) \<inter> f ` set (drop k xs) = {}" by simp
  have "filter (\<lambda>x. f x \<notin> f ` set (drop k xs)) (take k xs @ drop k xs)
      = filter (\<lambda>x. f x \<notin> f ` set (drop k xs)) (take k xs) @ filter (\<lambda>x. f x \<notin> f ` set (drop k xs)) (drop k xs)"
    by (rule filter_append)
  also have "\<dots> = take k xs"
    using d by (subst filter_True) (auto simp: filter_empty_conv)
  finally show ?thesis by simp
qed

section \<open>Properties\<close>

text \<open>
  C33. A saved session survives a restart: after a save whose write succeeded, with a storage directory, a fresh
  manager on the same directory returns the session under its key, as it was saved when repair is off and repaired when it is
  on, which is the default; and saving it does not touch the file of any other key, whatever characters the keys have.
\<close>

theorem saved_session_survives_restart:
  assumes "sm_save Write_Ok s m = (r, m')" "sm_disk m = Some disk"
  shows "r = Inr ()
    \<and> fst (get_or_create True now (key s) (clear_cache m')) = Inr (maybe_repair (sm_auto_repair m) s)
    \<and> (\<forall>k. k \<noteq> key s \<longrightarrow> load_file True k (clear_cache m') = load_file True k m)"
proof -
  have m': "m' = m\<lparr>sm_sessions := (sm_sessions m)(key s \<mapsto> s), sm_disk := Some (disk(session_file (key s) \<mapsto> Stored_Session s))\<rparr>"
    and r: "r = Inr ()" using assms by (auto simp: sm_save_def cache_session_def Let_def)
  have "load_file True k (clear_cache m') = load_file True k m" if "k \<noteq> key s" for k
    using that assms(2) by (cases "disk (session_file k)") (auto simp: m' clear_cache_def load_file_def split: stored_file.splits)
  then show ?thesis using r by (simp add: m' clear_cache_def get_or_create_def load_file_def)
qed

definition sample_session :: session where
  "sample_session = (session_new 7 ''a/b'')\<lparr>messages := [msg_user ''hi'']\<rparr>"

theorem saved_session_survives_restart_witness:
  "fst (get_or_create True 9 ''a/b'' (clear_cache (snd (sm_save Write_Ok sample_session (manager_with_path False Map.empty)))))
     = Inr sample_session"
proof -
  obtain r m' where x: "sm_save Write_Ok sample_session (manager_with_path False Map.empty) = (r, m')" by fastforce
  have "sm_disk (manager_with_path False Map.empty) = Some Map.empty" by (simp add: manager_with_path_def)
  from saved_session_survives_restart [OF x this, of 9] x show ?thesis
    by (simp add: sample_session_def session_new_def manager_with_path_def maybe_repair_def)
qed

text \<open>
  The escaping of a session key can be undone, and the file name holds no path separator: the
  key comes back from the file name for every key in UTF-8.
\<close>

theorem session_key_roundtrip:
  assumes "utf8_ok k"
  shows "unsanitize_key (sanitize_key k) = k \<and> CHR ''/'' \<notin> set (session_file k) \<and> CHR 0x5C \<notin> set (session_file k)"
  using unsanitize_sanitize [OF assms] sanitize_no_separator by blast

theorem session_key_roundtrip_witness:
  "unsanitize_key (sanitize_key ''acp:user/1%'') = ''acp:user/1%''"
proof -
  have "utf8_ok ''acp:user/1%''" by (simp add: utf8_ok_def continues_char_def byte_val_def)
  from session_key_roundtrip [OF this] show ?thesis by blast
qed

text \<open>
  Cleaning up keeps the newest conversations: when every file is named after its key and no
  two files hold the same key, the list afterwards is the beginning of the list before.
\<close>

theorem cleanup_keeps_newest:
  assumes "\<forall>(name, f, n) \<in> set dir. \<forall>s. f = Some (Stored_Session s) \<longrightarrow> name = session_file (key s)"
    and "distinct (map ce_session_key (list_conversations dir))"
  shows "list_conversations (snd (cleanup_old keep dir)) = take keep (list_conversations dir)"
proof -
  let ?L = "list_conversations dir"
  let ?doomed = "map (session_file \<circ> ce_session_key) (drop keep ?L)"
  have "List.map_filter entry_of (filter (\<lambda>d. fst d \<notin> set ?doomed) dir)
      = filter (\<lambda>e. ce_session_key e \<notin> ce_session_key ` set (drop keep ?L)) (List.map_filter entry_of dir)"
  proof (rule map_filter_as_filter)
    fix d e assume d: "d \<in> set dir" "entry_of d = Some e"
    then have "fst d = session_file (ce_session_key e)"
      using assms(1) by (fastforce simp: entry_of_def split: prod.splits if_splits option.splits stored_file.splits)
    then show "(fst d \<notin> set ?doomed) = (ce_session_key e \<notin> ce_session_key ` set (drop keep ?L))" by auto
  qed
  then have "list_conversations (snd (cleanup_old keep dir))
      = filter (\<lambda>e. ce_session_key e \<notin> ce_session_key ` set (drop keep ?L)) ?L"
    by (simp add: cleanup_old_def Let_def list_conversations_def newest_first_filter)
  then show ?thesis using filter_take_drop [OF assms(2), of keep] by simp
qed

definition cli_dir :: "dir_entry list" where
  "cli_dir = map (\<lambda>t. (session_file (generate_session_key t),
     Some (Stored_Session ((session_new t (generate_session_key t))\<lparr>messages := [msg_user ''hi'']\<rparr>)), 10)) [1, 3, 2]"

theorem cleanup_keeps_newest_witness:
  "map ce_session_key (list_conversations (snd (cleanup_old 2 cli_dir))) = [''cli:3'', ''cli:2'']"
proof -
  have "\<forall>(name, f, n) \<in> set cli_dir. \<forall>s. f = Some (Stored_Session s) \<longrightarrow> name = session_file (key s)"
    by (auto simp: cli_dir_def session_new_def)
  moreover have "distinct (map ce_session_key (list_conversations cli_dir))" by code_simp
  ultimately have "list_conversations (snd (cleanup_old 2 cli_dir)) = take 2 (list_conversations cli_dir)"
    by (rule cleanup_keeps_newest)
  moreover have "map ce_session_key (take 2 (list_conversations cli_dir)) = [''cli:3'', ''cli:2'']" by code_simp
  ultimately show ?thesis by simp
qed

text \<open>
  A write that is refused is not forgotten: the call reports the error, the directory keeps the old
  content, and the manager goes on with the new session until the process ends.
\<close>

theorem failed_save_splits:
  assumes "sm_disk m = Some disk"
  shows "fst (sm_save Write_Refused s m) = Inl (Io ''write'')
    \<and> sm_disk (snd (sm_save Write_Refused s m)) = Some disk
    \<and> fst (get_or_create True now (key s) (snd (sm_save Write_Refused s m))) = Inr s"
  using assms by (simp add: sm_save_def cache_session_def get_or_create_def Let_def)

text \<open>
  A save that runs out of space destroys the session: the file was truncated before the write failed, so
  the last good version is gone. The running process still has the new session, but after a restart loading the
  key is an error, and it stays one: each message of that session fails before anything could be written.
\<close>

theorem cut_save_destroys_session:
  assumes "sm_disk m = Some disk" "load_file True (key s) m = Inr (Some old)"
  shows "fst (sm_save Write_Cut_Short s m) = Inl (Io ''write'')
    \<and> fst (get_or_create True now (key s) (snd (sm_save Write_Cut_Short s m))) = Inr s
    \<and> get_or_create True now (key s) (clear_cache (snd (sm_save Write_Cut_Short s m)))
        = (Inl (Json ''session''), clear_cache (snd (sm_save Write_Cut_Short s m)))"
  using assms by (simp add: sm_save_def cache_session_def get_or_create_def load_file_def clear_cache_def Let_def)

theorem cut_save_destroys_session_witness:
  "let m = manager_with_path False [session_file ''a/b'' \<mapsto> Stored_Session sample_session];
       m' = clear_cache (snd (sm_save Write_Cut_Short sample_session m))
   in load_file True ''a/b'' m = Inr (Some sample_session) \<and> fst (get_or_create True 9 ''a/b'' m') = Inl (Json ''session'')"
proof -
  let ?m = "manager_with_path False [session_file ''a/b'' \<mapsto> Stored_Session sample_session]"
  have k: "key sample_session = ''a/b''" by (simp add: sample_session_def session_new_def)
  have d: "sm_disk ?m = Some [session_file ''a/b'' \<mapsto> Stored_Session sample_session]" by (simp add: manager_with_path_def)
  have l: "load_file True (key sample_session) ?m = Inr (Some sample_session)"
    by (simp add: k load_file_def manager_with_path_def maybe_repair_def)
  from cut_save_destroys_session [OF d l] k l show ?thesis by (simp add: Let_def)
qed

end
