(* ===== verification/Agent_Message.thy ===== *)
theory Agent_Message
  imports Session_Store Bus Tool_Policy
begin

text \<open>
  What the agent loop makes of an inbound message before it is sent to a provider
  (\<open>src/src/agent/loop.rs\<close>): text attachments are put into the prompt, images become content parts,
  and the resolved list of messages starts with the system message. Parameters: the base64
  encoding, reading an image file, and the system message of the context builder.
\<close>

section \<open>UTF-8\<close>

text \<open>\<open>std::str::from_utf8\<close>: well-formed sequences of one to four bytes.\<close>

definition cont_byte :: "nat \<Rightarrow> bool" where
  "cont_byte b \<longleftrightarrow> 128 \<le> b \<and> b \<le> 191"

definition utf8_seq2 :: "nat \<Rightarrow> nat \<Rightarrow> bool" where
  "utf8_seq2 a b \<longleftrightarrow> 194 \<le> a \<and> a \<le> 223 \<and> cont_byte b"

definition utf8_seq3 :: "nat \<Rightarrow> nat \<Rightarrow> nat \<Rightarrow> bool" where
  "utf8_seq3 a b c \<longleftrightarrow>
     224 \<le> a \<and> a \<le> 239 \<and> cont_byte b \<and> cont_byte c \<and> (a = 224 \<longrightarrow> 160 \<le> b) \<and> (a = 237 \<longrightarrow> b \<le> 159)"

definition utf8_seq4 :: "nat \<Rightarrow> nat \<Rightarrow> nat \<Rightarrow> nat \<Rightarrow> bool" where
  "utf8_seq4 a b c d \<longleftrightarrow>
     240 \<le> a \<and> a \<le> 244 \<and> cont_byte b \<and> cont_byte c \<and> cont_byte d \<and> (a = 240 \<longrightarrow> 144 \<le> b) \<and> (a = 244 \<longrightarrow> b \<le> 143)"

fun utf8_valid :: "nat list \<Rightarrow> bool" where
  "utf8_valid [] = True"
| "utf8_valid (a # rest) =
     (if a < 128 then utf8_valid rest
      else case rest of
        b # r2 \<Rightarrow>
          utf8_seq2 a b \<and> utf8_valid r2
          \<or> (case r2 of
               c # r3 \<Rightarrow>
                 utf8_seq3 a b c \<and> utf8_valid r3
                 \<or> (case r3 of d # r4 \<Rightarrow> utf8_seq4 a b c d \<and> utf8_valid r4 | [] \<Rightarrow> False)
             | [] \<Rightarrow> False)
      | [] \<Rightarrow> False)"

section \<open>Inbound messages\<close>

definition max_text_document_size :: nat where
  "max_text_document_size = 100 * 1024"

text \<open>A number of bytes in megabytes with one decimal, ties to even.\<close>

definition show_megabytes :: "nat \<Rightarrow> string" where
  "show_megabytes n =
     (let q = 10 * n div 2 ^ 20; r = 10 * n mod 2 ^ 20;
          tenths = (if 2 ^ 20 < 2 * r \<or> 2 * r = 2 ^ 20 \<and> odd q then q + 1 else q)
      in show_nat (tenths div 10) @ ''.'' @ show_nat (tenths mod 10))"

definition nl :: string where
  "nl = [CHR 0x0A]"

definition is_text_document :: "media_attachment \<Rightarrow> bool" where
  "is_text_document m \<longleftrightarrow>
     ma_media_type m = Media_Document \<and> ma_data m \<noteq> None
     \<and> (case ma_mime_type m of Some mime \<Rightarrow> starts_with mime ''text/'' \<or> mime = ''application/json'' | None \<Rightarrow> False)"

definition document_text :: "media_attachment \<Rightarrow> string" where
  "document_text doc =
     (let data = (case ma_data doc of Some d \<Rightarrow> d | None \<Rightarrow> [])
      in if max_text_document_size < length data
         then (case ma_filename doc of
                 Some name \<Rightarrow> nl @ nl @ ''[Text file '' @ quoted name @ '' too large ('' @ show_megabytes (length data)
                   @ '' MB), skipped]''
               | None \<Rightarrow> [])
         else if utf8_valid (map byte_val data)
         then let filename = (case ma_filename doc of Some f \<Rightarrow> f | None \<Rightarrow> ''attachment'')
              in nl @ nl @ ''--- Begin file: '' @ filename @ '' ---'' @ nl @ trim data @ nl @ ''--- End file: ''
                 @ filename @ '' ---''
         else (case ma_filename doc of
                 Some name \<Rightarrow> nl @ nl @ ''[File '' @ quoted name @ '' is not valid UTF-8 text]''
               | None \<Rightarrow> []))"

definition image_part :: "(string \<Rightarrow> string) \<Rightarrow> media_attachment \<Rightarrow> content_part option" where
  "image_part base64 m =
     (case ma_data m of
        None \<Rightarrow> None
      | Some data \<Rightarrow>
          let mime = (case ma_mime_type m of Some t \<Rightarrow> t | None \<Rightarrow> ''image/jpeg'')
          in (case validate_image data mime max_image_size of
                Inl _ \<Rightarrow> None
              | Inr _ \<Rightarrow> Some (Image (Base64 (base64 data)) mime)))"

text \<open>The loop passes no media store, so images are always inlined.\<close>

definition inbound_to_message :: "(string \<Rightarrow> string) \<Rightarrow> inbound_message \<Rightarrow> message" where
  "inbound_to_message base64 msg =
     (let content = im_content msg @ concat (map document_text (filter is_text_document (im_media msg)));
          image_parts = List.map_filter (image_part base64) (filter (\<lambda>m. ma_media_type m = Media_Image) (im_media msg))
      in if image_parts = [] then msg_user content else msg_user_with_images content image_parts)"

definition propagate_routing_metadata :: "inbound_message \<Rightarrow> outbound_message \<Rightarrow> outbound_message" where
  "propagate_routing_metadata msg out =
     fold (\<lambda>k out. case im_metadata msg k of
                     Some v \<Rightarrow> out\<lparr>om_metadata := (om_metadata out)(k \<mapsto> v)\<rparr>
                   | None \<Rightarrow> out)
       [''telegram_thread_id'', ''telegram_message_id'', ''discord_message_id''] out"

section \<open>Messages for the provider\<close>

definition supports_custom_ui_channel :: "string \<Rightarrow> bool" where
  "supports_custom_ui_channel channel \<longleftrightarrow> channel = ''acp_http'' \<or> channel = ''acp''"

definition is_streaming_capable :: "inbound_message \<Rightarrow> bool" where
  "is_streaming_capable msg \<longleftrightarrow> im_metadata msg ''streaming_capable'' = Some ''true''"

fun resolve_part :: "(string \<Rightarrow> string option) \<Rightarrow> content_part \<Rightarrow> content_part list" where
  "resolve_part read_image (Image (FilePath path) mime) =
     (case read_image path of Some data \<Rightarrow> [Image (Base64 data) mime] | None \<Rightarrow> [])"
| "resolve_part read_image p = [p]"

definition resolve_images_to_base64 :: "(string \<Rightarrow> string option) \<Rightarrow> message \<Rightarrow> message" where
  "resolve_images_to_base64 read_image m = m\<lparr>content_parts := concat (map (resolve_part read_image) (content_parts m))\<rparr>"

definition sendable :: "message \<Rightarrow> bool" where
  "sendable m \<longleftrightarrow> \<not> (msg_role m = RUser \<and> content m = [] \<and> \<not> has_images m)"

definition sync_one :: "message \<Rightarrow> message list \<Rightarrow> message list" where
  "sync_one resolved ms =
     (if msg_role resolved \<noteq> RTool then ms
      else case find (\<lambda>i. msg_role (ms ! i) = RTool \<and> tool_call_id (ms ! i) = tool_call_id resolved) (rev [0..<length ms]) of
             None \<Rightarrow> ms
           | Some i \<Rightarrow>
               if content (ms ! i) \<noteq> content resolved
               then ms[i := (ms ! i)\<lparr>content := content resolved, content_parts := content_parts resolved\<rparr>]
               else ms)"

definition sync_trimmed_tool_results :: "message list \<Rightarrow> message list \<Rightarrow> message list" where
  "sync_trimmed_tool_results session_messages resolved_messages = fold sync_one resolved_messages session_messages"

end
