(* ===== verification/Context_Window.thy ===== *)
theory Context_Window
  imports Session Complex_Main
begin

text \<open>
  The context window: the token estimate and the pre-flight guard of
  \<open>src/src/agent/context_monitor.rs\<close> and the compaction of \<open>src/src/agent/compaction.rs\<close>. Estimates,
  thresholds and margins are exact rationals in place of floating point. A tool definition is its
  name, description and rendered schema. Shrinking yields \<open>None\<close> where \<open>String::truncate\<close> panics.
\<close>

section \<open>Estimates\<close>

definition chars_per_token :: rat where
  "chars_per_token = 4"

definition tool_result_chars_per_token :: rat where
  "tool_result_chars_per_token = 2"

definition image_token_estimate :: rat where
  "image_token_estimate = 2000"

definition message_framing_tokens :: rat where
  "message_framing_tokens = 4"

text \<open>The cast of a float to \<open>usize\<close>: negative values become zero, large ones the maximum.\<close>

definition to_usize :: "rat \<Rightarrow> nat" where
  "to_usize x = sat64 (nat \<lfloor>x\<rfloor>)"

fun part_tokens :: "rat \<Rightarrow> content_part \<Rightarrow> rat" where
  "part_tokens cpt (Text t) = of_nat (length t) / cpt"
| "part_tokens cpt (Image src mime) = image_token_estimate"

definition call_tokens :: "tool_call \<Rightarrow> rat" where
  "call_tokens tc = of_nat (length (tc_name tc)) / chars_per_token
     + of_nat (length (tc_arguments tc)) / tool_result_chars_per_token"

definition estimate_message_tokens :: "message \<Rightarrow> rat" where
  "estimate_message_tokens msg =
     (let cpt = (if msg_role msg = RTool then tool_result_chars_per_token else chars_per_token);
          content_tokens = of_nat (length (content msg)) / cpt;
          parts_tokens = sum_list (map (part_tokens cpt) (content_parts msg));
          tool_call_tokens = (case tool_calls msg of None \<Rightarrow> 0 | Some calls \<Rightarrow> sum_list (map call_tokens calls))
      in max content_tokens parts_tokens + tool_call_tokens + message_framing_tokens)"

definition estimate_tokens_with_margin :: "message list \<Rightarrow> rat \<Rightarrow> nat" where
  "estimate_tokens_with_margin ms margin =
     to_usize (sum_list (map estimate_message_tokens ms) * margin)"

definition estimate_tokens :: "message list \<Rightarrow> nat" where
  "estimate_tokens ms = estimate_tokens_with_margin ms (6 / 5)"

record tool_definition =
  td_name :: string
  td_description :: string
  td_schema :: string

definition tool_def_tokens :: "tool_definition \<Rightarrow> rat" where
  "tool_def_tokens td = of_nat (length (td_name td) + length (td_description td)) / chars_per_token
     + of_nat (length (td_schema td)) / tool_result_chars_per_token"

definition estimate_tokens_full :: "message list \<Rightarrow> tool_definition list \<Rightarrow> rat \<Rightarrow> nat" where
  "estimate_tokens_full ms tds margin =
     to_usize ((sum_list (map estimate_message_tokens ms) + sum_list (map tool_def_tokens tds)) * margin)"

section \<open>The monitor\<close>

datatype compaction_strategy = No_Compaction | Summarize nat | Truncate nat
datatype compaction_urgency = Normal_Urgency | Emergency | Critical
datatype preflight_action = Preflight_Ok | Trimmed | NeedsCompaction

record context_monitor =
  cm_context_limit :: nat
  cm_threshold :: rat
  cm_emergency_threshold :: rat
  cm_critical_threshold :: rat
  cm_input_headroom_ratio :: rat
  cm_single_tool_result_share :: rat
  cm_safety_margin :: rat

record compaction_config =
  cc_enabled :: bool
  cc_context_limit :: nat
  cc_threshold :: rat
  cc_emergency_threshold :: rat
  cc_critical_threshold :: rat
  cc_input_headroom_ratio :: rat
  cc_single_tool_result_share :: rat
  cc_safety_margin :: rat
  cc_overflow_retries :: nat

definition compaction_config_default :: compaction_config where
  "compaction_config_default = \<lparr>cc_enabled = True, cc_context_limit = 180000, cc_threshold = 7 / 10,
     cc_emergency_threshold = 9 / 10, cc_critical_threshold = 95 / 100, cc_input_headroom_ratio = 3 / 4,
     cc_single_tool_result_share = 1 / 2, cc_safety_margin = 6 / 5, cc_overflow_retries = 3\<rparr>"

definition monitor_with_thresholds :: "nat \<Rightarrow> rat \<Rightarrow> rat \<Rightarrow> rat \<Rightarrow> context_monitor" where
  "monitor_with_thresholds limit t e k = \<lparr>cm_context_limit = limit, cm_threshold = t, cm_emergency_threshold = e,
     cm_critical_threshold = k, cm_input_headroom_ratio = 3 / 4, cm_single_tool_result_share = 1 / 2,
     cm_safety_margin = 6 / 5\<rparr>"

definition monitor_new :: "nat \<Rightarrow> rat \<Rightarrow> context_monitor" where
  "monitor_new limit t = monitor_with_thresholds limit t (9 / 10) (95 / 100)"

definition monitor_from_config :: "compaction_config \<Rightarrow> context_monitor" where
  "monitor_from_config c = \<lparr>cm_context_limit = cc_context_limit c, cm_threshold = cc_threshold c,
     cm_emergency_threshold = cc_emergency_threshold c, cm_critical_threshold = cc_critical_threshold c,
     cm_input_headroom_ratio = cc_input_headroom_ratio c,
     cm_single_tool_result_share = cc_single_tool_result_share c, cm_safety_margin = cc_safety_margin c\<rparr>"

definition monitor_default :: context_monitor where
  "monitor_default = \<lparr>cm_context_limit = 180000, cm_threshold = 7 / 10, cm_emergency_threshold = 9 / 10,
     cm_critical_threshold = 95 / 100, cm_input_headroom_ratio = 3 / 4, cm_single_tool_result_share = 1 / 2,
     cm_safety_margin = 6 / 5\<rparr>"

definition context_budget :: "context_monitor \<Rightarrow> nat" where
  "context_budget m = to_usize (of_nat (cm_context_limit m) * cm_input_headroom_ratio m)"

definition needs_compaction :: "context_monitor \<Rightarrow> message list \<Rightarrow> bool" where
  "needs_compaction m ms \<longleftrightarrow>
     cm_threshold m * of_nat (cm_context_limit m) < of_nat (estimate_tokens_with_margin ms (cm_safety_margin m))"

text \<open>
  The fullness ratio is a float division: by a zero limit it is infinite, or not a number
  when the estimate is zero too; not a number fails every comparison.
\<close>

datatype fullness = Share rat | Infinite | Not_A_Number

definition fullness_of :: "context_monitor \<Rightarrow> message list \<Rightarrow> fullness" where
  "fullness_of m ms =
     (let estimated = estimate_tokens_with_margin ms (cm_safety_margin m)
      in if cm_context_limit m \<noteq> 0 then Share (of_nat estimated / of_nat (cm_context_limit m))
         else if estimated = 0 then Not_A_Number else Infinite)"

fun at_most :: "fullness \<Rightarrow> rat \<Rightarrow> bool" where
  "at_most (Share x) t \<longleftrightarrow> x \<le> t"
| "at_most Infinite t \<longleftrightarrow> False"
| "at_most Not_A_Number t \<longleftrightarrow> False"

fun at_least :: "fullness \<Rightarrow> rat \<Rightarrow> bool" where
  "at_least (Share x) t \<longleftrightarrow> t \<le> x"
| "at_least Infinite t \<longleftrightarrow> True"
| "at_least Not_A_Number t \<longleftrightarrow> False"

fun above :: "fullness \<Rightarrow> rat \<Rightarrow> bool" where
  "above (Share x) t \<longleftrightarrow> t < x"
| "above Infinite t \<longleftrightarrow> True"
| "above Not_A_Number t \<longleftrightarrow> False"

definition urgency :: "context_monitor \<Rightarrow> message list \<Rightarrow> compaction_urgency option" where
  "urgency m ms =
     (let ratio = fullness_of m ms
      in if at_most ratio (cm_threshold m) then None
         else if at_least ratio (cm_critical_threshold m) then Some Critical
         else if at_least ratio (cm_emergency_threshold m) then Some Emergency
         else Some Normal_Urgency)"

definition suggest_strategy :: "context_monitor \<Rightarrow> message list \<Rightarrow> compaction_strategy" where
  "suggest_strategy m ms =
     (case urgency m ms of
        None \<Rightarrow> No_Compaction
      | Some Critical \<Rightarrow> Truncate 3
      | Some Emergency \<Rightarrow> Truncate 5
      | Some Normal_Urgency \<Rightarrow> if above (fullness_of m ms) (85 / 100) then Summarize 5 else Summarize 8)"

section \<open>The pre-flight check\<close>

fun boundary_after :: "string \<Rightarrow> nat \<Rightarrow> nat \<Rightarrow> nat" where
  "boundary_after s start 0 = start"
| "boundary_after s start (Suc n) = (if is_char_boundary s start then start else boundary_after s (Suc start) n)"

definition safe_truncate :: "string \<Rightarrow> nat \<Rightarrow> string" where
  "safe_truncate s max_bytes = (if length s \<le> max_bytes then s else take (boundary_before s max_bytes) s)"

definition safe_truncate_tail :: "string \<Rightarrow> nat \<Rightarrow> string" where
  "safe_truncate_tail s max_bytes =
     (if length s \<le> max_bytes then s else drop (boundary_after s (length s - max_bytes) max_bytes) s)"

definition set_body :: "string \<Rightarrow> message \<Rightarrow> message" where
  "set_body t m = m\<lparr>content := t, content_parts := (if content_parts m = [] then [] else [Text t])\<rparr>"

definition truncation_mark :: "nat \<Rightarrow> string" where
  "truncation_mark n = [CHR 0x0A] @ ''...[truncated '' @ show_nat n @ '' bytes]...''"

definition cap_text :: "nat \<Rightarrow> string \<Rightarrow> string" where
  "cap_text cap s =
     (let head = safe_truncate s (wrap64 (cap * 7) div 10);
          tail = safe_truncate_tail s (wrap64 (cap * 3) div 10)
      in head @ truncation_mark (length s - length head - length tail) @ [CHR 0x0A] @ tail)"

definition over_cap :: "nat \<Rightarrow> message \<Rightarrow> bool" where
  "over_cap cap m \<longleftrightarrow> msg_role m = RTool \<and> cap < length (content m)"

definition cap_result :: "nat \<Rightarrow> message \<Rightarrow> message" where
  "cap_result cap m = (if over_cap cap m then set_body (cap_text cap (content m)) m else m)"

definition compacted_mark :: string where
  "compacted_mark = ''[compacted]''"

definition tool_indices :: "message list \<Rightarrow> nat list" where
  "tool_indices ms = filter (\<lambda>i. msg_role (ms ! i) = RTool \<and> content (ms ! i) \<noteq> compacted_mark) [0..<length ms]"

fun compact_oldest :: "rat \<Rightarrow> nat \<Rightarrow> nat list \<Rightarrow> message list \<Rightarrow> message list" where
  "compact_oldest margin budget [] ms = ms"
| "compact_oldest margin budget (i # is) ms =
     (let ms' = ms[i := set_body compacted_mark (ms ! i)]
      in if estimate_tokens_with_margin ms' margin \<le> budget then ms' else compact_oldest margin budget is ms')"

definition single_result_cap :: "context_monitor \<Rightarrow> nat" where
  "single_result_cap m =
     to_usize (of_nat (to_usize (of_nat (cm_context_limit m) * cm_single_tool_result_share m))
       * tool_result_chars_per_token)"

definition compaction_limit :: "context_monitor \<Rightarrow> nat" where
  "compaction_limit m = min (context_budget m) (to_usize (of_nat (cm_context_limit m) * cm_emergency_threshold m))"

definition preflight_check ::
    "context_monitor \<Rightarrow> tool_definition list \<Rightarrow> message list \<Rightarrow> preflight_action \<times> message list" where
  "preflight_check m tds ms =
     (let budget = context_budget m; cap = single_result_cap m;
          trimmed1 = list_ex (over_cap cap) ms;
          ms1 = map (cap_result cap) ms;
          over = budget < estimate_tokens_with_margin ms1 (cm_safety_margin m);
          trimmed2 = (over \<and> tool_indices ms1 \<noteq> []);
          ms2 = (if over then compact_oldest (cm_safety_margin m) budget (tool_indices ms1) ms1 else ms1)
      in (if compaction_limit m < estimate_tokens_full ms2 tds (cm_safety_margin m) then NeedsCompaction
          else if trimmed1 \<or> trimmed2 then Trimmed else Preflight_Ok, ms2))"

section \<open>Compaction\<close>

definition system_first :: "message list \<Rightarrow> bool" where
  "system_first ms \<longleftrightarrow> (case ms of [] \<Rightarrow> False | m # _ \<Rightarrow> msg_role m = RSystem)"

definition truncate_messages :: "nat \<Rightarrow> message list \<Rightarrow> message list" where
  "truncate_messages keep_recent ms =
     (if length ms \<le> keep_recent then ms
      else if keep_recent = 0 then (if system_first ms then [hd ms] else [])
      else if system_first ms then hd ms # drop ((length ms - 1) - keep_recent) (tl ms)
      else drop (length ms - keep_recent) ms)"

definition strip_images :: "message \<Rightarrow> message" where
  "strip_images m = (if has_images m then m\<lparr>content_parts := filter (\<lambda>p. \<not> is_image p) (content_parts m)\<rparr> else m)"

definition summary_message :: "string \<Rightarrow> message" where
  "summary_message t = msg_system (''[Conversation Summary]'' @ [CHR 0x0A] @ t)"

definition summarize_messages :: "nat \<Rightarrow> string \<Rightarrow> message list \<Rightarrow> message list" where
  "summarize_messages keep_recent summary_text ms =
     (if ms = [] then [summary_message summary_text]
      else if length ms \<le> keep_recent then ms
      else map strip_images
        (if system_first ms
         then hd ms # summary_message summary_text # drop ((length ms - 1) - keep_recent) (tl ms)
         else summary_message summary_text # drop (length ms - keep_recent) ms))"

text \<open>\<open>String::truncate\<close> panics inside a character; after it the end is always a boundary.\<close>

definition shrink_text :: "nat \<Rightarrow> string \<Rightarrow> string option" where
  "shrink_text n s =
     (if is_char_boundary s n
      then Some (take n s @ [CHR 0x0A] @ ''...[shrunk from '' @ show_nat (length s) @ '' to '' @ show_nat n @ '' bytes]'')
      else None)"

definition shrink_message :: "nat \<Rightarrow> message \<Rightarrow> message option" where
  "shrink_message n m =
     (if n < length (content m) then map_option (\<lambda>t. set_body t m) (shrink_text n (content m)) else Some m)"

fun traverse :: "('a \<Rightarrow> 'b option) \<Rightarrow> 'a list \<Rightarrow> 'b list option" where
  "traverse f [] = Some []"
| "traverse f (x # xs) =
     (case f x of None \<Rightarrow> None | Some y \<Rightarrow> map_option (Cons y) (traverse f xs))"

definition shrink_tool_results :: "nat \<Rightarrow> message list \<Rightarrow> (message list \<times> nat) option" where
  "shrink_tool_results n ms =
     map_option (\<lambda>ms'. (ms', length (filter (\<lambda>m. is_tool_result m \<and> n < length (content m)) ms)))
       (traverse (\<lambda>m. if is_tool_result m then shrink_message n m else Some m) ms)"

text \<open>The loop over the tool results, \<open>pos\<close> counting them from the oldest.\<close>

fun shrink_progressive_from :: "nat \<Rightarrow> nat \<Rightarrow> nat \<Rightarrow> nat \<Rightarrow> message list \<Rightarrow> message list option" where
  "shrink_progressive_from target recent count pos [] = Some []"
| "shrink_progressive_from target recent count pos (m # ms) =
     (if is_tool_result m
      then case shrink_message (if count - recent \<le> pos then target else target div 4) m of
             None \<Rightarrow> None
           | Some m' \<Rightarrow> map_option (Cons m') (shrink_progressive_from target recent count (Suc pos) ms)
      else map_option (Cons m) (shrink_progressive_from target recent count pos ms))"

definition shrink_tool_results_progressive :: "nat \<Rightarrow> nat \<Rightarrow> message list \<Rightarrow> message list option" where
  "shrink_tool_results_progressive target recent ms =
     shrink_progressive_from target recent (length (filter is_tool_result ms)) 0 ms"

definition fits_target :: "nat \<Rightarrow> rat \<Rightarrow> message list \<Rightarrow> bool" where
  "fits_target limit margin ms \<longleftrightarrow>
     of_nat (estimate_tokens_with_margin ms margin) \<le> of_nat limit * (95 / 100 :: rat)"

definition recover_tiers :: "nat \<Rightarrow> rat \<Rightarrow> nat \<Rightarrow> nat \<Rightarrow> nat \<Rightarrow> message list \<Rightarrow> (message list \<times> nat) option" where
  "recover_tiers limit margin keep budget recent ms =
     (let r1 = truncate_messages keep ms
      in if fits_target limit margin r1 then Some (r1, 1)
         else case shrink_tool_results_progressive budget recent r1 of
                None \<Rightarrow> None
              | Some r2 \<Rightarrow>
                  if fits_target limit margin r2 then Some (r2, 2) else Some (truncate_messages 3 r2, 3))"

definition try_recover_context_with_urgency ::
    "nat \<Rightarrow> compaction_urgency \<Rightarrow> nat \<Rightarrow> nat \<Rightarrow> rat \<Rightarrow> message list \<Rightarrow> (message list \<times> nat) option" where
  "try_recover_context_with_urgency limit u keep_tier1 tool_result_budget margin ms =
     (if fits_target limit margin ms then Some (ms, 0)
      else case u of
        Critical \<Rightarrow> Some (truncate_messages 6 ms, 3)
      | Emergency \<Rightarrow>
          recover_tiers limit margin (min keep_tier1 5) (min (max (tool_result_budget div 2) 1) tool_result_budget) 2 ms
      | Normal_Urgency \<Rightarrow> recover_tiers limit margin keep_tier1 tool_result_budget 3 ms)"

definition try_recover_context :: "nat \<Rightarrow> nat \<Rightarrow> nat \<Rightarrow> rat \<Rightarrow> message list \<Rightarrow> (message list \<times> nat) option" where
  "try_recover_context limit keep_tier1 tool_result_budget margin ms =
     try_recover_context_with_urgency limit Normal_Urgency keep_tier1 tool_result_budget margin ms"

definition build_summary_prompt :: "message list \<Rightarrow> string" where
  "build_summary_prompt ms =
     ''Summarize the following conversation focusing on key decisions, information exchanged, and actions taken. Be concise.''
     @ [CHR 0x0A, CHR 0x0A]
     @ concat (map (\<lambda>m. role_display (msg_role m) @ '': '' @ content m @ [CHR 0x0A]) ms)"

section \<open>Lemmas\<close>

lemma boundary_after_bounds: "start \<le> boundary_after s start n" "boundary_after s start n \<le> start + n"
  by (induction s start n rule: boundary_after.induct) auto

lemma safe_truncate_length: "length (safe_truncate s n) \<le> n"
  using boundary_before_le [of s n] by (simp add: safe_truncate_def)

lemma safe_truncate_tail_length: "length (safe_truncate_tail s n) \<le> n"
  using boundary_after_bounds(1) [of "length s - n" s n] by (auto simp: safe_truncate_tail_def)

lemma wrap64_le: "wrap64 n \<le> n"
  by (simp add: wrap64_def)

text \<open>What is cut out is never negative, so the subtraction in the mark cannot wrap.\<close>

lemma cap_parts_fit:
  "length (safe_truncate s (wrap64 (cap * 7) div 10)) + length (safe_truncate_tail s (wrap64 (cap * 3) div 10)) \<le> cap"
proof -
  have "wrap64 (cap * 7) div 10 \<le> cap * 7 div 10" "wrap64 (cap * 3) div 10 \<le> cap * 3 div 10"
    by (simp_all add: div_le_mono wrap64_le)
  moreover have "cap * 7 div 10 + cap * 3 div 10 \<le> cap" by linarith
  ultimately show ?thesis
    using safe_truncate_length [of s "wrap64 (cap * 7) div 10"] safe_truncate_tail_length [of s "wrap64 (cap * 3) div 10"]
    by linarith
qed

text \<open>What the guard may change of a message: the body of a tool result.\<close>

definition same_frame :: "message \<Rightarrow> message \<Rightarrow> bool" where
  "same_frame m m' \<longleftrightarrow> msg_role m' = msg_role m \<and> tool_calls m' = tool_calls m \<and> tool_call_id m' = tool_call_id m
     \<and> (msg_role m = RTool \<or> m' = m)"

lemma same_frame_refl [simp]: "same_frame m m"
  by (simp add: same_frame_def)

lemma same_frame_trans: "same_frame a b \<Longrightarrow> same_frame b c \<Longrightarrow> same_frame a c"
  by (auto simp: same_frame_def)

lemma same_frame_set_body: "msg_role m = RTool \<Longrightarrow> same_frame m (set_body t m)"
  by (simp add: same_frame_def set_body_def)

lemma same_frame_cap: "same_frame m (cap_result cap m)"
  by (simp add: cap_result_def over_cap_def same_frame_set_body)

lemma content_set_body [simp]: "content (set_body t m) = t" "msg_role (set_body t m) = msg_role m"
  by (simp_all add: set_body_def)

lemma compact_oldest_length [simp]: "length (compact_oldest margin budget is ms) = length ms"
  by (induction margin budget "is" ms rule: compact_oldest.induct) (simp_all add: Let_def)

lemma compact_oldest_frame:
  "\<forall>i \<in> set is. i < length ms \<and> msg_role (ms ! i) = RTool \<Longrightarrow> j < length ms \<Longrightarrow>
     same_frame (ms ! j) (compact_oldest margin budget is ms ! j)"
proof (induction margin budget "is" ms rule: compact_oldest.induct)
  case (2 margin budget i "is" ms)
  let ?ms' = "ms[i := set_body compacted_mark (ms ! i)]"
  have step: "same_frame (ms ! j) (?ms' ! j)"
    using 2 by (cases "i = j") (simp_all add: same_frame_set_body)
  have tools: "\<forall>k \<in> set is. k < length ?ms' \<and> msg_role (?ms' ! k) = RTool"
    using 2(2) by (auto simp: nth_list_update)
  show ?case
    using step same_frame_trans [OF step "2.IH" [OF refl _ tools]] 2(3) by (simp add: Let_def)
qed simp

lemma compact_oldest_done:
  "\<forall>i \<in> set is. i < length ms \<Longrightarrow> j < length ms \<Longrightarrow> content (ms ! j) = compacted_mark \<or> j \<in> set is \<Longrightarrow>
     estimate_tokens_with_margin (compact_oldest margin budget is ms) margin \<le> budget
     \<or> content (compact_oldest margin budget is ms ! j) = compacted_mark"
proof (induction margin budget "is" ms rule: compact_oldest.induct)
  case (2 margin budget i "is" ms)
  let ?ms' = "ms[i := set_body compacted_mark (ms ! i)]"
  show ?case
  proof (cases "estimate_tokens_with_margin ?ms' margin \<le> budget")
    case False
    have "content (?ms' ! j) = compacted_mark \<or> j \<in> set is"
      using 2(2-4) by (cases "i = j") auto
    with 2 False show ?thesis by (simp add: Let_def)
  qed (simp add: Let_def)
qed simp

lemma tool_indices_iff:
  "i \<in> set (tool_indices ms) \<longleftrightarrow> i < length ms \<and> msg_role (ms ! i) = RTool \<and> content (ms ! i) \<noteq> compacted_mark"
  by (auto simp: tool_indices_def)

lemma compact_tools_frame:
  "j < length ms \<Longrightarrow> same_frame (ms ! j) (compact_oldest margin budget (tool_indices ms) ms ! j)"
  by (rule compact_oldest_frame) (simp_all add: tool_indices_iff)

lemma compact_tools_done:
  "j < length ms \<Longrightarrow> msg_role (ms ! j) = RTool \<Longrightarrow>
     estimate_tokens_with_margin (compact_oldest margin budget (tool_indices ms) ms) margin \<le> budget
     \<or> content (compact_oldest margin budget (tool_indices ms) ms ! j) = compacted_mark"
  by (rule compact_oldest_done) (auto simp: tool_indices_iff)

lemma tool_indices_empty: "tool_indices ms = [] \<Longrightarrow> compact_oldest margin budget (tool_indices ms) ms = ms"
  by simp

lemma cap_result_id: "\<not> list_ex (over_cap cap) ms \<Longrightarrow> map (cap_result cap) ms = ms"
  by (induction ms) (auto simp: cap_result_def)

lemma truncate_messages_length: "length (truncate_messages k ms) \<le> Suc k"
  by (auto simp: truncate_messages_def)

lemma truncate_messages_system:
  "system_first ms \<Longrightarrow> system_first (truncate_messages k ms) \<and> hd (truncate_messages k ms) = hd ms"
  by (auto simp: truncate_messages_def system_first_def split: list.splits)

lemma shrink_progressive_hd:
  "shrink_progressive_from target recent count pos ms = Some ms' \<Longrightarrow> system_first ms \<Longrightarrow>
     system_first ms' \<and> hd ms' = hd ms"
  by (cases ms) (auto simp: system_first_def is_tool_result_def split: if_splits)

lemma shrink_message_None:
  "shrink_message n m = None \<longleftrightarrow> n < length (content m) \<and> \<not> is_char_boundary (content m) n"
  by (simp add: shrink_message_def shrink_text_def)

lemma traverse_None: "traverse f xs = None \<longleftrightarrow> (\<exists>x \<in> set xs. f x = None)"
  by (induction xs) (auto split: option.splits)

lemma recover_tiers_facts:
  assumes "recover_tiers limit margin keep budget recent ms = Some (ms', tier)"
  shows "tier \<in> {1, 2} \<and> fits_target limit margin ms' \<or> tier = 3 \<and> length ms' \<le> 4"
    and "system_first ms \<Longrightarrow> system_first ms' \<and> hd ms' = hd ms"
  using assms truncate_messages_length [of 3] truncate_messages_system shrink_progressive_hd
  by (force simp: recover_tiers_def shrink_tool_results_progressive_def Let_def split: if_splits option.splits)+

section \<open>Properties\<close>

text \<open>
  C21. The pre-flight guard keeps its word: unless it asks for compaction, the estimate of the whole
  request is within the limit; if it reports nothing done, nothing was done; it changes only the
  bodies of tool results, so roles, call identifiers and the number of messages stay; and as
  long as the messages are over the budget every tool result has been emptied.
\<close>

theorem preflight_guarantee:
  assumes "preflight_check m tds ms = (act, ms')"
  shows "(act \<noteq> NeedsCompaction \<longrightarrow> estimate_tokens_full ms' tds (cm_safety_margin m) \<le> compaction_limit m)
    \<and> (act = Preflight_Ok \<longrightarrow> ms' = ms)
    \<and> list_all2 same_frame ms ms'
    \<and> (estimate_tokens_with_margin ms' (cm_safety_margin m) \<le> context_budget m
       \<or> (\<forall>x \<in> set ms'. msg_role x = RTool \<longrightarrow> content x = compacted_mark))"
proof -
  let ?cap = "single_result_cap m" and ?b = "context_budget m" and ?g = "cm_safety_margin m"
  let ?ms1 = "map (cap_result ?cap) ms"
  let ?over = "?b < estimate_tokens_with_margin ?ms1 ?g"
  let ?ms2 = "if ?over then compact_oldest ?g ?b (tool_indices ?ms1) ?ms1 else ?ms1"
  have ms': "ms' = ?ms2" using assms by (simp add: preflight_check_def Let_def)
  have fits: "act \<noteq> NeedsCompaction \<longrightarrow> estimate_tokens_full ms' tds ?g \<le> compaction_limit m"
    and ok: "act = Preflight_Ok \<longrightarrow> ms' = ms"
    using assms cap_result_id [of ?cap ms] tool_indices_empty [of ?ms1 ?g ?b]
    by (auto simp: preflight_check_def Let_def split: if_splits)
  have frame: "list_all2 same_frame ms ms'"
  proof (rule list_all2_all_nthI)
    show "length ms = length ms'" by (simp add: ms')
    fix j assume j: "j < length ms"
    then have "same_frame (ms ! j) (?ms1 ! j)" by (simp add: same_frame_cap)
    moreover have "same_frame (?ms1 ! j) (ms' ! j)"
      unfolding ms' using j compact_tools_frame [of j ?ms1 ?g ?b] by simp
    ultimately show "same_frame (ms ! j) (ms' ! j)" by (rule same_frame_trans)
  qed
  have "content (ms' ! j) = compacted_mark"
    if "\<not> estimate_tokens_with_margin ms' ?g \<le> ?b" "j < length ms'" "msg_role (ms' ! j) = RTool" for j
  proof -
    have o: ?over using that(1) ms' by (auto split: if_splits)
    have j: "j < length ?ms1" using that(2) ms' by (simp split: if_splits)
    have "msg_role (?ms1 ! j) = RTool"
      using that(3) compact_tools_frame [OF j, of ?g ?b] o ms' by (simp add: same_frame_def)
    from compact_tools_done [OF j this, of ?g ?b] o ms' that(1) show ?thesis by simp
  qed
  then show ?thesis using fits ok frame by (auto simp: in_set_conv_nth)
qed

definition small_monitor :: context_monitor where
  "small_monitor = monitor_new 40 (8 / 10)"

theorem preflight_guarantee_witness:
  "preflight_check small_monitor [] [msg_tool_result ''a'' (replicate 39 (CHR ''x'')), msg_user ''hi'']
     = (Trimmed, [msg_tool_result ''a'' compacted_mark, msg_user ''hi''])
   \<and> estimate_tokens_full [msg_tool_result ''a'' compacted_mark, msg_user ''hi''] [] (cm_safety_margin small_monitor)
       \<le> compaction_limit small_monitor"
proof -
  have x: "preflight_check small_monitor [] [msg_tool_result ''a'' (replicate 39 (CHR ''x'')), msg_user ''hi'']
     = (Trimmed, [msg_tool_result ''a'' compacted_mark, msg_user ''hi''])" by code_simp
  from preflight_guarantee [OF x] x show ?thesis by simp
qed

text \<open>
  Recovery: at tiers 0 to 2 the history fits into 95 percent of the window, at tier 3 it has
  at most seven messages; a leading system message always survives in place. Nothing is lost
  when nothing is needed.
\<close>

theorem recovery_guarantee:
  assumes "try_recover_context_with_urgency limit u keep budget margin ms = Some (ms', tier)"
  shows "(tier < 3 \<longrightarrow> fits_target limit margin ms') \<and> tier \<le> 3 \<and> (tier = 3 \<longrightarrow> length ms' \<le> 7)
    \<and> (tier = 0 \<longrightarrow> ms' = ms) \<and> (system_first ms \<longrightarrow> system_first ms' \<and> hd ms' = hd ms)"
proof (cases "fits_target limit margin ms \<or> u = Critical")
  case True
  then show ?thesis
    using assms truncate_messages_length [of 6 ms] truncate_messages_system
    by (auto simp: try_recover_context_with_urgency_def split: if_splits)
next
  case False
  then obtain k b r where "recover_tiers limit margin k b r ms = Some (ms', tier)"
    using assms by (cases u) (auto simp: try_recover_context_with_urgency_def)
  from recover_tiers_facts [OF this] show ?thesis by auto
qed

theorem recovery_guarantee_witness:
  "\<exists>ms' tier. try_recover_context_with_urgency 20 Normal_Urgency 1 100 (6 / 5)
       [msg_system ''sys'', msg_user (replicate 100 (CHR ''x'')), msg_user ''ok''] = Some (ms', tier)
     \<and> tier = 1 \<and> hd ms' = msg_system ''sys'' \<and> fits_target 20 (6 / 5) ms'"
proof -
  let ?x = "try_recover_context_with_urgency 20 Normal_Urgency 1 100 (6 / 5)
       [msg_system ''sys'', msg_user (replicate 100 (CHR ''x'')), msg_user ''ok'']"
  have "map_option snd ?x = Some 1" by code_simp
  then obtain ms' where x: "?x = Some (ms', 1)" by auto
  from recovery_guarantee [OF x] x show ?thesis by (simp add: system_first_def msg_system_def)
qed

text \<open>
  Critical recovery is no recovery for a short history: with at most six messages the history
  is returned as it is, at tier 3, although it does not fit.
\<close>

theorem critical_keeps_overflow:
  assumes "\<not> fits_target limit margin ms" "length ms \<le> 6"
  shows "try_recover_context_with_urgency limit Critical keep budget margin ms = Some (ms, 3)"
  using assms by (simp add: try_recover_context_with_urgency_def truncate_messages_def)

theorem critical_keeps_overflow_witness:
  "try_recover_context_with_urgency 20 Critical 8 100 (6 / 5) [msg_user (replicate 100 (CHR ''x''))]
     = Some ([msg_user (replicate 100 (CHR ''x''))], 3)"
proof -
  have "\<not> fits_target 20 (6 / 5) [msg_user (replicate 100 (CHR ''x''))]" by code_simp
  from critical_keeps_overflow [OF this, of 8 100] show ?thesis by simp
qed

text \<open>
  Shrinking tool results panics exactly if some tool result is over the limit and the limit
  falls inside one of its characters: the string is truncated before the boundary is sought.
\<close>

theorem shrink_panics_iff:
  "shrink_tool_results n ms = None \<longleftrightarrow>
     (\<exists>m \<in> set ms. is_tool_result m \<and> n < length (content m) \<and> \<not> is_char_boundary (content m) n)"
  by (auto simp: shrink_tool_results_def traverse_None shrink_message_None)

text \<open>
  The cap does not cap: a plain text result over the cap is still over it after it was cut,
  because of the mark that is put in, so every later check cuts it again.
\<close>

lemma ascii_boundary: "list_all (\<lambda>c. \<not> continues_char c) s \<Longrightarrow> i \<le> length s \<Longrightarrow> is_char_boundary s i"
  by (auto simp: is_char_boundary_def list_all_length continues_char_def)

lemma safe_truncate_ascii:
  assumes "list_all (\<lambda>c. \<not> continues_char c) s" "n \<le> length s"
  shows "length (safe_truncate s n) = n" "length (safe_truncate_tail s n) = n"
proof -
  have "boundary_before s n = n" using ascii_boundary [OF assms] by (cases n) auto
  then show "length (safe_truncate s n) = n" using assms(2) by (simp add: safe_truncate_def)
  have "boundary_after s (length s - n) n = length s - n"
    using ascii_boundary [OF assms(1), of "length s - n"] by (cases n) auto
  then show "length (safe_truncate_tail s n) = n" using assms(2) by (simp add: safe_truncate_tail_def)
qed

theorem capped_result_still_over:
  assumes "over_cap cap m" "list_all (\<lambda>c. \<not> continues_char c) (content m)" "cap * 7 \<le> u64_max"
  shows "over_cap cap (cap_result cap m)"
proof -
  have w: "wrap64 (cap * 7) = cap * 7" "wrap64 (cap * 3) = cap * 3" using assms(3) by (simp_all add: wrap64_id)
  have l: "cap < length (content m)" using assms(1) by (simp add: over_cap_def)
  then have "length (safe_truncate (content m) (cap * 7 div 10)) = cap * 7 div 10"
      "length (safe_truncate_tail (content m) (cap * 3 div 10)) = cap * 3 div 10"
    using assms(2) by (simp_all add: safe_truncate_ascii)
  moreover have "cap < cap * 7 div 10 + cap * 3 div 10 + 2" by linarith
  ultimately have "cap < length (cap_text cap (content m))"
    by (simp add: cap_text_def Let_def w truncation_mark_def)
  then show ?thesis using assms(1) by (simp add: cap_result_def over_cap_def)
qed

theorem capped_result_still_over_witness:
  "over_cap 20 (cap_result 20 (msg_tool_result ''a'' (replicate 30 (CHR ''x''))))"
proof -
  let ?m = "msg_tool_result ''a'' (replicate 30 (CHR ''x''))"
  have "over_cap 20 ?m" "list_all (\<lambda>c. \<not> continues_char c) (content ?m)" "20 * 7 \<le> u64_max"
    by (simp_all add: over_cap_def msg_tool_result_def list_all_iff continues_char_def byte_val_def u64_max_def)
  then show ?thesis by (rule capped_result_still_over)
qed

end
