(* ===== verification/Sanitize.thy ===== *)
theory Sanitize
  imports Context_Window Safety
begin

text \<open>
  Tool result sanitising (\<open>src/src/utils/sanitize.rs\<close>): blobs are replaced by placeholders, long results are cut in the
  middle, and the byte budget of a result follows the space left in the context window. The two
  expressions are the entries \<open>base64_uri\<close> and \<open>hex_blob\<close> of the parameter \<open>rx\<close>.
\<close>

section \<open>Definitions\<close>

definition default_max_result_bytes :: nat where
  "default_max_result_bytes = 20480"

definition min_result_budget :: nat where
  "min_result_budget = 1024"

definition bytes_per_token :: nat where
  "bytes_per_token = 4"

definition truncation_head_bytes :: nat where
  "truncation_head_bytes = 10240"

definition truncation_tail_bytes :: nat where
  "truncation_tail_bytes = 2048"

definition take_prefix_charsafe :: "string \<Rightarrow> nat \<Rightarrow> string" where
  "take_prefix_charsafe s max_bytes = take (boundary_before s (min max_bytes (length s))) s"

definition take_suffix_charsafe :: "string \<Rightarrow> nat \<Rightarrow> string" where
  "take_suffix_charsafe s max_bytes =
     (if length s \<le> max_bytes then s else drop (boundary_after s (length s - max_bytes) max_bytes) s)"

definition strip_base64 :: "regexes \<Rightarrow> string \<Rightarrow> string" where
  "strip_base64 rx s =
     splice (\<lambda>m. ''[base64 data removed, '' @ show_nat (length m) @ '' bytes]'') 0 (rx ''base64_uri'' s) s"

definition strip_hex :: "regexes \<Rightarrow> string \<Rightarrow> string" where
  "strip_hex rx s =
     splice (\<lambda>m. ''[hex data removed, '' @ show_nat (length m) @ '' chars]'') 0 (rx ''hex_blob'' s) s"

definition result_tail :: "string \<Rightarrow> string \<Rightarrow> nat \<Rightarrow> string" where
  "result_tail out head max_bytes =
     (let tail_budget = min truncation_tail_bytes (max_bytes - length head)
      in if 0 < tail_budget \<and> length head < length out
         then let tail = take_suffix_charsafe out tail_budget
              in if length out < length head + length tail then [] else tail
         else [])"

definition sanitize_tool_result :: "regexes \<Rightarrow> string \<Rightarrow> nat \<Rightarrow> string" where
  "sanitize_tool_result rx result max_bytes =
     (let out = strip_hex rx (strip_base64 rx result)
      in if max_bytes < length out
         then let head = take_prefix_charsafe out (min truncation_head_bytes max_bytes);
                  tail = result_tail out head max_bytes;
                  truncated = length out - (length head + length tail)
              in if tail = [] then head @ truncation_mark truncated
                 else head @ truncation_mark truncated @ [CHR 0x0A] @ tail
         else out)"

definition compute_tool_result_budget_with_share :: "nat \<Rightarrow> nat \<Rightarrow> nat \<Rightarrow> nat \<Rightarrow> rat \<Rightarrow> nat" where
  "compute_tool_result_budget_with_share context_limit current_usage pending max_result_bytes share =
     (let remaining_bytes = wrap64 ((context_limit - current_usage) * bytes_per_token);
          per_result = remaining_bytes div max pending 1;
          share_cap_bytes = wrap64 (to_usize (of_nat context_limit * share) * bytes_per_token);
          max_budget = max (min (max max_result_bytes min_result_budget) share_cap_bytes) min_result_budget
      in min (max per_result min_result_budget) max_budget)"

definition compute_tool_result_budget :: "nat \<Rightarrow> nat \<Rightarrow> nat \<Rightarrow> nat \<Rightarrow> nat" where
  "compute_tool_result_budget context_limit current_usage pending max_result_bytes =
     compute_tool_result_budget_with_share context_limit current_usage pending max_result_bytes (1 / 2)"

section \<open>Lemmas\<close>

lemma take_prefix_charsafe_facts:
  "prefix (take_prefix_charsafe s n) s" "length (take_prefix_charsafe s n) \<le> n"
  using boundary_before_le [of s "min n (length s)"] by (auto simp: take_prefix_charsafe_def take_is_prefix)

lemma take_suffix_charsafe_facts:
  "suffix (take_suffix_charsafe s n) s" "length (take_suffix_charsafe s n) \<le> n"
  using boundary_after_bounds(1) [of "length s - n" s n] by (auto simp: take_suffix_charsafe_def suffix_drop)

lemma result_tail_facts:
  "suffix (result_tail out head n) out" "length (result_tail out head n) \<le> n - length head"
  "length (result_tail out head n) \<le> truncation_tail_bytes"
  "length head \<le> length out \<Longrightarrow> length head + length (result_tail out head n) \<le> length out"
  using take_suffix_charsafe_facts [of out "min truncation_tail_bytes (n - length head)"]
  by (auto simp: result_tail_def Let_def)

section \<open>Properties\<close>

text \<open>
  A sanitised result is the stripped text, or it is a beginning and an end of it, cut at
  characters and together within the limit, around a mark that says exactly how many bytes
  are missing.
\<close>

theorem sanitize_cuts_middle:
  "let out = strip_hex rx (strip_base64 rx result); res = sanitize_tool_result rx result n
   in length out \<le> n \<and> res = out
    \<or> n < length out \<and> (\<exists>head tail. prefix head out \<and> suffix tail out \<and> length head + length tail \<le> n
         \<and> length head \<le> truncation_head_bytes \<and> length tail \<le> truncation_tail_bytes
         \<and> res = head @ truncation_mark (length out - length head - length tail) @ (if tail = [] then [] else [CHR 0x0A]) @ tail)"
proof -
  let ?out = "strip_hex rx (strip_base64 rx result)"
  let ?head = "take_prefix_charsafe ?out (min truncation_head_bytes n)"
  let ?tail = "result_tail ?out ?head n"
  have h: "prefix ?head ?out" "length ?head \<le> truncation_head_bytes" "length ?head \<le> n"
    using take_prefix_charsafe_facts [of ?out "min truncation_head_bytes n"] by auto
  have t: "suffix ?tail ?out" "length ?tail \<le> truncation_tail_bytes" "length ?head + length ?tail \<le> n"
    using result_tail_facts(1,2,3) [of ?out ?head n] h(3) by auto
  show ?thesis
  proof (cases "n < length ?out")
    case True
    then have "sanitize_tool_result rx result n =
        ?head @ truncation_mark (length ?out - length ?head - length ?tail) @ (if ?tail = [] then [] else [CHR 0x0A]) @ ?tail"
      by (simp add: sanitize_tool_result_def Let_def)
    with True h t show ?thesis unfolding Let_def by blast
  next
    case False
    then show ?thesis by (simp add: sanitize_tool_result_def Let_def)
  qed
qed

text \<open>
  The budget of a tool result lies between the minimum and the configured maximum, and when it
  is above the minimum it is within the configured share of the window and all pending
  results together fit into the space that is left.
\<close>

theorem result_budget_bounds:
  assumes "b = compute_tool_result_budget_with_share limit usage pending max_bytes share"
    and "4 * limit \<le> u64_max" "0 \<le> share" "share \<le> 1"
  shows "min_result_budget \<le> b \<and> b \<le> max max_bytes min_result_budget
    \<and> (min_result_budget < b \<longrightarrow> of_nat b \<le> 4 * of_nat limit * share \<and> max pending 1 * b \<le> 4 * (limit - usage))"
proof -
  let ?k = "nat \<lfloor>of_nat limit * share\<rfloor>"
  have ls: "of_nat limit * share \<le> of_nat limit" using assms(3,4) by (simp add: mult_left_le)
  then have "?k \<le> limit" by (simp add: nat_le_iff floor_le_iff)
  then have k: "to_usize (of_nat limit * share) = ?k" "wrap64 (?k * 4) = ?k * 4"
    using assms(2) by (simp_all add: to_usize_def sat64_def wrap64_id min_def)
  have r: "wrap64 ((limit - usage) * 4) = (limit - usage) * 4" using assms(2) by (simp add: wrap64_id)
  have b: "b = min (max ((limit - usage) * 4 div max pending 1) min_result_budget)
      (max (min (max max_bytes min_result_budget) (?k * 4)) min_result_budget)"
    unfolding assms(1) compute_tool_result_budget_with_share_def Let_def bytes_per_token_def k r ..
  have fk: "(of_nat ?k :: rat) \<le> of_nat limit * share"
    using assms(3) by (simp add: of_nat_nat)
  show ?thesis
  proof (intro conjI impI)
    show "min_result_budget \<le> b" unfolding b by simp
    have "b \<le> max (min (max max_bytes min_result_budget) (?k * 4)) min_result_budget" unfolding b by (rule min.cobounded2)
    also have "\<dots> \<le> max max_bytes min_result_budget" by (simp add: min.coboundedI1)
    finally show "b \<le> max max_bytes min_result_budget" .
    assume big: "min_result_budget < b"
    have "b \<le> max ((limit - usage) * 4 div max pending 1) min_result_budget"
        "b \<le> max (min (max max_bytes min_result_budget) (?k * 4)) min_result_budget"
      unfolding b by (rule min.cobounded1, rule min.cobounded2)
    with big have "b \<le> ?k * 4" "b \<le> (limit - usage) * 4 div max pending 1"
      by (simp_all add: le_max_iff_disj del: max.absorb1 max.absorb2)
    from of_nat_mono [OF this(1), where 'a = rat] fk show "of_nat b \<le> 4 * of_nat limit * share" by simp
    have "max pending 1 * b \<le> max pending 1 * ((limit - usage) * 4 div max pending 1)"
      using \<open>b \<le> (limit - usage) * 4 div max pending 1\<close> by (rule mult_left_mono) simp
    also have "\<dots> \<le> 4 * (limit - usage)" by (metis mult.commute times_div_less_eq_dividend)
    finally show "max pending 1 * b \<le> 4 * (limit - usage)" .
  qed
qed

theorem result_budget_bounds_witness:
  "2 * compute_tool_result_budget_with_share 100000 98000 2 20480 (1 / 2) \<le> 8000
   \<and> min_result_budget < compute_tool_result_budget_with_share 100000 98000 2 20480 (1 / 2)"
proof -
  have "min_result_budget < compute_tool_result_budget_with_share 100000 98000 2 20480 (1 / 2)" by code_simp
  with result_budget_bounds [OF refl, of 100000 "1 / 2" 98000 2 20480] show ?thesis by (simp add: u64_max_def)
qed

end
