(* ===== verification/Agent_Loop.thy ===== *)
theory Agent_Loop
  imports Agent_Message Tool_Gate Sanitize Loop_Guard Agent_Budget Response_Cache Registry Provider_Api
begin

text \<open>
  The agent loop's handling of one message (\<open>src/src/agent/loop.rs\<close>, \<open>process_message\<close> and what it
  calls): injection scan, session, context recovery, cache, the provider call with its overflow
  retries, and the tool loop with its limits and guards.

  An agent is its configuration with the registered providers, tools and policies; the library
  record holds what is outside the repository or only renders text: JSON, regular expressions,
  digests, clocks, file access, the order in which concurrent tool calls run, and which tool calls run into
  their time limit. The state is the session in work (a local variable of the code), the session manager,
  the counters, the cache, the messages sent to the user and the gate's state with the world. A result
  \<open>None\<close> is a panic. Metrics, feedback to the terminal, status events and log lines are left out.
\<close>

section \<open>The agent\<close>

type_synonym 'w chat_provider = "(message list \<times> tool_definition list, 'w) llm_provider"

record ('v, 'w) agent =
  lp_compaction :: compaction_config
  lp_max_tool_result_bytes :: nat
  lp_max_tool_iterations :: nat
  lp_tool_timeout_secs :: nat
  lp_agent_timeout_secs :: nat
  lp_model :: string
  lp_loop_guard :: loop_guard_config
  lp_safety :: safety_config
  lp_tools :: "('v, 'w) tool_registry"
  lp_tool_defs :: "tool_definition list"
  lp_policy :: "'v admission"
  lp_provider :: "'w chat_provider option"
  lp_provider_registry :: "string \<rightharpoonup> 'w chat_provider"
  lp_system_message :: "string option \<Rightarrow> bool \<Rightarrow> message"
  lp_memory :: "string \<Rightarrow> string option"

record ('v, 'w) library =
  lib_json :: "'v json_api"
  lib_parse :: "string \<Rightarrow> 'v option"
  lib_parse_error :: "string \<Rightarrow> 'v"
  lib_rx :: regexes
  lib_say :: "content_warning \<Rightarrow> string"
  lib_floor :: "string \<Rightarrow> string \<Rightarrow> bool"
  lib_sha :: "string \<Rightarrow> string"
  lib_canon :: "string \<Rightarrow> string option"
  lib_digest :: "string \<Rightarrow> string"
  lib_base64 :: "string \<Rightarrow> string"
  lib_read_image :: "string \<Rightarrow> string option"
  lib_budget_summary :: "token_budget \<Rightarrow> string"
  lib_now :: "'w \<Rightarrow> nat"
  lib_readable :: "'w \<Rightarrow> bool"
  lib_write :: "'w \<Rightarrow> write_outcome"
  lib_rank :: "'w \<Rightarrow> nat \<Rightarrow> nat"
  lib_tool_times_out :: "string \<Rightarrow> 'v \<Rightarrow> 'w \<Rightarrow> 'w option"
  lib_flush_times_out :: "'w \<Rightarrow> 'w option"

record 'w agent_state =
  as_session :: session
  as_manager :: session_manager
  as_gate :: "'w gate_state"
  as_budget :: token_budget
  as_limit :: tool_call_limit
  as_cache :: "response_cache option"
  as_outbox :: "outbound_message list"

type_synonym ('a, 'w) outcome = "'a zresult option \<times> 'w agent_state"

abbreviation as_world :: "'w agent_state \<Rightarrow> 'w" where
  "as_world st \<equiv> gs_world (as_gate st)"

definition set_world :: "'w \<Rightarrow> 'w agent_state \<Rightarrow> 'w agent_state" where
  "set_world w st = st\<lparr>as_gate := (as_gate st)\<lparr>gs_world := w\<rparr>\<rparr>"

definition set_messages :: "message list \<Rightarrow> 'w agent_state \<Rightarrow> 'w agent_state" where
  "set_messages ms st = st\<lparr>as_session := (as_session st)\<lparr>messages := ms\<rparr>\<rparr>"

definition push_message :: "('v, 'w) library \<Rightarrow> message \<Rightarrow> 'w agent_state \<Rightarrow> 'w agent_state" where
  "push_message L m st = st\<lparr>as_session := add_message (lib_now L (as_world st)) m (as_session st)\<rparr>"

definition lp_monitor :: "('v, 'w) agent \<Rightarrow> context_monitor option" where
  "lp_monitor A = (if cc_enabled (lp_compaction A) then Some (monitor_from_config (lp_compaction A)) else None)"

definition lp_safety_layer :: "('v, 'w) library \<Rightarrow> ('v, 'w) agent \<Rightarrow> safety_layer option" where
  "lp_safety_layer L A =
     (if sc_enabled (lp_safety A) then Some (scan_impl (lib_rx L) (lib_say L) (lp_safety A)) else None)"

section \<open>Providers and messages\<close>

definition resolve_model_for_message :: "('v, 'w) agent \<Rightarrow> inbound_message \<Rightarrow> string" where
  "resolve_model_for_message A msg =
     (case im_metadata msg ''model_override'' of
        Some m \<Rightarrow> if m \<noteq> [] then m else lp_model A
      | None \<Rightarrow> lp_model A)"

definition non_empty :: "string option \<Rightarrow> string option" where
  "non_empty v = (case v of Some [] \<Rightarrow> None | _ \<Rightarrow> v)"

definition resolve_provider_for_message :: "('v, 'w) agent \<Rightarrow> inbound_message \<Rightarrow> 'w chat_provider option" where
  "resolve_provider_for_message A msg =
     (case Option.bind (non_empty (im_metadata msg ''provider_override'')) (lp_provider_registry A) of
        Some p \<Rightarrow> Some p
      | None \<Rightarrow>
          (case Option.bind (Option.bind (non_empty (im_metadata msg ''model_override'')) provider_name_for_model)
                  (lp_provider_registry A) of
             Some p \<Rightarrow> Some p
           | None \<Rightarrow> lp_provider A))"

definition build_resolved_messages ::
    "('v, 'w) library \<Rightarrow> ('v, 'w) agent \<Rightarrow> inbound_message \<Rightarrow> string option \<Rightarrow> 'w agent_state \<Rightarrow> message list" where
  "build_resolved_messages L A msg memory st =
     (let ms = lp_system_message A memory (supports_custom_ui_channel (im_channel msg)) # messages (as_session st);
          resolved = (if sm_disk (as_manager st) = None then ms
                      else map (resolve_images_to_base64 (lib_read_image L)) ms)
      in filter sendable resolved)"

definition call_provider ::
    "'w chat_provider \<Rightarrow> string \<Rightarrow> message list \<Rightarrow> tool_definition list \<Rightarrow> 'w agent_state \<Rightarrow> (llm_response, 'w) outcome" where
  "call_provider P model ms tds st =
     (case chat P (ms, tds) (Some model) (as_world st) of
        None \<Rightarrow> (None, st)
      | Some (r, w) \<Rightarrow> (Some r, set_world w st))"

section \<open>Context recovery\<close>

definition recover :: "('v, 'w) agent \<Rightarrow> compaction_urgency \<Rightarrow> nat \<Rightarrow> 'w agent_state \<Rightarrow> 'w agent_state option" where
  "recover A u keep st =
     (case try_recover_context_with_urgency (cc_context_limit (lp_compaction A)) u keep (lp_max_tool_result_bytes A)
             (cc_safety_margin (lp_compaction A)) (messages (as_session st)) of
        None \<Rightarrow> None
      | Some (ms, tier) \<Rightarrow> Some (set_messages ms st))"

fun is_context_overflow :: "zepto_error \<Rightarrow> bool" where
  "is_context_overflow (ProviderTyped (PE_ContextOverflow _)) = True"
| "is_context_overflow _ = False"

definition overflow_retry_urgency :: "nat \<Rightarrow> compaction_urgency" where
  "overflow_retry_urgency attempt =
     (if attempt = 0 then Normal_Urgency else if attempt = 1 then Emergency else Critical)"

text \<open>The call with overflow retries; \<open>left\<close> is what remains of \<open>overflow_retries\<close>.\<close>

fun chat_recovering ::
    "('v, 'w) library \<Rightarrow> ('v, 'w) agent \<Rightarrow> 'w chat_provider \<Rightarrow> string \<Rightarrow> inbound_message \<Rightarrow> string option \<Rightarrow> nat
       \<Rightarrow> tool_definition list \<Rightarrow> nat \<Rightarrow> nat \<Rightarrow> message list \<Rightarrow> 'w agent_state \<Rightarrow> (llm_response, 'w) outcome" where
  "chat_recovering L A P model msg memory keep tds attempt 0 ms st = call_provider P model ms tds st"
| "chat_recovering L A P model msg memory keep tds attempt (Suc left) ms st =
     (case call_provider P model ms tds st of
        (Some (Inl e), st1) \<Rightarrow>
          if \<not> is_context_overflow e \<or> lp_monitor A = None then (Some (Inl e), st1)
          else (case recover A (overflow_retry_urgency attempt) keep st1 of
                  None \<Rightarrow> (None, st1)
                | Some st2 \<Rightarrow>
                    chat_recovering L A P model msg memory keep tds (Suc attempt) left
                      (build_resolved_messages L A msg memory st2) st2)
      | r \<Rightarrow> r)"

text \<open>The pre-flight guard before a call; only the guard of an ordinary call writes trimmed results back.\<close>

definition guard_context ::
    "('v, 'w) library \<Rightarrow> ('v, 'w) agent \<Rightarrow> inbound_message \<Rightarrow> string option \<Rightarrow> bool \<Rightarrow> tool_definition list
       \<Rightarrow> 'w agent_state \<Rightarrow> (message list \<times> 'w agent_state) option" where
  "guard_context L A msg memory sync tds st =
     (let ms = build_resolved_messages L A msg memory st
      in case lp_monitor A of
           None \<Rightarrow> Some (ms, st)
         | Some m \<Rightarrow>
             (case preflight_check m tds ms of
                (Preflight_Ok, ms') \<Rightarrow> Some (ms', st)
              | (Trimmed, ms') \<Rightarrow>
                  Some (ms', if sync then set_messages (sync_trimmed_tool_results (messages (as_session st)) ms') st else st)
              | (NeedsCompaction, ms') \<Rightarrow>
                  map_option (\<lambda>st'. (build_resolved_messages L A msg memory st', st')) (recover A Emergency 5 st)))"

text \<open>One guarded call: the guard, then the provider with its retries.\<close>

definition guarded_chat ::
    "('v, 'w) library \<Rightarrow> ('v, 'w) agent \<Rightarrow> 'w chat_provider \<Rightarrow> string \<Rightarrow> inbound_message \<Rightarrow> string option \<Rightarrow> bool
       \<Rightarrow> nat \<Rightarrow> tool_definition list \<Rightarrow> 'w agent_state \<Rightarrow> (llm_response, 'w) outcome" where
  "guarded_chat L A P model msg memory sync keep tds st =
     (case guard_context L A msg memory sync tds st of
        None \<Rightarrow> (None, st)
      | Some (ms, st1) \<Rightarrow>
          chat_recovering L A P model msg memory keep tds 0 (cc_overflow_retries (lp_compaction A)) ms st1)"

definition record_response :: "llm_response \<Rightarrow> 'w agent_state \<Rightarrow> 'w agent_state" where
  "record_response r st =
     (case resp_usage r of
        None \<Rightarrow> st
      | Some u \<Rightarrow>
          st\<lparr>as_budget := budget_record (word_of_nat (prompt_tokens u)) (word_of_nat (completion_tokens u)) (as_budget st)\<rparr>)"

section \<open>Memory flush\<close>

definition memory_flush_prompt :: string where
  "memory_flush_prompt =
     ''Review the conversation above. Save any important facts, decisions, user preferences, or learnings ''
     @ ''to long-term memory using the longterm_memory tool. Also review existing memories for duplicates ''
     @ [CHR 0xE2, CHR 0x80, CHR 0x94]
     @ '' merge or delete stale entries. Be selective: only save what would be useful in future conversations.''"

fun flush_calls :: "('v, 'w) library \<Rightarrow> ('v, 'w) agent \<Rightarrow> llm_tool_call list \<Rightarrow> 'w agent_state \<Rightarrow> unit option \<times> 'w agent_state" where
  "flush_calls L A [] st = (Some (), st)"
| "flush_calls L A (tc # tcs) st =
     (case lib_parse L (ltc_arguments tc) of
        None \<Rightarrow> flush_calls L A tcs st
      | Some args \<Rightarrow>
          (case execute_with_context (lp_tools A) (ltc_name tc) args \<lparr>tctx_channel = None, tctx_chat_id = None\<rparr> (as_world st) of
             (None, w) \<Rightarrow> (None, set_world w st)
           | (Some _, w) \<Rightarrow> flush_calls L A tcs (set_world w st)))"

definition memory_flush :: "('v, 'w) library \<Rightarrow> ('v, 'w) agent \<Rightarrow> 'w agent_state \<Rightarrow> unit option \<times> 'w agent_state" where
  "memory_flush L A st =
     (case lp_provider A of
        None \<Rightarrow> (Some (), st)
      | Some P \<Rightarrow>
          let defs = filter (\<lambda>d. td_name d = ''longterm_memory'') (lp_tool_defs A);
              ms = msg_system ''You are a memory management assistant.'' # messages (as_session st)
                     @ [msg_user memory_flush_prompt]
          in if defs = [] then (Some (), st)
             else case lib_flush_times_out L (as_world st) of
                    Some w \<Rightarrow> (Some (), set_world w st)
                  | None \<Rightarrow>
                      (case call_provider P (lp_model A) ms defs st of
                         (None, st1) \<Rightarrow> (None, st1)
                       | (Some (Inl e), st1) \<Rightarrow> (Some (), st1)
                       | (Some (Inr r), st1) \<Rightarrow> flush_calls L A (resp_tool_calls r) st1))"

section \<open>One tool call\<close>

definition tool_timeout_secs :: "('v, 'w) agent \<Rightarrow> nat" where
  "tool_timeout_secs A =
     max 1 (if 0 < lp_tool_timeout_secs A then lp_tool_timeout_secs A else lp_agent_timeout_secs A)"

definition admission_for :: "('v, 'w) agent \<Rightarrow> inbound_message \<Rightarrow> 'v admission" where
  "admission_for A msg =
     (lp_policy A)\<lparr>ad_channel := Some (im_channel msg), ad_chat_id := Some (im_chat_id msg),
        ad_trusted := is_trusted_local_session (im_channel msg) (im_metadata msg)\<rparr>"

definition call_arguments :: "('v, 'w) library \<Rightarrow> string \<Rightarrow> 'v" where
  "call_arguments L raw = (case lib_parse L raw of Some v \<Rightarrow> v | None \<Rightarrow> lib_parse_error L raw)"

definition dry_run_result :: "('v, 'w) library \<Rightarrow> string \<Rightarrow> 'v \<Rightarrow> nat \<Rightarrow> string" where
  "dry_run_result L name args budget =
     ''[DRY RUN] Would execute tool '' @ quoted name @ '' with arguments: ''
     @ sanitize_tool_result (lib_rx L) (js_pretty (lib_json L) args) budget"

definition user_message :: "inbound_message \<Rightarrow> string \<Rightarrow> outbound_message" where
  "user_message msg text =
     (let out = outbound_new (im_channel msg) (im_chat_id msg) text;
          out = fold (\<lambda>k out. case im_metadata msg k of
                        Some v \<Rightarrow> out\<lparr>om_metadata := (om_metadata out)(k \<mapsto> v)\<rparr> | None \<Rightarrow> out)
                  [''telegram_thread_id'', ''telegram_message_id''] out
      in out\<lparr>om_metadata := (om_metadata out)(''keep_typing'' \<mapsto> ''true'')\<rparr>)"

text \<open>
  The admitted call: the gate, or the time limit, whichever comes first. The result is the text
  for the model and the tool's output, if there is one.
\<close>

definition perform_call ::
    "('v, 'w) library \<Rightarrow> ('v, 'w) agent \<Rightarrow> inbound_message \<Rightarrow> string \<Rightarrow> 'v \<Rightarrow> 'w agent_state
       \<Rightarrow> (string \<times> tool_output option) \<times> 'w agent_state" where
  "perform_call L A msg name args st =
     (case lib_tool_times_out L name args (as_world st) of
        Some w \<Rightarrow>
          ((''Error: Tool '' @ quoted name @ '' timed out after '' @ show_nat (tool_timeout_secs A) @ ''s'', None),
           set_world w st)
      | None \<Rightarrow>
          (case execute_tool (lib_json L) (lp_tools A) (lp_safety_layer L A) name args
                  \<lparr>tctx_channel = Some (im_channel msg), tctx_chat_id = Some (im_chat_id msg)\<rparr> (as_gate st) of
             (r, g) \<Rightarrow>
               ((case r of
                   None \<Rightarrow> (''Error: Tool '' @ quoted name @ '' panicked during execution'', None)
                 | Some (Inl e) \<Rightarrow> (''Error: '' @ zepto_error_display e, None)
                 | Some (Inr out) \<Rightarrow> (for_llm out, Some out)),
                st\<lparr>as_gate := g\<rparr>)))"

definition run_tool_call ::
    "('v, 'w) library \<Rightarrow> ('v, 'w) agent \<Rightarrow> inbound_message \<Rightarrow> nat \<Rightarrow> llm_tool_call \<Rightarrow> 'w agent_state
       \<Rightarrow> (string \<times> string \<times> bool) \<times> 'w agent_state" where
  "run_tool_call L A msg budget tc st =
     (let name = ltc_name tc; args = call_arguments L (ltc_arguments tc)
      in case admit_tool (lib_floor L) (lib_json L) (lib_now L (as_world st)) (admission_for A msg) name args of
           Refuse m \<Rightarrow> ((ltc_id tc, m, False), st)
         | DescribeOnly \<Rightarrow> ((ltc_id tc, dry_run_result L name args budget, False), st)
         | Run \<Rightarrow>
             (case perform_call L A msg name args st of
                ((result, out), st1) \<Rightarrow>
                  ((ltc_id tc, sanitize_tool_result (lib_rx L) result budget,
                    case out of Some o' \<Rightarrow> pause_for_input o' | None \<Rightarrow> False),
                   case Option.bind out for_user of
                     Some text \<Rightarrow> st1\<lparr>as_outbox := as_outbox st1 @ [user_message msg text]\<rparr>
                   | None \<Rightarrow> st1)))"

section \<open>A batch of calls\<close>

definition needs_sequential_execution :: "('v, 'w) agent \<Rightarrow> llm_tool_call list \<Rightarrow> bool" where
  "needs_sequential_execution A calls =
     list_ex (\<lambda>tc. case ad_category (lp_policy A) (ltc_name tc) of
                     Some cat \<Rightarrow> cat = FilesystemWrite \<or> cat = Shell
                   | None \<Rightarrow> True) calls"

definition run_sequential :: "('v, 'w) agent \<Rightarrow> inbound_message \<Rightarrow> llm_tool_call list \<Rightarrow> bool" where
  "run_sequential A msg calls \<longleftrightarrow>
     (\<not> is_trusted_local_session (im_channel msg) (im_metadata msg) \<and> ad_handler (lp_policy A) \<noteq> None
        \<and> list_ex (\<lambda>tc. requires_approval (ad_gate (lp_policy A)) (ltc_name tc)) calls)
     \<or> needs_sequential_execution A calls"

text \<open>
  Concurrent calls run in an order the scheduler chooses, given by a rank of the positions; the
  results are in the order of the calls either way.
\<close>

definition batch_order :: "('v, 'w) library \<Rightarrow> ('v, 'w) agent \<Rightarrow> inbound_message \<Rightarrow> llm_tool_call list \<Rightarrow> 'w agent_state \<Rightarrow> nat list" where
  "batch_order L A msg calls st =
     (if run_sequential A msg calls then [0..<length calls]
      else sort_key (lib_rank L (as_world st)) [0..<length calls])"

fun run_order ::
    "('v, 'w) library \<Rightarrow> ('v, 'w) agent \<Rightarrow> inbound_message \<Rightarrow> nat \<Rightarrow> llm_tool_call list \<Rightarrow> nat list
       \<Rightarrow> (nat \<rightharpoonup> string \<times> string \<times> bool) \<Rightarrow> 'w agent_state \<Rightarrow> (nat \<rightharpoonup> string \<times> string \<times> bool) \<times> 'w agent_state" where
  "run_order L A msg budget calls [] done st = (done, st)"
| "run_order L A msg budget calls (i # is) done st =
     (case run_tool_call L A msg budget (calls ! i) st of
        (r, st1) \<Rightarrow> run_order L A msg budget calls is (done(i \<mapsto> r)) st1)"

definition run_batch ::
    "('v, 'w) library \<Rightarrow> ('v, 'w) agent \<Rightarrow> inbound_message \<Rightarrow> llm_tool_call list \<Rightarrow> 'w agent_state
       \<Rightarrow> (string \<times> string \<times> bool) list \<times> 'w agent_state" where
  "run_batch L A msg calls st =
     (let c = lp_compaction A;
          current = estimate_tokens_with_margin (messages (as_session st)) (cc_safety_margin c);
          budget = compute_tool_result_budget_with_share (cc_context_limit c) current (length calls)
                     (lp_max_tool_result_bytes A) (cc_single_tool_result_share c)
      in case run_order L A msg budget calls (batch_order L A msg calls st) Map.empty st of
           (done, st1) \<Rightarrow> (map (\<lambda>i. the (done i)) [0..<length calls], st1))"

section \<open>The loop guard\<close>

definition delay_hint :: "nat option \<Rightarrow> string" where
  "delay_hint d = (case d of Some ms \<Rightarrow> '' (suggested delay: '' @ show_nat ms @ ''ms)'' | None \<Rightarrow> [])"

definition guard_note :: "loop_guard_action \<Rightarrow> string option" where
  "guard_note a =
     (case a of
        Allow \<Rightarrow> None
      | Warn reason d \<Rightarrow> Some (''[LoopGuard] '' @ reason @ delay_hint d @ ''.'')
      | Block reason \<Rightarrow> Some (''[LoopGuard] blocked: '' @ reason @ ''.'')
      | CircuitBreak n \<Rightarrow> Some (''[LoopGuard] circuit breaker tripped ('' @ show_nat n @ '' total repetitions).''))"

definition guard_stops :: "loop_guard_action \<Rightarrow> bool" where
  "guard_stops a = (case a of Block _ \<Rightarrow> True | CircuitBreak _ \<Rightarrow> True | _ \<Rightarrow> False)"

definition note_guard :: "('v, 'w) library \<Rightarrow> loop_guard_action \<Rightarrow> 'w agent_state \<Rightarrow> 'w agent_state" where
  "note_guard L a st = (case guard_note a of Some t \<Rightarrow> push_message L (msg_system t) st | None \<Rightarrow> st)"

definition check_loop_guard ::
    "('v, 'w) library \<Rightarrow> llm_tool_call list \<Rightarrow> loop_guard \<Rightarrow> 'w agent_state \<Rightarrow> bool \<times> loop_guard \<times> 'w agent_state" where
  "check_loop_guard L calls g st =
     (case loop_check (lib_sha L) (lib_canon L)
             (map (\<lambda>tc. \<lparr>sig_name = ltc_name tc, sig_arguments = ltc_arguments tc\<rparr>) calls) g of
        (a, g') \<Rightarrow> (guard_stops a, g', note_guard L a st))"

text \<open>The last call with the identifier is the one the lookup table holds.\<close>

fun check_loop_guard_outcomes ::
    "('v, 'w) library \<Rightarrow> llm_tool_call list \<Rightarrow> (string \<times> string) list \<Rightarrow> loop_guard \<Rightarrow> 'w agent_state
       \<Rightarrow> bool \<times> loop_guard \<times> 'w agent_state" where
  "check_loop_guard_outcomes L calls [] g st = (False, g, st)"
| "check_loop_guard_outcomes L calls ((cid, result) # rest) g st =
     (case find (\<lambda>tc. ltc_id tc = cid) (rev calls) of
        None \<Rightarrow> check_loop_guard_outcomes L calls rest g st
      | Some tc \<Rightarrow>
          (case record_outcome (lib_sha L) (lib_canon L) (ltc_name tc) (ltc_arguments tc) (truncate_utf8 result 1000) g of
             (None, g') \<Rightarrow> check_loop_guard_outcomes L calls rest g' st
           | (Some a, g') \<Rightarrow>
               if guard_stops a then (True, g', note_guard L a st)
               else check_loop_guard_outcomes L calls rest g' (note_guard L a st)))"

text \<open>Both checks of an iteration: the text that ends the loop, if one of them stops it.\<close>

definition guard_step ::
    "('v, 'w) library \<Rightarrow> llm_tool_call list \<Rightarrow> (string \<times> string) list \<Rightarrow> loop_guard option \<Rightarrow> 'w agent_state
       \<Rightarrow> string option \<times> loop_guard option \<times> 'w agent_state" where
  "guard_step L calls results guard st =
     (case guard of
        None \<Rightarrow> (None, None, st)
      | Some g \<Rightarrow>
          (case check_loop_guard L calls g st of
             (True, g1, st1) \<Rightarrow> (Some ''Stopped tool loop due to repeated tool-call pattern.'', Some g1, st1)
           | (False, g1, st1) \<Rightarrow>
               (case check_loop_guard_outcomes L calls results g1 st1 of
                  (True, g2, st2) \<Rightarrow> (Some ''Stopped tool loop due to repeated identical outcomes.'', Some g2, st2)
                | (False, g2, st2) \<Rightarrow> (None, Some g2, st2))))"

section \<open>The tool loop\<close>

text \<open>The batch cut to what the limit leaves, and the assistant message that records it.\<close>

definition allowed_calls :: "tool_call_limit \<Rightarrow> llm_tool_call list \<Rightarrow> llm_tool_call list" where
  "allowed_calls t calls = (case tracker_remaining t of Some m \<Rightarrow> take (unat m) calls | None \<Rightarrow> calls)"

definition calls_message :: "string \<Rightarrow> llm_tool_call list \<Rightarrow> message" where
  "calls_message text calls =
     (msg_assistant text)\<lparr>tool_calls :=
        Some (map (\<lambda>tc. \<lparr>tc_id = ltc_id tc, tc_name = ltc_name tc, tc_arguments = ltc_arguments tc\<rparr>) calls)\<rparr>"

definition push_results :: "('v, 'w) library \<Rightarrow> (string \<times> string \<times> bool) list \<Rightarrow> 'w agent_state \<Rightarrow> 'w agent_state" where
  "push_results L results st = fold (\<lambda>(cid, text, _). push_message L (msg_tool_result cid text)) results st"

text \<open>Compaction when the monitor asks for it.\<close>

definition compact_if_urgent :: "('v, 'w) agent \<Rightarrow> 'w agent_state \<Rightarrow> 'w agent_state option" where
  "compact_if_urgent A st =
     (case Option.bind (lp_monitor A) (\<lambda>m. urgency m (messages (as_session st))) of
        None \<Rightarrow> Some st
      | Some u \<Rightarrow> recover A u 8 st)"

text \<open>The part of an iteration that runs the calls; \<open>None\<close> is a panic, the flag says a tool asked for input.\<close>

definition run_calls_of ::
    "('v, 'w) library \<Rightarrow> ('v, 'w) agent \<Rightarrow> inbound_message \<Rightarrow> llm_response \<Rightarrow> 'w agent_state
       \<Rightarrow> llm_tool_call list \<times> (string \<times> string \<times> bool) list \<times> 'w agent_state" where
  "run_calls_of L A msg r st =
     (let calls = allowed_calls (as_limit st) (resp_tool_calls r)
      in case run_batch L A msg calls (push_message L (calls_message (resp_content r) calls) st) of
           (results, st1) \<Rightarrow> (calls, results, push_results L results st1))"

text \<open>The call without tools once the limit is reached.\<close>

definition synthesis ::
    "('v, 'w) library \<Rightarrow> ('v, 'w) agent \<Rightarrow> 'w chat_provider \<Rightarrow> string \<Rightarrow> inbound_message \<Rightarrow> string option
       \<Rightarrow> 'w agent_state \<Rightarrow> (string, 'w) outcome" where
  "synthesis L A P model msg memory st =
     (if budget_is_exceeded (as_budget st) then (Some (Inr ''Tool call limit reached. Token budget exceeded.''), st)
      else case guarded_chat L A P model msg memory False 5 [] st of
             (Some (Inr r), st1) \<Rightarrow> (Some (Inr (resp_content r)), record_response r st1)
           | (Some (Inl e), st1) \<Rightarrow> (Some (Inl e), st1)
           | (None, st1) \<Rightarrow> (None, st1))"

datatype step_end = Finish "string zresult option" | Continue llm_response "loop_guard option"

text \<open>The rest of an iteration, after the calls ran and the context was compacted.\<close>

definition next_response ::
    "('v, 'w) library \<Rightarrow> ('v, 'w) agent \<Rightarrow> 'w chat_provider \<Rightarrow> string \<Rightarrow> inbound_message \<Rightarrow> string option
       \<Rightarrow> llm_response \<Rightarrow> llm_tool_call list \<Rightarrow> (string \<times> string) list \<Rightarrow> loop_guard option \<Rightarrow> 'w agent_state
       \<Rightarrow> step_end \<times> 'w agent_state" where
  "next_response L A P model msg memory r calls results g st =
     (case guard_step L calls results g st of
        (Some text, g1, st1) \<Rightarrow> (Finish (Some (Inr text)), st1)
      | (None, g1, st1) \<Rightarrow>
          if budget_is_exceeded (as_budget st1) then (Finish (Some (Inr (resp_content r))), st1)
          else (case guarded_chat L A P model msg memory True 8 (lp_tool_defs A) st1 of
                  (Some (Inr r'), st2) \<Rightarrow> (Continue r' g1, record_response r' st2)
                | (Some (Inl e), st2) \<Rightarrow> (Finish (Some (Inl e)), st2)
                | (None, st2) \<Rightarrow> (Finish None, st2)))"

definition tool_step ::
    "('v, 'w) library \<Rightarrow> ('v, 'w) agent \<Rightarrow> 'w chat_provider \<Rightarrow> string \<Rightarrow> inbound_message \<Rightarrow> string option
       \<Rightarrow> llm_response \<Rightarrow> loop_guard option \<Rightarrow> 'w agent_state \<Rightarrow> step_end \<times> 'w agent_state" where
  "tool_step L A P model msg memory r g st =
     (case run_calls_of L A msg r st of
        (calls, results, st1) \<Rightarrow>
          (case compact_if_urgent A st1 of
             None \<Rightarrow> (Finish None, st1)
           | Some st2 \<Rightarrow>
               if list_ex (\<lambda>(_, _, pause). pause) results then (Finish (Some (Inr (resp_content r))), st2)
               else let st3 = st2\<lparr>as_limit := tracker_increment (word_of_nat (length calls)) (as_limit st2)\<rparr>
                    in if tracker_is_exceeded (as_limit st3)
                       then (case synthesis L A P model msg memory st3 of (x, st4) \<Rightarrow> (Finish x, st4))
                       else next_response L A P model msg memory r calls (map (\<lambda>(i, t, _). (i, t)) results) g st3))"

text \<open>The argument counts the iterations that are left.\<close>

fun tool_loop ::
    "('v, 'w) library \<Rightarrow> ('v, 'w) agent \<Rightarrow> 'w chat_provider \<Rightarrow> string \<Rightarrow> inbound_message \<Rightarrow> string option
       \<Rightarrow> nat \<Rightarrow> llm_response \<Rightarrow> loop_guard option \<Rightarrow> 'w agent_state \<Rightarrow> (string, 'w) outcome" where
  "tool_loop L A P model msg memory 0 r g st = (Some (Inr (resp_content r)), st)"
| "tool_loop L A P model msg memory (Suc n) r g st =
     (if resp_tool_calls r = [] \<or> tracker_is_exceeded (as_limit st) then (Some (Inr (resp_content r)), st)
      else case tool_step L A P model msg memory r g st of
             (Finish x, st1) \<Rightarrow> (x, st1)
           | (Continue r' g', st1) \<Rightarrow> tool_loop L A P model msg memory n r' g' st1)"

section \<open>One message\<close>

definition injection_blocked :: "('v, 'w) library \<Rightarrow> ('v, 'w) agent \<Rightarrow> inbound_message \<Rightarrow> bool" where
  "injection_blocked L A msg \<longleftrightarrow>
     sc_enabled (lp_safety A) \<and> sc_injection_check_enabled (lp_safety A)
     \<and> so_was_modified (check_injection (lib_rx L) (content (inbound_to_message (lib_base64 L) msg)))
     \<and> im_channel msg = ''webhook''"

definition finish_turn :: "('v, 'w) library \<Rightarrow> string \<Rightarrow> 'w agent_state \<Rightarrow> (string, 'w) outcome" where
  "finish_turn L text st =
     (let st1 = push_message L (msg_assistant text) st
      in case sm_save (lib_write L (as_world st1)) (as_session st1) (as_manager st1) of
           (Inl e, m) \<Rightarrow> (Some (Inl e), st1\<lparr>as_manager := m\<rparr>)
         | (Inr _, m) \<Rightarrow> (Some (Inr text), st1\<lparr>as_manager := m\<rparr>))"

definition turn_cache_key :: "('v, 'w) library \<Rightarrow> ('v, 'w) agent \<Rightarrow> message list \<Rightarrow> string \<Rightarrow> string" where
  "turn_cache_key L A ms prompt =
     cache_key (lib_digest L) (lp_model A)
       (case ms of m # _ \<Rightarrow> if msg_role m = RSystem then content m else [] | [] \<Rightarrow> []) prompt"

definition lookup_cache :: "('v, 'w) library \<Rightarrow> string \<Rightarrow> 'w agent_state \<Rightarrow> string option \<times> 'w agent_state" where
  "lookup_cache L k st =
     (case as_cache st of
        None \<Rightarrow> (None, st)
      | Some c \<Rightarrow> (case cache_get (lib_now L (as_world st)) k c of (hit, c') \<Rightarrow> (hit, st\<lparr>as_cache := Some c'\<rparr>)))"

definition store_cache :: "('v, 'w) library \<Rightarrow> string \<Rightarrow> llm_response \<Rightarrow> 'w agent_state \<Rightarrow> 'w agent_state" where
  "store_cache L k r st =
     (if resp_tool_calls r \<noteq> [] then st
      else st\<lparr>as_cache := map_option
        (cache_put (lib_now L (as_world st)) k (resp_content r)
           (case resp_usage r of Some u \<Rightarrow> completion_tokens u | None \<Rightarrow> 0)) (as_cache st)\<rparr>)"

text \<open>The first call of a turn and everything that follows from its response.\<close>

definition answer ::
    "('v, 'w) library \<Rightarrow> ('v, 'w) agent \<Rightarrow> 'w chat_provider \<Rightarrow> inbound_message \<Rightarrow> string option \<Rightarrow> string
       \<Rightarrow> message list \<Rightarrow> 'w agent_state \<Rightarrow> (string, 'w) outcome" where
  "answer L A P msg memory k ms st =
     (let model = resolve_model_for_message A msg
      in case chat_recovering L A P model msg memory 8 (lp_tool_defs A) 0 (cc_overflow_retries (lp_compaction A)) ms st of
           (Some (Inr r), st1) \<Rightarrow>
             (case tool_loop L A P model msg memory (lp_max_tool_iterations A) r
                     (if enabled (lp_loop_guard A) then Some (loop_guard_new (lp_loop_guard A)) else None)
                     (store_cache L k r (record_response r st1)) of
                (Some (Inr text), st2) \<Rightarrow> finish_turn L text st2
              | e \<Rightarrow> e)
         | (Some (Inl e), st1) \<Rightarrow> (Some (Inl e), st1)
         | (None, st1) \<Rightarrow> (None, st1))"

text \<open>A turn on the loaded session, up to the first call.\<close>

definition prepare ::
    "('v, 'w) library \<Rightarrow> ('v, 'w) agent \<Rightarrow> 'w agent_state \<Rightarrow> unit option \<times> 'w agent_state" where
  "prepare L A st =
     (case Option.bind (lp_monitor A) (\<lambda>m. urgency m (messages (as_session st))) of
        None \<Rightarrow> (Some (), st)
      | Some u \<Rightarrow>
          (case (if u = Normal_Urgency then memory_flush L A st else (Some (), st)) of
             (None, st1) \<Rightarrow> (None, st1)
           | (Some _, st1) \<Rightarrow> (case recover A u 8 st1 of None \<Rightarrow> (None, st1) | Some st2 \<Rightarrow> (Some (), st2))))"

definition run_turn ::
    "('v, 'w) library \<Rightarrow> ('v, 'w) agent \<Rightarrow> 'w chat_provider \<Rightarrow> inbound_message \<Rightarrow> 'w agent_state \<Rightarrow> (string, 'w) outcome" where
  "run_turn L A P msg st =
     (let user = inbound_to_message (lib_base64 L) msg; memory = lp_memory A (content user)
      in case prepare L A (push_message L user st) of
           (None, st1) \<Rightarrow> (None, st1)
         | (Some _, st1) \<Rightarrow>
             (case guard_context L A msg memory True (lp_tool_defs A) st1 of
                None \<Rightarrow> (None, st1)
              | Some (ms, st2) \<Rightarrow>
                  if budget_is_exceeded (as_budget st2)
                  then (Some (Inl (Provider (''Token budget exceeded: '' @ lib_budget_summary L (as_budget st2)))), st2)
                  else let k = turn_cache_key L A ms (content user)
                       in case lookup_cache L k st2 of
                            (Some hit, st3) \<Rightarrow> finish_turn L hit st3
                          | (None, st3) \<Rightarrow> answer L A P msg memory k ms st3))"

definition process_message ::
    "('v, 'w) library \<Rightarrow> ('v, 'w) agent \<Rightarrow> inbound_message \<Rightarrow> 'w agent_state \<Rightarrow> (string, 'w) outcome" where
  "process_message L A msg st =
     (let st0 = st\<lparr>as_limit := tracker_reset (as_limit st), as_budget := budget_reset (as_budget st)\<rparr>
      in if injection_blocked L A msg
         then (Some (Inl (Tool ''Message rejected: potential prompt injection detected'')), st0)
         else case resolve_provider_for_message A msg of
                None \<Rightarrow> (Some (Inl (Provider ''No provider configured'')), st0)
              | Some P \<Rightarrow>
                  (case get_or_create (lib_readable L (as_world st0)) (lib_now L (as_world st0)) (im_session_key msg)
                          (as_manager st0) of
                     (Inl e, m) \<Rightarrow> (Some (Inl e), st0\<lparr>as_manager := m\<rparr>)
                   | (Inr s, m) \<Rightarrow> run_turn L A P msg (st0\<lparr>as_manager := m, as_session := s\<rparr>)))"

section \<open>What the parts of a turn leave alone\<close>

text \<open>
  Calling the provider, compacting and noting the loop guard's findings change the session's messages
  and the world; the rest of the state is the view that stays.
\<close>

definition calm_view :: "'w agent_state \<Rightarrow>
    audit_event list \<times> (string \<times> bool) list \<times> outbound_message list \<times> session_manager \<times> tool_call_limit \<times> string" where
  "calm_view st =
     (gs_audit (as_gate st), gs_metrics (as_gate st), as_outbox st, as_manager st, as_limit st, key (as_session st))"

lemma calm_set_world [simp]: "calm_view (set_world w st) = calm_view st"
  by (simp add: calm_view_def set_world_def)

lemma calm_set_messages [simp]: "calm_view (set_messages ms st) = calm_view st"
  by (simp add: calm_view_def set_messages_def)

lemma calm_push_message [simp]: "calm_view (push_message L m st) = calm_view st"
  by (simp add: calm_view_def push_message_def add_message_def)

lemma calm_record_response [simp]: "calm_view (record_response r st) = calm_view st"
  by (simp add: calm_view_def record_response_def split: option.splits)

lemma calm_store_cache [simp]: "calm_view (store_cache L k r st) = calm_view st"
  by (simp add: calm_view_def store_cache_def)

lemma calm_push_results [simp]: "calm_view (push_results L rs st) = calm_view st"
  unfolding push_results_def by (induction rs arbitrary: st) (auto split: prod.splits)

lemma calm_call_provider: "call_provider P model ms tds st = (r, st') \<Longrightarrow> calm_view st' = calm_view st"
  by (auto simp: call_provider_def split: option.splits prod.splits)

lemma calm_recover: "recover A u keep st = Some st' \<Longrightarrow> calm_view st' = calm_view st"
  by (auto simp: recover_def split: option.splits)

lemma calm_chat_recovering:
  "chat_recovering L A P model msg memory keep tds attempt n ms st = (r, st') \<Longrightarrow> calm_view st' = calm_view st"
proof (induction n arbitrary: attempt ms st)
  case 0
  then show ?case by (simp add: calm_call_provider)
next
  case (Suc n)
  then show ?case
    by (auto split: prod.splits option.splits sum.splits if_splits dest!: calm_call_provider calm_recover)
qed

lemma calm_guard_context:
  "guard_context L A msg memory sync tds st = Some (ms, st') \<Longrightarrow> calm_view st' = calm_view st"
  by (auto simp: guard_context_def Let_def split: option.splits prod.splits preflight_action.splits dest!: calm_recover)

lemma calm_guarded_chat:
  "guarded_chat L A P model msg memory sync keep tds st = (r, st') \<Longrightarrow> calm_view st' = calm_view st"
  by (auto simp: guarded_chat_def split: option.splits prod.splits dest!: calm_guard_context calm_chat_recovering)

lemma calm_compact: "compact_if_urgent A st = Some st' \<Longrightarrow> calm_view st' = calm_view st"
  by (auto simp: compact_if_urgent_def split: option.splits dest!: calm_recover)

lemma calm_note_guard [simp]: "calm_view (note_guard L a st) = calm_view st"
  by (simp add: note_guard_def split: option.splits)

lemma calm_guard_outcomes:
  "check_loop_guard_outcomes L calls rs g st = (b, g', st') \<Longrightarrow> calm_view st' = calm_view st"
  by (induction L calls rs g st rule: check_loop_guard_outcomes.induct)
    (auto split: option.splits prod.splits if_splits)

lemma calm_guard_step: "guard_step L calls rs g st = (x, g', st') \<Longrightarrow> calm_view st' = calm_view st"
  by (auto simp: guard_step_def check_loop_guard_def split: option.splits prod.splits bool.splits
      dest!: calm_guard_outcomes)

lemma calm_flush_calls: "flush_calls L A tcs st = (r, st') \<Longrightarrow> calm_view st' = calm_view st"
  by (induction L A tcs st rule: flush_calls.induct) (auto split: option.splits prod.splits)

lemma calm_memory_flush: "memory_flush L A st = (r, st') \<Longrightarrow> calm_view st' = calm_view st"
  by (auto simp: memory_flush_def Let_def split: option.splits prod.splits sum.splits if_splits
      dest!: calm_call_provider calm_flush_calls)

lemma calm_prepare: "prepare L A st = (r, st') \<Longrightarrow> calm_view st' = calm_view st"
  by (auto simp: prepare_def split: option.splits prod.splits if_splits dest!: calm_recover calm_memory_flush)

lemma calm_lookup_cache: "lookup_cache L k st = (r, st') \<Longrightarrow> calm_view st' = calm_view st"
  by (auto simp: lookup_cache_def calm_view_def split: option.splits prod.splits)

lemma calm_synthesis: "synthesis L A P model msg memory st = (r, st') \<Longrightarrow> calm_view st' = calm_view st"
  by (auto simp: synthesis_def split: option.splits prod.splits sum.splits if_splits dest!: calm_guarded_chat)

lemma calm_next_response:
  "next_response L A P model msg memory r calls rs g st = (x, st') \<Longrightarrow> calm_view st' = calm_view st"
  by (auto simp: next_response_def split: option.splits prod.splits sum.splits if_splits
      dest!: calm_guarded_chat calm_guard_step)

section \<open>What a call of a tool changes\<close>

lemma perform_call_frame:
  assumes "perform_call L A msg name args st = (r, st')"
  shows "as_session st' = as_session st \<and> as_manager st' = as_manager st \<and> as_limit st' = as_limit st
    \<and> as_outbox st' = as_outbox st \<and> as_cache st' = as_cache st"
  using assms by (auto simp: perform_call_def set_world_def split: option.splits prod.splits)

lemma run_tool_call_frame:
  assumes "run_tool_call L A msg budget tc st = (r, st')"
  shows "as_session st' = as_session st \<and> as_manager st' = as_manager st \<and> as_limit st' = as_limit st
    \<and> as_cache st' = as_cache st \<and> fst r = ltc_id tc"
  using assms by (auto simp: run_tool_call_def Let_def split: decision.splits prod.splits option.splits
      dest!: perform_call_frame)

lemma run_order_frame:
  "run_order L A msg budget calls is done st = (d, st') \<Longrightarrow>
     as_session st' = as_session st \<and> as_manager st' = as_manager st \<and> as_limit st' = as_limit st
     \<and> as_cache st' = as_cache st
     \<and> (\<forall>i \<in> set is. fst (the (d i)) = ltc_id (calls ! i))
     \<and> (\<forall>i. i \<notin> set is \<longrightarrow> d i = done i)"
proof (induction "is" arbitrary: "done" st)
  case (Cons i "is")
  obtain r st1 where c: "run_tool_call L A msg budget (calls ! i) st = (r, st1)" by fastforce
  with Cons.prems have "run_order L A msg budget calls is (done(i \<mapsto> r)) st1 = (d, st')" by simp
  from Cons.IH [OF this] run_tool_call_frame [OF c] show ?case by (cases "i \<in> set is") auto
qed simp

lemma set_batch_order [simp]: "set (batch_order L A msg calls st) = {0..<length calls}"
  by (simp add: batch_order_def)

lemma length_batch_order [simp]: "length (batch_order L A msg calls st) = length calls"
  by (simp add: batch_order_def)

lemma run_batch_frame:
  assumes "run_batch L A msg calls st = (rs, st')"
  shows "as_session st' = as_session st \<and> as_manager st' = as_manager st \<and> as_limit st' = as_limit st
    \<and> as_cache st' = as_cache st \<and> map fst rs = map ltc_id calls"
proof -
  obtain budget d where d: "run_order L A msg budget calls (batch_order L A msg calls st) Map.empty st = (d, st')"
    and rs: "rs = map (\<lambda>i. the (d i)) [0..<length calls]"
    using assms by (auto simp: run_batch_def Let_def split: prod.splits)
  from run_order_frame [OF d] rs show ?thesis by (auto intro: nth_equalityI)
qed

lemma messages_push [simp]: "messages (as_session (push_message L m st)) = messages (as_session st) @ [m]"
  by (simp add: push_message_def add_message_def)

lemma messages_push_results:
  "messages (as_session (push_results L rs st))
     = messages (as_session st) @ map (\<lambda>(cid, text, _). msg_tool_result cid text) rs"
  unfolding push_results_def by (induction rs arbitrary: st) (auto split: prod.splits)

text \<open>The ways a turn goes: it ends before the provider answers, or with a cached answer, or by \<open>answer\<close>.\<close>

lemma run_turn_cases:
  assumes "run_turn L A P msg st = (x, st')"
  obtains (early) "calm_view st' = calm_view st" "\<not> (\<exists>text. x = Some (Inr text))"
  | (cached) st1 t where "calm_view st1 = calm_view st" "finish_turn L t st1 = (x, st')"
  | (answered) st1 memory k ms where "calm_view st1 = calm_view st" "answer L A P msg memory k ms st1 = (x, st')"
proof -
  let ?user = "inbound_to_message (lib_base64 L) msg"
  let ?memory = "lp_memory A (content ?user)"
  obtain p st1 where p: "prepare L A (push_message L ?user st) = (p, st1)" by fastforce
  have v1: "calm_view st1 = calm_view st" using calm_prepare [OF p] by simp
  show thesis
  proof (cases "p = None \<or> guard_context L A msg ?memory True (lp_tool_defs A) st1 = None")
    case True
    then show thesis using early v1 assms p by (auto simp: run_turn_def Let_def split: option.splits)
  next
    case False
    then obtain ms st2 where g: "guard_context L A msg ?memory True (lp_tool_defs A) st1 = Some (ms, st2)" by fastforce
    have v2: "calm_view st2 = calm_view st" using calm_guard_context [OF g] v1 by simp
    obtain hit st3 where h: "lookup_cache L (turn_cache_key L A ms (content ?user)) st2 = (hit, st3)" by fastforce
    have v3: "calm_view st3 = calm_view st" using calm_lookup_cache [OF h] v2 by simp
    show thesis
      using assms p g h False v2 v3 early cached answered
      by (cases hit) (auto simp: run_turn_def Let_def split: if_splits)
  qed
qed

text \<open>The turn's state when the message is taken up, and the ways a message goes.\<close>

definition fresh_counters :: "'w agent_state \<Rightarrow> 'w agent_state" where
  "fresh_counters st = st\<lparr>as_limit := tracker_reset (as_limit st), as_budget := budget_reset (as_budget st)\<rparr>"

lemma process_message_cases:
  assumes "process_message L A msg st = (x, st')"
  obtains (refused) e where "st' = fresh_counters st" "x = Some (Inl e)"
  | (unloaded) e sm where "get_or_create (lib_readable L (as_world st)) (lib_now L (as_world st)) (im_session_key msg)
        (as_manager st) = (Inl e, sm)" "st' = (fresh_counters st)\<lparr>as_manager := sm\<rparr>" "x = Some (Inl e)"
  | (turn) P s sm where "resolve_provider_for_message A msg = Some P"
      "get_or_create (lib_readable L (as_world st)) (lib_now L (as_world st)) (im_session_key msg)
        (as_manager st) = (Inr s, sm)" "run_turn L A P msg ((fresh_counters st)\<lparr>as_manager := sm, as_session := s\<rparr>) = (x, st')"
proof (cases "injection_blocked L A msg \<or> resolve_provider_for_message A msg = None")
  case True
  then show thesis using assms refused
    by (auto simp: process_message_def fresh_counters_def Let_def split: if_splits)
next
  case False
  obtain q sm where q: "get_or_create (lib_readable L (as_world st)) (lib_now L (as_world st)) (im_session_key msg)
      (as_manager st) = (q, sm)" by fastforce
  show thesis
  proof (cases q)
    case (Inl e)
    then show thesis using assms q False
      by (intro unloaded [of e sm]) (auto simp: process_message_def fresh_counters_def Let_def)
  next
    case (Inr s)
    from False obtain P where "resolve_provider_for_message A msg = Some P" by blast
    then show thesis using assms q False Inr
      by (intro turn [of P s sm]) (auto simp: process_message_def fresh_counters_def Let_def)
  qed
qed

section \<open>What a turn spends of the tool call limit\<close>

lemma calm_limit: "calm_view a = calm_view b \<Longrightarrow> as_limit a = as_limit b"
  by (simp add: calm_view_def)

lemma allowed_within:
  assumes "tl_limit t = Some m" "tl_count t \<le> m"
  shows "length (allowed_calls t calls) \<le> unat m - unat (tl_count t)"
    and "unat (tl_count t + word_of_nat (length (allowed_calls t calls))) = unat (tl_count t) + length (allowed_calls t calls)"
proof -
  have *: "unat (m - tl_count t) = unat m - unat (tl_count t)" using assms(2) by (rule unat_sub)
  show le: "length (allowed_calls t calls) \<le> unat m - unat (tl_count t)"
    using assms * by (auto simp: allowed_calls_def tracker_remaining_def)
  have "unat (tl_count t) + length (allowed_calls t calls) \<le> unat m"
    using le assms(2) by (simp add: word_le_nat_alt)
  then have s: "unat (tl_count t) + length (allowed_calls t calls) < 2 ^ LENGTH(32)"
    using unsigned_less [of m, where 'a = nat] by linarith
  then show "unat (tl_count t + word_of_nat (length (allowed_calls t calls))) = unat (tl_count t) + length (allowed_calls t calls)"
    by (simp add: unat_word_ariths unat_of_nat take_bit_nat_eq_self)
qed

text \<open>\<open>n\<close> calls take the tracker from \<open>t\<close> to \<open>t'\<close> without passing the limit and without wrapping around.\<close>

definition spends :: "tool_call_limit \<Rightarrow> nat \<Rightarrow> tool_call_limit \<Rightarrow> bool" where
  "spends t n t' \<longleftrightarrow> tl_limit t' = tl_limit t \<and>
     (\<forall>m. tl_limit t = Some m \<longrightarrow> tl_count t \<le> m \<longrightarrow>
        unat (tl_count t) + n \<le> unat m \<and> unat (tl_count t') = unat (tl_count t) + n)"

lemma spends_none [simp]: "spends t 0 t"
  by (simp add: spends_def word_le_nat_alt)

lemma spends_trans: "spends t n t1 \<Longrightarrow> spends t1 k t2 \<Longrightarrow> spends t (n + k) t2"
  unfolding spends_def by (auto simp: word_le_nat_alt)

lemma spends_allowed:
  "spends t (length (allowed_calls t calls)) (tracker_increment (word_of_nat (length (allowed_calls t calls))) t)"
  using allowed_within [of t _ calls] by (fastforce simp: spends_def tracker_increment_def word_le_nat_alt)

section \<open>The session of a turn\<close>

definition held :: "'w agent_state \<Rightarrow> session_manager \<times> string" where
  "held st = (as_manager st, key (as_session st))"

lemma calm_held: "calm_view a = calm_view b \<Longrightarrow> held a = held b"
  by (simp add: calm_view_def held_def)

lemma held_run_calls:
  assumes "run_calls_of L A msg r st = (calls, rs, st')"
  shows "held st' = held st"
proof -
  let ?c = "allowed_calls (as_limit st) (resp_tool_calls r)"
  let ?p = "push_message L (calls_message (resp_content r) ?c) st"
  obtain st1 where b: "run_batch L A msg ?c ?p = (rs, st1)" and *: "st' = push_results L rs st1"
    using assms by (auto simp: run_calls_of_def Let_def split: prod.splits)
  have "held st' = held st1" "held ?p = held st" using * by (auto intro: calm_held)
  with run_batch_frame [OF b] show ?thesis by (simp add: held_def)
qed

lemma held_tool_step:
  assumes "tool_step L A P model msg memory r g st = (x, st')"
  shows "held st' = held st"
proof -
  obtain calls rs st1 where c: "run_calls_of L A msg r st = (calls, rs, st1)" by (metis prod_cases3)
  show ?thesis
  proof (cases "compact_if_urgent A st1")
    case None
    then show ?thesis using assms c held_run_calls [OF c] by (simp add: tool_step_def)
  next
    case (Some st2)
    have "held st' = held st2"
      using assms c Some
      by (auto simp: tool_step_def Let_def held_def split: if_splits prod.splits
          dest!: calm_synthesis calm_next_response dest: calm_held [unfolded held_def])
    with calm_held [OF calm_compact [OF Some]] held_run_calls [OF c] show ?thesis by simp
  qed
qed

lemma held_tool_loop: "tool_loop L A P model msg memory n r g st = (x, st') \<Longrightarrow> held st' = held st"
proof (induction n arbitrary: r g st)
  case (Suc n)
  obtain y st1 where s: "tool_step L A P model msg memory r g st = (y, st1)" by fastforce
  from Suc.prems s held_tool_step [OF s] Suc.IH show ?case by (cases y) (auto split: if_splits)
qed simp

text \<open>
  What a turn does to the store: on an answer the session is put there, otherwise the files stay, except that
  a save that fails can leave a cut file in the place of the session.
\<close>

definition stored_turn :: "session_manager \<Rightarrow> string \<Rightarrow> string zresult option \<Rightarrow> 'w agent_state \<Rightarrow> bool" where
  "stored_turn m k x st' \<longleftrightarrow>
     key (as_session st') = k \<and>
     (case x of
        Some (Inr t) \<Rightarrow>
          (\<exists>ms. messages (as_session st') = ms @ [msg_assistant t])
          \<and> as_manager st' = m\<lparr>sm_sessions := (sm_sessions m)(k \<mapsto> as_session st'),
               sm_disk := map_option (\<lambda>d. d(session_file k \<mapsto> Stored_Session (as_session st'))) (sm_disk m)\<rparr>
      | _ \<Rightarrow>
          (sm_disk (as_manager st') = sm_disk m
             \<or> x = Some (Inl (Io ''write''))
               \<and> sm_disk (as_manager st') = map_option (\<lambda>d. d(session_file k \<mapsto> Stored_Garbage)) (sm_disk m))
          \<and> (sm_sessions (as_manager st') = sm_sessions m
             \<or> sm_sessions (as_manager st') = (sm_sessions m)(k \<mapsto> as_session st')))"

lemma stored_finish:
  assumes "finish_turn L t st = (x, st')"
  shows "stored_turn (as_manager st) (key (as_session st)) x st'"
  using assms
  by (cases "sm_disk (as_manager st)")
    (auto simp: finish_turn_def stored_turn_def sm_save_def cache_session_def push_message_def add_message_def Let_def
      split: write_outcome.splits)

lemma stored_unchanged:
  assumes "held st' = held st" "\<not> (\<exists>t. x = Some (Inr t))"
  shows "stored_turn (as_manager st) (key (as_session st)) x st'"
  using assms by (auto simp: stored_turn_def held_def split: option.splits sum.splits)

lemma stored_held: "held a = held b \<Longrightarrow> stored_turn (as_manager a) (key (as_session a)) x st' \<longleftrightarrow>
    stored_turn (as_manager b) (key (as_session b)) x st'"
  by (simp add: held_def)

lemma stored_answer:
  assumes "answer L A P msg memory k ms st = (x, st')"
  shows "stored_turn (as_manager st) (key (as_session st)) x st'"
proof -
  let ?model = "resolve_model_for_message A msg"
  obtain y st1 where c: "chat_recovering L A P ?model msg memory 8 (lp_tool_defs A) 0
      (cc_overflow_retries (lp_compaction A)) ms st = (y, st1)" by fastforce
  note v = calm_chat_recovering [OF c]
  show ?thesis
  proof (cases "\<exists>r. y = Some (Inr r)")
    case False
    then have "st' = st1" "\<not> (\<exists>t. x = Some (Inr t))"
      using assms c by (auto simp: answer_def split: option.splits sum.splits)
    then show ?thesis using stored_unchanged calm_held [OF v] by blast
  next
    case True
    then obtain r where y: "y = Some (Inr r)" by blast
    let ?st2 = "store_cache L k r (record_response r st1)"
    obtain z st3 where l: "tool_loop L A P ?model msg memory (lp_max_tool_iterations A) r
        (if enabled (lp_loop_guard A) then Some (loop_guard_new (lp_loop_guard A)) else None) ?st2 = (z, st3)" by fastforce
    have "held ?st2 = held st" by (rule calm_held) (simp add: v)
    with held_tool_loop [OF l] have h: "held st3 = held st" by simp
    show ?thesis
    proof (cases "\<exists>t. z = Some (Inr t)")
      case True
      then obtain t where "z = Some (Inr t)" by blast
      then have "finish_turn L t st3 = (x, st')" using assms c y l by (simp add: answer_def)
      from stored_finish [OF this] stored_held [OF h] show ?thesis by blast
    next
      case False
      then have "(x, st') = (z, st3)"
        using assms c y l by (auto simp: answer_def split: option.splits sum.splits)
      with False h show ?thesis by (auto intro: stored_unchanged)
    qed
  qed
qed

lemma stored_run_turn:
  assumes "run_turn L A P msg st = (x, st')"
  shows "stored_turn (as_manager st) (key (as_session st)) x st'"
  using assms
proof (cases rule: run_turn_cases)
  case early
  then show ?thesis using calm_held [OF early(1)] stored_unchanged by blast
next
  case (cached st1 t)
  then show ?thesis using stored_finish [OF cached(2)] stored_held [OF calm_held [OF cached(1)]] by blast
next
  case (answered st1 memory k ms)
  then show ?thesis using stored_answer [OF answered(2)] stored_held [OF calm_held [OF answered(1)]] by blast
qed

text \<open>Every session in the store and every session file carries its own key.\<close>

definition manager_keyed :: "session_manager \<Rightarrow> bool" where
  "manager_keyed m \<longleftrightarrow>
     (\<forall>k s. sm_sessions m k = Some s \<longrightarrow> key s = k)
     \<and> (\<forall>d k s. sm_disk m = Some d \<longrightarrow> d (session_file k) = Some (Stored_Session s) \<longrightarrow> key s = k)"

lemma get_or_create_keyed:
  assumes "get_or_create readable now k m = (q, m')" "manager_keyed m"
  shows "manager_keyed m' \<and> sm_disk m' = sm_disk m \<and> sm_auto_repair m' = sm_auto_repair m
    \<and> (\<forall>k'. k' \<noteq> k \<longrightarrow> sm_sessions m' k' = sm_sessions m k') \<and> (\<forall>s. q = Inr s \<longrightarrow> key s = k)"
  using assms
  by (auto simp: get_or_create_def load_file_def manager_keyed_def cache_session_def maybe_repair_def session_new_def
      split: option.splits sum.splits if_splits stored_file.splits)

lemma manager_keyed_turn:
  assumes "manager_keyed m" "stored_turn m k x st'"
  shows "manager_keyed (as_manager st')"
proof -
  have "sm_sessions (as_manager st') k' = Some s \<Longrightarrow> key s = k'" for k' s
    using assms by (cases x; cases "the x") (auto simp: stored_turn_def manager_keyed_def split: if_splits)
  moreover have "sm_disk (as_manager st') = Some d \<Longrightarrow> d (session_file k') = Some (Stored_Session s) \<Longrightarrow> key s = k'" for d k' s
    using assms by (cases x; cases "the x"; cases "sm_disk m") (auto simp: stored_turn_def manager_keyed_def split: if_splits)
  ultimately show ?thesis by (auto simp: manager_keyed_def)
qed

lemma get_or_create_error: "get_or_create readable now k m = (Inl e, m') \<Longrightarrow> m' = m"
  by (auto simp: get_or_create_def split: option.splits sum.splits)

section \<open>Counting provider calls and tool calls\<close>

text \<open>
  A clock of the world that a call of one of the agent's providers advances by at most \<open>pc\<close>, and a tool that is run through the
  gate or given up at the time limit by at most \<open>tc\<close>: over a message it advances by no more than \<open>pc\<close> for each provider call
  that the iterations and the overflow retries allow, and \<open>tc\<close> for each tool call that the limit allows. The calls of the
  memory flush go round the gate; they have no channel, and the clock does not see them.
\<close>

definition agent_provider :: "('v, 'w) agent \<Rightarrow> 'w chat_provider \<Rightarrow> bool" where
  "agent_provider A P \<longleftrightarrow> lp_provider A = Some P \<or> (\<exists>n. lp_provider_registry A n = Some P)"

abbreviation call_attempts :: "('v, 'w) agent \<Rightarrow> nat" where
  "call_attempts A \<equiv> Suc (cc_overflow_retries (lp_compaction A))"

lemma resolved_provider: "resolve_provider_for_message A msg = Some P \<Longrightarrow> agent_provider A P"
  by (auto simp: resolve_provider_for_message_def agent_provider_def bind_eq_Some_conv split: option.splits)

locale chat_meter =
  fixes L :: "('v, 'w) library" and A :: "('v, 'w) agent" and clock :: "'w \<Rightarrow> nat" and pc tc :: nat
  assumes provider_tick: "agent_provider A P \<Longrightarrow> chat P q mo w = Some (r, w') \<Longrightarrow> clock w' \<le> clock w + pc"
    and tool_tick: "lp_tools A name = Some tool \<Longrightarrow> tctx_channel ctx \<noteq> None \<Longrightarrow> clock (snd (tool args ctx w)) \<le> clock w + tc"
    and flush_silent: "lp_tools A name = Some tool \<Longrightarrow> tctx_channel ctx = None \<Longrightarrow> clock (snd (tool args ctx w)) \<le> clock w"
    and timeout_tick: "lib_tool_times_out L name args w = Some w' \<Longrightarrow> clock w' \<le> clock w + tc"
    and flush_timeout_tick: "lib_flush_times_out L w = Some w' \<Longrightarrow> clock w' \<le> clock w + pc"
begin

lemma world_set [simp]: "as_world (set_world w st) = w"
  by (simp add: set_world_def)

lemma world_same [simp]:
  "as_world (set_messages ms st) = as_world st" "as_world (push_message L' m st) = as_world st"
  "as_world (record_response r st) = as_world st" "as_world (store_cache L' k r st) = as_world st"
  "as_world (note_guard L' a st) = as_world st"
  by (simp_all add: set_messages_def push_message_def record_response_def store_cache_def note_guard_def
      split: option.splits)

lemma world_push_results [simp]: "as_world (push_results L' rs st) = as_world st"
  unfolding push_results_def by (induction rs arbitrary: st) (auto split: prod.splits)

lemma world_recover: "recover A' u keep st = Some st' \<Longrightarrow> as_world st' = as_world st"
  by (auto simp: recover_def split: option.splits)

lemma world_compact: "compact_if_urgent A' st = Some st' \<Longrightarrow> as_world st' = as_world st"
  by (auto simp: compact_if_urgent_def split: option.splits dest: world_recover)

text \<open>One call with its overflow retries, and a guarded call.\<close>

lemma call_tick: "agent_provider A P \<Longrightarrow> call_provider P model ms tds st = (r, st') \<Longrightarrow>
    clock (as_world st') \<le> clock (as_world st) + pc"
  by (auto simp: call_provider_def split: option.splits prod.splits dest: provider_tick)

lemma recovering_ticks:
  "agent_provider A P \<Longrightarrow> chat_recovering L A P model msg memory keep tds attempt n ms st = (r, st') \<Longrightarrow>
     clock (as_world st') \<le> clock (as_world st) + pc * Suc n"
proof (induction n arbitrary: attempt ms st)
  case 0
  then show ?case using call_tick by fastforce
next
  case (Suc n)
  obtain q st1 where q: "call_provider P model ms tds st = (q, st1)" by fastforce
  note t = call_tick [OF Suc.prems(1) q]
  show ?case
  proof (cases "\<exists>e st2. q = Some (Inl e) \<and> is_context_overflow e \<and> lp_monitor A \<noteq> None
      \<and> recover A (overflow_retry_urgency attempt) keep st1 = Some st2")
    case True
    then obtain e st2 where e: "q = Some (Inl e)" "is_context_overflow e" "lp_monitor A \<noteq> None"
      "recover A (overflow_retry_urgency attempt) keep st1 = Some st2" by blast
    from Suc.prems q e have "chat_recovering L A P model msg memory keep tds (Suc attempt) n
        (build_resolved_messages L A msg memory st2) st2 = (r, st')" by simp
    from Suc.IH [OF Suc.prems(1) this] world_recover [OF e(4)] t show ?thesis by simp
  next
    case False
    then have "st' = st1" using Suc.prems(2) q by (auto split: option.splits sum.splits if_splits)
    then show ?thesis using t by simp
  qed
qed

lemma world_guard_context: "guard_context L A msg memory sync tds st = Some (ms, st') \<Longrightarrow> as_world st' = as_world st"
  by (auto simp: guard_context_def Let_def split: option.splits prod.splits preflight_action.splits dest: world_recover)

lemma guarded_ticks:
  assumes "agent_provider A P" "guarded_chat L A P model msg memory sync keep tds st = (r, st')"
  shows "clock (as_world st') \<le> clock (as_world st) + pc * call_attempts A"
  using assms(2)
  by (auto simp: guarded_chat_def split: option.splits dest!: recovering_ticks [OF assms(1)] world_guard_context)

text \<open>The calls of an iteration.\<close>

lemma execute_tick:
  assumes "execute_tool (lib_json L) (lp_tools A) safety name input ctx g = (r, g')" "tctx_channel ctx \<noteq> None"
  shows "clock (gs_world g') \<le> clock (gs_world g) + tc"
proof -
  have "clock (snd (execute_with_context (lp_tools A) name input ctx w)) \<le> clock w + tc" for w
    using tool_tick assms(2) by (auto simp: execute_with_context_def split: option.splits)
  from this [of "gs_world g"] assms(1) show ?thesis
    by (auto simp: execute_tool_def gate_output_def note_call_def Let_def
        split: option.splits prod.splits sum.splits if_splits)
qed

lemma tool_call_tick:
  assumes "run_tool_call L A msg budget c st = (r, st')"
  shows "clock (as_world st') \<le> clock (as_world st) + tc"
proof -
  have "clock (as_world st2) \<le> clock (as_world st) + tc" if "perform_call L A msg name args st = (q, st2)" for name args q st2
    using that by (auto simp: perform_call_def split: option.splits prod.splits dest!: timeout_tick execute_tick)
  with assms show ?thesis
    by (fastforce simp: run_tool_call_def Let_def split: decision.splits prod.splits option.splits)
qed

lemma order_ticks:
  "run_order L A msg budget calls is done st = (d, st') \<Longrightarrow> clock (as_world st') \<le> clock (as_world st) + tc * length is"
proof (induction "is" arbitrary: "done" st)
  case (Cons i "is")
  obtain r st1 where c: "run_tool_call L A msg budget (calls ! i) st = (r, st1)" by fastforce
  with Cons.prems have "run_order L A msg budget calls is (done(i \<mapsto> r)) st1 = (d, st')" by simp
  from Cons.IH [OF this] tool_call_tick [OF c] show ?case by simp
qed simp

lemma calls_ticks:
  assumes "run_calls_of L A msg r st = (calls, rs, st')"
  shows "calls = allowed_calls (as_limit st) (resp_tool_calls r)
    \<and> clock (as_world st') \<le> clock (as_world st) + tc * length calls \<and> as_limit st' = as_limit st"
proof -
  let ?c = "allowed_calls (as_limit st) (resp_tool_calls r)"
  let ?p = "push_message L (calls_message (resp_content r) ?c) st"
  obtain st1 where b: "run_batch L A msg ?c ?p = (rs, st1)" and *: "calls = ?c" "st' = push_results L rs st1"
    using assms by (auto simp: run_calls_of_def Let_def split: prod.splits)
  have "clock (as_world st1) \<le> clock (as_world ?p) + tc * length ?c"
    using b by (auto simp: run_batch_def Let_def split: prod.splits dest!: order_ticks)
  moreover have "as_limit ?p = as_limit st" "as_limit st' = as_limit st1" using * by (auto intro: calm_limit)
  ultimately show ?thesis using run_batch_frame [OF b] * by simp
qed

lemma world_guard_outcomes:
  "check_loop_guard_outcomes L' calls rs g st = (b, g', st') \<Longrightarrow> as_world st' = as_world st"
  by (induction L' calls rs g st rule: check_loop_guard_outcomes.induct)
    (auto split: option.splits prod.splits if_splits)

lemma world_guard_step: "guard_step L' calls rs g st = (x, g', st') \<Longrightarrow> as_world st' = as_world st"
  by (auto simp: guard_step_def check_loop_guard_def split: option.splits prod.splits bool.splits
      dest!: world_guard_outcomes)

lemma synthesis_ticks:
  assumes "agent_provider A P" "synthesis L A P model msg memory st = (r, st')"
  shows "clock (as_world st') \<le> clock (as_world st) + pc * call_attempts A"
  using assms(2)
  by (auto simp: synthesis_def split: option.splits prod.splits sum.splits if_splits dest!: guarded_ticks [OF assms(1)])

lemma next_ticks:
  assumes "agent_provider A P" "next_response L A P model msg memory r calls rs g st = (x, st')"
  shows "clock (as_world st') \<le> clock (as_world st) + pc * call_attempts A"
  using assms(2)
  by (auto simp: next_response_def split: option.splits prod.splits sum.splits if_splits
      dest!: guarded_ticks [OF assms(1)] world_guard_step)

lemma step_ticks:
  assumes "agent_provider A P" "tool_step L A P model msg memory r g st = (x, st')"
  shows "\<exists>n t. spends (as_limit st) n t \<and> clock (as_world st') \<le> clock (as_world st) + pc * call_attempts A + tc * n
    \<and> (\<forall>r' g'. x = Continue r' g' \<longrightarrow> as_limit st' = t)"
proof -
  obtain calls rs st1 where c: "run_calls_of L A msg r st = (calls, rs, st1)" by (metis prod_cases3)
  note t1 = calls_ticks [OF c]
  let ?t = "tracker_increment (word_of_nat (length calls)) (as_limit st)"
  have "spends (as_limit st) (length calls) ?t" using t1 spends_allowed by blast
  moreover have "clock (as_world st') \<le> clock (as_world st1) + pc * call_attempts A"
    using assms(2) c by (auto simp: tool_step_def Let_def split: option.splits if_splits prod.splits
        dest!: world_compact synthesis_ticks [OF assms(1)] next_ticks [OF assms(1)])
  moreover have "x = Continue r' g' \<Longrightarrow> as_limit st' = ?t" for r' g'
    using assms(2) c t1 by (auto simp: tool_step_def Let_def split: option.splits if_splits prod.splits
        dest!: calm_compact [THEN calm_limit] calm_next_response [THEN calm_limit])
  ultimately show ?thesis using t1 by (intro exI [of _ "length calls"] exI [of _ ?t]) auto
qed

lemma loop_ticks:
  "agent_provider A P \<Longrightarrow> tool_loop L A P model msg memory n r g st = (x, st') \<Longrightarrow>
     \<exists>k t. spends (as_limit st) k t \<and> clock (as_world st') \<le> clock (as_world st) + n * (pc * call_attempts A) + tc * k"
proof (induction n arbitrary: r g st)
  case 0
  then show ?case by (intro exI [of _ 0] exI [of _ "as_limit st"]) auto
next
  case (Suc n)
  obtain y st1 where s: "tool_step L A P model msg memory r g st = (y, st1)" by fastforce
  from step_ticks [OF Suc.prems(1) s] obtain k t where k: "spends (as_limit st) k t"
    "clock (as_world st1) \<le> clock (as_world st) + pc * call_attempts A + tc * k"
    "\<And>r' g'. y = Continue r' g' \<Longrightarrow> as_limit st1 = t" by blast
  show ?case
  proof (cases "\<exists>r' g'. y = Continue r' g' \<and> tool_loop L A P model msg memory n r' g' st1 = (x, st')")
    case True
    then obtain r' g' where y: "y = Continue r' g'" "tool_loop L A P model msg memory n r' g' st1 = (x, st')" by blast
    from Suc.IH [OF Suc.prems(1) y(2)] k(3) [OF y(1)] obtain k' t' where k': "spends t k' t'"
      "clock (as_world st') \<le> clock (as_world st1) + n * (pc * call_attempts A) + tc * k'" by blast
    from spends_trans [OF k(1) k'(1)] k(2) k'(2) show ?thesis
      by (intro exI [of _ "k + k'"] exI [of _ t']) (auto simp: algebra_simps)
  next
    case False
    then consider "st' = st" | "st' = st1" using Suc.prems(2) s by (auto split: if_splits step_end.splits)
    then show ?thesis
    proof cases
      case 1
      then show ?thesis by (intro exI [of _ 0] exI [of _ "as_limit st"]) auto
    next
      case 2
      then show ?thesis using k(1,2) by (intro exI [of _ k] exI [of _ t]) auto
    qed
  qed
qed

text \<open>The whole message.\<close>

lemma flush_calls_silent: "flush_calls L A tcs st = (r, st') \<Longrightarrow> clock (as_world st') \<le> clock (as_world st)"
proof (induction tcs arbitrary: st)
  case (Cons c tcs)
  have "clock (snd (execute_with_context (lp_tools A) name args \<lparr>tctx_channel = None, tctx_chat_id = None\<rparr> w)) \<le> clock w"
    for name args w
    using flush_silent by (auto simp: execute_with_context_def split: option.splits)
  then have *: "execute_with_context (lp_tools A) name args \<lparr>tctx_channel = None, tctx_chat_id = None\<rparr> w = (q, w')
      \<Longrightarrow> clock w' \<le> clock w" for name args w q w'
    by (metis snd_conv)
  from Cons.prems show ?case
    by (auto split: option.splits prod.splits dest!: Cons.IH dest: * intro: le_trans)
qed simp

lemma prepare_ticks:
  assumes "prepare L A st = (r, st')"
  shows "clock (as_world st') \<le> clock (as_world st) + pc"
proof -
  have "clock (as_world st1) \<le> clock (as_world st) + pc" if "memory_flush L A st = (q, st1)" for q st1
  proof (cases "lp_provider A")
    case None
    with that show ?thesis by (simp add: memory_flush_def)
  next
    case (Some P)
    then have "agent_provider A P" by (simp add: agent_provider_def)
    from that Some call_tick [OF this] show ?thesis
      by (fastforce simp: memory_flush_def Let_def split: option.splits prod.splits sum.splits if_splits
          dest: flush_timeout_tick flush_calls_silent)
  qed
  with assms show ?thesis
    by (fastforce simp: prepare_def split: option.splits prod.splits if_splits dest: world_recover)
qed

lemma limit_prepare: "prepare L A st = (r, st') \<Longrightarrow> as_limit st' = as_limit st"
  by (rule calm_limit [OF calm_prepare])

lemma answer_ticks:
  assumes "agent_provider A P" "answer L A P msg memory k ms st = (x, st')"
  shows "\<exists>n t. spends (as_limit st) n t
    \<and> clock (as_world st') \<le> clock (as_world st) + Suc (lp_max_tool_iterations A) * (pc * call_attempts A) + tc * n"
proof -
  let ?model = "resolve_model_for_message A msg"
  obtain y st1 where c: "chat_recovering L A P ?model msg memory 8 (lp_tool_defs A) 0
      (cc_overflow_retries (lp_compaction A)) ms st = (y, st1)" by fastforce
  note t = recovering_ticks [OF assms(1) c]
  have f: "as_world st3 = as_world st2" if "finish_turn L u st2 = (z, st3)" for u st2 z st3
    using that by (auto simp: finish_turn_def Let_def push_message_def split: prod.splits sum.splits)
  show ?thesis
  proof (cases "\<exists>r. y = Some (Inr r)")
    case False
    then have "st' = st1" using assms(2) c by (auto simp: answer_def split: option.splits sum.splits)
    then show ?thesis using t by (intro exI [of _ 0] exI [of _ "as_limit st"]) simp
  next
    case True
    then obtain r where y: "y = Some (Inr r)" by blast
    let ?st2 = "store_cache L k r (record_response r st1)"
    obtain z st3 where l: "tool_loop L A P ?model msg memory (lp_max_tool_iterations A) r
        (if enabled (lp_loop_guard A) then Some (loop_guard_new (lp_loop_guard A)) else None) ?st2 = (z, st3)" by fastforce
    have "as_world st' = as_world st3"
      using assms(2) c y l f by (auto simp: answer_def split: option.splits sum.splits)
    moreover have "as_limit ?st2 = as_limit st" by (rule calm_limit) (simp add: calm_chat_recovering [OF c])
    ultimately show ?thesis using loop_ticks [OF assms(1) l] t by fastforce
  qed
qed

lemma turn_ticks:
  assumes "agent_provider A P" "run_turn L A P msg st = (x, st')"
  shows "\<exists>n t. spends (as_limit st) n t
    \<and> clock (as_world st') \<le> clock (as_world st) + pc + Suc (lp_max_tool_iterations A) * (pc * call_attempts A) + tc * n"
proof -
  let ?user = "inbound_to_message (lib_base64 L) msg"
  let ?memory = "lp_memory A (content ?user)"
  obtain p st1 where p: "prepare L A (push_message L ?user st) = (p, st1)" by fastforce
  have t1: "clock (as_world st1) \<le> clock (as_world st) + pc" using prepare_ticks [OF p] by simp
  have l1: "as_limit st1 = as_limit st" using limit_prepare [OF p] by (simp add: push_message_def)
  have idle: ?thesis if "as_world st' = as_world st1"
    using that t1 by (intro exI [of _ 0] exI [of _ "as_limit st"]) simp
  show ?thesis
  proof (cases "p = None \<or> guard_context L A msg ?memory True (lp_tool_defs A) st1 = None")
    case True
    then show ?thesis using idle assms(2) p by (auto simp: run_turn_def Let_def split: option.splits)
  next
    case False
    then obtain ms st2 where g: "guard_context L A msg ?memory True (lp_tool_defs A) st1 = Some (ms, st2)" by fastforce
    obtain hit st3 where h: "lookup_cache L (turn_cache_key L A ms (content ?user)) st2 = (hit, st3)" by fastforce
    have w3: "as_world st3 = as_world st2" "as_world st2 = as_world st1"
      using h world_guard_context [OF g] by (auto simp: lookup_cache_def split: option.splits prod.splits)
    have l3: "as_limit st3 = as_limit st"
      using calm_limit [OF calm_lookup_cache [OF h]] calm_limit [OF calm_guard_context [OF g]] l1 by simp
    have f: "as_world st4 = as_world st3" if "finish_turn L u st3 = (z, st4)" for u z st4
      using that by (auto simp: finish_turn_def Let_def push_message_def split: prod.splits sum.splits)
    consider "st' = st2" | u where "finish_turn L u st3 = (x, st')"
      | memory k ms where "answer L A P msg memory k ms st3 = (x, st')"
      using assms(2) p g h False by (cases hit) (auto simp: run_turn_def Let_def split: if_splits)
    then show ?thesis
    proof cases
      case 2
      show ?thesis by (rule idle) (use f [OF 2] w3 in simp)
    next
      case 3
      from answer_ticks [OF assms(1) 3] w3 t1 l3 show ?thesis by fastforce
    qed (use w3 idle in simp)
  qed
qed

lemma message_ticks:
  assumes "process_message L A msg st = (x, st')"
  shows "\<exists>n. (\<forall>m. tl_limit (as_limit st) = Some m \<longrightarrow> n \<le> unat m)
    \<and> clock (as_world st') \<le> clock (as_world st) + pc + Suc (lp_max_tool_iterations A) * (pc * call_attempts A) + tc * n"
  using assms
proof (cases rule: process_message_cases)
  case (turn P s sm)
  from turn_ticks [OF resolved_provider [OF turn(1)] turn(3)] show ?thesis
    by (fastforce simp: fresh_counters_def spends_def tracker_reset_def)
qed (auto simp: fresh_counters_def intro!: exI [of _ 0])

end

section \<open>Properties\<close>

text \<open>
  C2. A turn stays in its own session: in a store whose sessions carry their keys, an answer is the last
  message of the session of the message's key, that session is in the store under the key and, with a
  directory, in its file; no other session and no other session file changes. A turn that ends in an error or a
  panic changes no session file, except that when saving the answer failed, which is then the error
  of the turn, the file of its own session may have been cut short. The keys stay right.
\<close>

theorem turn_is_atomic:
  assumes "manager_keyed (as_manager st)" "process_message L A msg st = (x, st')"
  shows "manager_keyed (as_manager st')
    \<and> (\<forall>k. k \<noteq> im_session_key msg \<longrightarrow> sm_sessions (as_manager st') k = sm_sessions (as_manager st) k)
    \<and> (case x of
         Some (Inr t) \<Rightarrow>
           key (as_session st') = im_session_key msg
           \<and> (\<exists>ms. messages (as_session st') = ms @ [msg_assistant t])
           \<and> sm_sessions (as_manager st') (im_session_key msg) = Some (as_session st')
           \<and> sm_disk (as_manager st') = map_option
               (\<lambda>d. d(session_file (im_session_key msg) \<mapsto> Stored_Session (as_session st'))) (sm_disk (as_manager st))
       | _ \<Rightarrow> sm_disk (as_manager st') = sm_disk (as_manager st)
           \<or> x = Some (Inl (Io ''write''))
             \<and> sm_disk (as_manager st') = map_option
                 (\<lambda>d. d(session_file (im_session_key msg) \<mapsto> Stored_Garbage)) (sm_disk (as_manager st)))"
  using assms(2)
proof (cases rule: process_message_cases)
  case (refused e)
  then show ?thesis using assms(1) by (simp add: fresh_counters_def)
next
  case (unloaded e sm)
  then show ?thesis using assms(1) get_or_create_error [OF unloaded(1)] by (simp add: fresh_counters_def)
next
  case (turn P s sm)
  note g = get_or_create_keyed [OF turn(2) assms(1)]
  from stored_run_turn [OF turn(3)] g have s: "stored_turn sm (im_session_key msg) x st'" by simp
  have "manager_keyed (as_manager st')" using manager_keyed_turn [OF _ s] g by simp
  then show ?thesis using g s by (cases x; cases "the x") (auto simp: stored_turn_def)
qed

text \<open>A small agent: one tool, and a provider that asks for it a few times and then answers. Its world counts the calls of both.\<close>

definition sample_library :: "(string, nat) library" where
  "sample_library = \<lparr>lib_json = sample_json, lib_parse = Some, lib_parse_error = id, lib_rx = (\<lambda>_ _. []), lib_say = no_words,
     lib_floor = (\<lambda>_ _. False), lib_sha = id, lib_canon = (\<lambda>_. None), lib_digest = id, lib_base64 = id,
     lib_read_image = (\<lambda>_. None), lib_budget_summary = (\<lambda>_. []), lib_now = id, lib_readable = (\<lambda>_. True),
     lib_write = (\<lambda>_. Write_Ok), lib_rank = (\<lambda>_ i. i), lib_tool_times_out = (\<lambda>_ _ _. None), lib_flush_times_out = (\<lambda>_. None)\<rparr>"

definition echo_call :: "string \<Rightarrow> llm_tool_call" where
  "echo_call cid = \<lparr>ltc_id = cid, ltc_name = ''echo'', ltc_arguments = ''hi''\<rparr>"

definition sample_provider :: "nat chat_provider" where
  "sample_provider = \<lparr>provider_name = ''sample'', default_model = ''m'',
     chat = (\<lambda>_ _ w. Some (Inr (if w < 4 then \<lparr>resp_content = ''wait'', resp_tool_calls = [echo_call ''a'', echo_call ''b''],
               resp_usage = None\<rparr> else llm_response_text ''done''), w + 1)),
     chat_stream = (\<lambda>_ _ _. None)\<rparr>"

definition sample_agent :: "(string, nat) agent" where
  "sample_agent = \<lparr>lp_compaction = compaction_config_default\<lparr>cc_enabled := False\<rparr>, lp_max_tool_result_bytes = 1000,
     lp_max_tool_iterations = 5, lp_tool_timeout_secs = 0, lp_agent_timeout_secs = 60, lp_model = ''m'',
     lp_loop_guard = loop_guard_config_default\<lparr>enabled := False\<rparr>, lp_safety = safety_config_default\<lparr>sc_enabled := False\<rparr>,
     lp_tools = [''echo'' \<mapsto> counting_tool], lp_tool_defs = [], lp_policy = sample_admission\<lparr>ad_mode := Autonomous\<rparr>,
     lp_provider = Some sample_provider, lp_provider_registry = Map.empty,
     lp_system_message = (\<lambda>_ _. msg_system ''sys''), lp_memory = (\<lambda>_. None)\<rparr>"

definition sample_state :: "nat agent_state" where
  "sample_state = \<lparr>as_session = session_new 0 [], as_manager = new_memory True, as_gate = idle_state\<lparr>gs_taint := None\<rparr>,
     as_budget = budget_unlimited, as_limit = tracker_new (Some 3), as_cache = None, as_outbox = []\<rparr>"

definition sample_inbound :: inbound_message where
  "sample_inbound = inbound_new ''cli'' ''me'' ''1'' ''hello''"

theorem turn_is_atomic_witness:
  "\<exists>st'. process_message sample_library sample_agent sample_inbound sample_state = (Some (Inr ''done''), st')
     \<and> sm_sessions (as_manager st') ''cli:1'' = Some (as_session st')"
proof -
  let ?p = "process_message sample_library sample_agent sample_inbound sample_state"
  have "fst ?p = Some (Inr ''done'')" by code_simp
  then obtain st' where p: "?p = (Some (Inr ''done''), st')" by (metis prod.collapse)
  have "manager_keyed (as_manager sample_state)"
    by (simp add: manager_keyed_def sample_state_def new_memory_def)
  from turn_is_atomic [OF this p] p show ?thesis by (simp add: sample_inbound_def inbound_new_def)
qed

text \<open>
  C11. Every call is answered: one iteration appends the assistant's message with the calls that the limit
  allows and then one result for each of them, in the order of the calls and with their
  identifiers, in whatever order the calls really ran.
\<close>

theorem results_answer_calls:
  "case run_calls_of L A msg r st of
     (calls, results, st') \<Rightarrow>
       calls = allowed_calls (as_limit st) (resp_tool_calls r)
       \<and> map fst results = map ltc_id calls
       \<and> messages (as_session st') = messages (as_session st) @ calls_message (resp_content r) calls
            # map (\<lambda>(cid, t, _). msg_tool_result cid t) results"
proof -
  let ?c = "allowed_calls (as_limit st) (resp_tool_calls r)"
  let ?p = "push_message L (calls_message (resp_content r) ?c) st"
  obtain rs st1 where b: "run_batch L A msg ?c ?p = (rs, st1)" by fastforce
  from run_batch_frame [OF b] b show ?thesis
    by (simp add: run_calls_of_def Let_def messages_push_results)
qed

text \<open>
  Any agent with a counter beside its world: the clock of the two theorems on calls is the counter. It goes up
  by \<open>pc\<close> with every provider call and by \<open>tc\<close> with every tool that the gate runs or the time limit stops.
\<close>

definition counted_provider :: "nat \<Rightarrow> 'w chat_provider \<Rightarrow> ('w \<times> nat) chat_provider" where
  "counted_provider pc P = \<lparr>provider_name = provider_name P, default_model = default_model P,
     chat = (\<lambda>q mo (w, n). map_option (\<lambda>(r, w'). (r, (w', n + pc))) (chat P q mo w)),
     chat_stream = (\<lambda>q mo (w, n). map_option (\<lambda>(r, w'). (r, (w', n + pc))) (chat_stream P q mo w))\<rparr>"

definition counted_tool :: "nat \<Rightarrow> ('v, 'w) tool \<Rightarrow> ('v, 'w \<times> nat) tool" where
  "counted_tool tc t args ctx w =
     (case t args ctx (fst w) of (r, w') \<Rightarrow> (r, (w', if tctx_channel ctx = None then snd w else snd w + tc)))"

definition counted_library :: "nat \<Rightarrow> nat \<Rightarrow> ('v, 'w) library \<Rightarrow> ('v, 'w \<times> nat) library" where
  "counted_library pc tc L = \<lparr>lib_json = lib_json L, lib_parse = lib_parse L, lib_parse_error = lib_parse_error L,
     lib_rx = lib_rx L, lib_say = lib_say L, lib_floor = lib_floor L, lib_sha = lib_sha L, lib_canon = lib_canon L,
     lib_digest = lib_digest L, lib_base64 = lib_base64 L, lib_read_image = lib_read_image L,
     lib_budget_summary = lib_budget_summary L, lib_now = lib_now L \<circ> fst, lib_readable = lib_readable L \<circ> fst,
     lib_write = lib_write L \<circ> fst, lib_rank = lib_rank L \<circ> fst,
     lib_tool_times_out = (\<lambda>name args w. map_option (\<lambda>w'. (w', snd w + tc)) (lib_tool_times_out L name args (fst w))),
     lib_flush_times_out = (\<lambda>w. map_option (\<lambda>w'. (w', snd w + pc)) (lib_flush_times_out L (fst w)))\<rparr>"

definition counted_agent :: "nat \<Rightarrow> nat \<Rightarrow> ('v, 'w) agent \<Rightarrow> ('v, 'w \<times> nat) agent" where
  "counted_agent pc tc A = \<lparr>lp_compaction = lp_compaction A, lp_max_tool_result_bytes = lp_max_tool_result_bytes A,
     lp_max_tool_iterations = lp_max_tool_iterations A, lp_tool_timeout_secs = lp_tool_timeout_secs A,
     lp_agent_timeout_secs = lp_agent_timeout_secs A, lp_model = lp_model A, lp_loop_guard = lp_loop_guard A,
     lp_safety = lp_safety A, lp_tools = map_option (counted_tool tc) \<circ> lp_tools A, lp_tool_defs = lp_tool_defs A,
     lp_policy = lp_policy A, lp_provider = map_option (counted_provider pc) (lp_provider A),
     lp_provider_registry = map_option (counted_provider pc) \<circ> lp_provider_registry A,
     lp_system_message = lp_system_message A, lp_memory = lp_memory A\<rparr>"

interpretation counted: chat_meter "counted_library pc tc L" "counted_agent pc tc A" snd pc tc for L A pc tc
  by unfold_locales
    (auto simp: agent_provider_def counted_agent_def counted_provider_def counted_library_def counted_tool_def split: prod.splits)

definition counted_state :: "tool_call_limit \<Rightarrow> (nat \<times> nat) agent_state" where
  "counted_state limit = \<lparr>as_session = session_new 0 [], as_manager = new_memory True,
     as_gate = \<lparr>gs_world = (0, 0), gs_taint = None, gs_audit = [], gs_metrics = []\<rparr>,
     as_budget = budget_unlimited, as_limit = limit, as_cache = None, as_outbox = []\<rparr>"

text \<open>
  C6. The loop ends: of any clock that calls of the agent's providers advance by at most one and that nothing else
  advances, a message takes at most one tick for the memory flush and, for the first call and each of the
  tool iterations, one more than the overflow retries. So the number of provider calls for a message is
  bounded by the configuration alone, whatever the provider answers.
\<close>

theorem provider_calls_bounded:
  assumes "\<And>P q mo w r w'. agent_provider A P \<Longrightarrow> chat P q mo w = Some (r, w') \<Longrightarrow> clock w' \<le> clock w + 1"
    and "\<And>name tool args ctx w. lp_tools A name = Some tool \<Longrightarrow> clock (snd (tool args ctx w)) \<le> clock w"
    and "\<And>name args w w'. lib_tool_times_out L name args w = Some w' \<Longrightarrow> clock w' \<le> clock w"
    and "\<And>w w'. lib_flush_times_out L w = Some w' \<Longrightarrow> clock w' \<le> clock w + 1"
    and "process_message L A msg st = (x, st')"
  shows "clock (as_world st')
    \<le> clock (as_world st) + 1 + (lp_max_tool_iterations A + 1) * (cc_overflow_retries (lp_compaction A) + 1)"
proof -
  have "chat_meter L A clock 1 0" using assms(1-4) by unfold_locales auto
  from chat_meter.message_ticks [OF this assms(5)] show ?thesis by auto
qed

theorem provider_calls_bounded_witness:
  "\<exists>x st'. process_message (counted_library 1 0 sample_library) (counted_agent 1 0 sample_agent) sample_inbound
       (counted_state (tracker_new None)) = (x, st')
     \<and> snd (as_world st') \<le> 0 + 1 + (5 + 1) * (3 + 1) \<and> snd (as_world st') = 3"
proof -
  let ?L = "counted_library 1 0 sample_library" and ?A = "counted_agent 1 0 sample_agent"
  let ?s = "counted_state (tracker_new None)"
  let ?p = "process_message ?L ?A sample_inbound ?s"
  obtain x st' where p: "?p = (x, st')" by fastforce
  have "snd (as_world (snd ?p)) = 3" by code_simp
  moreover have t: "lp_tools ?A name = Some tool \<Longrightarrow> snd (snd (tool args ctx w)) \<le> snd w" for name tool args ctx w
    using counted.tool_tick [of 1 0 sample_agent name tool ctx args w]
      counted.flush_silent [of 1 0 sample_agent name tool ctx args w] by auto
  have "snd (as_world st') \<le> snd (as_world ?s) + 1
      + (lp_max_tool_iterations ?A + 1) * (cc_overflow_retries (lp_compaction ?A) + 1)"
    by (rule provider_calls_bounded [where L = ?L and A = ?A and clock = snd])
      (use counted.provider_tick [of 1 0 sample_agent] counted.timeout_tick [of 1 0 sample_library]
         counted.flush_timeout_tick [of 1 0 sample_library] t p in auto)
  ultimately show ?thesis
    using p by (simp add: counted_state_def counted_agent_def sample_agent_def compaction_config_default_def)
qed

text \<open>
  The memory flush does not ask: before a compaction the agent runs every call of the model's flush
  response straight from the registry, under the name the model gave. Neither the hooks, the agent
  mode and the approval, nor the safety layer and taint tracking are consulted, and no audit event or
  metrics sample is left, so a tool that every message is refused can run here.
\<close>

theorem flush_runs_refused_tool:
  assumes "lp_provider A = Some P" "list_ex (\<lambda>d. td_name d = ''longterm_memory'') (lp_tool_defs A)"
    and "lib_flush_times_out L (as_world st) = None"
    and "chat P (msg_system ''You are a memory management assistant.'' # messages (as_session st)
            @ [msg_user memory_flush_prompt], filter (\<lambda>d. td_name d = ''longterm_memory'') (lp_tool_defs A))
          (Some (lp_model A)) (as_world st) = Some (Inr r, w)"
    and "resp_tool_calls r = [tc]" "lib_parse L (ltc_arguments tc) = Some args" "lp_tools A (ltc_name tc) = Some tool"
    and "tool args no_ctx w = (Some res, w')"
  shows "memory_flush L A st = (Some (), set_world w' st) \<and> calm_view (set_world w' st) = calm_view st"
proof -
  have "filter (\<lambda>d. td_name d = ''longterm_memory'') (lp_tool_defs A) \<noteq> []"
    using assms(2) by (auto simp: filter_empty_conv list_ex_iff)
  then show ?thesis
    using assms by (simp add: memory_flush_def Let_def call_provider_def execute_with_context_def no_ctx_def set_world_def
        calm_view_def)
qed

definition rogue_provider :: "nat chat_provider" where
  "rogue_provider = sample_provider\<lparr>chat := (\<lambda>_ _ w. Some (Inr \<lparr>resp_content = [], resp_tool_calls =
     [\<lparr>ltc_id = ''a'', ltc_name = ''shell'', ltc_arguments = ''rm''\<rparr>], resp_usage = None\<rparr>, w))\<rparr>"

definition guarded_agent :: "(string, nat) agent" where
  "guarded_agent = sample_agent\<lparr>lp_provider := Some rogue_provider, lp_tools := [''shell'' \<mapsto> counting_tool],
     lp_policy := sample_admission\<lparr>ad_mode := Observer\<rparr>,
     lp_tool_defs := [\<lparr>td_name = ''longterm_memory'', td_description = [], td_schema = []\<rparr>]\<rparr>"

theorem flush_runs_refused_tool_witness:
  "memory_flush sample_library guarded_agent sample_state = (Some (), set_world 1 sample_state)
   \<and> (\<exists>m. admit_tool (lib_floor sample_library) sample_json 0 (admission_for guarded_agent sample_inbound) ''shell'' ''rm''
        = Refuse m)"
proof -
  have "memory_flush sample_library guarded_agent sample_state = (Some (), set_world 1 sample_state)
      \<and> calm_view (set_world 1 sample_state) = calm_view sample_state"
    by (rule flush_runs_refused_tool [where P = rogue_provider and w = 0 and args = "''rm''" and tool = counting_tool
          and res = "Inr (output_llm_only ''rm'')" and r = "\<lparr>resp_content = [], resp_tool_calls =
            [\<lparr>ltc_id = ''a'', ltc_name = ''shell'', ltc_arguments = ''rm''\<rparr>], resp_usage = None\<rparr>"
          and tc = "\<lparr>ltc_id = ''a'', ltc_name = ''shell'', ltc_arguments = ''rm''\<rparr>"])
      (simp_all add: guarded_agent_def sample_library_def rogue_provider_def sample_state_def idle_state_def counting_tool_def)
  moreover have "case admit_tool (lib_floor sample_library) sample_json 0 (admission_for guarded_agent sample_inbound) ''shell'' ''rm''
      of Refuse m \<Rightarrow> True | _ \<Rightarrow> False" by code_simp
  ultimately show ?thesis by (auto split: decision.splits)
qed

text \<open>
  The cache answers for other conversations: its key is made of the configured model, the system message and the
  text of the message. When it holds an answer under that key, a message gets it whatever the history of its
  session, whatever model its metadata asks for and whatever provider that resolves to, and no provider is called.
\<close>

theorem cached_answer_ignores_conversation:
  assumes "prepare L A (push_message L (inbound_to_message (lib_base64 L) msg) st) = (Some (), st1)"
    and "guard_context L A msg (lp_memory A (content (inbound_to_message (lib_base64 L) msg))) True (lp_tool_defs A) st1
          = Some (m # ms, st2)"
    and "\<not> budget_is_exceeded (as_budget st2)" "msg_role m = RSystem" "as_cache st2 = Some c"
    and "cache_get (lib_now L (as_world st2))
          (cache_key (lib_digest L) (lp_model A) (content m) (content (inbound_to_message (lib_base64 L) msg))) c = (Some hit, c')"
  shows "run_turn L A P msg st = finish_turn L hit (st2\<lparr>as_cache := Some c'\<rparr>)"
  using assms by (simp add: run_turn_def Let_def turn_cache_key_def lookup_cache_def)

definition other_session :: inbound_message where
  "other_session = (inbound_new ''cli'' ''you'' ''2'' ''yes'')\<lparr>im_metadata := [''model_override'' \<mapsto> ''big'']\<rparr>"

definition shared_cache :: response_cache where
  "shared_cache = cache_put 0 (cache_key id ''m'' ''sys'' ''yes'') ''Deleted.'' 1 (response_cache_new [] 60 10)"

definition cached_state :: "nat agent_state" where
  "cached_state = sample_state\<lparr>as_cache := Some shared_cache,
     as_session := add_message 0 (msg_user ''Shall we meet on Monday?'') (session_new 0 ''cli:2'')\<rparr>"

theorem cached_answer_ignores_conversation_witness:
  "\<exists>st2 c'. run_turn sample_library sample_agent sample_provider other_session cached_state
      = finish_turn sample_library ''Deleted.'' (st2\<lparr>as_cache := Some c'\<rparr>)
    \<and> resolve_model_for_message sample_agent other_session = ''big''"
proof -
  let ?u = "inbound_to_message id other_session"
  let ?st1 = "push_message sample_library ?u cached_state"
  let ?ms = "messages (as_session ?st1)"
  have m: "lp_monitor sample_agent = None" by code_simp
  have p: "prepare sample_library sample_agent ?st1 = (Some (), ?st1)" by (simp add: prepare_def m)
  have b: "build_resolved_messages sample_library sample_agent other_session None ?st1
      = msg_system ''sys'' # ?ms" by code_simp
  have g: "guard_context sample_library sample_agent other_session None True (lp_tool_defs sample_agent) ?st1
      = Some (msg_system ''sys'' # ?ms, ?st1)" by (simp add: guard_context_def m b)
  have "fst (cache_get 0 (cache_key id ''m'' ''sys'' ''yes'') shared_cache) = Some ''Deleted.''" by code_simp
  then obtain c' where c: "cache_get 0 (cache_key id ''m'' ''sys'' ''yes'') shared_cache = (Some ''Deleted.'', c')"
    by (metis prod.collapse)
  have u: "content ?u = ''yes''" by code_simp
  have s: "lib_base64 sample_library = id" "lp_memory sample_agent = (\<lambda>_. None)" "lib_digest sample_library = id"
      "as_cache ?st1 = Some shared_cache" "content (msg_system ''sys'') = ''sys''" "msg_role (msg_system ''sys'') = RSystem"
    by (simp_all add: sample_library_def sample_agent_def push_message_def cached_state_def msg_system_def)
  have e: "lp_model sample_agent = ''m''" "lib_now sample_library (as_world cached_state) = 0" "\<not> budget_is_exceeded (as_budget ?st1)"
    by code_simp+
  have "run_turn sample_library sample_agent sample_provider other_session cached_state
      = finish_turn sample_library ''Deleted.'' (?st1\<lparr>as_cache := Some c'\<rparr>)"
    by (rule cached_answer_ignores_conversation [where ?st1.0 = ?st1 and m = "msg_system ''sys''" and ms = ?ms and c = shared_cache])
      (simp_all add: s e p g u c)
  moreover have "resolve_model_for_message sample_agent other_session = ''big''" by code_simp
  ultimately show ?thesis by blast
qed

end
