(* ===== verification/Agent_Stream.thy ===== *)
theory Agent_Stream
  imports Agent_Loop
begin

text \<open>
  A message whose answer is streamed (\<open>process_message_streaming\<close> of \<open>src/src/agent/loop.rs\<close>): the turn up to the
  end of the tool loop is that of an ordinary message, without the response cache; then the answer is asked for again as a stream,
  without tools, and a task of its own passes the events on and saves the session when the stream is done. Where
  the tool loop ends with calls left, its text is the only event.

  A stream is the list of its events, as in the provider theory. The receiver keeps taking them, so no send fails.
\<close>

section \<open>The tool loop\<close>

text \<open>
  How the loop ends: with a final streamed call, with the text of a response whose calls stay open, or with an
  error or a panic.
\<close>

datatype stream_end = Stream_Final | Stream_Text string "usage option" | Stream_Failed "zepto_error option"

definition ended_text :: "llm_response \<Rightarrow> string zresult option \<Rightarrow> stream_end" where
  "ended_text r x =
     (case x of
        Some (Inr text) \<Rightarrow> Stream_Text text (resp_usage r)
      | Some (Inl e) \<Rightarrow> Stream_Failed (Some e)
      | None \<Rightarrow> Stream_Failed None)"

text \<open>One iteration: as in an ordinary message, but once the limit is reached the final call takes the place of the synthesis.\<close>

definition stream_step ::
    "('v, 'w) library \<Rightarrow> ('v, 'w) agent \<Rightarrow> 'w chat_provider \<Rightarrow> string \<Rightarrow> inbound_message \<Rightarrow> string option
       \<Rightarrow> llm_response \<Rightarrow> loop_guard option \<Rightarrow> 'w agent_state
       \<Rightarrow> (stream_end + llm_response \<times> loop_guard option) \<times> 'w agent_state" where
  "stream_step L A P model msg memory r g st =
     (case run_calls_of L A msg r st of
        (calls, results, st1) \<Rightarrow>
          (case compact_if_urgent A st1 of
             None \<Rightarrow> (Inl (Stream_Failed None), st1)
           | Some st2 \<Rightarrow>
               if list_ex (\<lambda>(_, _, pause). pause) results then (Inl (Stream_Text (resp_content r) (resp_usage r)), st2)
               else let st3 = st2\<lparr>as_limit := tracker_increment (word_of_nat (length calls)) (as_limit st2)\<rparr>
                    in if tracker_is_exceeded (as_limit st3) then (Inl Stream_Final, st3)
                       else (case next_response L A P model msg memory r calls (map (\<lambda>(i, t, _). (i, t)) results) g st3 of
                               (Finish x, st4) \<Rightarrow> (Inl (ended_text r x), st4)
                             | (Continue r' g', st4) \<Rightarrow> (Inr (r', g'), st4))))"

fun stream_loop ::
    "('v, 'w) library \<Rightarrow> ('v, 'w) agent \<Rightarrow> 'w chat_provider \<Rightarrow> string \<Rightarrow> inbound_message \<Rightarrow> string option
       \<Rightarrow> nat \<Rightarrow> llm_response \<Rightarrow> loop_guard option \<Rightarrow> 'w agent_state \<Rightarrow> stream_end \<times> 'w agent_state" where
  "stream_loop L A P model msg memory 0 r g st =
     (if resp_tool_calls r = [] then Stream_Final else Stream_Text (resp_content r) (resp_usage r), st)"
| "stream_loop L A P model msg memory (Suc n) r g st =
     (if resp_tool_calls r = [] then (Stream_Final, st)
      else if tracker_is_exceeded (as_limit st) then (Stream_Text (resp_content r) (resp_usage r), st)
      else case stream_step L A P model msg memory r g st of
             (Inl e, st1) \<Rightarrow> (e, st1)
           | (Inr (r', g'), st1) \<Rightarrow> stream_loop L A P model msg memory n r' g' st1)"

section \<open>The stream\<close>

text \<open>
  The task that passes the events on. At the end of the stream it saves the session with the answer,
  whatever comes of it, before it passes the end on; at tool calls it stops.
\<close>

fun forward_stream :: "('v, 'w) library \<Rightarrow> stream_event list \<Rightarrow> 'w agent_state \<Rightarrow> stream_event list \<times> 'w agent_state" where
  "forward_stream L [] st = ([], st)"
| "forward_stream L (Done c u # es) st = ([Done c u], snd (finish_turn L c st))"
| "forward_stream L (ToolCalls tcs # es) st = ([ToolCalls tcs], st)"
| "forward_stream L (e # es) st = (case forward_stream L es st of (es', st') \<Rightarrow> (e # es', st'))"

definition final_stream ::
    "('v, 'w) library \<Rightarrow> ('v, 'w) agent \<Rightarrow> 'w chat_provider \<Rightarrow> string \<Rightarrow> inbound_message \<Rightarrow> string option
       \<Rightarrow> 'w agent_state \<Rightarrow> (stream_event list, 'w) outcome" where
  "final_stream L A P model msg memory st =
     (case chat_stream P (build_resolved_messages L A msg memory st, []) (Some model) (as_world st) of
        None \<Rightarrow> (None, st)
      | Some (Inl e, w) \<Rightarrow> (Some (Inl e), set_world w st)
      | Some (Inr es, w) \<Rightarrow> (case forward_stream L es (set_world w st) of (es', st') \<Rightarrow> (Some (Inr es'), st')))"

text \<open>A text that needs no stream is saved, and a save that fails is the error of the message.\<close>

definition text_stream :: "('v, 'w) library \<Rightarrow> string \<Rightarrow> usage option \<Rightarrow> 'w agent_state \<Rightarrow> (stream_event list, 'w) outcome" where
  "text_stream L text u st =
     (case finish_turn L text st of (x, st') \<Rightarrow> (map_option (map_sum id (\<lambda>t. [Done t u])) x, st'))"

definition end_stream ::
    "('v, 'w) library \<Rightarrow> ('v, 'w) agent \<Rightarrow> 'w chat_provider \<Rightarrow> string \<Rightarrow> inbound_message \<Rightarrow> string option
       \<Rightarrow> stream_end \<Rightarrow> 'w agent_state \<Rightarrow> (stream_event list, 'w) outcome" where
  "end_stream L A P model msg memory e st =
     (case e of
        Stream_Final \<Rightarrow> final_stream L A P model msg memory st
      | Stream_Text text u \<Rightarrow> text_stream L text u st
      | Stream_Failed x \<Rightarrow> (map_option Inl x, st))"

section \<open>One message\<close>

definition stream_answer ::
    "('v, 'w) library \<Rightarrow> ('v, 'w) agent \<Rightarrow> 'w chat_provider \<Rightarrow> inbound_message \<Rightarrow> string option
       \<Rightarrow> message list \<Rightarrow> 'w agent_state \<Rightarrow> (stream_event list, 'w) outcome" where
  "stream_answer L A P msg memory ms st =
     (let model = resolve_model_for_message A msg
      in case chat_recovering L A P model msg memory 8 (lp_tool_defs A) 0 (cc_overflow_retries (lp_compaction A)) ms st of
           (Some (Inr r), st1) \<Rightarrow>
             (case stream_loop L A P model msg memory (lp_max_tool_iterations A) r
                     (if enabled (lp_loop_guard A) then Some (loop_guard_new (lp_loop_guard A)) else None)
                     (record_response r st1) of
                (e, st2) \<Rightarrow> end_stream L A P model msg memory e st2)
         | (Some (Inl e), st1) \<Rightarrow> (Some (Inl e), st1)
         | (None, st1) \<Rightarrow> (None, st1))"

definition stream_turn ::
    "('v, 'w) library \<Rightarrow> ('v, 'w) agent \<Rightarrow> 'w chat_provider \<Rightarrow> inbound_message \<Rightarrow> 'w agent_state
       \<Rightarrow> (stream_event list, 'w) outcome" where
  "stream_turn L A P msg st =
     (let user = inbound_to_message (lib_base64 L) msg; memory = lp_memory A (content user)
      in case prepare L A (push_message L user st) of
           (None, st1) \<Rightarrow> (None, st1)
         | (Some _, st1) \<Rightarrow>
             (case guard_context L A msg memory True (lp_tool_defs A) st1 of
                None \<Rightarrow> (None, st1)
              | Some (ms, st2) \<Rightarrow>
                  if budget_is_exceeded (as_budget st2)
                  then (Some (Inl (Provider (''Token budget exceeded: '' @ lib_budget_summary L (as_budget st2)))), st2)
                  else stream_answer L A P msg memory ms st2))"

definition process_message_streaming ::
    "('v, 'w) library \<Rightarrow> ('v, 'w) agent \<Rightarrow> inbound_message \<Rightarrow> 'w agent_state \<Rightarrow> (stream_event list, 'w) outcome" where
  "process_message_streaming L A msg st =
     (let st0 = st\<lparr>as_limit := tracker_reset (as_limit st), as_budget := budget_reset (as_budget st)\<rparr>
      in if injection_blocked L A msg
         then (Some (Inl (Tool ''Message rejected: potential prompt injection detected'')), st0)
         else case resolve_provider_for_message A msg of
                None \<Rightarrow> (Some (Inl (Provider ''No provider configured'')), st0)
              | Some P \<Rightarrow>
                  (case get_or_create (lib_readable L (as_world st0)) (lib_now L (as_world st0)) (im_session_key msg)
                          (as_manager st0) of
                     (Inl e, m) \<Rightarrow> (Some (Inl e), st0\<lparr>as_manager := m\<rparr>)
                   | (Inr s, m) \<Rightarrow> stream_turn L A P msg (st0\<lparr>as_manager := m, as_session := s\<rparr>)))"

section \<open>What the tools tell the user\<close>

text \<open>The messages to the user that a turn adds to the outbox are those of its tools, for the chat of the message.\<close>

definition told :: "inbound_message \<Rightarrow> 'w agent_state \<Rightarrow> 'w agent_state \<Rightarrow> bool" where
  "told msg st st' \<longleftrightarrow> (\<exists>texts. as_outbox st' = as_outbox st @ map (user_message msg) texts)"

lemma told_same: "as_outbox st' = as_outbox st \<Longrightarrow> told msg st st'"
  unfolding told_def by (intro exI [of _ "[]"]) simp

lemma told_trans: "told msg a b \<Longrightarrow> told msg b c \<Longrightarrow> told msg a c"
  unfolding told_def by (metis append.assoc map_append)

lemma told_cong: "as_outbox a = as_outbox a' \<Longrightarrow> as_outbox b = as_outbox b' \<Longrightarrow> told msg a b \<longleftrightarrow> told msg a' b'"
  by (simp add: told_def)

lemma calm_outbox: "calm_view a = calm_view b \<Longrightarrow> as_outbox a = as_outbox b"
  by (simp add: calm_view_def)

lemmas calm_told = told_same [OF calm_outbox]

lemma told_tool_call:
  assumes "run_tool_call L A msg budget tc st = (r, st')"
  shows "told msg (st :: 'a agent_state) st'"
proof -
  have *: "told msg st (x\<lparr>as_outbox := as_outbox st @ [user_message msg t]\<rparr>)" for x :: "'a agent_state" and t
    unfolding told_def by (intro exI [of _ "[t]"]) simp
  from assms show ?thesis
    by (auto simp: run_tool_call_def Let_def * told_same split: decision.splits prod.splits option.splits
        dest!: perform_call_frame)
qed

lemma told_order: "run_order L A msg budget calls is done st = (d, st') \<Longrightarrow> told msg st st'"
proof (induction "is" arbitrary: "done" st)
  case (Cons i "is")
  obtain r st1 where c: "run_tool_call L A msg budget (calls ! i) st = (r, st1)" by fastforce
  with Cons.prems have "run_order L A msg budget calls is (done(i \<mapsto> r)) st1 = (d, st')" by simp
  from told_trans [OF told_tool_call [OF c] Cons.IH [OF this]] show ?case .
qed (simp add: told_same)

lemma told_calls:
  assumes "run_calls_of L A msg r st = (calls, rs, st')"
  shows "told msg st st'"
proof -
  let ?c = "allowed_calls (as_limit st) (resp_tool_calls r)"
  let ?p = "push_message L (calls_message (resp_content r) ?c) st"
  obtain st1 where b: "run_batch L A msg ?c ?p = (rs, st1)" and *: "st' = push_results L rs st1"
    using assms by (auto simp: run_calls_of_def Let_def split: prod.splits)
  have "told msg ?p st1" using b by (auto simp: run_batch_def Let_def split: prod.splits dest!: told_order)
  moreover have "as_outbox st' = as_outbox st1" "as_outbox ?p = as_outbox st" using * by (auto intro: calm_outbox)
  ultimately show ?thesis by (simp add: told_def)
qed

lemma told_tool_step:
  assumes "tool_step L A P model msg memory r g st = (x, st')"
  shows "told msg st st'"
proof -
  obtain calls rs st1 where c: "run_calls_of L A msg r st = (calls, rs, st1)" by (metis prod_cases3)
  have "as_outbox st' = as_outbox st1"
    using assms c
    by (auto simp: tool_step_def Let_def split: option.splits if_splits prod.splits
        dest!: calm_compact [THEN calm_outbox] calm_synthesis [THEN calm_outbox] calm_next_response [THEN calm_outbox])
  with told_calls [OF c] show ?thesis by (simp add: told_def)
qed

lemma told_tool_loop: "tool_loop L A P model msg memory n r g st = (x, st') \<Longrightarrow> told msg st st'"
proof (induction n arbitrary: r g st)
  case (Suc n)
  obtain y st1 where s: "tool_step L A P model msg memory r g st = (y, st1)" by fastforce
  from Suc.prems s told_tool_step [OF s] Suc.IH show ?case
    by (cases y) (auto split: if_splits intro: told_same told_trans)
qed (simp add: told_same)

lemma told_finish: "finish_turn L t st = (x, st') \<Longrightarrow> as_outbox st' = as_outbox st"
  by (auto simp: finish_turn_def Let_def push_message_def split: prod.splits sum.splits)

lemma told_answer:
  assumes "answer L A P msg memory k ms st = (x, st')"
  shows "told msg st st'"
proof -
  let ?model = "resolve_model_for_message A msg"
  obtain y st1 where c: "chat_recovering L A P ?model msg memory 8 (lp_tool_defs A) 0
      (cc_overflow_retries (lp_compaction A)) ms st = (y, st1)" by fastforce
  note v = calm_outbox [OF calm_chat_recovering [OF c]]
  show ?thesis
  proof (cases "\<exists>r. y = Some (Inr r)")
    case False
    then show ?thesis using assms c v by (auto simp: answer_def told_same split: option.splits sum.splits)
  next
    case True
    then obtain r where y: "y = Some (Inr r)" by blast
    let ?st2 = "store_cache L k r (record_response r st1)"
    obtain z st3 where l: "tool_loop L A P ?model msg memory (lp_max_tool_iterations A) r
        (if enabled (lp_loop_guard A) then Some (loop_guard_new (lp_loop_guard A)) else None) ?st2 = (z, st3)" by fastforce
    have "as_outbox ?st2 = as_outbox st" using calm_outbox [of ?st2 st1] v by simp
    moreover have "as_outbox st' = as_outbox st3"
      using assms c y l by (auto simp: answer_def split: option.splits sum.splits dest: told_finish)
    ultimately show ?thesis using told_tool_loop [OF l] by (simp add: told_def)
  qed
qed

lemma told_run_turn:
  assumes "run_turn L A P msg st = (x, st')"
  shows "told msg st st'"
  using assms
proof (cases rule: run_turn_cases)
  case early
  from early(1) show ?thesis by (rule calm_told)
next
  case (cached st1 t)
  then show ?thesis using told_finish [OF cached(2)] calm_outbox [OF cached(1)] by (simp add: told_same)
next
  case (answered st1 memory k ms)
  then show ?thesis using told_answer [OF answered(2)] calm_outbox [OF answered(1)] by (simp add: told_def)
qed

lemma told_message:
  assumes "process_message L A msg st = (x, st')"
  shows "told msg st st'"
  using assms
proof (cases rule: process_message_cases)
  case (turn P s sm)
  from told_run_turn [OF turn(3)] show ?thesis by (simp add: told_def fresh_counters_def)
qed (simp_all add: told_same fresh_counters_def)

section \<open>A streamed turn\<close>

text \<open>What an iteration, and the loop, leave alone, and what they add.\<close>

lemma held_stream_step:
  assumes "stream_step L A P model msg memory r g st = (x, st')"
  shows "held st' = held st \<and> told msg st st'"
proof -
  obtain calls rs st1 where c: "run_calls_of L A msg r st = (calls, rs, st1)" by (metis prod_cases3)
  have "held st' = held st1 \<and> as_outbox st' = as_outbox st1"
    using assms c
    by (auto simp: stream_step_def Let_def held_def calm_view_def split: option.splits if_splits prod.splits step_end.splits
        dest!: calm_compact calm_next_response)
  with held_run_calls [OF c] told_calls [OF c] show ?thesis by (simp add: told_def)
qed

lemma held_stream_loop:
  "stream_loop L A P model msg memory n r g st = (e, st') \<Longrightarrow> held st' = held st \<and> told msg st st'"
proof (induction n arbitrary: r g st)
  case (Suc n)
  obtain y st1 where s: "stream_step L A P model msg memory r g st = (y, st1)" by fastforce
  from Suc.prems s held_stream_step [OF s] Suc.IH show ?case
    by (cases y) (fastforce split: if_splits intro: told_same told_trans)+
qed (auto simp: told_same split: if_splits)

text \<open>Storing the answer: one save of the turn's session, whatever becomes of it.\<close>

definition stored_with :: "session_manager \<Rightarrow> string \<Rightarrow> string \<Rightarrow> unit zresult \<Rightarrow> 'w agent_state \<Rightarrow> bool" where
  "stored_with m k c q st' \<longleftrightarrow>
     key (as_session st') = k \<and> (\<exists>ms. messages (as_session st') = ms @ [msg_assistant c])
     \<and> (\<exists>fate. sm_save fate (as_session st') m = (q, as_manager st'))"

lemma finish_stores:
  assumes "finish_turn L t st = (x, st')"
  obtains q where "x = Some (map_sum id (\<lambda>_. t) q)" "stored_with (as_manager st) (key (as_session st)) t q st'"
proof -
  let ?st1 = "push_message L (msg_assistant t) st"
  obtain q m where s: "sm_save (lib_write L (as_world ?st1)) (as_session ?st1) (as_manager ?st1) = (q, m)" by fastforce
  then have x: "x = Some (map_sum id (\<lambda>_. t) q)" "st' = ?st1\<lparr>as_manager := m\<rparr>"
    using assms by (auto simp: finish_turn_def Let_def split: sum.splits)
  have "as_manager ?st1 = as_manager st" "key (as_session ?st1) = key (as_session st)"
    by (simp_all add: push_message_def add_message_def)
  with s x show thesis by (intro that [of q]) (auto simp: stored_with_def intro!: exI [of _ "lib_write L (as_world ?st1)"])
qed

text \<open>The end of a stream comes last, and only it stores the session.\<close>

fun is_done :: "stream_event \<Rightarrow> bool" where
  "is_done (Done _ _) = True"
| "is_done _ = False"

lemma forward_stores:
  "forward_stream L es st = (es', st') \<Longrightarrow>
     as_outbox st' = as_outbox st \<and> as_world st' = as_world st \<and> as_limit st' = as_limit st
     \<and> (held st' = held st \<and> list_all (Not \<circ> is_done) es'
        \<or> (\<exists>es0 c u q. es' = es0 @ [Done c u] \<and> list_all (Not \<circ> is_done) es0
             \<and> stored_with (as_manager st) (key (as_session st)) c q st'))"
proof (induction es arbitrary: es' st)
  case (Cons e es)
  show ?case
  proof (cases "is_done e")
    case True
    then obtain c u where e: "e = Done c u" by (cases e) auto
    obtain x st1 where f: "finish_turn L c st = (x, st1)" by fastforce
    have "as_outbox st1 = as_outbox st \<and> as_world st1 = as_world st \<and> as_limit st1 = as_limit st"
      using f by (auto simp: finish_turn_def Let_def push_message_def split: prod.splits sum.splits)
    moreover obtain q where "stored_with (as_manager st) (key (as_session st)) c q st1" using finish_stores [OF f] by metis
    moreover have "es' = [] @ [Done c u]" "st' = st1" "list_all (Not \<circ> is_done) []" using Cons.prems e f by simp_all
    ultimately show ?thesis by blast
  next
    case more: False
    show ?thesis
    proof (cases "\<exists>tcs. e = ToolCalls tcs")
      case True
      then show ?thesis using Cons.prems by auto
    next
      case False
      obtain es1 st1 where f: "forward_stream L es st = (es1, st1)" by fastforce
      with Cons.prems more False have e: "es' = e # es1" "st' = st1" by (cases e; auto)+
      from Cons.IH [of st es1] f e(2) more show ?thesis unfolding e(1) by (force intro: exI [of _ "e # _"])
    qed
  qed
qed auto

text \<open>What a streamed message does to the store.\<close>

definition stored_stream :: "session_manager \<Rightarrow> string \<Rightarrow> stream_event list zresult option \<Rightarrow> 'w agent_state \<Rightarrow> bool" where
  "stored_stream m k x st' \<longleftrightarrow>
     (case x of
        Some (Inr es) \<Rightarrow>
          (as_manager st' = m \<and> key (as_session st') = k \<and> list_all (Not \<circ> is_done) es)
          \<or> (\<exists>es0 c u q. es = es0 @ [Done c u] \<and> list_all (Not \<circ> is_done) es0 \<and> stored_with m k c q st')
      | Some (Inl e) \<Rightarrow>
          (as_manager st' = m \<and> key (as_session st') = k) \<or> (\<exists>c. e = Io ''write'' \<and> stored_with m k c (Inl e) st')
      | None \<Rightarrow> as_manager st' = m \<and> key (as_session st') = k)"

lemma sm_save_error: "sm_save fate s m = (Inl e, m') \<Longrightarrow> e = Io ''write''"
  by (auto simp: sm_save_def Let_def split: option.splits write_outcome.splits)

lemma stored_end:
  assumes "end_stream L A P model msg memory e st = (x, st')"
  shows "stored_stream (as_manager st) (key (as_session st)) x st' \<and> as_outbox st' = as_outbox st"
proof (cases e)
  case Stream_Final
  let ?q = "chat_stream P (build_resolved_messages L A msg memory st, []) (Some model) (as_world st)"
  show ?thesis
  proof (cases "\<exists>es w. ?q = Some (Inr es, w)")
    case True
    then obtain es w where q: "?q = Some (Inr es, w)" by blast
    obtain es' st1 where f: "forward_stream L es (set_world w st) = (es', st1)" by fastforce
    have h: "held (set_world w st) = held st" "as_outbox (set_world w st) = as_outbox st"
      by (auto intro: calm_held calm_outbox)
    from assms Stream_Final q f have "x = Some (Inr es')" "st' = st1" by (auto simp: end_stream_def final_stream_def)
    with forward_stores [OF f] h show ?thesis by (auto simp: stored_stream_def held_def)
  next
    case False
    then show ?thesis using assms Stream_Final
      by (auto simp: end_stream_def final_stream_def stored_stream_def set_world_def split: option.splits sum.splits prod.splits)
  qed
next
  case (Stream_Text t u)
  obtain y st1 where f: "finish_turn L t st = (y, st1)" by fastforce
  from assms Stream_Text f have x: "x = map_option (map_sum id (\<lambda>t. [Done t u])) y" "st' = st1"
    by (auto simp: end_stream_def text_stream_def)
  from finish_stores [OF f] obtain q where q: "y = Some (map_sum id (\<lambda>_. t) q)"
    "stored_with (as_manager st) (key (as_session st)) t q st1" .
  have "stored_stream (as_manager st) (key (as_session st)) x st'"
  proof (cases q)
    case (Inl e')
    then have "e' = Io ''write''" using q(2) by (auto simp: stored_with_def dest: sm_save_error)
    then show ?thesis using x q Inl by (auto simp: stored_stream_def)
  next
    case (Inr v)
    then show ?thesis using x q by (fastforce simp: stored_stream_def intro!: exI [of _ "[]"])
  qed
  then show ?thesis using x told_finish [OF f] by simp
next
  case (Stream_Failed e')
  then show ?thesis using assms by (cases e') (auto simp: end_stream_def stored_stream_def)
qed

lemma stored_stream_early:
  assumes "calm_view st' = calm_view st" "\<not> (\<exists>es. x = Some (Inr es))"
  shows "stored_stream (as_manager st) (key (as_session st)) x st' \<and> told msg st st'"
  using calm_held [OF assms(1)] calm_told [OF assms(1)] assms(2)
  by (auto simp: stored_stream_def held_def split: option.splits sum.splits)

lemma stored_stream_answer:
  assumes "stream_answer L A P msg memory ms st = (x, st')"
  shows "stored_stream (as_manager st) (key (as_session st)) x st' \<and> told msg st st'"
proof -
  let ?model = "resolve_model_for_message A msg"
  obtain y st1 where c: "chat_recovering L A P ?model msg memory 8 (lp_tool_defs A) 0
      (cc_overflow_retries (lp_compaction A)) ms st = (y, st1)" by fastforce
  note v = calm_chat_recovering [OF c]
  show ?thesis
  proof (cases "\<exists>r. y = Some (Inr r)")
    case False
    then have "st' = st1" "\<not> (\<exists>es. x = Some (Inr es))"
      using assms c by (auto simp: stream_answer_def Let_def split: option.splits sum.splits)
    with v show ?thesis using stored_stream_early by blast
  next
    case True
    then obtain r where y: "y = Some (Inr r)" by blast
    have v1: "calm_view (record_response r st1) = calm_view st" using v by simp
    obtain e st2 where l: "stream_loop L A P ?model msg memory (lp_max_tool_iterations A) r
        (if enabled (lp_loop_guard A) then Some (loop_guard_new (lp_loop_guard A)) else None) (record_response r st1) = (e, st2)"
      by fastforce
    from assms c y l have e: "end_stream L A P ?model msg memory e st2 = (x, st')" by (auto simp: stream_answer_def)
    from held_stream_loop [OF l] stored_end [OF e] calm_held [OF v1] calm_outbox [OF v1]
    show ?thesis by (simp add: held_def told_def)
  qed
qed

lemma stored_stream_turn:
  assumes "stream_turn L A P msg st = (x, st')"
  shows "stored_stream (as_manager st) (key (as_session st)) x st' \<and> told msg st st'"
proof -
  let ?user = "inbound_to_message (lib_base64 L) msg"
  let ?memory = "lp_memory A (content ?user)"
  obtain p st1 where p: "prepare L A (push_message L ?user st) = (p, st1)" by fastforce
  have v1: "calm_view st1 = calm_view st" using calm_prepare [OF p] by simp
  note early = stored_stream_early [of st' st x msg]
  show ?thesis
  proof (cases "p = None \<or> guard_context L A msg ?memory True (lp_tool_defs A) st1 = None")
    case True
    then show ?thesis using early v1 assms p by (auto simp: stream_turn_def Let_def split: option.splits)
  next
    case False
    then obtain ms st2 where g: "guard_context L A msg ?memory True (lp_tool_defs A) st1 = Some (ms, st2)" by fastforce
    have v2: "calm_view st2 = calm_view st" using calm_guard_context [OF g] v1 by simp
    show ?thesis
    proof (cases "budget_is_exceeded (as_budget st2)")
      case True
      then show ?thesis using early v2 assms p g False by (auto simp: stream_turn_def Let_def)
    next
      case within: False
      then have "stream_answer L A P msg ?memory ms st2 = (x, st')"
        using assms p g False by (auto simp: stream_turn_def Let_def)
      from stored_stream_answer [OF this] calm_held [OF v2] calm_outbox [OF v2]
      show ?thesis by (simp add: held_def told_def)
    qed
  qed
qed

text \<open>The file of the session directory with a name, if there is one.\<close>

definition stored_at :: "session_manager \<Rightarrow> string \<Rightarrow> stored_file option" where
  "stored_at m name = Option.bind (sm_disk m) (\<lambda>d. d name)"

lemma sm_save_effect:
  assumes "sm_save fate s m = (q, m')"
  shows "sm_sessions m' = (sm_sessions m)(key s \<mapsto> s)
    \<and> (\<forall>name. name \<noteq> session_file (key s) \<longrightarrow> stored_at m' name = stored_at m name)
    \<and> stored_at m' (session_file (key s)) \<in> {Some (Stored_Session s), stored_at m (session_file (key s)), Some Stored_Garbage}
    \<and> (\<forall>e. q = Inl e \<longrightarrow> stored_at m' (session_file (key s)) \<noteq> Some (Stored_Session s)
         \<or> stored_at m' (session_file (key s)) = stored_at m (session_file (key s)))"
  using assms
  by (auto simp: sm_save_def cache_session_def stored_at_def Let_def split: option.splits write_outcome.splits)

lemma sm_save_keyed:
  assumes "sm_save fate s m = (q, m')" "manager_keyed m"
  shows "manager_keyed m'"
  using assms by (auto simp: sm_save_def cache_session_def manager_keyed_def Let_def split: option.splits write_outcome.splits if_splits)

lemma stored_with_effect:
  assumes "stored_with m k c q st'"
  shows "sm_sessions (as_manager st') = (sm_sessions m)(k \<mapsto> as_session st')
    \<and> (\<forall>name. name \<noteq> session_file k \<longrightarrow> stored_at (as_manager st') name = stored_at m name)
    \<and> stored_at (as_manager st') (session_file k)
        \<in> {Some (Stored_Session (as_session st')), stored_at m (session_file k), Some Stored_Garbage}
    \<and> (\<forall>e. q = Inl e \<longrightarrow> stored_at (as_manager st') (session_file k) \<in> {stored_at m (session_file k), Some Stored_Garbage})
    \<and> (manager_keyed m \<longrightarrow> manager_keyed (as_manager st'))
    \<and> (\<exists>ms. messages (as_session st') = ms @ [msg_assistant c])"
proof -
  from assms obtain fate where f: "sm_save fate (as_session st') m = (q, as_manager st')" "key (as_session st') = k"
    "\<exists>ms. messages (as_session st') = ms @ [msg_assistant c]" by (auto simp: stored_with_def)
  from sm_save_effect [OF f(1)] sm_save_keyed [OF f(1)] f(2,3) show ?thesis by auto
qed

text \<open>The ways a streamed message goes.\<close>

lemma process_streaming_cases:
  assumes "process_message_streaming L A msg st = (x, st')"
  obtains (refused) e where "st' = fresh_counters st" "x = Some (Inl e)"
  | (unloaded) e sm where "get_or_create (lib_readable L (as_world st)) (lib_now L (as_world st)) (im_session_key msg)
        (as_manager st) = (Inl e, sm)" "st' = (fresh_counters st)\<lparr>as_manager := sm\<rparr>" "x = Some (Inl e)"
  | (turn) P s sm where "resolve_provider_for_message A msg = Some P"
      "get_or_create (lib_readable L (as_world st)) (lib_now L (as_world st)) (im_session_key msg)
        (as_manager st) = (Inr s, sm)" "stream_turn L A P msg ((fresh_counters st)\<lparr>as_manager := sm, as_session := s\<rparr>) = (x, st')"
proof (cases "injection_blocked L A msg \<or> resolve_provider_for_message A msg = None")
  case True
  then show thesis using assms refused
    by (auto simp: process_message_streaming_def fresh_counters_def Let_def split: if_splits)
next
  case False
  obtain q sm where q: "get_or_create (lib_readable L (as_world st)) (lib_now L (as_world st)) (im_session_key msg)
      (as_manager st) = (q, sm)" by fastforce
  show thesis
  proof (cases q)
    case (Inl e)
    then show thesis using assms q False
      by (intro unloaded [of e sm]) (auto simp: process_message_streaming_def fresh_counters_def Let_def)
  next
    case (Inr s)
    from False obtain P where "resolve_provider_for_message A msg = Some P" by blast
    then show thesis using assms q False Inr
      by (intro turn [of P s sm]) (auto simp: process_message_streaming_def fresh_counters_def Let_def)
  qed
qed

lemma told_streaming:
  assumes "process_message_streaming L A msg st = (x, st')"
  shows "told msg st st'"
  using assms
proof (cases rule: process_streaming_cases)
  case (turn P s sm)
  from stored_stream_turn [OF turn(3)] show ?thesis by (simp add: told_def fresh_counters_def)
qed (simp_all add: told_same fresh_counters_def)

lemma streamed_turn_facts:
  assumes "manager_keyed (as_manager st)" "process_message_streaming L A msg st = (x, st')"
  shows "manager_keyed (as_manager st')
    \<and> (\<forall>k. k \<noteq> im_session_key msg \<longrightarrow> sm_sessions (as_manager st') k = sm_sessions (as_manager st) k)
    \<and> (\<forall>name. name \<noteq> session_file (im_session_key msg) \<longrightarrow> stored_at (as_manager st') name = stored_at (as_manager st) name)
    \<and> (case x of
         Some (Inr es) \<Rightarrow>
           (if list_ex is_done es
            then (\<exists>es0 c u ms. es = es0 @ [Done c u] \<and> messages (as_session st') = ms @ [msg_assistant c])
              \<and> sm_sessions (as_manager st') (im_session_key msg) = Some (as_session st')
              \<and> stored_at (as_manager st') (session_file (im_session_key msg))
                  \<in> {Some (Stored_Session (as_session st')), stored_at (as_manager st) (session_file (im_session_key msg)),
                     Some Stored_Garbage}
            else sm_disk (as_manager st') = sm_disk (as_manager st)
              \<and> (\<forall>s. sm_sessions (as_manager st) (im_session_key msg) = Some s \<longrightarrow>
                   sm_sessions (as_manager st') (im_session_key msg) = Some s))
       | _ \<Rightarrow> stored_at (as_manager st') (session_file (im_session_key msg)) = stored_at (as_manager st) (session_file (im_session_key msg))
           \<or> x = Some (Inl (Io ''write'')) \<and> stored_at (as_manager st') (session_file (im_session_key msg)) = Some Stored_Garbage)"
  using assms(2)
proof (cases rule: process_streaming_cases)
  case (refused e)
  then show ?thesis using assms(1) by (simp add: fresh_counters_def)
next
  case (unloaded e sm)
  then show ?thesis using assms(1) get_or_create_error [OF unloaded(1)] by (simp add: fresh_counters_def)
next
  case (turn P s sm)
  let ?k = "im_session_key msg"
  note g = get_or_create_keyed [OF turn(2) assms(1)]
  have d: "stored_at sm = stored_at (as_manager st)" using g by (auto simp: stored_at_def fun_eq_iff)
  have loaded: "sm_sessions (as_manager st) ?k = Some s' \<Longrightarrow> sm_sessions sm ?k = Some s'" for s'
    using turn(2) by (auto simp: get_or_create_def)
  from stored_stream_turn [OF turn(3)] g have "stored_stream sm ?k x st'" by simp
  then consider (kept) "as_manager st' = sm" "\<And>es. x = Some (Inr es) \<Longrightarrow> \<not> list_ex is_done es"
    | (streamed) es0 c u q where "x = Some (Inr (es0 @ [Done c u]))" "stored_with sm ?k c q st'"
    | (failed) c where "x = Some (Inl (Io ''write''))" "stored_with sm ?k c (Inl (Io ''write'')) st'"
    by (auto simp: stored_stream_def list_ex_iff list_all_iff split: option.splits sum.splits)
  then show ?thesis
  proof cases
    case kept
    then show ?thesis using g d loaded by (auto split: option.splits sum.splits)
  next
    case streamed
    then show ?thesis using g d stored_with_effect [OF streamed(2)] by auto
  next
    case failed
    then show ?thesis using g d stored_with_effect [OF failed(2)] by auto
  qed
qed

section \<open>Counting the calls of a streamed turn\<close>

text \<open>The clock of \<open>chat_meter\<close>, which a streamed call advances like any other.\<close>

locale stream_meter = chat_meter +
  assumes stream_tick: "agent_provider A P \<Longrightarrow> chat_stream P q mo w = Some (es, w') \<Longrightarrow> clock w' \<le> clock w + pc"
begin

lemma stream_step_ticks:
  assumes "agent_provider A P" "stream_step L A P model msg memory r g st = (x, st')"
  shows "\<exists>n t. spends (as_limit st) n t \<and> clock (as_world st') \<le> clock (as_world st) + pc * call_attempts A + tc * n
    \<and> (\<forall>c. x = Inr c \<longrightarrow> as_limit st' = t)"
proof -
  obtain calls rs st1 where c: "run_calls_of L A msg r st = (calls, rs, st1)" by (metis prod_cases3)
  note t1 = calls_ticks [OF c]
  let ?t = "tracker_increment (word_of_nat (length calls)) (as_limit st)"
  have "spends (as_limit st) (length calls) ?t" using t1 spends_allowed by blast
  moreover have "clock (as_world st') \<le> clock (as_world st1) + pc * call_attempts A"
    using assms(2) c by (auto simp: stream_step_def Let_def split: option.splits if_splits prod.splits step_end.splits
        dest!: world_compact next_ticks [OF assms(1)])
  moreover have "x = Inr y \<Longrightarrow> as_limit st' = ?t" for y
    using assms(2) c t1 by (auto simp: stream_step_def Let_def split: option.splits if_splits prod.splits step_end.splits
        dest!: calm_compact [THEN calm_limit] calm_next_response [THEN calm_limit])
  ultimately show ?thesis using t1 by (intro exI [of _ "length calls"] exI [of _ ?t]) auto
qed

lemma stream_loop_ticks:
  "agent_provider A P \<Longrightarrow> stream_loop L A P model msg memory n r g st = (x, st') \<Longrightarrow>
     \<exists>k t. spends (as_limit st) k t \<and> clock (as_world st') \<le> clock (as_world st) + n * (pc * call_attempts A) + tc * k"
proof (induction n arbitrary: r g st)
  case 0
  then show ?case by (intro exI [of _ 0] exI [of _ "as_limit st"]) (auto split: if_splits)
next
  case (Suc n)
  obtain y st1 where s: "stream_step L A P model msg memory r g st = (y, st1)" by fastforce
  from stream_step_ticks [OF Suc.prems(1) s] obtain k t where k: "spends (as_limit st) k t"
    "clock (as_world st1) \<le> clock (as_world st) + pc * call_attempts A + tc * k"
    "\<And>c. y = Inr c \<Longrightarrow> as_limit st1 = t" by blast
  show ?case
  proof (cases "\<exists>r' g'. y = Inr (r', g') \<and> stream_loop L A P model msg memory n r' g' st1 = (x, st')")
    case True
    then obtain r' g' where y: "y = Inr (r', g')" "stream_loop L A P model msg memory n r' g' st1 = (x, st')" by blast
    from Suc.IH [OF Suc.prems(1) y(2)] k(3) [OF y(1)] obtain k' t' where k': "spends t k' t'"
      "clock (as_world st') \<le> clock (as_world st1) + n * (pc * call_attempts A) + tc * k'" by blast
    from spends_trans [OF k(1) k'(1)] k(2) k'(2) show ?thesis
      by (intro exI [of _ "k + k'"] exI [of _ t']) (auto simp: algebra_simps)
  next
    case False
    then consider "st' = st" | "st' = st1" using Suc.prems(2) s by (auto split: if_splits sum.splits)
    then show ?thesis
    proof cases
      case 1
      then show ?thesis by (intro exI [of _ 0] exI [of _ "as_limit st"]) auto
    next
      case 2
      then show ?thesis using k(1,2) by (intro exI [of _ k] exI [of _ t]) auto
    qed
  qed
qed

lemma end_ticks:
  assumes "agent_provider A P" "end_stream L A P model msg memory e st = (x, st')"
  shows "clock (as_world st') \<le> clock (as_world st) + pc"
proof -
  have f: "as_world st2 = as_world st1" if "finish_turn L u st1 = (z, st2)" for u st1 z st2
    using that by (auto simp: finish_turn_def Let_def push_message_def split: prod.splits sum.splits)
  show ?thesis
    using assms(2)
    by (auto simp: end_stream_def final_stream_def text_stream_def split: stream_end.splits option.splits prod.splits sum.splits
        dest!: stream_tick [OF assms(1)] forward_stores f)
qed

lemma stream_answer_ticks:
  assumes "agent_provider A P" "stream_answer L A P msg memory ms st = (x, st')"
  shows "\<exists>n t. spends (as_limit st) n t
    \<and> clock (as_world st') \<le> clock (as_world st) + pc + Suc (lp_max_tool_iterations A) * (pc * call_attempts A) + tc * n"
proof -
  let ?model = "resolve_model_for_message A msg"
  obtain y st1 where c: "chat_recovering L A P ?model msg memory 8 (lp_tool_defs A) 0
      (cc_overflow_retries (lp_compaction A)) ms st = (y, st1)" by fastforce
  note t = recovering_ticks [OF assms(1) c]
  show ?thesis
  proof (cases "\<exists>r. y = Some (Inr r)")
    case False
    then have "st' = st1" using assms(2) c by (auto simp: stream_answer_def Let_def split: option.splits sum.splits)
    then show ?thesis using t by (intro exI [of _ 0] exI [of _ "as_limit st"]) simp
  next
    case True
    then obtain r where y: "y = Some (Inr r)" by blast
    obtain e st2 where l: "stream_loop L A P ?model msg memory (lp_max_tool_iterations A) r
        (if enabled (lp_loop_guard A) then Some (loop_guard_new (lp_loop_guard A)) else None) (record_response r st1) = (e, st2)"
      by fastforce
    from assms(2) c y l have e: "end_stream L A P ?model msg memory e st2 = (x, st')" by (auto simp: stream_answer_def)
    have "as_limit (record_response r st1) = as_limit st" by (rule calm_limit) (simp add: calm_chat_recovering [OF c])
    then show ?thesis using stream_loop_ticks [OF assms(1) l] end_ticks [OF assms(1) e] t by fastforce
  qed
qed

lemma stream_turn_ticks:
  assumes "agent_provider A P" "stream_turn L A P msg st = (x, st')"
  shows "\<exists>n t. spends (as_limit st) n t
    \<and> clock (as_world st') \<le> clock (as_world st) + 2 * pc + Suc (lp_max_tool_iterations A) * (pc * call_attempts A) + tc * n"
proof -
  let ?user = "inbound_to_message (lib_base64 L) msg"
  let ?memory = "lp_memory A (content ?user)"
  obtain p st1 where p: "prepare L A (push_message L ?user st) = (p, st1)" by fastforce
  have t1: "clock (as_world st1) \<le> clock (as_world st) + pc" using prepare_ticks [OF p] by simp
  have l1: "as_limit st1 = as_limit st" using limit_prepare [OF p] by (simp add: push_message_def)
  have idle: ?thesis if "as_world st' = as_world st1"
    using that t1 by (intro exI [of _ 0] exI [of _ "as_limit st"]) simp
  show ?thesis
  proof (cases "p = None \<or> guard_context L A msg ?memory True (lp_tool_defs A) st1 = None")
    case True
    then show ?thesis using idle assms(2) p by (auto simp: stream_turn_def Let_def split: option.splits)
  next
    case False
    then obtain ms st2 where g: "guard_context L A msg ?memory True (lp_tool_defs A) st1 = Some (ms, st2)" by fastforce
    note w2 = world_guard_context [OF g]
    have l2: "as_limit st2 = as_limit st" using calm_limit [OF calm_guard_context [OF g]] l1 by simp
    consider "st' = st2" | "stream_answer L A P msg ?memory ms st2 = (x, st')"
      using assms(2) p g False by (auto simp: stream_turn_def Let_def split: if_splits)
    then show ?thesis
    proof cases
      case 2
      from stream_answer_ticks [OF assms(1) 2] w2 t1 l2 show ?thesis by fastforce
    qed (use w2 idle in simp)
  qed
qed

lemma stream_message_ticks:
  assumes "process_message_streaming L A msg st = (x, st')"
  shows "\<exists>n. (\<forall>m. tl_limit (as_limit st) = Some m \<longrightarrow> n \<le> unat m)
    \<and> clock (as_world st') \<le> clock (as_world st) + 2 * pc + Suc (lp_max_tool_iterations A) * (pc * call_attempts A) + tc * n"
  using assms
proof (cases rule: process_streaming_cases)
  case (turn P s sm)
  from stream_turn_ticks [OF resolved_provider [OF turn(1)] turn(3)] show ?thesis
    by (fastforce simp: fresh_counters_def spends_def tracker_reset_def)
qed (auto simp: fresh_counters_def intro!: exI [of _ 0])

end

interpretation counted_stream: stream_meter "counted_library pc tc L" "counted_agent pc tc A" snd pc tc for L A pc tc
  by unfold_locales (auto simp: agent_provider_def counted_agent_def counted_provider_def split: prod.splits)

section \<open>Properties\<close>



text \<open>
  A streamed message takes one provider call more than an ordinary one may: the answer the tool loop ended with is thrown away
  and asked for again as a stream.
\<close>

theorem streamed_provider_calls_bounded:
  "process_message_streaming (counted_library 1 0 L) (counted_agent 1 0 A) msg st = (x, st') \<Longrightarrow>
     snd (as_world st') \<le> snd (as_world st) + 2 + (lp_max_tool_iterations A + 1) * (cc_overflow_retries (lp_compaction A) + 1)"
  using counted_stream.stream_message_ticks [of 1 0 L A msg st x st'] by (auto simp: counted_agent_def)

text \<open>
  C35. A streamed message stays in its session: no other session and no other session file changes, and the keys stay right. When the
  stream came to its end, the session under the message's key is the one whose last message is the text the
  stream ended with, and its file is that session, or after a failed write what it was before or cut short. When the stream stopped
  without its end, nothing of the turn is stored at all. An error or a panic changes no file, except that saving a text that was
  not streamed may have failed, which is then the error, and left the own file cut short.
\<close>

theorem streamed_turn_in_session:
  assumes "manager_keyed (as_manager st)" "process_message_streaming L A msg st = (x, st')"
  shows "manager_keyed (as_manager st')
    \<and> (\<forall>k. k \<noteq> im_session_key msg \<longrightarrow> sm_sessions (as_manager st') k = sm_sessions (as_manager st) k)
    \<and> (\<forall>name. name \<noteq> session_file (im_session_key msg) \<longrightarrow> stored_at (as_manager st') name = stored_at (as_manager st) name)
    \<and> (case x of
         Some (Inr es) \<Rightarrow>
           (if list_ex is_done es
            then (\<exists>es0 c u ms. es = es0 @ [Done c u] \<and> messages (as_session st') = ms @ [msg_assistant c])
              \<and> sm_sessions (as_manager st') (im_session_key msg) = Some (as_session st')
              \<and> stored_at (as_manager st') (session_file (im_session_key msg))
                  \<in> {Some (Stored_Session (as_session st')), stored_at (as_manager st) (session_file (im_session_key msg)),
                     Some Stored_Garbage}
            else sm_disk (as_manager st') = sm_disk (as_manager st)
              \<and> (\<forall>s. sm_sessions (as_manager st) (im_session_key msg) = Some s \<longrightarrow>
                   sm_sessions (as_manager st') (im_session_key msg) = Some s))
       | _ \<Rightarrow> stored_at (as_manager st') (session_file (im_session_key msg)) = stored_at (as_manager st) (session_file (im_session_key msg))
           \<or> x = Some (Inl (Io ''write'')) \<and> stored_at (as_manager st') (session_file (im_session_key msg)) = Some Stored_Garbage)"
  by (rule streamed_turn_facts [OF assms])

text \<open>The sample agent with a provider whose stream is a fixed list of events.\<close>

definition streaming_agent :: "stream_event list \<Rightarrow> (string, nat) agent" where
  "streaming_agent es = sample_agent\<lparr>lp_provider := Some (sample_provider\<lparr>chat_stream := (\<lambda>_ _ w. Some (Inr es, w + 1))\<rparr>)\<rparr>"

theorem streamed_turn_in_session_witness:
  "\<exists>st'. process_message_streaming sample_library (streaming_agent [Delta ''do'', Delta ''ne'', Done ''done'' None]) sample_inbound
        sample_state = (Some (Inr [Delta ''do'', Delta ''ne'', Done ''done'' None]), st')
     \<and> sm_sessions (as_manager st') ''cli:1'' = Some (as_session st')"
proof -
  let ?p = "process_message_streaming sample_library (streaming_agent [Delta ''do'', Delta ''ne'', Done ''done'' None]) sample_inbound
    sample_state"
  have "fst ?p = Some (Inr [Delta ''do'', Delta ''ne'', Done ''done'' None])" by code_simp
  then obtain st' where p: "?p = (Some (Inr [Delta ''do'', Delta ''ne'', Done ''done'' None]), st')" by (metis prod.collapse)
  have "manager_keyed (as_manager sample_state)"
    by (simp add: manager_keyed_def sample_state_def new_memory_def)
  from streamed_turn_in_session [OF this p] p show ?thesis by (simp add: sample_inbound_def inbound_new_def)
qed

end
