(* ===== verification/Number_Text.thy ===== *)
theory Number_Text
  imports Zepto_Prelude
begin

text \<open>
  Signed 64-bit arithmetic and the reading of decimal numbers, as the standard library of Rust defines
  them, with the round trip through printing.
\<close>

text \<open>Sums, differences and products of \<open>i64\<close> wrap in the release build.\<close>

definition wrap_i64 :: "int \<Rightarrow> int" where
  "wrap_i64 x = (x + 2 ^ 63) mod 2 ^ 64 - 2 ^ 63"

text \<open>\<open>str::parse::<i64>\<close>: an optional sign and at least one digit, within the range.\<close>

definition digit_value :: "char \<Rightarrow> nat option" where
  "digit_value c = (let v = byte_val c in if 48 \<le> v \<and> v \<le> 57 then Some (v - 48) else None)"

fun parse_digits :: "nat \<Rightarrow> string \<Rightarrow> nat option" where
  "parse_digits acc [] = Some acc"
| "parse_digits acc (c # cs) =
     (case digit_value c of None \<Rightarrow> None | Some d \<Rightarrow> parse_digits (10 * acc + d) cs)"

definition parse_i64 :: "string \<Rightarrow> int option" where
  "parse_i64 s =
     (let (neg, ds) = (case s of [] \<Rightarrow> (False, s)
                       | c # cs \<Rightarrow> if c = CHR ''-'' then (True, cs) else if c = CHR ''+'' then (False, cs) else (False, s))
      in if ds = [] then None
         else (case parse_digits 0 ds of
                 None \<Rightarrow> None
               | Some n \<Rightarrow> let x = (if neg then - int n else int n)
                           in if - (2 ^ 63) \<le> x \<and> x < 2 ^ 63 then Some x else None))"

text \<open>\<open>str::parse::<u32>\<close>: an optional plus sign and at least one digit, within the range.\<close>

definition parse_u32 :: "string \<Rightarrow> nat option" where
  "parse_u32 s =
     (let ds = (case s of [] \<Rightarrow> s | c # cs \<Rightarrow> if c = CHR ''+'' then cs else s)
      in if ds = [] then None
         else (case parse_digits 0 ds of None \<Rightarrow> None | Some n \<Rightarrow> if n \<le> u32_max then Some n else None))"

lemma wrap_i64_id: "- (2 ^ 63) \<le> x \<Longrightarrow> x < 2 ^ 63 \<Longrightarrow> wrap_i64 x = x"
  by (simp add: wrap_i64_def)

lemma parse_digits_append:
  "parse_digits a (xs @ ys) = (case parse_digits a xs of None \<Rightarrow> None | Some b \<Rightarrow> parse_digits b ys)"
  by (induction xs arbitrary: a) (auto split: option.split)

lemma digit_value_of: "d < 10 \<Longrightarrow> digit_value (char_of (48 + d)) = Some d"
  by (simp add: digit_value_def byte_val_def Let_def)

lemma parse_show_nat: "parse_digits 0 (show_nat n) = Some n"
  by (induction n rule: show_nat.induct) (subst show_nat.simps, simp add: parse_digits_append digit_value_of)

lemma show_nat_no_sign: "hd (show_nat n) \<noteq> CHR ''-'' \<and> hd (show_nat n) \<noteq> CHR ''+''"
proof -
  obtain c cs where s: "show_nat n = c # cs" by (cases "show_nat n") auto
  then have "parse_digits 0 (c # cs) = Some n" using parse_show_nat [of n] by simp
  then show ?thesis by (auto simp: s digit_value_def byte_val_def Let_def)
qed

lemma parse_i64_show_nat:
  assumes "n < 2 ^ 63"
  shows "parse_i64 (show_nat n) = Some (int n)"
proof -
  obtain c cs where s: "show_nat n = c # cs" by (cases "show_nat n") auto
  then have "c \<noteq> CHR ''-''" "c \<noteq> CHR ''+''" using show_nat_no_sign [of n] by auto
  moreover have "parse_digits 0 (c # cs) = Some n" using parse_show_nat [of n] s by simp
  ultimately show ?thesis unfolding s parse_i64_def using assms by (simp del: parse_digits.simps)
qed

end
