(* ===== verification/Web_Guard.thy ===== *)
theory Web_Guard
  imports Errors
begin

text \<open>
  The guard of the web tools against requests into the local network (\<open>src/src/tools/web.rs\<close>): which
  addresses are private, which hosts are blocked, the check of a name by resolving it, and the checks a redirect
  passes. Addresses and their text are those of the standard library, so the parser of \<open>IpAddr\<close> and its
  display are written out. A parsed URL, the resolver and the environment are arguments.
\<close>

unbundle bit_operations_syntax

section \<open>Addresses\<close>

datatype ipv4 = Ipv4 "8 word" "8 word" "8 word" "8 word"

text \<open>An IPv6 address is the list of its eight segments.\<close>

datatype ip_addr = V4 ipv4 | V6 "16 word list"

fun ipv4_is_private :: "ipv4 \<Rightarrow> bool" where
  "ipv4_is_private (Ipv4 a b c d) \<longleftrightarrow> a = 10 \<or> (a = 172 \<and> 16 \<le> b \<and> b \<le> 31) \<or> (a = 192 \<and> b = 168)"

fun ipv4_is_loopback :: "ipv4 \<Rightarrow> bool" where
  "ipv4_is_loopback (Ipv4 a b c d) \<longleftrightarrow> a = 127"

fun ipv4_is_link_local :: "ipv4 \<Rightarrow> bool" where
  "ipv4_is_link_local (Ipv4 a b c d) \<longleftrightarrow> a = 169 \<and> b = 254"

fun ipv4_is_broadcast :: "ipv4 \<Rightarrow> bool" where
  "ipv4_is_broadcast (Ipv4 a b c d) \<longleftrightarrow> a = 255 \<and> b = 255 \<and> c = 255 \<and> d = 255"

fun ipv4_is_documentation :: "ipv4 \<Rightarrow> bool" where
  "ipv4_is_documentation (Ipv4 a b c d) \<longleftrightarrow>
     (a = 192 \<and> b = 0 \<and> c = 2) \<or> (a = 198 \<and> b = 51 \<and> c = 100) \<or> (a = 203 \<and> b = 0 \<and> c = 113)"

fun ipv4_is_unspecified :: "ipv4 \<Rightarrow> bool" where
  "ipv4_is_unspecified (Ipv4 a b c d) \<longleftrightarrow> a = 0 \<and> b = 0 \<and> c = 0 \<and> d = 0"

fun first_octet :: "ipv4 \<Rightarrow> 8 word" where
  "first_octet (Ipv4 a b c d) = a"

definition is_private_or_local_ipv4 :: "ipv4 \<Rightarrow> bool" where
  "is_private_or_local_ipv4 addr \<longleftrightarrow>
     ipv4_is_private addr \<or> ipv4_is_loopback addr \<or> ipv4_is_link_local addr \<or> ipv4_is_broadcast addr
     \<or> ipv4_is_documentation addr \<or> ipv4_is_unspecified addr \<or> first_octet addr = 0"

definition embedded_ipv4 :: "16 word \<Rightarrow> 16 word \<Rightarrow> ipv4" where
  "embedded_ipv4 hi lo = Ipv4 (ucast (drop_bit 8 hi)) (ucast hi) (ucast (drop_bit 8 lo)) (ucast lo)"

definition reserved_ipv6 :: "16 word list \<Rightarrow> bool" where
  "reserved_ipv6 segs \<longleftrightarrow>
     segs = [0, 0, 0, 0, 0, 0, 0, 1] \<or> segs = [0, 0, 0, 0, 0, 0, 0, 0]
     \<or> segs ! 0 AND 0xfe00 = 0xfc00 \<or> segs ! 0 AND 0xffc0 = 0xfe80 \<or> segs ! 0 AND 0xff00 = 0xff00"

definition is_private_or_local_ipv6 :: "16 word list \<Rightarrow> bool" where
  "is_private_or_local_ipv6 segs =
     (if reserved_ipv6 segs then True
      else if segs ! 0 = 0 \<and> segs ! 1 = 0 \<and> segs ! 2 = 0 \<and> segs ! 3 = 0 \<and> segs ! 4 = 0 \<and> (segs ! 5 = 0xffff \<or> segs ! 5 = 0)
      then is_private_or_local_ipv4 (embedded_ipv4 (segs ! 6) (segs ! 7))
      else if segs ! 0 = 0x64 \<and> segs ! 1 = 0xff9b \<and> segs ! 2 = 0 \<and> segs ! 3 = 0 \<and> segs ! 4 = 0 \<and> segs ! 5 = 0
      then is_private_or_local_ipv4 (embedded_ipv4 (segs ! 6) (segs ! 7))
      else if segs ! 0 = 0x2002 then is_private_or_local_ipv4 (embedded_ipv4 (segs ! 1) (segs ! 2))
      else if segs ! 0 = 0x2001 \<and> segs ! 1 = 0
      then is_private_or_local_ipv4 (embedded_ipv4 (NOT (segs ! 6)) (NOT (segs ! 7)))
      else if (segs ! 4 = 0 \<or> segs ! 4 = 0x0200) \<and> segs ! 5 = 0x5efe
      then is_private_or_local_ipv4 (embedded_ipv4 (segs ! 6) (segs ! 7))
      else False)"

definition is_private_or_local_ip :: "ip_addr \<Rightarrow> bool" where
  "is_private_or_local_ip ip =
     (case ip of V4 addr \<Rightarrow> is_private_or_local_ipv4 addr | V6 segs \<Rightarrow> is_private_or_local_ipv6 segs)"

section \<open>Text of addresses\<close>

definition to_digit :: "nat \<Rightarrow> char \<Rightarrow> nat option" where
  "to_digit radix c =
     (let b = byte_val c;
          d = (if 48 \<le> b \<and> b \<le> 57 then b - 48
               else if 97 \<le> b \<and> b \<le> 122 then b - 87
               else if 65 \<le> b \<and> b \<le> 90 then b - 55 else 255)
      in if d < radix then Some d else None)"

fun digits_value :: "nat \<Rightarrow> nat list \<Rightarrow> nat" where
  "digits_value radix [] = 0"
| "digits_value radix (d # ds) = d * radix ^ length ds + digits_value radix ds"

text \<open>A number: a longest run of digits, not too many, within the type's range, and without a leading zero if that is asked.\<close>

definition read_number :: "nat \<Rightarrow> nat \<Rightarrow> bool \<Rightarrow> nat \<Rightarrow> string \<Rightarrow> (nat \<times> string) option" where
  "read_number radix max_digits allow_zero_prefix max_value s =
     (let ds = takeWhile (\<lambda>c. to_digit radix c \<noteq> None) s;
          v = digits_value radix (List.map_filter (to_digit radix) ds)
      in if ds = [] \<or> max_digits < length ds \<or> max_value < v \<or> (\<not> allow_zero_prefix \<and> hd ds = CHR ''0'' \<and> 1 < length ds)
         then None else Some (v, drop (length ds) s))"

definition read_separator :: "char \<Rightarrow> nat \<Rightarrow> (string \<Rightarrow> ('a \<times> string) option) \<Rightarrow> string \<Rightarrow> ('a \<times> string) option" where
  "read_separator sep index inner s =
     (if index = 0 then inner s
      else case s of c # r \<Rightarrow> if c = sep then inner r else None | [] \<Rightarrow> None)"

fun read_octets :: "nat \<Rightarrow> nat \<Rightarrow> string \<Rightarrow> (nat list \<times> string) option" where
  "read_octets 0 i s = Some ([], s)"
| "read_octets (Suc n) i s =
     (case read_separator CHR ''.'' i (read_number 10 3 False 255) s of
        None \<Rightarrow> None
      | Some (v, r) \<Rightarrow> map_option (\<lambda>(vs, r'). (v # vs, r')) (read_octets n (Suc i) r))"

definition octets_ipv4 :: "nat list \<Rightarrow> ipv4" where
  "octets_ipv4 vs = Ipv4 (of_nat (vs ! 0)) (of_nat (vs ! 1)) (of_nat (vs ! 2)) (of_nat (vs ! 3))"

definition read_ipv4 :: "string \<Rightarrow> (nat list \<times> string) option" where
  "read_ipv4 s = read_octets 4 0 s"

text \<open>Groups of an IPv6 address: how many, whether the last two came from a dotted quad, and the rest. \<open>n\<close> is the room left.\<close>

fun read_groups :: "nat \<Rightarrow> nat \<Rightarrow> string \<Rightarrow> nat list \<times> bool \<times> string" where
  "read_groups 0 i s = ([], False, s)"
| "read_groups (Suc n) i s =
     (case (if 0 < n then read_separator CHR '':'' i read_ipv4 s else None) of
        Some (vs, r) \<Rightarrow> ([256 * vs ! 0 + vs ! 1, 256 * vs ! 2 + vs ! 3], True, r)
      | None \<Rightarrow>
          (case read_separator CHR '':'' i (read_number 16 4 True 65535) s of
             None \<Rightarrow> ([], False, s)
           | Some (g, r) \<Rightarrow> (case read_groups n (Suc i) r of (gs, v4, r') \<Rightarrow> (g # gs, v4, r'))))"

definition read_ipv6 :: "string \<Rightarrow> (nat list \<times> string) option" where
  "read_ipv6 s =
     (case read_groups 8 0 s of
        (head, head_ipv4, r) \<Rightarrow>
          if length head = 8 then Some (head, r)
          else if head_ipv4 then None
          else (case r of
                  c1 # c2 # r1 \<Rightarrow>
                    if c1 = CHR '':'' \<and> c2 = CHR '':''
                    then (case read_groups (8 - (length head + 1)) 0 r1 of
                            (tail, _, r2) \<Rightarrow> Some (head @ replicate (8 - length head - length tail) 0 @ tail, r2))
                    else None
                | _ \<Rightarrow> None))"

definition parse_ip :: "string \<Rightarrow> ip_addr option" where
  "parse_ip s =
     (case read_ipv4 s of
        Some (vs, r) \<Rightarrow> if r = [] then Some (V4 (octets_ipv4 vs)) else None
      | None \<Rightarrow>
          (case read_ipv6 s of
             Some (gs, r) \<Rightarrow> if r = [] then Some (V6 (map of_nat gs)) else None
           | None \<Rightarrow> None))"

fun show_ipv4 :: "ipv4 \<Rightarrow> string" where
  "show_ipv4 (Ipv4 a b c d) =
     show_nat (unat a) @ ''.'' @ show_nat (unat b) @ ''.'' @ show_nat (unat c) @ ''.'' @ show_nat (unat d)"

text \<open>The display of an IPv6 address: the longest run of two or more zero segments, the first of them, is left out.\<close>

fun show_hex :: "nat \<Rightarrow> string" where
  "show_hex n = (if n < 16 then [''0123456789abcdef'' ! n] else show_hex (n div 16) @ [''0123456789abcdef'' ! (n mod 16)])"

fun zero_span :: "nat \<Rightarrow> nat \<times> nat \<Rightarrow> nat \<times> nat \<Rightarrow> 16 word list \<Rightarrow> nat \<times> nat" where
  "zero_span i current longest [] = longest"
| "zero_span i (start, len) longest (g # gs) =
     (if g = 0
      then let current = (if len = 0 then i else start, len + 1)
           in zero_span (Suc i) current (if snd longest < snd current then current else longest) gs
      else zero_span (Suc i) (0, 0) longest gs)"

definition show_groups :: "16 word list \<Rightarrow> string" where
  "show_groups gs = join '':'' (map (show_hex \<circ> unat) gs)"

definition show_ipv6 :: "16 word list \<Rightarrow> string" where
  "show_ipv6 segs =
     (if take 6 segs = [0, 0, 0, 0, 0, 0xffff] then ''::ffff:'' @ show_ipv4 (embedded_ipv4 (segs ! 6) (segs ! 7))
      else case zero_span 0 (0, 0) (0, 0) segs of
             (start, len) \<Rightarrow>
               if 1 < len then show_groups (take start segs) @ ''::'' @ show_groups (drop (start + len) segs)
               else show_groups segs)"

definition show_ip :: "ip_addr \<Rightarrow> string" where
  "show_ip ip = (case ip of V4 addr \<Rightarrow> show_ipv4 addr | V6 segs \<Rightarrow> show_ipv6 segs)"

section \<open>Hosts\<close>

record url =
  u_text :: string
  u_scheme :: string
  u_host :: "string option"
  u_port_or_known_default :: "nat option"

definition unbracket :: "string \<Rightarrow> string" where
  "unbracket host =
     (if host \<noteq> [] \<and> hd host = CHR ''['' \<and> tl host \<noteq> [] \<and> last host = CHR '']'' then butlast (tl host) else host)"

definition is_blocked_host :: "url \<Rightarrow> bool" where
  "is_blocked_host url =
     (case u_host url of
        None \<Rightarrow> True
      | Some host_str \<Rightarrow>
          let host = map ascii_lower host_str
          in host = ''localhost'' \<or> ends_with host ''.local''
             \<or> (case parse_ip (unbracket host) of Some ip \<Rightarrow> is_private_or_local_ip ip | None \<Rightarrow> False))"

text \<open>The resolver and the environment; a lookup may change the world.\<close>

record 'w network =
  net_lookup :: "string \<Rightarrow> 'w \<Rightarrow> (string + (ip_addr \<times> nat) list) \<times> 'w"
  net_env :: "string \<Rightarrow> string option"

definition has_http_proxy :: "'w network \<Rightarrow> bool" where
  "has_http_proxy N =
     (case net_env N ''HTTPS_PROXY'' of
        Some v \<Rightarrow> v \<noteq> []
      | None \<Rightarrow>
          (case net_env N ''https_proxy'' of
             Some v \<Rightarrow> v \<noteq> []
           | None \<Rightarrow>
               (case net_env N ''HTTP_PROXY'' of
                  Some v \<Rightarrow> v \<noteq> []
                | None \<Rightarrow> (case net_env N ''http_proxy'' of Some v \<Rightarrow> v \<noteq> [] | None \<Rightarrow> False))))"

definition resolve_and_check_host ::
    "'w network \<Rightarrow> url \<Rightarrow> 'w \<Rightarrow> (string \<times> ip_addr \<times> nat) option zresult \<times> 'w" where
  "resolve_and_check_host N url w =
     (case u_host url of
        None \<Rightarrow> (Inl (SecurityViolation ''URL has no host''), w)
      | Some host \<Rightarrow>
          if parse_ip host \<noteq> None then (Inr None, w)
          else let port = (case u_port_or_known_default url of Some p \<Rightarrow> p | None \<Rightarrow> 443)
               in case net_lookup N (host @ '':'' @ show_nat port) w of
                    (Inl e, w1) \<Rightarrow>
                      (if has_http_proxy N then Inr None
                       else Inl (Tool (''DNS lookup failed for '' @ quoted host @ '': '' @ e)), w1)
                  | (Inr addrs, w1) \<Rightarrow>
                      (case find (\<lambda>(ip, _). is_private_or_local_ip ip) addrs of
                         Some (ip, _) \<Rightarrow>
                           Inl (SecurityViolation (''DNS for '' @ quoted host @ '' resolved to private/local IP ''
                             @ show_ip ip))
                       | None \<Rightarrow> Inr (case addrs of [] \<Rightarrow> None | a # _ \<Rightarrow> Some (host, a)), w1))"

section \<open>Redirects and fetches\<close>

definition max_web_fetch_redirects :: nat where
  "max_web_fetch_redirects = 5"

definition validate_redirect_target_basic :: "url \<Rightarrow> unit zresult" where
  "validate_redirect_target_basic url =
     (if u_scheme url \<noteq> ''http'' \<and> u_scheme url \<noteq> ''https''
      then Inl (SecurityViolation (''Redirect destination scheme is blocked: '' @ u_scheme url))
      else if is_blocked_host url
      then Inl (SecurityViolation (''Redirect destination is blocked (local or private network): '' @ u_text url))
      else Inr ())"

definition validate_redirect_target :: "'w network \<Rightarrow> url \<Rightarrow> 'w \<Rightarrow> unit zresult \<times> 'w" where
  "validate_redirect_target N url w =
     (case validate_redirect_target_basic url of
        Inl e \<Rightarrow> (Inl e, w)
      | Inr _ \<Rightarrow> (case resolve_and_check_host N url w of (Inl e, w1) \<Rightarrow> (Inl e, w1) | (Inr _, w1) \<Rightarrow> (Inr (), w1)))"

text \<open>The policy decides the same in a thread of its own; \<open>previous\<close> are the URLs requested so far.\<close>

definition web_fetch_redirect_policy :: "'w network \<Rightarrow> url list \<Rightarrow> url \<Rightarrow> 'w \<Rightarrow> unit zresult \<times> 'w" where
  "web_fetch_redirect_policy N previous url w =
     (if max_web_fetch_redirects \<le> length previous
      then (Inl (Tool (''Too many redirects (max '' @ show_nat max_web_fetch_redirects @ '')'')), w)
      else validate_redirect_target N url w)"

text \<open>What \<open>web_fetch\<close> does before its first request: the URL and the address its connection is pinned to.\<close>

definition fetch_target ::
    "'w network \<Rightarrow> (string \<Rightarrow> string + url) \<Rightarrow> string option \<Rightarrow> 'w
       \<Rightarrow> (url \<times> (string \<times> ip_addr \<times> nat) option) zresult \<times> 'w" where
  "fetch_target N parse arg w =
     (case Option.bind arg (\<lambda>s. if trim s = [] then None else Some (trim s)) of
        None \<Rightarrow> (Inl (Tool (''Missing '' @ quoted ''url'' @ '' parameter'')), w)
      | Some text \<Rightarrow>
          (case parse text of
             Inl e \<Rightarrow> (Inl (Tool (''Invalid URL '' @ quoted text @ '': '' @ e)), w)
           | Inr url \<Rightarrow>
               if u_scheme url \<noteq> ''http'' \<and> u_scheme url \<noteq> ''https'' then (Inl (Tool ''Only http/https URLs are allowed''), w)
               else if is_blocked_host url
               then (Inl (SecurityViolation ''Blocked URL host (local or private network)''), w)
               else (case resolve_and_check_host N url w of
                       (Inl e, w1) \<Rightarrow> (Inl e, w1)
                     | (Inr pinned, w1) \<Rightarrow> (Inr (url, pinned), w1))))"

section \<open>Bodies\<close>

definition max_fetch_chars :: nat where
  "max_fetch_chars = 200000"

definition min_fetch_chars :: nat where
  "min_fetch_chars = 256"

definition max_fetch_bytes :: nat where
  "max_fetch_bytes = max_fetch_chars * 4"

definition clamp_chars :: "nat \<Rightarrow> nat" where
  "clamp_chars n = max min_fetch_chars (min n max_fetch_chars)"

text \<open>Chunks as they arrive; \<open>Inl\<close> is a failed read. The bytes are the body before its lossy decoding.\<close>

fun read_body_from :: "nat \<Rightarrow> string \<Rightarrow> (string + string) list \<Rightarrow> string zresult" where
  "read_body_from max_bytes buf [] = Inr buf"
| "read_body_from max_bytes buf (Inl e # chunks) = Inl (Tool (''Failed to read response body: '' @ e))"
| "read_body_from max_bytes buf (Inr chunk # chunks) =
     (let remaining = max_bytes - length buf
      in if remaining = 0 then Inr buf
         else let buf1 = buf @ take (min (length chunk) remaining) chunk
              in if max_bytes \<le> length buf1 then Inr buf1 else read_body_from max_bytes buf1 chunks)"

definition read_body_limited :: "nat \<Rightarrow> (string + string) list \<Rightarrow> string zresult" where
  "read_body_limited max_bytes chunks = read_body_from max_bytes [] chunks"

section \<open>Lemmas\<close>

fun ipv4_value :: "ipv4 \<Rightarrow> nat" where
  "ipv4_value (Ipv4 a b c d) = unat a * 2 ^ 24 + unat b * 2 ^ 16 + unat c * 2 ^ 8 + unat d"

text \<open>The blocked networks as ranges of 32-bit numbers.\<close>

definition net4 :: "nat \<Rightarrow> nat \<Rightarrow> nat \<Rightarrow> nat \<Rightarrow> nat \<Rightarrow> nat \<times> nat" where
  "net4 a b c d len =
     (let base = a * 2 ^ 24 + b * 2 ^ 16 + c * 2 ^ 8 + d in (base, base + 2 ^ (32 - len) - 1))"

definition blocked_networks :: "(nat \<times> nat) list" where
  "blocked_networks =
     [net4 0 0 0 0 8, net4 10 0 0 0 8, net4 127 0 0 0 8, net4 169 254 0 0 16, net4 172 16 0 0 12, net4 192 168 0 0 16,
      net4 192 0 2 0 24, net4 198 51 100 0 24, net4 203 0 113 0 24, net4 255 255 255 255 32]"

lemma octet_less: "unat (a :: 8 word) < 256"
  using unsigned_less [of a, where 'a = nat] by simp

lemma octet_eq: "(a :: 8 word) = numeral n \<longleftrightarrow> unat a = unat (numeral n :: 8 word)"
  by (simp add: word_unat_eq_iff)

lemma digit_le:
  assumes "r < (k::nat)"
  shows "q * k + r < (p + 1) * k \<longleftrightarrow> q \<le> p" and "p * k \<le> q * k + r \<longleftrightarrow> p \<le> q"
proof -
  have d: "(q * k + r) div k = q" using assms by simp
  have "0 < k" using assms by simp
  then show "q * k + r < (p + 1) * k \<longleftrightarrow> q \<le> p" "p * k \<le> q * k + r \<longleftrightarrow> p \<le> q"
    using d div_less_iff_less_mult [of k "q * k + r" "p + 1"] less_eq_div_iff_mult_less_eq [of k p "q * k + r"] by auto
qed

lemma digit_pair:
  assumes "B < k" "b < (k::nat)"
  shows "A * k + B = a * k + b \<longleftrightarrow> A = a \<and> B = b"
proof
  assume e: "A * k + B = a * k + b"
  have "A = (A * k + B) div k" "a = (a * k + b) div k" using assms by simp_all
  with e have "A = a" by simp
  with e show "A = a \<and> B = b" by simp
qed simp

lemma range_hit:
  assumes "r < (k::nat)"
  shows "p * k \<le> q * k + r \<and> q * k + r \<le> p * k + k - 1 \<longleftrightarrow> q = p"
proof -
  have "q * k + r \<le> p * k + k - 1 \<longleftrightarrow> q * k + r < (p + 1) * k" using assms by (simp add: algebra_simps) linarith
  then show ?thesis using digit_le(1) [OF assms, of q p] digit_le(2) [OF assms, of p q] by auto
qed

definition in_net :: "nat \<Rightarrow> nat \<times> nat \<Rightarrow> bool" where
  "in_net v n \<longleftrightarrow> fst n \<le> v \<and> v \<le> snd n"

lemma in_net_iff:
  assumes "r < 2 ^ (32 - len)" "v = q * 2 ^ (32 - len) + r" "a * 2 ^ 24 + b * 2 ^ 16 + c * 2 ^ 8 + d = p * 2 ^ (32 - len)"
  shows "in_net v (net4 a b c d len) \<longleftrightarrow> q = p"
  using range_hit [OF assms(1), of p q] assms(2,3) by (simp add: in_net_def net4_def Let_def)

lemma in_net_8: "B < 256 \<Longrightarrow> C < 256 \<Longrightarrow> D < 256 \<Longrightarrow>
    in_net (A * 2 ^ 24 + B * 2 ^ 16 + C * 2 ^ 8 + D) (net4 a 0 0 0 8) \<longleftrightarrow> A = a"
  by (rule in_net_iff [where r = "B * 2 ^ 16 + C * 2 ^ 8 + D"]) simp_all

lemma in_net_12:
  assumes "B < 256" "C < 256" "D < 256"
  shows "in_net (A * 2 ^ 24 + B * 2 ^ 16 + C * 2 ^ 8 + D) (net4 a 16 0 0 12) \<longleftrightarrow> A = a \<and> 16 \<le> B \<and> B \<le> 31"
proof -
  define x y where "x = B div 16" and "y = B mod 16"
  have b: "B = 16 * x + y" "x < 16" "y < 16" using assms by (simp_all add: x_def y_def)
  have "in_net (A * 2 ^ 24 + B * 2 ^ 16 + C * 2 ^ 8 + D) (net4 a 16 0 0 12) \<longleftrightarrow> A * 16 + x = a * 16 + 1"
    by (rule in_net_iff [where r = "y * 2 ^ 16 + C * 2 ^ 8 + D"]) (use assms b in simp_all)
  also have "\<dots> \<longleftrightarrow> A = a \<and> x = 1" using b(2) by (intro digit_pair) simp_all
  also have "x = 1 \<longleftrightarrow> 16 \<le> B \<and> B \<le> 31" using b by linarith
  finally show ?thesis .
qed

lemma in_net_16:
  assumes "B < 256" "C < 256" "D < 256" "b < 256"
  shows "in_net (A * 2 ^ 24 + B * 2 ^ 16 + C * 2 ^ 8 + D) (net4 a b 0 0 16) \<longleftrightarrow> A = a \<and> B = b"
proof -
  have "in_net (A * 2 ^ 24 + B * 2 ^ 16 + C * 2 ^ 8 + D) (net4 a b 0 0 16) \<longleftrightarrow> A * 256 + B = a * 256 + b"
    by (rule in_net_iff [where r = "C * 2 ^ 8 + D"]) (use assms in simp_all)
  then show ?thesis using digit_pair [OF assms(1,4)] by simp
qed

lemma in_net_24:
  assumes "B < 256" "C < 256" "D < 256" "b < 256" "c < 256"
  shows "in_net (A * 2 ^ 24 + B * 2 ^ 16 + C * 2 ^ 8 + D) (net4 a b c 0 24) \<longleftrightarrow> A = a \<and> B = b \<and> C = c"
proof -
  have "in_net (A * 2 ^ 24 + B * 2 ^ 16 + C * 2 ^ 8 + D) (net4 a b c 0 24)
      \<longleftrightarrow> (A * 256 + B) * 256 + C = (a * 256 + b) * 256 + c"
    by (rule in_net_iff [where r = D]) (use assms in simp_all)
  also have "\<dots> \<longleftrightarrow> A * 256 + B = a * 256 + b \<and> C = c" by (rule digit_pair [OF assms(2,5)])
  finally show ?thesis using digit_pair [OF assms(1,4)] by simp
qed

lemma in_net_32: "A < 256 \<Longrightarrow> B < 256 \<Longrightarrow> C < 256 \<Longrightarrow> D < 256 \<Longrightarrow>
    in_net (A * 2 ^ 24 + B * 2 ^ 16 + C * 2 ^ 8 + D) (net4 255 255 255 255 32) \<longleftrightarrow> A = 255 \<and> B = 255 \<and> C = 255 \<and> D = 255"
  by (auto simp: in_net_def net4_def)

lemmas in_net_simps = in_net_8 in_net_12 in_net_16 in_net_24 in_net_32

lemma blocked_octets:
  assumes "A < 256" "B < 256" "C < 256" "D < 256"
  shows "list_ex (in_net (A * 2 ^ 24 + B * 2 ^ 16 + C * 2 ^ 8 + D)) blocked_networks \<longleftrightarrow>
    A = 0 \<or> A = 10 \<or> A = 127 \<or> (A = 169 \<and> B = 254) \<or> (A = 172 \<and> 16 \<le> B \<and> B \<le> 31) \<or> (A = 192 \<and> B = 168)
    \<or> (A = 192 \<and> B = 0 \<and> C = 2) \<or> (A = 198 \<and> B = 51 \<and> C = 100) \<or> (A = 203 \<and> B = 0 \<and> C = 113)
    \<or> (A = 255 \<and> B = 255 \<and> C = 255 \<and> D = 255)"
  unfolding blocked_networks_def using assms by (simp del: power_numeral add: in_net_simps)

lemma ipv4_blocked_iff:
  "is_private_or_local_ipv4 ip \<longleftrightarrow> list_ex (in_net (ipv4_value ip)) blocked_networks"
proof (cases ip)
  case (Ipv4 a b c d)
  have z: "(x :: 8 word) = 0 \<longleftrightarrow> unat x = 0" for x by (simp add: unat_eq_0)
  have l: "16 \<le> b \<longleftrightarrow> 16 \<le> unat b" "b \<le> 31 \<longleftrightarrow> unat b \<le> 31" by (simp_all add: word_le_nat_alt)
  have "is_private_or_local_ipv4 ip \<longleftrightarrow> unat a = 0 \<or> unat a = 10 \<or> unat a = 127 \<or> (unat a = 169 \<and> unat b = 254)
    \<or> (unat a = 172 \<and> 16 \<le> unat b \<and> unat b \<le> 31) \<or> (unat a = 192 \<and> unat b = 168)
    \<or> (unat a = 192 \<and> unat b = 0 \<and> unat c = 2) \<or> (unat a = 198 \<and> unat b = 51 \<and> unat c = 100)
    \<or> (unat a = 203 \<and> unat b = 0 \<and> unat c = 113) \<or> (unat a = 255 \<and> unat b = 255 \<and> unat c = 255 \<and> unat d = 255)"
    by (simp add: Ipv4 is_private_or_local_ipv4_def octet_eq z l) (intro iffI; elim disjE; simp)
  then show ?thesis
    using blocked_octets [of "unat a" "unat b" "unat c" "unat d"] octet_less by (simp add: Ipv4)
qed

subsection \<open>IPv6\<close>

lemma and_high:
  fixes x :: "16 word"
  assumes "c = drop_bit n (push_bit n c)" "m = NOT (mask n)"
  shows "x AND m = push_bit n c \<longleftrightarrow> drop_bit n x = c"
proof -
  have *: "x AND m = push_bit n (drop_bit n x)" unfolding assms(2) by (rule bit_word_eqI) (auto simp: bit_simps)
  have "drop_bit n (push_bit n (drop_bit n x)) = drop_bit n x"
    by (rule bit_word_eqI) (auto simp: bit_simps dest: bit_imp_le_length)
  with * assms(1) show ?thesis by metis
qed

lemma unat_drop_bit16: "unat (drop_bit n (x :: 16 word)) = unat x div 2 ^ n"
  by (simp only: unat_drop_bit_eq) (simp add: drop_bit_eq_div)

lemma reserved_masks:
  fixes x :: "16 word"
  shows "x AND 0xfe00 = 0xfc00 \<longleftrightarrow> 0xfc00 \<le> unat x \<and> unat x < 0xfe00"
    and "x AND 0xffc0 = 0xfe80 \<longleftrightarrow> 0xfe80 \<le> unat x \<and> unat x < 0xfec0"
    and "x AND 0xff00 = 0xff00 \<longleftrightarrow> 0xff00 \<le> unat x"
proof -
  have u: "unat x < 2 ^ 16" using unsigned_less [of x, where 'a = nat] by simp
  have d: "drop_bit n x = c \<longleftrightarrow> unat x div 2 ^ n = unat c" for n c
    by (simp add: word_unat_eq_iff unat_drop_bit16)
  have "x AND 0xfe00 = push_bit 9 0x7e \<longleftrightarrow> drop_bit 9 x = 0x7e" by (rule and_high) (simp_all add: mask_numeral)
  then show "x AND 0xfe00 = 0xfc00 \<longleftrightarrow> 0xfc00 \<le> unat x \<and> unat x < 0xfe00" using u unfolding d by simp linarith
  have "x AND 0xffc0 = push_bit 6 0x3fa \<longleftrightarrow> drop_bit 6 x = 0x3fa" by (rule and_high) (simp_all add: mask_numeral)
  then show "x AND 0xffc0 = 0xfe80 \<longleftrightarrow> 0xfe80 \<le> unat x \<and> unat x < 0xfec0" using u unfolding d by simp linarith
  have "x AND 0xff00 = push_bit 8 0xff \<longleftrightarrow> drop_bit 8 x = 0xff" by (rule and_high) (simp_all add: mask_numeral)
  then show "x AND 0xff00 = 0xff00 \<longleftrightarrow> 0xff00 \<le> unat x" using u unfolding d by simp linarith
qed

text \<open>Two octets as a segment, and back.\<close>

definition seg_of :: "8 word \<Rightarrow> 8 word \<Rightarrow> 16 word" where
  "seg_of hi lo = push_bit 8 (ucast hi) OR ucast lo"

lemma seg_of_split [simp]:
  "ucast (drop_bit 8 (seg_of hi lo)) = hi" "ucast (seg_of hi lo) = lo"
  by (rule bit_word_eqI; auto simp: seg_of_def bit_simps dest: bit_imp_le_length)+

fun embed :: "ipv4 \<Rightarrow> 16 word list" where
  "embed (Ipv4 a b c d) = [seg_of a b, seg_of c d]"

lemma embedded_embed [simp]: "embed v4 = [hi, lo] \<Longrightarrow> embedded_ipv4 hi lo = v4"
  by (cases v4) (auto simp: embedded_ipv4_def)

lemma embed_two: obtains hi lo where "embed v4 = [hi, lo]"
  by (cases v4) auto

lemma small_ipv4_blocked: "is_private_or_local_ipv4 (embedded_ipv4 0 lo)"
  by (simp add: is_private_or_local_ipv4_def embedded_ipv4_def)

lemma nth_segs:
  "(x0 # xs) ! 0 = x0" "(x0 # x1 # xs) ! 1 = x1" "(x0 # x1 # x2 # xs) ! 2 = x2" "(x0 # x1 # x2 # x3 # xs) ! 3 = x3"
  "(x0 # x1 # x2 # x3 # x4 # xs) ! 4 = x4" "(x0 # x1 # x2 # x3 # x4 # x5 # xs) ! 5 = x5"
  "(x0 # x1 # x2 # x3 # x4 # x5 # x6 # xs) ! 6 = x6" "(x0 # x1 # x2 # x3 # x4 # x5 # x6 # x7 # xs) ! 7 = x7"
  by (simp_all add: eval_nat_numeral)

definition plain_prefix :: "16 word \<Rightarrow> 16 word \<Rightarrow> bool" where
  "plain_prefix p0 p1 \<longleftrightarrow> 0 < unat p0 \<and> unat p0 < 0xfc00 \<and> p0 \<noteq> 0x64 \<and> p0 \<noteq> 0x2002 \<and> \<not> (p0 = 0x2001 \<and> p1 = 0)"

subsection \<open>Text\<close>

lemma to_digit_lower [simp]: "radix \<le> 36 \<Longrightarrow> to_digit radix (ascii_lower c) = to_digit radix c"
  by (auto simp: to_digit_def ascii_lower_def byte_val_def Let_def)

lemma ascii_lower_sep [simp]:
  "ascii_lower c = CHR ''.'' \<longleftrightarrow> c = CHR ''.''" "ascii_lower c = CHR '':'' \<longleftrightarrow> c = CHR '':''"
  "ascii_lower c = CHR ''0'' \<longleftrightarrow> c = CHR ''0''"
  by (auto simp: ascii_lower_def byte_val_def char_of_eq_iff take_bit_eq_mod)

text \<open>A parser does not see the case of letters.\<close>

definition caseless :: "(string \<Rightarrow> ('a \<times> string) option) \<Rightarrow> bool" where
  "caseless f \<longleftrightarrow> (\<forall>s. f (map ascii_lower s) = map_option (\<lambda>(v, r). (v, map ascii_lower r)) (f s))"

lemma map_filter_lower: "radix \<le> 36 \<Longrightarrow> List.map_filter (to_digit radix) (map ascii_lower ds) = List.map_filter (to_digit radix) ds"
  by (induction ds) (auto simp: map_filter_simps split: option.split)

lemma caseless_number: "radix \<le> 36 \<Longrightarrow> caseless (read_number radix n z m)"
  unfolding caseless_def read_number_def
  by (auto simp: takeWhile_map comp_def hd_map drop_map Let_def map_filter_lower)

lemma caseless_separator: "caseless f \<Longrightarrow> sep \<in> {CHR ''.'', CHR '':''} \<Longrightarrow> caseless (read_separator sep i f)"
  by (auto simp: caseless_def read_separator_def split: list.splits)

lemma caseless_octets: "caseless (read_octets n i)"
proof (induction n arbitrary: i)
  case (Suc n)
  have c: "caseless (read_separator CHR ''.'' i (read_number 10 3 False 255))"
    by (simp add: caseless_separator caseless_number)
  show ?case unfolding caseless_def
  proof
    fix s
    show "read_octets (Suc n) i (map ascii_lower s) = map_option (\<lambda>(v, r). (v, map ascii_lower r)) (read_octets (Suc n) i s)"
      using c Suc [of "Suc i"] by (auto simp: caseless_def option.map_comp comp_def split_def split: option.splits)
  qed
qed (simp add: caseless_def)

lemma caseless_groups:
  "read_groups n i (map ascii_lower s) = (case read_groups n i s of (gs, v4, r) \<Rightarrow> (gs, v4, map ascii_lower r))"
proof (induction n arbitrary: i s)
  case (Suc n)
  have c: "caseless (read_separator CHR '':'' i read_ipv4)" "caseless (read_separator CHR '':'' i (read_number 16 4 True 65535))"
    using caseless_octets [of 4 0] by (simp_all add: caseless_separator caseless_number read_ipv4_def [abs_def])
  have f: "f (map ascii_lower s) = map_option (\<lambda>(v, r). (v, map ascii_lower r)) (f s)" if "caseless f" for f :: "string \<Rightarrow> ('b \<times> string) option"
    using that by (simp add: caseless_def)
  show ?case
    using Suc by (auto simp: f [OF c(1)] f [OF c(2)] split: option.splits prod.splits)
qed simp

lemma parse_ip_lower: "parse_ip (map ascii_lower s) = parse_ip s"
proof -
  have 4: "read_ipv4 (map ascii_lower s) = map_option (\<lambda>(v, r). (v, map ascii_lower r)) (read_ipv4 s)"
    using caseless_octets [of 4 0] by (simp add: caseless_def read_ipv4_def)
  have 6: "read_ipv6 (map ascii_lower s) = map_option (\<lambda>(v, r). (v, map ascii_lower r)) (read_ipv6 s)"
    by (auto simp: read_ipv6_def caseless_groups split: prod.splits list.splits)
  show ?thesis by (auto simp: parse_ip_def 4 6 split: option.splits prod.splits)
qed

lemma read_ipv4_unfold: "read_ipv4 s = read_octets (Suc (Suc (Suc (Suc 0)))) 0 s"
  by (simp add: read_ipv4_def numeral_eq_Suc)

lemma unbracket_parsed:
  assumes "parse_ip host \<noteq> None"
  shows "unbracket host = host"
proof (cases host)
  case (Cons c cs)
  have "c \<noteq> CHR ''[''"
  proof
    assume c: "c = CHR ''[''"
    have d: "to_digit 10 c = None" "to_digit 16 c = None" by (simp_all add: c to_digit_def byte_val_def)
    have n4: "read_ipv4 host = None"
      using Cons d by (simp add: read_ipv4_unfold read_separator_def read_number_def)
    have "read_groups 8 0 host = ([], False, host)"
      using Cons d n4 read_groups.simps(2) [of 7 0 host] by (simp add: read_separator_def read_number_def)
    then have "read_ipv6 host = None" using Cons c by (auto simp: read_ipv6_def split: list.splits)
    with n4 assms show False by (simp add: parse_ip_def)
  qed
  then show ?thesis using Cons by (simp add: unbracket_def)
qed (simp add: unbracket_def)

lemma blocked_literal:
  "u_host url = Some host \<Longrightarrow> parse_ip host = Some ip \<Longrightarrow> is_private_or_local_ip ip \<Longrightarrow> is_blocked_host url"
  using unbracket_parsed [of "map ascii_lower host"] by (simp add: is_blocked_host_def parse_ip_lower Let_def)

lemma to_digit_char: "d < 10 \<Longrightarrow> to_digit 10 (char_of (48 + d)) = Some d"
  by (simp add: to_digit_def byte_val_def Let_def take_bit_eq_mod)

lemma digits_value_snoc: "digits_value radix (ds @ [d]) = digits_value radix ds * radix + d"
  by (induction ds) (simp_all add: algebra_simps)

lemma map_filter_append: "List.map_filter f (xs @ ys) = List.map_filter f xs @ List.map_filter f ys"
  by (simp add: List.map_filter_def)

lemma map_filter_single: "f x = Some y \<Longrightarrow> List.map_filter f [x] = [y]"
  by (simp add: map_filter_simps)

lemma show_nat_digits:
  "list_all (\<lambda>c. to_digit 10 c \<noteq> None) (show_nat n) \<and> digits_value 10 (List.map_filter (to_digit 10) (show_nat n)) = n"
proof (induction n rule: show_nat.induct)
  case (1 n)
  show ?case
  proof (cases "n < 10")
    case True
    then have "show_nat n = [char_of (48 + n)]" by (simp add: show_nat.simps)
    then show ?thesis using to_digit_char [OF True] map_filter_single [where f = "to_digit 10", OF to_digit_char [OF True]] by simp
  next
    case False
    have d: "to_digit 10 (char_of (48 + n mod 10)) = Some (n mod 10)" by (rule to_digit_char) simp
    have "show_nat n = show_nat (n div 10) @ [char_of (48 + n mod 10)]" using False by (simp add: show_nat.simps)
    then show ?thesis using 1 [OF False] d map_filter_single [where f = "to_digit 10", OF d] by (simp add: map_filter_append digits_value_snoc)
  qed
qed

lemma show_nat_length: "0 < k \<Longrightarrow> n < 10 ^ k \<Longrightarrow> length (show_nat n) \<le> k"
proof (induction k arbitrary: n)
  case (Suc k)
  show ?case
  proof (cases "n < 10")
    case False
    then have "0 < k" "n div 10 < 10 ^ k" using Suc.prems by (auto intro: gr0I simp: div_less_iff_less_mult)
    then show ?thesis using Suc.IH False by (subst show_nat.simps) simp
  qed (simp add: show_nat.simps)
qed simp

lemma hd_show_nat: "hd (show_nat n) = CHR ''0'' \<Longrightarrow> n = 0"
proof (induction n rule: show_nat.induct)
  case (1 n)
  show ?case
  proof (cases "n < 10")
    case True
    with 1 have "char_of (48 + n) = CHR ''0''" by (simp add: show_nat.simps)
    then show ?thesis using True by (simp add: char_of_eq_iff take_bit_eq_mod)
  next
    case False
    with 1 have "n div 10 = 0" by (auto simp: show_nat.simps [of n])
    with False show ?thesis by simp
  qed
qed

lemma read_octet_text:
  assumes "n < 256" "r = [] \<or> hd r = CHR ''.''"
  shows "read_number 10 3 False 255 (show_nat n @ r) = Some (n, r)"
proof -
  have "to_digit 10 CHR ''.'' = None" by code_simp
  then have "takeWhile (\<lambda>c. to_digit 10 c \<noteq> None) r = []" using assms(2) by (cases r) auto
  then have "takeWhile (\<lambda>c. to_digit 10 c \<noteq> None) (show_nat n @ r) = show_nat n"
    using show_nat_digits [of n] by (simp add: takeWhile_append2 list_all_iff)
  moreover have "length (show_nat n) \<le> 3" using assms(1) by (intro show_nat_length) simp_all
  moreover have "hd (show_nat n) = CHR ''0'' \<longrightarrow> length (show_nat n) = 1"
    using hd_show_nat [of n] by (auto simp: show_nat.simps [of 0])
  ultimately show ?thesis using show_nat_digits [of n] assms(1) by (auto simp: read_number_def Let_def)
qed

lemma parse_dotted: "parse_ip (show_ipv4 ip) = Some (V4 ip)"
proof (cases ip)
  case (Ipv4 a b c d)
  note t = read_octet_text [OF octet_less [of a]] read_octet_text [OF octet_less [of b]]
    read_octet_text [OF octet_less [of c]] read_octet_text [OF octet_less [of d], of "[]"]
  have "read_ipv4 (show_ipv4 ip) = Some ([unat a, unat b, unat c, unat d], [])"
    using t(4) by (simp add: Ipv4 read_ipv4_unfold read_separator_def t(1-3))
  then show ?thesis by (simp add: parse_ip_def octets_ipv4_def Ipv4 nth_Cons')
qed

section \<open>Properties\<close>

text \<open>
  The IPv4 check is membership in a list of networks: an address counts as private or local exactly
  if its 32-bit value lies in 0/8, 10/8, 127/8, 169.254/16, 172.16/12, 192.168/16, one of the three documentation
  networks, or is the broadcast address.
\<close>

theorem ipv4_block_exact:
  "is_private_or_local_ipv4 ip \<longleftrightarrow> list_ex (in_net (ipv4_value ip)) blocked_networks"
  by (rule ipv4_blocked_iff)

text \<open>
  Wrapping an IPv4 address in IPv6 does not get it past the check: mapped, compatible, NAT64, 6to4, Teredo and
  ISATAP addresses are blocked exactly when the IPv4 address inside is, whatever the other segments are (for ISATAP,
  under a prefix that is not itself special).
\<close>

theorem wrapped_ipv4_checked:
  assumes "embed v4 = [hi, lo]" "plain_prefix p0 p1"
  shows "(is_private_or_local_ipv6 [0, 0, 0, 0, 0, 0xffff, hi, lo] \<longleftrightarrow> is_private_or_local_ipv4 v4)
    \<and> (is_private_or_local_ipv6 [0, 0, 0, 0, 0, 0, hi, lo] \<longleftrightarrow> is_private_or_local_ipv4 v4)
    \<and> (is_private_or_local_ipv6 [0x64, 0xff9b, 0, 0, 0, 0, hi, lo] \<longleftrightarrow> is_private_or_local_ipv4 v4)
    \<and> (is_private_or_local_ipv6 [0x2002, hi, lo, s3, s4, s5, s6, s7] \<longleftrightarrow> is_private_or_local_ipv4 v4)
    \<and> (is_private_or_local_ipv6 [0x2001, 0, s2, s3, s4, s5, NOT hi, NOT lo] \<longleftrightarrow> is_private_or_local_ipv4 v4)
    \<and> (is_private_or_local_ipv6 [p0, p1, s2, s3, 0, 0x5efe, hi, lo] \<longleftrightarrow> is_private_or_local_ipv4 v4)
    \<and> (is_private_or_local_ipv6 [p0, p1, s2, s3, 0x0200, 0x5efe, hi, lo] \<longleftrightarrow> is_private_or_local_ipv4 v4)"
proof -
  note e = embedded_embed [OF assms(1)]
  have compat: "is_private_or_local_ipv6 [0, 0, 0, 0, 0, 0, hi, lo] \<longleftrightarrow> is_private_or_local_ipv4 v4"
    using e small_ipv4_blocked [of lo]
    by (auto simp: is_private_or_local_ipv6_def reserved_ipv6_def reserved_masks nth_segs)
  have isatap: "is_private_or_local_ipv6 [p0, p1, s2, s3, x, 0x5efe, hi, lo] \<longleftrightarrow> is_private_or_local_ipv4 v4"
    if "x = 0 \<or> x = 0x0200" for x
    using assms(2) that by (auto simp: is_private_or_local_ipv6_def reserved_ipv6_def reserved_masks nth_segs e plain_prefix_def)
  show ?thesis
    using compat isatap [of 0] isatap [of "0x0200"]
    by (simp add: is_private_or_local_ipv6_def reserved_ipv6_def reserved_masks nth_segs e)
qed

theorem wrapped_ipv4_checked_witness:
  "is_private_or_local_ipv6 [0, 0, 0, 0, 0, 0xffff, 0xa9fe, 0xa9fe]
   \<and> is_private_or_local_ipv6 [0x2002, 0xa9fe, 0xa9fe, 0, 0, 0, 0, 1]"
proof -
  have "embed (Ipv4 169 254 169 254) = [0xa9fe, 0xa9fe]" by (simp add: seg_of_def)
  moreover have "plain_prefix 0x2a00 1" by (simp add: plain_prefix_def)
  moreover have "is_private_or_local_ipv4 (Ipv4 169 254 169 254)" by (simp add: is_private_or_local_ipv4_def)
  ultimately show ?thesis
    using wrapped_ipv4_checked [of "Ipv4 169 254 169 254" "0xa9fe" "0xa9fe" "0x2a00" 1 0 0 0 0 1] by blast
qed

text \<open>
  An address written as a dotted quad is recognised: the standard parser reads back every IPv4 address from its
  display, so a URL whose host is that text is blocked exactly when the address is private or local.
\<close>

theorem dotted_host_blocked:
  "parse_ip (show_ipv4 ip) = Some (V4 ip)
   \<and> (is_blocked_host \<lparr>u_text = t, u_scheme = sch, u_host = Some (show_ipv4 ip), u_port_or_known_default = p\<rparr>
       \<longleftrightarrow> is_private_or_local_ipv4 ip)"
proof -
  let ?h = "map ascii_lower (show_ipv4 ip)"
  have p: "parse_ip ?h = Some (V4 ip)" by (simp add: parse_ip_lower parse_dotted)
  then have u: "unbracket ?h = ?h" by (intro unbracket_parsed) simp
  have n: "parse_ip ''localhost'' = None" by code_simp
  have "?h \<noteq> ''localhost''" using p n by auto
  moreover have "\<not> ends_with ?h ''.local''"
  proof
    assume "ends_with ?h ''.local''"
    then obtain x where x: "?h = x @ ''.local''" by (auto elim: suffixE)
    then have "CHR ''l'' \<in> set ?h" by simp
    then obtain c where c: "c \<in> set (show_ipv4 ip)" "ascii_lower c = CHR ''l''" by auto
    have "\<forall>c \<in> set (show_ipv4 ip). c = CHR ''.'' \<or> to_digit 10 c \<noteq> None"
      by (cases ip) (use show_nat_digits in \<open>auto simp: list_all_iff\<close>)
    with c(1) have "c = CHR ''.'' \<or> to_digit 10 c \<noteq> None" by blast
    moreover have "to_digit 10 c = to_digit 10 CHR ''l''" using to_digit_lower [of 10 c] c(2) by simp
    moreover have "to_digit 10 CHR ''l'' = None" "ascii_lower CHR ''.'' \<noteq> CHR ''l''" by code_simp+
    ultimately show False using c(2) by auto
  qed
  ultimately show ?thesis using p u parse_dotted by (simp add: is_blocked_host_def is_private_or_local_ip_def Let_def)
qed

text \<open>
  C20. What \<open>web_fetch\<close> connects to: when its checks pass, the scheme is http or https and the host is not local by name.
  Either the connection is pinned to an address that the resolver gave for this host and
  none of the addresses it gave is private or local; or there is no pin, and the host is itself a public address, or the resolver
  answered with no address, or it failed behind a proxy.
\<close>

theorem fetch_target_public:
  assumes "fetch_target N parse arg w = (Inr (url, pinned), w')"
  shows "u_scheme url \<in> {''http'', ''https''} \<and> (\<exists>host. u_host url = Some host
    \<and> map ascii_lower host \<noteq> ''localhost'' \<and> \<not> ends_with (map ascii_lower host) ''.local''
    \<and> (case parse_ip host of
         Some ip \<Rightarrow> pinned = None \<and> \<not> is_private_or_local_ip ip
       | None \<Rightarrow>
           (case fst (net_lookup N (host @ '':'' @ show_nat (case u_port_or_known_default url of Some p \<Rightarrow> p | None \<Rightarrow> 443)) w) of
              Inl e \<Rightarrow> has_http_proxy N \<and> pinned = None
            | Inr addrs \<Rightarrow> list_all (\<lambda>(ip, _). \<not> is_private_or_local_ip ip) addrs
                \<and> pinned = (case addrs of [] \<Rightarrow> None | a # _ \<Rightarrow> Some (host, a)))))"
proof -
  have s: "u_scheme url \<in> {''http'', ''https''}" and b: "\<not> is_blocked_host url"
    and r: "resolve_and_check_host N url w = (Inr pinned, w')"
    using assms by (auto simp: fetch_target_def split: option.splits sum.splits if_splits prod.splits)
  from b obtain host where h: "u_host url = Some host" by (auto simp: is_blocked_host_def split: option.splits)
  have l: "map ascii_lower host \<noteq> ''localhost''" "\<not> ends_with (map ascii_lower host) ''.local''"
    using b h by (auto simp: is_blocked_host_def Let_def)
  have "find (\<lambda>(ip, _). is_private_or_local_ip ip) addrs = None \<longleftrightarrow> list_all (\<lambda>(ip, _). \<not> is_private_or_local_ip ip) addrs"
    for addrs :: "(ip_addr \<times> nat) list" by (auto simp: find_None_iff list_all_iff)
  then show ?thesis
    using s h l r blocked_literal [OF h] b
    by (auto simp: resolve_and_check_host_def Let_def split: option.splits sum.splits prod.splits if_splits list.splits)
qed

definition sample_net :: "nat network" where
  "sample_net = \<lparr>net_lookup = (\<lambda>name w. (Inr [(V4 (Ipv4 93 184 216 34), 443)], w + 1)), net_env = (\<lambda>_. None)\<rparr>"

definition sample_parse :: "string \<Rightarrow> string + url" where
  "sample_parse s = Inr \<lparr>u_text = s, u_scheme = ''https'', u_host = Some ''example.com'', u_port_or_known_default = Some 443\<rparr>"

theorem fetch_target_public_witness:
  "\<exists>url. fetch_target sample_net sample_parse (Some ''https://example.com/'') 0
       = (Inr (url, Some (''example.com'', V4 (Ipv4 93 184 216 34), 443)), 1) \<and> u_scheme url \<in> {''http'', ''https''}"
proof -
  let ?u = "\<lparr>u_text = ''https://example.com/'', u_scheme = ''https'', u_host = Some ''example.com'', u_port_or_known_default = Some 443\<rparr>"
  have "fetch_target sample_net sample_parse (Some ''https://example.com/'') 0
      = (Inr (?u, Some (''example.com'', V4 (Ipv4 93 184 216 34), 443)), 1)" by code_simp
  from fetch_target_public [OF this] this show ?thesis by blast
qed

text \<open>
  A body is read up to the limit: from a connection that does not fail, exactly the first bytes of
  the chunks up to the limit are kept, however they are cut into chunks.
\<close>

theorem body_is_prefix:
  "read_body_limited max_bytes (map Inr chunks) = Inr (take max_bytes (concat chunks))"
proof -
  have "read_body_from max_bytes buf (map Inr chunks) = Inr (take max_bytes (buf @ concat chunks))"
    if "length buf \<le> max_bytes" for buf
    using that
  proof (induction chunks arbitrary: buf)
    case (Cons c cs)
    have "take (min (length c) (max_bytes - length buf)) c = take (max_bytes - length buf) c" by (simp add: min_def)
    then show ?case using Cons by (auto simp: Let_def)
  qed simp
  then show ?thesis by (simp add: read_body_limited_def)
qed

end
