(* ===== verification/Config_Check.thy ===== *)
theory Config_Check
  imports Registry Web_Guard
begin

text \<open>
  Validation of the configuration (\<open>src/src/config/validate.rs\<close>): unknown fields with suggestions, endpoints,
  warnings about channels, the match of models and providers, and custom tools. A configuration file
  is a value of \<open>json\<close>, an object the list of its fields in the order in which they are walked. The
  parser of URLs is an argument.
\<close>

section \<open>Suggestions\<close>

definition known_top_level :: "string list" where
  "known_top_level =
     [''agents'', ''channels'', ''providers'', ''gateway'', ''tools'', ''memory'', ''heartbeat'', ''skills'', ''runtime'',
      ''container_agent'', ''swarm'', ''approval'', ''plugins'', ''telemetry'', ''cost'', ''batch'', ''hooks'', ''safety'',
      ''compaction'', ''mcp'', ''routines'', ''tunnel'', ''stripe'', ''custom_tools'', ''transcription'', ''tool_profiles'',
      ''project'', ''cache'', ''agent_mode'', ''pairing'', ''session'', ''panel'', ''health'', ''devices'', ''logging'', ''r8r_bridge'']"

definition known_agents_defaults :: "string list" where
  "known_agents_defaults =
     [''workspace'', ''model'', ''max_tokens'', ''temperature'', ''max_tool_iterations'', ''agent_timeout_secs'',
      ''tool_timeout_secs'', ''message_queue_mode'', ''streaming'', ''token_budget'', ''compact_tools'', ''tool_profile'',
      ''active_hand'', ''timezone'', ''loop_guard'', ''max_tool_result_bytes'', ''max_tool_calls'', ''system_prompt'']"

definition known_loop_guard :: "string list" where
  "known_loop_guard =
     [''enabled'', ''warn_threshold'', ''block_threshold'', ''global_circuit_breaker'', ''ping_pong_min_repeats'',
      ''poll_multiplier'', ''outcome_warn_threshold'', ''outcome_block_threshold'', ''window_size'']"

datatype diagnostic_level = Diag_Ok | Diag_Warn | Diag_Error

record diagnostic =
  dg_level :: diagnostic_level
  dg_path :: string
  dg_message :: string

definition diag :: "diagnostic_level \<Rightarrow> string \<Rightarrow> string \<Rightarrow> diagnostic" where
  "diag level path message = \<lparr>dg_level = level, dg_path = path, dg_message = message\<rparr>"

definition show_diagnostic :: "diagnostic \<Rightarrow> string" where
  "show_diagnostic d =
     (let mark = (case dg_level d of Diag_Ok \<Rightarrow> ''[OK]'' | Diag_Warn \<Rightarrow> ''[WARN]'' | Diag_Error \<Rightarrow> ''[ERROR]'')
      in if dg_path d = [] then mark @ '' '' @ dg_message d else mark @ '' '' @ dg_path d @ '': '' @ dg_message d)"

text \<open>The table has a row for each byte of the first text and a column for each byte of the second; the loops run over characters.\<close>

type_synonym table = "nat list list"

definition lev_init :: "nat \<Rightarrow> nat \<Rightarrow> table" where
  "lev_init a_len b_len = map (\<lambda>i. map (\<lambda>j. if i = 0 then j else if j = 0 then i else 0) [0..<b_len + 1]) [0..<a_len + 1]"

definition lev_cell :: "string list \<Rightarrow> string list \<Rightarrow> nat \<times> nat \<Rightarrow> table \<Rightarrow> table" where
  "lev_cell as bs ij t =
     (case ij of (i, j) \<Rightarrow>
       let cost = (if as ! i = bs ! j then 0 else 1)
       in t[i + 1 := (t ! (i + 1))[j + 1 := min (min (t ! i ! (j + 1) + 1) (t ! (i + 1) ! j + 1)) (t ! i ! j + cost)]])"

definition lev_cells :: "nat \<Rightarrow> nat \<Rightarrow> (nat \<times> nat) list" where
  "lev_cells n m = List.product [0..<n] [0..<m]"

definition levenshtein :: "string \<Rightarrow> string \<Rightarrow> nat" where
  "levenshtein a b =
     (let as = str_chars a; bs = str_chars b
      in fold (lev_cell as bs) (lev_cells (length as) (length bs)) (lev_init (length a) (length b)) ! length a ! length b)"

definition did_you_mean :: "string \<Rightarrow> string" where
  "did_you_mean k = ''did you mean '' @ quoted k @ ''?''"

text \<open>\<open>min_by_key\<close> takes the first of several smallest elements.\<close>

fun first_min :: "('a \<times> nat) list \<Rightarrow> ('a \<times> nat) option" where
  "first_min [] = None"
| "first_min ((x, d) # ps) =
     (case first_min ps of None \<Rightarrow> Some (x, d) | Some (y, e) \<Rightarrow> if d \<le> e then Some (x, d) else Some (y, e))"

definition suggest_field :: "string \<Rightarrow> string list \<Rightarrow> string option" where
  "suggest_field unknown known =
     map_option (\<lambda>(k, d). did_you_mean k) (first_min (filter (\<lambda>(k, d). d \<le> 3) (map (\<lambda>k. (k, levenshtein unknown k)) known)))"

section \<open>The table is the edit distance\<close>

text \<open>\<open>edits n xs ys\<close>: the characters of \<open>xs\<close> become those of \<open>ys\<close> with \<open>n\<close> insertions, deletions and replacements.\<close>

inductive edits :: "nat \<Rightarrow> 'a list \<Rightarrow> 'a list \<Rightarrow> bool" where
  Done: "edits 0 [] []"
| Keep: "edits n xs ys \<Longrightarrow> edits n (x # xs) (x # ys)"
| Delete: "edits n xs ys \<Longrightarrow> edits (Suc n) (x # xs) ys"
| Insert: "edits n xs ys \<Longrightarrow> edits (Suc n) xs (y # ys)"
| Replace: "edits n xs ys \<Longrightarrow> edits (Suc n) (x # xs) (y # ys)"

inductive_cases edits_NilE: "edits n [] ys"
inductive_cases edits_Nil2E: "edits n xs []"
inductive_cases edits_ConsE: "edits n (x # xs) (y # ys)"

fun distance :: "'a list \<Rightarrow> 'a list \<Rightarrow> nat" where
  "distance [] ys = length ys"
| "distance (x # xs) [] = Suc (length xs)"
| "distance (x # xs) (y # ys) =
     min (min (distance xs (y # ys) + 1) (distance (x # xs) ys + 1)) (distance xs ys + (if x = y then 0 else 1))"

lemma edits_insert_all: "edits (length ys) [] ys"
  by (induction ys) (auto intro: edits.intros)

lemma edits_delete_all: "edits (length xs) xs []"
  by (induction xs) (auto intro: edits.intros)

lemma edits_distance: "edits (distance xs ys) xs ys"
proof (induction xs ys rule: distance.induct)
  case (3 x xs y ys)
  then show ?case by (auto simp: min_def intro: edits.intros)
qed (auto intro: edits_insert_all edits_delete_all [of "_ # _", simplified])

lemma distance_Nil2 [simp]: "distance xs [] = length xs"
  by (cases xs) simp_all

lemma distance_least: "edits n xs ys \<Longrightarrow> distance xs ys \<le> n"
proof (induction rule: edits.induct)
  case (Delete n xs ys x)
  then show ?case by (cases ys) auto
next
  case (Insert n xs ys y)
  then show ?case by (cases xs) auto
qed auto

lemma edits_snoc:
  "edits n xs ys \<Longrightarrow> edits n (xs @ [x]) (ys @ [x])" "edits n xs ys \<Longrightarrow> edits (Suc n) (xs @ [x]) ys"
  "edits n xs ys \<Longrightarrow> edits (Suc n) xs (ys @ [y])" "edits n xs ys \<Longrightarrow> edits (Suc n) (xs @ [x]) (ys @ [y])"
  by (induction rule: edits.induct) (auto intro: edits.intros)

lemma edits_rev: "edits n xs ys \<Longrightarrow> edits n (rev xs) (rev ys)"
  by (induction rule: edits.induct) (auto intro: edits.intros edits_snoc)

lemma distance_rev: "distance (rev xs) (rev ys) = distance xs ys"
  using distance_least [OF edits_rev [OF edits_distance [of xs ys]]]
    distance_least [OF edits_rev [OF edits_distance [of "rev xs" "rev ys"]]] by simp

definition prefix_distance :: "'a list \<Rightarrow> 'a list \<Rightarrow> nat \<Rightarrow> nat \<Rightarrow> nat" where
  "prefix_distance xs ys i j = distance (take i xs) (take j ys)"

lemma prefix_distance_step:
  assumes "i < length xs" "j < length ys"
  shows "prefix_distance xs ys (i + 1) (j + 1)
     = min (min (prefix_distance xs ys i (j + 1) + 1) (prefix_distance xs ys (i + 1) j + 1))
         (prefix_distance xs ys i j + (if xs ! i = ys ! j then 0 else 1))"
  unfolding prefix_distance_def distance_rev [symmetric, of "take _ xs"]
  using assms by (simp add: take_Suc_conv_app_nth)

text \<open>What the table holds once the cells in \<open>done\<close> are written.\<close>

definition table_inv :: "nat \<Rightarrow> nat \<Rightarrow> string list \<Rightarrow> string list \<Rightarrow> (nat \<times> nat) list \<Rightarrow> table \<Rightarrow> bool" where
  "table_inv n m as bs done t \<longleftrightarrow> length t = n + 1 \<and> (\<forall>i\<le>n. length (t ! i) = m + 1)
     \<and> (\<forall>i\<le>n. \<forall>j\<le>m. t ! i ! j =
          (if i = 0 then j else if j = 0 then i else if (i - 1, j - 1) \<in> set done then prefix_distance as bs i j else 0))"

lemma lev_init_inv: "table_inv n m as bs [] (lev_init n m)"
  by (auto simp: table_inv_def lev_init_def nth_append simp del: upt_Suc)

lemma lev_cell_inv:
  assumes "table_inv n m as bs done t" "i < length as" "j < length bs" "length as \<le> n" "length bs \<le> m"
    and earlier: "\<And>p q. p \<le> i \<Longrightarrow> q \<le> j \<Longrightarrow> (p, q) \<noteq> (i, j) \<Longrightarrow> (p, q) \<in> set done" and "(i, j) \<notin> set done"
  shows "table_inv n m as bs (done @ [(i, j)]) (lev_cell as bs (i, j) t)"
proof -
  have pd: "t ! p ! q = prefix_distance as bs p q" if "p \<le> i + 1" "q \<le> j + 1" "(p, q) \<noteq> (i + 1, j + 1)" for p q
  proof -
    have "p = 0 \<or> q = 0 \<or> (p - 1, q - 1) \<in> set done" using that earlier [of "p - 1" "q - 1"] by (cases p; cases q) auto
    then show ?thesis using assms(1-5) that by (auto simp: table_inv_def prefix_distance_def min_def)
  qed
  have c: "min (min (t ! i ! (j + 1) + 1) (t ! (i + 1) ! j + 1)) (t ! i ! j + (if as ! i = bs ! j then 0 else 1))
      = prefix_distance as bs (i + 1) (j + 1)"
  proof -
    have "t ! i ! (j + 1) = prefix_distance as bs i (j + 1)" "t ! (i + 1) ! j = prefix_distance as bs (i + 1) j"
      "t ! i ! j = prefix_distance as bs i j" by (auto intro!: pd simp del: add_Suc_right Nat.add_0_right One_nat_def)
    then show ?thesis by (simp only: prefix_distance_step [OF assms(2,3)])
  qed
  show ?thesis
    using assms(1-5) unfolding table_inv_def lev_cell_def prod.case Let_def c
    by (auto simp: nth_list_update)
qed

lemma lev_cells_earlier:
  assumes "lev_cells n m = pre @ (i, j) # post" "p \<le> i" "q \<le> j" "(p, q) \<noteq> (i, j)"
  shows "(p, q) \<in> set pre"
proof -
  have "sorted_wrt (\<lambda>(a, b) (c, d). a < c \<or> a = c \<and> b < d) (List.product xs ys)" if "sorted_wrt (<) xs" "sorted_wrt (<) ys" for xs ys :: "nat list"
    using that by (induction xs) (auto simp: sorted_wrt_append sorted_wrt_map)
  then have s: "sorted_wrt (\<lambda>(a, b) (c, d). a < c \<or> a = c \<and> b < d) (lev_cells n m)" by (simp add: lev_cells_def)
  have "(i, j) \<in> set (lev_cells n m)" by (simp add: assms(1))
  then have "(p, q) \<in> set (lev_cells n m)" using assms(2,3) by (auto simp: lev_cells_def)
  then show ?thesis using s assms by (auto simp: assms(1) sorted_wrt_append)
qed

lemma lev_fold_inv:
  assumes "length as \<le> n" "length bs \<le> m"
  shows "lev_cells (length as) (length bs) = pre @ post \<Longrightarrow> table_inv n m as bs pre (fold (lev_cell as bs) pre (lev_init n m))"
proof (induction pre arbitrary: post rule: rev_induct)
  case Nil
  then show ?case by (simp add: lev_init_inv)
next
  case (snoc ij pre)
  obtain i j where ij: "ij = (i, j)" by (cases ij)
  from snoc.prems have e: "lev_cells (length as) (length bs) = pre @ (i, j) # post" by (simp add: ij)
  then have "(i, j) \<in> set (lev_cells (length as) (length bs))" by simp
  then have "i < length as" "j < length bs" by (auto simp: lev_cells_def)
  moreover have "(i, j) \<notin> set pre"
  proof -
    have "distinct (lev_cells (length as) (length bs))" by (simp add: lev_cells_def distinct_product)
    then show ?thesis by (simp add: e)
  qed
  ultimately show ?case
    using lev_cell_inv [OF snoc.IH [OF e]] assms lev_cells_earlier [OF e] by (simp add: ij)
qed

lemma length_str_chars: "length (str_chars s) \<le> length s"
proof (induction s rule: str_chars.induct)
  case (2 c cs)
  with length_dropWhile_le [of continues_char cs] show ?case by simp
qed simp

lemma levenshtein_table:
  "levenshtein a b =
     (if a = [] then length b else if b = [] then length a
      else if length (str_chars a) = length a \<and> length (str_chars b) = length b
      then distance (str_chars a) (str_chars b) else 0)"
proof -
  let ?cells = "lev_cells (length (str_chars a)) (length (str_chars b))"
  from lev_fold_inv [OF length_str_chars length_str_chars, of a b ?cells "[]"]
  have "levenshtein a b = (if a = [] then length b else if b = [] then length a
      else if (length a - 1, length b - 1) \<in> set ?cells then prefix_distance (str_chars a) (str_chars b) (length a) (length b) else 0)"
    by (simp add: levenshtein_def Let_def table_inv_def)
  moreover have "(length a - 1, length b - 1) \<in> set ?cells \<longleftrightarrow> length (str_chars a) = length a \<and> length (str_chars b) = length b"
    if "a \<noteq> []" "b \<noteq> []"
    using that length_str_chars [of a] length_str_chars [of b] by (cases a; cases b) (auto simp: lev_cells_def)
  ultimately show ?thesis by (auto simp: prefix_distance_def)
qed

lemma length_ascii: "list_all (\<lambda>c. \<not> continues_char c) s \<Longrightarrow> length (str_chars s) = length s"
  by (simp add: str_chars_ascii)

text \<open>
  On texts of single-byte characters the table computes the edit distance: so many insertions, deletions and
  replacements are enough, and fewer are not.
\<close>

theorem levenshtein_exact:
  assumes "list_all (\<lambda>c. \<not> continues_char c) a" "list_all (\<lambda>c. \<not> continues_char c) b"
  shows "edits (levenshtein a b) a b \<and> (\<forall>n. edits n a b \<longrightarrow> levenshtein a b \<le> n)"
proof -
  have "distance (map (\<lambda>c. [c]) xs) (map (\<lambda>c. [c]) ys) = distance xs ys" for xs ys :: string
    by (induction xs ys rule: distance.induct) simp_all
  then have "levenshtein a b = distance a b"
    using assms by (simp add: levenshtein_table str_chars_ascii)
  then show ?thesis by (simp add: edits_distance distance_least)
qed

text \<open>
  A text with a character of several bytes is at distance zero from every other text, since the last
  cell of the table is never written; the first known field is then suggested for it.
\<close>

theorem non_ascii_distance_zero:
  "length (str_chars a) < length a \<Longrightarrow> b \<noteq> [] \<Longrightarrow> levenshtein a b = 0"
  by (auto simp: levenshtein_table)

theorem non_ascii_suggestion:
  assumes "length (str_chars unknown) < length unknown" "k \<noteq> []"
  shows "suggest_field unknown (k # known) = Some (did_you_mean k)"
  using non_ascii_distance_zero [OF assms(1,2)]
  by (auto simp: suggest_field_def split: option.split)

section \<open>Configuration files\<close>

datatype json =
    J_Null | J_Bool bool | J_Num string | J_Str string | J_Arr "json list" | J_Obj "(string \<times> json) list"

fun as_object :: "json \<Rightarrow> (string \<times> json) list option" where
  "as_object (J_Obj fs) = Some fs"
| "as_object _ = None"

fun as_array :: "json \<Rightarrow> json list option" where
  "as_array (J_Arr vs) = Some vs"
| "as_array _ = None"

fun as_str :: "json \<Rightarrow> string option" where
  "as_str (J_Str s) = Some s"
| "as_str _ = None"

fun as_bool :: "json \<Rightarrow> bool option" where
  "as_bool (J_Bool b) = Some b"
| "as_bool _ = None"

text \<open>A field of an object, read by one of the functions above.\<close>

definition field :: "(json \<Rightarrow> 'a option) \<Rightarrow> string \<Rightarrow> (string \<times> json) list \<Rightarrow> 'a option" where
  "field read name obj = Option.bind (map_of obj name) read"

definition validate_network_endpoint :: "(string \<Rightarrow> string + url) \<Rightarrow> string \<Rightarrow> bool \<Rightarrow> string + unit" where
  "validate_network_endpoint parse endpoint allow_private_endpoints =
     (case parse endpoint of
        Inl e \<Rightarrow> Inl (''Invalid URL '' @ quoted endpoint @ '': '' @ e)
      | Inr url \<Rightarrow>
          if u_scheme url \<noteq> ''http'' \<and> u_scheme url \<noteq> ''https''
          then Inl (''Unsupported URL scheme '' @ quoted (u_scheme url) @ '' (expected http/https)'')
          else if \<not> allow_private_endpoints \<and> is_blocked_host url
          then Inl (''Endpoint targets local/private network. Set safety.allow_private_endpoints=true (or ''
             @ ''ZEPTOCLAW_SAFETY_ALLOW_PRIVATE_ENDPOINTS=1) only for trusted local development.'')
          else Inr ())"

definition utf8_dash :: string where
  "utf8_dash = [CHR 0xE2, CHR 0x80, CHR 0x94]"

definition unknown_field :: "diagnostic_level \<Rightarrow> string \<Rightarrow> string list \<Rightarrow> string \<Rightarrow> diagnostic list" where
  "unknown_field level path known k =
     (if k \<in> set known then []
      else [diag level (path @ k)
              (case suggest_field k known of
                 None \<Rightarrow> ''Unknown field '' @ quoted k
               | Some s \<Rightarrow> ''Unknown field '' @ quoted k @ '' '' @ utf8_dash @ '' '' @ s)])"

definition unknown_fields :: "diagnostic_level \<Rightarrow> string \<Rightarrow> string list \<Rightarrow> (string \<times> json) list \<Rightarrow> diagnostic list" where
  "unknown_fields level path known obj = concat (map (\<lambda>(k, _). unknown_field level path known k) obj)"

definition field_diagnostics :: "(string \<times> json) list \<Rightarrow> diagnostic list" where
  "field_diagnostics obj =
     unknown_fields Diag_Error [] known_top_level obj
       @ (case Option.bind (field as_object ''agents'' obj) (field as_object ''defaults'') of
            None \<Rightarrow> []
          | Some defaults \<Rightarrow>
              unknown_fields Diag_Error ''agents.defaults.'' known_agents_defaults defaults
                @ (case field as_object ''loop_guard'' defaults of
                     None \<Rightarrow> []
                   | Some lg \<Rightarrow> unknown_fields Diag_Warn ''agents.defaults.loop_guard.'' known_loop_guard lg))"

definition env_allows_private :: "string option \<Rightarrow> (string \<times> json) list \<Rightarrow> bool" where
  "env_allows_private env obj =
     (case env of
        Some v \<Rightarrow> eq_ignore_ascii_case v ''true'' \<or> v = ''1''
      | None \<Rightarrow> (case Option.bind (field as_object ''safety'' obj) (field as_bool ''allow_private_endpoints'') of Some b \<Rightarrow> b | None \<Rightarrow> False))"

definition api_base_diagnostics :: "(string \<Rightarrow> string + url) \<Rightarrow> bool \<Rightarrow> (string \<times> json) list \<Rightarrow> diagnostic list" where
  "api_base_diagnostics parse allow_private providers =
     concat (map
       (\<lambda>(name, v). if name = ''vertex'' then []
          else (case Option.bind (as_object v) (field as_str ''api_base'') of
                  None \<Rightarrow> []
                | Some api_base \<Rightarrow>
                    (case validate_network_endpoint parse api_base allow_private of
                       Inl message \<Rightarrow> [diag Diag_Error (''providers.'' @ name @ ''.api_base'') message]
                     | Inr _ \<Rightarrow> [])))
       providers)"

definition validate_provider_api_bases :: "(string \<Rightarrow> string + url) \<Rightarrow> bool \<Rightarrow> json option \<Rightarrow> diagnostic list" where
  "validate_provider_api_bases parse allow_private providers_value =
     (case Option.bind providers_value as_object of None \<Rightarrow> [] | Some providers \<Rightarrow> api_base_diagnostics parse allow_private providers)"

definition non_numeric :: "string \<Rightarrow> bool" where
  "non_numeric entry = (let t = trim entry in t = [] \<or> \<not> list_all (\<lambda>c. c \<in> set ''0123456789'') t)"

definition or_else :: "'a \<Rightarrow> 'a option \<Rightarrow> 'a" where
  "or_else x o' = (case o' of Some y \<Rightarrow> y | None \<Rightarrow> x)"

definition channel_diagnostics :: "string \<Rightarrow> (string \<times> json) list \<Rightarrow> diagnostic list" where
  "channel_diagnostics name obj =
     (let enabled = or_else False (field as_bool ''enabled'' obj);
          allow_from = or_else [] (field as_array ''allow_from'' obj)
      in (if enabled \<and> allow_from = []
          then [diag Diag_Warn (''channels.'' @ name @ ''.allow_from'') (''Empty '' @ utf8_dash @ '' anyone can message the bot'')] else [])
         @ (if name = ''email'' \<and> enabled \<and> or_else [] (field as_array ''allowed_senders'' obj) \<noteq> []
            then [diag Diag_Warn ''channels.email.allowed_senders''
                    (''Email sender allowlists trust the parsed From header only; enforce SPF/DKIM/DMARC upstream if sender ''
                      @ ''authenticity matters'')] else [])
         @ (if name = ''telegram'' \<and> list_ex non_numeric (List.map_filter as_str allow_from)
            then [diag Diag_Warn ''channels.telegram.allow_from''
                    (if or_else True (field as_bool ''allow_usernames'' obj)
                     then ''Telegram username allowlist entries are legacy and can be reassigned; prefer numeric user IDs and set ''
                       @ ''allow_usernames=false after migration''
                     else ''Telegram allow_from contains non-numeric entries, but allow_usernames=false so they will never match'')] else []))"

definition bridge_diagnostics :: "(string \<times> json) list \<Rightarrow> diagnostic list" where
  "bridge_diagnostics r8r =
     (case field as_str ''endpoint'' r8r of
        Some endpoint \<Rightarrow>
          if or_else False (field as_bool ''enabled'' r8r) \<and> prefix ''ws://'' endpoint \<and> \<not> str_contains endpoint ''localhost''
             \<and> \<not> str_contains endpoint ''127.0.0.1'' \<and> \<not> str_contains endpoint ''[::1]''
          then [diag Diag_Warn ''r8r_bridge.endpoint''
                  (''Plaintext ws:// on non-loopback address '' @ utf8_dash @ '' bearer token will be sent in cleartext; use wss://'')]
          else []
      | None \<Rightarrow> [])"

definition validate_config :: "(string \<Rightarrow> string + url) \<Rightarrow> string option \<Rightarrow> json \<Rightarrow> diagnostic list" where
  "validate_config parse env raw =
     (case as_object raw of
        None \<Rightarrow> [diag Diag_Error [] ''Config must be a JSON object'']
      | Some obj \<Rightarrow>
          [diag Diag_Ok [] ''Valid JSON''] @ field_diagnostics obj
            @ (if field_diagnostics obj = [] then [diag Diag_Ok [] ''All fields recognized''] else [])
            @ (case field as_object ''providers'' obj of
                 None \<Rightarrow> [] | Some providers \<Rightarrow> api_base_diagnostics parse (env_allows_private env obj) providers)
            @ (case field as_object ''channels'' obj of
                 None \<Rightarrow> []
               | Some channels \<Rightarrow>
                   concat (map (\<lambda>(name, v). case as_object v of None \<Rightarrow> [] | Some c \<Rightarrow> channel_diagnostics name c) channels))
            @ (case field as_object ''r8r_bridge'' obj of None \<Rightarrow> [] | Some r8r \<Rightarrow> bridge_diagnostics r8r))"

section \<open>Models and tools\<close>

text \<open>
  The name is compared in lower case; for the prefix that is looked for, lower case of ASCII letters
  is the same.
\<close>

definition check_model_backend_compat :: "string \<Rightarrow> string \<Rightarrow> string \<Rightarrow> string option" where
  "check_model_backend_compat model pname backend =
     (let claude = prefix ''claude-'' (to_ascii_lowercase model)
      in if backend = ''anthropic''
         then (if claude then None
               else Some (''model '' @ quoted model @ '' does not look like a Claude model (expected '' @ quoted ''claude-*'' @ '') but provider ''
                  @ quoted pname @ '' uses the Anthropic API''))
         else if backend = ''openai'' \<and> claude \<and> pname = ''openai''
         then Some (''model '' @ quoted model @ '' looks like a Claude model but provider '' @ quoted pname @ '' uses the OpenAI API'')
         else None)"

definition effective_primary :: "string \<Rightarrow> runtime_selection list \<Rightarrow> runtime_selection" where
  "effective_primary model selections =
     (case Option.bind (provider_name_for_model_with_available model (map sel_name selections))
             (\<lambda>name. find (\<lambda>s. sel_name s = name) selections) of
        Some s \<Rightarrow> s
      | None \<Rightarrow> hd selections)"

definition validate_model_provider_compat :: "string \<Rightarrow> runtime_selection list \<Rightarrow> diagnostic list" where
  "validate_model_provider_compat model selections =
     (if selections = []
      then [diag Diag_Warn ''providers''
              (''No AI provider resolved '' @ utf8_dash @ '' set an API key or run '' @ quoted ''zeptoclaw onboard'')]
      else let primary = effective_primary model selections;
               first = (case check_model_backend_compat model (sel_name primary) (sel_backend primary) of
                          None \<Rightarrow> []
                        | Some msg \<Rightarrow>
                            (case sel_model primary of
                               Some pmodel \<Rightarrow>
                                 [diag Diag_Warn ''agents.defaults.model''
                                    (msg @ '' (per-provider model '' @ quoted pmodel @ '' will be used instead)'')]
                             | None \<Rightarrow>
                                 [diag Diag_Error ''agents.defaults.model''
                                    (msg @ ''. Fix: set '' @ quoted ''agents.defaults.model'' @ '' to a compatible model, or add ''
                                      @ quoted ''providers.<name>.model'' @ '' override'')]));
               overrides = concat (map (\<lambda>s. case Option.bind (sel_model s) (\<lambda>m. check_model_backend_compat m (sel_name s) (sel_backend s)) of
                                           None \<Rightarrow> []
                                         | Some msg \<Rightarrow> [diag Diag_Error (''providers.'' @ sel_name s @ ''.model'') msg]) selections)
           in if first @ overrides = []
              then [diag Diag_Ok [] (''Model '' @ quoted model @ '' compatible with primary provider '' @ quoted (sel_name primary))]
              else first @ overrides)"

record custom_tool_def =
  ct_name :: string
  ct_description :: string
  ct_command :: string

definition builtin_names :: "string list" where
  "builtin_names =
     [''echo'', ''read_file'', ''write_file'', ''list_dir'', ''edit_file'', ''shell'', ''web_search'', ''web_fetch'', ''message'',
      ''memory_search'', ''memory_get'', ''longterm_memory'', ''whatsapp_send'', ''google_sheets'', ''cron'', ''spawn'', ''delegate'', ''r8r'']"

definition ascii_letters :: string where
  "ascii_letters = ''abcdefghijklmnopqrstuvwxyzABCDEFGHIJKLMNOPQRSTUVWXYZ''"

text \<open>The expression \<open>^[a-zA-Z][a-zA-Z0-9_]*$\<close>.\<close>

fun valid_tool_name :: "string \<Rightarrow> bool" where
  "valid_tool_name [] = False"
| "valid_tool_name (c # cs) = (c \<in> set ascii_letters \<and> list_all (\<lambda>c. c \<in> set (ascii_letters @ ''0123456789_'')) cs)"

definition tool_warnings :: "nat \<Rightarrow> custom_tool_def \<Rightarrow> string list" where
  "tool_warnings i tool =
     (let here = ''custom_tools['' @ show_nat i @ '']: ''
      in (if valid_tool_name (ct_name tool) then []
          else [here @ ''name '' @ quoted (ct_name tool) @ '' invalid '' @ utf8_dash
                  @ '' must start with a letter and contain only letters, digits, and underscores''])
         @ (if ct_name tool \<in> set builtin_names then [here @ ''name '' @ quoted (ct_name tool) @ '' conflicts with built-in tool''] else [])
         @ (if trim (ct_command tool) = [] then [here @ ''command must not be empty''] else [])
         @ (if 60 < length (ct_description tool)
            then [here @ ''description exceeds 60 chars ('' @ show_nat (length (ct_description tool)) @ ''). Shorter descriptions save tokens.'']
            else []))"

definition validate_custom_tools :: "custom_tool_def list \<Rightarrow> string list" where
  "validate_custom_tools tools = concat (map (\<lambda>(i, t). tool_warnings i t) (enumerate 0 tools))"

section \<open>What passes\<close>

definition has_error :: "diagnostic list \<Rightarrow> bool" where
  "has_error ds \<longleftrightarrow> (\<exists>d\<in>set ds. dg_level d = Diag_Error)"

lemma has_error_simps [simp]:
  "\<not> has_error []" "has_error (ds @ es) \<longleftrightarrow> has_error ds \<or> has_error es" "has_error (d # ds) \<longleftrightarrow> dg_level d = Diag_Error \<or> has_error ds"
  by (auto simp: has_error_def)

lemma has_error_concat [simp]: "has_error (concat (map f xs)) \<longleftrightarrow> (\<exists>x\<in>set xs. has_error (f x))"
  by (auto simp: has_error_def)

lemma has_error_if [simp]: "has_error (if c then ds else es) \<longleftrightarrow> (if c then has_error ds else has_error es)"
  by simp

lemma has_error_option [simp]: "has_error (case x of None \<Rightarrow> [] | Some y \<Rightarrow> f y) \<longleftrightarrow> (\<exists>y. x = Some y \<and> has_error (f y))"
  by (cases x) simp_all

lemma dg_level_diag [simp]: "dg_level (diag l p m) = l"
  by (simp add: diag_def)

lemma unknown_fields_error [simp]:
  "has_error (unknown_fields level path known obj) \<longleftrightarrow> level = Diag_Error \<and> \<not> fst ` set obj \<subseteq> set known"
proof -
  have "has_error (unknown_field level path known k) \<longleftrightarrow> level = Diag_Error \<and> k \<notin> set known" for k
    by (simp add: unknown_field_def)
  then show ?thesis by (simp add: unknown_fields_def case_prod_beta image_subset_iff)
qed

lemma channel_diagnostics_warn [simp]: "\<not> has_error (channel_diagnostics name obj)" "\<not> has_error (bridge_diagnostics obj)"
  by (simp_all only: channel_diagnostics_def bridge_diagnostics_def Let_def has_error_simps has_error_if has_error_option dg_level_diag
      diagnostic_level.distinct simp_thms if_cancel)

lemma endpoint_accepted:
  "validate_network_endpoint parse endpoint allow = Inr () \<longleftrightarrow>
     (\<exists>url. parse endpoint = Inr url \<and> u_scheme url \<in> {''http'', ''https''} \<and> (allow \<or> \<not> is_blocked_host url))"
  by (auto simp: validate_network_endpoint_def split: sum.splits if_splits)

lemma api_base_error:
  "has_error (api_base_diagnostics parse allow providers) \<longleftrightarrow>
     (\<exists>(name, v)\<in>set providers. name \<noteq> ''vertex'' \<and>
        (\<exists>base. Option.bind (as_object v) (field as_str ''api_base'') = Some base \<and> validate_network_endpoint parse base allow \<noteq> Inr ()))"
proof -
  have "has_error (case validate_network_endpoint parse base allow of
        Inl message \<Rightarrow> [diag Diag_Error (''providers.'' @ name @ ''.api_base'') message] | Inr _ \<Rightarrow> [])
      \<longleftrightarrow> validate_network_endpoint parse base allow \<noteq> Inr ()" for base name
    by (cases "validate_network_endpoint parse base allow") simp_all
  then show ?thesis by (simp add: api_base_diagnostics_def case_prod_beta cong: conj_cong)
qed

text \<open>
  A configuration is free of errors exactly when it is an object whose fields, and those of the agent
  defaults, are all known, and every provider's address, but that of Vertex, is an accepted endpoint.
\<close>

theorem config_accepted_exact:
  "\<not> has_error (validate_config parse env raw) \<longleftrightarrow>
     (\<exists>obj. raw = J_Obj obj \<and> fst ` set obj \<subseteq> set known_top_level
        \<and> (\<forall>defaults. Option.bind (field as_object ''agents'' obj) (field as_object ''defaults'') = Some defaults \<longrightarrow>
             fst ` set defaults \<subseteq> set known_agents_defaults)
        \<and> (\<forall>providers. field as_object ''providers'' obj = Some providers \<longrightarrow>
             (\<forall>(name, v)\<in>set providers. name \<noteq> ''vertex'' \<longrightarrow>
                (\<forall>base. Option.bind (as_object v) (field as_str ''api_base'') = Some base \<longrightarrow>
                   (\<exists>url. parse base = Inr url \<and> u_scheme url \<in> {''http'', ''https''}
                      \<and> (env_allows_private env obj \<or> \<not> is_blocked_host url))))))"
proof (cases "as_object raw")
  case None
  then show ?thesis by (cases raw) (simp_all add: validate_config_def)
next
  case (Some obj)
  then have r: "raw = J_Obj obj" by (cases raw) simp_all
  have f: "has_error (field_diagnostics obj) \<longleftrightarrow> \<not> fst ` set obj \<subseteq> set known_top_level
      \<or> (\<exists>defaults. Option.bind (field as_object ''agents'' obj) (field as_object ''defaults'') = Some defaults
           \<and> \<not> fst ` set defaults \<subseteq> set known_agents_defaults)"
    by (auto simp: field_diagnostics_def)
  have h: "has_error (validate_config parse env raw) \<longleftrightarrow> has_error (field_diagnostics obj)
      \<or> (\<exists>providers. field as_object ''providers'' obj = Some providers
           \<and> has_error (api_base_diagnostics parse (env_allows_private env obj) providers))"
    by (simp only: validate_config_def Some option.case has_error_simps has_error_if has_error_option has_error_concat dg_level_diag
        diagnostic_level.distinct channel_diagnostics_warn case_prod_beta simp_thms if_cancel bex_triv ball_simps bex_simps)
  show ?thesis
    unfolding endpoint_accepted [symmetric] h f api_base_error case_prod_beta unfolding r
    by (simp only: json.inject simp_thms de_Morgan_disj de_Morgan_conj not_ex not_not imp_conv_disj bex_simps ball_simps conj_assoc)
qed

text \<open>A plaintext endpoint passes without the warning as soon as a loopback name occurs anywhere in it.\<close>

theorem loopback_substring_no_warning:
  "bridge_diagnostics [(''enabled'', J_Bool True), (''endpoint'', J_Str ''ws://localhost.example.com/x'')] = []"
  by code_simp

text \<open>No warning about custom tools means that every tool has a free name, a command and a short description.\<close>

theorem custom_tools_exact:
  "validate_custom_tools tools = [] \<longleftrightarrow>
     (\<forall>t\<in>set tools. valid_tool_name (ct_name t) \<and> ct_name t \<notin> set builtin_names \<and> trim (ct_command t) \<noteq> [] \<and> length (ct_description t) \<le> 60)"
proof -
  have "tool_warnings i t = [] \<longleftrightarrow> valid_tool_name (ct_name t) \<and> ct_name t \<notin> set builtin_names \<and> trim (ct_command t) \<noteq> []
      \<and> length (ct_description t) \<le> 60" for i t
    by (auto simp: tool_warnings_def Let_def)
  moreover have "set tools = snd ` set (enumerate 0 tools)" by (metis list.set_map map_snd_enumerate)
  ultimately show ?thesis by (auto simp: validate_custom_tools_def)
qed

text \<open>With providers resolved, the check of the models raises an error exactly for a mismatch that is used at run time.\<close>

theorem model_compat_error:
  assumes "selections \<noteq> []" "primary = effective_primary model selections"
  shows "has_error (validate_model_provider_compat model selections) \<longleftrightarrow>
       sel_model primary = None \<and> check_model_backend_compat model (sel_name primary) (sel_backend primary) \<noteq> None
     \<or> (\<exists>s\<in>set selections. \<exists>m. sel_model s = Some m \<and> check_model_backend_compat m (sel_name s) (sel_backend s) \<noteq> None)"
proof -
  have "has_error (concat (map (\<lambda>s. case Option.bind (sel_model s) (\<lambda>m. check_model_backend_compat m (sel_name s) (sel_backend s)) of
        None \<Rightarrow> [] | Some msg \<Rightarrow> [diag Diag_Error (''providers.'' @ sel_name s @ ''.model'') msg]) selections))
      \<longleftrightarrow> (\<exists>s\<in>set selections. \<exists>m. sel_model s = Some m \<and> check_model_backend_compat m (sel_name s) (sel_backend s) \<noteq> None)"
    by (force simp: bind_eq_Some_conv split: option.splits)
  then show ?thesis
    using assms(1) unfolding validate_model_provider_compat_def assms(2) [symmetric] Let_def
    by (auto simp del: has_error_concat split: option.split)
qed

end
