(* ===== verification/A2ui.thy ===== *)
theory A2ui
  imports Number_Text Config_Check
begin

text \<open>
  The interface messages in a response (\<open>src/src/agent/loop.rs\<close>, from \<open>is_a2ui_message_object\<close> to
  \<open>extract_a2ui_messages_from_response\<close>): on channels with a custom interface the fenced \<open>a2ui\<close> blocks of a
  response that parse are taken out of its text, and a response without one whose text holds a Mermaid bar chart has the
  chart turned into two messages. The parser of serde_json is an argument; an object is the list of its fields.
\<close>

section \<open>Fenced blocks\<close>

text \<open>\<open>str::find\<close>: the text before the first occurrence, and the text from it on.\<close>

fun cut_at :: "string \<Rightarrow> string \<Rightarrow> (string \<times> string) option" where
  "cut_at p [] = (if p = [] then Some ([], []) else None)"
| "cut_at p (c # cs) =
     (if prefix p (c # cs) then Some ([], c # cs) else map_option (\<lambda>(a, b). (c # a, b)) (cut_at p cs))"

definition is_a2ui_message_object :: "(string \<times> json) list \<Rightarrow> bool" where
  "is_a2ui_message_object obj \<longleftrightarrow>
     list_ex (\<lambda>k. map_of obj k \<noteq> None)
       [''createSurface'', ''updateComponents'', ''updateDataModel'', ''deleteSurface'', ''beginRendering'',
        ''surfaceUpdate'', ''dataModelUpdate'']"

definition is_object :: "json \<Rightarrow> bool" where
  "is_object j \<longleftrightarrow> as_object j \<noteq> None"

definition some_objects :: "json list \<Rightarrow> json list option" where
  "some_objects items = (let ms = filter is_object items in if ms = [] then None else Some ms)"

definition normalize_a2ui_payload :: "json \<Rightarrow> json list option" where
  "normalize_a2ui_payload j =
     (case j of
        J_Arr items \<Rightarrow> some_objects items
      | J_Obj obj \<Rightarrow>
          (case field as_array ''messages'' obj of
             Some items \<Rightarrow> some_objects items
           | None \<Rightarrow>
               (case field as_object ''message'' obj of
                  Some m \<Rightarrow> Some [J_Obj m]
                | None \<Rightarrow> if is_a2ui_message_object obj then Some [J_Obj obj] else None))
      | _ \<Rightarrow> None)"

definition parse_a2ui_messages_block :: "(string \<Rightarrow> json option) \<Rightarrow> string \<Rightarrow> json list option" where
  "parse_a2ui_messages_block parse raw_block =
     (let trimmed = trim raw_block
      in if trimmed = [] then None else Option.bind (parse trimmed) normalize_a2ui_payload)"

definition a2ui_fence :: string where
  "a2ui_fence = ''```a2ui''"

text \<open>
  What \<open>cut_at\<close> finds of a block: the text before the fence, the whole block with both fences, what stands between
  them, and the rest. \<open>None\<close>: there is no fence, or it has no line of its own, or the block is not closed.
\<close>

definition next_block :: "string \<Rightarrow> (string \<times> string \<times> string \<times> string) option" where
  "next_block s =
     (case cut_at a2ui_fence s of
        None \<Rightarrow> None
      | Some (before, from_fence) \<Rightarrow>
          (case cut_at [CHR 0x0A] from_fence of
             None \<Rightarrow> None
           | Some (header, body) \<Rightarrow>
               (case cut_at ''```'' (drop 1 body) of
                  None \<Rightarrow> None
                | Some (block, closing) \<Rightarrow>
                    Some (before, header @ take 1 body @ block @ take 3 closing, block, drop 3 closing))))"

lemma cut_at_append: "cut_at p s = Some (a, b) \<Longrightarrow> s = a @ b \<and> prefix p b"
  by (induction s arbitrary: a) (auto split: if_splits)

lemma next_block_append: "next_block s = Some (a, b, c, d) \<Longrightarrow> s = a @ b @ d \<and> prefix a2ui_fence (b @ d)"
  by (auto simp: next_block_def split: option.splits prod.splits dest!: cut_at_append)
    (metis append_assoc append_take_drop_id)+

lemma next_block_shorter: "next_block s = Some (a, b, c, d) \<Longrightarrow> length d < length s"
  by (auto simp: next_block_def a2ui_fence_def prefix_def split: option.splits prod.splits dest!: cut_at_append)

function take_blocks :: "(string \<Rightarrow> json option) \<Rightarrow> string \<Rightarrow> string \<times> json list" where
  "take_blocks parse s =
     (case next_block s of
        None \<Rightarrow> (s, [])
      | Some (before, whole, block, rest) \<Rightarrow>
          (case take_blocks parse rest of
             (cleaned, ms) \<Rightarrow>
               (case parse_a2ui_messages_block parse block of
                  Some parsed \<Rightarrow> (before @ cleaned, parsed @ ms)
                | None \<Rightarrow> (before @ whole @ cleaned, ms))))"
  by pat_completeness auto
termination by (relation "measure (length \<circ> snd)") (auto dest: next_block_shorter)

declare take_blocks.simps [simp del]

section \<open>Mermaid bar charts\<close>

record mermaid_xychart_spec =
  mx_title :: "string option"
  mx_labels :: "string list"
  mx_values :: "nat list"
  mx_y_max :: nat

definition trim_matches :: "char \<Rightarrow> string \<Rightarrow> string" where
  "trim_matches c s = rev (dropWhile (\<lambda>x. x = c) (rev (dropWhile (\<lambda>x. x = c) s)))"

definition parse_mermaid_array_str :: "string \<Rightarrow> string list" where
  "parse_mermaid_array_str raw =
     (case cut_at ''['' raw of
        None \<Rightarrow> []
      | Some (_, from_open) \<Rightarrow>
          (case cut_at '']'' (drop 1 from_open) of
             None \<Rightarrow> []
           | Some (inner, _) \<Rightarrow>
               map (trim_matches (CHR 0x27) \<circ> trim_matches (CHR 0x22))
                 (filter (\<lambda>part. part \<noteq> []) (map trim (split_on (CHR '','') inner)))))"

definition parse_u64 :: "string \<Rightarrow> nat option" where
  "parse_u64 s =
     (let ds = (case s of [] \<Rightarrow> s | c # cs \<Rightarrow> if c = CHR ''+'' then cs else s)
      in if ds = [] then None
         else (case parse_digits 0 ds of None \<Rightarrow> None | Some n \<Rightarrow> if n \<le> u64_max then Some n else None))"

definition parse_mermaid_array_u64 :: "string \<Rightarrow> nat list" where
  "parse_mermaid_array_u64 raw = List.map_filter parse_u64 (parse_mermaid_array_str raw)"

definition parse_mermaid_quoted_value :: "string \<Rightarrow> string option" where
  "parse_mermaid_quoted_value raw =
     (case cut_at [CHR 0x22] raw of
        None \<Rightarrow> None
      | Some (_, r) \<Rightarrow> map_option fst (cut_at [CHR 0x22] (drop 1 r)))"

text \<open>The fields as the lines set them: the title, the labels, the values and the upper end of the axis.\<close>

type_synonym xychart_fields = "string option \<times> string list \<times> nat list \<times> nat option"

definition xychart_line :: "string \<Rightarrow> xychart_fields \<Rightarrow> xychart_fields" where
  "xychart_line line f =
     (case f of (title, labels, values, y_max) \<Rightarrow>
        let t = trim line
        in if starts_with t ''title '' then (parse_mermaid_quoted_value t, labels, values, y_max)
           else if starts_with t ''x-axis '' then (title, parse_mermaid_array_str t, values, y_max)
           else if starts_with t ''bar '' then (title, labels, parse_mermaid_array_u64 t, y_max)
           else if starts_with t ''y-axis ''
           then (case cut_at ''-->'' t of
                   Some (_, marker) \<Rightarrow> (title, labels, values, parse_u64 (trim (drop 3 marker)))
                 | None \<Rightarrow> f)
           else f)"

definition parse_mermaid_xychart_spec :: "string \<Rightarrow> mermaid_xychart_spec option" where
  "parse_mermaid_xychart_spec text =
     (if \<not> str_contains text ''xychart-beta'' then None
      else case fold xychart_line (str_lines text) (None, [], [], None) of
             (title, labels, values, y_max) \<Rightarrow>
               if values = [] then None
               else let computed_max = max (Max (set values)) 1
                    in Some \<lparr>mx_title = title,
                         mx_labels = (if length labels \<noteq> length values
                           then map (\<lambda>i. ''Item '' @ show_nat i) [1..<length values + 1] else labels),
                         mx_values = values,
                         mx_y_max = max (case y_max of Some y \<Rightarrow> y | None \<Rightarrow> computed_max) computed_max\<rparr>)"

text \<open>The lines that belong to the chart after its first one, the blank line that ends it included.\<close>

definition xychart_continues :: "string \<Rightarrow> bool" where
  "xychart_continues raw \<longleftrightarrow>
     starts_with raw '' '' \<or> starts_with raw [CHR 0x09]
     \<or> list_ex (starts_with (trim raw)) [''title '', ''x-axis '', ''y-axis '', ''bar '', ''line '', ''scatter '']"

fun after_xychart :: "string list \<Rightarrow> string list" where
  "after_xychart [] = []"
| "after_xychart (raw # ls) =
     (if trim raw = [] then ls else if xychart_continues raw then after_xychart ls else raw # ls)"

definition strip_mermaid_xychart_block :: "string \<Rightarrow> string" where
  "strip_mermaid_xychart_block text =
     (let lines = str_lines text;
          starts = (\<lambda>l. starts_with (trim_start l) ''xychart-beta'')
      in case dropWhile (\<lambda>l. \<not> starts l) lines of
           [] \<Rightarrow> text
         | _ # ls \<Rightarrow> trim (join [CHR 0x0A] (takeWhile (\<lambda>l. \<not> starts l) lines @ after_xychart ls)))"

definition chart_row :: "nat \<Rightarrow> nat \<Rightarrow> string \<Rightarrow> nat \<Rightarrow> json list" where
  "chart_row y_max i label value =
     (let n = show_nat (i + 1); row_id = ''row_'' @ n; slider_id = ''bar_'' @ n; value_id = ''value_'' @ n
      in [J_Obj [(''id'', J_Str row_id), (''component'', J_Str ''Row''), (''children'', J_Arr [J_Str slider_id, J_Str value_id]),
            (''align'', J_Str ''center''), (''justify'', J_Str ''spaceBetween'')],
          J_Obj [(''id'', J_Str slider_id), (''component'', J_Str ''Slider''), (''label'', J_Str label), (''min'', J_Num ''0''),
            (''max'', J_Num (show_nat y_max)), (''value'', J_Num (show_nat (min value y_max)))],
          J_Obj [(''id'', J_Str value_id), (''component'', J_Str ''Text''), (''variant'', J_Str ''caption''),
            (''text'', J_Str (show_nat value))]])"

definition build_a2ui_messages_from_mermaid_xychart :: "nat \<Rightarrow> mermaid_xychart_spec \<Rightarrow> json list" where
  "build_a2ui_messages_from_mermaid_xychart seq chart =
     (let surface_id = J_Str (''chart_'' @ show_nat seq);
          rows = enumerate 0 (zip (mx_labels chart) (mx_values chart));
          components =
            [J_Obj [(''id'', J_Str ''root''), (''component'', J_Str ''Column''),
               (''children'', J_Arr [J_Str ''title'', J_Str ''bars'']), (''align'', J_Str ''stretch'')],
             J_Obj [(''id'', J_Str ''title''), (''component'', J_Str ''Text''), (''variant'', J_Str ''h3''),
               (''text'', J_Str (case mx_title chart of Some t \<Rightarrow> t | None \<Rightarrow> ''Chart''))]]
            @ concat (map (\<lambda>(i, label, value). chart_row (mx_y_max chart) i label value) rows)
            @ [J_Obj [(''id'', J_Str ''bars''), (''component'', J_Str ''Column''),
                 (''children'', J_Arr (map (\<lambda>(i, _). J_Str (''row_'' @ show_nat (i + 1))) rows)), (''align'', J_Str ''stretch'')]]
      in [J_Obj [(''version'', J_Str ''v0.9''),
            (''createSurface'', J_Obj [(''surfaceId'', surface_id),
               (''catalogId'', J_Str ''https://a2ui.org/specification/v0_9/basic_catalog.json'')])],
          J_Obj [(''version'', J_Str ''v0.9''),
            (''updateComponents'', J_Obj [(''surfaceId'', surface_id), (''components'', J_Arr components)])]])"

section \<open>The response\<close>

text \<open>The text that is left, the messages, and the counter of the charts made so far.\<close>

definition extract_a2ui_messages_from_response ::
    "(string \<Rightarrow> json option) \<Rightarrow> nat \<Rightarrow> string \<Rightarrow> string \<times> json list \<times> nat" where
  "extract_a2ui_messages_from_response parse seq text =
     (case take_blocks parse text of
        (c, ms) \<Rightarrow>
          let cleaned = trim c
          in if ms \<noteq> [] then (cleaned, ms, seq)
             else case parse_mermaid_xychart_spec cleaned of
                    None \<Rightarrow> (cleaned, [], seq)
                  | Some chart \<Rightarrow>
                      (strip_mermaid_xychart_block cleaned, build_a2ui_messages_from_mermaid_xychart seq chart, wrap64 (seq + 1)))"

section \<open>Lemmas\<close>

lemma next_block_none: "\<not> str_contains s a2ui_fence \<Longrightarrow> next_block s = None"
proof -
  have "cut_at a2ui_fence s = Some (a, b) \<Longrightarrow> str_contains s a2ui_fence" for a b
    by (auto simp: sublist_def dest!: cut_at_append elim!: prefixE)
  then show "\<not> str_contains s a2ui_fence \<Longrightarrow> next_block s = None"
    by (auto simp: next_block_def split: option.split)
qed

lemma objects_of_payload: "normalize_a2ui_payload j = Some ms \<Longrightarrow> ms \<noteq> [] \<and> list_all is_object ms"
  by (cases j)
    (auto simp: normalize_a2ui_payload_def some_objects_def Let_def list_all_iff is_object_def split: option.splits if_splits)

lemma objects_of_block: "parse_a2ui_messages_block parse b = Some ms \<Longrightarrow> ms \<noteq> [] \<and> list_all is_object ms"
  by (auto simp: parse_a2ui_messages_block_def bind_eq_Some_conv Let_def split: if_splits dest: objects_of_payload)

lemma objects_of_text: "list_all is_object (snd (take_blocks parse s))"
proof (induction s rule: length_induct)
  case (1 s)
  show ?case
  proof (cases "next_block s")
    case None
    then show ?thesis by (simp add: take_blocks.simps)
  next
    case (Some q)
    obtain a b c d where q: "next_block s = Some (a, b, c, d)" using Some by (cases q) auto
    from 1 next_block_shorter [OF q] have "list_all is_object (snd (take_blocks parse d))" by blast
    then show ?thesis
      by (subst take_blocks.simps) (auto simp: q split: prod.splits option.splits dest: objects_of_block)
  qed
qed

text \<open>
  Every message that leaves the extraction is an object, and a text with neither an \<open>a2ui\<close> fence nor a chart loses
  nothing but the white space around it.
\<close>

theorem extracted_messages_are_objects:
  "list_all is_object (fst (snd (extract_a2ui_messages_from_response parse seq text)))
   \<and> (\<not> str_contains text a2ui_fence \<longrightarrow> \<not> str_contains (trim text) ''xychart-beta'' \<longrightarrow>
        extract_a2ui_messages_from_response parse seq text = (trim text, [], seq))"
proof -
  have "list_all is_object (build_a2ui_messages_from_mermaid_xychart n chart)" for n chart
    by (simp add: build_a2ui_messages_from_mermaid_xychart_def is_object_def Let_def)
  then have "list_all is_object (fst (snd (extract_a2ui_messages_from_response parse seq text)))"
    using objects_of_text [of parse "text"]
    by (auto simp: extract_a2ui_messages_from_response_def Let_def split: prod.splits option.splits)
  moreover have "\<not> str_contains text a2ui_fence \<Longrightarrow> take_blocks parse text = (text, [])"
    by (simp add: take_blocks.simps next_block_none)
  ultimately show ?thesis
    by (simp add: extract_a2ui_messages_from_response_def parse_mermaid_xychart_spec_def)
qed

theorem extracted_messages_are_objects_witness:
  "extract_a2ui_messages_from_response (\<lambda>_. None) 1 ''all done '' = (''all done'', [], 1)"
proof -
  have "\<not> str_contains ''all done '' a2ui_fence" "\<not> str_contains (trim ''all done '') ''xychart-beta''"
      "trim ''all done '' = ''all done''" by code_simp+
  then show ?thesis using extracted_messages_are_objects [of "\<lambda>_. None" 1 "''all done ''"] by simp
qed

text \<open>The responses of the repository's tests, with a parser that knows their blocks.\<close>

definition one_chart :: string where
  "one_chart = ''```mermaid'' @ [CHR 0x0A] @ ''xychart-beta'' @ [CHR 0x0A] @ ''    title '' @ [CHR 0x22] @ ''Sales'' @ [CHR 0x22, CHR 0x0A]
     @ ''    x-axis [Q1, Q2]'' @ [CHR 0x0A] @ ''    bar [10, 20]'' @ [CHR 0x0A] @ ''```''"

theorem chart_extracted:
  "parse_mermaid_xychart_spec one_chart
     = Some \<lparr>mx_title = Some ''Sales'', mx_labels = [''Q1'', ''Q2''], mx_values = [10, 20], mx_y_max = 20\<rparr>
   \<and> fst (extract_a2ui_messages_from_response (\<lambda>_. None) 1 one_chart) = ''```mermaid'' @ [CHR 0x0A] @ ''```''
   \<and> (let r = extract_a2ui_messages_from_response (\<lambda>b. if b = ''{}'' then Some (J_Obj [(''deleteSurface'', J_Null)]) else None) 1
            (''a'' @ [CHR 0x0A] @ ''```a2ui'' @ [CHR 0x0A] @ ''{}'' @ [CHR 0x0A] @ ''```'' @ [CHR 0x0A] @ ''b'')
      in fst r = ''a'' @ [CHR 0x0A, CHR 0x0A] @ ''b'' \<and> fst (snd r) = [J_Obj [(''deleteSurface'', J_Null)]])"
  by code_simp

end
