(* ===== verification/Agent_Queue.thy ===== *)
theory Agent_Queue
  imports Agent_Stream A2ui Pairing
begin

text \<open>
  The agent's receive loop (\<open>src/src/agent/loop.rs\<close>: \<open>start\<close>, \<open>try_queue_or_process\<close>,
  \<open>process_inbound_message\<close>, \<open>drain_pending_messages\<close>): a message from the bus is refused when its device is not paired,
  set aside when its session is busy, and otherwise answered, after which what was set aside for the
  session goes back to the bus. What a turn's tools tell the user is published before the reply, and a message that
  wants a stream gets it in pieces. On channels with a custom interface the interface messages are
  taken out of the reply; the events there that show a turn's progress, all of the kind \<open>Custom\<close>, spans and metrics are left out.

  Arguments: the time limit of a turn, which may cut it off in any state and after any messages of its tools and any
  part of its stream; whether another task holds the lock of a session; the clocks and the digest of the pairing; the parser and
  the printer of serde_json.
\<close>

datatype message_queue_mode = Collect_Mode | Followup

record ('v, 'w) loop_env =
  le_mode :: message_queue_mode
  le_timeout_secs :: nat
  le_streaming :: bool
  le_cut :: "inbound_message \<Rightarrow> 'w agent_state \<Rightarrow> (string list \<times> string list \<times> 'w agent_state) option"
  le_busy :: "string \<Rightarrow> 'w \<Rightarrow> bool"
  le_hash :: "string \<Rightarrow> string"
  le_instant :: "'w \<Rightarrow> int"
  le_epoch :: "'w \<Rightarrow> nat"
  le_json_parse :: "string \<Rightarrow> json option"
  le_json_text :: "json \<Rightarrow> string"

record 'w dispatcher =
  dp_state :: "'w agent_state"
  dp_pending :: "string \<Rightarrow> inbound_message list"
  dp_bus :: "'w message_bus"
  dp_pairing :: "pairing_manager option"
  dp_surface_seq :: nat

abbreviation dp_world :: "'w dispatcher \<Rightarrow> 'w" where
  "dp_world d \<equiv> as_world (dp_state d)"

definition send_reply :: "outbound_message \<Rightarrow> 'w dispatcher \<Rightarrow> 'w dispatcher" where
  "send_reply out d = d\<lparr>dp_bus := snd (publish_outbound out (dp_bus d))\<rparr>"

definition send_replies :: "outbound_message list \<Rightarrow> 'w dispatcher \<Rightarrow> 'w dispatcher" where
  "send_replies outs d = fold send_reply outs d"

text \<open>What the tools of a turn had for the user, in the order in which they said it.\<close>

definition flush_outbox :: "'w dispatcher \<Rightarrow> 'w dispatcher" where
  "flush_outbox d = send_replies (as_outbox (dp_state d)) (d\<lparr>dp_state := (dp_state d)\<lparr>as_outbox := []\<rparr>\<rparr>)"

text \<open>
  Going back to the bus is awaited by the loop itself, the only reader of the inbound queue: when the queue
  is full the loop is stuck.
\<close>

datatype 'a loop_result = Going 'a | Stuck 'a | Crashed

definition requeue :: "inbound_message \<Rightarrow> 'w dispatcher \<Rightarrow> 'w dispatcher loop_result" where
  "requeue msg d =
     (case publish_inbound_with_status msg (dp_bus d) (dp_world d) of
        (r, b, w) \<Rightarrow>
          let d1 = d\<lparr>dp_bus := b, dp_state := set_world w (dp_state d)\<rparr>
          in if r = Awaiting_Room then Stuck d1 else Going d1)"

fun requeue_all :: "inbound_message list \<Rightarrow> 'w dispatcher \<Rightarrow> 'w dispatcher loop_result" where
  "requeue_all [] d = Going d"
| "requeue_all (m # ms) d = (case requeue m d of Going d1 \<Rightarrow> requeue_all ms d1 | r \<Rightarrow> r)"

definition collected_content :: "inbound_message list \<Rightarrow> string" where
  "collected_content pending =
     ''[Queued messages while I was busy]'' @ [CHR 0x0A, CHR 0x0A]
     @ join [CHR 0x0A] (map (\<lambda>(i, m). show_nat (i + 1) @ ''. '' @ im_content m) (enumerate 0 pending))"

definition collected_message :: "inbound_message \<Rightarrow> inbound_message list \<Rightarrow> inbound_message" where
  "collected_message msg pending = inbound_new (im_channel msg) (im_sender_id msg) (im_chat_id msg) (collected_content pending)"

definition drain_pending_messages :: "('v, 'w) loop_env \<Rightarrow> inbound_message \<Rightarrow> 'w dispatcher \<Rightarrow> 'w dispatcher loop_result" where
  "drain_pending_messages E msg d =
     (let pending = dp_pending d (im_session_key msg);
          d1 = d\<lparr>dp_pending := (dp_pending d)(im_session_key msg := [])\<rparr>
      in if pending = [] then Going d1
         else case le_mode E of
                Collect_Mode \<Rightarrow> requeue (collected_message msg pending) d1
              | Followup \<Rightarrow> requeue_all pending d1)"

text \<open>The reply to a message, from its text: the interface messages of the text go first, as events of their own.\<close>

definition reply_new :: "inbound_message \<Rightarrow> string \<Rightarrow> outbound_message" where
  "reply_new msg text = outbound_new (im_channel msg) (im_chat_id msg) text"

definition a2ui_event :: "('v, 'w) loop_env \<Rightarrow> inbound_message \<Rightarrow> json \<Rightarrow> outbound_message" where
  "a2ui_event E msg j =
     outbound_with_metadata ''custom.summary'' ''[a2ui] update''
       (outbound_with_metadata ''custom.payload'' (le_json_text E j)
         (outbound_with_metadata ''custom.name'' ''ui:a2ui'' (outbound_with_kind Custom (reply_new msg []))))"

definition split_ui :: "('v, 'w) loop_env \<Rightarrow> inbound_message \<Rightarrow> nat \<Rightarrow> string \<Rightarrow> string \<times> outbound_message list \<times> nat" where
  "split_ui E msg seq text =
     (if supports_custom_ui_channel (im_channel msg)
      then case extract_a2ui_messages_from_response (le_json_parse E) seq text of
             (cleaned, ms, seq') \<Rightarrow> (cleaned, map (a2ui_event E msg) ms, seq')
      else (text, [], seq))"

definition error_reply :: "inbound_message \<Rightarrow> zepto_error \<Rightarrow> outbound_message" where
  "error_reply msg e = mark_error (reply_new msg (''Error: '' @ zepto_error_display e))"

definition timeout_text :: "('v, 'w) loop_env \<Rightarrow> string" where
  "timeout_text E = ''Agent run timed out after '' @ show_nat (le_timeout_secs E) @ ''s. Try a simpler request.''"

text \<open>What is published for an ordinary message; \<open>None\<close> is a turn that was cut off.\<close>

definition replies_of ::
    "('v, 'w) loop_env \<Rightarrow> inbound_message \<Rightarrow> nat \<Rightarrow> string zresult option \<Rightarrow> outbound_message list \<times> nat" where
  "replies_of E msg seq outcome =
     (case outcome of
        Some (Inr response) \<Rightarrow>
          (case split_ui E msg seq response of
             (text, events, seq') \<Rightarrow> (events @ [propagate_routing_metadata msg (reply_new msg text)], seq'))
      | Some (Inl e) \<Rightarrow> ([propagate_routing_metadata msg (error_reply msg e)], seq)
      | None \<Rightarrow> ([propagate_routing_metadata msg (reply_new msg (timeout_text E))], seq))"

text \<open>The streamed pieces: the text of each, and what the stream ends with.\<close>

definition resolve_streamed_response_text :: "string \<Rightarrow> string \<Rightarrow> string" where
  "resolve_streamed_response_text delta_accum done_content =
     (if trim done_content = [] then delta_accum else done_content)"

fun consume_stream :: "string \<Rightarrow> stream_event list \<Rightarrow> string list \<times> string zresult" where
  "consume_stream acc [] = ([], Inr [])"
| "consume_stream acc (Delta t # es) = (case consume_stream (acc @ t) es of (ts, r) \<Rightarrow> (t # ts, r))"
| "consume_stream acc (Done c u # es) = ([], Inr (resolve_streamed_response_text acc c))"
| "consume_stream acc (ToolCalls tcs # es) = ([], Inr acc)"
| "consume_stream acc (StreamError e # es) = ([], Inl e)"

definition chunk_of :: "inbound_message \<Rightarrow> string \<Rightarrow> outbound_message" where
  "chunk_of msg text = propagate_routing_metadata msg (outbound_with_kind Chunk (reply_new msg text))"

text \<open>
  What is published for a streamed message: the pieces, and then the end of the stream, or the whole text when there
  were no pieces. \<open>None\<close> is a turn that was cut off.
\<close>

definition stream_replies ::
    "('v, 'w) loop_env \<Rightarrow> inbound_message \<Rightarrow> nat \<Rightarrow> string list \<Rightarrow> string zresult option \<Rightarrow> outbound_message list \<times> nat" where
  "stream_replies E msg seq pieces outcome =
     (case outcome of
        Some (Inr final) \<Rightarrow>
          (case split_ui E msg seq final of
             (text, events, seq') \<Rightarrow>
               (map (chunk_of msg) pieces @ events
                  @ [propagate_routing_metadata msg
                      (if pieces = [] then reply_new msg text else outbound_with_kind ChunkEnd (reply_new msg []))], seq'))
      | Some (Inl e) \<Rightarrow> (map (chunk_of msg) pieces @ [propagate_routing_metadata msg (error_reply msg e)], seq)
      | None \<Rightarrow>
          (map (chunk_of msg) pieces @ [propagate_routing_metadata msg (mark_error (reply_new msg (timeout_text E)))], seq))"

text \<open>The end of a turn: what its tools said, the replies, and the messages that waited for it.\<close>

definition deliver ::
    "('v, 'w) loop_env \<Rightarrow> inbound_message \<Rightarrow> outbound_message list \<times> nat \<Rightarrow> 'w agent_state \<Rightarrow> 'w dispatcher \<Rightarrow> 'w dispatcher loop_result" where
  "deliver E msg replies st d =
     (case replies of
        (outs, seq) \<Rightarrow>
          drain_pending_messages E msg (send_replies outs (flush_outbox (d\<lparr>dp_state := st, dp_surface_seq := seq\<rparr>))))"

definition should_stream :: "('v, 'w) loop_env \<Rightarrow> inbound_message \<Rightarrow> bool" where
  "should_stream E msg \<longleftrightarrow> is_streaming_capable msg \<and> le_streaming E"

text \<open>The state of a turn that was cut off after its tools had said \<open>told\<close>.\<close>

definition cut_state :: "inbound_message \<Rightarrow> string list \<Rightarrow> 'w agent_state \<Rightarrow> 'w dispatcher \<Rightarrow> 'w agent_state" where
  "cut_state msg texts st d = st\<lparr>as_outbox := as_outbox (dp_state d) @ map (user_message msg) texts\<rparr>"

definition process_inbound_message_streaming ::
    "('v, 'w) library \<Rightarrow> ('v, 'w) agent \<Rightarrow> ('v, 'w) loop_env \<Rightarrow> inbound_message \<Rightarrow> 'w dispatcher \<Rightarrow> 'w dispatcher loop_result" where
  "process_inbound_message_streaming L A E msg d =
     (let seq = dp_surface_seq d
      in case le_cut E msg (dp_state d) of
           Some (texts, pieces, st) \<Rightarrow> deliver E msg (stream_replies E msg seq pieces None) (cut_state msg texts st d) d
         | None \<Rightarrow>
             (case process_message_streaming L A msg (dp_state d) of
                (None, st) \<Rightarrow> Crashed
              | (Some (Inl e), st) \<Rightarrow> deliver E msg (stream_replies E msg seq [] (Some (Inl e))) st d
              | (Some (Inr es), st) \<Rightarrow>
                  (case consume_stream [] es of
                     (pieces, r) \<Rightarrow> deliver E msg (stream_replies E msg seq pieces (Some r)) st d)))"

definition process_inbound_message ::
    "('v, 'w) library \<Rightarrow> ('v, 'w) agent \<Rightarrow> ('v, 'w) loop_env \<Rightarrow> inbound_message \<Rightarrow> 'w dispatcher \<Rightarrow> 'w dispatcher loop_result" where
  "process_inbound_message L A E msg d =
     (if should_stream E msg then process_inbound_message_streaming L A E msg d
      else case le_cut E msg (dp_state d) of
             Some (texts, _, st) \<Rightarrow> deliver E msg (replies_of E msg (dp_surface_seq d) None) (cut_state msg texts st d) d
           | None \<Rightarrow>
               (case process_message L A msg (dp_state d) of
                  (None, st) \<Rightarrow> Crashed
                | (Some r, st) \<Rightarrow> deliver E msg (replies_of E msg (dp_surface_seq d) (Some r)) st d))"

text \<open>The pairing check of the receive loop: whether the message may go on, and the pairing state after it.\<close>

definition check_pairing :: "('v, 'w) loop_env \<Rightarrow> inbound_message \<Rightarrow> 'w dispatcher \<Rightarrow> bool \<times> 'w dispatcher" where
  "check_pairing E msg d =
     (case dp_pairing d of
        None \<Rightarrow> (True, d)
      | Some m \<Rightarrow>
          (case im_metadata msg ''auth_token'' of
             None \<Rightarrow> (False, d)
           | Some raw_token \<Rightarrow>
               (case validate_token (le_hash E) (le_instant E (dp_world d)) (le_epoch E (dp_world d)) raw_token (im_sender_id msg) m of
                  (v, m') \<Rightarrow> (v \<noteq> None, d\<lparr>dp_pairing := Some m'\<rparr>))))"

definition denial :: "inbound_message \<Rightarrow> outbound_message" where
  "denial msg = propagate_routing_metadata msg (outbound_new (im_channel msg) (im_chat_id msg)
     (''Access denied: device not paired. Use `zeptoclaw pair new` to generate a pairing code.''))"

definition queue_message :: "inbound_message \<Rightarrow> 'w dispatcher \<Rightarrow> 'w dispatcher" where
  "queue_message msg d =
     d\<lparr>dp_pending := (dp_pending d)(im_session_key msg := dp_pending d (im_session_key msg) @ [msg])\<rparr>"

text \<open>One message in the receive loop.\<close>

definition handle_inbound ::
    "('v, 'w) library \<Rightarrow> ('v, 'w) agent \<Rightarrow> ('v, 'w) loop_env \<Rightarrow> inbound_message \<Rightarrow> 'w dispatcher \<Rightarrow> 'w dispatcher loop_result" where
  "handle_inbound L A E msg d =
     (case check_pairing E msg d of
        (False, d1) \<Rightarrow> Going (send_reply (denial msg) d1)
      | (True, d1) \<Rightarrow>
          if le_busy E (im_session_key msg) (dp_world d1) then Going (queue_message msg d1)
          else process_inbound_message L A E msg d1)"

text \<open>The loop takes message after message until the bus is closed; here, as many as \<open>n\<close>.\<close>

fun run_loop ::
    "('v, 'w) library \<Rightarrow> ('v, 'w) agent \<Rightarrow> ('v, 'w) loop_env \<Rightarrow> nat \<Rightarrow> 'w dispatcher \<Rightarrow> 'w dispatcher loop_result" where
  "run_loop L A E 0 d = Going d"
| "run_loop L A E (Suc n) d =
     (case consume_inbound (dp_bus d) of
        (None, b) \<Rightarrow> Going (d\<lparr>dp_bus := b\<rparr>)
      | (Some msg, b) \<Rightarrow>
          (case handle_inbound L A E msg (d\<lparr>dp_bus := b\<rparr>) of Going d1 \<Rightarrow> run_loop L A E n d1 | r \<Rightarrow> r))"

section \<open>Lemmas\<close>

lemma dp_send_reply [simp]:
  "dp_state (send_reply out d) = dp_state d" "dp_pending (send_reply out d) = dp_pending d"
  "dp_pairing (send_reply out d) = dp_pairing d" "bus_inbound (dp_bus (send_reply out d)) = bus_inbound (dp_bus d)"
  "bus_interceptor (dp_bus (send_reply out d)) = bus_interceptor (dp_bus d)"
  by (simp_all add: send_reply_def publish_outbound_def split: prod.splits)

text \<open>The dispatcher a step leaves, unless it crashed.\<close>

fun left :: "'a loop_result \<Rightarrow> 'a option" where
  "left (Going d) = Some d"
| "left (Stuck d) = Some d"
| "left Crashed = None"

lemma requeue_frame:
  assumes "left (requeue msg d) = Some d1"
  shows "dp_pending d1 = dp_pending d \<and> dp_pairing d1 = dp_pairing d \<and> bus_outbound (dp_bus d1) = bus_outbound (dp_bus d)"
  using assms
  by (auto simp: requeue_def publish_inbound_with_status_def intercept_def Let_def split: prod.splits if_splits option.splits bool.splits)

lemma requeue_all_frame:
  "left (requeue_all ms d) = Some d1 \<Longrightarrow>
     dp_pending d1 = dp_pending d \<and> dp_pairing d1 = dp_pairing d \<and> bus_outbound (dp_bus d1) = bus_outbound (dp_bus d)"
proof (induction ms arbitrary: d)
  case (Cons m ms)
  show ?case
  proof (cases "requeue m d")
    case (Going d2)
    with Cons requeue_frame [of m d d2] show ?thesis by simp
  qed (use Cons.prems requeue_frame [of m d d1] in auto)
qed simp

lemma drain_frame:
  assumes "left (drain_pending_messages E msg d) = Some d1"
  shows "dp_pending d1 = (dp_pending d)(im_session_key msg := []) \<and> dp_pairing d1 = dp_pairing d
    \<and> bus_outbound (dp_bus d1) = bus_outbound (dp_bus d)"
  using assms
  by (auto simp: drain_pending_messages_def Let_def split: if_splits message_queue_mode.splits
      dest!: requeue_frame requeue_all_frame)

lemma check_pairing_frame:
  assumes "check_pairing E msg d = (ok, d1)"
  shows "dp_state d1 = dp_state d \<and> dp_pending d1 = dp_pending d \<and> dp_bus d1 = dp_bus d"
  using assms by (auto simp: check_pairing_def split: option.splits prod.splits)

text \<open>Messages for the chat of a message, those that come before the answer, and the answers.\<close>

definition for_chat :: "inbound_message \<Rightarrow> outbound_message \<Rightarrow> bool" where
  "for_chat msg out \<longleftrightarrow> om_channel out = im_channel msg \<and> om_chat_id out = im_chat_id msg"

definition interim :: "outbound_message \<Rightarrow> bool" where
  "interim out \<longleftrightarrow> om_kind out = Chunk \<or> om_kind out = Custom \<or> om_metadata out ''keep_typing'' = Some ''true''"

definition final_answer :: "outbound_message \<Rightarrow> bool" where
  "final_answer out \<longleftrightarrow> om_kind out \<in> {Full, ChunkEnd} \<and> om_metadata out ''keep_typing'' = None"


lemma propagated [simp]:
  "for_chat msg (propagate_routing_metadata m out) = for_chat msg out"
  "om_kind (propagate_routing_metadata m out) = om_kind out"
  "om_content (propagate_routing_metadata m out) = om_content out"
  "om_metadata (propagate_routing_metadata m out) ''keep_typing'' = om_metadata out ''keep_typing''"
  by (auto simp: for_chat_def propagate_routing_metadata_def split: option.splits)

lemma reply_new_simps [simp]:
  "for_chat msg (reply_new msg t)" "for_chat msg (outbound_with_kind k (reply_new msg t))"
  "om_kind (reply_new msg t) = Full" "om_metadata (reply_new msg t) = Map.empty" "om_content (reply_new msg t) = t"
  by (simp_all add: reply_new_def for_chat_def outbound_new_def outbound_with_kind_def)

lemma with_kind_simps [simp]:
  "om_kind (outbound_with_kind k out) = k" "om_metadata (outbound_with_kind k out) = om_metadata out"
  "om_content (outbound_with_kind k out) = om_content out"
  by (simp_all add: outbound_with_kind_def)

lemma error_reply_answers: "for_chat msg (mark_error (reply_new msg t)) \<and> final_answer (mark_error (reply_new msg t))"
  by (simp add: mark_error_def outbound_with_metadata_def for_chat_def final_answer_def outbound_error_key_def reply_new_def outbound_new_def)


lemma split_ui_interim:
  assumes "split_ui E msg seq t = (text, events, seq')" "out \<in> set events"
  shows "for_chat msg out \<and> interim out"
proof -
  obtain j where "out = a2ui_event E msg j" using assms by (auto simp: split_ui_def split: if_splits prod.splits)
  then show ?thesis
    by (simp add: a2ui_event_def outbound_with_metadata_def for_chat_def interim_def reply_new_def outbound_new_def outbound_with_kind_def)
qed

lemma chunk_interim: "for_chat msg (chunk_of msg t) \<and> interim (chunk_of msg t)"
  by (simp add: chunk_of_def interim_def)

text \<open>Each list of replies is what comes before the answer, and the answer.\<close>

definition answers_once :: "inbound_message \<Rightarrow> outbound_message list \<Rightarrow> bool" where
  "answers_once msg outs \<longleftrightarrow> outs \<noteq> [] \<and> list_all (for_chat msg) outs \<and> list_all interim (butlast outs) \<and> final_answer (last outs)"

lemma answers_onceI:
  assumes "\<And>out. out \<in> set outs \<Longrightarrow> for_chat msg out \<and> interim out" "for_chat msg a" "final_answer a"
  shows "answers_once msg (outs @ [a])"
  using assms by (auto simp: answers_once_def list_all_iff)

lemma replies_answer: "answers_once msg (fst (replies_of E msg seq r))"
proof (cases r)
  case None
  then show ?thesis using answers_onceI [of "[]"] by (simp add: replies_of_def final_answer_def)
next
  case (Some x)
  show ?thesis
  proof (cases x)
    case (Inl e)
    then show ?thesis using Some answers_onceI [of "[]"] error_reply_answers
      by (simp add: replies_of_def error_reply_def final_answer_def)
  next
    case (Inr t)
    obtain s events seq' where "split_ui E msg seq t = (s, events, seq')" by (metis prod_cases3)
    from split_ui_interim [OF this] this Inr Some show ?thesis
      by (auto simp: replies_of_def final_answer_def intro!: answers_onceI)
  qed
qed

lemma stream_replies_answer: "answers_once msg (fst (stream_replies E msg seq pieces r))"
proof -
  have m: "answers_once msg (map (chunk_of msg) pieces @ [propagate_routing_metadata msg (mark_error (reply_new msg t))])" for t
    using chunk_interim error_reply_answers by (intro answers_onceI) (auto simp: final_answer_def)
  show ?thesis
  proof (cases r)
    case None
    then show ?thesis using m by (simp add: stream_replies_def)
  next
    case (Some x)
    show ?thesis
    proof (cases x)
      case (Inl e)
      then show ?thesis using Some m by (simp add: stream_replies_def error_reply_def)
    next
      case (Inr t)
      obtain s events seq' where u: "split_ui E msg seq t = (s, events, seq')" by (metis prod_cases3)
      have "answers_once msg ((map (chunk_of msg) pieces @ events) @ [propagate_routing_metadata msg
          (if pieces = [] then reply_new msg s else outbound_with_kind ChunkEnd (reply_new msg []))])"
        using split_ui_interim [OF u] chunk_interim by (intro answers_onceI) (auto simp: final_answer_def)
      then show ?thesis using Inr Some u by (simp add: stream_replies_def)
    qed
  qed
qed


lemma dp_send_replies [simp]:
  "dp_state (send_replies outs d) = dp_state d" "dp_pending (send_replies outs d) = dp_pending d"
  "dp_pairing (send_replies outs d) = dp_pairing d"
  by (induction outs arbitrary: d) (simp_all add: send_replies_def)

lemma send_reply_contents:
  assumes "mpsc_ok (bus_outbound (dp_bus d))" "ch_open (bus_outbound (dp_bus d))"
  shows "mpsc_contents (bus_outbound (dp_bus (send_reply out d))) = mpsc_contents (bus_outbound (dp_bus d)) @ [out]"
  using assms by (auto simp: send_reply_def publish_outbound_def mpsc_send_def mpsc_contents_def mpsc_ok_def)

lemma send_reply_open:
  assumes "mpsc_ok (bus_outbound (dp_bus d))" "ch_open (bus_outbound (dp_bus d))"
  shows "mpsc_ok (bus_outbound (dp_bus (send_reply out d))) \<and> ch_open (bus_outbound (dp_bus (send_reply out d)))"
  using assms by (auto simp: send_reply_def publish_outbound_def mpsc_send_def mpsc_ok_def)

lemma send_replies_contents:
  "mpsc_ok (bus_outbound (dp_bus d)) \<Longrightarrow> ch_open (bus_outbound (dp_bus d)) \<Longrightarrow>
     mpsc_contents (bus_outbound (dp_bus (send_replies outs d))) = mpsc_contents (bus_outbound (dp_bus d)) @ outs"
proof (induction outs arbitrary: d)
  case (Cons o' outs)
  have "send_replies (o' # outs) d = send_replies outs (send_reply o' d)" by (simp add: send_replies_def)
  with Cons.IH [of "send_reply o' d"] send_reply_open [OF Cons.prems, of o'] send_reply_contents [OF Cons.prems, of o']
  show ?case by simp
qed (simp add: send_replies_def)

lemma send_replies_append: "send_replies ys (send_replies xs d) = send_replies (xs @ ys) d"
  by (simp add: send_replies_def)

text \<open>What processing a message comes down to: a state the turn left, and a list of replies.\<close>

lemma process_inbound_left:
  assumes "left (process_inbound_message L A E msg d) = Some d'"
  obtains st outs seq where "left (deliver E msg (outs, seq) st d) = Some d'" "answers_once msg outs" "told msg (dp_state d) st"
proof -
  note goal = that
  have cut: "told msg (dp_state d) (cut_state msg texts st d)" for texts st
    by (auto simp: told_def cut_state_def)
  have plain: thesis if "left (deliver E msg (replies_of E msg seq r) st d) = Some d'" "told msg (dp_state d) st" for seq r st
    using that replies_answer [of msg E seq r] goal by (cases "replies_of E msg seq r") auto
  have streamed: thesis if "left (deliver E msg (stream_replies E msg seq ps r) st d) = Some d'" "told msg (dp_state d) st" for seq ps r st
    using that stream_replies_answer [of msg E seq ps r] goal by (cases "stream_replies E msg seq ps r") auto
  show thesis
  proof (cases "should_stream E msg")
    case True
    with assms show thesis
      by (auto simp: process_inbound_message_def process_inbound_message_streaming_def Let_def
          split: option.splits prod.splits sum.splits intro: streamed cut dest: told_streaming)
  next
    case False
    with assms show thesis
      by (auto simp: process_inbound_message_def split: option.splits prod.splits intro: plain cut dest: told_message)
  qed
qed

lemma requeue_room:
  assumes "bus_interceptor (dp_bus d) = None" "ch_open (bus_inbound (dp_bus d))"
    "length (ch_buf (bus_inbound (dp_bus d))) < ch_cap (bus_inbound (dp_bus d))"
  shows "requeue m d = Going (d\<lparr>dp_bus := (dp_bus d)\<lparr>bus_inbound := (bus_inbound (dp_bus d))
    \<lparr>ch_buf := ch_buf (bus_inbound (dp_bus d)) @ [m]\<rparr>\<rparr>\<rparr>)"
  using assms
  by (simp add: requeue_def publish_inbound_with_status_def intercept_def mpsc_send_def publish_outcome_of_def set_world_def)

lemma requeue_all_room:
  "bus_interceptor (dp_bus d) = None \<Longrightarrow> ch_open (bus_inbound (dp_bus d)) \<Longrightarrow>
   length (ch_buf (bus_inbound (dp_bus d))) + length ms \<le> ch_cap (bus_inbound (dp_bus d)) \<Longrightarrow>
   requeue_all ms d = Going (d\<lparr>dp_bus := (dp_bus d)\<lparr>bus_inbound := (bus_inbound (dp_bus d))
     \<lparr>ch_buf := ch_buf (bus_inbound (dp_bus d)) @ ms\<rparr>\<rparr>\<rparr>)"
  by (induction ms arbitrary: d) (simp_all add: requeue_room)

lemma drain_state:
  assumes "left (drain_pending_messages E msg d) = Some d1"
  shows "as_outbox (dp_state d1) = as_outbox (dp_state d)"
proof -
  have one: "left (requeue m d2) = Some d3 \<Longrightarrow> as_outbox (dp_state d3) = as_outbox (dp_state d2)" for m d2 d3
    by (auto simp: requeue_def Let_def set_world_def split: prod.splits if_splits)
  have "left (requeue_all ms d2) = Some d3 \<Longrightarrow> as_outbox (dp_state d3) = as_outbox (dp_state d2)" for ms d2 d3
  proof (induction ms arbitrary: d2)
    case (Cons m ms)
    show ?case
    proof (cases "requeue m d2")
      case (Going d4)
      with Cons one [of m d2 d4] show ?thesis by simp
    qed (use Cons.prems one [of m d2 d3] in auto)
  qed simp
  with assms one show ?thesis
    by (fastforce simp: drain_pending_messages_def Let_def split: if_splits message_queue_mode.splits)
qed

lemma delivered:
  assumes "left (deliver E msg (outs, seq) st d) = Some d'"
  shows "dp_pending d' = (dp_pending d)(im_session_key msg := []) \<and> as_outbox (dp_state d') = []
    \<and> (mpsc_ok (bus_outbound (dp_bus d)) \<longrightarrow> ch_open (bus_outbound (dp_bus d)) \<longrightarrow>
         mpsc_contents (bus_outbound (dp_bus d')) = mpsc_contents (bus_outbound (dp_bus d)) @ as_outbox st @ outs)"
proof -
  let ?d = "d\<lparr>dp_surface_seq := seq, dp_state := st\<lparr>as_outbox := []\<rparr>\<rparr>"
  have "left (drain_pending_messages E msg (send_replies (as_outbox st @ outs) ?d)) = Some d'"
    using assms by (simp add: deliver_def flush_outbox_def send_replies_append)
  from drain_frame [OF this] drain_state [OF this] send_replies_contents [of ?d "as_outbox st @ outs"] show ?thesis by simp
qed

section \<open>Properties\<close>


definition sample_env :: "(string, nat) loop_env" where
  "sample_env = \<lparr>le_mode = Collect_Mode, le_timeout_secs = 60, le_streaming = True, le_cut = (\<lambda>_ _. None), le_busy = (\<lambda>k _. k = ''cli:9''),
     le_hash = id, le_instant = int, le_epoch = id,
     le_json_parse = (\<lambda>_. None), le_json_text = (\<lambda>_. [])\<rparr>"

definition sample_dispatcher :: "nat dispatcher" where
  "sample_dispatcher = \<lparr>dp_state = sample_state, dp_pending = (\<lambda>_. []),
     dp_bus = \<lparr>bus_inbound = mpsc_channel 2, bus_outbound = mpsc_channel 2, bus_interceptor = None\<rparr>, dp_pairing = None, dp_surface_seq = 1\<rparr>"



text \<open>
  A streamed answer can be shown and not kept. When the stream of the provider stops without its end, or at tool calls,
  or with an error, what the user saw in pieces is in no session: nothing of the turn is stored. And when it ends with a blank text
  after pieces, the user is shown the pieces and the session keeps a blank answer.
\<close>

theorem shown_answer_not_kept:
  assumes "manager_keyed (as_manager st)" "process_message_streaming L A msg st = (Some (Inr es), st')"
    "consume_stream [] es = (pieces, r)"
  shows "(\<not> list_ex is_done es \<longrightarrow> sm_disk (as_manager st') = sm_disk (as_manager st)
      \<and> (\<forall>s. sm_sessions (as_manager st) (im_session_key msg) = Some s \<longrightarrow>
           sm_sessions (as_manager st') (im_session_key msg) = Some s))
    \<and> (\<forall>es0 c u. es = map Delta es0 @ [Done c u] \<longrightarrow> trim c = [] \<longrightarrow>
         r = Inr (concat es0) \<and> (\<exists>ms. messages (as_session st') = ms @ [msg_assistant c]))"
proof -
  have c: "consume_stream acc (map Delta es0 @ [Done c u]) = (es0, Inr (resolve_streamed_response_text (acc @ concat es0) c))"
    for acc es0 c u by (induction es0 arbitrary: acc) simp_all
  show ?thesis
    using streamed_turn_facts [OF assms(1,2)] assms(3) c [of "[]"]
    by (auto simp: resolve_streamed_response_text_def)
qed

theorem shown_answer_not_kept_witness:
  "\<exists>st'. process_message_streaming sample_library (streaming_agent [Delta ''Deleted.'', ToolCalls []]) sample_inbound sample_state
        = (Some (Inr [Delta ''Deleted.'', ToolCalls []]), st')
     \<and> consume_stream [] [Delta ''Deleted.'', ToolCalls []] = ([''Deleted.''], Inr ''Deleted.'')
     \<and> sm_disk (as_manager st') = None"
proof -
  let ?es = "[Delta ''Deleted.'', ToolCalls []]"
  let ?p = "process_message_streaming sample_library (streaming_agent ?es) sample_inbound sample_state"
  have "fst ?p = Some (Inr ?es)" by code_simp
  then obtain st' where p: "?p = (Some (Inr ?es), st')" by (metis prod.collapse)
  have m: "manager_keyed (as_manager sample_state)" "sm_disk (as_manager sample_state) = None"
    by (simp_all add: manager_keyed_def sample_state_def new_memory_def)
  have c: "consume_stream [] ?es = ([''Deleted.''], Inr ''Deleted.'')" by simp
  from shown_answer_not_kept [OF m(1) p c] m(2) p c show ?thesis by auto
qed

text \<open>
  C13. An unpaired device is not served: with pairing on, a message without a token, or with one that the pairing manager
  does not accept, changes neither the agent's state nor what is set aside nor the inbound queue, and gets the denial.
\<close>

theorem unpaired_device_not_served:
  assumes "dp_pairing d = Some m"
    and "\<And>t. im_metadata msg ''auth_token'' = Some t \<Longrightarrow>
      fst (validate_token (le_hash E) (le_instant E (dp_world d)) (le_epoch E (dp_world d)) t (im_sender_id msg) m) = None"
  shows "\<exists>d'. handle_inbound L A E msg d = Going d' \<and> dp_state d' = dp_state d \<and> dp_pending d' = dp_pending d
    \<and> bus_inbound (dp_bus d') = bus_inbound (dp_bus d) \<and> dp_bus d' = dp_bus (send_reply (denial msg) d)"
proof -
  obtain ok d1 where c: "check_pairing E msg d = (ok, d1)" by fastforce
  have "\<not> ok" using c assms by (auto simp: check_pairing_def split: option.splits prod.splits)
  then have "handle_inbound L A E msg d = Going (send_reply (denial msg) d1)" using c by (simp add: handle_inbound_def)
  then show ?thesis
    using check_pairing_frame [OF c] by (auto simp: send_reply_def publish_outbound_def split: prod.splits)
qed

theorem unpaired_device_not_served_witness:
  "\<exists>d'. handle_inbound sample_library sample_agent sample_env sample_inbound
       (sample_dispatcher\<lparr>dp_pairing := Some (pairing_new [] 5 300)\<rparr>) = Going d' \<and> dp_state d' = sample_state"
proof -
  let ?d = "sample_dispatcher\<lparr>dp_pairing := Some (pairing_new [] 5 300)\<rparr>"
  have "im_metadata sample_inbound ''auth_token'' = None" by (simp add: sample_inbound_def inbound_new_def)
  then have "\<exists>d'. handle_inbound sample_library sample_agent sample_env sample_inbound ?d = Going d'
      \<and> dp_state d' = dp_state ?d \<and> dp_pending d' = dp_pending ?d
      \<and> bus_inbound (dp_bus d') = bus_inbound (dp_bus ?d) \<and> dp_bus d' = dp_bus (send_reply (denial sample_inbound) ?d)"
    by (intro unpaired_device_not_served [where m = "pairing_new [] 5 300"]) auto
  then show ?thesis by (auto simp: sample_dispatcher_def)
qed

text \<open>
  Set aside messages go back in order: in followup mode, with no interceptor and room for them in the inbound
  queue, what was set aside for the session follows what the queue holds, unchanged and in order, and
  nothing is set aside any more.
\<close>

theorem followups_requeued_in_order:
  assumes "le_mode E = Followup" "bus_interceptor (dp_bus d) = None" "ch_open (bus_inbound (dp_bus d))"
    and "length (ch_buf (bus_inbound (dp_bus d))) + length (dp_pending d (im_session_key msg)) \<le> ch_cap (bus_inbound (dp_bus d))"
  shows "\<exists>d'. drain_pending_messages E msg d = Going d'
    \<and> ch_buf (bus_inbound (dp_bus d')) = ch_buf (bus_inbound (dp_bus d)) @ dp_pending d (im_session_key msg)
    \<and> dp_pending d' = (dp_pending d)(im_session_key msg := [])"
  using assms requeue_all_room [of "d\<lparr>dp_pending := (dp_pending d)(im_session_key msg := [])\<rparr>" "dp_pending d (im_session_key msg)"]
  by (auto simp: drain_pending_messages_def Let_def)

theorem followups_requeued_in_order_witness:
  "\<exists>d'. drain_pending_messages (sample_env\<lparr>le_mode := Followup\<rparr>) sample_inbound
        (sample_dispatcher\<lparr>dp_pending := (\<lambda>_. [sample_inbound, sample_inbound])\<rparr>) = Going d'
    \<and> ch_buf (bus_inbound (dp_bus d')) = [sample_inbound, sample_inbound]"
  using followups_requeued_in_order [of "sample_env\<lparr>le_mode := Followup\<rparr>"
      "sample_dispatcher\<lparr>dp_pending := (\<lambda>_. [sample_inbound, sample_inbound])\<rparr>" sample_inbound]
  by (auto simp: sample_dispatcher_def mpsc_channel_def)

text \<open>
  The loop can stop itself: when the inbound queue is full at the moment a session's set aside messages go back, the loop waits
  for room that only its own reading could make, and never reads again.
\<close>

theorem drain_blocks_own_loop:
  assumes "dp_pending d (im_session_key msg) \<noteq> []"
    and "bus_interceptor (dp_bus d) = None" "ch_open (bus_inbound (dp_bus d))"
    and "ch_cap (bus_inbound (dp_bus d)) \<le> length (ch_buf (bus_inbound (dp_bus d)))"
  shows "\<exists>d'. drain_pending_messages E msg d = Stuck d'"
proof -
  have "\<exists>d'. requeue m d2 = Stuck d'" if "dp_bus d2 = dp_bus d" for m d2
    using that assms(2-4)
    by (simp add: requeue_def publish_inbound_with_status_def intercept_def mpsc_send_def publish_outcome_of_def)
  then have stuck: "\<exists>d'. requeue m (d\<lparr>dp_pending := p\<rparr>) = Stuck d'" for m p by simp
  from assms(1) obtain a ms where p: "dp_pending d (im_session_key msg) = a # ms" by (cases "dp_pending d (im_session_key msg)") auto
  let ?d = "d\<lparr>dp_pending := (dp_pending d)(im_session_key msg := [])\<rparr>"
  from stuck obtain d1 d2 where "requeue a ?d = Stuck d1" "requeue (collected_message msg (a # ms)) ?d = Stuck d2" by blast
  then show ?thesis by (cases "le_mode E") (simp_all add: drain_pending_messages_def p)
qed

text \<open>
  Nobody else brings a set aside message back: however many messages of other sessions the loop handles, and whether or not the
  session is still busy, what was set aside for the session stays there.
\<close>

fun handle_all ::
    "('v, 'w) library \<Rightarrow> ('v, 'w) agent \<Rightarrow> ('v, 'w) loop_env \<Rightarrow> inbound_message list \<Rightarrow> 'w dispatcher \<Rightarrow> 'w dispatcher option" where
  "handle_all L A E [] d = Some d"
| "handle_all L A E (m # ms) d = Option.bind (left (handle_inbound L A E m d)) (handle_all L A E ms)"

lemma handle_other_session:
  assumes "left (handle_inbound L A E msg d) = Some d'" "im_session_key msg \<noteq> k"
  shows "dp_pending d' k = dp_pending d k"
proof -
  obtain ok d1 where c: "check_pairing E msg d = (ok, d1)" by fastforce
  from assms c check_pairing_frame [OF c] show ?thesis
    by (cases ok) (auto simp: handle_inbound_def queue_message_def split: if_splits
        elim!: process_inbound_left dest!: delivered)
qed

theorem set_aside_until_next_turn:
  assumes "\<forall>m \<in> set ms. im_session_key m \<noteq> k" "handle_all L A E ms d = Some d'"
  shows "dp_pending d' k = dp_pending d k"
  using assms
  by (induction ms arbitrary: d) (auto simp: bind_eq_Some_conv dest: handle_other_session)

text \<open>
  Collected messages are refused where pairing is on: the message that stands for the set aside ones is a new one without
  their metadata, so it carries no token, and the loop denies it although every single one was paired.
\<close>

theorem collected_messages_refused:
  assumes "dp_pairing d = Some m"
  shows "handle_inbound L A E (collected_message msg pending) d = Going (send_reply (denial (collected_message msg pending)) d)"
  using assms by (simp add: handle_inbound_def check_pairing_def collected_message_def inbound_new_def)

end
