(* ===== verification/Memory_Search.thy ===== *)
theory Memory_Search
  imports Complex_Main Zepto_Prelude
begin

text \<open>
  The searchers of the memory (\<open>src/src/memory/traits.rs\<close>, \<open>builtin_searcher.rs\<close>,
  \<open>bm25_searcher.rs\<close>). Scores are exact reals. The trait promises scores between 0 and 1; the
  locale \<open>memory_searcher\<close> states it and both searchers interpret it. The inverted index of BM25
  is shown to represent the documents that were indexed and not removed.
\<close>

section \<open>Words of a text\<close>

text \<open>\<open>str::split\<close> with a predicate on characters.\<close>

fun split_by :: "(char \<Rightarrow> bool) \<Rightarrow> string \<Rightarrow> string list" where
  "split_by P [] = [[]]"
| "split_by P (c # cs) =
     (if P c then [] # split_by P cs
      else (case split_by P cs of w # ws \<Rightarrow> (c # w) # ws | [] \<Rightarrow> [[c]]))"

definition is_ascii_alphanumeric :: "char \<Rightarrow> bool" where
  "is_ascii_alphanumeric c =
     (let v = byte_val c in (48 \<le> v \<and> v \<le> 57) \<or> (65 \<le> v \<and> v \<le> 90) \<or> (97 \<le> v \<and> v \<le> 122))"

definition words_of :: "string \<Rightarrow> string list" where
  "words_of s = filter (\<lambda>t. 2 \<le> length t) (split_by (\<lambda>c. \<not> is_ascii_alphanumeric c) s)"

section \<open>The built-in searcher\<close>

text \<open>
  \<open>str::match_indices\<close> counts the occurrences that do not overlap; the empty pattern occurs before every
  character and at the end. The lower case of a text is an argument: the search is not
  confined to ASCII patterns.
\<close>

function count_matches :: "string \<Rightarrow> string \<Rightarrow> nat" where
  "count_matches p s =
     (if p = [] then Suc (length (str_chars s))
      else if prefix p s then Suc (count_matches p (drop (length p) s))
      else (case s of [] \<Rightarrow> 0 | _ # s' \<Rightarrow> count_matches p s'))"
  by pat_completeness auto

termination
  by (relation "measure (\<lambda>(p, s). length s)") (auto simp: prefix_def)

declare count_matches.simps [simp del]

definition builtin_tokenize :: "(string \<Rightarrow> string) \<Rightarrow> string \<Rightarrow> string list" where
  "builtin_tokenize lower query =
     (let terms = words_of (lower query) in if terms = [] then [lower query] else terms)"

definition builtin_score :: "(string \<Rightarrow> string) \<Rightarrow> string \<Rightarrow> string \<Rightarrow> real" where
  "builtin_score lower chunk query =
     (let query_terms = builtin_tokenize lower query;
          hits = filter (\<lambda>n. 0 < n) (map (\<lambda>t. count_matches t (lower chunk)) query_terms);
          coverage = real (length hits) / real (length query_terms);
          density = min (real (sum_list hits) / (real (max (length query_terms) 1) * 2)) 1;
          phrase_bonus = (if str_contains (lower chunk) (lower query) then 1 / 4 else 0)
      in if length hits = 0 then 0 else min (coverage * (7 / 10) + density * (3 / 10) + phrase_bonus) 1)"

section \<open>BM25\<close>

record bm25_index =
  term_docs :: "(string \<times> (string \<times> nat) list) list"
  doc_lengths :: "(string \<times> nat) list"
  doc_count :: nat

definition bm25_new :: bm25_index where
  "bm25_new = \<lparr>term_docs = [], doc_lengths = [], doc_count = 0\<rparr>"

definition bm25_tokenize :: "string \<Rightarrow> string list" where
  "bm25_tokenize text = words_of (to_lowercase text)"

definition avg_doc_length :: "bm25_index \<Rightarrow> real" where
  "avg_doc_length ix =
     (if doc_count ix = 0 then 1
      else real (wrap32 (sum_list (map snd (doc_lengths ix)))) / real (doc_count ix))"

definition bump_entry :: "string \<Rightarrow> (string \<times> nat) list \<Rightarrow> (string \<times> nat) list" where
  "bump_entry t al = AList.update t (wrap32 (Suc (case map_of al t of None \<Rightarrow> 0 | Some n \<Rightarrow> n))) al"

definition term_counts :: "string list \<Rightarrow> (string \<times> nat) list" where
  "term_counts tokens = fold bump_entry tokens []"

definition postings :: "bm25_index \<Rightarrow> string \<Rightarrow> (string \<times> nat) list" where
  "postings ix t = (case map_of (term_docs ix) t of None \<Rightarrow> [] | Some d \<Rightarrow> d)"

text \<open>
  The factors of a term's score. An average length of zero makes the quotient of the lengths infinite
  in the code, and the term's weight zero.
\<close>

definition bm25_idf :: "real \<Rightarrow> real \<Rightarrow> real" where
  "bm25_idf n df = ln ((n - df + 1 / 2) / (df + 1 / 2) + 1)"

definition bm25_weight :: "real \<Rightarrow> real \<Rightarrow> real \<Rightarrow> real" where
  "bm25_weight avg_dl doc_len tf =
     (if avg_dl = 0 then 0
      else (tf * (12 / 10 + 1)) / (tf + 12 / 10 * (1 - 3 / 4 + 3 / 4 * doc_len / avg_dl)))"

definition bm25_score :: "bm25_index \<Rightarrow> string \<Rightarrow> string \<Rightarrow> real" where
  "bm25_score ix chunk query =
     (let query_terms = bm25_tokenize query;
          chunk_tokens = bm25_tokenize chunk;
          doc_len = real (length chunk_tokens);
          tf_map = term_counts chunk_tokens;
          avg_dl = avg_doc_length ix;
          n = real (max (doc_count ix) 1);
          part = (\<lambda>t. case map_of tf_map t of
                        None \<Rightarrow> 0
                      | Some tf \<Rightarrow>
                          if tf = 0 then 0
                          else bm25_idf n (real (length (postings ix t))) * bm25_weight avg_dl doc_len (real tf))
      in if query_terms = [] then 0
         else if chunk_tokens = [] then 0
         else min (max (sum_list (map part query_terms) / (real (length query_terms) * 3)) 0) 1)"

definition bm25_forget :: "string \<Rightarrow> bm25_index \<Rightarrow> bm25_index" where
  "bm25_forget k ix =
     ix\<lparr>term_docs := filter (\<lambda>(t, docs). docs \<noteq> []) (map (\<lambda>(t, docs). (t, AList.delete k docs)) (term_docs ix)),
        doc_count := doc_count ix - 1\<rparr>"

definition add_posting :: "string \<Rightarrow> string \<times> nat \<Rightarrow> bm25_index \<Rightarrow> bm25_index" where
  "add_posting k tc ix =
     ix\<lparr>term_docs := AList.update (fst tc) (AList.update k (snd tc) (postings ix (fst tc))) (term_docs ix)\<rparr>"

definition bm25_insert :: "string \<Rightarrow> string \<Rightarrow> bm25_index \<Rightarrow> bm25_index" where
  "bm25_insert k text ix =
     (let tokens = bm25_tokenize text;
          ix1 = (if k \<in> fst ` set (doc_lengths ix) then bm25_forget k ix else ix);
          ix2 = fold (add_posting k) (term_counts tokens) ix1
      in ix2\<lparr>doc_lengths := AList.update k (wrap32 (length tokens)) (doc_lengths ix2),
             doc_count := wrap32 (Suc (doc_count ix2))\<rparr>)"

definition bm25_remove :: "string \<Rightarrow> bm25_index \<Rightarrow> bm25_index" where
  "bm25_remove k ix =
     (if k \<in> fst ` set (doc_lengths ix)
      then let ix1 = bm25_forget k ix in ix1\<lparr>doc_lengths := AList.delete k (doc_lengths ix1)\<rparr>
      else ix)"

section \<open>Scores lie between 0 and 1\<close>

locale memory_searcher =
  fixes score :: "'s \<Rightarrow> string \<Rightarrow> string \<Rightarrow> real"
  assumes score_range: "0 \<le> score s chunk query" "score s chunk query \<le> 1"

lemma builtin_score_range: "0 \<le> builtin_score lower chunk query" "builtin_score lower chunk query \<le> 1"
  by (auto simp: builtin_score_def Let_def)

interpretation builtin: memory_searcher "\<lambda>(_::unit). builtin_score lower" for lower
  by unfold_locales (simp_all add: builtin_score_range)

interpretation bm25: memory_searcher bm25_score
  by unfold_locales (simp_all add: bm25_score_def Let_def)

section \<open>The index represents the documents\<close>

text \<open>
  The documents behind an index: a map from keys to the words of their texts. \<open>bm25_rep\<close> says that the
  index holds the lengths, the count and for every word the documents with it and how often.
\<close>

definition posting_of :: "(string \<rightharpoonup> string list) \<Rightarrow> string \<Rightarrow> string \<rightharpoonup> nat" where
  "posting_of docs t =
     (\<lambda>k. case docs k of
            None \<Rightarrow> None
          | Some ws \<Rightarrow> if t \<in> set ws then Some (wrap32 (count_list ws t)) else None)"

definition postings_wf :: "bm25_index \<Rightarrow> bool" where
  "postings_wf ix \<longleftrightarrow>
     distinct (map fst (term_docs ix)) \<and> (\<forall>(t, d) \<in> set (term_docs ix). d \<noteq> [] \<and> distinct (map fst d))"

definition bm25_rep :: "(string \<rightharpoonup> string list) \<Rightarrow> bm25_index \<Rightarrow> bool" where
  "bm25_rep docs ix \<longleftrightarrow>
     finite (dom docs) \<and> doc_count ix = card (dom docs)
     \<and> distinct (map fst (doc_lengths ix))
     \<and> map_of (doc_lengths ix) = (\<lambda>k. map_option (\<lambda>ws. wrap32 (length ws)) (docs k))
     \<and> postings_wf ix \<and> (\<forall>t. map_of (postings ix t) = posting_of docs t)"

lemma bm25_rep_new: "bm25_rep Map.empty bm25_new"
  by (simp add: bm25_rep_def bm25_new_def postings_wf_def postings_def posting_of_def fun_eq_iff)

lemma map_of_bump_entry: "map_of (bump_entry t al) = bump t (map_of al)"
  by (auto simp: bump_entry_def bump_def update_conv' split: option.splits)

lemma map_of_fold_bump_entry: "map_of (fold bump_entry ts al) = fold bump ts (map_of al)"
  by (induction ts arbitrary: al) (simp_all add: map_of_bump_entry)

lemma distinct_fold_bump_entry: "distinct (map fst al) \<Longrightarrow> distinct (map fst (fold bump_entry ts al))"
  by (induction ts arbitrary: al) (simp_all add: bump_entry_def distinct_update)

lemma distinct_term_counts [simp]: "distinct (map fst (term_counts ts))"
  by (simp add: term_counts_def distinct_fold_bump_entry)

lemma map_of_term_counts:
  "map_of (term_counts ts) t = (if t \<in> set ts then Some (wrap32 (count_list ts t)) else None)"
proof -
  have "dom (fold bump ts Map.empty) = set ts" by (simp add: dom_fold_bump)
  moreover have "count_of (fold bump ts Map.empty) t = wrap32 (count_list ts t)" by simp
  ultimately show ?thesis
    by (auto simp: term_counts_def map_of_fold_bump_entry count_of_def domIff split: option.splits)
qed

lemma map_of_filter_nonempty:
  "distinct (map fst xs) \<Longrightarrow>
   map_of (filter (\<lambda>(t, d). d \<noteq> []) xs) t = (case map_of xs t of Some d \<Rightarrow> if d = [] then None else Some d | None \<Rightarrow> None)"
proof (induction xs)
  case (Cons x xs)
  obtain t' d where x: "x = (t', d)" by (cases x)
  with Cons.prems have "map_of xs t' = None" by (simp add: map_of_eq_None_iff)
  with Cons x show ?case by (cases "t = t'") auto
qed simp

lemma map_of_delete_each:
  "map_of (map (\<lambda>(t, d). (t, AList.delete k d)) xs) t = map_option (AList.delete k) (map_of xs t)"
  by (induction xs) auto

lemma fst_delete_each: "fst \<circ> (\<lambda>(t, d). (t, f d)) = fst"
  by auto

lemma postings_forget:
  assumes "postings_wf ix"
  shows "postings (bm25_forget k ix) t = AList.delete k (postings ix t)"
  using assms unfolding postings_wf_def postings_def bm25_forget_def
  by (simp add: map_of_filter_nonempty fst_delete_each map_of_delete_each split: option.splits)

lemma postings_wf_forget:
  assumes "postings_wf ix"
  shows "postings_wf (bm25_forget k ix)"
  using assms unfolding postings_wf_def bm25_forget_def
  by (auto simp: fst_delete_each distinct_delete intro!: distinct_map_filter)

lemma postings_add:
  "postings (add_posting k tc ix) t = (if t = fst tc then AList.update k (snd tc) (postings ix t) else postings ix t)"
  by (auto simp: postings_def add_posting_def update_conv')

lemma postings_wf_add:
  assumes "postings_wf ix"
  shows "postings_wf (add_posting k tc ix)"
proof -
  have d: "distinct (map fst (postings ix (fst tc)))"
    using assms by (auto simp: postings_wf_def postings_def dest: map_of_SomeD split: option.splits)
  have e: "AList.update k v al \<noteq> []" for v and al :: "(string \<times> nat) list" by (cases al) auto
  let ?d = "AList.update k (snd tc) (postings ix (fst tc))"
  have "\<forall>(t, d) \<in> insert (fst tc, ?d) (set (term_docs ix)). d \<noteq> [] \<and> distinct (map fst d)"
    using assms d e by (auto simp: postings_wf_def distinct_update)
  with set_update_subset [of "fst tc" ?d "term_docs ix"]
  have "\<forall>(t, d) \<in> set (AList.update (fst tc) ?d (term_docs ix)). d \<noteq> [] \<and> distinct (map fst d)" by blast
  with assms show ?thesis by (simp add: postings_wf_def add_posting_def distinct_update)
qed

lemma postings_add_all:
  assumes "distinct (map fst tcs)"
  shows "postings (fold (add_posting k) tcs ix) t =
           (case map_of tcs t of Some c \<Rightarrow> AList.update k c (postings ix t) | None \<Rightarrow> postings ix t)"
  using assms
proof (induction tcs arbitrary: ix)
  case (Cons tc tcs)
  then have "map_of tcs (fst tc) = None" by (simp add: map_of_eq_None_iff)
  with Cons show ?case by (cases "t = fst tc") (auto simp: postings_add split: option.splits)
qed simp

lemma fold_add_frame:
  "postings_wf ix \<Longrightarrow>
     postings_wf (fold (add_posting k) tcs ix)
     \<and> doc_lengths (fold (add_posting k) tcs ix) = doc_lengths ix \<and> doc_count (fold (add_posting k) tcs ix) = doc_count ix"
  by (induction tcs arbitrary: ix) (simp_all add: postings_wf_add, simp add: add_posting_def)

lemma forget_frame [simp]:
  "doc_lengths (bm25_forget k ix) = doc_lengths ix" "doc_count (bm25_forget k ix) = doc_count ix - 1"
  by (simp_all add: bm25_forget_def)

lemma rep_keys: "bm25_rep docs ix \<Longrightarrow> k \<in> fst ` set (doc_lengths ix) \<longleftrightarrow> docs k \<noteq> None"
  using map_of_eq_None_iff [of "doc_lengths ix" k] by (auto simp: bm25_rep_def)

lemma rep_card_remove: "finite (dom docs) \<Longrightarrow> docs k \<noteq> None \<Longrightarrow> card (dom docs - {k}) = card (dom docs) - 1"
  by (simp add: domIff)

lemma rep_remove_part:
  assumes "bm25_rep docs ix" "docs k \<noteq> None"
  shows "postings_wf (bm25_forget k ix)" "doc_count (bm25_forget k ix) = card (dom docs - {k})"
    "map_of (postings (bm25_forget k ix) t) = posting_of (docs(k := None)) t"
  using assms postings_wf_forget [of ix k]
  by (auto simp: bm25_rep_def rep_card_remove postings_forget delete_conv' posting_of_def fun_eq_iff)

text \<open>
  Removing a document, and indexing one under a new or a used key, do to the index what
  they do to the documents.
\<close>

lemma bm25_remove_rep:
  assumes "bm25_rep docs ix"
  shows "bm25_rep (docs(k := None)) (bm25_remove k ix)"
proof (cases "docs k")
  case None
  then show ?thesis using assms rep_keys [OF assms, of k] by (simp add: bm25_remove_def fun_upd_idem)
next
  case (Some ws)
  then have nn: "docs k \<noteq> None" by simp
  note p = rep_remove_part [OF assms nn]
  have e: "bm25_remove k ix = (bm25_forget k ix)\<lparr>doc_lengths := AList.delete k (doc_lengths ix)\<rparr>"
    using rep_keys [OF assms, of k] nn by (simp add: bm25_remove_def Let_def)
  have u: "postings_wf (x\<lparr>doc_lengths := l\<rparr>) = postings_wf x" "postings (x\<lparr>doc_lengths := l\<rparr>) t = postings x t" for x l t
    by (simp_all add: postings_wf_def postings_def)
  show ?thesis
    unfolding bm25_rep_def e using assms p
    by (auto simp: u bm25_rep_def distinct_delete delete_conv' fun_eq_iff)
qed

lemma bm25_insert_rep:
  assumes rep: "bm25_rep docs ix" and room: "card (dom docs) < u32_max"
  shows "bm25_rep (docs(k \<mapsto> bm25_tokenize text)) (bm25_insert k text ix)"
proof -
  define ix1 where "ix1 = (if k \<in> fst ` set (doc_lengths ix) then bm25_forget k ix else ix)"
  define d1 where "d1 = docs(k := None)"
  define ws where "ws = bm25_tokenize text"
  define ix2 where "ix2 = fold (add_posting k) (term_counts ws) ix1"
  have 1: "postings_wf ix1" "doc_count ix1 = card (dom d1)" "doc_lengths ix1 = doc_lengths ix"
      "map_of (postings ix1 t) = posting_of d1 t" for t
    using rep rep_remove_part [OF rep, of k] rep_keys [OF rep, of k]
    by (cases "docs k"; auto simp: ix1_def d1_def bm25_rep_def fun_upd_idem domIff)+
  note 2 = fold_add_frame [OF 1(1), of k "term_counts ws", folded ix2_def]
  have 3: "map_of (postings ix2 t) = posting_of (docs(k \<mapsto> ws)) t" for t
    using 1(4) [of t] unfolding ix2_def
    by (auto simp: postings_add_all map_of_term_counts update_conv' posting_of_def d1_def fun_eq_iff)
  have "finite (dom d1)" "k \<notin> dom d1" "card (dom d1) \<le> card (dom docs)"
    using rep by (auto simp: bm25_rep_def d1_def intro: card_mono)
  then have 4: "wrap32 (Suc (doc_count ix2)) = card (dom (docs(k \<mapsto> ws)))"
    using 2 1(2) room by (simp add: wrap32_id d1_def card.insert_remove)
  have e: "bm25_insert k text ix = ix2\<lparr>doc_lengths := AList.update k (wrap32 (length ws)) (doc_lengths ix),
             doc_count := wrap32 (Suc (doc_count ix2))\<rparr>"
    using 1(3) 2 by (simp add: bm25_insert_def Let_def ix1_def [symmetric] ws_def [symmetric] ix2_def [symmetric])
  have u: "postings_wf (x\<lparr>doc_lengths := l, doc_count := n\<rparr>) = postings_wf x"
      "postings (x\<lparr>doc_lengths := l, doc_count := n\<rparr>) t = postings x t" for x l n t
    by (simp_all add: postings_wf_def postings_def)
  show ?thesis
    unfolding bm25_rep_def e ws_def [symmetric] using rep 2 3 4
    by (auto simp: u bm25_rep_def distinct_update update_conv' fun_eq_iff)
qed

section \<open>Scores from the documents\<close>

text \<open>Okapi BM25 over a finite map of documents, with natural numbers that do not wrap.\<close>

definition bm25_spec :: "(string \<rightharpoonup> string list) \<Rightarrow> string \<Rightarrow> string \<Rightarrow> real" where
  "bm25_spec docs chunk query =
     (let qs = bm25_tokenize query; ws = bm25_tokenize chunk;
          n = card (dom docs);
          avg = (if n = 0 then 1 else real (\<Sum>k \<in> dom docs. length (the (docs k))) / real n);
          df = (\<lambda>t. card {k. \<exists>d. docs k = Some d \<and> t \<in> set d});
          part = (\<lambda>t. if t \<in> set ws
                      then bm25_idf (real (max n 1)) (real (df t))
                             * bm25_weight avg (real (length ws)) (real (count_list ws t))
                      else 0)
      in if qs = [] \<or> ws = [] then 0
         else min (max ((\<Sum>t\<leftarrow>qs. part t) / (real (length qs) * 3)) 0) 1)"

lemma sum_list_alist:
  assumes "distinct (map fst al)"
  shows "sum_list (map snd al) = (\<Sum>k \<in> dom (map_of al). the (map_of al k))"
proof -
  have "map snd al = map (\<lambda>k. the (map_of al k)) (map fst al)"
    using assms by (auto simp: map_of_is_SomeI)
  then have "sum_list (map snd al) = sum (\<lambda>k. the (map_of al k)) (set (map fst al))"
    using assms by (simp only: sum_list_distinct_conv_sum_set)
  then show ?thesis by (simp add: dom_map_of_conv_image_fst)
qed

lemma rep_lengths:
  assumes rep: "bm25_rep docs ix" and small: "(\<Sum>k \<in> dom docs. length (the (docs k))) \<le> u32_max"
  shows "wrap32 (sum_list (map snd (doc_lengths ix))) = (\<Sum>k \<in> dom docs. length (the (docs k)))"
proof -
  have m: "map_of (doc_lengths ix) k = map_option (\<lambda>ws. wrap32 (length ws)) (docs k)" for k
    using rep by (simp add: bm25_rep_def)
  have dm: "dom (map_of (doc_lengths ix)) = dom docs" unfolding dom_def m by simp
  have "wrap32 (length d) = length d" if "docs k = Some d" for k d
    using member_le_sum [of k "dom docs" "\<lambda>k. length (the (docs k))"] rep small that
    by (simp add: bm25_rep_def wrap32_id domIff)
  then have "(\<Sum>k \<in> dom docs. the (map_of (doc_lengths ix) k)) = (\<Sum>k \<in> dom docs. length (the (docs k)))"
    by (intro sum.cong) (auto simp: m)
  with rep dm small show ?thesis by (simp add: sum_list_alist bm25_rep_def wrap32_id)
qed

lemma rep_document_frequency:
  assumes "bm25_rep docs ix"
  shows "length (postings ix t) = card {k. \<exists>d. docs k = Some d \<and> t \<in> set d}"
proof -
  have "distinct (map fst (postings ix t))"
    using assms by (auto simp: bm25_rep_def postings_wf_def postings_def dest: map_of_SomeD split: option.splits)
  then have "length (postings ix t) = card (dom (map_of (postings ix t)))"
    by (metis dom_map_of_conv_image_fst distinct_card length_map set_map)
  also have "dom (map_of (postings ix t)) = {k. \<exists>d. docs k = Some d \<and> t \<in> set d}"
    using assms by (auto simp: bm25_rep_def posting_of_def dom_def split: option.splits if_splits)
  finally show ?thesis .
qed

lemma count_list_pos: "t \<in> set ws \<Longrightarrow> count_list ws t \<noteq> 0"
  by (simp add: count_list_0_iff)

lemma bm25_score_rep:
  assumes rep: "bm25_rep docs ix" and small: "(\<Sum>k \<in> dom docs. length (the (docs k))) \<le> u32_max"
    and chunk: "length (bm25_tokenize chunk) \<le> u32_max"
  shows "bm25_score ix chunk query = bm25_spec docs chunk query"
proof -
  have c: "wrap32 (count_list (bm25_tokenize chunk) t) = count_list (bm25_tokenize chunk) t" for t
    by (rule wrap32_id) (use chunk count_le_length [of "bm25_tokenize chunk" t] in simp)
  have "doc_count ix = card (dom docs)" using rep by (simp add: bm25_rep_def)
  then show ?thesis
    by (simp add: bm25_score_def bm25_spec_def avg_doc_length_def Let_def map_of_term_counts c count_list_pos
        rep_lengths [OF rep small] rep_document_frequency [OF rep] if_distrib [of "case_option _ _"] cong: if_cong)
qed

datatype index_op = Index_Doc string string | Remove_Doc string

fun index_step :: "index_op \<Rightarrow> bm25_index \<Rightarrow> bm25_index" where
  "index_step (Index_Doc k text) = bm25_insert k text"
| "index_step (Remove_Doc k) = bm25_remove k"

fun docs_step :: "index_op \<Rightarrow> (string \<rightharpoonup> string list) \<Rightarrow> (string \<rightharpoonup> string list)" where
  "docs_step (Index_Doc k text) docs = docs(k \<mapsto> bm25_tokenize text)"
| "docs_step (Remove_Doc k) docs = docs(k := None)"

lemma index_ops_rep:
  assumes "bm25_rep docs ix" "card (dom docs) + length ops \<le> u32_max"
  shows "bm25_rep (fold docs_step ops docs) (fold index_step ops ix)"
  using assms
proof (induction ops arbitrary: docs ix)
  case (Cons a ops)
  have fin: "finite (dom docs)" using Cons.prems by (simp add: bm25_rep_def)
  show ?case
  proof (cases a)
    case (Index_Doc k doc)
    have "card (insert k (dom docs)) \<le> Suc (card (dom docs))" by (simp add: card_insert_le_m1 card_insert_if fin)
    then have "card (dom (docs(k \<mapsto> bm25_tokenize doc))) + length ops \<le> u32_max" using Cons.prems(2) by simp
    moreover have "bm25_rep (docs(k \<mapsto> bm25_tokenize doc)) (bm25_insert k doc ix)"
      by (rule bm25_insert_rep) (use Cons.prems in simp_all)
    ultimately have "bm25_rep (fold docs_step ops (docs(k \<mapsto> bm25_tokenize doc))) (fold index_step ops (bm25_insert k doc ix))"
      by (intro Cons.IH)
    then show ?thesis by (simp add: Index_Doc)
  next
    case (Remove_Doc k)
    have "card (dom docs - {k}) \<le> card (dom docs)" by (rule card_mono) (use fin in auto)
    then have "card (dom (docs(k := None))) + length ops \<le> u32_max" using Cons.prems(2) by simp
    with bm25_remove_rep [OF Cons.prems(1), of k]
    have "bm25_rep (fold docs_step ops (docs(k := None))) (fold index_step ops (bm25_remove k ix))"
      by (rule Cons.IH)
    then show ?thesis by (simp add: Remove_Doc)
  qed
qed simp

text \<open>
  C30. The incremental index scores as the documents do: after any sequence of indexing and removing, the
  score of a text is the BM25 score computed from the documents that were indexed last under their key and
  not removed.
\<close>

theorem bm25_index_exact:
  assumes "length ops \<le> u32_max"
    and "(\<Sum>k \<in> dom (fold docs_step ops Map.empty). length (the (fold docs_step ops Map.empty k))) \<le> u32_max"
    and "length (bm25_tokenize chunk) \<le> u32_max"
  shows "bm25_score (fold index_step ops bm25_new) chunk query = bm25_spec (fold docs_step ops Map.empty) chunk query"
  by (rule bm25_score_rep [OF index_ops_rep]) (use assms in \<open>simp_all add: bm25_rep_new\<close>)

theorem bm25_index_exact_witness:
  "bm25_score (fold index_step [Index_Doc ''a'' ''red apple'', Index_Doc ''a'' ''green pear'', Index_Doc ''b'' ''red plum'',
        Remove_Doc ''b''] bm25_new) ''green'' ''green''
     = bm25_spec [''a'' \<mapsto> [''green'', ''pear'']] ''green'' ''green''"
proof -
  have t: "bm25_tokenize ''green pear'' = [''green'', ''pear'']" "bm25_tokenize ''green'' = [''green'']"
    by (simp_all add: bm25_tokenize_def words_of_def is_ascii_alphanumeric_def byte_val_def ascii_lower_def Let_def)
  show ?thesis
    using bm25_index_exact [of "[Index_Doc ''a'' ''red apple'', Index_Doc ''a'' ''green pear'',
        Index_Doc ''b'' ''red plum'', Remove_Doc ''b'']" "''green''" "''green''"]
    by (simp add: t u32_max_def fun_upd_twist)
qed

end
