(* ===== verification/Memory_Store.thy ===== *)
theory Memory_Store
  imports Memory_Search Number_Text Errors Safety "HOL-Library.Multiset" "HOL-Library.Product_Lexorder" "HOL-Library.List_Lexorder" "HOL-Library.Char_ord"
begin

text \<open>
  The long-term memory (\<open>src/src/memory/longterm.rs\<close>), its hygiene (\<open>hygiene.rs\<close>), its snapshots
  (\<open>snapshot.rs\<close>), the tool in front of it (\<open>src/src/tools/longterm_memory.rs\<close>) and what of it goes
  into the system prompt (\<open>src/src/memory/mod.rs\<close>).

  The file holds a value of an abstract type of JSON texts; rendering and parsing are arguments.
  Each write has an outcome: it succeeds, the directory cannot be made, or the write fails and leaves
  something in the file. Weights are exact reals with the two infinities that the cast from
  a JSON number can give.
\<close>

section \<open>Weights\<close>

datatype weight = Neg_Inf | Fin real | Pos_Inf

fun weight_le :: "weight \<Rightarrow> weight \<Rightarrow> bool" where
  "weight_le Neg_Inf _ = True"
| "weight_le _ Pos_Inf = True"
| "weight_le (Fin x) (Fin y) = (x \<le> y)"
| "weight_le _ _ = False"

instantiation weight :: linorder
begin

definition less_eq_weight :: "weight \<Rightarrow> weight \<Rightarrow> bool" where
  "less_eq_weight a b = weight_le a b"

definition less_weight :: "weight \<Rightarrow> weight \<Rightarrow> bool" where
  "less_weight a b = (weight_le a b \<and> \<not> weight_le b a)"

instance
proof
  fix x y z :: weight
  show "x \<le> y \<or> y \<le> x" unfolding less_eq_weight_def by (cases x; cases y) auto
  show "x \<le> y \<Longrightarrow> y \<le> z \<Longrightarrow> x \<le> z" unfolding less_eq_weight_def by (cases x; cases y; cases z) auto
  show "x \<le> y \<Longrightarrow> y \<le> x \<Longrightarrow> x = y" unfolding less_eq_weight_def by (cases x; cases y) auto
  show "x \<le> x" unfolding less_eq_weight_def by (cases x) auto
qed (simp add: less_eq_weight_def less_weight_def)

end

fun is_finite :: "weight \<Rightarrow> bool" where
  "is_finite (Fin _) = True"
| "is_finite _ = False"

text \<open>The product with a positive number.\<close>

fun scale :: "weight \<Rightarrow> real \<Rightarrow> weight" where
  "scale (Fin x) r = Fin (x * r)"
| "scale w r = w"

text \<open>\<open>as f32\<close>: what is nearer to \<open>2 ^ 128\<close> than to the largest \<open>f32\<close> becomes infinite.\<close>

definition as_f32 :: "real \<Rightarrow> weight" where
  "as_f32 x = (if 2 ^ 128 - 2 ^ 103 \<le> x then Pos_Inf else if x \<le> - (2 ^ 128 - 2 ^ 103) then Neg_Inf else Fin x)"

section \<open>The store\<close>

record memory_entry =
  me_key :: string
  me_value :: string
  me_category :: string
  me_created_at :: nat
  me_last_accessed :: nat
  me_access_count :: nat
  me_tags :: "string list"
  me_importance :: weight

definition is_pinned :: "memory_entry \<Rightarrow> bool" where
  "is_pinned e = (to_ascii_lowercase (me_category e) = ''pinned'')"

definition decay_score :: "nat \<Rightarrow> memory_entry \<Rightarrow> weight" where
  "decay_score now e =
     (if is_pinned e then Fin 1
      else let age_secs = now - me_last_accessed e;
               age_days = real age_secs / 86400
           in scale (me_importance e) ((1 / 2) powr (age_days / 30)))"

record ('d, 's) memory_env =
  mv_regexes :: regexes
  mv_lower :: "string \<Rightarrow> string"
  mv_render :: "(string \<times> memory_entry) list \<Rightarrow> 'd"
  mv_parse :: "'d \<Rightarrow> (string \<times> memory_entry) list option"
  mv_blank :: "'d \<Rightarrow> bool"
  mv_score :: "'s \<Rightarrow> string \<Rightarrow> string \<Rightarrow> real"
  mv_index :: "string \<Rightarrow> string \<Rightarrow> 's \<Rightarrow> unit zresult \<times> 's"
  mv_remove :: "string \<Rightarrow> 's \<Rightarrow> unit zresult \<times> 's"

record ('d, 's) longterm_memory =
  lt_entries :: "(string \<times> memory_entry) list"
  lt_file :: "'d option"
  lt_searcher :: 's

datatype 'd disk = Disk_Ok | No_Directory | Write_Failed "'d option"

definition lt_load :: "('d, 's) memory_env \<Rightarrow> bool \<Rightarrow> 'd option \<Rightarrow> (string \<times> memory_entry) list zresult" where
  "lt_load E readable file =
     (case file of
        None \<Rightarrow> Inr []
      | Some d \<Rightarrow>
          if \<not> readable then Inl (Config ''Failed to read long-term memory'')
          else if mv_blank E d then Inr []
          else (case mv_parse E d of
                  None \<Rightarrow> Inl (Config ''Failed to parse long-term memory JSON'')
                | Some es \<Rightarrow> Inr es))"

definition with_path_and_searcher ::
    "('d, 's) memory_env \<Rightarrow> bool \<Rightarrow> 'd option \<Rightarrow> 's \<Rightarrow> ('d, 's) longterm_memory zresult" where
  "with_path_and_searcher E readable file s =
     map_sum id (\<lambda>es. \<lparr>lt_entries = es, lt_file = file, lt_searcher = s\<rparr>) (lt_load E readable file)"

definition lt_save ::
    "('d, 's) memory_env \<Rightarrow> 'd disk \<Rightarrow> ('d, 's) longterm_memory \<Rightarrow> unit zresult \<times> ('d, 's) longterm_memory" where
  "lt_save E d m =
     (case d of
        No_Directory \<Rightarrow> (Inl (Config ''Failed to create memory directory''), m)
      | Write_Failed left \<Rightarrow> (Inl (Config ''Failed to write long-term memory''), m\<lparr>lt_file := left\<rparr>)
      | Disk_Ok \<Rightarrow> (Inr (), m\<lparr>lt_file := Some (mv_render E (lt_entries m))\<rparr>))"

definition searchable :: "string \<Rightarrow> string \<Rightarrow> string \<Rightarrow> string list \<Rightarrow> string" where
  "searchable key val category tags = key @ '' '' @ val @ '' '' @ category @ '' '' @ join '' '' tags"

definition new_entry :: "nat \<Rightarrow> string \<Rightarrow> string \<Rightarrow> string \<Rightarrow> string list \<Rightarrow> weight \<Rightarrow> memory_entry" where
  "new_entry now key val category tags imp =
     \<lparr>me_key = key, me_value = val, me_category = category, me_created_at = now, me_last_accessed = now,
      me_access_count = 0, me_tags = tags, me_importance = imp\<rparr>"

definition upsert :: "nat \<Rightarrow> string \<Rightarrow> string \<Rightarrow> string \<Rightarrow> string list \<Rightarrow> weight
    \<Rightarrow> (string \<times> memory_entry) list \<Rightarrow> (string \<times> memory_entry) list" where
  "upsert now key val category tags imp es =
     (case map_of es key of
        Some e \<Rightarrow> AList.update key (e\<lparr>me_value := val, me_category := category, me_tags := tags,
                    me_importance := imp, me_last_accessed := now\<rparr>) es
      | None \<Rightarrow> AList.update key (new_entry now key val category tags imp) es)"

definition lt_set ::
    "('d, 's) memory_env \<Rightarrow> 'd disk \<Rightarrow> nat \<Rightarrow> string \<Rightarrow> string \<Rightarrow> string \<Rightarrow> string list \<Rightarrow> weight
       \<Rightarrow> ('d, 's) longterm_memory \<Rightarrow> unit zresult \<times> ('d, 's) longterm_memory" where
  "lt_set E d now key val category tags imp m =
     (let scan = check_injection (mv_regexes E) val
      in if so_was_modified scan
         then (Inl (Tool (''Memory write rejected: value contains prompt injection pattern ('' @ join ''; '' (so_warnings scan)
                 @ '')'')), m)
         else (case lt_save E d (m\<lparr>lt_entries := upsert now key val category tags imp (lt_entries m)\<rparr>) of
                 (Inl e, m1) \<Rightarrow> (Inl e, m1)
               | (Inr _, m1) \<Rightarrow>
                   (case mv_index E key (searchable key val category tags) (lt_searcher m1) of
                      (r, s) \<Rightarrow> (r, m1\<lparr>lt_searcher := s\<rparr>))))"

definition lt_get :: "nat \<Rightarrow> string \<Rightarrow> ('d, 's) longterm_memory \<Rightarrow> memory_entry option \<times> ('d, 's) longterm_memory" where
  "lt_get now key m =
     (let es = (case map_of (lt_entries m) key of
                  Some e \<Rightarrow> AList.update key (e\<lparr>me_last_accessed := now, me_access_count := wrap64 (Suc (me_access_count e))\<rparr>)
                              (lt_entries m)
                | None \<Rightarrow> lt_entries m)
      in (map_of es key, m\<lparr>lt_entries := es\<rparr>))"

definition get_readonly :: "string \<Rightarrow> ('d, 's) longterm_memory \<Rightarrow> memory_entry option" where
  "get_readonly key m = map_of (lt_entries m) key"

definition lt_delete ::
    "('d, 's) memory_env \<Rightarrow> 'd disk \<Rightarrow> string \<Rightarrow> ('d, 's) longterm_memory \<Rightarrow> bool zresult \<times> ('d, 's) longterm_memory" where
  "lt_delete E d key m =
     (if map_of (lt_entries m) key = None then (Inr False, m)
      else (case lt_save E d (m\<lparr>lt_entries := AList.delete key (lt_entries m)\<rparr>) of
              (Inl e, m1) \<Rightarrow> (Inl e, m1)
            | (Inr _, m1) \<Rightarrow>
                (case mv_remove E key (lt_searcher m1) of
                   (r, s) \<Rightarrow> (map_sum id (\<lambda>_. True) r, m1\<lparr>lt_searcher := s\<rparr>))))"

definition entry_text :: "memory_entry \<Rightarrow> string" where
  "entry_text e = searchable (me_key e) (me_value e) (me_category e) (me_tags e)"

definition lt_search :: "('d, 's) memory_env \<Rightarrow> string \<Rightarrow> ('d, 's) longterm_memory \<Rightarrow> memory_entry list" where
  "lt_search E query m =
     (let query_lower = mv_lower E query;
          scored = filter (\<lambda>(e, score). 0 < score)
                     (map (\<lambda>(k, e). (e, mv_score E (lt_searcher m) (entry_text e) query)) (lt_entries m))
      in map fst (sort_key (\<lambda>(e, score). (mv_lower E (me_key e) \<noteq> query_lower, - score)) scored))"

definition newest_used :: "memory_entry list \<Rightarrow> memory_entry list" where
  "newest_used = sort_key (\<lambda>e. - int (me_last_accessed e))"

definition list_by_category :: "('d, 's) memory_env \<Rightarrow> string \<Rightarrow> ('d, 's) longterm_memory \<Rightarrow> memory_entry list" where
  "list_by_category E category m =
     newest_used (filter (\<lambda>e. mv_lower E (me_category e) = mv_lower E category) (map snd (lt_entries m)))"

definition list_all_entries :: "('d, 's) longterm_memory \<Rightarrow> memory_entry list" where
  "list_all_entries m = newest_used (map snd (lt_entries m))"

definition lt_count :: "('d, 's) longterm_memory \<Rightarrow> nat" where
  "lt_count m = length (lt_entries m)"

definition lt_categories :: "('d, 's) longterm_memory \<Rightarrow> string list" where
  "lt_categories m = sort (remdups (map (\<lambda>(k, e). me_category e) (lt_entries m)))"

definition cleanup_least_used ::
    "('d, 's) memory_env \<Rightarrow> 'd disk \<Rightarrow> nat \<Rightarrow> nat \<Rightarrow> ('d, 's) longterm_memory \<Rightarrow> nat zresult \<times> ('d, 's) longterm_memory" where
  "cleanup_least_used E d now keep_count m =
     (if length (lt_entries m) \<le> keep_count then (Inr 0, m)
      else let entries_vec = sort_key snd (map (\<lambda>(k, e). (k, decay_score now e)) (lt_entries m));
               to_remove = length entries_vec - keep_count;
               keys_to_remove = map fst (take to_remove entries_vec);
               m1 = m\<lparr>lt_entries := fold AList.delete keys_to_remove (lt_entries m)\<rparr>
           in (case lt_save E d m1 of
                 (Inl e, m2) \<Rightarrow> (Inl e, m2)
               | (Inr _, m2) \<Rightarrow> (Inr to_remove, m2)))"

definition cleanup_expired ::
    "('d, 's) memory_env \<Rightarrow> 'd disk \<Rightarrow> nat \<Rightarrow> weight \<Rightarrow> ('d, 's) longterm_memory \<Rightarrow> nat zresult \<times> ('d, 's) longterm_memory" where
  "cleanup_expired E d now threshold m =
     (if \<not> is_finite threshold \<or> \<not> (Fin 0 \<le> threshold \<and> threshold \<le> Fin 1)
      then (Inl (Config ''cleanup_expired threshold must be 0.0..=1.0''), m)
      else let m1 = m\<lparr>lt_entries := filter (\<lambda>(k, e). threshold \<le> decay_score now e) (lt_entries m)\<rparr>;
               count = length (lt_entries m) - length (lt_entries m1)
           in if 0 < count
              then (case lt_save E d m1 of
                      (Inl e, m2) \<Rightarrow> (Inl e, m2)
                    | (Inr _, m2) \<Rightarrow> (Inr count, m2))
              else (Inr count, m1))"

definition lt_summary :: "('d, 's) longterm_memory \<Rightarrow> string" where
  "lt_summary m =
     ''Long-term memory: '' @ show_nat (lt_count m) @ '' entries ('' @ show_nat (length (lt_categories m)) @ '' categories)''"

section \<open>Hygiene\<close>

record hygiene_config =
  hy_enabled :: bool
  hy_interval_hours :: nat
  hy_expired_threshold :: weight
  hy_max_entries :: nat
  hy_conversation_keep :: nat

definition hygiene_config_default :: hygiene_config where
  "hygiene_config_default =
     \<lparr>hy_enabled = True, hy_interval_hours = 12, hy_expired_threshold = Fin (1 / 10), hy_max_entries = 1000,
      hy_conversation_keep = 50\<rparr>"

record hygiene_report =
  hr_expired_removed :: nat
  hr_least_used_removed :: nat
  hr_conversations_pruned :: nat

definition report_total :: "hygiene_report \<Rightarrow> nat" where
  "report_total r = hr_expired_removed r + hr_least_used_removed r + hr_conversations_pruned r"

definition last_hygiene_key :: string where
  "last_hygiene_key = ''system:last_hygiene_at''"

definition should_run :: "nat \<Rightarrow> int option \<Rightarrow> nat \<Rightarrow> bool" where
  "should_run now last_run_ts interval_hours =
     (case last_run_ts of
        None \<Rightarrow> True
      | Some prev \<Rightarrow> interval_hours \<le> nat (max (wrap_i64 (int now - prev)) 0) div 3600)"

definition last_run_timestamp :: "('d, 's) longterm_memory \<Rightarrow> int option" where
  "last_run_timestamp m = Option.bind (get_readonly last_hygiene_key m) (\<lambda>e. parse_i64 (me_value e))"

text \<open>The three writes of a cycle have an outcome each.\<close>

definition run_hygiene_cycle ::
    "('d, 's) memory_env \<Rightarrow> 'd disk \<times> 'd disk \<times> 'd disk \<Rightarrow> nat \<Rightarrow> hygiene_config \<Rightarrow> ('d, 's) longterm_memory
       \<Rightarrow> hygiene_report \<times> ('d, 's) longterm_memory" where
  "run_hygiene_cycle E ds now c m =
     (case ds of
        (d1, d2, d3) \<Rightarrow>
          let (r1, m1) = cleanup_expired E d1 now (hy_expired_threshold c) m;
              expired = (case r1 of Inr n \<Rightarrow> n | Inl _ \<Rightarrow> 0);
              (r2, m2) = (if hy_max_entries c < lt_count m1 then cleanup_least_used E d2 now (hy_max_entries c) m1 else (Inr 0, m1));
              least = (case r2 of Inr n \<Rightarrow> n | Inl _ \<Rightarrow> 0);
              (_, m3) = lt_set E d3 now last_hygiene_key (show_nat now) ''system'' [] (Fin (1 / 10)) m2
          in (\<lparr>hr_expired_removed = expired, hr_least_used_removed = least, hr_conversations_pruned = 0\<rparr>, m3))"

text \<open>One hourly round of the scheduler.\<close>

definition hygiene_tick ::
    "('d, 's) memory_env \<Rightarrow> 'd disk \<times> 'd disk \<times> 'd disk \<Rightarrow> nat \<Rightarrow> hygiene_config \<Rightarrow> ('d, 's) longterm_memory
       \<Rightarrow> ('d, 's) longterm_memory" where
  "hygiene_tick E ds now c m =
     (if hy_enabled c \<and> should_run now (last_run_timestamp m) (hy_interval_hours c)
      then snd (run_hygiene_cycle E ds now c m) else m)"

section \<open>Snapshots\<close>

record snapshot_entry =
  se_key :: string
  se_value :: string
  se_category :: string
  se_tags :: "string list"
  se_importance :: weight

definition snapshot_of :: "memory_entry \<Rightarrow> snapshot_entry" where
  "snapshot_of e =
     \<lparr>se_key = me_key e, se_value = me_value e, se_category = me_category e, se_tags = me_tags e,
      se_importance = me_importance e\<rparr>"

text \<open>The entries that are written to the snapshot file, and the number reported.\<close>

definition export_snapshot :: "('d, 's) longterm_memory \<Rightarrow> snapshot_entry list" where
  "export_snapshot m = map snapshot_of (list_all_entries m)"

text \<open>Each write of the import happens at a time and has an outcome; a failing one ends the import.\<close>

fun import_snapshot ::
    "('d, 's) memory_env \<Rightarrow> bool \<Rightarrow> snapshot_entry list \<Rightarrow> (nat \<times> 'd disk) list \<Rightarrow> nat \<times> nat \<Rightarrow> ('d, 's) longterm_memory
       \<Rightarrow> (nat \<times> nat) zresult \<times> ('d, 's) longterm_memory" where
  "import_snapshot E overwrite [] io counts m = (Inr counts, m)"
| "import_snapshot E overwrite (x # xs) io (imported, skipped) m =
     (if \<not> overwrite \<and> get_readonly (se_key x) m \<noteq> None
      then import_snapshot E overwrite xs io (imported, Suc skipped) m
      else let (now, d) = (case io of [] \<Rightarrow> (0, Disk_Ok) | p # _ \<Rightarrow> p)
           in (case lt_set E d now (se_key x) (se_value x) (se_category x) (se_tags x) (se_importance x) m of
                 (Inl e, m1) \<Rightarrow> (Inl e, m1)
               | (Inr _, m1) \<Rightarrow> import_snapshot E overwrite xs (tl io) (Suc imported, skipped) m1))"

section \<open>The tool\<close>

text \<open>
  The arguments of a call as the JSON accessors give them: \<open>None\<close> for a field that is absent
  or of another type. The texts of entries in the answers are rendered by serde_json, an argument.
\<close>

record tool_args =
  ta_action :: "string option"
  ta_key :: "string option"
  ta_value :: "string option"
  ta_category :: "string option"
  ta_tags :: "string list option"
  ta_importance :: "real option"
  ta_query :: "string option"

record entry_json =
  ej_entry :: "memory_entry \<Rightarrow> string"
  ej_entries :: "memory_entry list \<Rightarrow> string"
  ej_strings :: "string list \<Rightarrow> string"

definition given :: "string option \<Rightarrow> string option" where
  "given a = (case a of None \<Rightarrow> None | Some s \<Rightarrow> if trim s = [] then None else Some (trim s))"

definition given_tags :: "tool_args \<Rightarrow> string list" where
  "given_tags a = (case ta_tags a of None \<Rightarrow> [] | Some ts \<Rightarrow> filter (\<lambda>t. t \<noteq> []) (map trim ts))"

definition given_importance :: "tool_args \<Rightarrow> weight" where
  "given_importance a = (case ta_importance a of None \<Rightarrow> Fin 1 | Some x \<Rightarrow> as_f32 x)"

definition memories :: "nat \<Rightarrow> string" where
  "memories n = ''memor'' @ (if n = 1 then ''y'' else ''ies'')"

definition tool_set ::
    "('d, 's) memory_env \<Rightarrow> 'd disk \<Rightarrow> nat \<Rightarrow> tool_args \<Rightarrow> ('d, 's) longterm_memory
       \<Rightarrow> string zresult \<times> ('d, 's) longterm_memory" where
  "tool_set E d now a m =
     (case given (ta_key a) of
        None \<Rightarrow> (Inl (Tool (''Missing '' @ quoted ''key'' @ '' parameter for set action'')), m)
      | Some key \<Rightarrow>
     (case given (ta_value a) of
        None \<Rightarrow> (Inl (Tool (''Missing '' @ quoted ''value'' @ '' parameter for set action'')), m)
      | Some val \<Rightarrow>
     (case given (ta_category a) of
        None \<Rightarrow> (Inl (Tool (''Missing '' @ quoted ''category'' @ '' parameter for set action'')), m)
      | Some category \<Rightarrow>
          let is_update = get_readonly key m \<noteq> None
          in (case lt_set E d now key val category (given_tags a) (given_importance a) m of
                (Inl e, m1) \<Rightarrow> (Inl e, m1)
              | (Inr _, m1) \<Rightarrow>
                  (Inr (if is_update then ''Updated memory '' @ quoted key
                        else ''Stored memory '' @ quoted key @ '' in category '' @ quoted category), m1)))))"

definition tool_get ::
    "entry_json \<Rightarrow> nat \<Rightarrow> tool_args \<Rightarrow> ('d, 's) longterm_memory \<Rightarrow> string zresult \<times> ('d, 's) longterm_memory" where
  "tool_get J now a m =
     (case given (ta_key a) of
        None \<Rightarrow> (Inl (Tool (''Missing '' @ quoted ''key'' @ '' parameter for get action'')), m)
      | Some key \<Rightarrow>
          (case lt_get now key m of
             (Some e, m1) \<Rightarrow> (Inr (ej_entry J e), m1)
           | (None, m1) \<Rightarrow> (Inr (''No memory found for key '' @ quoted key), m1)))"

definition tool_search :: "('d, 's) memory_env \<Rightarrow> entry_json \<Rightarrow> tool_args \<Rightarrow> ('d, 's) longterm_memory \<Rightarrow> string zresult" where
  "tool_search E J a m =
     (case given (ta_query a) of
        None \<Rightarrow> Inl (Tool (''Missing '' @ quoted ''query'' @ '' parameter for search action''))
      | Some query \<Rightarrow>
          let results = lt_search E query m
          in Inr (if results = [] then ''No memories found matching '' @ quoted query
                  else ''Found '' @ show_nat (length results) @ '' matching '' @ memories (length results)
                         @ '':'' @ [CHR 0x0A] @ ej_entries J results))"

definition tool_delete ::
    "('d, 's) memory_env \<Rightarrow> 'd disk \<Rightarrow> tool_args \<Rightarrow> ('d, 's) longterm_memory \<Rightarrow> string zresult \<times> ('d, 's) longterm_memory" where
  "tool_delete E d a m =
     (case given (ta_key a) of
        None \<Rightarrow> (Inl (Tool (''Missing '' @ quoted ''key'' @ '' parameter for delete action'')), m)
      | Some key \<Rightarrow>
          (case lt_delete E d key m of
             (Inl e, m1) \<Rightarrow> (Inl e, m1)
           | (Inr True, m1) \<Rightarrow> (Inr (''Deleted memory '' @ quoted key), m1)
           | (Inr False, m1) \<Rightarrow> (Inr (''No memory found for key '' @ quoted key), m1)))"

definition tool_list :: "('d, 's) memory_env \<Rightarrow> entry_json \<Rightarrow> tool_args \<Rightarrow> ('d, 's) longterm_memory \<Rightarrow> string" where
  "tool_list E J a m =
     (case given (ta_category a) of
        Some cat \<Rightarrow>
          let results = list_by_category E cat m
          in if results = [] then ''No memories in category '' @ quoted cat
             else show_nat (length results) @ '' '' @ memories (length results) @ '' in category '' @ quoted cat
                    @ '':'' @ [CHR 0x0A] @ ej_entries J results
      | None \<Rightarrow>
          let results = list_all_entries m
          in if results = [] then ''No memories stored yet''
             else show_nat (length results) @ '' total '' @ memories (length results) @ '':'' @ [CHR 0x0A]
                    @ ej_entries J results)"

definition tool_categories :: "entry_json \<Rightarrow> ('d, 's) longterm_memory \<Rightarrow> string" where
  "tool_categories J m =
     (if lt_categories m = [] then ''No categories yet (memory is empty)''
      else lt_summary m @ [CHR 0x0A] @ ''Categories:'' @ [CHR 0x0A] @ ej_strings J (lt_categories m))"

definition tool_pin ::
    "('d, 's) memory_env \<Rightarrow> 'd disk \<Rightarrow> nat \<Rightarrow> tool_args \<Rightarrow> ('d, 's) longterm_memory
       \<Rightarrow> string zresult \<times> ('d, 's) longterm_memory" where
  "tool_pin E d now a m =
     (case given (ta_key a) of
        None \<Rightarrow> (Inl (Tool (''Missing '' @ quoted ''key'' @ '' parameter for pin action'')), m)
      | Some key \<Rightarrow>
     (case given (ta_value a) of
        None \<Rightarrow> (Inl (Tool (''Missing '' @ quoted ''value'' @ '' parameter for pin action'')), m)
      | Some val \<Rightarrow>
          (case lt_set E d now key val ''pinned'' (given_tags a) (Fin 1) m of
             (Inl e, m1) \<Rightarrow> (Inl e, m1)
           | (Inr _, m1) \<Rightarrow> (Inr (''Pinned memory '' @ quoted key), m1))))"

definition memory_tool ::
    "('d, 's) memory_env \<Rightarrow> entry_json \<Rightarrow> 'd disk \<Rightarrow> nat \<Rightarrow> tool_args \<Rightarrow> ('d, 's) longterm_memory
       \<Rightarrow> string zresult \<times> ('d, 's) longterm_memory" where
  "memory_tool E J d now a m =
     (case ta_action a of
        None \<Rightarrow> (Inl (Tool (''Missing '' @ quoted ''action'' @ '' parameter'')), m)
      | Some action \<Rightarrow>
          if action = ''set'' then tool_set E d now a m
          else if action = ''get'' then tool_get J now a m
          else if action = ''search'' then (tool_search E J a m, m)
          else if action = ''delete'' then tool_delete E d a m
          else if action = ''list'' then (Inr (tool_list E J a m), m)
          else if action = ''categories'' then (Inr (tool_categories J m), m)
          else if action = ''pin'' then tool_pin E d now a m
          else (Inl (Tool (''Unknown longterm_memory action '' @ quoted action
                  @ ''. Valid actions: set, get, search, delete, list, categories, pin'')), m))"

section \<open>Injection into the prompt\<close>

definition memory_injection_budget :: nat where
  "memory_injection_budget = 2000"

definition injection_line :: "memory_entry \<Rightarrow> string" where
  "injection_line e = ''- '' @ me_key e @ '': '' @ me_value e"

text \<open>
  A scan over entries that skips the keys already seen and stops at the first line that does not
  fit; the state is the lines so far, the characters used and the keys seen.
\<close>

fun take_lines :: "nat \<Rightarrow> memory_entry list \<Rightarrow> nat \<Rightarrow> string list \<Rightarrow> string list \<times> nat \<times> string list" where
  "take_lines budget [] used seen = ([], used, seen)"
| "take_lines budget (e # es) used seen =
     (let line = injection_line e
      in if budget < used + length line + 1 then ([], used, seen)
         else let (ls, used', seen') = take_lines budget es (used + length line + 1) (me_key e # seen)
              in (line # ls, used', seen'))"

fun take_unseen :: "nat \<Rightarrow> memory_entry list \<Rightarrow> nat \<Rightarrow> string list \<Rightarrow> string list" where
  "take_unseen budget [] used seen = []"
| "take_unseen budget (e # es) used seen =
     (if me_key e \<in> set seen then take_unseen budget es used seen
      else let line = injection_line e
           in if budget < used + length line + 1 then []
              else line # take_unseen budget es (used + length line + 1) (me_key e # seen))"

definition pinned_lines :: "('d, 's) memory_env \<Rightarrow> nat \<Rightarrow> ('d, 's) longterm_memory \<Rightarrow> string list \<times> nat \<times> string list" where
  "pinned_lines E budget m = take_lines budget (list_by_category E ''pinned'' m) 0 []"

definition relevant_lines :: "('d, 's) memory_env \<Rightarrow> string \<Rightarrow> nat \<Rightarrow> ('d, 's) longterm_memory \<Rightarrow> string list" where
  "relevant_lines E user_message budget m =
     (case pinned_lines E budget m of
        (_, used, seen) \<Rightarrow>
          if trim user_message = [] then []
          else take_unseen budget (take 5 (lt_search E user_message m)) used seen)"

definition build_memory_injection :: "('d, 's) memory_env \<Rightarrow> string \<Rightarrow> nat \<Rightarrow> ('d, 's) longterm_memory \<Rightarrow> string" where
  "build_memory_injection E user_message budget m =
     (let pinned = fst (pinned_lines E budget m);
          relevant = relevant_lines E user_message budget m;
          parts = [''## Memory'' @ [CHR 0x0A]]
                    @ (if pinned = [] then [] else [''### Pinned''] @ pinned @ [[]])
                    @ (if relevant = [] then [] else [''### Relevant''] @ relevant)
      in if pinned = [] \<and> relevant = [] then [] else trim (join [CHR 0x0A] parts))"

section \<open>Lemmas on the operations\<close>

definition keyed :: "(string \<times> memory_entry) list \<Rightarrow> bool" where
  "keyed es \<longleftrightarrow> distinct (map fst es) \<and> (\<forall>(k, e) \<in> set es. me_key e = k)"

definition injected :: "('d, 's) memory_env \<Rightarrow> string \<Rightarrow> bool" where
  "injected E val = so_was_modified (check_injection (mv_regexes E) val)"

lemma lt_save_entries [simp]: "lt_entries (snd (lt_save E d m)) = lt_entries m" "lt_searcher (snd (lt_save E d m)) = lt_searcher m"
  by (simp_all add: lt_save_def split: disk.split)

lemma lt_save_ok [simp]: "lt_save E Disk_Ok m = (Inr (), m\<lparr>lt_file := Some (mv_render E (lt_entries m))\<rparr>)"
  by (simp add: lt_save_def)

lemma lt_set_entries:
  "lt_entries (snd (lt_set E d now key val category tags imp m)) =
     (if injected E val then lt_entries m else upsert now key val category tags imp (lt_entries m))"
  by (cases d) (auto simp: lt_set_def lt_save_def injected_def Let_def split: prod.split)

lemma lt_delete_entries: "lt_entries (snd (lt_delete E d key m)) = AList.delete key (lt_entries m)"
proof (cases "map_of (lt_entries m) key")
  case None
  then show ?thesis by (simp add: lt_delete_def map_of_eq_None_iff delete_idem)
next
  case (Some e)
  then show ?thesis
    by (cases d) (auto simp: lt_delete_def lt_save_def split: prod.split)
qed

lemma fold_delete_filter: "fold AList.delete ks es = filter (\<lambda>(k, e). k \<notin> set ks) es"
  by (induction ks arbitrary: es) (auto simp: AList.delete_eq intro!: filter_cong)

definition doomed :: "nat \<Rightarrow> nat \<Rightarrow> (string \<times> memory_entry) list \<Rightarrow> string list" where
  "doomed now keep_count es =
     map fst (take (length es - keep_count) (sort_key snd (map (\<lambda>(k, e). (k, decay_score now e)) es)))"

lemma cleanup_least_entries:
  "lt_entries (snd (cleanup_least_used E d now keep_count m)) =
     filter (\<lambda>(k, e). k \<notin> set (doomed now keep_count (lt_entries m))) (lt_entries m)"
  by (cases d) (auto simp: cleanup_least_used_def lt_save_def doomed_def Let_def fold_delete_filter case_prod_beta)

lemma cleanup_expired_entries:
  "lt_entries (snd (cleanup_expired E d now threshold m)) =
     (if is_finite threshold \<and> Fin 0 \<le> threshold \<and> threshold \<le> Fin 1
      then filter (\<lambda>(k, e). threshold \<le> decay_score now e) (lt_entries m) else lt_entries m)"
  by (cases d) (auto simp: cleanup_expired_def lt_save_def Let_def case_prod_beta)

definition swept ::
    "('d, 's) memory_env \<Rightarrow> 'd disk \<Rightarrow> 'd disk \<Rightarrow> nat \<Rightarrow> hygiene_config \<Rightarrow> ('d, 's) longterm_memory
       \<Rightarrow> ('d, 's) longterm_memory" where
  "swept E d1 d2 now c m =
     (let m1 = snd (cleanup_expired E d1 now (hy_expired_threshold c) m)
      in if hy_max_entries c < lt_count m1 then snd (cleanup_least_used E d2 now (hy_max_entries c) m1) else m1)"

lemma hygiene_cycle_state:
  "snd (run_hygiene_cycle E (d1, d2, d3) now c m) =
     snd (lt_set E d3 now last_hygiene_key (show_nat now) ''system'' [] (Fin (1 / 10)) (swept E d1 d2 now c m))"
  by (simp add: run_hygiene_cycle_def swept_def Let_def split: prod.split)

lemma tool_set_state:
  "snd (tool_set E d now a m) =
     (case (given (ta_key a), given (ta_value a), given (ta_category a)) of
        (Some k, Some v, Some c) \<Rightarrow> snd (lt_set E d now k v c (given_tags a) (given_importance a) m)
      | _ \<Rightarrow> m)"
  by (auto simp: tool_set_def Let_def split: option.split prod.split sum.split)

lemma tool_pin_state:
  "snd (tool_pin E d now a m) =
     (case (given (ta_key a), given (ta_value a)) of
        (Some k, Some v) \<Rightarrow> snd (lt_set E d now k v ''pinned'' (given_tags a) (Fin 1) m)
      | _ \<Rightarrow> m)"
  by (auto simp: tool_pin_def Let_def split: option.split prod.split sum.split)

lemma tool_get_state:
  "snd (tool_get J now a m) = (case given (ta_key a) of Some k \<Rightarrow> snd (lt_get now k m) | None \<Rightarrow> m)"
  by (auto simp: tool_get_def split: option.split prod.split)

lemma tool_delete_state:
  "snd (tool_delete E d a m) = (case given (ta_key a) of Some k \<Rightarrow> snd (lt_delete E d k m) | None \<Rightarrow> m)"
  by (auto simp: tool_delete_def split: option.split prod.split sum.split bool.split)

lemmas tool_states = tool_set_state tool_pin_state tool_get_state tool_delete_state

lemma memory_tool_cases:
  obtains (set_entry) "snd (memory_tool E J d now a m) = snd (tool_set E d now a m)"
  | (get_entry) "snd (memory_tool E J d now a m) = snd (tool_get J now a m)"
  | (delete_entry) "snd (memory_tool E J d now a m) = snd (tool_delete E d a m)"
  | (pin_entry) "snd (memory_tool E J d now a m) = snd (tool_pin E d now a m)"
  | (same) "snd (memory_tool E J d now a m) = m"
proof -
  have "snd (memory_tool E J d now a m) \<in> {snd (tool_set E d now a m), snd (tool_get J now a m),
      snd (tool_delete E d a m), snd (tool_pin E d now a m), m}"
    by (simp add: memory_tool_def split: option.split)
  then show ?thesis using that by blast
qed

section \<open>Properties that all entries keep\<close>

text \<open>
  What the operations write into an entry: a value that passed the injection scan and a weight. A
  property of entries that such writes establish, and that reading keeps, holds of all entries for ever.
\<close>

locale entry_law =
  fixes E :: "('d, 's) memory_env" and P :: "memory_entry \<Rightarrow> bool" and ok :: "weight \<Rightarrow> bool"
  assumes touch: "P e \<Longrightarrow> P (e\<lparr>me_last_accessed := a, me_access_count := b\<rparr>)"
    and fresh: "\<not> injected E val \<Longrightarrow> ok imp \<Longrightarrow> P (new_entry now key val category tags imp)"
    and rewrite: "\<not> injected E val \<Longrightarrow> ok imp \<Longrightarrow> P e \<Longrightarrow> P (e\<lparr>me_value := val, me_category := category,
          me_tags := tags, me_importance := imp, me_last_accessed := now\<rparr>)"
    and finite_ok: "ok (Fin x)"
begin

definition all_entries :: "('d, 's) longterm_memory \<Rightarrow> bool" where
  "all_entries m = (\<forall>(k, e) \<in> set (lt_entries m). P e)"

lemma all_subset: "set (lt_entries m') \<subseteq> set (lt_entries m) \<Longrightarrow> all_entries m \<Longrightarrow> all_entries m'"
  by (auto simp: all_entries_def)

lemma all_update:
  assumes "all_entries m" "P e" "lt_entries m' = AList.update k e (lt_entries m)"
  shows "all_entries m'"
  using assms set_update_subset [of k e "lt_entries m"] by (fastforce simp: all_entries_def)

lemma all_set:
  assumes "all_entries m" "ok imp"
  shows "all_entries (snd (lt_set E d now key val category tags imp m))"
proof (cases "injected E val")
  case True
  with assms(1) show ?thesis by (simp add: all_entries_def lt_set_entries)
next
  case False
  then show ?thesis
  proof (cases "map_of (lt_entries m) key")
    case None
    with False assms show ?thesis
      by (intro all_update [OF assms(1) fresh [OF False assms(2)]]) (simp add: lt_set_entries upsert_def)
  next
    case (Some e)
    then have "P e" using assms(1) by (auto simp: all_entries_def dest: map_of_SomeD)
    with False Some assms show ?thesis
      by (intro all_update [OF assms(1) rewrite [OF False assms(2)]]) (simp_all add: lt_set_entries upsert_def)
  qed
qed

lemma all_get:
  assumes "all_entries m"
  shows "all_entries (snd (lt_get now key m))"
proof (cases "map_of (lt_entries m) key")
  case None
  with assms show ?thesis by (simp add: all_entries_def lt_get_def Let_def)
next
  case (Some e)
  then have "P e" using assms by (auto simp: all_entries_def dest: map_of_SomeD)
  with Some show ?thesis
    by (intro all_update [OF assms touch]) (simp_all add: lt_get_def Let_def)
qed

lemma all_delete: "all_entries m \<Longrightarrow> all_entries (snd (lt_delete E d key m))"
  by (rule all_subset [of _ m]) (simp_all add: lt_delete_entries set_delete_subset)

lemma all_expired: "all_entries m \<Longrightarrow> all_entries (snd (cleanup_expired E d now threshold m))"
  by (rule all_subset [of _ m]) (auto simp: cleanup_expired_entries)

lemma all_least: "all_entries m \<Longrightarrow> all_entries (snd (cleanup_least_used E d now keep m))"
  by (rule all_subset [of _ m]) (auto simp: cleanup_least_entries)

lemma all_cycle:
  assumes "all_entries m"
  shows "all_entries (snd (run_hygiene_cycle E ds now c m))"
proof -
  obtain d1 d2 d3 where ds: "ds = (d1, d2, d3)" by (cases ds)
  have "all_entries (swept E d1 d2 now c m)" using assms by (simp add: swept_def Let_def all_expired all_least)
  then show ?thesis unfolding ds hygiene_cycle_state by (rule all_set) (rule finite_ok)
qed

lemma all_tick: "all_entries m \<Longrightarrow> all_entries (hygiene_tick E ds now c m)"
  by (simp add: hygiene_tick_def all_cycle)

lemma all_tool:
  assumes "all_entries m" and "\<And>x. ta_importance a = Some x \<Longrightarrow> ok (as_f32 x)"
  shows "all_entries (snd (memory_tool E J d now a m))"
proof -
  have "ok (given_importance a)" using assms(2) by (auto simp: finite_ok given_importance_def split: option.split)
  with assms(1) show ?thesis
    by (cases rule: memory_tool_cases [of E J d now a m])
      (auto simp: tool_states all_set all_get all_delete finite_ok split: option.split)
qed

end

datatype 'd memory_event =
    Tool_Call nat "'d disk" tool_args
  | Hygiene_Tick nat "'d disk \<times> 'd disk \<times> 'd disk" hygiene_config
  | Snapshot_Import bool "snapshot_entry list" "(nat \<times> 'd disk) list"

fun memory_step :: "('d, 's) memory_env \<Rightarrow> entry_json \<Rightarrow> 'd memory_event \<Rightarrow> ('d, 's) longterm_memory \<Rightarrow> ('d, 's) longterm_memory" where
  "memory_step E J (Tool_Call now d a) m = snd (memory_tool E J d now a m)"
| "memory_step E J (Hygiene_Tick now ds c) m = hygiene_tick E ds now c m"
| "memory_step E J (Snapshot_Import overwrite xs io) m = snd (import_snapshot E overwrite xs io (0, 0) m)"

fun event_weights :: "'d memory_event \<Rightarrow> weight set" where
  "event_weights (Tool_Call now d a) = (case ta_importance a of None \<Rightarrow> {} | Some x \<Rightarrow> {as_f32 x})"
| "event_weights (Hygiene_Tick now ds c) = {}"
| "event_weights (Snapshot_Import overwrite xs io) = se_importance ` set xs"

lemma import_keeps:
  assumes "Q m"
    and "\<And>m x now d. Q m \<Longrightarrow> x \<in> set xs \<Longrightarrow> (now, d) \<in> insert (0, Disk_Ok) (set io) \<Longrightarrow>
           Q (snd (lt_set E d now (se_key x) (se_value x) (se_category x) (se_tags x) (se_importance x) m))"
  shows "Q (snd (import_snapshot E overwrite xs io counts m))"
  using assms
proof (induction xs arbitrary: io counts m)
  case (Cons x xs)
  obtain i k where c: "counts = (i, k)" by (cases counts)
  obtain now d where nd: "(case io of [] \<Rightarrow> (0, Disk_Ok) | p # _ \<Rightarrow> p) = (now, d)"
    by (cases "case io of [] \<Rightarrow> (0, Disk_Ok) | p # _ \<Rightarrow> p")
  then have io: "(now, d) \<in> insert (0, Disk_Ok) (set io)" by (cases io) auto
  have tl: "set (tl io) \<subseteq> set io" by (cases io) auto
  obtain r m1 where st: "lt_set E d now (se_key x) (se_value x) (se_category x) (se_tags x) (se_importance x) m = (r, m1)"
    by (cases "lt_set E d now (se_key x) (se_value x) (se_category x) (se_tags x) (se_importance x) m")
  have "Q m1" using Cons.prems(2) [OF Cons.prems(1) _ io, of x] st by simp
  moreover have "Q (snd (import_snapshot E overwrite xs io' c' m'))" if "Q m'" "set io' \<subseteq> set io" for io' c' m'
    by (rule Cons.IH [OF that(1)], rule Cons.prems(2)) (use that in auto)
  ultimately show ?case using Cons.prems(1) tl by (auto simp: c nd st split: sum.split)
qed simp

context entry_law
begin

lemma all_import:
  assumes "all_entries m" "\<And>x. x \<in> set xs \<Longrightarrow> ok (se_importance x)"
  shows "all_entries (snd (import_snapshot E overwrite xs io counts m))"
  by (rule import_keeps [where Q = all_entries, OF assms(1)], rule all_set) (simp_all add: assms(2))

lemma all_step:
  assumes "all_entries m" "\<And>w. w \<in> event_weights ev \<Longrightarrow> ok w"
  shows "all_entries (memory_step E J ev m)"
  using assms by (cases ev) (auto simp: all_tick intro!: all_tool all_import)

lemma all_run:
  assumes "all_entries m" "\<And>ev w. ev \<in> set evs \<Longrightarrow> w \<in> event_weights ev \<Longrightarrow> ok w"
  shows "all_entries (fold (memory_step E J) evs m)"
  using assms
proof (induction evs arbitrary: m)
  case (Cons ev evs)
  have "all_entries (memory_step E J ev m)"
    by (rule all_step [OF Cons.prems(1)], rule Cons.prems(2)) simp_all
  then have "all_entries (fold (memory_step E J) evs (memory_step E J ev m))"
    by (rule Cons.IH) (rule Cons.prems(2), simp_all)
  then show ?case by simp
qed simp

end

text \<open>Two such properties: the value passes the scan, and the weight is finite.\<close>

interpretation clean: entry_law E "\<lambda>e. \<not> injected E (me_value e)" "\<lambda>_. True" for E :: "('d, 's) memory_env"
  by unfold_locales (simp_all add: new_entry_def)

interpretation weighed: entry_law E "\<lambda>e. is_finite (me_importance e)" is_finite for E :: "('d, 's) memory_env"
  by unfold_locales (simp_all add: new_entry_def)

definition values_clean :: "('d, 's) memory_env \<Rightarrow> ('d, 's) longterm_memory \<Rightarrow> bool" where
  "values_clean E m = (\<forall>(k, e) \<in> set (lt_entries m). \<not> injected E (me_value e))"

text \<open>
  No prompt injection is stored: whatever the tool, the hygiene and the import of snapshots do, and
  whatever writes fail, every value in the memory passes the injection scan if it did at the start.
\<close>

theorem memory_values_clean:
  assumes "values_clean E m"
  shows "values_clean E (fold (memory_step E J) evs m)"
  using assms clean.all_run [of E m evs J] by (simp add: values_clean_def clean.all_entries_def)

text \<open>A store for the examples: the built-in searcher, no pattern that matches, and JSON texts that are the entries.\<close>

definition sample_memory_env :: "((string \<times> memory_entry) list, unit) memory_env" where
  "sample_memory_env =
     \<lparr>mv_regexes = (\<lambda>_ _. []), mv_lower = to_lowercase, mv_render = id,
      mv_parse = (\<lambda>es. if list_all (\<lambda>(k, e). is_finite (me_importance e)) es then Some es else None),
      mv_blank = (\<lambda>_. False), mv_score = (\<lambda>_. builtin_score to_lowercase),
      mv_index = (\<lambda>_ _ s. (Inr (), s)), mv_remove = (\<lambda>_ s. (Inr (), s))\<rparr>"

definition sample_entry_json :: entry_json where
  "sample_entry_json = \<lparr>ej_entry = me_value, ej_entries = (\<lambda>es. join '', '' (map me_key es)), ej_strings = join '', ''\<rparr>"

definition sample_args :: tool_args where
  "sample_args =
     \<lparr>ta_action = Some ''set'', ta_key = Some ''user:name'', ta_value = Some ''Ada'', ta_category = Some ''user'',
      ta_tags = None, ta_importance = None, ta_query = None\<rparr>"

definition empty_memory :: "((string \<times> memory_entry) list, unit) longterm_memory" where
  "empty_memory = \<lparr>lt_entries = [], lt_file = None, lt_searcher = ()\<rparr>"

lemma no_pattern_injection:
  "(\<And>label input. rx label input = []) \<Longrightarrow> \<not> so_was_modified (check_injection rx val)"
proof -
  assume "\<And>label input. rx label input = []"
  then have "fold (injection_step rx) ls so = so" for ls so
    by (induction ls) (simp_all add: injection_step_def Let_def)
  then show ?thesis by (simp add: check_injection_def)
qed

lemma sample_not_injected [simp]: "\<not> injected sample_memory_env val"
  by (simp add: injected_def sample_memory_env_def no_pattern_injection)

theorem memory_values_clean_witness:
  "values_clean sample_memory_env (fold (memory_step sample_memory_env sample_entry_json)
     [Tool_Call 100 Disk_Ok sample_args, Hygiene_Tick 200 (Disk_Ok, No_Directory, Disk_Ok) hygiene_config_default] empty_memory)"
  by (rule memory_values_clean) (simp add: values_clean_def empty_memory_def)

section \<open>The file and the memory\<close>

text \<open>
  The facts of an entry are all but its access statistics, which reading changes without saving. A store
  is in step with its file when reading the file gives the facts of the store.
\<close>

definition facts :: "memory_entry \<Rightarrow> memory_entry" where
  "facts e = e\<lparr>me_last_accessed := 0, me_access_count := 0\<rparr>"

definition same_facts :: "(string \<times> memory_entry) list \<Rightarrow> (string \<times> memory_entry) list \<Rightarrow> bool" where
  "same_facts es es' = (map (map_prod id facts) es = map (map_prod id facts) es')"

definition in_step :: "('d, 's) memory_env \<Rightarrow> ('d, 's) longterm_memory \<Rightarrow> bool" where
  "in_step E m \<longleftrightarrow>
     distinct (map fst (lt_entries m)) \<and> (\<forall>(k, e) \<in> set (lt_entries m). is_finite (me_importance e))
     \<and> (\<exists>es. lt_load E True (lt_file m) = Inr es \<and> same_facts es (lt_entries m))"

text \<open>What is relied on of serde_json: distinct keys and finite numbers are read back as they were written.\<close>

definition json_law :: "('d, 's) memory_env \<Rightarrow> bool" where
  "json_law E \<longleftrightarrow>
     (\<forall>es. distinct (map fst es) \<and> (\<forall>(k, e) \<in> set es. is_finite (me_importance e)) \<longrightarrow>
        \<not> mv_blank E (mv_render E es) \<and> mv_parse E (mv_render E es) = Some es)"

lemma in_step_saved:
  assumes "json_law E" "distinct (map fst (lt_entries m))" "\<forall>(k, e) \<in> set (lt_entries m). is_finite (me_importance e)"
    and "lt_file m = Some (mv_render E (lt_entries m))"
  shows "in_step E m"
  using assms by (auto simp: in_step_def json_law_def lt_load_def same_facts_def)

lemma in_step_entries: "in_step E m \<Longrightarrow> weighed.all_entries m \<and> distinct (map fst (lt_entries m))"
  by (auto simp: in_step_def weighed.all_entries_def)

lemma same_facts_update:
  assumes "distinct (map fst es)" "map_of es k = Some e" "facts e' = facts e"
  shows "same_facts es (AList.update k e' es)"
  using assms by (induction es) (auto simp: same_facts_def split: if_splits)

lemma upsert_distinct: "distinct (map fst es) \<Longrightarrow> distinct (map fst (upsert now k v c t w es))"
  by (simp add: upsert_def distinct_update split: option.split)

lemma lt_set_file:
  "\<not> injected E val \<Longrightarrow> lt_file (snd (lt_set E Disk_Ok now key val category tags imp m))
     = Some (mv_render E (upsert now key val category tags imp (lt_entries m)))"
  by (simp add: lt_set_def injected_def Let_def split: prod.split)

lemma in_step_set:
  assumes "json_law E" "in_step E m" "is_finite imp"
  shows "in_step E (snd (lt_set E Disk_Ok now key val category tags imp m))"
proof (cases "injected E val")
  case True
  then show ?thesis using assms(2) by (simp add: lt_set_def injected_def Let_def)
next
  case False
  have "weighed.all_entries (snd (lt_set E Disk_Ok now key val category tags imp m))"
    using in_step_entries [OF assms(2)] assms(3) by (intro weighed.all_set) simp_all
  then show ?thesis
    using False in_step_entries [OF assms(2)]
    by (intro in_step_saved [OF assms(1)]) (simp_all add: weighed.all_entries_def lt_set_entries lt_set_file upsert_distinct)
qed

lemma in_step_get:
  assumes "in_step E m"
  shows "in_step E (snd (lt_get now key m))"
proof (cases "map_of (lt_entries m) key")
  case None
  with assms show ?thesis by (simp add: lt_get_def Let_def)
next
  case (Some e)
  have w: "weighed.all_entries (snd (lt_get now key m))"
    using in_step_entries [OF assms] by (intro weighed.all_get) simp
  have "same_facts (lt_entries m) (lt_entries (snd (lt_get now key m)))"
    using in_step_entries [OF assms] Some by (simp add: lt_get_def Let_def same_facts_update facts_def)
  moreover have "distinct (map fst (lt_entries (snd (lt_get now key m))))"
    using in_step_entries [OF assms] Some by (simp add: lt_get_def Let_def distinct_update)
  moreover have "lt_file (snd (lt_get now key m)) = lt_file m" by (simp add: lt_get_def Let_def)
  ultimately show ?thesis
    using assms w by (auto simp: in_step_def same_facts_def weighed.all_entries_def)
qed

text \<open>Every operation that removes entries writes the file when it removed any.\<close>

lemma in_step_subset:
  assumes "json_law E" "in_step E m" and P: "lt_entries m' = filter P (lt_entries m)"
    and "lt_file m' = Some (mv_render E (lt_entries m')) \<or> m' = m"
  shows "in_step E m'"
  using assms(4)
proof
  assume "lt_file m' = Some (mv_render E (lt_entries m'))"
  then show ?thesis
    using in_step_entries [OF assms(2)]
    by (intro in_step_saved [OF assms(1)]) (auto simp: P weighed.all_entries_def distinct_map_filter)
qed (use assms(2) in simp)

lemma in_step_delete:
  assumes "json_law E" "in_step E m"
  shows "in_step E (snd (lt_delete E Disk_Ok key m))"
  by (rule in_step_subset [OF assms lt_delete_entries [unfolded AList.delete_eq]])
    (auto simp: AList.delete_eq lt_delete_def split: prod.split)

lemma in_step_expired:
  assumes "json_law E" "in_step E m"
  shows "in_step E (snd (cleanup_expired E Disk_Ok now threshold m))"
proof (rule in_step_subset [OF assms])
  let ?P = "\<lambda>(k, e). threshold \<le> decay_score now e"
  show "lt_entries (snd (cleanup_expired E Disk_Ok now threshold m)) =
     filter (if is_finite threshold \<and> Fin 0 \<le> threshold \<and> threshold \<le> Fin 1 then ?P else (\<lambda>_. True)) (lt_entries m)"
    by (simp add: cleanup_expired_entries)
  have "filter ?P (lt_entries m) = lt_entries m" if "\<not> length (filter ?P (lt_entries m)) < length (lt_entries m)"
    using that by (metis (no_types, lifting) filter_True length_filter_less)
  then show "lt_file (snd (cleanup_expired E Disk_Ok now threshold m))
      = Some (mv_render E (lt_entries (snd (cleanup_expired E Disk_Ok now threshold m))))
    \<or> snd (cleanup_expired E Disk_Ok now threshold m) = m"
    by (auto simp: cleanup_expired_def Let_def)
qed

lemma in_step_least:
  assumes "json_law E" "in_step E m"
  shows "in_step E (snd (cleanup_least_used E Disk_Ok now keep m))"
  by (rule in_step_subset [OF assms cleanup_least_entries]) (auto simp: cleanup_least_used_def Let_def)

lemma in_step_tick:
  assumes "json_law E" "in_step E m"
  shows "in_step E (hygiene_tick E (Disk_Ok, Disk_Ok, Disk_Ok) now c m)"
  using assms
  by (simp add: hygiene_tick_def hygiene_cycle_state swept_def Let_def in_step_set in_step_least in_step_expired)

lemma in_step_tool:
  assumes "json_law E" "in_step E m" "is_finite (given_importance a)"
  shows "in_step E (snd (memory_tool E J Disk_Ok now a m))"
  using assms
  by (cases rule: memory_tool_cases [of E J Disk_Ok now a m])
    (auto simp: tool_states in_step_set in_step_get in_step_delete split: option.split)

fun writes_succeed :: "'d memory_event \<Rightarrow> bool" where
  "writes_succeed (Tool_Call now d a) = (d = Disk_Ok)"
| "writes_succeed (Hygiene_Tick now ds c) = (ds = (Disk_Ok, Disk_Ok, Disk_Ok))"
| "writes_succeed (Snapshot_Import overwrite xs io) = (\<forall>(now, d) \<in> set io. d = Disk_Ok)"

lemma in_step_event:
  assumes "json_law E" "in_step E m" "writes_succeed ev" "\<forall>w \<in> event_weights ev. is_finite w"
  shows "in_step E (memory_step E J ev m)"
proof (cases ev)
  case (Tool_Call now d a)
  then have "is_finite (given_importance a)" using assms(4) by (simp add: given_importance_def split: option.split)
  with assms Tool_Call show ?thesis by (simp add: in_step_tool)
next
  case (Hygiene_Tick now ds c)
  with assms show ?thesis by (simp add: in_step_tick)
next
  case (Snapshot_Import overwrite xs io)
  with assms show ?thesis
    by (auto intro!: import_keeps [where Q = "in_step E"] in_step_set)
qed

lemma in_step_run:
  assumes "json_law E" "in_step E m" "\<forall>ev \<in> set evs. writes_succeed ev \<and> (\<forall>w \<in> event_weights ev. is_finite w)"
  shows "in_step E (fold (memory_step E J) evs m)"
  using assms(2, 3)
proof (induction evs arbitrary: m)
  case (Cons ev evs)
  then have "in_step E (memory_step E J ev m)" by (intro in_step_event [OF assms(1)]) simp_all
  with Cons show ?case by simp
qed simp

text \<open>
  C28. The memory survives a restart: after any calls of the tool, hygiene cycles and imports whose writes
  succeed and whose weights are finite, opening the file again gives every entry with its value, category,
  tags, weight and creation time.
\<close>

theorem memory_survives_restart:
  assumes "json_law E" and "with_path_and_searcher E True file s = Inr m"
    and "distinct (map fst (lt_entries m))" "\<forall>(k, e) \<in> set (lt_entries m). is_finite (me_importance e)"
    and "\<forall>ev \<in> set evs. writes_succeed ev \<and> (\<forall>w \<in> event_weights ev. is_finite w)"
  shows "\<exists>m'. with_path_and_searcher E True (lt_file (fold (memory_step E J) evs m)) s' = Inr m'
    \<and> same_facts (lt_entries m') (lt_entries (fold (memory_step E J) evs m))"
proof -
  have "in_step E m"
    using assms(2-4) by (auto simp: in_step_def with_path_and_searcher_def same_facts_def map_sum_def split: sum.splits)
  then have "in_step E (fold (memory_step E J) evs m)" using assms(1, 5) by (intro in_step_run)
  then show ?thesis by (auto simp: in_step_def with_path_and_searcher_def)
qed

lemma sample_json_law: "json_law sample_memory_env"
  by (auto simp: json_law_def sample_memory_env_def list_all_iff)

theorem memory_survives_restart_witness:
  "\<exists>m'. with_path_and_searcher sample_memory_env True
          (lt_file (fold (memory_step sample_memory_env sample_entry_json) [Tool_Call 100 Disk_Ok sample_args] empty_memory)) () = Inr m'
     \<and> same_facts (lt_entries m')
          (lt_entries (fold (memory_step sample_memory_env sample_entry_json) [Tool_Call 100 Disk_Ok sample_args] empty_memory))"
  by (rule memory_survives_restart [OF sample_json_law, of None "()"])
    (simp_all add: with_path_and_searcher_def lt_load_def empty_memory_def sample_args_def)

text \<open>
  A weight beyond the range of \<open>f32\<close> destroys the memory: the tool stores it as infinity, which JSON cannot
  hold, and the file does not open again. What is relied on of serde_json is that a number it wrote as
  null is not read back.
\<close>

theorem infinite_weight_loses_memory:
  assumes "\<And>es. \<exists>(k, e) \<in> set es. \<not> is_finite (me_importance e) \<Longrightarrow>
             \<not> mv_blank E (mv_render E es) \<and> mv_parse E (mv_render E es) = None"
    and "ta_action a = Some ''set''" "given (ta_key a) = Some key" "given (ta_value a) = Some val" "given (ta_category a) = Some c"
    and "ta_importance a = Some x" "2 ^ 128 - 2 ^ 103 \<le> x" and "\<not> injected E val"
  shows "with_path_and_searcher E True (lt_file (snd (memory_tool E J Disk_Ok now a m))) s
           = Inl (Config ''Failed to parse long-term memory JSON'')"
proof -
  have w: "given_importance a = Pos_Inf" using assms by (simp add: given_importance_def as_f32_def)
  define es where "es = upsert now key val c (given_tags a) Pos_Inf (lt_entries m)"
  have "lt_file (snd (memory_tool E J Disk_Ok now a m)) = Some (mv_render E es)"
    using assms w by (simp add: memory_tool_def tool_set_state lt_set_file es_def)
  moreover have "\<exists>e. map_of es key = Some e \<and> me_importance e = Pos_Inf"
    by (auto simp: es_def upsert_def update_conv' new_entry_def split: option.split)
  then have "\<exists>(k, e) \<in> set es. \<not> is_finite (me_importance e)" by (force dest: map_of_SomeD)
  ultimately show ?thesis using assms(1) [of es] by (simp add: with_path_and_searcher_def lt_load_def)
qed

theorem infinite_weight_loses_memory_witness:
  "with_path_and_searcher sample_memory_env True
     (lt_file (snd (memory_tool sample_memory_env sample_entry_json Disk_Ok 100 (sample_args\<lparr>ta_importance := Some (10 ^ 39)\<rparr>) empty_memory))) ()
     = Inl (Config ''Failed to parse long-term memory JSON'')"
  by (rule infinite_weight_loses_memory)
    (auto simp: sample_args_def sample_memory_env_def given_def trim_def trim_end_def ws_encodings_def list_all_iff injected_def no_pattern_injection)

section \<open>Cleaning up\<close>

lemma sorted_take_drop:
  "sorted (map f xs) \<Longrightarrow> x \<in> set (take n xs) \<Longrightarrow> y \<in> set (drop n xs) \<Longrightarrow> f x \<le> f y"
  using sorted_append [of "map f (take n xs)" "map f (drop n xs)"] by (simp flip: map_append)

lemma length_filter_keys:
  assumes "distinct (map fst es)" "set ks \<subseteq> fst ` set es" "distinct ks"
  shows "length (filter (\<lambda>(k, e). k \<notin> set ks) es) = length es - length ks"
proof -
  have "map fst (filter (\<lambda>(k, e). k \<in> set ks) es) = filter (\<lambda>k. k \<in> set ks) (map fst es)"
    by (induction es) auto
  then have "length (filter (\<lambda>(k, e). k \<in> set ks) es) = length (filter (\<lambda>k. k \<in> set ks) (map fst es))"
    by (metis length_map)
  also have "\<dots> = card (set (map fst es) \<inter> set ks)"
    using assms(1) by (metis distinct_card distinct_filter set_filter Collect_conj_eq Collect_mem_eq)
  also have "\<dots> = length ks" using assms(2, 3) by (simp add: Int_absorb1 distinct_card)
  finally have "length (filter (\<lambda>(k, e). k \<in> set ks) es) = length ks" .
  moreover have "length (filter (\<lambda>(k, e). k \<in> set ks) es) + length (filter (\<lambda>(k, e). k \<notin> set ks) es) = length es"
    by (induction es) auto
  ultimately show ?thesis by linarith
qed

lemma doomed_keys:
  assumes "distinct (map fst es)" "keep < length es"
  shows "distinct (doomed now keep es)" "set (doomed now keep es) \<subseteq> fst ` set es"
    "length (doomed now keep es) = length es - keep"
proof -
  let ?ys = "sort_key snd (map (\<lambda>(k, e). (k, decay_score now e)) es)"
  have "mset (map fst ?ys) = image_mset fst (mset (map (\<lambda>(k, e). (k, decay_score now e)) es))" by simp
  also have "\<dots> = mset (map fst (map (\<lambda>(k, e). (k, decay_score now e)) es))" by (simp only: mset_map)
  also have "map fst (map (\<lambda>(k, e). (k, decay_score now e)) es) = map fst es" by auto
  finally have ky: "mset (map fst ?ys) = mset (map fst es)" .
  have "distinct (map fst ?ys)" using ky assms(1) mset_eq_imp_distinct_iff by blast
  moreover have "set (map fst ?ys) = fst ` set es" using mset_eq_setD [OF ky] by simp
  ultimately have "distinct (map fst (take (length es - keep) ?ys))" "set (map fst (take (length es - keep) ?ys)) \<subseteq> fst ` set es"
    by (simp flip: take_map, metis set_take_subset take_map)
  then show "distinct (doomed now keep es)" "set (doomed now keep es) \<subseteq> fst ` set es"
    by (simp_all add: doomed_def)
  show "length (doomed now keep es) = length es - keep" by (simp add: doomed_def)
qed

lemma doomed_least:
  assumes "distinct (map fst es)" "(k, e) \<in> set es" "k \<in> set (doomed now keep es)"
    and "(k', e') \<in> set es" "k' \<notin> set (doomed now keep es)"
  shows "decay_score now e \<le> decay_score now e'"
proof -
  let ?f = "\<lambda>(k, e). (k, decay_score now e)"
  let ?ys = "sort_key snd (map ?f es)"
  let ?n = "length es - keep"
  obtain w where w: "(k, w) \<in> set (take ?n ?ys)" using assms(3) by (auto simp: doomed_def)
  then have "(k, w) \<in> ?f ` set es" by (auto dest: in_set_takeD)
  then have "w = decay_score now e"
    using assms(1, 2) by (force simp: distinct_map inj_on_def)
  moreover have "(k', decay_score now e') \<in> set ?ys" using assms(4) by force
  then have "(k', decay_score now e') \<in> set (take ?n ?ys) \<union> set (drop ?n ?ys)" by (metis append_take_drop_id set_append)
  then have "(k', decay_score now e') \<in> set (drop ?n ?ys)" using assms(5) by (force simp: doomed_def)
  ultimately show ?thesis
    using sorted_take_drop [of snd ?ys "(k, w)" ?n "(k', decay_score now e')"] w by simp
qed

definition kept :: "nat \<Rightarrow> real \<Rightarrow> nat \<Rightarrow> (string \<times> memory_entry) list \<Rightarrow> (string \<times> memory_entry) list" where
  "kept now t keep es =
     (let es1 = filter (\<lambda>(k, e). Fin t \<le> decay_score now e) es
      in if keep < length es1 then filter (\<lambda>(k, e). k \<notin> set (doomed now keep es1)) es1 else es1)"

lemma swept_entries:
  assumes "hy_expired_threshold c = Fin t" "0 \<le> t" "t \<le> 1"
  shows "lt_entries (swept E d1 d2 now c m) = kept now t (hy_max_entries c) (lt_entries m)"
  using assms
  by (simp add: swept_def kept_def Let_def lt_count_def cleanup_expired_entries cleanup_least_entries less_eq_weight_def)

lemma kept_length: "distinct (map fst es) \<Longrightarrow> length (kept now t keep es) \<le> keep"
  using length_filter_keys [OF _ doomed_keys(2, 1), of "filter (\<lambda>(k, e). Fin t \<le> decay_score now e) es" keep now]
    doomed_keys(3) [of "filter (\<lambda>(k, e). Fin t \<le> decay_score now e) es" keep now]
  by (auto simp: kept_def Let_def distinct_map_filter)

lemma kept_subset: "(k, e) \<in> set (kept now t keep es) \<Longrightarrow> (k, e) \<in> set es \<and> Fin t \<le> decay_score now e"
  by (auto simp: kept_def Let_def split: if_splits)

lemma kept_distinct: "distinct (map fst es) \<Longrightarrow> distinct (map fst (kept now t keep es))"
  by (simp add: kept_def Let_def distinct_map_filter)

lemma kept_under_limit:
  assumes "length es \<le> keep" "(k, e) \<in> set es" "Fin t \<le> decay_score now e"
  shows "(k, e) \<in> set (kept now t keep es)"
proof -
  have "\<not> keep < length (filter (\<lambda>(k, e). Fin t \<le> decay_score now e) es)"
    using assms(1) length_filter_le [of "\<lambda>(k, e). Fin t \<le> decay_score now e" es] by linarith
  with assms(2, 3) show ?thesis by (simp add: kept_def Let_def)
qed

lemma kept_best:
  assumes "distinct (map fst es)" "(k, e) \<in> set es" "k \<notin> fst ` set (kept now t keep es)" "(k', e') \<in> set (kept now t keep es)"
  shows "decay_score now e \<le> decay_score now e'"
proof (cases "Fin t \<le> decay_score now e")
  case False
  then show ?thesis using kept_subset [OF assms(4)] by (metis order_trans linear)
next
  case True
  let ?es1 = "filter (\<lambda>(k, e). Fin t \<le> decay_score now e) es"
  have in1: "(k, e) \<in> set ?es1" using assms(2) True by simp
  then have over: "keep < length ?es1" and "k \<in> set (doomed now keep ?es1)"
    using assms(3) by (force simp: kept_def Let_def split: if_splits)+
  moreover have "(k', e') \<in> set ?es1" "k' \<notin> set (doomed now keep ?es1)"
    using assms(4) over by (auto simp: kept_def Let_def)
  ultimately show ?thesis using doomed_least [OF _ in1] assms(1) by (simp add: distinct_map_filter)
qed

lemma pinned_score [simp]: "is_pinned e \<Longrightarrow> decay_score now e = Fin 1"
  by (simp add: decay_score_def)

lemma map_of_upsert_other: "k \<noteq> key \<Longrightarrow> map_of (upsert now key val c ts w es) k = map_of es k"
  by (simp add: upsert_def update_conv' split: option.split)

lemma length_upsert: "length (upsert now key val c ts w es) \<le> Suc (length es)"
  by (simp add: upsert_def length_update_le split: option.split)

text \<open>
  C29. A hygiene cycle, whatever writes fail: it leaves at most the configured number of entries and
  the mark of its own run; every other entry that is left is unchanged and was not expired; when the
  memory is not over its limit, pinned entries stay; and an entry that is evicted scores no higher than
  one that stays.
\<close>

theorem hygiene_cycle_effect:
  assumes "distinct (map fst (lt_entries m))" and "hy_expired_threshold c = Fin t" "0 \<le> t" "t \<le> 1"
    and "m' = snd (run_hygiene_cycle E ds now c m)"
  shows "lt_count m' \<le> hy_max_entries c + 1
    \<and> (\<forall>k e. map_of (lt_entries m') k = Some e \<and> k \<noteq> last_hygiene_key \<longrightarrow>
           map_of (lt_entries m) k = Some e \<and> Fin t \<le> decay_score now e)
    \<and> (lt_count m \<le> hy_max_entries c \<longrightarrow>
           (\<forall>k e. map_of (lt_entries m) k = Some e \<and> is_pinned e \<and> k \<noteq> last_hygiene_key
              \<longrightarrow> map_of (lt_entries m') k = Some e))
    \<and> (\<forall>k e k' e'. map_of (lt_entries m) k = Some e \<and> map_of (lt_entries m') k = None
           \<and> map_of (lt_entries m') k' = Some e' \<and> k' \<noteq> last_hygiene_key \<longrightarrow> decay_score now e \<le> decay_score now e')"
proof -
  obtain d1 d2 d3 where ds: "ds = (d1, d2, d3)" by (cases ds)
  define es where "es = kept now t (hy_max_entries c) (lt_entries m)"
  have m': "lt_entries m' = es \<or> lt_entries m' = upsert now last_hygiene_key (show_nat now) ''system'' [] (Fin (1 / 10)) es"
    using assms(5) swept_entries [OF assms(2-4), of E d1 d2 now m]
    by (auto simp: ds hygiene_cycle_state lt_set_entries es_def)
  have dist: "distinct (map fst es)" using kept_distinct [OF assms(1)] by (simp add: es_def)
  have other: "map_of (lt_entries m') k = map_of es k" if "k \<noteq> last_hygiene_key" for k
    using m' that by (auto simp: map_of_upsert_other)
  have gone: "map_of es k = None" if "map_of (lt_entries m') k = None" for k
    using m' that by (cases "k = last_hygiene_key") (auto simp: map_of_upsert_other upsert_def update_conv' split: option.splits)
  have "length es \<le> hy_max_entries c" using kept_length [OF assms(1)] by (simp add: es_def)
  then have 1: "lt_count m' \<le> hy_max_entries c + 1" 
    using m' length_upsert [of now last_hygiene_key "show_nat now" "''system''" "[]" "Fin (1 / 10)" es]
    by (auto simp: lt_count_def)
  have sub: "map_of (lt_entries m) k = Some e \<and> Fin t \<le> decay_score now e" if "map_of es k = Some e" for k e
    using kept_subset [of k e now t "hy_max_entries c" "lt_entries m"] assms(1) map_of_SomeD [OF that] by (simp add: es_def)
  have pin: "map_of es k = Some e" if "lt_count m \<le> hy_max_entries c" "map_of (lt_entries m) k = Some e" "is_pinned e" for k e
    using kept_under_limit [of "lt_entries m" "hy_max_entries c" k e t now] map_of_SomeD [OF that(2)] that assms(4) dist
    by (simp add: lt_count_def es_def less_eq_weight_def)
  have best: "decay_score now e \<le> decay_score now e'"
    if "map_of (lt_entries m) k = Some e" "map_of es k = None" "map_of es k' = Some e'" for k e k' e'
    using kept_best [OF assms(1) map_of_SomeD [OF that(1)], of now t "hy_max_entries c" k' e'] that map_of_SomeD [OF that(3)]
    by (simp add: es_def map_of_eq_None_iff)
  show ?thesis
  proof (intro conjI allI impI; (elim conjE)?)
    fix k e assume "map_of (lt_entries m') k = Some e" "k \<noteq> last_hygiene_key"
    then show "map_of (lt_entries m) k = Some e" "Fin t \<le> decay_score now e" using other sub by auto
  next
    fix k e assume "lt_count m \<le> hy_max_entries c" "map_of (lt_entries m) k = Some e" "is_pinned e" "k \<noteq> last_hygiene_key"
    then show "map_of (lt_entries m') k = Some e" using other pin by simp
  next
    fix k e k' e'
    assume "map_of (lt_entries m) k = Some e" "map_of (lt_entries m') k = None"
      "map_of (lt_entries m') k' = Some e'" "k' \<noteq> last_hygiene_key"
    then show "decay_score now e \<le> decay_score now e'" using other gone best by metis
  qed (rule 1)
qed

theorem hygiene_cycle_effect_witness:
  "lt_count (snd (run_hygiene_cycle sample_memory_env (Disk_Ok, Disk_Ok, No_Directory) 5000 hygiene_config_default empty_memory)) \<le> 1001"
  using hygiene_cycle_effect [of empty_memory hygiene_config_default "1 / 10" _ sample_memory_env "(Disk_Ok, Disk_Ok, No_Directory)" 5000]
  by (simp add: empty_memory_def hygiene_config_default_def)

section \<open>When the next cycle is due\<close>

text \<open>
  The hygiene keeps its rhythm: after a cycle, whatever of it could be written, the next one is due
  exactly when the configured number of hours has passed.
\<close>

theorem next_hygiene_due:
  assumes "\<not> injected E (show_nat now)" "now \<le> t" "t < 2 ^ 63"
  shows "should_run t (last_run_timestamp (snd (run_hygiene_cycle E ds now c m))) h \<longleftrightarrow> 3600 * h \<le> t - now"
proof -
  obtain d1 d2 d3 where ds: "ds = (d1, d2, d3)" by (cases ds)
  have "last_run_timestamp (snd (run_hygiene_cycle E ds now c m)) = Some (int now)"
    using assms unfolding last_run_timestamp_def get_readonly_def ds hygiene_cycle_state lt_set_entries
    by (simp add: upsert_def update_conv' new_entry_def parse_i64_show_nat split: option.split)
  moreover have "wrap_i64 (int t - int now) = int (t - now)"
    using assms by (simp add: wrap_i64_def)
  ultimately show ?thesis by (simp add: should_run_def less_eq_div_iff_mult_less_eq mult.commute)
qed

theorem next_hygiene_due_witness:
  "\<not> should_run 43000 (last_run_timestamp (snd (run_hygiene_cycle sample_memory_env (Disk_Ok, Disk_Ok, No_Directory) 0
       hygiene_config_default empty_memory))) 12"
  using next_hygiene_due [of sample_memory_env 0 43000 "(Disk_Ok, Disk_Ok, No_Directory)" hygiene_config_default empty_memory 12] by simp

section \<open>Snapshots\<close>

lemma snapshot_of_new:
  "snapshot_of (new_entry now (se_key x) (se_value x) (se_category x) (se_tags x) (se_importance x)) = x"
  by (cases x) (simp add: snapshot_of_def new_entry_def)

lemma lt_set_ok:
  assumes "\<not> injected E val" "\<And>k t s. fst (mv_index E k t s) = Inr ()"
  shows "fst (lt_set E Disk_Ok now key val category tags imp m) = Inr ()"
  using assms by (auto simp: lt_set_def injected_def Let_def split: prod.split) (metis fst_conv)

lemma import_fresh:
  assumes "\<And>k t s. fst (mv_index E k t s) = Inr ()" "\<forall>x \<in> set xs. \<not> injected E (se_value x)"
    and "distinct (map se_key xs)" "\<forall>x \<in> set xs. map_of (lt_entries m) (se_key x) = None" "\<forall>(now, d) \<in> set io. d = Disk_Ok"
  shows "fst (import_snapshot E overwrite xs io (i, j) m) = Inr (i + length xs, j)
    \<and> map_option snapshot_of (map_of (lt_entries (snd (import_snapshot E overwrite xs io (i, j) m))) k) =
        (case map_of (map (\<lambda>x. (se_key x, x)) xs) k of Some x \<Rightarrow> Some x | None \<Rightarrow> map_option snapshot_of (map_of (lt_entries m) k))"
  using assms(2-)
proof (induction xs arbitrary: io i m)
  case (Cons x xs)
  obtain now where io: "(case io of [] \<Rightarrow> (0, Disk_Ok) | p # _ \<Rightarrow> p) = (now, Disk_Ok)"
    using Cons.prems(4) by (cases io) auto
  define m1 where "m1 = snd (lt_set E Disk_Ok now (se_key x) (se_value x) (se_category x) (se_tags x) (se_importance x) m)"
  have st: "lt_set E Disk_Ok now (se_key x) (se_value x) (se_category x) (se_tags x) (se_importance x) m = (Inr (), m1)"
    using lt_set_ok [OF _ assms(1)] Cons.prems(1) by (simp add: m1_def prod_eq_iff)
  have e1: "map_of (lt_entries m1) = (map_of (lt_entries m))(se_key x \<mapsto>
      new_entry now (se_key x) (se_value x) (se_category x) (se_tags x) (se_importance x))"
    using Cons.prems(1, 3) by (simp add: m1_def lt_set_entries upsert_def update_conv')
  have io': "\<forall>(now, d) \<in> set (tl io). d = Disk_Ok" using Cons.prems(4) by (cases io) auto
  have run: "import_snapshot E overwrite (x # xs) io (i, j) m = import_snapshot E overwrite xs (tl io) (Suc i, j) m1"
    using Cons.prems(3) by (simp add: get_readonly_def io st)
  have new: "\<forall>y \<in> set xs. map_of (lt_entries m1) (se_key y) = None"
    using Cons.prems(2, 3) by (auto simp: e1 image_iff)
  have "map_of (map (\<lambda>x. (se_key x, x)) xs) (se_key x) = None"
    using Cons.prems(2) by (auto simp: map_of_eq_None_iff)
  moreover note ih = Cons.IH [OF _ _ new io', of "Suc i"]
  ultimately show ?case
    using Cons.prems(1, 2) unfolding run by (cases "k = se_key x") (simp_all add: ih e1 snapshot_of_new split: option.split)
qed simp

lemma map_of_entry_list:
  assumes "keyed es" "mset xs = mset (map snd es)"
  shows "map_of (map (\<lambda>x. (se_key x, x)) (map snapshot_of xs)) k = map_option snapshot_of (map_of es k)"
    and "distinct (map se_key (map snapshot_of xs))"
proof -
  have ks: "map me_key (map snd es) = map fst es" using assms(1) by (auto simp: keyed_def)
  have "mset (map me_key xs) = mset (map fst es)" using assms(2) ks by (metis mset_map)
  then have d: "distinct (map me_key xs)" using assms(1) mset_eq_imp_distinct_iff unfolding keyed_def by blast
  have sk: "map se_key (map snapshot_of xs) = map me_key xs" by (simp add: snapshot_of_def)
  show "distinct (map se_key (map snapshot_of xs))" unfolding sk by (rule d)
  have "mset (map (\<lambda>e. (me_key e, e)) xs) = mset (map (\<lambda>e. (me_key e, e)) (map snd es))" using assms(2) by (metis mset_map)
  also have "map (\<lambda>e. (me_key e, e)) (map snd es) = es" using assms(1) by (induction es) (auto simp: keyed_def)
  finally have "set (map (\<lambda>e. (me_key e, e)) xs) = set es" by (rule mset_eq_setD)
  moreover have "distinct (map fst (map (\<lambda>e. (me_key e, e)) xs))" using d by (simp add: comp_def)
  ultimately have "map_of (map (\<lambda>e. (me_key e, e)) xs) = map_of es"
    using assms(1) unfolding keyed_def by (metis map_of_inject_set)
  moreover have "map (\<lambda>x. (se_key x, x)) (map snapshot_of xs) = map (\<lambda>(k, e). (k, snapshot_of e)) (map (\<lambda>e. (me_key e, e)) xs)"
    by (simp add: snapshot_of_def)
  ultimately show "map_of (map (\<lambda>x. (se_key x, x)) (map snapshot_of xs)) k = map_option snapshot_of (map_of es k)"
    by (simp only: map_of_map comp_apply)
qed

text \<open>
  A snapshot restores a memory: importing what was exported into an empty memory gives back every entry's
  value, category, tags and weight under its key, and nothing else, when the writes succeed.
\<close>

theorem snapshot_roundtrip:
  assumes "keyed (lt_entries m)" "values_clean E m" "lt_entries m0 = []"
    and "\<And>k t s. fst (mv_index E k t s) = Inr ()" "\<forall>(now, d) \<in> set io. d = Disk_Ok"
  shows "fst (import_snapshot E overwrite (export_snapshot m) io (0, 0) m0) = Inr (lt_count m, 0)
    \<and> (\<forall>k. map_option snapshot_of (get_readonly k (snd (import_snapshot E overwrite (export_snapshot m) io (0, 0) m0)))
           = map_option snapshot_of (get_readonly k m))"
proof -
  define xs where "xs = newest_used (map snd (lt_entries m))"
  have xs: "export_snapshot m = map snapshot_of xs" "mset xs = mset (map snd (lt_entries m))" "length xs = lt_count m"
    by (simp_all add: xs_def export_snapshot_def list_all_entries_def newest_used_def lt_count_def)
  have "\<forall>x \<in> set xs. \<not> injected E (me_value x)"
    using assms(2) mset_eq_setD [OF xs(2)] by (auto simp: values_clean_def)
  then have cl: "\<forall>x \<in> set (map snapshot_of xs). \<not> injected E (se_value x)" by (auto simp: snapshot_of_def)
  note r = import_fresh [OF assms(4) cl map_of_entry_list(2) [OF assms(1) xs(2)] _ assms(5), of m0 overwrite 0 0]
  show ?thesis
    using r assms(3) map_of_entry_list(1) [OF assms(1) xs(2)] xs(3)
    by (simp add: xs(1) get_readonly_def split: option.split)
qed

theorem snapshot_roundtrip_witness:
  "fst (import_snapshot sample_memory_env False (export_snapshot (snd (lt_set sample_memory_env Disk_Ok 7 ''a'' ''b'' ''c'' [] (Fin 1) empty_memory)))
     [(9, Disk_Ok)] (0, 0) empty_memory) = Inr (1, 0)"
proof -
  let ?m = "snd (lt_set sample_memory_env Disk_Ok 7 ''a'' ''b'' ''c'' [] (Fin 1) empty_memory)"
  have index_ok: "fst (mv_index sample_memory_env k t s) = Inr ()" for k t s by (simp add: sample_memory_env_def)
  have e: "lt_entries ?m = [(''a'', new_entry 7 ''a'' ''b'' ''c'' [] (Fin 1))]"
    by (simp add: lt_set_entries upsert_def empty_memory_def)
  show ?thesis
    using snapshot_roundtrip [of ?m sample_memory_env empty_memory "[(9, Disk_Ok)]" False]
    by (simp add: e keyed_def values_clean_def lt_count_def index_ok) (simp add: empty_memory_def new_entry_def)
qed

section \<open>What reaches the prompt\<close>

lemma length_trim: "length (trim s) \<le> length s"
proof -
  have "length (trim_end_rev t) \<le> length t" for t
    by (induction t rule: trim_end_rev.induct) (auto split: option.splits intro: le_trans)
  then have "length (trim s) \<le> length (trim_start s)" by (simp add: trim_def trim_end_def) (metis length_rev)
  then show ?thesis using length_trim_start [of s] by linarith
qed

lemma length_join_nl: "xs \<noteq> [] \<Longrightarrow> Suc (length (join [c] xs)) = (\<Sum>x\<leftarrow>xs. length x + 1)"
  by (induction "[c]" xs rule: join.induct) simp_all

abbreviation cost_of :: "memory_entry list \<Rightarrow> nat" where
  "cost_of es \<equiv> (\<Sum>e\<leftarrow>es. length (injection_line e) + 1)"

lemma take_lines_shape:
  "\<exists>n. take_lines budget es used seen =
     (map injection_line (take n es), used + cost_of (take n es), rev (map me_key (take n es)) @ seen)
     \<and> (used \<le> budget \<longrightarrow> used + cost_of (take n es) \<le> budget)"
proof (induction es arbitrary: used seen)
  case (Cons e es)
  show ?case
  proof (cases "budget < used + length (injection_line e) + 1")
    case True
    then show ?thesis by (intro exI [of _ 0]) (simp add: Let_def)
  next
    case False
    obtain n where n: "take_lines budget es (used + length (injection_line e) + 1) (me_key e # seen) =
        (map injection_line (take n es), used + length (injection_line e) + 1 + cost_of (take n es),
         rev (map me_key (take n es)) @ me_key e # seen)"
      "used + length (injection_line e) + 1 \<le> budget \<longrightarrow> used + length (injection_line e) + 1 + cost_of (take n es) \<le> budget"
      using Cons.IH [of "used + length (injection_line e) + 1" "me_key e # seen"] by blast
    with False show ?thesis by (intro exI [of _ "Suc n"]) (simp add: Let_def)
  qed
qed (intro exI [of _ 0], simp)

lemma take_unseen_shape:
  "\<exists>fs. take_unseen budget es used seen = map injection_line fs \<and> set fs \<subseteq> set es \<and> length fs \<le> length es
     \<and> distinct (map me_key fs) \<and> set (map me_key fs) \<inter> set seen = {}
     \<and> (used \<le> budget \<longrightarrow> used + cost_of fs \<le> budget)"
proof (induction es arbitrary: used seen)
  case (Cons e es)
  consider (seen) "me_key e \<in> set seen" | (over) "me_key e \<notin> set seen" "budget < used + length (injection_line e) + 1"
    | (fits) "me_key e \<notin> set seen" "\<not> budget < used + length (injection_line e) + 1" by blast
  then show ?case
  proof cases
    case seen
    then show ?thesis using Cons.IH [of used seen] by fastforce
  next
    case over
    then show ?thesis by (intro exI [of _ "[]"]) (simp add: Let_def)
  next
    case fits
    obtain fs where "take_unseen budget es (used + length (injection_line e) + 1) (me_key e # seen) = map injection_line fs"
        "set fs \<subseteq> set es" "length fs \<le> length es" "distinct (map me_key fs)"
        "set (map me_key fs) \<inter> set (me_key e # seen) = {}"
        "used + length (injection_line e) + 1 \<le> budget \<longrightarrow> used + length (injection_line e) + 1 + cost_of fs \<le> budget"
      using Cons.IH [of "used + length (injection_line e) + 1" "me_key e # seen"] by blast
    with fits show ?thesis by (intro exI [of _ "e # fs"]) (auto simp: Let_def)
  qed
qed (intro exI [of _ "[]"], simp)

lemma by_category_entries: "e \<in> set (list_by_category E c m) \<Longrightarrow> e \<in> snd ` set (lt_entries m) \<and> mv_lower E (me_category e) = mv_lower E c"
  by (auto simp: list_by_category_def newest_used_def)

lemma search_entries:
  "e \<in> set (lt_search E q m) \<Longrightarrow> e \<in> snd ` set (lt_entries m) \<and> 0 < mv_score E (lt_searcher m) (entry_text e) q"
  by (force simp: lt_search_def Let_def)

lemma by_category_distinct:
  assumes "keyed (lt_entries m)"
  shows "distinct (map me_key (list_by_category E c m))"
proof -
  let ?xs = "filter (\<lambda>e. mv_lower E (me_category e) = mv_lower E c) (map snd (lt_entries m))"
  have ks: "map me_key (map snd (lt_entries m)) = map fst (lt_entries m)" using assms by (auto simp: keyed_def)
  have "distinct (map me_key (map snd (lt_entries m)))" unfolding ks using assms by (simp add: keyed_def)
  then have "distinct (map me_key ?xs)" by (rule distinct_map_filter)
  moreover have "mset (map me_key (list_by_category E c m)) = mset (map me_key ?xs)"
    by (simp only: list_by_category_def newest_used_def mset_map mset_sort)
  ultimately show ?thesis using mset_eq_imp_distinct_iff by blast
qed

text \<open>
  The memory part of the prompt is bounded and made of entries: it is at most 35 bytes longer than the
  budget; its lines are the most recently used pinned entries, as many as fit in a row, and then at most
  five entries that match the message; no key occurs twice.
\<close>

theorem memory_injection_bounded:
  assumes "keyed (lt_entries m)"
  shows "length (build_memory_injection E user_message budget m) \<le> budget + 35
    \<and> (\<exists>n fs. fst (pinned_lines E budget m) = map injection_line (take n (list_by_category E ''pinned'' m))
          \<and> relevant_lines E user_message budget m = map injection_line fs \<and> length fs \<le> 5
          \<and> set fs \<subseteq> {e \<in> snd ` set (lt_entries m). 0 < mv_score E (lt_searcher m) (entry_text e) user_message}
          \<and> distinct (map me_key (take n (list_by_category E ''pinned'' m) @ fs)))"
proof -
  let ?ps = "list_by_category E ''pinned'' m"
  obtain n where n: "pinned_lines E budget m = (map injection_line (take n ?ps), cost_of (take n ?ps), rev (map me_key (take n ?ps)))"
      "cost_of (take n ?ps) \<le> budget"
    using take_lines_shape [of budget ?ps 0 "[]"] by (auto simp: pinned_lines_def)
  obtain fs where fs: "relevant_lines E user_message budget m = map injection_line fs"
      "set fs \<subseteq> set (lt_search E user_message m)" "distinct (map me_key fs)" "length fs \<le> 5"
      "set (map me_key fs) \<inter> set (map me_key (take n ?ps)) = {}" "cost_of (take n ?ps) + cost_of fs \<le> budget"
  proof (cases "trim user_message = []")
    case True
    then show ?thesis using that [of "[]"] n by (simp add: relevant_lines_def)
  next
    case False
    obtain fs where "take_unseen budget (take 5 (lt_search E user_message m)) (cost_of (take n ?ps)) (rev (map me_key (take n ?ps)))
          = map injection_line fs" "set fs \<subseteq> set (take 5 (lt_search E user_message m))" "distinct (map me_key fs)"
        "length fs \<le> length (take 5 (lt_search E user_message m))"
        "set (map me_key fs) \<inter> set (rev (map me_key (take n ?ps))) = {}" "cost_of (take n ?ps) + cost_of fs \<le> budget"
      using take_unseen_shape [of budget "take 5 (lt_search E user_message m)" "cost_of (take n ?ps)"
          "rev (map me_key (take n ?ps))"] n(2) by blast
    with False n(1) show ?thesis
      by (intro that [of fs]) (auto simp: relevant_lines_def dest!: subsetD in_set_takeD)
  qed
  define parts where "parts = [''## Memory'' @ [CHR 0x0A]]
      @ (if take n ?ps = [] then [] else [''### Pinned''] @ map injection_line (take n ?ps) @ [[]])
      @ (if fs = [] then [] else [''### Relevant''] @ map injection_line fs)"
  have "Suc (length (join [CHR 0x0A] parts)) = (\<Sum>x\<leftarrow>parts. length x + 1)"
    by (rule length_join_nl) (simp add: parts_def)
  also have "\<dots> \<le> 36 + cost_of (take n ?ps) + cost_of fs" by (simp add: parts_def comp_def)
  finally have "length (trim (join [CHR 0x0A] parts)) \<le> budget + 35"
    using fs(6) length_trim [of "join [CHR 0x0A] parts"] by linarith
  then have "length (build_memory_injection E user_message budget m) \<le> budget + 35"
    by (simp add: build_memory_injection_def Let_def n(1) fs(1) parts_def)
  moreover have "distinct (map me_key (take n ?ps @ fs))"
    using by_category_distinct [OF assms, of E "''pinned''"] fs(3, 5) by (auto simp flip: take_map)
  moreover have "set fs \<subseteq> {e \<in> snd ` set (lt_entries m). 0 < mv_score E (lt_searcher m) (entry_text e) user_message}"
    using fs(2) search_entries by (fastforce dest: subsetD)
  ultimately show ?thesis using n(1) fs(1, 4) by auto
qed

theorem memory_injection_bounded_witness:
  "length (build_memory_injection sample_memory_env ''Ada'' memory_injection_budget
     (snd (lt_set sample_memory_env Disk_Ok 7 ''user:name'' ''Ada'' ''user'' [] (Fin 1) empty_memory))) \<le> 2035"
  using memory_injection_bounded [of "snd (lt_set sample_memory_env Disk_Ok 7 ''user:name'' ''Ada'' ''user'' [] (Fin 1) empty_memory)"
      sample_memory_env "''Ada''" memory_injection_budget]
  by (simp add: lt_set_entries upsert_def empty_memory_def keyed_def new_entry_def memory_injection_budget_def)

lemma keyed_upsert: "keyed es \<Longrightarrow> keyed (upsert now k v c ts w es)"
  using set_update_subset [of k _ es]
  by (fastforce simp: keyed_def upsert_def distinct_update new_entry_def dest: map_of_SomeD subsetD split: option.split)

lemma keyed_filter: "keyed es \<Longrightarrow> keyed (filter P es)"
  by (auto simp: keyed_def distinct_map_filter)

lemma keyed_set: "keyed (lt_entries m) \<Longrightarrow> keyed (lt_entries (snd (lt_set E d now k v c ts w m)))"
  by (simp add: lt_set_entries keyed_upsert)

lemma keyed_get: "keyed (lt_entries m) \<Longrightarrow> keyed (lt_entries (snd (lt_get now k m)))"
  using set_update_subset [of k _ "lt_entries m"]
  by (fastforce simp: keyed_def lt_get_def Let_def distinct_update dest: map_of_SomeD subsetD split: option.split)

text \<open>Every operation keeps the keys of the entries apart and equal to the keys in the entries.\<close>

lemma keyed_step: "keyed (lt_entries m) \<Longrightarrow> keyed (lt_entries (memory_step E J ev m))"
proof (cases ev)
  case (Tool_Call now d a)
  moreover assume "keyed (lt_entries m)"
  ultimately show ?thesis
    by (cases rule: memory_tool_cases [of E J d now a m])
      (auto simp: tool_states keyed_set keyed_get lt_delete_entries AList.delete_eq keyed_filter split: option.split)
next
  case (Hygiene_Tick now ds c)
  moreover obtain d1 d2 d3 where "ds = (d1, d2, d3)" by (cases ds)
  moreover assume "keyed (lt_entries m)"
  ultimately show ?thesis
    by (simp add: hygiene_tick_def hygiene_cycle_state swept_def Let_def keyed_set cleanup_expired_entries
        cleanup_least_entries keyed_filter)
next
  case (Snapshot_Import overwrite xs io)
  moreover assume "keyed (lt_entries m)"
  ultimately show ?thesis by (simp add: import_keeps [where Q = "\<lambda>m. keyed (lt_entries m)"] keyed_set)
qed

text \<open>
  The key of an entry reaches the prompt unscanned: whatever text the tool is given as a key, an entry
  pinned under it is a line of the prompt when it is the only one and fits.
\<close>

theorem key_reaches_prompt:
  assumes "lt_entries m = []" "\<not> injected E val" "length key + length val + 5 \<le> budget"
  shows "fst (pinned_lines E budget (snd (lt_set E d now key val ''pinned'' tags imp m))) = [''- '' @ key @ '': '' @ val]"
  using assms
  by (simp add: pinned_lines_def list_by_category_def newest_used_def lt_set_entries upsert_def new_entry_def injection_line_def Let_def)

text \<open>
  An entry that was cleaned up stays in the search index: the BM25 index represents the same documents
  before and after.
\<close>

theorem evicted_still_indexed:
  assumes "bm25_rep docs (lt_searcher m)"
  shows "bm25_rep docs (lt_searcher (snd (cleanup_expired E d now threshold m)))"
    and "bm25_rep docs (lt_searcher (snd (cleanup_least_used E d now keep m)))"
  using assms
  by (cases d; simp add: cleanup_expired_def cleanup_least_used_def lt_save_def Let_def)+

end
