(* ===== verification/Memory_Files.thy ===== *)
theory Memory_Files
  imports Memory_Search Path_Security
begin

text \<open>
  The memory in Markdown files of the workspace (\<open>src/src/memory/mod.rs\<close>): which files count, the search in
  overlapping windows of lines, and the reading of a range of lines.

  The files are those of the file system of \<open>Path_Fs\<close>; the names a directory lists, in its order, and
  the text of a file are arguments, \<open>None\<close> where reading fails.
\<close>

section \<open>Names\<close>

definition chunk_lines :: nat where
  "chunk_lines = 18"

definition chunk_overlap :: nat where
  "chunk_overlap = 4"

definition default_get_lines :: nat where
  "default_get_lines = 80"

definition max_get_lines :: nat where
  "max_get_lines = 400"

definition max_dir_depth :: nat where
  "max_dir_depth = 10"

record memory_config =
  mc_include_default_memory :: bool
  mc_max_results :: nat
  mc_min_score :: real
  mc_max_snippet_chars :: nat
  mc_extra_paths :: "string list"

record workspace_files =
  wf_fs :: file_system
  wf_list :: "path_buf \<Rightarrow> string list option"
  wf_text :: "path_buf \<Rightarrow> string option"

text \<open>\<open>Path::extension\<close>: what follows the last dot of the name, unless the name starts with its only dot.\<close>

definition extension :: "path_buf \<Rightarrow> string option" where
  "extension p =
     (case p of
        [] \<Rightarrow> None
      | _ \<Rightarrow>
          (case last p of
             Normal name \<Rightarrow>
               (let after = takeWhile (\<lambda>c. c \<noteq> CHR ''.'') (rev name)
                in if length name \<le> Suc (length after) then None else Some (rev after))
           | _ \<Rightarrow> None))"

definition is_markdown :: "path_buf \<Rightarrow> bool" where
  "is_markdown p = (case extension p of Some ext \<Rightarrow> to_ascii_lowercase ext = ''md'' | None \<Rightarrow> False)"

definition back_to_slash :: "string \<Rightarrow> string" where
  "back_to_slash s = map (\<lambda>c. if c = CHR 0x5C then CHR ''/'' else c) s"

fun trim_dot_slash :: "string \<Rightarrow> string" where
  "trim_dot_slash (a # b # s) = (if [a, b] = ''./'' then trim_dot_slash s else a # b # s)"
| "trim_dot_slash s = s"

definition normalize_rel_path :: "string \<Rightarrow> string" where
  "normalize_rel_path path = back_to_slash (trim_dot_slash (trim path))"

definition relative_path :: "path_buf \<Rightarrow> path_buf \<Rightarrow> string" where
  "relative_path workspace p =
     back_to_slash (show_path (case strip_prefix p workspace of Some r \<Rightarrow> r | None \<Rightarrow> p))"

section \<open>Which files\<close>

definition path_exists :: "file_system \<Rightarrow> path_buf \<Rightarrow> bool" where
  "path_exists fs p = (case metadata fs p of Inr _ \<Rightarrow> True | Inl _ \<Rightarrow> False)"

definition path_is_file :: "file_system \<Rightarrow> path_buf \<Rightarrow> bool" where
  "path_is_file fs p = (case metadata fs p of Inr (File_Node _) \<Rightarrow> True | _ \<Rightarrow> False)"

definition path_is_dir :: "file_system \<Rightarrow> path_buf \<Rightarrow> bool" where
  "path_is_dir fs p = (case metadata fs p of Inr Dir_Node \<Rightarrow> True | _ \<Rightarrow> False)"

definition collect_if_markdown :: "workspace_files \<Rightarrow> string \<Rightarrow> path_buf \<Rightarrow> path_buf list" where
  "collect_if_markdown W workspace p =
     (if \<not> path_is_file (wf_fs W) p \<or> \<not> is_markdown p then []
      else (case validate_path_in_workspace (wf_fs W) (show_path p) workspace of Inr _ \<Rightarrow> [p] | Inl _ \<Rightarrow> []))"

definition collect_entry :: "workspace_files \<Rightarrow> string \<Rightarrow> (path_buf \<Rightarrow> path_buf list) \<Rightarrow> path_buf \<Rightarrow> path_buf list" where
  "collect_entry W workspace below p =
     (case symlink_metadata (wf_fs W) p of
        Inr (Link_Node _) \<Rightarrow> []
      | Inr Dir_Node \<Rightarrow> below p
      | Inr (File_Node _) \<Rightarrow> collect_if_markdown W workspace p
      | Inl _ \<Rightarrow> [])"

text \<open>The levels that are left: the search goes ten directories deep below the first.\<close>

fun collect_markdown_dir :: "workspace_files \<Rightarrow> string \<Rightarrow> nat \<Rightarrow> path_buf \<Rightarrow> path_buf list" where
  "collect_markdown_dir W workspace 0 dir = []"
| "collect_markdown_dir W workspace (Suc levels) dir =
     (if \<not> path_is_dir (wf_fs W) dir then []
      else (case wf_list W dir of
              None \<Rightarrow> []
            | Some names \<Rightarrow>
                concat (map (\<lambda>name. collect_entry W workspace (collect_markdown_dir W workspace levels)
                  (path_push dir (Normal name))) names)))"

fun dedup_paths :: "file_system \<Rightarrow> path_buf list \<Rightarrow> path_buf list \<Rightarrow> path_buf list" where
  "dedup_paths fs seen [] = []"
| "dedup_paths fs seen (p # ps) =
     (let key = (case canonicalize fs p of Inr c \<Rightarrow> c | Inl _ \<Rightarrow> p)
      in if key \<in> set seen then dedup_paths fs seen ps else p # dedup_paths fs (key # seen) ps)"

definition collect_extra :: "workspace_files \<Rightarrow> string \<Rightarrow> string \<Rightarrow> path_buf list" where
  "collect_extra W workspace extra =
     (if trim extra = [] then []
      else (case validate_path_in_workspace (wf_fs W) extra workspace of
              Inl _ \<Rightarrow> []
            | Inr safe \<Rightarrow>
                if path_is_file (wf_fs W) safe then collect_if_markdown W workspace safe
                else if path_is_dir (wf_fs W) safe then collect_markdown_dir W workspace (Suc max_dir_depth) safe
                else []))"

definition collect_memory_files :: "workspace_files \<Rightarrow> string \<Rightarrow> memory_config \<Rightarrow> path_buf list" where
  "collect_memory_files W workspace c =
     (let ws = path_of workspace
      in if \<not> path_exists (wf_fs W) ws then []
         else dedup_paths (wf_fs W) []
           ((if mc_include_default_memory c
             then collect_if_markdown W workspace (path_push ws (Normal ''MEMORY.md''))
                    @ collect_if_markdown W workspace (path_push ws (Normal ''memory.md''))
                    @ collect_markdown_dir W workspace (Suc max_dir_depth) (path_push ws (Normal ''memory''))
             else [])
            @ concat (map (collect_extra W workspace) (mc_extra_paths c))))"

section \<open>Searching\<close>

text \<open>The windows of lines, from the first line to the one that reaches the end.\<close>

function chunk_windows :: "nat \<Rightarrow> nat \<Rightarrow> (nat \<times> nat) list" where
  "chunk_windows n start =
     (if n \<le> start then []
      else let stop = min (start + chunk_lines) n
           in (start, stop) # (if stop = n then [] else chunk_windows n (start + max (chunk_lines - chunk_overlap) 1)))"
  by pat_completeness auto

termination
  by (relation "measure (\<lambda>(n, start). n - start)") (auto simp: chunk_lines_def chunk_overlap_def)

declare chunk_windows.simps [simp del]

record memory_search_result =
  sr_path :: string
  sr_start_line :: nat
  sr_end_line :: nat
  sr_score :: real
  sr_snippet :: string
  sr_citation :: "string option"

definition format_citation :: "string \<Rightarrow> nat \<Rightarrow> nat \<Rightarrow> string" where
  "format_citation path start_line end_line =
     (if start_line = end_line then path @ ''#L'' @ show_nat start_line
      else path @ ''#L'' @ show_nat start_line @ ''-L'' @ show_nat end_line)"

definition slice_lines :: "nat \<Rightarrow> nat \<Rightarrow> string list \<Rightarrow> string" where
  "slice_lines a b ls = join [CHR 0x0A] (take (b - a) (drop a ls))"

definition chunk_result ::
    "('s \<Rightarrow> string \<Rightarrow> string \<Rightarrow> real) \<Rightarrow> 's \<Rightarrow> string \<Rightarrow> real \<Rightarrow> nat \<Rightarrow> bool \<Rightarrow> string \<Rightarrow> string list \<Rightarrow> nat \<times> nat
       \<Rightarrow> memory_search_result option" where
  "chunk_result score s query min_score snippet_chars cite relative ls w =
     (let chunk = slice_lines (fst w) (snd w) ls
      in if trim chunk = [] \<or> score s chunk query < min_score then None
         else let snippet = concat (take snippet_chars (str_chars (trim chunk)));
                  citation = (if cite then Some (format_citation relative (Suc (fst w)) (snd w)) else None)
              in Some \<lparr>sr_path = relative, sr_start_line = Suc (fst w), sr_end_line = snd w, sr_score = score s chunk query,
                       sr_snippet = (case citation of
                          Some t \<Rightarrow> snippet @ [CHR 0x0A, CHR 0x0A] @ ''Source: '' @ t | None \<Rightarrow> snippet),
                       sr_citation = citation\<rparr>)"

definition search_file ::
    "('s \<Rightarrow> string \<Rightarrow> string \<Rightarrow> real) \<Rightarrow> 's \<Rightarrow> workspace_files \<Rightarrow> path_buf \<Rightarrow> string \<Rightarrow> real \<Rightarrow> nat \<Rightarrow> bool \<Rightarrow> path_buf
       \<Rightarrow> memory_search_result list" where
  "search_file score s W workspace query min_score snippet_chars cite file =
     (case wf_text W file of
        None \<Rightarrow> []
      | Some content \<Rightarrow>
          let ls = str_lines content
          in List.map_filter (chunk_result score s query min_score snippet_chars cite (relative_path workspace file) ls)
               (chunk_windows (length ls) 0))"

definition search_workspace_memory ::
    "('s \<Rightarrow> string \<Rightarrow> string \<Rightarrow> real) \<Rightarrow> 's \<Rightarrow> workspace_files \<Rightarrow> string \<Rightarrow> string \<Rightarrow> memory_config \<Rightarrow> nat option
       \<Rightarrow> real option \<Rightarrow> bool \<Rightarrow> memory_search_result list zresult" where
  "search_workspace_memory score s W workspace query0 c max_results0 min_score0 cite =
     (let query = trim query0
      in if query = [] then Inl (Tool ''Memory query cannot be empty'')
         else let files = collect_memory_files W workspace c;
                  max_results = max 1 (min 50 (case max_results0 of Some n \<Rightarrow> n | None \<Rightarrow> mc_max_results c));
                  min_score = max 0 (min 1 (case min_score0 of Some x \<Rightarrow> x | None \<Rightarrow> mc_min_score c));
                  snippet_chars = max (mc_max_snippet_chars c) 64;
                  results = concat (map (search_file score s W (path_of workspace) query min_score snippet_chars cite) files)
              in Inr (take max_results (sort_key (\<lambda>r. - sr_score r) results)))"

section \<open>Reading\<close>

record memory_read_result =
  rr_path :: string
  rr_start_line :: nat
  rr_end_line :: nat
  rr_total_lines :: nat
  rr_truncated :: bool
  rr_text :: string

definition read_lines :: "string \<Rightarrow> string list \<Rightarrow> nat option \<Rightarrow> nat option \<Rightarrow> memory_read_result" where
  "read_lines path all_lines from lines0 =
     (let total_lines = length all_lines;
          start_line = max (case from of Some n \<Rightarrow> n | None \<Rightarrow> 1) 1;
          line_count = max 1 (min max_get_lines (case lines0 of Some n \<Rightarrow> n | None \<Rightarrow> default_get_lines))
      in if total_lines = 0 \<or> total_lines < start_line
         then \<lparr>rr_path = path, rr_start_line = start_line, rr_end_line = start_line - 1, rr_total_lines = total_lines,
               rr_truncated = False, rr_text = []\<rparr>
         else let start_idx = start_line - 1;
                  end_idx = min (start_idx + line_count) total_lines
              in \<lparr>rr_path = path, rr_start_line = start_line, rr_end_line = end_idx, rr_total_lines = total_lines,
                  rr_truncated = (end_idx < total_lines), rr_text = slice_lines start_idx end_idx all_lines\<rparr>)"

definition read_workspace_memory ::
    "workspace_files \<Rightarrow> string \<Rightarrow> string \<Rightarrow> nat option \<Rightarrow> nat option \<Rightarrow> memory_config \<Rightarrow> memory_read_result zresult" where
  "read_workspace_memory W workspace rel_path from lines0 c =
     (let requested = normalize_rel_path rel_path
      in if requested = [] then Inl (Tool (quoted ''path'' @ '' cannot be empty''))
         else (case find (\<lambda>p. normalize_rel_path (relative_path (path_of workspace) p) = requested)
                      (collect_memory_files W workspace c) of
                 None \<Rightarrow> Inl (Tool (''Memory path not found or not allowed: '' @ rel_path))
               | Some target \<Rightarrow>
                   (case wf_text W target of
                      None \<Rightarrow> Inl (Tool ''Failed to read memory file'')
                    | Some content \<Rightarrow> Inr (read_lines (relative_path (path_of workspace) target) (str_lines content) from lines0))))"

section \<open>Only files of the workspace\<close>

definition memory_file :: "workspace_files \<Rightarrow> string \<Rightarrow> path_buf \<Rightarrow> bool" where
  "memory_file W ws f \<longleftrightarrow> path_is_file (wf_fs W) f \<and> is_markdown f
     \<and> (\<exists>q. validate_path_in_workspace (wf_fs W) (show_path f) ws = Inr q)"

lemma collect_if_markdown_valid: "f \<in> set (collect_if_markdown W ws p) \<Longrightarrow> memory_file W ws f"
  unfolding memory_file_def collect_if_markdown_def
  by (cases "validate_path_in_workspace (wf_fs W) (show_path p) ws") (auto split: if_splits)

lemma collect_entry_cases:
  "f \<in> set (collect_entry W ws below p) \<Longrightarrow> f \<in> set (below p) \<or> f \<in> set (collect_if_markdown W ws p)"
  unfolding collect_entry_def
  by (cases "symlink_metadata (wf_fs W) p"; simp; rename_tac x; case_tac x; simp)

lemma collect_markdown_dir_valid: "f \<in> set (collect_markdown_dir W ws n p) \<Longrightarrow> memory_file W ws f"
  by (induction n arbitrary: p)
    (auto dest: collect_entry_cases collect_if_markdown_valid split: if_splits option.splits)

lemma collect_extra_valid: "f \<in> set (collect_extra W ws extra) \<Longrightarrow> memory_file W ws f"
  by (auto simp: collect_extra_def dest: collect_if_markdown_valid collect_markdown_dir_valid
      split: if_splits sum.splits simp del: collect_markdown_dir.simps)

lemma dedup_paths_subset: "f \<in> set (dedup_paths fs seen ps) \<Longrightarrow> f \<in> set ps"
  by (induction ps arbitrary: seen) (auto simp: Let_def split: if_splits)

lemma collected_valid: "f \<in> set (collect_memory_files W ws c) \<Longrightarrow> memory_file W ws f"
  by (auto simp: collect_memory_files_def Let_def simp del: collect_markdown_dir.simps dest!: dedup_paths_subset
      dest: collect_if_markdown_valid collect_markdown_dir_valid collect_extra_valid split: if_splits)

text \<open>
  Memory comes from the workspace only: what a read returns are lines of a Markdown file whose path passes
  the validation, so that it lies under the canonical workspace with everything its existing parts resolve to.
\<close>

theorem memory_reads_contained:
  assumes "fs_ok (wf_fs W)" "read_workspace_memory W ws rel from lines0 c = Inr r"
  shows "\<exists>f p content. validate_path_in_workspace (wf_fs W) (show_path f) ws = Inr p \<and> is_markdown f
    \<and> prefix (canonical_workspace (wf_fs W) ws) p
    \<and> (\<forall>q d. prefix (canonical_workspace (wf_fs W) ws) q \<and> prefix q p \<and> canonicalize (wf_fs W) q = Inr d
          \<longrightarrow> prefix (canonical_workspace (wf_fs W) ws) d)
    \<and> wf_text W f = Some content \<and> r = read_lines (relative_path (path_of ws) f) (str_lines content) from lines0"
proof -
  obtain f content where f: "f \<in> set (collect_memory_files W ws c)" "wf_text W f = Some content"
      "r = read_lines (relative_path (path_of ws) f) (str_lines content) from lines0"
    using assms(2) by (auto simp: read_workspace_memory_def Let_def dest!: find_Some_in split: if_splits option.splits)
  with collected_valid [OF f(1)] obtain p where p: "validate_path_in_workspace (wf_fs W) (show_path f) ws = Inr p" "is_markdown f"
    by (auto simp: memory_file_def)
  moreover have "prefix (canonical_workspace (wf_fs W) ws) p" by (rule validated_parts [OF p(1)]) simp
  ultimately show ?thesis using f(2, 3) validated_contained [OF assms(1) p(1)] by blast
qed

definition sample_files :: workspace_files where
  "sample_files =
     \<lparr>wf_fs = sample_fs\<lparr>fs_node := (fs_node sample_fs)([''ws'', ''MEMORY.md''] \<mapsto> File_Node 1)\<rparr>,
      wf_list = (\<lambda>_. Some []), wf_text = (\<lambda>_. Some ''one'')\<rparr>"

definition sample_memory_config :: memory_config where
  "sample_memory_config = \<lparr>mc_include_default_memory = True, mc_max_results = 5, mc_min_score = 1 / 5, mc_max_snippet_chars = 700,
     mc_extra_paths = []\<rparr>"

theorem memory_reads_contained_witness:
  "\<exists>f p. validate_path_in_workspace (wf_fs sample_files) (show_path f) ''/ws'' = Inr p \<and> is_markdown f
     \<and> prefix (canonical_workspace (wf_fs sample_files) ''/ws'') p"
proof -
  have ok: "fs_ok (wf_fs sample_files)" by (simp add: fs_ok_def real_name_def sample_files_def sample_fs_def)
  have r: "isl (read_workspace_memory sample_files ''/ws'' ''MEMORY.md'' None None sample_memory_config) = False" by code_simp
  then obtain r where "read_workspace_memory sample_files ''/ws'' ''MEMORY.md'' None None sample_memory_config = Inr r"
    by (cases "read_workspace_memory sample_files ''/ws'' ''MEMORY.md'' None None sample_memory_config") auto
  from memory_reads_contained [OF ok this] show ?thesis by blast
qed

section \<open>The windows\<close>

lemma chunk_windows_cover:
  "start \<le> i \<Longrightarrow> i < n \<Longrightarrow> \<exists>(a, b) \<in> set (chunk_windows n start). a \<le> i \<and> i < b"
proof (induction n start rule: chunk_windows.induct)
  case (1 n start)
  define stop where "stop = min (start + chunk_lines) n"
  have w: "chunk_windows n start = (start, stop) # (if stop = n then [] else chunk_windows n (start + 14))"
    using 1 by (subst chunk_windows.simps) (simp add: Let_def stop_def chunk_lines_def chunk_overlap_def)
  show ?case
  proof (cases "i < stop")
    case True
    with 1 show ?thesis by (auto simp: w)
  next
    case False
    with 1(3) have "stop = start + 18" "stop \<noteq> n" by (auto simp: stop_def chunk_lines_def)
    with 1 False have "\<exists>(a, b) \<in> set (chunk_windows n (start + 14)). a \<le> i \<and> i < b"
      by (simp add: stop_def chunk_lines_def chunk_overlap_def)
    with \<open>stop \<noteq> n\<close> show ?thesis by (auto simp: w)
  qed
qed

lemma chunk_windows_bounds:
  "(a, b) \<in> set (chunk_windows n start) \<Longrightarrow> start \<le> a \<and> a < b \<and> b \<le> n \<and> b \<le> a + chunk_lines"
proof (induction n start rule: chunk_windows.induct)
  case (1 n start)
  then show ?case
    by (subst (asm) (2) chunk_windows.simps)
      (fastforce simp: Let_def chunk_lines_def chunk_overlap_def split: if_splits)
qed

text \<open>What a search returns, for any searcher that keeps its promise.\<close>

context memory_searcher
begin

lemma search_result_sound:
  assumes "search_workspace_memory score s W ws query c n x cite = Inr rs" "r \<in> set rs"
  shows "0 \<le> sr_score r" "sr_score r \<le> 1"
    "max 0 (min 1 (case x of Some y \<Rightarrow> y | None \<Rightarrow> mc_min_score c)) \<le> sr_score r"
    "\<exists>f content. f \<in> set (collect_memory_files W ws c) \<and> wf_text W f = Some content
       \<and> sr_start_line r \<le> sr_end_line r \<and> sr_end_line r \<le> length (str_lines content)"
proof -
  let ?m = "max 0 (min 1 (case x of Some y \<Rightarrow> y | None \<Rightarrow> mc_min_score c))"
  let ?k = "max (mc_max_snippet_chars c) 64"
  obtain f where f: "f \<in> set (collect_memory_files W ws c)" "r \<in> set (search_file score s W (path_of ws) (trim query) ?m ?k cite f)"
    using assms by (auto simp: search_workspace_memory_def Let_def split: if_splits dest!: in_set_takeD)
  then obtain content w where cw: "wf_text W f = Some content" "w \<in> set (chunk_windows (length (str_lines content)) 0)"
      "chunk_result score s (trim query) ?m ?k cite (relative_path (path_of ws) f) (str_lines content) w = Some r"
    by (force simp: search_file_def Let_def map_filter_def split: option.splits)
  then have "?m \<le> sr_score r" "sr_score r \<in> range (\<lambda>ch. score s ch (trim query))" "sr_start_line r = Suc (fst w)" "sr_end_line r = snd w"
    by (auto simp: chunk_result_def Let_def split: if_splits)
  then show "0 \<le> sr_score r" "sr_score r \<le> 1" "?m \<le> sr_score r" using score_range by auto
  show "\<exists>f content. f \<in> set (collect_memory_files W ws c) \<and> wf_text W f = Some content
       \<and> sr_start_line r \<le> sr_end_line r \<and> sr_end_line r \<le> length (str_lines content)"
    using f(1) cw(1, 2) chunk_windows_bounds [of "fst w" "snd w" "length (str_lines content)" 0]
      \<open>sr_start_line r = Suc (fst w)\<close> \<open>sr_end_line r = snd w\<close> by (intro exI [of _ f] exI [of _ content]) auto
qed

end

text \<open>
  A search of the workspace memory with the built-in searcher returns at most the requested number of
  results, the best first; every result is a window of lines of a memory file, and its score is at
  least the threshold and at most one.
\<close>

theorem memory_search_results:
  assumes "search_workspace_memory (\<lambda>_::unit. builtin_score lower) () W ws query c n x cite = Inr rs"
  shows "length rs \<le> max 1 (min 50 (case n of Some k \<Rightarrow> k | None \<Rightarrow> mc_max_results c))
    \<and> sorted (map (\<lambda>r. - sr_score r) rs)
    \<and> (\<forall>r \<in> set rs. max 0 (min 1 (case x of Some y \<Rightarrow> y | None \<Rightarrow> mc_min_score c)) \<le> sr_score r \<and> sr_score r \<le> 1
          \<and> (\<exists>f content. memory_file W ws f \<and> wf_text W f = Some content
               \<and> sr_start_line r \<le> sr_end_line r \<and> sr_end_line r \<le> length (str_lines content)))"
proof (intro conjI ballI)
  fix r assume r: "r \<in> set rs"
  note s = builtin.search_result_sound [OF assms r]
  show "sr_score r \<le> 1" "max 0 (min 1 (case x of Some y \<Rightarrow> y | None \<Rightarrow> mc_min_score c)) \<le> sr_score r" by (fact s(2), fact s(3))
  show "\<exists>f content. memory_file W ws f \<and> wf_text W f = Some content
      \<and> sr_start_line r \<le> sr_end_line r \<and> sr_end_line r \<le> length (str_lines content)" using s(4) collected_valid by blast
qed (use assms in \<open>auto simp: search_workspace_memory_def Let_def take_map [symmetric] sorted_wrt_take split: if_splits\<close>)

text \<open>
  The windows of a search leave no line out: every line lies in a window, and a window has at most
  eighteen lines.
\<close>

theorem search_windows_cover:
  "(\<forall>i < n. \<exists>(a, b) \<in> set (chunk_windows n 0). a \<le> i \<and> i < b)
   \<and> (\<forall>(a, b) \<in> set (chunk_windows n 0). a < b \<and> b \<le> n \<and> b - a \<le> 18)"
  using chunk_windows_cover [of 0 _ n] chunk_windows_bounds [of _ _ n 0] by (fastforce simp: chunk_lines_def)

section \<open>Reading page by page\<close>

lemma read_lines_progress:
  assumes "rr_truncated (read_lines path ls (Some start) k)"
  shows "start \<le> rr_end_line (read_lines path ls (Some start) k) \<and> rr_end_line (read_lines path ls (Some start) k) < length ls"
proof -
  define n where "n = max 1 (min max_get_lines (case k of Some n \<Rightarrow> n | None \<Rightarrow> default_get_lines))"
  have "1 \<le> n" by (simp add: n_def)
  then show ?thesis
    using assms unfolding read_lines_def n_def [symmetric] by (auto simp: Let_def split: if_splits)
qed

text \<open>A reader that asks for the lines after the last page until a page says it is the last.\<close>

function read_pages :: "string \<Rightarrow> string list \<Rightarrow> nat option \<Rightarrow> nat \<Rightarrow> string list" where
  "read_pages path ls k start =
     (let r = read_lines path ls (Some start) k
      in rr_text r # (if rr_truncated r then read_pages path ls k (Suc (rr_end_line r)) else []))"
  by pat_completeness auto

termination
  by (relation "measure (\<lambda>(path, ls, k, start). Suc (length ls) - start)")
    (auto dest: read_lines_progress)

declare read_pages.simps [simp del]

lemma join_pages: "xs \<noteq> [] \<Longrightarrow> join sep (x # xs) = x @ sep @ join sep xs"
  by (cases xs) auto

lemma join_append: "xs \<noteq> [] \<Longrightarrow> ys \<noteq> [] \<Longrightarrow> join sep (xs @ ys) = join sep xs @ sep @ join sep ys"
proof (induction xs)
  case (Cons x xs)
  then show ?case by (cases "xs = []") (simp_all add: join_pages)
qed simp

lemma read_pages_not_empty [simp]: "read_pages path ls k start \<noteq> []"
  by (simp add: read_pages.simps [of path ls k start] Let_def)

lemma read_pages_rest:
  "1 \<le> start \<Longrightarrow> start \<le> length ls \<Longrightarrow> join [CHR 0x0A] (read_pages path ls k start) = join [CHR 0x0A] (drop (start - 1) ls)"
proof (induction path ls k start rule: read_pages.induct)
  case (1 path ls k start)
  define n where "n = max 1 (min max_get_lines (case k of Some n \<Rightarrow> n | None \<Rightarrow> default_get_lines))"
  define r where "r = read_lines path ls (Some start) k"
  define stop where "stop = min (start - 1 + n) (length ls)"
  have r: "rr_text r = slice_lines (start - 1) stop ls" "rr_end_line r = stop" "rr_truncated r = (stop < length ls)"
    using 1(2, 3) by (auto simp: r_def read_lines_def Let_def stop_def n_def max_def)
  have lt: "start - 1 < stop" using 1(2, 3) by (auto simp: stop_def n_def)
  show ?case
  proof (cases "stop < length ls")
    case False
    then show ?thesis
      using r by (subst read_pages.simps [of path ls k start]) (simp add: Let_def r_def [symmetric] slice_lines_def stop_def)
  next
    case True
    have ih: "join [CHR 0x0A] (read_pages path ls k (Suc stop)) = join [CHR 0x0A] (drop stop ls)"
      using "1.IH" [OF refl] True r by (simp add: r_def)
    have "drop (start - 1) ls = take (stop - (start - 1)) (drop (start - 1) ls) @ drop stop ls"
      using lt by (metis append_take_drop_id drop_drop le_add_diff_inverse2 less_imp_le_nat)
    moreover have "take (stop - (start - 1)) (drop (start - 1) ls) \<noteq> []" "drop stop ls \<noteq> []" using lt True by auto
    ultimately have "join [CHR 0x0A] (drop (start - 1) ls) = slice_lines (start - 1) stop ls @ [CHR 0x0A] @ join [CHR 0x0A] (drop stop ls)"
      by (metis join_append slice_lines_def)
    then show ?thesis
      using True r ih by (subst read_pages.simps [of path ls k start]) (simp add: Let_def r_def [symmetric] join_pages)
  qed
qed

text \<open>
  Reading page by page loses nothing: the pages from the first line on, whatever their size, join to the
  lines of the file.
\<close>

theorem pages_restore_file:
  assumes "ls \<noteq> []"
  shows "join [CHR 0x0A] (read_pages path ls k 1) = join [CHR 0x0A] ls"
proof -
  have "1 \<le> length ls" using assms by (simp add: Suc_le_eq)
  then show ?thesis using read_pages_rest [of 1 ls path k] by simp
qed

theorem pages_restore_file_witness:
  "join [CHR 0x0A] (read_pages ''f'' [''a'', ''b'', ''c''] (Some 2) 1) = ''a'' @ [CHR 0x0A] @ ''b'' @ [CHR 0x0A] @ ''c''"
  using pages_restore_file [of "[''a'', ''b'', ''c'']" "''f''" "Some 2"] by simp

theorem memory_search_results_witness:
  "\<exists>rs. search_workspace_memory (\<lambda>_::unit. builtin_score id) () sample_files ''/ws'' ''one'' sample_memory_config None None True = Inr rs
     \<and> length rs \<le> 5"
proof -
  obtain rs where rs: "search_workspace_memory (\<lambda>_::unit. builtin_score id) () sample_files ''/ws'' ''one'' sample_memory_config None None True = Inr rs"
    by (simp add: search_workspace_memory_def Let_def trim_def trim_end_def ws_encodings_def)
  from memory_search_results [OF this] rs show ?thesis by (simp add: sample_memory_config_def)
qed

end
