(* ===== verification/Cron.thy ===== *)
theory Cron
  imports Number_Text Errors Bus
begin

text \<open>
  The scheduler of background turns (\<open>src/src/cron/mod.rs\<close>) and the tool that adds and removes its jobs
  (\<open>src/src/tools/cron.rs\<close>).

  Times are milliseconds as \<open>i64\<close>, whose sums wrap. The calendar (the crate chrono) is an argument: the fields of
  a point in time. The file of jobs holds a store as serde reads it back, or text that does not
  parse; whether writing succeeds and how each dispatch ends are arguments of the operations. The
  messages that reached the bus are kept in order. A tick is one step: what the tool changes in the store while
  a tick waits for its dispatches is left out.
\<close>

section \<open>Jobs\<close>

datatype cron_schedule = At int | Every int | Cron_Expr string

record cron_payload =
  cp_message :: string
  cp_channel :: string
  cp_chat_id :: string

record cron_job_state =
  js_next_run_at_ms :: "int option"
  js_last_run_at_ms :: "int option"
  js_last_status :: "string option"
  js_last_error :: "string option"
  js_consecutive_errors :: nat
  js_last_duration_ms :: "int option"

definition job_state_default :: cron_job_state where
  "job_state_default =
     \<lparr>js_next_run_at_ms = None, js_last_run_at_ms = None, js_last_status = None, js_last_error = None,
      js_consecutive_errors = 0, js_last_duration_ms = None\<rparr>"

record cron_job =
  job_id :: string
  job_name :: string
  job_enabled :: bool
  job_schedule :: cron_schedule
  job_payload :: cron_payload
  job_state :: cron_job_state
  job_created_at_ms :: int
  job_updated_at_ms :: int
  job_delete_after_run :: bool
  job_timeout_secs :: "nat option"

definition default_dispatch_timeout_ms :: nat where
  "default_dispatch_timeout_ms = 5000"

definition dedup_window_ms :: int where
  "dedup_window_ms = 60000"

definition error_backoff_schedule_ms :: "int list" where
  "error_backoff_schedule_ms = [30000, 60000, 5 * 60000, 15 * 60000, 60 * 60000]"

definition dispatch_timeout_ms :: "nat option \<Rightarrow> nat" where
  "dispatch_timeout_ms secs = (case secs of Some n \<Rightarrow> sat64 (n * 1000) | None \<Rightarrow> default_dispatch_timeout_ms)"

definition should_skip_missed_dispatch :: "cron_job \<Rightarrow> int \<Rightarrow> bool" where
  "should_skip_missed_dispatch job next_run_at_ms =
     (case js_last_run_at_ms (job_state job) of
        None \<Rightarrow> False
      | Some last_run_at_ms \<Rightarrow>
          if js_last_status (job_state job) \<noteq> Some ''ok'' then False
          else let delta_ms = last_run_at_ms - next_run_at_ms in 0 \<le> delta_ms \<and> delta_ms < dedup_window_ms)"

definition error_backoff_ms :: "nat \<Rightarrow> int" where
  "error_backoff_ms consecutive_errors =
     (if consecutive_errors = 0 then 0
      else error_backoff_schedule_ms ! min (consecutive_errors - 1) (length error_backoff_schedule_ms - 1))"

section \<open>The next run\<close>

fun step_from :: "nat \<Rightarrow> nat \<Rightarrow> nat \<Rightarrow> nat list" where
  "step_from lo hi step = filter (\<lambda>v. (v - lo) mod step = 0) [lo..<Suc hi]"

definition parse_cron_field :: "string \<Rightarrow> nat \<Rightarrow> nat \<Rightarrow> nat list option" where
  "parse_cron_field field lo hi =
     (if field = ''*'' then Some [lo..<Suc hi]
      else if prefix ''*/'' field
      then (case parse_u32 (drop 2 field) of
              None \<Rightarrow> None
            | Some step \<Rightarrow> if step = 0 then None else Some (step_from lo hi step))
      else those (map (\<lambda>part. case parse_u32 part of
                                 None \<Rightarrow> None
                               | Some v \<Rightarrow> if lo \<le> v \<and> v \<le> hi then Some v else None) (split_on (CHR '','') field)))"

record civil_time =
  ct_minute :: nat
  ct_hour :: nat
  ct_day :: nat
  ct_month :: nat
  ct_weekday :: nat

record calendar =
  cal_fields :: "int \<Rightarrow> civil_time"
  cal_in_range :: "int \<Rightarrow> bool"

record cron_fields =
  cf_minutes :: "nat list"
  cf_hours :: "nat list"
  cf_dom :: "nat list"
  cf_month :: "nat list"
  cf_dow :: "nat list"

definition parse_cron_expr :: "string \<Rightarrow> cron_fields option" where
  "parse_cron_expr expr =
     (case split_whitespace expr of
        [f0, f1, f2, f3, f4] \<Rightarrow>
          (case (parse_cron_field f0 0 59, parse_cron_field f1 0 23, parse_cron_field f2 1 31, parse_cron_field f3 1 12,
                 parse_cron_field f4 0 6) of
             (Some minutes, Some hours, Some dom_, Some month, Some dow) \<Rightarrow>
               Some \<lparr>cf_minutes = minutes, cf_hours = hours, cf_dom = dom_, cf_month = month, cf_dow = dow\<rparr>
           | _ \<Rightarrow> None)
      | _ \<Rightarrow> None)"

definition matches_time :: "cron_fields \<Rightarrow> civil_time \<Rightarrow> bool" where
  "matches_time f t \<longleftrightarrow>
     ct_minute t \<in> set (cf_minutes f) \<and> ct_hour t \<in> set (cf_hours f) \<and> ct_day t \<in> set (cf_dom f)
     \<and> ct_month t \<in> set (cf_month f) \<and> ct_weekday t \<in> set (cf_dow f)"

text \<open>The minutes that are tried, both ends of 366 days included.\<close>

definition minutes_ahead :: nat where
  "minutes_ahead = 366 * 24 * 60 + 1"

fun scan_minutes :: "calendar \<Rightarrow> cron_fields \<Rightarrow> nat \<Rightarrow> int \<Rightarrow> int option" where
  "scan_minutes cal f 0 candidate = None"
| "scan_minutes cal f (Suc n) candidate =
     (if matches_time f (cal_fields cal candidate) then Some candidate else scan_minutes cal f n (candidate + 60000))"

definition next_minute :: "int \<Rightarrow> int" where
  "next_minute now = now - now mod 60000 + 60000"

definition next_run_from_cron_expr :: "calendar \<Rightarrow> string \<Rightarrow> int \<Rightarrow> int option" where
  "next_run_from_cron_expr cal expr now =
     (case parse_cron_expr expr of
        None \<Rightarrow> None
      | Some f \<Rightarrow> if \<not> cal_in_range cal now then None else scan_minutes cal f minutes_ahead (next_minute now))"

definition is_valid_cron_expr :: "calendar \<Rightarrow> int \<Rightarrow> string \<Rightarrow> bool" where
  "is_valid_cron_expr cal now expr = (next_run_from_cron_expr cal expr now \<noteq> None)"

fun next_run_at :: "calendar \<Rightarrow> cron_schedule \<Rightarrow> int \<Rightarrow> int option" where
  "next_run_at cal (At at_ms) now = (if now < at_ms then Some at_ms else None)"
| "next_run_at cal (Every every_ms) now = (if 0 < every_ms then Some (wrap_i64 (now + every_ms)) else None)"
| "next_run_at cal (Cron_Expr expr) now = next_run_from_cron_expr cal expr now"

section \<open>The service\<close>

datatype on_miss = Skip | RunOnce

record cron_store =
  cs_version :: nat
  cs_jobs :: "cron_job list"

definition cron_store_default :: cron_store where
  "cron_store_default = \<lparr>cs_version = 1, cs_jobs = []\<rparr>"

datatype cron_file = Cron_Jobs cron_store | Cron_Garbage

record cron_service =
  sv_store :: cron_store
  sv_file :: "cron_file option"
  sv_running :: bool
  sv_sent :: "inbound_message list"

definition save_store :: "write_outcome \<Rightarrow> cron_service \<Rightarrow> unit zresult \<times> cron_service" where
  "save_store d s =
     (case d of
        Write_Ok \<Rightarrow> (Inr (), s\<lparr>sv_file := Some (Cron_Jobs (sv_store s))\<rparr>)
      | Write_Refused \<Rightarrow> (Inl (Io ''write''), s)
      | Write_Cut_Short \<Rightarrow> (Inl (Io ''write''), s\<lparr>sv_file := Some Cron_Garbage\<rparr>))"

definition load_store :: "bool \<Rightarrow> cron_service \<Rightarrow> cron_store zresult" where
  "load_store readable s =
     (case sv_file s of
        None \<Rightarrow> Inr cron_store_default
      | Some f \<Rightarrow>
          if \<not> readable then Inl (Io ''read'')
          else (case f of Cron_Garbage \<Rightarrow> Inl (Json ''cron store'') | Cron_Jobs st \<Rightarrow> Inr st))"

definition set_jobs :: "cron_job list \<Rightarrow> cron_service \<Rightarrow> cron_service" where
  "set_jobs js s = s\<lparr>sv_store := (sv_store s)\<lparr>cs_jobs := js\<rparr>\<rparr>"

abbreviation jobs_of :: "cron_service \<Rightarrow> cron_job list" where
  "jobs_of s \<equiv> cs_jobs (sv_store s)"

definition set_next :: "int option \<Rightarrow> cron_job \<Rightarrow> cron_job" where
  "set_next n job = job\<lparr>job_state := (job_state job)\<lparr>js_next_run_at_ms := n\<rparr>\<rparr>"

definition missed :: "int \<Rightarrow> cron_job \<Rightarrow> bool" where
  "missed now job = (job_enabled job \<and> (case js_next_run_at_ms (job_state job) of Some n \<Rightarrow> n \<le> now | None \<Rightarrow> False))"

definition restart_job :: "calendar \<Rightarrow> int \<Rightarrow> cron_job \<Rightarrow> cron_job" where
  "restart_job cal now job =
     (if \<not> job_enabled job then job
      else (case js_next_run_at_ms (job_state job) of
              Some n \<Rightarrow> if n \<le> now then set_next (next_run_at cal (job_schedule job) now) job else job
            | None \<Rightarrow> set_next (next_run_at cal (job_schedule job) now) job))"

definition missed_payloads :: "on_miss \<Rightarrow> int \<Rightarrow> cron_job list \<Rightarrow> cron_payload list" where
  "missed_payloads policy now js =
     (case policy of
        Skip \<Rightarrow> []
      | RunOnce \<Rightarrow> map job_payload (filter (\<lambda>j. missed now j
                     \<and> \<not> should_skip_missed_dispatch j (the (js_next_run_at_ms (job_state j)))) js))"

definition cron_inbound :: "cron_payload \<Rightarrow> inbound_message" where
  "cron_inbound p = inbound_new (cp_channel p) ''cron'' (cp_chat_id p) (cp_message p)"

text \<open>\<open>open_bus\<close> tells whether the bus still takes messages.\<close>

definition start ::
    "calendar \<Rightarrow> bool \<Rightarrow> write_outcome \<Rightarrow> bool \<Rightarrow> int \<Rightarrow> on_miss \<Rightarrow> cron_service \<Rightarrow> unit zresult \<times> cron_service" where
  "start cal readable d open_bus now policy s =
     (if sv_running s then (Inr (), s)
      else let s1 = s\<lparr>sv_running := True\<rparr>
           in (case load_store readable s1 of
                 Inl e \<Rightarrow> (Inl e, s1)
               | Inr st \<Rightarrow>
                   let s2 = s1\<lparr>sv_store := st\<lparr>cs_jobs := map (restart_job cal now) (cs_jobs st)\<rparr>,
                               sv_sent := sv_sent s1 @ (if open_bus then map cron_inbound (missed_payloads policy now (cs_jobs st)) else [])\<rparr>
                   in save_store d s2))"

definition stop :: "cron_service \<Rightarrow> cron_service" where
  "stop s = s\<lparr>sv_running := False\<rparr>"

definition new_job ::
    "calendar \<Rightarrow> int \<Rightarrow> string \<Rightarrow> string \<Rightarrow> cron_schedule \<Rightarrow> cron_payload \<Rightarrow> bool \<Rightarrow> nat option \<Rightarrow> cron_job" where
  "new_job cal now ident name schedule payload delete_after_run timeout =
     \<lparr>job_id = take 8 ident, job_name = name, job_enabled = True, job_schedule = schedule, job_payload = payload,
      job_state = job_state_default\<lparr>js_next_run_at_ms := next_run_at cal schedule now\<rparr>,
      job_created_at_ms = now, job_updated_at_ms = now, job_delete_after_run = delete_after_run, job_timeout_secs = timeout\<rparr>"

definition add_job_with_timeout ::
    "calendar \<Rightarrow> write_outcome \<Rightarrow> int \<Rightarrow> string \<Rightarrow> string \<Rightarrow> cron_schedule \<Rightarrow> cron_payload \<Rightarrow> bool \<Rightarrow> nat option \<Rightarrow> cron_service
       \<Rightarrow> cron_job zresult \<times> cron_service" where
  "add_job_with_timeout cal d now ident name schedule payload delete_after_run timeout s =
     (let job = new_job cal now ident name schedule payload delete_after_run timeout
      in (case save_store d (set_jobs (jobs_of s @ [job]) s) of
            (Inl e, s1) \<Rightarrow> (Inl e, s1)
          | (Inr _, s1) \<Rightarrow> (Inr job, s1)))"

definition i64_max :: int where
  "i64_max = 2 ^ 63 - 1"

definition list_jobs :: "bool \<Rightarrow> cron_service \<Rightarrow> cron_job list" where
  "list_jobs include_disabled s =
     sort_key (\<lambda>job. case js_next_run_at_ms (job_state job) of Some n \<Rightarrow> n | None \<Rightarrow> i64_max)
       (filter (\<lambda>job. include_disabled \<or> job_enabled job) (jobs_of s))"

definition remove_job :: "write_outcome \<Rightarrow> string \<Rightarrow> cron_service \<Rightarrow> bool zresult \<times> cron_service" where
  "remove_job d ident s =
     (let js = filter (\<lambda>job. job_id job \<noteq> ident) (jobs_of s)
      in if length js < length (jobs_of s)
         then (case save_store d (set_jobs js s) of
                 (Inl e, s1) \<Rightarrow> (Inl e, s1)
               | (Inr _, s1) \<Rightarrow> (Inr True, s1))
         else (Inr False, set_jobs js s))"

section \<open>One tick\<close>

datatype dispatch_end = Dispatched | Dispatch_Failed zepto_error | Dispatch_Timed_Out

record dispatch_result =
  dr_id :: string
  dr_end :: dispatch_end
  dr_started_at :: int
  dr_ended_at :: int

definition due_jobs :: "int \<Rightarrow> cron_job list \<Rightarrow> cron_job list" where
  "due_jobs now js = filter (missed now) js"

fun dispatch_error :: "dispatch_end \<Rightarrow> string option" where
  "dispatch_error Dispatched = None"
| "dispatch_error (Dispatch_Failed e) = Some (zepto_error_display e)"
| "dispatch_error Dispatch_Timed_Out = Some ''cron dispatch timed out''"

definition after_run :: "calendar \<Rightarrow> dispatch_result \<Rightarrow> cron_job \<Rightarrow> cron_job" where
  "after_run cal r job =
     (let ok = (dr_end r = Dispatched);
          started_at = dr_started_at r;
          ended_at = dr_ended_at r;
          errors = (if ok then 0 else sat32 (Suc (js_consecutive_errors (job_state job))));
          st = (job_state job)\<lparr>js_last_run_at_ms := Some started_at,
                 js_last_duration_ms := Some (max (wrap_i64 (ended_at - started_at)) 0),
                 js_last_status := Some (if ok then ''ok'' else ''error''),
                 js_last_error := dispatch_error (dr_end r),
                 js_consecutive_errors := errors\<rparr>;
          job1 = job\<lparr>job_state := st, job_updated_at_ms := ended_at\<rparr>
      in (case job_schedule job of
            At _ \<Rightarrow> set_next None (job1\<lparr>job_enabled := False\<rparr>)
          | schedule \<Rightarrow>
              if ok then set_next (next_run_at cal schedule ended_at) job1
              else let backoff_next = wrap_i64 (ended_at + error_backoff_ms errors);
                       base_next = (case next_run_at cal schedule ended_at of Some n \<Rightarrow> n | None \<Rightarrow> backoff_next)
                   in set_next (Some (max base_next backoff_next)) job1))"

fun update_first :: "('a \<Rightarrow> bool) \<Rightarrow> ('a \<Rightarrow> 'a) \<Rightarrow> 'a list \<Rightarrow> 'a list" where
  "update_first P f [] = []"
| "update_first P f (x # xs) = (if P x then f x # xs else x # update_first P f xs)"

definition apply_result :: "calendar \<Rightarrow> dispatch_result \<Rightarrow> cron_job list \<Rightarrow> cron_job list" where
  "apply_result cal r js = update_first (\<lambda>j. job_id j = dr_id r) (after_run cal r) js"

definition finished_once :: "cron_job \<Rightarrow> bool" where
  "finished_once job =
     ((case job_schedule job of At _ \<Rightarrow> True | _ \<Rightarrow> False) \<and> job_delete_after_run job \<and> \<not> job_enabled job
      \<and> js_last_status (job_state job) = Some ''ok'')"

text \<open>The ends and times of the dispatches, one for each due job.\<close>

type_synonym dispatch_times = "(dispatch_end \<times> int \<times> int) list"

definition dispatch_results :: "cron_job list \<Rightarrow> dispatch_times \<Rightarrow> dispatch_result list" where
  "dispatch_results due ends =
     map (\<lambda>(job, e, t0, t1). \<lparr>dr_id = job_id job, dr_end = e, dr_started_at = t0, dr_ended_at = t1\<rparr>) (zip due ends)"

definition dispatched_messages :: "cron_job list \<Rightarrow> dispatch_times \<Rightarrow> inbound_message list" where
  "dispatched_messages due ends = map (\<lambda>(job, _). cron_inbound (job_payload job)) (filter (\<lambda>(job, e, _). e = Dispatched) (zip due ends))"

definition tick :: "calendar \<Rightarrow> write_outcome \<Rightarrow> int \<Rightarrow> dispatch_times \<Rightarrow> cron_service \<Rightarrow> unit zresult \<times> cron_service" where
  "tick cal d now ends s =
     (let due = due_jobs now (jobs_of s)
      in if due = [] then (Inr (), s)
         else let js = filter (\<lambda>j. \<not> finished_once j) (fold (apply_result cal) (dispatch_results due ends) (jobs_of s))
              in save_store d ((set_jobs js s)\<lparr>sv_sent := sv_sent s @ dispatched_messages due ends\<rparr>))"

section \<open>The tool\<close>

record cron_args =
  ca_action :: "string option"
  ca_message :: "string option"
  ca_name :: "string option"
  ca_every_seconds :: "int option"
  ca_cron_expr :: "string option"
  ca_at :: "string option"
  ca_channel :: "string option"
  ca_chat_id :: "string option"
  ca_include_disabled :: "bool option"
  ca_job_id :: "string option"

definition default_job_name :: "string \<Rightarrow> string" where
  "default_job_name msg =
     (if 30 < length (str_chars msg) then concat (take 30 (str_chars msg)) @ ''...'' else msg)"

definition schedule_count :: "cron_args \<Rightarrow> nat" where
  "schedule_count a =
     (if ca_every_seconds a \<noteq> None then 1 else 0) + (if ca_cron_expr a \<noteq> None then 1 else 0) + (if ca_at a \<noteq> None then 1 else 0)"

text \<open>\<open>parse_at\<close> is the reading of a date by chrono.\<close>

definition parse_at_datetime_ms :: "(string \<Rightarrow> int option) \<Rightarrow> string \<Rightarrow> int zresult" where
  "parse_at_datetime_ms parse_at input =
     (case parse_at input of
        Some ms \<Rightarrow> Inr ms
      | None \<Rightarrow> Inl (Tool (''Invalid '' @ quoted ''at'' @ '' datetime '' @ quoted input
                  @ ''. Use RFC3339 or YYYY-MM-DDTHH:MM:SS'')))"

definition tool_schedule :: "calendar \<Rightarrow> (string \<Rightarrow> int option) \<Rightarrow> int \<Rightarrow> cron_args \<Rightarrow> (cron_schedule \<times> bool) zresult" where
  "tool_schedule cal parse_at now a =
     (if schedule_count a \<noteq> 1 then Inl (Tool ''Specify exactly one of: every_seconds, cron_expr, at'')
      else (case ca_every_seconds a of
              Some seconds \<Rightarrow>
                if seconds < 60 then Inl (Tool ''Minimum interval is 60 seconds'')
                else Inr (Every (wrap_i64 (seconds * 1000)), False)
            | None \<Rightarrow>
                (case ca_cron_expr a of
                   Some expr \<Rightarrow>
                     if is_valid_cron_expr cal now expr then Inr (Cron_Expr expr, False)
                     else Inl (Tool (''Invalid or non-runnable cron expression '' @ quoted expr))
                 | None \<Rightarrow> map_sum id (\<lambda>ms. (At ms, True)) (parse_at_datetime_ms parse_at (the (ca_at a))))))"

definition execute_add ::
    "calendar \<Rightarrow> (string \<Rightarrow> int option) \<Rightarrow> write_outcome \<Rightarrow> int \<Rightarrow> string \<Rightarrow> string option \<Rightarrow> string option \<Rightarrow> cron_args \<Rightarrow> cron_service
       \<Rightarrow> string zresult \<times> cron_service" where
  "execute_add cal parse_at d now ident ctx_channel ctx_chat a s =
     (if 50 \<le> length (list_jobs False s)
      then (Inl (Tool ''Maximum of 50 active cron jobs reached. Remove some before adding new ones.''), s)
      else
     (case ca_message a of
        None \<Rightarrow> (Inl (Tool (''Missing '' @ quoted ''message'' @ '' for cron add'')), s)
      | Some msg \<Rightarrow>
     (case tool_schedule cal parse_at now a of
        Inl e \<Rightarrow> (Inl e, s)
      | Inr (schedule, delete_after_run) \<Rightarrow>
     (case (if ca_channel a = None then ctx_channel else ca_channel a) of
        None \<Rightarrow> (Inl (Tool ''No channel available in tool context''), s)
      | Some channel \<Rightarrow>
     (case (if ca_chat_id a = None then ctx_chat else ca_chat_id a) of
        None \<Rightarrow> (Inl (Tool ''No chat_id available in tool context''), s)
      | Some chat_id \<Rightarrow>
          (case add_job_with_timeout cal d now ident (case ca_name a of Some n \<Rightarrow> n | None \<Rightarrow> default_job_name msg) schedule
                  \<lparr>cp_message = msg, cp_channel = channel, cp_chat_id = chat_id\<rparr> delete_after_run None s of
             (Inl e, s1) \<Rightarrow> (Inl e, s1)
           | (Inr job, s1) \<Rightarrow> (Inr (''Created cron job '' @ quoted (job_name job) @ '' (id: '' @ job_id job @ '')''), s1)))))))"

definition show_int :: "int \<Rightarrow> string" where
  "show_int x = (if x < 0 then ''-'' @ show_nat (nat (- x)) else show_nat (nat x))"

fun show_schedule :: "cron_schedule \<Rightarrow> string" where
  "show_schedule (At at_ms) = ''at('' @ show_int at_ms @ '')''"
| "show_schedule (Every every_ms) = ''every('' @ show_int every_ms @ ''ms)''"
| "show_schedule (Cron_Expr expr) = ''cron('' @ expr @ '')''"

definition execute_list :: "cron_args \<Rightarrow> cron_service \<Rightarrow> string" where
  "execute_list a s =
     (let jobs = list_jobs (case ca_include_disabled a of Some b \<Rightarrow> b | None \<Rightarrow> False) s
      in if jobs = [] then ''No scheduled jobs''
         else ''Scheduled jobs:'' @ [CHR 0x0A]
           @ join [CHR 0x0A] (map (\<lambda>job. ''- '' @ job_name job @ '' ['' @ job_id job @ ''] '' @ show_schedule (job_schedule job)
                @ '' -> '' @ cp_channel (job_payload job) @ '':'' @ cp_chat_id (job_payload job)) jobs))"

definition execute_remove :: "write_outcome \<Rightarrow> cron_args \<Rightarrow> cron_service \<Rightarrow> string zresult \<times> cron_service" where
  "execute_remove d a s =
     (case ca_job_id a of
        None \<Rightarrow> (Inl (Tool (''Missing '' @ quoted ''job_id'' @ '' for cron remove'')), s)
      | Some ident \<Rightarrow>
          (case remove_job d ident s of
             (Inl e, s1) \<Rightarrow> (Inl e, s1)
           | (Inr True, s1) \<Rightarrow> (Inr (''Removed cron job '' @ ident), s1)
           | (Inr False, s1) \<Rightarrow> (Inr (''Cron job '' @ ident @ '' not found''), s1)))"

definition cron_tool ::
    "calendar \<Rightarrow> (string \<Rightarrow> int option) \<Rightarrow> write_outcome \<Rightarrow> int \<Rightarrow> string \<Rightarrow> string option \<Rightarrow> string option \<Rightarrow> cron_args \<Rightarrow> cron_service
       \<Rightarrow> string zresult \<times> cron_service" where
  "cron_tool cal parse_at d now ident ctx_channel ctx_chat a s =
     (case ca_action a of
        None \<Rightarrow> (Inl (Tool (''Missing '' @ quoted ''action'' @ '' argument'')), s)
      | Some action \<Rightarrow>
          if action = ''add'' then execute_add cal parse_at d now ident ctx_channel ctx_chat a s
          else if action = ''list'' then (Inr (execute_list a s), s)
          else if action = ''remove'' then execute_remove d a s
          else (Inl (Tool (''Unknown cron action '' @ quoted action)), s))"

section \<open>When a job runs next\<close>

lemma scan_minutes_Some:
  "scan_minutes cal f n c = Some t \<longleftrightarrow>
     (\<exists>k < n. t = c + 60000 * int k \<and> matches_time f (cal_fields cal t)
        \<and> (\<forall>j < k. \<not> matches_time f (cal_fields cal (c + 60000 * int j))))"
proof (induction n arbitrary: c)
  case (Suc n)
  show ?case
  proof (cases "matches_time f (cal_fields cal c)")
    case True
    then show ?thesis by (auto simp: Ex_less_Suc2 All_less_Suc2)
  next
    case False
    then have "scan_minutes cal f (Suc n) c = Some t \<longleftrightarrow>
        (\<exists>k < n. t = c + 60000 * int (Suc k) \<and> matches_time f (cal_fields cal t)
          \<and> (\<forall>j < k. \<not> matches_time f (cal_fields cal (c + 60000 * int (Suc j)))))"
      by (simp add: Suc.IH algebra_simps)
    also have "\<dots> \<longleftrightarrow> (\<exists>k < Suc n. t = c + 60000 * int k \<and> matches_time f (cal_fields cal t)
          \<and> (\<forall>j < k. \<not> matches_time f (cal_fields cal (c + 60000 * int j))))"
      using False by (auto simp: Ex_less_Suc2 All_less_Suc2)
    finally show ?thesis .
  qed
qed simp

lemma scan_minutes_None:
  "scan_minutes cal f n c = None \<longleftrightarrow> (\<forall>k < n. \<not> matches_time f (cal_fields cal (c + 60000 * int k)))"
  by (induction n arbitrary: c) (auto simp: All_less_Suc2 algebra_simps)

lemma next_minute_later: "now < next_minute now" "next_minute now mod 60000 = 0" "next_minute now \<le> now + 60000"
  by (simp_all add: next_minute_def minus_mod_eq_mult_div mod_add_eq)

lemma aligned_after:
  assumes "now < u" "u mod 60000 = 0"
  obtains k where "u = next_minute now + 60000 * int k"
proof -
  have d: "next_minute now = 60000 * (now div 60000) + 60000" by (simp add: next_minute_def minus_mod_eq_mult_div)
  obtain q where q: "u = 60000 * q" using assms(2) by (auto elim!: dvdE simp: mod_eq_0_iff_dvd)
  have "now = 60000 * (now div 60000) + now mod 60000" "0 \<le> now mod 60000" by simp_all
  then have "now div 60000 < q" using assms(1) q by linarith
  then show ?thesis using q d by (intro that [of "nat (q - now div 60000 - 1)"]) (simp add: algebra_simps)
qed

text \<open>
  C32. The next run of a cron expression is exact: it is the first whole minute after now whose fields match,
  and there is none exactly when no minute of the next 366 days matches.
\<close>

theorem cron_next_exact:
  assumes "parse_cron_expr expr = Some f" "cal_in_range cal now"
  shows "next_run_from_cron_expr cal expr now = Some t \<longleftrightarrow>
      now < t \<and> t mod 60000 = 0 \<and> t \<le> next_minute now + 366 * 24 * 60 * 60000 \<and> matches_time f (cal_fields cal t)
      \<and> (\<forall>u. now < u \<and> u < t \<and> u mod 60000 = 0 \<longrightarrow> \<not> matches_time f (cal_fields cal u))"
  (is "?run \<longleftrightarrow> ?first")
proof
  assume ?run
  then obtain k where k: "k < minutes_ahead" "t = next_minute now + 60000 * int k" "matches_time f (cal_fields cal t)"
      "\<forall>j < k. \<not> matches_time f (cal_fields cal (next_minute now + 60000 * int j))"
    using assms by (auto simp: next_run_from_cron_expr_def scan_minutes_Some)
  have "\<not> matches_time f (cal_fields cal u)" if u: "now < u" "u < t" "u mod 60000 = 0" for u
  proof -
    obtain j where "u = next_minute now + 60000 * int j" using aligned_after [OF u(1, 3)] .
    then show ?thesis using k(2, 4) u(2) by auto
  qed
  then show ?first using k next_minute_later [of now] by (auto simp: minutes_ahead_def mod_add_eq)
next
  assume f: ?first
  obtain k where k: "t = next_minute now + 60000 * int k" by (rule aligned_after [of now t]) (use f in auto)
  have "\<not> matches_time f (cal_fields cal (next_minute now + 60000 * int j))" if "j < k" for j
    using f k that next_minute_later [of now] by (auto simp: mod_add_eq)
  moreover have "k < minutes_ahead" using f k by (auto simp: minutes_ahead_def)
  ultimately show ?run using assms f k by (auto simp: next_run_from_cron_expr_def scan_minutes_Some)
qed

definition sample_calendar :: calendar where
  "sample_calendar =
     \<lparr>cal_fields = (\<lambda>t. \<lparr>ct_minute = nat (t div 60000 mod 60), ct_hour = nat (t div 3600000 mod 24),
        ct_day = nat (t div 86400000 mod 31) + 1, ct_month = 1, ct_weekday = nat ((t div 86400000 + 4) mod 7)\<rparr>),
      cal_in_range = (\<lambda>_. True)\<rparr>"

theorem cron_next_exact_witness:
  "next_run_from_cron_expr sample_calendar ''5 0 1 1 4'' 61000 = Some 300000"
proof -
  let ?f = "\<lparr>cf_minutes = [5], cf_hours = [0], cf_dom = [1], cf_month = [1], cf_dow = [4]\<rparr>"
  have w: "split_whitespace ''5 0 1 1 4'' = [''5'', ''0'', ''1'', ''1'', ''4'']"
    by (simp add: split_whitespace_def ws_encodings_def)
  have f: "parse_cron_field ''5'' 0 59 = Some [5]" "parse_cron_field ''0'' 0 23 = Some [0]" "parse_cron_field ''1'' 1 31 = Some [1]"
    "parse_cron_field ''1'' 1 12 = Some [1]" "parse_cron_field ''4'' 0 6 = Some [4]" by code_simp+
  have p: "parse_cron_expr ''5 0 1 1 4'' = Some ?f" by (simp add: parse_cron_expr_def w f f [unfolded One_nat_def])
  have "\<not> matches_time ?f (cal_fields sample_calendar u)" if "61000 < u \<and> u < 300000 \<and> u mod 60000 = 0" for u :: int
  proof -
    define q where "q = u div 60000"
    have "u = 60000 * q" using that minus_mod_eq_mult_div [of u 60000] by (simp add: q_def)
    with that have "q = 2 \<or> q = 3 \<or> q = 4" by linarith
    with \<open>u = 60000 * q\<close> show ?thesis by (auto simp: matches_time_def sample_calendar_def)
  qed
  then show ?thesis
    by (subst cron_next_exact [OF p]) (auto simp: sample_calendar_def next_minute_def matches_time_def)
qed

section \<open>The order of runs\<close>

text \<open>Times before the year 146138512, and intervals that do not overflow with them.\<close>

definition timely :: "int \<Rightarrow> bool" where
  "timely now \<longleftrightarrow> 0 \<le> now \<and> now < 2 ^ 62"

definition calm :: "cron_schedule \<Rightarrow> bool" where
  "calm sched = (case sched of Every e \<Rightarrow> e < 2 ^ 62 | _ \<Rightarrow> True)"

lemma next_run_later:
  assumes "calm sched" "timely now" "next_run_at cal sched now = Some n"
  shows "now < n"
proof (cases sched)
  case (Every e)
  then show ?thesis using assms by (auto simp: calm_def timely_def wrap_i64_id split: if_splits)
next
  case (Cron_Expr expr)
  then show ?thesis
    using assms next_minute_later(1) [of now]
    by (auto simp: next_run_from_cron_expr_def scan_minutes_Some split: option.splits if_splits)
qed (use assms in \<open>auto split: if_splits\<close>)

definition cron_run_order :: "int \<Rightarrow> cron_job \<Rightarrow> bool" where
  "cron_run_order now job \<longleftrightarrow> calm (job_schedule job)
     \<and> (\<forall>l. js_last_run_at_ms (job_state job) = Some l \<longrightarrow>
          l \<le> now \<and> (\<forall>n. js_next_run_at_ms (job_state job) = Some n \<longrightarrow> l < n))"

lemma set_next_simps [simp]:
  "job_schedule (set_next n job) = job_schedule job" "job_id (set_next n job) = job_id job" "job_enabled (set_next n job) = job_enabled job"
  "js_last_run_at_ms (job_state (set_next n job)) = js_last_run_at_ms (job_state job)"
  "js_last_status (job_state (set_next n job)) = js_last_status (job_state job)"
  "js_next_run_at_ms (job_state (set_next n job)) = n" "job_delete_after_run (set_next n job) = job_delete_after_run job"
  by (simp_all add: set_next_def)

lemma run_order_restart:
  assumes "cron_run_order now job" "timely now"
  shows "cron_run_order now (restart_job cal now job)"
  using assms next_run_later [of "job_schedule job" now cal]
  by (auto simp: cron_run_order_def restart_job_def split: option.split)

lemma error_backoff_pos: "0 < n \<Longrightarrow> 0 < error_backoff_ms n \<and> error_backoff_ms n \<le> 3600000"
proof -
  assume "0 < n"
  moreover have "min (n - 1) 4 \<in> {0, 1, 2, 3, 4}" by auto
  ultimately show ?thesis by (auto simp: error_backoff_ms_def error_backoff_schedule_ms_def)
qed

lemma after_run_schedule [simp]: "job_schedule (after_run cal r job) = job_schedule job" "job_id (after_run cal r job) = job_id job"
  by (simp_all add: after_run_def Let_def split: cron_schedule.split)

lemma after_run_last [simp]: "js_last_run_at_ms (job_state (after_run cal r job)) = Some (dr_started_at r)"
  by (simp add: after_run_def Let_def split: cron_schedule.split)

lemma after_run_next:
  assumes "calm (job_schedule job)" "timely (dr_ended_at r)" "js_next_run_at_ms (job_state (after_run cal r job)) = Some n"
  shows "dr_ended_at r < n"
proof -
  define errors where "errors = sat32 (Suc (js_consecutive_errors (job_state job)))"
  have "0 < errors" by (simp add: errors_def sat32_def u32_max_def)
  then have b: "dr_ended_at r < wrap_i64 (dr_ended_at r + error_backoff_ms errors)"
    using assms(2) error_backoff_pos [of errors] by (simp add: timely_def wrap_i64_id)
  have "js_next_run_at_ms (job_state (after_run cal r job)) =
      (case job_schedule job of
         At _ \<Rightarrow> None
       | sched \<Rightarrow> if dr_end r = Dispatched then next_run_at cal sched (dr_ended_at r)
           else Some (max (case next_run_at cal sched (dr_ended_at r) of Some n \<Rightarrow> n
                            | None \<Rightarrow> wrap_i64 (dr_ended_at r + error_backoff_ms errors))
                      (wrap_i64 (dr_ended_at r + error_backoff_ms errors))))"
    by (cases "job_schedule job") (simp_all add: after_run_def Let_def errors_def split: option.split)
  with assms(3) show ?thesis
    using next_run_later [OF assms(1, 2), of cal n] b
    by (cases "job_schedule job") (auto simp del: next_run_at.simps split: if_splits)
qed

lemma run_order_after:
  assumes "cron_run_order now job" "dr_started_at r \<le> dr_ended_at r" "dr_ended_at r \<le> now'" "timely (dr_ended_at r)"
  shows "cron_run_order now' (after_run cal r job)"
  using assms after_run_next [of job r cal] by (auto simp: cron_run_order_def)

text \<open>
  The states the service can be in, with the time: it is started, stopped, asked to add and
  remove jobs, ticks, and may be restarted at any moment with what the file holds. The clock does not run backwards.
\<close>

definition fresh_service :: cron_service where
  "fresh_service = \<lparr>sv_store = cron_store_default, sv_file = None, sv_running = False, sv_sent = []\<rparr>"

inductive cron_reach :: "calendar \<Rightarrow> int \<Rightarrow> cron_service \<Rightarrow> bool" for cal where
  fresh: "timely now \<Longrightarrow> cron_reach cal now fresh_service"
| wait: "cron_reach cal now s \<Longrightarrow> now \<le> now' \<Longrightarrow> timely now' \<Longrightarrow> cron_reach cal now' s"
| start: "cron_reach cal now s \<Longrightarrow> cron_reach cal now (snd (start cal readable d open_bus now policy s))"
| stop: "cron_reach cal now s \<Longrightarrow> cron_reach cal now (stop s)"
| crash: "cron_reach cal now s \<Longrightarrow> cron_reach cal now (s\<lparr>sv_store := cron_store_default, sv_running := False\<rparr>)"
| add: "cron_reach cal now s \<Longrightarrow> calm schedule \<Longrightarrow>
    cron_reach cal now (snd (add_job_with_timeout cal d now ident name schedule payload del timeout s))"
| remove: "cron_reach cal now s \<Longrightarrow> cron_reach cal now (snd (remove_job d ident s))"
| tick: "cron_reach cal now s \<Longrightarrow> \<forall>(e, t0, t1) \<in> set ends. now \<le> t0 \<and> t0 \<le> t1 \<and> t1 \<le> now' \<Longrightarrow> now \<le> now' \<Longrightarrow> timely now' \<Longrightarrow>
    cron_reach cal now' (snd (tick cal d now ends s))"

definition all_ordered :: "int \<Rightarrow> cron_service \<Rightarrow> bool" where
  "all_ordered now s \<longleftrightarrow> (\<forall>j \<in> set (jobs_of s). cron_run_order now j)
     \<and> (\<forall>st. sv_file s = Some (Cron_Jobs st) \<longrightarrow> (\<forall>j \<in> set (cs_jobs st). cron_run_order now j))"

lemma run_order_wait: "cron_run_order now j \<Longrightarrow> now \<le> now' \<Longrightarrow> cron_run_order now' j"
  by (auto simp: cron_run_order_def)

lemma all_ordered_save: "all_ordered now s \<Longrightarrow> all_ordered now (snd (save_store d s))"
  by (auto simp: all_ordered_def save_store_def split: write_outcome.split)

lemma all_ordered_jobs:
  "all_ordered now s \<Longrightarrow> (\<And>j. j \<in> set js \<Longrightarrow> cron_run_order now j) \<Longrightarrow> all_ordered now (set_jobs js s)"
  by (auto simp: all_ordered_def set_jobs_def)

lemma all_ordered_load: "all_ordered now s \<Longrightarrow> load_store readable s = Inr st \<Longrightarrow> j \<in> set (cs_jobs st) \<Longrightarrow> cron_run_order now j"
  by (auto simp: all_ordered_def load_store_def cron_store_default_def split: option.splits if_splits cron_file.splits)

lemma update_first_set: "x \<in> set (update_first P f xs) \<Longrightarrow> x \<in> set xs \<or> x \<in> f ` set xs"
  by (induction xs) (auto split: if_splits)

lemma run_order_results:
  assumes "\<forall>j \<in> set js. cron_run_order now j" "\<forall>r \<in> set rs. dr_started_at r \<le> dr_ended_at r \<and> dr_ended_at r \<le> now \<and> timely (dr_ended_at r)"
  shows "\<forall>j \<in> set (fold (apply_result cal) rs js). cron_run_order now j"
  using assms
proof (induction rs arbitrary: js)
  case (Cons r rs)
  have "\<forall>j \<in> set (apply_result cal r js). cron_run_order now j"
    using Cons.prems update_first_set [of _ "\<lambda>j. job_id j = dr_id r" "after_run cal r" js]
    by (fastforce simp: apply_result_def intro: run_order_after)
  with Cons show ?case by simp
qed simp

lemma start_ordered:
  assumes "all_ordered now s" "timely now"
  shows "all_ordered now (snd (start cal readable d open_bus now policy s))"
proof (cases "load_store readable (s\<lparr>sv_running := True\<rparr>)")
  case (Inl e)
  then show ?thesis using assms(1) by (simp add: start_def Let_def) (simp add: all_ordered_def)
next
  case (Inr st)
  have "all_ordered now (s\<lparr>sv_running := True\<rparr>)" using assms(1) by (simp add: all_ordered_def)
  then have "\<forall>j \<in> set (cs_jobs st). cron_run_order now j" using all_ordered_load Inr by blast
  with assms Inr show ?thesis
    by (auto simp: start_def Let_def intro!: all_ordered_save) (auto simp: all_ordered_def intro: run_order_restart)
qed

lemma tick_ordered:
  assumes "all_ordered now s" "\<forall>(e, t0, t1) \<in> set ends. now \<le> t0 \<and> t0 \<le> t1 \<and> t1 \<le> now'" "now \<le> now'" "timely now" "timely now'"
  shows "all_ordered now' (snd (tick cal d now ends s))"
proof -
  have o: "all_ordered now' s" using assms(1, 3) run_order_wait by (fastforce simp: all_ordered_def)
  let ?rs = "dispatch_results (due_jobs now (jobs_of s)) ends"
  have "\<forall>r \<in> set ?rs. dr_started_at r \<le> dr_ended_at r \<and> dr_ended_at r \<le> now' \<and> timely (dr_ended_at r)"
    using assms(2, 4, 5) by (fastforce simp: dispatch_results_def timely_def dest: set_zip_rightD)
  then have "\<forall>j \<in> set (fold (apply_result cal) ?rs (jobs_of s)). cron_run_order now' j"
    using o by (intro run_order_results) (auto simp: all_ordered_def)
  then have "all_ordered now' (set_jobs (filter (\<lambda>j. \<not> finished_once j) (fold (apply_result cal) ?rs (jobs_of s))) s)"
    using o by (intro all_ordered_jobs) auto
  then have "all_ordered now' ((set_jobs (filter (\<lambda>j. \<not> finished_once j) (fold (apply_result cal) ?rs (jobs_of s))) s)\<lparr>sv_sent := x\<rparr>)" for x
    by (simp add: all_ordered_def)
  with o show ?thesis by (simp add: tick_def Let_def all_ordered_save)
qed

lemma cron_reach_ordered: "cron_reach cal now s \<Longrightarrow> timely now \<and> all_ordered now s"
proof (induction rule: cron_reach.induct)
  case (fresh now)
  then show ?case by (simp add: all_ordered_def fresh_service_def cron_store_default_def)
next
  case (wait now s now')
  then show ?case using run_order_wait by (fastforce simp: all_ordered_def)
next
  case (add now s schedule d ident name payload del timeout)
  have "cron_run_order now (new_job cal now ident name schedule payload del timeout)"
    using add(2) by (simp add: cron_run_order_def new_job_def job_state_default_def)
  then have "all_ordered now (set_jobs (jobs_of s @ [new_job cal now ident name schedule payload del timeout]) s)"
    using add by (intro all_ordered_jobs) (auto simp: all_ordered_def)
  then have "all_ordered now (snd (save_store d (set_jobs (jobs_of s @ [new_job cal now ident name schedule payload del timeout]) s)))"
    by (rule all_ordered_save)
  with add show ?case by (auto simp: add_job_with_timeout_def Let_def split: prod.split sum.split)
next
  case (remove now s d ident)
  have "all_ordered now (set_jobs (filter (\<lambda>job. job_id job \<noteq> ident) (jobs_of s)) s)"
    using remove by (intro all_ordered_jobs) (auto simp: all_ordered_def)
  moreover from this have "all_ordered now (snd (save_store d (set_jobs (filter (\<lambda>job. job_id job \<noteq> ident) (jobs_of s)) s)))"
    by (rule all_ordered_save)
  ultimately show ?case using remove by (auto simp: remove_job_def Let_def split: prod.split sum.split)
next
  case (tick now s ends now' d)
  then show ?case using tick_ordered by blast
next
  case (start now s readable d open_bus policy)
  then show ?case using start_ordered by blast
qed (auto simp: stop_def all_ordered_def cron_store_default_def)

text \<open>
  The guard against repeated delivery after a crash never fires: in every state the service can be in,
  a job that was missed has not run after its scheduled time, because the time of the last run and
  of the next are always written together.
\<close>

theorem dedup_guard_never_fires:
  assumes "cron_reach cal now s" "load_store readable s = Inr st" "job \<in> set (cs_jobs st)"
    and "js_next_run_at_ms (job_state job) = Some n"
  shows "\<not> should_skip_missed_dispatch job n"
proof -
  have "cron_run_order now job" using cron_reach_ordered [OF assms(1)] all_ordered_load assms(2, 3) by blast
  then show ?thesis using assms(4) by (auto simp: cron_run_order_def should_skip_missed_dispatch_def split: option.split)
qed

definition sample_payload :: cron_payload where
  "sample_payload = \<lparr>cp_message = ''hi'', cp_channel = ''cli'', cp_chat_id = ''c''\<rparr>"

definition sample_job :: cron_job where
  "sample_job = new_job sample_calendar 1000 ''abcdefgh'' ''n'' (Every 60000) sample_payload False None"

theorem dedup_guard_never_fires_witness: "\<not> should_skip_missed_dispatch sample_job 61000"
proof -
  let ?s = "snd (add_job_with_timeout sample_calendar Write_Ok 1000 ''abcdefgh'' ''n'' (Every 60000) sample_payload False None fresh_service)"
  have "cron_reach sample_calendar 1000 ?s"
    by (intro cron_reach.add cron_reach.fresh) (simp_all add: timely_def calm_def)
  moreover have "load_store True ?s = Inr \<lparr>cs_version = 1, cs_jobs = [sample_job]\<rparr>"
    by (simp add: load_store_def add_job_with_timeout_def save_store_def set_jobs_def fresh_service_def cron_store_default_def sample_job_def Let_def)
  ultimately show ?thesis
    by (rule dedup_guard_never_fires) (simp_all add: sample_job_def new_job_def wrap_i64_id)
qed

section \<open>What a tick does\<close>

lemma update_first_map:
  assumes "distinct (map g xs)"
  shows "update_first (\<lambda>x. g x = k) f xs = map (\<lambda>x. if g x = k then f x else x) xs"
  using assms
proof (induction xs)
  case (Cons x xs)
  then have "map (\<lambda>y. if g y = g x then f y else y) xs = xs" by (auto simp: image_iff intro!: map_idI)
  with Cons show ?case by auto
qed simp

lemma fold_apply_result:
  assumes "distinct (map job_id js)" "distinct (map dr_id rs)"
  shows "fold (apply_result cal) rs js =
    map (\<lambda>j. case find (\<lambda>r. dr_id r = job_id j) rs of None \<Rightarrow> j | Some r \<Rightarrow> after_run cal r j) js"
  using assms
proof (induction rs arbitrary: js)
  case (Cons r rs)
  have a: "apply_result cal r js = map (\<lambda>j. if job_id j = dr_id r then after_run cal r j else j) js"
    using Cons.prems(1) by (simp add: apply_result_def update_first_map)
  have ids: "map job_id (apply_result cal r js) = map job_id js" by (simp add: a)
  have none: "find (\<lambda>r. dr_id r = dr_id r') rs = None" if "dr_id r' = dr_id r" for r'
    using Cons.prems(2) that by (auto simp: find_None_iff image_iff)
  have "fold (apply_result cal) rs (apply_result cal r js) =
      map (\<lambda>j. case find (\<lambda>r. dr_id r = job_id j) rs of None \<Rightarrow> j | Some r \<Rightarrow> after_run cal r j) (apply_result cal r js)"
    using Cons.prems by (intro Cons.IH) (simp_all only: ids, simp)
  then show ?case using none [of r] by (auto simp: a eq_commute)
qed simp

lemma results_by_id:
  assumes "distinct (map job_id js)" "length ends = length (due_jobs now js)"
  shows "distinct (map dr_id (dispatch_results (due_jobs now js) ends))"
    and "j \<in> set js \<Longrightarrow> \<not> missed now j \<Longrightarrow> find (\<lambda>r. dr_id r = job_id j) (dispatch_results (due_jobs now js) ends) = None"
    and "(j, e, t0, t1) \<in> set (zip (due_jobs now js) ends) \<Longrightarrow>
      find (\<lambda>r. dr_id r = job_id j) (dispatch_results (due_jobs now js) ends)
        = Some \<lparr>dr_id = job_id j, dr_end = e, dr_started_at = t0, dr_ended_at = t1\<rparr>"
proof -
  let ?rs = "dispatch_results (due_jobs now js) ends"
  have ids: "map dr_id ?rs = map job_id (due_jobs now js)"
    using assms(2) by (intro nth_equalityI) (auto simp: dispatch_results_def split: prod.split)
  then show d: "distinct (map dr_id ?rs)" using assms(1) by (simp add: due_jobs_def distinct_map_filter)
  show "find (\<lambda>r. dr_id r = job_id j) ?rs = None" if "j \<in> set js" "\<not> missed now j"
  proof -
    have "job_id j \<notin> set (map dr_id ?rs)"
      unfolding ids using that assms(1) by (auto simp: due_jobs_def distinct_map inj_on_def)
    then show ?thesis by (auto simp: find_None_iff image_iff)
  qed
  show "find (\<lambda>r. dr_id r = job_id j) ?rs = Some \<lparr>dr_id = job_id j, dr_end = e, dr_started_at = t0, dr_ended_at = t1\<rparr>"
    if "(j, e, t0, t1) \<in> set (zip (due_jobs now js) ends)"
  proof -
    let ?r = "\<lparr>dr_id = job_id j, dr_end = e, dr_started_at = t0, dr_ended_at = t1\<rparr>"
    have in_rs: "?r \<in> set ?rs" using that by (force simp: dispatch_results_def)
    then obtain r where r: "find (\<lambda>r. dr_id r = job_id j) ?rs = Some r"
      by (cases "find (\<lambda>r. dr_id r = job_id j) ?rs") (auto simp: find_None_iff)
    then have "r \<in> set ?rs" "dr_id r = dr_id ?r" by (auto dest: find_Some_in)
    with in_rs d have "r = ?r" by (auto simp: distinct_map inj_on_def)
    with r show ?thesis by simp
  qed
qed

text \<open>
  C31. What a tick does, whether or not its store can be written: the due jobs that could be dispatched, and only they,
  put their message on the bus, once each and in their order; each due job gets the state its own dispatch
  calls for, and leaves the store only as a one-shot that succeeded; the other jobs stay as they are (a job that is
  not due but finished and due for deletion is not spoken of).
\<close>

theorem tick_exact:
  assumes "distinct (map job_id (jobs_of s))" "length ends = length (due_jobs now (jobs_of s))" "due_jobs now (jobs_of s) \<noteq> []"
    and "s' = snd (tick cal d now ends s)"
  shows "sv_sent s' = sv_sent s @ dispatched_messages (due_jobs now (jobs_of s)) ends
    \<and> (\<forall>j \<in> set (jobs_of s). \<not> missed now j \<and> \<not> finished_once j \<longrightarrow> j \<in> set (jobs_of s'))
    \<and> (\<forall>(j, e, t0, t1) \<in> set (zip (due_jobs now (jobs_of s)) ends).
         let j' = after_run cal \<lparr>dr_id = job_id j, dr_end = e, dr_started_at = t0, dr_ended_at = t1\<rparr> j
         in j' \<in> set (jobs_of s') \<or> finished_once j' \<and> e = Dispatched)"
proof -
  let ?due = "due_jobs now (jobs_of s)"
  let ?rs = "dispatch_results ?due ends"
  let ?after = "\<lambda>j. case find (\<lambda>r. dr_id r = job_id j) ?rs of None \<Rightarrow> j | Some r \<Rightarrow> after_run cal r j"
  note ids = results_by_id [OF assms(1, 2)]
  have js: "jobs_of s' = filter (\<lambda>j. \<not> finished_once j) (map ?after (jobs_of s))"
    using assms(3, 4) fold_apply_result [OF assms(1) ids(1), of cal]
    by (cases d) (simp_all add: tick_def save_store_def set_jobs_def Let_def)
  have sent: "sv_sent s' = sv_sent s @ dispatched_messages ?due ends"
    using assms(3, 4) by (cases d) (simp_all add: tick_def save_store_def set_jobs_def Let_def)
  have other: "j \<in> set (jobs_of s')" if "j \<in> set (jobs_of s)" "\<not> missed now j" "\<not> finished_once j" for j
    using that ids(2) [OF that(1, 2)] by (force simp: js)
  have due: "let j' = after_run cal \<lparr>dr_id = job_id j, dr_end = e, dr_started_at = t0, dr_ended_at = t1\<rparr> j
         in j' \<in> set (jobs_of s') \<or> finished_once j' \<and> e = Dispatched"
    if z: "(j, e, t0, t1) \<in> set (zip ?due ends)" for j e t0 t1
  proof -
    let ?j' = "after_run cal \<lparr>dr_id = job_id j, dr_end = e, dr_started_at = t0, dr_ended_at = t1\<rparr> j"
    have "j \<in> set (jobs_of s)" using set_zip_leftD [OF z] by (simp add: due_jobs_def)
    then have "?j' \<in> ?after ` set (jobs_of s)" using ids(3) [OF z] by (intro image_eqI [of _ _ j]) simp_all
    moreover have "js_last_status (job_state ?j') = Some (if e = Dispatched then ''ok'' else ''error'')"
      by (simp add: after_run_def Let_def split: cron_schedule.split)
    ultimately show ?thesis by (auto simp: js Let_def finished_once_def)
  qed
  show ?thesis using sent other due by blast
qed

theorem tick_exact_witness:
  "sv_sent (snd (tick sample_calendar Write_Ok 70000 [(Dispatched, 70001, 70002)]
     (set_jobs [sample_job] fresh_service))) = [cron_inbound sample_payload]"
proof -
  have d: "due_jobs 70000 (jobs_of (set_jobs [sample_job] fresh_service)) = [sample_job]"
    by (simp add: due_jobs_def missed_def set_jobs_def sample_job_def new_job_def job_state_default_def wrap_i64_id)
  show ?thesis
    using tick_exact [of "set_jobs [sample_job] fresh_service" "[(Dispatched, 70001, 70002)]" 70000 _ sample_calendar Write_Ok]
    by (simp add: d dispatched_messages_def)
      (simp add: set_jobs_def fresh_service_def sample_job_def new_job_def)
qed

text \<open>
  A failing job backs off: after a dispatch that did not succeed, a job that repeats runs no sooner than
  the back-off of its number of consecutive errors later, and its errors are counted.
\<close>

theorem failed_job_backs_off:
  assumes "\<forall>t. job_schedule job \<noteq> At t" "dr_end r \<noteq> Dispatched" "timely (dr_ended_at r)"
  shows "js_consecutive_errors (job_state (after_run cal r job)) = sat32 (Suc (js_consecutive_errors (job_state job)))
    \<and> (\<exists>n. js_next_run_at_ms (job_state (after_run cal r job)) = Some n
         \<and> dr_ended_at r + error_backoff_ms (sat32 (Suc (js_consecutive_errors (job_state job)))) \<le> n)"
proof -
  let ?errors = "sat32 (Suc (js_consecutive_errors (job_state job)))"
  have "0 < ?errors" by (simp add: sat32_def u32_max_def)
  then have "0 < error_backoff_ms ?errors \<and> error_backoff_ms ?errors \<le> 3600000" by (rule error_backoff_pos)
  then have "wrap_i64 (dr_ended_at r + error_backoff_ms ?errors) = dr_ended_at r + error_backoff_ms ?errors"
    using assms(3) by (intro wrap_i64_id) (simp_all add: timely_def)
  then show ?thesis
    using assms(1, 2) by (cases "job_schedule job") (simp_all add: after_run_def Let_def, simp_all add: set_next_def)
qed

theorem failed_job_backs_off_witness:
  "\<exists>n. js_next_run_at_ms (job_state (after_run sample_calendar
       \<lparr>dr_id = ''abcdefgh'', dr_end = Dispatch_Timed_Out, dr_started_at = 70000, dr_ended_at = 75000\<rparr> sample_job)) = Some n
     \<and> 105000 \<le> n"
  using failed_job_backs_off [of sample_job "\<lparr>dr_id = ''abcdefgh'', dr_end = Dispatch_Timed_Out, dr_started_at = 70000, dr_ended_at = 75000\<rparr>"
      sample_calendar]
  by (simp add: sample_job_def new_job_def timely_def job_state_default_def sat32_def u32_max_def error_backoff_ms_def
      error_backoff_schedule_ms_def)

section \<open>Jobs that are lost, and limits that are passed\<close>

text \<open>
  A one-shot job whose dispatch fails is never tried again: it is disabled and has no next run, neither a tick nor
  a restart changes that, and it stays in the store.
\<close>

theorem failed_one_shot_never_retried:
  assumes "job_schedule job = At t" "dr_end r \<noteq> Dispatched"
  shows "\<not> missed now (after_run cal r job) \<and> restart_job cal now (after_run cal r job) = after_run cal r job
    \<and> \<not> finished_once (after_run cal r job)"
  using assms by (simp add: after_run_def Let_def missed_def restart_job_def finished_once_def)

text \<open>
  A one-shot job in the past is accepted and never runs: it has no next run, at any time.
\<close>

theorem past_one_shot_never_runs:
  assumes "t \<le> now" "now \<le> later"
  shows "let job = new_job cal now ident name (At t) payload del timeout
         in \<not> missed later job \<and> restart_job cal later job = job"
  using assms by (simp add: new_job_def Let_def missed_def restart_job_def set_next_def)

text \<open>
  A start that cannot read its file blocks the service: it is marked as running, and every later start
  returns success without doing anything.
\<close>

theorem failed_start_wedges:
  assumes "\<not> sv_running s" "load_store readable (s\<lparr>sv_running := True\<rparr>) = Inl e"
    and "s' = snd (start cal readable d open_bus now policy s)"
  shows "fst (start cal readable d open_bus now policy s) = Inl e
    \<and> start cal readable' d' open_bus' now' policy' s' = (Inr (), s')"
  using assms by (simp add: start_def Let_def)

text \<open>
  The minimum interval can be passed by: a number of seconds whose product with 1000 overflows is accepted,
  and the job is due again 384 milliseconds later.
\<close>

theorem minimum_interval_bypassed:
  "tool_schedule cal parse_at now \<lparr>ca_action = Some ''add'', ca_message = Some ''m'', ca_name = None,
       ca_every_seconds = Some 18446744073709552, ca_cron_expr = None, ca_at = None, ca_channel = None, ca_chat_id = None,
       ca_include_disabled = None, ca_job_id = None\<rparr> = Inr (Every 384, False)"
  by (simp add: tool_schedule_def schedule_count_def wrap_i64_def)

abbreviation active :: "cron_service \<Rightarrow> nat" where
  "active s \<equiv> length (filter job_enabled (jobs_of s))"

lemma active_save [simp]: "jobs_of (snd (save_store d s)) = jobs_of s"
  by (simp add: save_store_def split: write_outcome.split)

lemma active_add: "active (snd (add_job_with_timeout cal d now ident name sched payload del timeout s)) = Suc (active s)"
  by (cases d) (simp_all add: add_job_with_timeout_def save_store_def set_jobs_def new_job_def Let_def)

lemma active_remove: "active (snd (remove_job d ident s)) \<le> active s"
proof -
  have "length (filter job_enabled (filter (\<lambda>job. job_id job \<noteq> ident) js)) \<le> length (filter job_enabled js)" for js
    by (induction js) auto
  then show ?thesis by (cases d) (simp_all add: remove_job_def save_store_def set_jobs_def Let_def)
qed

lemma execute_add_state:
  "snd (execute_add cal parse_at d now ident ch chat a s) = s
   \<or> (length (list_jobs False s) < 50
      \<and> (\<exists>name sched payload del. snd (execute_add cal parse_at d now ident ch chat a s)
            = snd (add_job_with_timeout cal d now ident name sched payload del None s)))"
proof -
  have st: "snd (case p of (Inl e, s1) \<Rightarrow> (Inl e, s1) | (Inr job, s1) \<Rightarrow> (Inr (f job), s1)) = snd p"
    for p :: "cron_job zresult \<times> cron_service" and f :: "cron_job \<Rightarrow> string"
    by (simp split: prod.split sum.split)
  show ?thesis
  proof (cases "50 \<le> length (list_jobs False s) \<or> ca_message a = None")
    case True
    then show ?thesis by (auto simp: execute_add_def)
  next
    case False
    then show ?thesis
      by (cases "tool_schedule cal parse_at now a"; cases "if ca_channel a = None then ch else ca_channel a";
          cases "if ca_chat_id a = None then chat else ca_chat_id a")
        (auto simp: execute_add_def st, blast+)
  qed
qed

lemma active_run: "job_enabled (after_run cal r job) \<longrightarrow> job_enabled job"
  by (simp add: after_run_def Let_def split: cron_schedule.split)

lemma active_update: "length (filter job_enabled (apply_result cal r js)) \<le> length (filter job_enabled js)"
  unfolding apply_result_def using active_run by (induction js) auto

lemma active_results: "length (filter job_enabled (fold (apply_result cal) rs js)) \<le> length (filter job_enabled js)"
  by (induction rs arbitrary: js) (auto intro: order_trans active_update)

text \<open>
  At most fifty jobs are active: neither the tool, whatever it is asked, nor a tick makes more than fifty active jobs
  out of at most fifty.
\<close>

theorem active_jobs_bounded:
  assumes "active s \<le> 50"
  shows "active (snd (cron_tool cal parse_at d now ident ch chat a s)) \<le> 50 \<and> active (snd (tick cal d now ends s)) \<le> 50"
proof
  have "length (list_jobs False s) = active s" by (simp add: list_jobs_def)
  then have "active (snd (execute_add cal parse_at d now ident ch chat a s)) \<le> 50"
    using execute_add_state [of cal parse_at d now ident ch chat a s] active_add [of cal d now ident _ _ _ _ None s] assms
    by auto
  moreover have "active (snd (execute_remove d a s)) \<le> 50"
    using assms active_remove [of d _ s] by (auto simp: execute_remove_def split: option.split prod.split sum.split bool.split)
      (metis le_trans snd_conv)+
  ultimately show "active (snd (cron_tool cal parse_at d now ident ch chat a s)) \<le> 50"
    using assms by (auto simp: cron_tool_def split: option.split)
next
  let ?js = "fold (apply_result cal) (dispatch_results (due_jobs now (jobs_of s)) ends) (jobs_of s)"
  have "length (filter job_enabled (filter P js)) \<le> length (filter job_enabled js)" for P js
    by (induction js) auto
  from this [of "\<lambda>j. \<not> finished_once j" ?js] active_results [of cal _ "jobs_of s"] assms
  have "length (filter job_enabled (filter (\<lambda>j. \<not> finished_once j) ?js)) \<le> 50" by (meson order_trans)
  moreover have "jobs_of (snd (tick cal d now ends s)) =
      (if due_jobs now (jobs_of s) = [] then jobs_of s else filter (\<lambda>j. \<not> finished_once j) ?js)"
    by (cases d) (simp_all add: tick_def save_store_def set_jobs_def Let_def)
  ultimately show "active (snd (tick cal d now ends s)) \<le> 50" using assms by simp
qed

theorem active_jobs_bounded_witness: "active (snd (tick sample_calendar Write_Ok 0 [] fresh_service)) \<le> 50"
  using active_jobs_bounded [of fresh_service sample_calendar] by (simp add: fresh_service_def cron_store_default_def)

end
