(* ===== verification/Audit_Chain.thy ===== *)
theory Audit_Chain
  imports Tool_Gate Response_Cache
begin

text \<open>
  The audit hash chain of \<open>src/src/audit.rs\<close>: the entries with their linked hashes, the bounded
  window, the check of its integrity and its readers. SHA-256 with its hexadecimal encoding is the
  parameter \<open>D\<close>, on the bytes that the hasher is fed; the clock text of an entry is an argument. The
  chain is a process-wide value behind a lock, so that its calls are a sequence of steps. The lines
  that \<open>log_audit_event\<close> writes to the log are left out, with its categories and severities.

  The window is related to an unbounded log, a change of the window is related to a collision of
  the digest, and the events of the tool gate are followed into the chain.
\<close>

section \<open>Entries\<close>

definition action_text :: "audit_action \<Rightarrow> string" where
  "action_text a = (case a of
      ToolInvoke \<Rightarrow> ''tool_invoke'' | ShellExec \<Rightarrow> ''shell_exec'' | NetworkAccess \<Rightarrow> ''network_access''
    | AgentSpawn \<Rightarrow> ''agent_spawn'' | AgentMessage \<Rightarrow> ''agent_message'' | MemoryAccess \<Rightarrow> ''memory_access''
    | FileAccess \<Rightarrow> ''file_access'' | AuthAttempt \<Rightarrow> ''auth_attempt'' | ConfigChange \<Rightarrow> ''config_change'')"

record audit_entry =
  en_seq :: nat
  en_timestamp :: string
  en_agent_id :: string
  en_action :: audit_action
  en_detail :: string
  en_outcome :: string
  en_prev_hash :: string
  en_hash :: string

definition max_audit_entries :: nat where
  "max_audit_entries = 10000"

text \<open>Numbers are hashed as \<open>to_le_bytes\<close> gives them, texts after their lengths.\<close>

definition hash_string_field :: "string \<Rightarrow> string" where
  "hash_string_field v = le_bytes (length v) @ v"

text \<open>The bytes that the hasher sees, in the order of its updates.\<close>

definition payload :: "nat \<Rightarrow> string \<Rightarrow> string \<Rightarrow> audit_action \<Rightarrow> string \<Rightarrow> string \<Rightarrow> string \<Rightarrow> string" where
  "payload seq timestamp agent_id action detail outcome prev_hash =
     le_bytes seq @ hash_string_field timestamp @ hash_string_field agent_id @ hash_string_field (action_text action)
       @ hash_string_field detail @ hash_string_field outcome @ hash_string_field prev_hash"

definition compute_entry_hash ::
    "(string \<Rightarrow> string) \<Rightarrow> nat \<Rightarrow> string \<Rightarrow> string \<Rightarrow> audit_action \<Rightarrow> string \<Rightarrow> string \<Rightarrow> string \<Rightarrow> string" where
  "compute_entry_hash D seq timestamp agent_id action detail outcome prev_hash =
     D (payload seq timestamp agent_id action detail outcome prev_hash)"

definition newline_to_space :: "char \<Rightarrow> char" where
  "newline_to_space c = (if c = CHR 0x0A \<or> c = CHR 0x0D then CHR '' '' else c)"

definition sanitize_text :: "string \<Rightarrow> nat \<Rightarrow> string" where
  "sanitize_text value max_len = concat (take max_len (str_chars (map newline_to_space (trim value))))"

definition genesis_hash :: string where
  "genesis_hash = replicate 64 (CHR ''0'')"

section \<open>The chain\<close>

record audit_chain =
  ch_entries :: "audit_entry list"
  ch_tip :: string
  ch_window_base :: string
  ch_next_seq :: nat

definition chain_default :: audit_chain where
  "chain_default = \<lparr>ch_entries = [], ch_tip = genesis_hash, ch_window_base = genesis_hash, ch_next_seq = 1\<rparr>"

definition new_audit_entry ::
    "(string \<Rightarrow> string) \<Rightarrow> nat \<Rightarrow> string \<Rightarrow> string \<Rightarrow> string \<Rightarrow> audit_action \<Rightarrow> string \<Rightarrow> string \<Rightarrow> audit_entry" where
  "new_audit_entry D seq prev_hash timestamp agent_id action detail outcome =
     (let agent_id = sanitize_text agent_id 120;
          detail = sanitize_text detail 512;
          outcome = sanitize_text outcome 120
      in \<lparr>en_seq = seq, en_timestamp = timestamp, en_agent_id = agent_id, en_action = action, en_detail = detail,
          en_outcome = outcome, en_prev_hash = prev_hash,
          en_hash = compute_entry_hash D seq timestamp agent_id action detail outcome prev_hash\<rparr>)"

definition record_event ::
    "(string \<Rightarrow> string) \<Rightarrow> string \<Rightarrow> string \<Rightarrow> audit_action \<Rightarrow> string \<Rightarrow> string \<Rightarrow> audit_chain \<Rightarrow> audit_entry \<times> audit_chain" where
  "record_event D timestamp agent_id action detail outcome state =
     (let entry = new_audit_entry D (ch_next_seq state) (ch_tip state) timestamp agent_id action detail outcome;
          state = state\<lparr>ch_tip := en_hash entry, ch_next_seq := sat64 (ch_next_seq state + 1),
                        ch_entries := ch_entries state @ [entry]\<rparr>;
          state = (if max_audit_entries < length (ch_entries state)
                   then (case ch_entries state of
                           [] \<Rightarrow> state
                         | evicted # rest \<Rightarrow> state\<lparr>ch_entries := rest, ch_window_base := en_hash evicted\<rparr>)
                   else state)
      in (entry, state))"

text \<open>The loop of the check: the expected hash and number before each entry, and those after the last.\<close>

fun verify_entries :: "(string \<Rightarrow> string) \<Rightarrow> string \<Rightarrow> nat \<Rightarrow> audit_entry list \<Rightarrow> string + string \<times> nat" where
  "verify_entries D prev seq [] = Inr (prev, seq)"
| "verify_entries D prev seq (e # es) =
     (if en_seq e \<noteq> seq then Inl (''chain broken at seq '' @ show_nat (en_seq e) @ '': sequence mismatch'')
      else if en_prev_hash e \<noteq> prev
      then Inl (''chain broken at seq '' @ show_nat (en_seq e) @ '': prev hash mismatch'')
      else if en_hash e \<noteq> compute_entry_hash D (en_seq e) (en_timestamp e) (en_agent_id e) (en_action e) (en_detail e)
                (en_outcome e) prev
      then Inl (''chain broken at seq '' @ show_nat (en_seq e) @ '': hash mismatch'')
      else verify_entries D (en_hash e) (sat64 (seq + 1)) es)"

definition verify_integrity :: "(string \<Rightarrow> string) \<Rightarrow> audit_chain \<Rightarrow> string + unit" where
  "verify_integrity D state =
     (case verify_entries D (ch_window_base state)
             (case ch_entries state of [] \<Rightarrow> ch_next_seq state | e # _ \<Rightarrow> en_seq e) (ch_entries state) of
        Inl err \<Rightarrow> Inl err
      | Inr (prev, seq) \<Rightarrow>
          if ch_tip state \<noteq> prev then Inl ''chain broken: tip does not match final entry hash''
          else if ch_next_seq state \<noteq> seq then Inl ''chain broken: next sequence mismatch''
          else Inr ())"

definition recent_entries :: "nat \<Rightarrow> audit_chain \<Rightarrow> audit_entry list" where
  "recent_entries n state =
     (if n = 0 \<or> ch_entries state = [] then [] else drop (length (ch_entries state) - n) (ch_entries state))"

definition tip_hash :: "audit_chain \<Rightarrow> string" where
  "tip_hash state = ch_tip state"

section \<open>Texts\<close>

lemma str_chars_head: "str_chars s \<noteq> [] \<Longrightarrow> hd (hd (str_chars s)) = hd s"
  by (cases s) auto

lemma take_str_chars: "str_chars (concat (take n (str_chars s))) = take n (str_chars s)"
proof (induction s arbitrary: n rule: str_chars.induct)
  case (2 c cs)
  show ?case
  proof (cases n)
    case (Suc m)
    let ?rest = "concat (take m (str_chars (dropWhile continues_char cs)))"
    have "takeWhile continues_char ?rest = [] \<and> dropWhile continues_char ?rest = ?rest"
    proof (cases "dropWhile continues_char cs")
      case (Cons d ds)
      then have "\<not> continues_char d" by (metis hd_dropWhile list.distinct(1) list.sel(1))
      then show ?thesis by (cases m) (simp_all add: Cons)
    next
      case Nil
      show ?thesis unfolding Nil by simp
    qed
    moreover have "\<And>x. x \<in> set (takeWhile continues_char cs) \<Longrightarrow> continues_char x" by (rule conjunct2 [OF set_takeWhileD])
    ultimately have t: "takeWhile continues_char (takeWhile continues_char cs @ ?rest) = takeWhile continues_char cs"
        "dropWhile continues_char (takeWhile continues_char cs @ ?rest) = ?rest"
      by (simp_all add: takeWhile_append2 dropWhile_append2)
    from 2 [of m] show ?thesis by (simp add: Suc t)
  qed simp
qed simp

lemma sanitize_text_length: "length (str_chars (sanitize_text v n)) \<le> n"
  by (simp add: sanitize_text_def take_str_chars)

lemma sanitize_text_one_line: "CHR 0x0A \<notin> set (sanitize_text v n) \<and> CHR 0x0D \<notin> set (sanitize_text v n)"
proof -
  let ?t = "map newline_to_space (trim v)"
  have "set (take n (str_chars ?t)) \<subseteq> set (str_chars ?t)" by (rule set_take_subset)
  then have "set (sanitize_text v n) \<subseteq> set (concat (str_chars ?t))"
    unfolding sanitize_text_def set_concat by blast
  also have "\<dots> = set ?t" by simp
  finally show ?thesis by (auto simp: newline_to_space_def split: if_splits)
qed

section \<open>The unbounded log\<close>

type_synonym audit_call = "string \<times> string \<times> audit_action \<times> string \<times> string"

text \<open>What a chain without a window would hold, with the hash and the number that the next entry gets.\<close>

fun full_log :: "(string \<Rightarrow> string) \<Rightarrow> string \<Rightarrow> nat \<Rightarrow> audit_call list \<Rightarrow> audit_entry list" where
  "full_log D prev seq [] = []"
| "full_log D prev seq ((timestamp, agent_id, action, detail, outcome) # calls) =
     (let e = new_audit_entry D seq prev timestamp agent_id action detail outcome
      in e # full_log D (en_hash e) (sat64 (seq + 1)) calls)"

fun step_chain :: "(string \<Rightarrow> string) \<Rightarrow> audit_call \<Rightarrow> audit_chain \<Rightarrow> audit_chain" where
  "step_chain D (timestamp, agent_id, action, detail, outcome) state =
     snd (record_event D timestamp agent_id action detail outcome state)"

definition run_chain :: "(string \<Rightarrow> string) \<Rightarrow> audit_call list \<Rightarrow> audit_chain" where
  "run_chain D calls = fold (step_chain D) calls chain_default"

definition end_hash :: "string \<Rightarrow> audit_entry list \<Rightarrow> string" where
  "end_hash base es = (if es = [] then base else en_hash (last es))"

fun end_seq :: "nat \<Rightarrow> nat \<Rightarrow> nat" where
  "end_seq start 0 = start"
| "end_seq start (Suc n) = end_seq (sat64 (start + 1)) n"

lemma end_seq_eq: "start \<le> u64_max \<Longrightarrow> end_seq start n = min (start + n) u64_max"
  by (induction n arbitrary: start) (simp_all add: sat64_def)

lemma length_full_log [simp]: "length (full_log D prev seq calls) = length calls"
  by (induction D prev seq calls rule: full_log.induct) (simp_all add: Let_def)

lemma full_log_snoc:
  "full_log D prev seq (calls @ [(t, a, act, d, out)]) =
     full_log D prev seq calls
       @ [new_audit_entry D (end_seq seq (length calls)) (end_hash prev (full_log D prev seq calls)) t a act d out]"
proof (induction D prev seq calls rule: full_log.induct)
  case (2 D prev seq t' a' act' d' out' calls)
  let ?e = "new_audit_entry D seq prev t' a' act' d' out'"
  have "end_hash (en_hash ?e) (full_log D (en_hash ?e) (sat64 (seq + 1)) calls)
      = end_hash prev (?e # full_log D (en_hash ?e) (sat64 (seq + 1)) calls)"
    by (simp add: end_hash_def)
  then show ?case using 2 [OF refl] by (simp add: Let_def)
qed (simp add: end_hash_def Let_def)

text \<open>The window onto a log: its last entries, and the hash of the entry before them.\<close>

definition chain_of_log :: "audit_entry list \<Rightarrow> audit_chain" where
  "chain_of_log log =
     (let k = length log - max_audit_entries
      in \<lparr>ch_entries = drop k log, ch_tip = end_hash genesis_hash log,
          ch_window_base = end_hash genesis_hash (take k log), ch_next_seq = min (1 + length log) u64_max\<rparr>)"

lemma record_snoc:
  assumes "n = min (1 + length log) u64_max"
    and "e = new_audit_entry D n (end_hash genesis_hash log) t a act d out"
  shows "record_event D t a act d out (chain_of_log log) = (e, chain_of_log (log @ [e]))"
proof -
  have sq: "sat64 (n + 1) = min (2 + length log) u64_max"
    using assms(1) by (simp add: sat64_def)
  have e: "end_hash genesis_hash (log @ [e]) = en_hash e" by (simp add: end_hash_def)
  show ?thesis
  proof (cases "length log < max_audit_entries")
    case True
    then show ?thesis
      unfolding record_event_def chain_of_log_def using assms sq e by (simp add: Let_def end_hash_def)
  next
    case False
    let ?k = "length log - max_audit_entries"
    have k: "?k < length log" "Suc (length log) - max_audit_entries = Suc ?k"
      using False by (auto simp: max_audit_entries_def)
    then have dr: "drop ?k log = log ! ?k # drop (Suc ?k) log" by (simp add: Cons_nth_drop_Suc)
    have base: "end_hash genesis_hash (take (Suc ?k) log) = en_hash (log ! ?k)"
      using k by (simp add: end_hash_def take_Suc_conv_app_nth)
    have len: "max_audit_entries < length (drop ?k log @ [e])" using False by simp
    have parts: "drop (Suc ?k) (log @ [e]) = drop (Suc ?k) log @ [e]" "take (Suc ?k) (log @ [e]) = take (Suc ?k) log"
      using k by simp_all
    show ?thesis
      unfolding record_event_def chain_of_log_def
      using assms sq e len k dr base parts by (simp add: Let_def)
  qed
qed

lemma run_chain_log: "run_chain D calls = chain_of_log (full_log D genesis_hash 1 calls)"
proof (induction calls rule: rev_induct)
  case Nil
  show ?case by (simp add: run_chain_def chain_default_def chain_of_log_def Let_def end_hash_def u64_max_def)
next
  case (snoc c calls)
  obtain t a act d out where c: "c = (t, a, act, d, out)" by (cases c)
  let ?log = "full_log D genesis_hash 1 calls"
  have n: "end_seq 1 (length calls) = min (1 + length ?log) u64_max"
    by (simp add: end_seq_eq u64_max_def)
  have "run_chain D (calls @ [c]) = step_chain D c (chain_of_log ?log)"
    using snoc by (simp add: run_chain_def)
  then show ?case using record_snoc [OF n refl] by (simp add: c full_log_snoc)
qed

section \<open>Integrity\<close>

lemma verify_full_log:
  "verify_entries D prev seq (full_log D prev seq calls) =
     Inr (end_hash prev (full_log D prev seq calls), end_seq seq (length calls))"
proof (induction D prev seq calls rule: full_log.induct)
  case (2 D prev seq t' a' act' d' out' calls)
  let ?e = "new_audit_entry D seq prev t' a' act' d' out'"
  have "en_seq ?e = seq" "en_prev_hash ?e = prev"
    "en_hash ?e = compute_entry_hash D (en_seq ?e) (en_timestamp ?e) (en_agent_id ?e) (en_action ?e) (en_detail ?e)
       (en_outcome ?e) prev"
    by (simp_all add: new_audit_entry_def Let_def)
  then show ?case using 2 [OF refl] by (simp add: Let_def end_hash_def)
qed (simp add: end_hash_def)

lemma verify_append:
  "verify_entries D prev seq (xs @ ys) =
     (case verify_entries D prev seq xs of Inl err \<Rightarrow> Inl err | Inr (p, s) \<Rightarrow> verify_entries D p s ys)"
  by (induction xs arbitrary: prev seq) auto

lemma verify_end:
  "verify_entries D prev seq es = Inr (p, s) \<Longrightarrow> p = end_hash prev es \<and> s = end_seq seq (length es)"
proof (induction es arbitrary: prev seq)
  case (Cons e es)
  have "verify_entries D (en_hash e) (sat64 (seq + 1)) es = Inr (p, s)" using Cons.prems by (simp split: if_splits)
  from Cons.IH [OF this] show ?case by (simp add: end_hash_def)
qed (simp add: end_hash_def)

lemma verify_drop:
  assumes "verify_entries D prev seq es = Inr r" "k \<le> length es"
  shows "verify_entries D (end_hash prev (take k es)) (end_seq seq k) (drop k es) = Inr r"
proof -
  have "verify_entries D prev seq (take k es @ drop k es) = Inr r" using assms by simp
  then obtain p s where "verify_entries D prev seq (take k es) = Inr (p, s)" "verify_entries D p s (drop k es) = Inr r"
    unfolding verify_append by (auto split: sum.splits)
  with verify_end [of D prev seq "take k es" p s] assms(2) show ?thesis by simp
qed

lemma verify_head: "verify_entries D prev seq (e # es) = Inr r \<Longrightarrow> en_seq e = seq"
  by (simp split: if_splits)

text \<open>
  C24. The bounded chain refines the unbounded log: after any calls the window holds the last 10000
  entries of the log, its base is the hash of the entry before them, the tip is the hash of the
  last one, and the integrity check succeeds, even past the last sequence number.
\<close>

theorem chain_refines_log:
  "let log = full_log D genesis_hash 1 calls; s = run_chain D calls; k = length calls - max_audit_entries
   in ch_entries s = drop k log \<and> ch_window_base s = end_hash genesis_hash (take k log)
      \<and> tip_hash s = end_hash genesis_hash log \<and> ch_next_seq s = min (1 + length calls) u64_max
      \<and> verify_integrity D s = Inr ()"
proof -
  let ?log = "full_log D genesis_hash 1 calls" and ?k = "length calls - max_audit_entries"
  have u: "(1::nat) \<le> u64_max" by (simp add: u64_max_def)
  have n: "end_seq 1 (length calls) = min (1 + length calls) u64_max" by (rule end_seq_eq [OF u])
  have v: "verify_entries D (end_hash genesis_hash (take ?k ?log)) (end_seq 1 ?k) (drop ?k ?log)
      = Inr (end_hash genesis_hash ?log, min (1 + length calls) u64_max)"
    by (rule verify_drop) (simp_all only: verify_full_log n length_full_log diff_le_self)
  have "verify_integrity D (chain_of_log ?log) = Inr ()"
  proof (cases "drop ?k ?log")
    case Nil
    then have "calls = []" by (cases calls) (simp_all add: max_audit_entries_def)
    then show ?thesis
      by (simp add: verify_integrity_def chain_of_log_def Let_def end_hash_def u64_max_def)
  next
    case (Cons e es)
    from verify_head [OF v [unfolded Cons]] v Cons show ?thesis by (simp add: verify_integrity_def chain_of_log_def Let_def)
  qed
  then show ?thesis by (simp add: run_chain_log Let_def) (simp add: chain_of_log_def Let_def tip_hash_def)
qed

section \<open>Tampering\<close>

lemma field_inj:
  assumes "hash_string_field v @ r = hash_string_field w @ t" "length v \<le> u64_max" "length w \<le> u64_max"
  shows "v = w \<and> r = t"
proof -
  from assms(1) have l: "le_bytes (length v) = le_bytes (length w)" and rest: "v @ r = w @ t"
    by (auto simp: hash_string_field_def)
  from le_bytes_inj [OF _ _ l] assms(2,3) rest show ?thesis by (simp add: u64_max_def)
qed

lemma action_text_inj: "action_text a = action_text b \<Longrightarrow> a = b"
  by (cases a; cases b) (simp_all add: action_text_def)

lemma action_text_length: "length (action_text a) \<le> u64_max"
  by (cases a) (simp_all add: action_text_def u64_max_def)

text \<open>Numbers and lengths that a 64-bit machine can hold.\<close>

definition entry_fits :: "audit_entry \<Rightarrow> bool" where
  "entry_fits e \<longleftrightarrow> en_seq e \<le> u64_max \<and> length (en_timestamp e) \<le> u64_max \<and> length (en_agent_id e) \<le> u64_max
     \<and> length (en_detail e) \<le> u64_max \<and> length (en_outcome e) \<le> u64_max \<and> length (en_prev_hash e) \<le> u64_max"

definition entry_bytes :: "audit_entry \<Rightarrow> string" where
  "entry_bytes e = payload (en_seq e) (en_timestamp e) (en_agent_id e) (en_action e) (en_detail e) (en_outcome e)
     (en_prev_hash e)"

lemma entry_bytes_inj:
  assumes "entry_bytes e = entry_bytes f" "entry_fits e" "entry_fits f" "en_hash e = en_hash f"
  shows "e = f"
proof -
  note fits = assms(2,3) [unfolded entry_fits_def]
  from assms(1) have s: "le_bytes (en_seq e) = le_bytes (en_seq f)"
    and t: "hash_string_field (en_timestamp e) @ hash_string_field (en_agent_id e) @ hash_string_field (action_text (en_action e))
       @ hash_string_field (en_detail e) @ hash_string_field (en_outcome e) @ hash_string_field (en_prev_hash e)
      = hash_string_field (en_timestamp f) @ hash_string_field (en_agent_id f) @ hash_string_field (action_text (en_action f))
       @ hash_string_field (en_detail f) @ hash_string_field (en_outcome f) @ hash_string_field (en_prev_hash f)"
    by (simp_all add: entry_bytes_def payload_def)
  have "en_seq e = en_seq f" using le_bytes_inj [OF _ _ s] fits by (simp add: u64_max_def)
  moreover from field_inj [OF t] fits have "en_timestamp e = en_timestamp f" 
    and u: "hash_string_field (en_agent_id e) @ hash_string_field (action_text (en_action e))
       @ hash_string_field (en_detail e) @ hash_string_field (en_outcome e) @ hash_string_field (en_prev_hash e)
      = hash_string_field (en_agent_id f) @ hash_string_field (action_text (en_action f))
       @ hash_string_field (en_detail f) @ hash_string_field (en_outcome f) @ hash_string_field (en_prev_hash f)" by auto
  moreover from field_inj [OF u] fits have "en_agent_id e = en_agent_id f" 
    and w: "hash_string_field (action_text (en_action e))
       @ hash_string_field (en_detail e) @ hash_string_field (en_outcome e) @ hash_string_field (en_prev_hash e)
      = hash_string_field (action_text (en_action f))
       @ hash_string_field (en_detail f) @ hash_string_field (en_outcome f) @ hash_string_field (en_prev_hash f)" by auto
  moreover from field_inj [OF w action_text_length action_text_length] have "en_action e = en_action f"
    and x: "hash_string_field (en_detail e) @ hash_string_field (en_outcome e) @ hash_string_field (en_prev_hash e)
      = hash_string_field (en_detail f) @ hash_string_field (en_outcome f) @ hash_string_field (en_prev_hash f)"
    by (auto dest: action_text_inj)
  moreover from field_inj [OF x] fits have "en_detail e = en_detail f"
    and y: "hash_string_field (en_outcome e) @ hash_string_field (en_prev_hash e) @ []
      = hash_string_field (en_outcome f) @ hash_string_field (en_prev_hash f) @ []" by auto
  moreover from field_inj [OF y] fits have "en_outcome e = en_outcome f"
    and z: "hash_string_field (en_prev_hash e) @ [] = hash_string_field (en_prev_hash f) @ []" by auto
  moreover from field_inj [OF z] fits have "en_prev_hash e = en_prev_hash f" by simp
  ultimately show ?thesis using assms(4) by (cases e; cases f) simp
qed

definition collides :: "(string \<Rightarrow> string) \<Rightarrow> audit_entry list \<Rightarrow> audit_entry list \<Rightarrow> bool" where
  "collides D es fs \<longleftrightarrow> (\<exists>e\<in>set es. \<exists>f\<in>set fs. entry_bytes e \<noteq> entry_bytes f \<and> D (entry_bytes e) = D (entry_bytes f))"

lemma verify_snoc:
  assumes "verify_entries D b q (es @ [e]) = Inr (p, s)"
  shows "p = en_hash e" "en_hash e = D (entry_bytes e)" "\<exists>r. verify_entries D b q es = Inr (en_prev_hash e, r)"
  using assms unfolding verify_append by (auto simp: compute_entry_hash_def entry_bytes_def split: sum.splits if_splits)

lemma same_end_same_entries:
  assumes "verify_entries D b q es = Inr (p, s)" "verify_entries D b' q' fs = Inr (p, s')" "length es = length fs"
    and "list_all entry_fits es" "list_all entry_fits fs"
  shows "es = fs \<or> collides D es fs"
  using assms
proof (induction es arbitrary: fs p s s' rule: rev_induct)
  case (snoc e es)
  obtain f gs where fs: "fs = gs @ [f]" using snoc.prems(3) by (cases fs rule: rev_exhaust) auto
  note ve = verify_snoc [OF snoc.prems(1)] and vf = verify_snoc [OF snoc.prems(2) [unfolded fs]]
  show ?case
  proof (cases "entry_bytes e = entry_bytes f")
    case True
    then have "e = f" using entry_bytes_inj ve(1) vf(1) snoc.prems(4,5) by (simp add: fs)
    moreover obtain r r' where "verify_entries D b q es = Inr (en_prev_hash e, r)"
      "verify_entries D b' q' gs = Inr (en_prev_hash f, r')" using ve(3) vf(3) by blast
    ultimately show ?thesis
      using snoc.IH [of "en_prev_hash e" r gs r'] snoc.prems(3-5) by (auto simp: fs collides_def)
  next
    case False
    then show ?thesis using ve(1,2) vf(1,2) by (auto simp: fs collides_def)
  qed
qed simp

lemma verified_entries:
  assumes "verify_integrity D s = Inr ()"
  shows "\<exists>q. verify_entries D (ch_window_base s) q (ch_entries s) = Inr (ch_tip s, ch_next_seq s)
    \<and> (\<forall>e es. ch_entries s = e # es \<longrightarrow> q = en_seq e)"
  using assms by (auto simp: verify_integrity_def split: sum.splits if_splits list.splits)

text \<open>
  C25. Whoever changes the window without changing the tip has found a collision of the digest: two
  windows of the same length that both pass the check and end in the same tip hold the same entries,
  or two of their entries are hashed from different bytes to the same digest.
\<close>

theorem tampering_needs_collision:
  assumes "verify_integrity D s = Inr ()" "verify_integrity D s' = Inr ()"
    and "tip_hash s = tip_hash s'" "length (ch_entries s) = length (ch_entries s')"
    and "list_all entry_fits (ch_entries s)" "list_all entry_fits (ch_entries s')"
  shows "ch_entries s = ch_entries s' \<or> collides D (ch_entries s) (ch_entries s')"
proof -
  from verified_entries [OF assms(1)] verified_entries [OF assms(2)] obtain q q' where
    "verify_entries D (ch_window_base s) q (ch_entries s) = Inr (ch_tip s, ch_next_seq s)"
    "verify_entries D (ch_window_base s') q' (ch_entries s') = Inr (ch_tip s', ch_next_seq s')" by blast
  with same_end_same_entries assms(3-6) show ?thesis by (simp add: tip_hash_def)
qed

definition sample_chain :: "string \<Rightarrow> audit_chain" where
  "sample_chain detail = run_chain (\<lambda>bytes. ''h'') [(''2026-04-22T00:00:00Z'', ''cli'', ToolInvoke, detail, ''success'')]"

lemma sample_chain_ok: "verify_integrity (\<lambda>bytes. ''h'') (sample_chain ''tool=shell'') = Inr ()"
    "verify_integrity (\<lambda>bytes. ''h'') (sample_chain ''tool=echo'') = Inr ()"
  by code_simp+

lemma sample_chain_tip: "tip_hash (sample_chain ''tool=shell'') = tip_hash (sample_chain ''tool=echo'')"
    "length (ch_entries (sample_chain ''tool=shell'')) = length (ch_entries (sample_chain ''tool=echo''))"
  by code_simp+

lemma sample_chain_fits: "list_all entry_fits (ch_entries (sample_chain ''tool=shell''))"
    "list_all entry_fits (ch_entries (sample_chain ''tool=echo''))"
  by code_simp+

theorem tampering_needs_collision_witness:
  "collides (\<lambda>bytes. ''h'') (ch_entries (sample_chain ''tool=shell'')) (ch_entries (sample_chain ''tool=echo''))"
proof -
  have "map en_detail (ch_entries (sample_chain ''tool=shell'')) \<noteq> map en_detail (ch_entries (sample_chain ''tool=echo''))"
    by code_simp
  then have "ch_entries (sample_chain ''tool=shell'') \<noteq> ch_entries (sample_chain ''tool=echo'')" by metis
  with tampering_needs_collision [OF sample_chain_ok sample_chain_tip sample_chain_fits] show ?thesis by blast
qed

text \<open>
  What the check cannot see: a window whose oldest entries are removed, with the base moved to the
  hash of the last one removed, still passes, down to the empty window.
\<close>

theorem removed_front_passes:
  assumes "verify_integrity D s = Inr ()" "0 < k" "k \<le> length (ch_entries s)"
  shows "verify_integrity D (s\<lparr>ch_entries := drop k (ch_entries s),
           ch_window_base := en_hash (ch_entries s ! (k - 1))\<rparr>) = Inr ()"
proof -
  from verified_entries [OF assms(1)] obtain q where
    v: "verify_entries D (ch_window_base s) q (ch_entries s) = Inr (ch_tip s, ch_next_seq s)" by blast
  have b: "end_hash (ch_window_base s) (take k (ch_entries s)) = en_hash (ch_entries s ! (k - 1))"
    using assms(2,3) by (cases k) (simp_all add: end_hash_def take_Suc_conv_app_nth)
  from verify_drop [OF v assms(3)]
  have d: "verify_entries D (en_hash (ch_entries s ! (k - 1))) (end_seq q k) (drop k (ch_entries s))
      = Inr (ch_tip s, ch_next_seq s)" unfolding b .
  show ?thesis
  proof (cases "drop k (ch_entries s)")
    case Nil
    with d show ?thesis by (simp add: verify_integrity_def)
  next
    case (Cons e es)
    from verify_head [OF d [unfolded Cons]] d Cons show ?thesis by (simp add: verify_integrity_def)
  qed
qed

theorem removed_front_passes_witness:
  "verify_integrity (\<lambda>bytes. ''h'') ((sample_chain ''tool=shell'')\<lparr>ch_entries := [], ch_window_base := ''h''\<rparr>) = Inr ()"
proof -
  have "length (ch_entries (sample_chain ''tool=shell'')) = 1" "map en_hash (ch_entries (sample_chain ''tool=shell'')) = [''h'']"
    by code_simp+
  then obtain e where e: "ch_entries (sample_chain ''tool=shell'') = [e]" "en_hash e = ''h''"
    by (cases "ch_entries (sample_chain ''tool=shell'')") auto
  from removed_front_passes [OF sample_chain_ok(1), of 1] show ?thesis by (simp add: e)
qed

section \<open>The events of the gate\<close>

definition chain_call :: "string \<Rightarrow> audit_event \<Rightarrow> audit_call" where
  "chain_call timestamp e = (timestamp, ae_actor e, ae_action e, ae_detail e, ae_outcome e)"

definition gate_outcomes :: "string set" where
  "gate_outcomes = {''success'', ''tool_error'', ''execution_error'', ''blocked_input_safety'', ''blocked_taint'',
     ''blocked_output_safety''}"

lemma outcome_kept: "outcome \<in> gate_outcomes \<Longrightarrow> sanitize_text outcome 120 = outcome"
  unfolding gate_outcomes_def by (elim insertE emptyE; hypsubst; code_simp)

lemma audited_outcome:
  assumes "execute_tool J reg safety name input ctx st = (Some res, st')"
  shows "\<exists>outcome \<in> gate_outcomes. gs_audit st' = gs_audit st @ [tool_audit (audit_actor_id ctx) name outcome]
    \<and> (outcome = ''success'' \<longleftrightarrow> (\<exists>out. res = Inr out \<and> \<not> is_error out))"
  using assms by (cases rule: execute_cases) (auto simp: gate_outcomes_def output_error_def)

lemma recent_last:
  "\<exists>seq prev. recent_entries 1 (run_chain D (calls @ [(t, a, act, d, out)])) = [new_audit_entry D seq prev t a act d out]"
proof -
  let ?log = "full_log D genesis_hash 1 calls"
  obtain e where e: "full_log D genesis_hash 1 (calls @ [(t, a, act, d, out)]) = ?log @ [e]"
      and n: "\<exists>seq prev. e = new_audit_entry D seq prev t a act d out"
    using full_log_snoc [of D genesis_hash 1 calls t a act d out] by blast
  have k: "Suc (length calls) - max_audit_entries \<le> length ?log" by (simp add: max_audit_entries_def)
  have "recent_entries 1 (run_chain D (calls @ [(t, a, act, d, out)])) = [e]"
    using k unfolding run_chain_log e by (simp add: chain_of_log_def Let_def recent_entries_def)
  with n show ?thesis by blast
qed

text \<open>
  A call of the gate that returns is the last entry of the chain of the gate's events: with the
  caller, the action of the tool and the tool's name, each on one line and within its length, and
  the chain verifies.
\<close>

theorem gate_call_on_chain:
  assumes "execute_tool J reg safety name input ctx st = (Some res, st')"
    and "length clock = length (gs_audit st')"
  shows "\<exists>e. recent_entries 1 (run_chain D (map2 chain_call clock (gs_audit st'))) = [e]
    \<and> en_agent_id e = sanitize_text (audit_actor_id ctx) 120
    \<and> en_action e = (case audit_specific_action name of Some a \<Rightarrow> a | None \<Rightarrow> ToolInvoke)
    \<and> en_detail e = sanitize_text (''tool='' @ name) 512
    \<and> (en_outcome e = ''success'' \<longleftrightarrow> (\<exists>out. res = Inr out \<and> \<not> is_error out))
    \<and> CHR 0x0A \<notin> set (en_detail e) \<and> length (str_chars (en_detail e)) \<le> 512"
proof -
  from audited_outcome [OF assms(1)] obtain outcome where o: "outcome \<in> gate_outcomes"
      "gs_audit st' = gs_audit st @ [tool_audit (audit_actor_id ctx) name outcome]"
      "outcome = ''success'' \<longleftrightarrow> (\<exists>out. res = Inr out \<and> \<not> is_error out)" by blast
  obtain cs c where c: "clock = cs @ [c]" "length cs = length (gs_audit st)"
    using assms(2) o(2) by (cases clock rule: rev_exhaust) auto
  let ?e = "tool_audit (audit_actor_id ctx) name outcome"
  have "map2 chain_call clock (gs_audit st') = map2 chain_call cs (gs_audit st)
      @ [(c, ae_actor ?e, ae_action ?e, ae_detail ?e, ae_outcome ?e)]"
    by (simp add: o(2) c chain_call_def)
  with recent_last obtain seq prev where
    r: "recent_entries 1 (run_chain D (map2 chain_call clock (gs_audit st')))
      = [new_audit_entry D seq prev c (ae_actor ?e) (ae_action ?e) (ae_detail ?e) (ae_outcome ?e)]" by metis
  show ?thesis
    unfolding r using o(1,3) outcome_kept [OF o(1)] sanitize_text_one_line [of "''tool='' @ name" 512]
      sanitize_text_length [of "''tool='' @ name" 512]
    by (simp add: new_audit_entry_def tool_audit_def Let_def)
qed

theorem gate_call_on_chain_witness:
  "\<exists>res st'. execute_tool sample_json [''echo'' \<mapsto> counting_tool] None ''echo'' ''hi'' no_ctx idle_state = (Some res, st')
     \<and> (\<exists>e. recent_entries 1 (run_chain id (map2 chain_call [''2026-04-22T00:00:00Z''] (gs_audit st'))) = [e]
          \<and> en_detail e = ''tool=echo'')"
proof -
  have "fst (execute_with_context [''echo'' \<mapsto> counting_tool] ''echo'' ''hi'' no_ctx (gs_world idle_state)) \<noteq> None"
    by (simp add: execute_with_context_def counting_tool_def)
  from no_safety_returns [OF this] obtain res st' where
    x: "execute_tool sample_json [''echo'' \<mapsto> counting_tool] None ''echo'' ''hi'' no_ctx idle_state = (Some res, st')"
    by blast
  from audited_outcome [OF x] have l: "length [''2026-04-22T00:00:00Z''] = length (gs_audit st')"
    by (auto simp: idle_state_def)
  have d: "sanitize_text (''tool='' @ ''echo'') 512 = ''tool=echo''" by code_simp
  from gate_call_on_chain [OF x l, of id] x d show ?thesis by auto
qed

end
