(* ===== verification/Mount.thy ===== *)
theory Mount
  imports Path_Security
begin

text \<open>
  The checks on host directories that a container may see, \<open>src/src/security/mount.rs\<close>: the full
  validation against an allowlist file and the light one against the built-in patterns. They run on
  the file system of \<open>Path_Fs\<close>. The home directory, the text of the allowlist file and its JSON
  reader are parameters; a path that is not resolved is its text, as \<open>PathBuf\<close> keeps it. Patterns
  of the allowlist are taken to be ASCII, where \<open>to_lowercase\<close> is exact. Log lines are left out.
\<close>

section \<open>Data\<close>

definition default_blocked_patterns :: "string list" where
  "default_blocked_patterns =
     [''.ssh'', ''.gnupg'', ''.gpg'', ''.aws'', ''.azure'', ''.gcloud'', ''.kube'', ''.docker'', ''credentials'', ''.env'',
      ''.netrc'', ''id_rsa'', ''id_ed25519'', ''private_key'']"

record allowed_root =
  ar_path :: string
  ar_allow_read_write :: bool

record mount_allowlist =
  ma_allowed_roots :: "allowed_root list"
  ma_blocked_patterns :: "string list"

text \<open>What surrounds the checks: the home directory, the bytes of a file, and the reader of the allowlist.\<close>

record mount_env =
  me_home :: "string option"
  me_read :: "string \<Rightarrow> string + string"
  me_parse :: "string \<Rightarrow> string + mount_allowlist"

section \<open>Helpers\<close>

text \<open>\<open>PathBuf::join\<close> on texts.\<close>

definition join_text :: "string \<Rightarrow> string \<Rightarrow> string" where
  "join_text base p =
     (if is_absolute_str p then p else if base = [] \<or> last base = CHR ''/'' then base @ p else base @ ''/'' @ p)"

definition expand_path :: "string option \<Rightarrow> string \<Rightarrow> string" where
  "expand_path home path =
     (case home of
        None \<Rightarrow> path
      | Some h \<Rightarrow> if prefix ''~/'' path then join_text h (drop 2 path) else if path = ''~'' then h else path)"

definition canonicalize_existing :: "file_system \<Rightarrow> string \<Rightarrow> path_buf zresult" where
  "canonicalize_existing fs path =
     (case canonicalize fs (path_of path) of
        Inl e \<Rightarrow> Inl (SecurityViolation (''Mount path '' @ quoted path @ '' is invalid or does not exist: '' @ show_io_error e))
      | Inr p \<Rightarrow> Inr p)"

definition path_contains_blocked_pattern :: "string \<Rightarrow> string list \<Rightarrow> string option" where
  "path_contains_blocked_pattern path patterns =
     (let lower_path = to_lowercase path in find (\<lambda>pattern. str_contains lower_path (to_lowercase pattern)) patterns)"

definition path_contains_parent_component :: "string \<Rightarrow> bool" where
  "path_contains_parent_component path = list_ex (\<lambda>c. c = ParentDir) (path_of path)"

definition validate_no_hardlink_alias :: "file_system \<Rightarrow> path_buf \<Rightarrow> string \<Rightarrow> unit zresult" where
  "validate_no_hardlink_alias fs path mount_spec =
     (case metadata fs path of
        Inl e \<Rightarrow> Inl (SecurityViolation (''Failed to inspect mount path '' @ quoted (show_path path) @ '': '' @ show_io_error e))
      | Inr (File_Node n) \<Rightarrow>
          if 1 < n
          then Inl (SecurityViolation (''Mount '' @ quoted mount_spec
            @ '' points to a file with multiple hard links; use allowlist-based mount validation for sensitive mounts''))
          else Inr ()
      | Inr _ \<Rightarrow> Inr ())"

definition parse_mount_spec :: "string \<Rightarrow> (string \<times> string \<times> bool) zresult" where
  "parse_mount_spec spec =
     (case split_on (CHR '':'') spec of
        [host, container] \<Rightarrow> Inr (host, container, False)
      | [host, container, mode] \<Rightarrow>
          if mode = ''ro'' then Inr (host, container, True)
          else Inl (SecurityViolation (''Invalid mount mode '' @ quoted mode @ ''; only 'ro' is supported''))
      | _ \<Rightarrow> Inl (SecurityViolation (''Invalid mount format '' @ quoted spec
               @ ''; expected 'host:container' or '' @ quoted ''host:container:ro'')))"

definition load_allowlist :: "mount_env \<Rightarrow> file_system \<Rightarrow> string \<Rightarrow> mount_allowlist zresult" where
  "load_allowlist env fs allowlist_path =
     (case metadata fs (path_of allowlist_path) of
        Inl _ \<Rightarrow> Inl (SecurityViolation (''Mount allowlist not found at '' @ quoted allowlist_path))
      | Inr _ \<Rightarrow>
          (case me_read env allowlist_path of
             Inl e \<Rightarrow> Inl (SecurityViolation (''Failed to read mount allowlist '' @ quoted allowlist_path @ '': '' @ e))
           | Inr content \<Rightarrow>
               (case me_parse env content of
                  Inl e \<Rightarrow>
                    Inl (SecurityViolation (''Invalid mount allowlist JSON at '' @ quoted allowlist_path @ '': '' @ e))
                | Inr al \<Rightarrow> Inr al)))"

definition is_under_root :: "path_buf \<Rightarrow> path_buf \<Rightarrow> bool" where
  "is_under_root path root = (case strip_prefix path root of None \<Rightarrow> False | Some relative \<Rightarrow> \<not> is_absolute relative)"

section \<open>Validation\<close>

definition bad_container :: "string \<Rightarrow> bool" where
  "bad_container container \<longleftrightarrow> container = [] \<or> \<not> starts_with container ''/'' \<or> str_contains container ''..''"

definition root_admits :: "string option \<Rightarrow> file_system \<Rightarrow> path_buf \<Rightarrow> allowed_root \<Rightarrow> bool" where
  "root_admits home fs host_path root =
     (case canonicalize_existing fs (expand_path home (ar_path root)) of
        Inl _ \<Rightarrow> False
      | Inr root_path \<Rightarrow> is_under_root host_path root_path)"

definition normalized_mount :: "path_buf \<Rightarrow> string \<Rightarrow> bool \<Rightarrow> string" where
  "normalized_mount host_path container read_only =
     (if read_only then show_path host_path @ '':'' @ container @ '':ro'' else show_path host_path @ '':'' @ container)"

text \<open>One round of the loop over the mounts.\<close>

definition validate_mount ::
    "string option \<Rightarrow> file_system \<Rightarrow> string \<Rightarrow> mount_allowlist \<Rightarrow> string list \<Rightarrow> string \<Rightarrow> string zresult" where
  "validate_mount home fs allowlist_path allowlist blocked_patterns mount =
     (case parse_mount_spec mount of
        Inl e \<Rightarrow> Inl e
      | Inr (host, container, requested_read_only) \<Rightarrow>
          if bad_container container
          then Inl (SecurityViolation (''Invalid container mount path '' @ quoted container @ '' in '' @ quoted mount))
          else (case canonicalize_existing fs (expand_path home host) of
             Inl e \<Rightarrow> Inl e
           | Inr host_path \<Rightarrow>
               (case path_contains_blocked_pattern (show_path host_path) blocked_patterns of
                  Some pattern \<Rightarrow>
                    Inl (SecurityViolation (''Mount '' @ quoted (show_path host_path) @ '' blocked by pattern '' @ quoted pattern))
                | None \<Rightarrow>
                    (case validate_no_hardlink_alias fs host_path mount of
                       Inl e \<Rightarrow> Inl e
                     | Inr _ \<Rightarrow>
                         (case find (root_admits home fs host_path) (ma_allowed_roots allowlist) of
                            None \<Rightarrow>
                              Inl (SecurityViolation (''Mount '' @ quoted (show_path host_path)
                                @ '' is outside allowedRoots in '' @ quoted allowlist_path))
                          | Some root \<Rightarrow>
                              Inr (normalized_mount host_path container (requested_read_only \<or> \<not> ar_allow_read_write root)))))))"

fun validate_mounts ::
    "string option \<Rightarrow> file_system \<Rightarrow> string \<Rightarrow> mount_allowlist \<Rightarrow> string list \<Rightarrow> string list \<Rightarrow> string list \<Rightarrow> string list zresult" where
  "validate_mounts home fs ap al blocked normalized [] = Inr normalized"
| "validate_mounts home fs ap al blocked normalized (m # ms) =
     (case validate_mount home fs ap al blocked m of
        Inl e \<Rightarrow> Inl e
      | Inr spec \<Rightarrow> validate_mounts home fs ap al blocked (normalized @ [spec]) ms)"

definition validate_extra_mounts ::
    "mount_env \<Rightarrow> file_system \<Rightarrow> string list \<Rightarrow> string \<Rightarrow> string list zresult" where
  "validate_extra_mounts env fs mounts allowlist_path =
     (if mounts = [] then Inr []
      else let allowlist_path = expand_path (me_home env) allowlist_path in
           case load_allowlist env fs allowlist_path of
             Inl e \<Rightarrow> Inl e
           | Inr allowlist \<Rightarrow>
               if ma_allowed_roots allowlist = []
               then Inl (SecurityViolation ''Mount allowlist has no allowedRoots entries'')
               else validate_mounts (me_home env) fs allowlist_path allowlist
                      (default_blocked_patterns @ ma_blocked_patterns allowlist) [] mounts)"

text \<open>The light check, which needs no allowlist.\<close>

definition validate_mount_not_blocked :: "string option \<Rightarrow> file_system \<Rightarrow> string \<Rightarrow> unit zresult" where
  "validate_mount_not_blocked home fs mount_spec =
     (case parse_mount_spec mount_spec of
        Inl e \<Rightarrow> Inl e
      | Inr (host, container, _) \<Rightarrow>
          if bad_container container
          then Inl (SecurityViolation (''Invalid container mount path '' @ quoted container @ '' in '' @ quoted mount_spec))
          else let host_path = expand_path home host in
            if path_contains_parent_component host_path
            then Inl (SecurityViolation (''Mount host path '' @ quoted host @ '' contains path traversal''))
            else (case path_contains_blocked_pattern host_path default_blocked_patterns of
               Some pattern \<Rightarrow>
                 Inl (SecurityViolation (''Mount '' @ quoted mount_spec @ '' blocked by sensitive pattern '' @ quoted pattern))
             | None \<Rightarrow>
                 (case metadata fs (path_of host_path) of
                    Inr _ \<Rightarrow>
                      (case canonicalize_existing fs host_path of
                         Inl e \<Rightarrow> Inl e
                       | Inr canonical_host \<Rightarrow>
                           (case path_contains_blocked_pattern (show_path canonical_host) default_blocked_patterns of
                              Some pattern \<Rightarrow>
                                Inl (SecurityViolation (''Resolved mount path '' @ quoted (show_path canonical_host)
                                  @ '' blocked by sensitive pattern '' @ quoted pattern))
                            | None \<Rightarrow> validate_no_hardlink_alias fs canonical_host mount_spec))
                  | Inl Not_Found \<Rightarrow> Inr ()
                  | Inl e \<Rightarrow>
                      Inl (SecurityViolation (''Failed to inspect mount path '' @ quoted host_path @ '': '' @ show_io_error e)))))"

section \<open>What an accepted mount is\<close>

lemma blocked_None:
  "path_contains_blocked_pattern path patterns = None \<longleftrightarrow>
     (\<forall>p\<in>set patterns. \<not> str_contains (to_lowercase path) (to_lowercase p))"
  by (auto simp: path_contains_blocked_pattern_def Let_def find_None_iff)

lemma is_under_root_prefix: "is_under_root path root \<Longrightarrow> prefix root path"
  by (auto simp: is_under_root_def strip_prefix_Some split: option.splits)

lemma canonicalize_existing_Inr [simp]:
  "canonicalize_existing fs path = Inr p \<longleftrightarrow> canonicalize fs (path_of path) = Inr p"
  by (auto simp: canonicalize_existing_def split: sum.splits)

lemma no_alias_Inr:
  "validate_no_hardlink_alias fs path m = Inr () \<longleftrightarrow>
     metadata fs path = Inr Dir_Node \<or> (\<exists>t. metadata fs path = Inr (Link_Node t))
       \<or> (\<exists>n\<le>1. metadata fs path = Inr (File_Node n))"
  by (auto simp: validate_no_hardlink_alias_def split: sum.splits node.splits)

text \<open>What the validation promises of a mount and of the text it returns for it.\<close>

definition mount_granted ::
    "string option \<Rightarrow> file_system \<Rightarrow> mount_allowlist \<Rightarrow> string \<Rightarrow> string \<Rightarrow> bool" where
  "mount_granted home fs al mount spec \<longleftrightarrow>
     (\<exists>host container ro host_path before root after root_path.
        parse_mount_spec mount = Inr (host, container, ro)
      \<and> canonicalize fs (path_of (expand_path home host)) = Inr host_path
      \<and> (\<forall>p\<in>set (default_blocked_patterns @ ma_blocked_patterns al).
            \<not> str_contains (to_lowercase (show_path host_path)) (to_lowercase p))
      \<and> (\<forall>n. metadata fs host_path = Inr (File_Node n) \<longrightarrow> n \<le> 1)
      \<and> starts_with container ''/'' \<and> \<not> str_contains container ''..''
      \<and> ma_allowed_roots al = before @ root # after
      \<and> canonicalize fs (path_of (expand_path home (ar_path root))) = Inr root_path \<and> prefix root_path host_path
      \<and> (\<forall>r\<in>set before. \<not> root_admits home fs host_path r)
      \<and> spec = normalized_mount host_path container (ro \<or> \<not> ar_allow_read_write root))"

lemma find_split: "find P xs = Some x \<Longrightarrow> \<exists>before after. xs = before @ x # after \<and> P x \<and> (\<forall>y\<in>set before. \<not> P y)"
proof (induction xs)
  case (Cons y ys)
  show ?case
  proof (cases "P y")
    case True
    with Cons.prems show ?thesis by (intro exI [of _ "[]"] exI [of _ ys]) auto
  next
    case False
    with Cons obtain before after where "ys = before @ x # after \<and> P x \<and> (\<forall>y\<in>set before. \<not> P y)" by auto
    with False show ?thesis by (intro exI [of _ "y # before"] exI [of _ after]) auto
  qed
qed simp

lemma validate_mount_granted:
  assumes "validate_mount home fs ap al (default_blocked_patterns @ ma_blocked_patterns al) m = Inr spec"
  shows "mount_granted home fs al m spec"
proof -
  from assms obtain host container ro hp root where
    p: "parse_mount_spec m = Inr (host, container, ro)" and c: "\<not> bad_container container"
    and hp: "canonicalize fs (path_of (expand_path home host)) = Inr hp"
    and b: "path_contains_blocked_pattern (show_path hp) (default_blocked_patterns @ ma_blocked_patterns al) = None"
    and h: "validate_no_hardlink_alias fs hp m = Inr ()"
    and r: "find (root_admits home fs hp) (ma_allowed_roots al) = Some root"
    and s: "spec = normalized_mount hp container (ro \<or> \<not> ar_allow_read_write root)"
    by (auto simp: validate_mount_def split: sum.splits if_splits option.splits)
  from find_split [OF r] obtain before after where
    f: "ma_allowed_roots al = before @ root # after" "root_admits home fs hp root"
      "\<forall>y\<in>set before. \<not> root_admits home fs hp y" by blast
  then obtain rp where "canonicalize fs (path_of (expand_path home (ar_path root))) = Inr rp" "prefix rp hp"
    by (auto simp: root_admits_def dest: is_under_root_prefix split: sum.splits)
  moreover have "\<forall>n. metadata fs hp = Inr (File_Node n) \<longrightarrow> n \<le> 1" using h by (auto simp: no_alias_Inr)
  ultimately show ?thesis
    unfolding mount_granted_def using p c hp b s f unfolding blocked_None bad_container_def by blast
qed

lemma validate_mounts_list:
  "validate_mounts home fs ap al bl acc ms = Inr specs \<Longrightarrow>
     \<exists>new. specs = acc @ new \<and> list_all2 (\<lambda>m spec. validate_mount home fs ap al bl m = Inr spec) ms new"
proof (induction ms arbitrary: acc)
  case (Cons m ms)
  then obtain spec where v: "validate_mount home fs ap al bl m = Inr spec"
    "validate_mounts home fs ap al bl (acc @ [spec]) ms = Inr specs" by (auto split: sum.splits)
  from Cons.IH [OF v(2)] obtain new where
    "specs = (acc @ [spec]) @ new" "list_all2 (\<lambda>m spec. validate_mount home fs ap al bl m = Inr spec) ms new" by blast
  with v(1) show ?case by (intro exI [of _ "spec # new"]) simp
qed simp

text \<open>
  C23. Mounts stay within the allowlist: when mounts are accepted, each of them, and none other, is
  returned with its host path resolved; that path is free of symbolic links, lies under the resolved
  path of an allowed root, contains no blocked pattern and is no file with a second name; and it is
  writable only where the first root that holds it allows writing and the mount did not ask for
  reading alone.
\<close>

theorem mounts_confined:
  assumes "validate_extra_mounts env fs mounts ap = Inr specs" "mounts \<noteq> []" "fs_ok fs"
  shows "\<exists>al. load_allowlist env fs (expand_path (me_home env) ap) = Inr al
    \<and> list_all2 (mount_granted (me_home env) fs al) mounts specs
    \<and> list_all2 (\<lambda>m spec. \<exists>hp c ro. spec = normalized_mount hp c ro \<and> canonicalize fs hp = Inr hp) mounts specs"
proof -
  from assms(1,2) obtain al where al: "load_allowlist env fs (expand_path (me_home env) ap) = Inr al"
    and v: "validate_mounts (me_home env) fs (expand_path (me_home env) ap) al
      (default_blocked_patterns @ ma_blocked_patterns al) [] mounts = Inr specs"
    by (auto simp: validate_extra_mounts_def Let_def split: sum.splits if_splits)
  from validate_mounts_list [OF v] have g: "list_all2 (mount_granted (me_home env) fs al) mounts specs"
    by (auto elim: list_all2_mono intro: validate_mount_granted)
  moreover have "list_all2 (\<lambda>m spec. \<exists>hp c ro. spec = normalized_mount hp c ro \<and> canonicalize fs hp = Inr hp) mounts specs"
    using g by (rule list_all2_mono) (auto simp: mount_granted_def dest: canonicalize_idem [OF assms(3)])
  ultimately show ?thesis using al by blast
qed

definition sample_mount_fs :: file_system where
  "sample_mount_fs =
     \<lparr>fs_node = [[''data''] \<mapsto> Dir_Node, [''data'', ''keys''] \<mapsto> Dir_Node, [''link''] \<mapsto> Link_Node (abs_path [''data'', ''keys'']),
        [''list.json''] \<mapsto> File_Node 1],
      fs_cwd = [], fs_writable = (\<lambda>_. True), fs_dir_links = (\<lambda>_. 2)\<rparr>"

definition sample_allowlist :: mount_allowlist where
  "sample_allowlist =
     \<lparr>ma_allowed_roots =
        [\<lparr>ar_path = ''/gone'', ar_allow_read_write = True\<rparr>, \<lparr>ar_path = ''~'', ar_allow_read_write = True\<rparr>,
         \<lparr>ar_path = ''/data/keys'', ar_allow_read_write = False\<rparr>], ma_blocked_patterns = []\<rparr>"

definition sample_mount_env :: mount_env where
  "sample_mount_env =
     \<lparr>me_home = Some ''/data'', me_read = (\<lambda>_. Inr []), me_parse = (\<lambda>_. Inr sample_allowlist)\<rparr>"

lemma sample_mount_fs_ok: "fs_ok sample_mount_fs"
  by (simp add: fs_ok_def sample_mount_fs_def)

lemma sample_mount_accepted:
  "validate_extra_mounts sample_mount_env sample_mount_fs [''/link:/keys'', ''/data/:/d:ro''] ''/list.json''
     = Inr [''/data/keys:/keys'', ''/data:/d:ro'']"
  by code_simp

theorem mounts_confined_witness:
  "\<exists>al. load_allowlist sample_mount_env sample_mount_fs (expand_path (me_home sample_mount_env) ''/list.json'') = Inr al
     \<and> list_all2 (mount_granted (me_home sample_mount_env) sample_mount_fs al)
         [''/link:/keys'', ''/data/:/d:ro''] [''/data/keys:/keys'', ''/data:/d:ro'']"
  using mounts_confined [OF sample_mount_accepted _ sample_mount_fs_ok] by auto

text \<open>
  A root that stands first in the allowlist decides alone: a root for reading only that lies inside
  an earlier root for writing has no effect.
\<close>

theorem narrow_root_shadowed:
  assumes "ma_allowed_roots al = before @ broad # after" "ar_allow_read_write broad"
    and "canonicalize fs (path_of (expand_path home (ar_path broad))) = Inr (abs_path d)"
    and "canonicalize fs (path_of (expand_path home host)) = Inr (abs_path (d @ r))"
    and "\<forall>b\<in>set before. \<not> root_admits home fs (abs_path (d @ r)) b"
    and "parse_mount_spec m = Inr (host, container, False)"
    and "validate_mount home fs ap al bl m = Inr spec"
  shows "spec = show_path (abs_path (d @ r)) @ '':'' @ container"
proof -
  have "is_under_root (abs_path (d @ r)) (abs_path d)"
  proof -
    have "strip_prefix (abs_path (d @ r)) (abs_path d) = Some (map Normal r)"
      by (simp add: strip_prefix_Some abs_path_def)
    then show ?thesis by (cases r) (simp_all add: is_under_root_def is_absolute_def)
  qed
  then have "root_admits home fs (abs_path (d @ r)) broad"
    by (simp add: root_admits_def canonicalize_existing_def assms(3))
  then have "find (root_admits home fs (abs_path (d @ r))) (ma_allowed_roots al) = Some broad"
    using assms(5) unfolding assms(1) by (induction before) auto
  with assms(2,4,6,7) show ?thesis
    by (auto simp: validate_mount_def canonicalize_existing_def normalized_mount_def split: if_splits option.splits sum.splits)
qed

theorem narrow_root_shadowed_witness:
  "\<exists>spec. validate_mount (Some ''/data'') sample_mount_fs ''/list.json'' sample_allowlist [] ''/link:/keys'' = Inr spec
     \<and> spec = show_path (abs_path ([''data''] @ [''keys''])) @ '':'' @ ''/keys''"
proof -
  have r: "ma_allowed_roots sample_allowlist = [\<lparr>ar_path = ''/gone'', ar_allow_read_write = True\<rparr>]
      @ \<lparr>ar_path = ''~'', ar_allow_read_write = True\<rparr> # [\<lparr>ar_path = ''/data/keys'', ar_allow_read_write = False\<rparr>]"
    "ar_allow_read_write \<lparr>ar_path = ''~'', ar_allow_read_write = True\<rparr>"
    by (simp_all add: sample_allowlist_def)
  have c: "canonicalize sample_mount_fs (path_of (expand_path (Some ''/data'') (ar_path \<lparr>ar_path = ''~'', ar_allow_read_write = True\<rparr>)))
      = Inr (abs_path [''data''])"
    "canonicalize sample_mount_fs (path_of (expand_path (Some ''/data'') ''/link'')) = Inr (abs_path ([''data''] @ [''keys'']))"
    "\<forall>b\<in>set [\<lparr>ar_path = ''/gone'', ar_allow_read_write = True\<rparr>].
       \<not> root_admits (Some ''/data'') sample_mount_fs (abs_path ([''data''] @ [''keys''])) b"
    "parse_mount_spec ''/link:/keys'' = Inr (''/link'', ''/keys'', False)"
    by code_simp+
  have "validate_mount (Some ''/data'') sample_mount_fs ''/list.json'' sample_allowlist [] ''/link:/keys''
      = Inr ''/data/keys:/keys''" by code_simp
  with narrow_root_shadowed [OF r c this] show ?thesis by blast
qed

section \<open>Reading a returned mount back\<close>

lemma split_on_nosep: "c \<notin> set a \<Longrightarrow> split_on c (a @ c # b) = a # split_on c b"
  by (induction a) auto

lemma split_on_single: "c \<notin> set a \<Longrightarrow> split_on c a = [a]"
  by (induction a) auto

lemma split_on_parts: "p \<in> set (split_on c s) \<Longrightarrow> c \<notin> set p"
proof (induction s arbitrary: p)
  case (Cons x xs)
  then show ?case by (cases "split_on c xs") (auto split: if_splits)
qed simp

text \<open>
  The text of an accepted mount reads back: unless the resolved host path holds a colon, it parses
  to that path, the container path that was asked for, and the mode that was granted.
\<close>

theorem granted_mount_reads_back:
  assumes "validate_mount home fs ap al bl m = Inr spec"
  shows "\<exists>hp container ro. spec = normalized_mount hp container ro
    \<and> (CHR '':'' \<notin> set (show_path hp) \<longrightarrow> parse_mount_spec spec = Inr (show_path hp, container, ro))"
proof -
  from assms obtain host container ro hp r where
    p: "parse_mount_spec m = Inr (host, container, ro)" and s: "spec = normalized_mount hp container r"
    by (auto simp: validate_mount_def split: sum.splits if_splits option.splits)
  have "container \<in> set (split_on (CHR '':'') m)"
    using p by (auto simp: parse_mount_spec_def split: list.splits if_splits)
  then have c: "CHR '':'' \<notin> set container" by (rule split_on_parts)
  have "CHR '':'' \<notin> set (show_path hp) \<Longrightarrow>
      parse_mount_spec (normalized_mount hp container r) = Inr (show_path hp, container, r)" for r
    using c by (simp add: parse_mount_spec_def normalized_mount_def split_on_nosep split_on_single)
  with s show ?thesis by blast
qed

theorem granted_mount_reads_back_witness:
  "validate_mount (Some ''/data'') sample_mount_fs ''/list.json''
      \<lparr>ma_allowed_roots = [\<lparr>ar_path = ''~'', ar_allow_read_write = False\<rparr>], ma_blocked_patterns = []\<rparr> [] ''/link:/keys''
      = Inr ''/data/keys:/keys:ro''
   \<and> (\<exists>hp container ro. ''/data/keys:/keys:ro'' = normalized_mount hp container ro)"
proof -
  have v: "validate_mount (Some ''/data'') sample_mount_fs ''/list.json''
      \<lparr>ma_allowed_roots = [\<lparr>ar_path = ''~'', ar_allow_read_write = False\<rparr>], ma_blocked_patterns = []\<rparr> [] ''/link:/keys''
      = Inr ''/data/keys:/keys:ro''" by code_simp
  from granted_mount_reads_back [OF v] v show ?thesis by blast
qed

section \<open>The light check\<close>

lemma canonical_metadata: "fs_ok fs \<Longrightarrow> canonicalize fs p = Inr c \<Longrightarrow> \<exists>nd. metadata fs p = Inr nd"
proof -
  assume "fs_ok fs" "canonicalize fs p = Inr c"
  then obtain d where d: "resolve fs p = Inr d" "real_name (fs_node fs) d" using canonicalize_abs by blast
  then show ?thesis by (cases d rule: rev_exhaust) (auto simp: metadata_def node_at_def real_name_snoc)
qed

text \<open>
  The light check refuses what it can see: a mount that passes names a host path without a parent
  component and without a blocked pattern, and when that path exists, so does the path it resolves
  to, which is no file with a second name.
\<close>

theorem light_check_sound:
  assumes "validate_mount_not_blocked home fs m = Inr ()" "fs_ok fs"
  shows "\<exists>host container ro. parse_mount_spec m = Inr (host, container, ro) \<and> \<not> bad_container container
    \<and> (let hp = expand_path home host in
         ParentDir \<notin> set (path_of hp)
       \<and> (\<forall>p\<in>set default_blocked_patterns. \<not> str_contains (to_lowercase hp) (to_lowercase p))
       \<and> (case canonicalize fs (path_of hp) of
            Inl e \<Rightarrow> e = Not_Found
          | Inr c \<Rightarrow> (\<forall>p\<in>set default_blocked_patterns. \<not> str_contains (to_lowercase (show_path c)) (to_lowercase p))
              \<and> (\<forall>n. metadata fs c = Inr (File_Node n) \<longrightarrow> n \<le> 1)))"
proof -
  from assms obtain host container ro where
    p: "parse_mount_spec m = Inr (host, container, ro)" and c: "\<not> bad_container container"
    and t: "\<not> path_contains_parent_component (expand_path home host)"
    and b: "path_contains_blocked_pattern (expand_path home host) default_blocked_patterns = None"
    by (auto simp: validate_mount_not_blocked_def Let_def split: sum.splits if_splits option.splits)
  let ?hp = "expand_path home host"
  have "case canonicalize fs (path_of ?hp) of
            Inl e \<Rightarrow> e = Not_Found
          | Inr c \<Rightarrow> (\<forall>p\<in>set default_blocked_patterns. \<not> str_contains (to_lowercase (show_path c)) (to_lowercase p))
              \<and> (\<forall>n. metadata fs c = Inr (File_Node n) \<longrightarrow> n \<le> 1)"
  proof (cases "canonicalize fs (path_of ?hp)")
    case (Inl e)
    then have "metadata fs (path_of ?hp) = Inl e" by (auto simp: canonicalize_def metadata_def split: sum.splits)
    then show ?thesis using assms p c t b Inl
      by (cases e) (simp_all add: validate_mount_not_blocked_def Let_def)
  next
    case (Inr q)
    then obtain nd where "metadata fs (path_of ?hp) = Inr nd" using canonical_metadata [OF assms(2)] by blast
    with assms(1) p c t b Inr have
      "path_contains_blocked_pattern (show_path q) default_blocked_patterns = None"
      "validate_no_hardlink_alias fs q m = Inr ()"
      by (simp_all add: validate_mount_not_blocked_def canonicalize_existing_def Let_def split: option.splits)
    with Inr show ?thesis by (auto simp: blocked_None no_alias_Inr)
  qed
  then show ?thesis using p c t b by (auto simp: Let_def path_contains_parent_component_def list_ex_iff blocked_None)
qed

theorem light_check_sound_witness:
  "\<exists>host container ro. parse_mount_spec ''/link:/keys'' = Inr (host, container, ro) \<and> \<not> bad_container container"
proof -
  have "validate_mount_not_blocked None sample_mount_fs ''/link:/keys'' = Inr ()" by code_simp
  from light_check_sound [OF this sample_mount_fs_ok] show ?thesis by blast
qed

text \<open>
  What the light check lets through: the root of the host, in whatever file system, and with it
  every path that the patterns are there to keep out.
\<close>

theorem whole_host_passes: "validate_mount_not_blocked home fs ''/:/host'' = Inr ()"
proof -
  have e: "expand_path home ''/'' = ''/''" by (cases home) (simp_all add: expand_path_def)
  have p: "parse_mount_spec ''/:/host'' = Inr (''/'', ''/host'', False)" "\<not> bad_container ''/host''"
    "\<not> path_contains_parent_component ''/''" "path_contains_blocked_pattern ''/'' default_blocked_patterns = None"
    "path_of ''/'' = [RootDir]" "show_path [RootDir] = ''/''"
    by code_simp+
  have "resolve fs [RootDir] = Inr []" by (simp add: resolve_def)
  then have m: "metadata fs [RootDir] = Inr Dir_Node" "canonicalize fs [RootDir] = Inr [RootDir]"
    by (simp_all add: metadata_def canonicalize_def abs_path_def node_at_def)
  show ?thesis
    by (simp add: validate_mount_not_blocked_def p e m canonicalize_existing_def validate_no_hardlink_alias_def Let_def)
qed

end
