(* ===== verification/Diff.thy ===== *)
theory Diff
  imports Number_Text
begin

text \<open>
  The unified diffs of the edit tool, \<open>src/src/tools/diff.rs\<close>: splitting a text into lines, reading the
  hunks and their headers, and applying them to a text. The messages of the errors are a datatype
  with the numbers and texts they print. The application is proved equal to a patch relation on
  lines, reading is proved a left inverse of printing, and undoing a diff is proved to restore the text.
\<close>

section \<open>Data\<close>

record diff_summary =
  ds_lines_added :: nat
  ds_lines_removed :: nat
  ds_hunks_applied :: nat

datatype hunk_line_kind = Context_Line | Remove_Line | Add_Line

record hunk_line =
  hl_kind :: hunk_line_kind
  hl_content :: string

record hunk =
  hk_old_start :: nat
  hk_old_count :: nat
  hk_lines :: "hunk_line list"

datatype diff_error =
    No_Hunks
  | Malformed_Header string
  | Count_Mismatch nat nat nat
  | Past_End nat nat nat
  | Context_At_End string
  | Context_Mismatch nat string string
  | Remove_At_End string
  | Remove_Mismatch nat string string

section \<open>Reading\<close>

fun split_lines :: "string \<Rightarrow> string \<Rightarrow> string list" where
  "split_lines acc [] = (if acc = [] then [] else [acc])"
| "split_lines acc (c # cs) =
     (if c = CHR 0x0A then (acc @ [c]) # split_lines [] cs else split_lines (acc @ [c]) cs)"

definition split_lines_keep_terminator :: "string \<Rightarrow> string list" where
  "split_lines_keep_terminator text = split_lines [] text"

definition trim_end_char :: "char \<Rightarrow> string \<Rightarrow> string" where
  "trim_end_char c s = rev (dropWhile (\<lambda>d. d = c) (rev s))"

definition strip_terminator :: "string \<Rightarrow> string" where
  "strip_terminator line = trim_end_char (CHR 0x0D) (trim_end_char (CHR 0x0A) line)"

text \<open>\<open>str::parse::<usize>\<close>: an optional plus sign and at least one digit, within 64 bits.\<close>

definition parse_usize :: "string \<Rightarrow> nat option" where
  "parse_usize s =
     (let ds = (case s of [] \<Rightarrow> s | c # cs \<Rightarrow> if c = CHR ''+'' then cs else s)
      in if ds = [] then None
         else (case parse_digits 0 ds of None \<Rightarrow> None | Some n \<Rightarrow> if n \<le> u64_max then Some n else None))"

definition parse_hunk_header :: "string \<Rightarrow> diff_error + nat \<times> nat" where
  "parse_hunk_header line =
     (let inner = dropWhile (\<lambda>c. c = CHR '' '') (dropWhile (\<lambda>c. c = CHR ''@'') line)
      in case find (\<lambda>s. starts_with s ''-'') (split_whitespace inner) of
           None \<Rightarrow> Inl (Malformed_Header line)
         | Some old_part \<Rightarrow>
             (let old_str = dropWhile (\<lambda>c. c = CHR ''-'') old_part
              in if CHR '','' \<in> set old_str
                 then (case (parse_usize (takeWhile (\<lambda>c. c \<noteq> CHR '','') old_str),
                             parse_usize (drop 1 (dropWhile (\<lambda>c. c \<noteq> CHR '','') old_str))) of
                         (Some start, Some count) \<Rightarrow> Inr (start, count)
                       | _ \<Rightarrow> Inl (Malformed_Header line))
                 else (case parse_usize old_str of
                         Some start \<Rightarrow> Inr (start, 1)
                       | None \<Rightarrow> Inl (Malformed_Header line))))"

definition old_lines :: "hunk_line list \<Rightarrow> nat" where
  "old_lines ls = length (filter (\<lambda>l. hl_kind l = Context_Line \<or> hl_kind l = Remove_Line) ls)"

definition validate_hunk :: "hunk \<Rightarrow> diff_error option" where
  "validate_hunk h =
     (if 0 < hk_old_count h \<and> old_lines (hk_lines h) \<noteq> hk_old_count h
      then Some (Count_Mismatch (hk_old_start h) (hk_old_count h) (old_lines (hk_lines h))) else None)"

definition line_kind :: "string \<Rightarrow> hunk_line_kind option" where
  "line_kind raw =
     (if starts_with raw ''+'' then Some Add_Line
      else if starts_with raw ''-'' then Some Remove_Line
      else if starts_with raw '' '' then Some Context_Line
      else None)"

definition close_hunk :: "hunk list \<Rightarrow> hunk option \<Rightarrow> diff_error + hunk list" where
  "close_hunk hunks current =
     (case current of
        None \<Rightarrow> Inr hunks
      | Some h \<Rightarrow> (case validate_hunk h of Some e \<Rightarrow> Inl e | None \<Rightarrow> Inr (hunks @ [h])))"

fun parse_lines :: "hunk list \<Rightarrow> hunk option \<Rightarrow> string list \<Rightarrow> diff_error + hunk list" where
  "parse_lines hunks current [] = close_hunk hunks current"
| "parse_lines hunks current (raw # rest) =
     (if starts_with raw ''@@''
      then (case close_hunk hunks current of
              Inl e \<Rightarrow> Inl e
            | Inr hunks \<Rightarrow>
                (case parse_hunk_header raw of
                   Inl e \<Rightarrow> Inl e
                 | Inr (start, count) \<Rightarrow>
                     parse_lines hunks (Some \<lparr>hk_old_start = start, hk_old_count = count, hk_lines = []\<rparr>) rest))
      else (case current of
              None \<Rightarrow> parse_lines hunks None rest
            | Some h \<Rightarrow>
                (case line_kind raw of
                   None \<Rightarrow> parse_lines hunks current rest
                 | Some kind \<Rightarrow>
                     parse_lines hunks
                       (Some (h\<lparr>hk_lines := hk_lines h @ [\<lparr>hl_kind = kind, hl_content = drop 1 raw\<rparr>]\<rparr>)) rest)))"

definition parse_hunks :: "string \<Rightarrow> diff_error + hunk list" where
  "parse_hunks diff = parse_lines [] None (str_lines diff)"

section \<open>Applying\<close>

text \<open>The copying of the lines before a hunk.\<close>

function copy_lines :: "string list \<Rightarrow> nat \<Rightarrow> nat \<Rightarrow> string list \<Rightarrow> nat \<Rightarrow> diff_error + string list \<times> nat" where
  "copy_lines orig start copy_until out pos =
     (if pos < copy_until
      then if length orig \<le> pos then Inl (Past_End start (pos + 1) (length orig))
           else copy_lines orig start copy_until (out @ [orig ! pos]) (pos + 1)
      else Inr (out, pos))"
  by pat_completeness auto
termination
  by (relation "measure (\<lambda>(orig, start, copy_until, out, pos). copy_until - pos)") auto

declare copy_lines.simps [simp del]

definition with_terminator :: "string \<Rightarrow> string" where
  "with_terminator s = (if \<not> ends_with s [CHR 0x0A] \<and> \<not> ends_with s [CHR 0x0D] then s @ [CHR 0x0A] else s)"

fun apply_lines ::
    "string list \<Rightarrow> hunk_line list \<Rightarrow> string list \<Rightarrow> nat \<Rightarrow> diff_summary \<Rightarrow> diff_error + string list \<times> nat \<times> diff_summary" where
  "apply_lines orig [] out pos sm = Inr (out, pos, sm)"
| "apply_lines orig (l # ls) out pos sm =
     (case hl_kind l of
        Context_Line \<Rightarrow>
          if length orig \<le> pos then Inl (Context_At_End (hl_content l))
          else if strip_terminator (orig ! pos) \<noteq> hl_content l
          then Inl (Context_Mismatch (pos + 1) (hl_content l) (strip_terminator (orig ! pos)))
          else apply_lines orig ls (out @ [orig ! pos]) (pos + 1) sm
      | Remove_Line \<Rightarrow>
          if length orig \<le> pos then Inl (Remove_At_End (hl_content l))
          else if strip_terminator (orig ! pos) \<noteq> hl_content l
          then Inl (Remove_Mismatch (pos + 1) (hl_content l) (strip_terminator (orig ! pos)))
          else apply_lines orig ls out (pos + 1) (sm\<lparr>ds_lines_removed := ds_lines_removed sm + 1\<rparr>)
      | Add_Line \<Rightarrow>
          apply_lines orig ls (out @ [with_terminator (hl_content l)]) pos (sm\<lparr>ds_lines_added := ds_lines_added sm + 1\<rparr>))"

fun apply_hunk_list ::
    "string list \<Rightarrow> hunk list \<Rightarrow> string list \<Rightarrow> nat \<Rightarrow> diff_summary \<Rightarrow> diff_error + string list \<times> diff_summary" where
  "apply_hunk_list orig [] out pos sm = Inr (out @ drop pos orig, sm)"
| "apply_hunk_list orig (h # hs) out pos sm =
     (case copy_lines orig (hk_old_start h) (hk_old_start h - 1) out pos of
        Inl e \<Rightarrow> Inl e
      | Inr (out, pos) \<Rightarrow>
          (case apply_lines orig (hk_lines h) out pos sm of
             Inl e \<Rightarrow> Inl e
           | Inr (out, pos, sm) \<Rightarrow>
               apply_hunk_list orig hs out pos (sm\<lparr>ds_hunks_applied := ds_hunks_applied sm + 1\<rparr>)))"

definition diff_summary_default :: diff_summary where
  "diff_summary_default = \<lparr>ds_lines_added = 0, ds_lines_removed = 0, ds_hunks_applied = 0\<rparr>"

definition apply_hunks :: "string \<Rightarrow> hunk list \<Rightarrow> diff_error + string \<times> diff_summary" where
  "apply_hunks original hunks =
     (if hunks = [] then Inl No_Hunks
      else case apply_hunk_list (split_lines_keep_terminator original) hunks [] 0 diff_summary_default of
             Inl e \<Rightarrow> Inl e
           | Inr (out, sm) \<Rightarrow> Inr (concat out, sm))"

definition apply_unified_diff :: "string \<Rightarrow> string \<Rightarrow> diff_error + string \<times> diff_summary" where
  "apply_unified_diff original diff =
     (case parse_hunks diff of Inl e \<Rightarrow> Inl e | Inr hunks \<Rightarrow> apply_hunks original hunks)"

section \<open>The patch relation\<close>

text \<open>
  \<open>hunk_edit ls old new\<close>: the lines \<open>ls\<close> of a hunk turn the lines \<open>old\<close> into the lines \<open>new\<close>.
  \<open>patch pos rest hs out\<close>: with the first \<open>pos\<close> lines done, the hunks \<open>hs\<close> turn \<open>rest\<close> into \<open>out\<close>.
\<close>

inductive hunk_edit :: "hunk_line list \<Rightarrow> string list \<Rightarrow> string list \<Rightarrow> bool" where
  edit_end: "hunk_edit [] [] []"
| edit_context: "hunk_edit ls old new \<Longrightarrow> hl_kind l = Context_Line \<Longrightarrow> strip_terminator x = hl_content l \<Longrightarrow>
    hunk_edit (l # ls) (x # old) (x # new)"
| edit_remove: "hunk_edit ls old new \<Longrightarrow> hl_kind l = Remove_Line \<Longrightarrow> strip_terminator x = hl_content l \<Longrightarrow>
    hunk_edit (l # ls) (x # old) new"
| edit_add: "hunk_edit ls old new \<Longrightarrow> hl_kind l = Add_Line \<Longrightarrow>
    hunk_edit (l # ls) old (with_terminator (hl_content l) # new)"

inductive_cases hunk_edit_NilE [elim!]: "hunk_edit [] old new"
inductive_cases hunk_edit_ConsE: "hunk_edit (l # ls) old new"

inductive patch :: "nat \<Rightarrow> string list \<Rightarrow> hunk list \<Rightarrow> string list \<Rightarrow> bool" where
  patch_end: "patch pos rest [] rest"
| patch_hunk: "length skip = hk_old_start h - 1 - pos \<Longrightarrow> hunk_edit (hk_lines h) old new \<Longrightarrow>
    patch (pos + length skip + length old) rest hs out \<Longrightarrow> patch pos (skip @ old @ rest) (h # hs) (skip @ new @ out)"

inductive_cases patch_NilE [elim!]: "patch pos rest [] out"
inductive_cases patch_ConsE: "patch pos rest (h # hs) out"

definition added_lines :: "hunk_line list \<Rightarrow> nat" where
  "added_lines ls = length (filter (\<lambda>l. hl_kind l = Add_Line) ls)"

definition removed_lines :: "hunk_line list \<Rightarrow> nat" where
  "removed_lines ls = length (filter (\<lambda>l. hl_kind l = Remove_Line) ls)"

definition add_counts :: "hunk_line list \<Rightarrow> diff_summary \<Rightarrow> diff_summary" where
  "add_counts ls sm = sm\<lparr>ds_lines_added := ds_lines_added sm + added_lines ls,
     ds_lines_removed := ds_lines_removed sm + removed_lines ls\<rparr>"

lemma copy_lines_eq:
  "pos \<le> length orig \<Longrightarrow> copy_lines orig start cu out pos =
     (if cu \<le> pos then Inr (out, pos)
      else if cu \<le> length orig then Inr (out @ take (cu - pos) (drop pos orig), cu)
      else Inl (Past_End start (length orig + 1) (length orig)))"
proof (induction orig start cu out pos rule: copy_lines.induct)
  case (1 orig start cu out pos)
  show ?case
  proof (cases "pos < cu \<and> pos < length orig")
    case True
    then have "take (cu - pos) (drop pos orig) = orig ! pos # take (cu - Suc pos) (drop (Suc pos) orig)"
      by (metis Cons_nth_drop_Suc Suc_diff_Suc take_Suc_Cons)
    then show ?thesis using True 1 by (subst copy_lines.simps) auto
  next
    case False
    then show ?thesis using 1(2) by (subst copy_lines.simps) auto
  qed
qed

lemma apply_lines_sound:
  assumes "apply_lines orig ls out pos sm = Inr (out', pos', sm')" "pos \<le> length orig"
  shows "\<exists>old new. hunk_edit ls old new \<and> drop pos orig = old @ drop pos' orig \<and> pos' = pos + length old
    \<and> pos' \<le> length orig \<and> out' = out @ new \<and> sm' = add_counts ls sm"
  using assms
proof (induction orig ls out pos sm rule: apply_lines.induct)
  case (2 orig l ls out pos sm)
  show ?case
  proof (cases "hl_kind l")
    case Context_Line
    with 2(4) have g: "\<not> length orig \<le> pos" "strip_terminator (orig ! pos) = hl_content l"
      "apply_lines orig ls (out @ [orig ! pos]) (pos + 1) sm = Inr (out', pos', sm')" by (simp_all split: if_splits)
    from 2(1) [OF Context_Line g(1) _ g(3)] g obtain old new where
      "hunk_edit ls old new \<and> drop (pos + 1) orig = old @ drop pos' orig \<and> pos' = pos + 1 + length old
        \<and> pos' \<le> length orig \<and> out' = (out @ [orig ! pos]) @ new \<and> sm' = add_counts ls sm" by auto
    then show ?thesis using g Context_Line
      by (intro exI [of _ "orig ! pos # old"] exI [of _ "orig ! pos # new"])
        (auto intro: edit_context simp: add_counts_def added_lines_def removed_lines_def Cons_nth_drop_Suc [symmetric])
  next
    case Remove_Line
    with 2(4) have g: "\<not> length orig \<le> pos" "strip_terminator (orig ! pos) = hl_content l"
      "apply_lines orig ls out (pos + 1) (sm\<lparr>ds_lines_removed := ds_lines_removed sm + 1\<rparr>) = Inr (out', pos', sm')"
      by (simp_all split: if_splits)
    from 2(2) [OF Remove_Line g(1) _ g(3)] g obtain old new where
      "hunk_edit ls old new \<and> drop (pos + 1) orig = old @ drop pos' orig \<and> pos' = pos + 1 + length old
        \<and> pos' \<le> length orig \<and> out' = out @ new
        \<and> sm' = add_counts ls (sm\<lparr>ds_lines_removed := ds_lines_removed sm + 1\<rparr>)" by auto
    then show ?thesis using g Remove_Line
      by (intro exI [of _ "orig ! pos # old"] exI [of _ new])
        (auto intro: edit_remove simp: add_counts_def added_lines_def removed_lines_def Cons_nth_drop_Suc [symmetric])
  next
    case Add_Line
    with 2(4) have g: "apply_lines orig ls (out @ [with_terminator (hl_content l)]) pos
        (sm\<lparr>ds_lines_added := ds_lines_added sm + 1\<rparr>) = Inr (out', pos', sm')" by simp
    from 2(3) [OF Add_Line g 2(5)] obtain old new where
      "hunk_edit ls old new \<and> drop pos orig = old @ drop pos' orig \<and> pos' = pos + length old
        \<and> pos' \<le> length orig \<and> out' = (out @ [with_terminator (hl_content l)]) @ new
        \<and> sm' = add_counts ls (sm\<lparr>ds_lines_added := ds_lines_added sm + 1\<rparr>)" by auto
    then show ?thesis using Add_Line
      by (intro exI [of _ old] exI [of _ "with_terminator (hl_content l) # new"])
        (auto intro: edit_add simp: add_counts_def added_lines_def removed_lines_def)
  qed
qed (auto intro: edit_end simp: add_counts_def added_lines_def removed_lines_def)

lemma apply_lines_complete:
  "hunk_edit ls old new \<Longrightarrow> drop pos orig = old @ rest \<Longrightarrow> pos \<le> length orig \<Longrightarrow>
     apply_lines orig ls out pos sm = Inr (out @ new, pos + length old, add_counts ls sm)"
proof (induction ls old new arbitrary: pos out sm rule: hunk_edit.induct)
  case (edit_context ls old new l x)
  then have "pos < length orig" "orig ! pos = x" "drop (Suc pos) orig = old @ rest"
    by (auto simp: drop_Suc tl_drop [symmetric] nth_via_drop) (metis drop_all linorder_not_le list.distinct(1))
  then show ?case using edit_context by (simp add: add_counts_def added_lines_def removed_lines_def)
next
  case (edit_remove ls old new l x)
  then have "pos < length orig" "orig ! pos = x" "drop (Suc pos) orig = old @ rest"
    by (auto simp: drop_Suc tl_drop [symmetric] nth_via_drop) (metis drop_all linorder_not_le list.distinct(1))
  then show ?case using edit_remove by (simp add: add_counts_def added_lines_def removed_lines_def)
qed (simp_all add: add_counts_def added_lines_def removed_lines_def)

definition count_hunk :: "hunk \<Rightarrow> diff_summary \<Rightarrow> diff_summary" where
  "count_hunk h sm = (add_counts (hk_lines h) sm)\<lparr>ds_hunks_applied := ds_hunks_applied sm + 1\<rparr>"

lemma copy_lines_skip:
  assumes "drop pos orig = skip @ rest" "length skip = cu - pos" "pos \<le> length orig"
  shows "copy_lines orig start cu out pos = Inr (out @ skip, pos + length skip)"
proof (cases "cu \<le> pos")
  case False
  have "length orig - pos = length skip + length rest" using arg_cong [OF assms(1), of length] by simp
  with False assms show ?thesis by (simp add: copy_lines_eq)
qed (use assms in \<open>simp add: copy_lines_eq\<close>)

lemma copy_lines_sound:
  assumes "copy_lines orig start cu out pos = Inr (out', pos')" "pos \<le> length orig"
  shows "\<exists>skip. length skip = cu - pos \<and> drop pos orig = skip @ drop pos' orig \<and> pos' = pos + length skip
    \<and> pos' \<le> length orig \<and> out' = out @ skip"
proof (cases "cu \<le> pos")
  case True
  with assms show ?thesis by (intro exI [of _ "[]"]) (simp add: copy_lines_eq)
next
  case False
  with assms have c: "cu \<le> length orig" "out' = out @ take (cu - pos) (drop pos orig)" "pos' = cu"
    by (auto simp: copy_lines_eq split: if_splits)
  have "drop pos orig = take (cu - pos) (drop pos orig) @ drop cu orig"
    using False by (metis append_take_drop_id drop_drop le_add_diff_inverse2 linorder_le_cases)
  with c False show ?thesis by (intro exI [of _ "take (cu - pos) (drop pos orig)"]) auto
qed

lemma apply_hunk_list_patch:
  "pos \<le> length orig \<Longrightarrow>
     apply_hunk_list orig hs out pos sm = Inr (res, sm') \<longleftrightarrow>
       (\<exists>new. patch pos (drop pos orig) hs new \<and> res = out @ new) \<and> sm' = fold count_hunk hs sm"
proof (induction hs arbitrary: out pos sm)
  case Nil
  then show ?case by (auto intro: patch_end)
next
  case (Cons h hs)
  show ?case
  proof
    assume "apply_hunk_list orig (h # hs) out pos sm = Inr (res, sm')"
    then obtain o1 p1 o2 p2 s2 where
      c: "copy_lines orig (hk_old_start h) (hk_old_start h - 1) out pos = Inr (o1, p1)"
      and l: "apply_lines orig (hk_lines h) o1 p1 sm = Inr (o2, p2, s2)"
      and r: "apply_hunk_list orig hs o2 p2 (s2\<lparr>ds_hunks_applied := ds_hunks_applied s2 + 1\<rparr>) = Inr (res, sm')"
      by (auto split: sum.splits)
    from copy_lines_sound [OF c Cons.prems] obtain skip where
      s: "length skip = hk_old_start h - 1 - pos" "drop pos orig = skip @ drop p1 orig" "p1 = pos + length skip"
        "p1 \<le> length orig" "o1 = out @ skip" by blast
    from apply_lines_sound [OF l s(4)] obtain old new where
      e: "hunk_edit (hk_lines h) old new" "drop p1 orig = old @ drop p2 orig" "p2 = p1 + length old" "p2 \<le> length orig"
        "o2 = o1 @ new" "s2 = add_counts (hk_lines h) sm" by blast
    from r Cons.IH [OF e(4)] obtain new' where
      n: "patch p2 (drop p2 orig) hs new'" "res = o2 @ new'" "sm' = fold count_hunk hs (s2\<lparr>ds_hunks_applied := ds_hunks_applied s2 + 1\<rparr>)"
      by blast
    have "patch pos (skip @ old @ drop p2 orig) (h # hs) (skip @ new @ new')"
      by (rule patch_hunk [OF s(1) e(1)]) (use n(1) s(3) e(3) in simp)
    then have "patch pos (drop pos orig) (h # hs) (skip @ new @ new')" by (simp add: s(2) e(2))
    moreover have "sm' = fold count_hunk (h # hs) sm" using n(3) e(6) by (simp add: count_hunk_def add_counts_def)
    ultimately show "(\<exists>new. patch pos (drop pos orig) (h # hs) new \<and> res = out @ new) \<and> sm' = fold count_hunk (h # hs) sm"
      using n(2) e(5) s(5) by auto
  next
    assume "(\<exists>new. patch pos (drop pos orig) (h # hs) new \<and> res = out @ new) \<and> sm' = fold count_hunk (h # hs) sm"
    then obtain new where p: "patch pos (drop pos orig) (h # hs) new" "res = out @ new" "sm' = fold count_hunk (h # hs) sm" by blast
    from p(1) obtain skip old rest nw o' where
      q: "drop pos orig = skip @ old @ rest" "new = skip @ nw @ o'" "length skip = hk_old_start h - 1 - pos"
        "hunk_edit (hk_lines h) old nw" "patch (pos + length skip + length old) rest hs o'"
      by (elim patch_ConsE) (rule that, assumption, assumption, simp_all)
    let ?p1 = "pos + length skip" and ?p2 = "pos + length skip + length old"
    have len: "length orig = pos + length skip + length old + length rest"
      using arg_cong [OF q(1), of length] Cons.prems by simp
    have "drop ?p1 orig = drop (length skip) (drop pos orig)" by (simp add: add.commute)
    then have d1: "drop ?p1 orig = old @ rest" by (simp add: q(1))
    have "drop ?p2 orig = drop (length old) (drop ?p1 orig)" by (simp add: add.commute)
    then have d2: "drop ?p2 orig = rest" by (simp only: d1 append_eq_conv_conj) simp
    have a: "apply_lines orig (hk_lines h) (out @ skip) ?p1 sm = Inr ((out @ skip) @ nw, ?p2, add_counts (hk_lines h) sm)"
      by (rule apply_lines_complete [OF q(4) d1]) (simp add: len)
    have "apply_hunk_list orig hs ((out @ skip) @ nw) ?p2
        ((add_counts (hk_lines h) sm)\<lparr>ds_hunks_applied := ds_hunks_applied (add_counts (hk_lines h) sm) + 1\<rparr>) = Inr (res, sm')"
      by (subst Cons.IH) (use q(2,5) p(2,3) in \<open>auto simp: len d2 count_hunk_def add_counts_def\<close>)
    then show "apply_hunk_list orig (h # hs) out pos sm = Inr (res, sm')"
      using copy_lines_skip [OF q(1,3) Cons.prems] a by simp
  qed
qed

text \<open>
  C26. A diff is applied exactly: the result is a success if and only if the hunks read from the diff
  patch the lines of the text, every context and removed line matching in its place; the new text is
  the patched lines, and the summary counts the added and removed lines and the hunks.
\<close>

theorem diff_applies_exactly:
  "apply_unified_diff original diff = Inr (text, sm) \<longleftrightarrow>
     (\<exists>hunks out. parse_hunks diff = Inr hunks \<and> hunks \<noteq> [] \<and> patch 0 (split_lines_keep_terminator original) hunks out
        \<and> text = concat out
        \<and> sm = \<lparr>ds_lines_added = sum_list (map (added_lines \<circ> hk_lines) hunks),
                ds_lines_removed = sum_list (map (removed_lines \<circ> hk_lines) hunks), ds_hunks_applied = length hunks\<rparr>)"
proof -
  have f: "fold count_hunk hs sm0 = \<lparr>ds_lines_added = ds_lines_added sm0 + sum_list (map (added_lines \<circ> hk_lines) hs),
      ds_lines_removed = ds_lines_removed sm0 + sum_list (map (removed_lines \<circ> hk_lines) hs),
      ds_hunks_applied = ds_hunks_applied sm0 + length hs\<rparr>" for hs sm0
    by (induction hs arbitrary: sm0) (simp_all add: count_hunk_def add_counts_def)
  have "apply_hunks original hunks = Inr (text, sm) \<longleftrightarrow>
      hunks \<noteq> [] \<and> (\<exists>out. patch 0 (split_lines_keep_terminator original) hunks out \<and> text = concat out
        \<and> sm = fold count_hunk hunks diff_summary_default)" for hunks
  proof -
    let ?run = "apply_hunk_list (split_lines_keep_terminator original) hunks [] 0 diff_summary_default"
    have "apply_hunks original hunks = Inr (text, sm) \<longleftrightarrow> hunks \<noteq> [] \<and> (\<exists>out. ?run = Inr (out, sm) \<and> text = concat out)"
      by (auto simp: apply_hunks_def split: sum.splits)
    then show ?thesis using apply_hunk_list_patch [of 0 "split_lines_keep_terminator original" hunks "[]" diff_summary_default]
      by auto
  qed
  then show ?thesis by (auto simp: apply_unified_diff_def f diff_summary_default_def split: sum.splits)
qed

section \<open>Undoing\<close>

text \<open>A line that ends in one line feed, and a text that can be such a line without it.\<close>

definition bare :: "string \<Rightarrow> bool" where
  "bare s \<longleftrightarrow> CHR 0x0A \<notin> set s \<and> (s = [] \<or> last s \<noteq> CHR 0x0D)"

definition plain_line :: "string \<Rightarrow> bool" where
  "plain_line l \<longleftrightarrow> l \<noteq> [] \<and> last l = CHR 0x0A \<and> bare (butlast l)"

fun flip_kind :: "hunk_line_kind \<Rightarrow> hunk_line_kind" where
  "flip_kind Context_Line = Context_Line"
| "flip_kind Remove_Line = Add_Line"
| "flip_kind Add_Line = Remove_Line"

definition flip_line :: "hunk_line \<Rightarrow> hunk_line" where
  "flip_line l = l\<lparr>hl_kind := flip_kind (hl_kind l)\<rparr>"

lemma flip_line_simps [simp]: "hl_content (flip_line l) = hl_content l" "hl_kind (flip_line l) = flip_kind (hl_kind l)"
  by (simp_all add: flip_line_def)

definition new_lines :: "hunk_line list \<Rightarrow> nat" where
  "new_lines ls = length (filter (\<lambda>l. hl_kind l \<noteq> Remove_Line) ls)"

text \<open>The hunks that undo some hunks, at the lines where these put their work.\<close>

fun undo_hunks :: "nat \<Rightarrow> nat \<Rightarrow> hunk list \<Rightarrow> hunk list" where
  "undo_hunks pos npos [] = []"
| "undo_hunks pos npos (h # hs) =
     (let skip = hk_old_start h - 1 - pos
      in \<lparr>hk_old_start = npos + skip + 1, hk_old_count = new_lines (hk_lines h), hk_lines = map flip_line (hk_lines h)\<rparr>
         # undo_hunks (pos + skip + old_lines (hk_lines h)) (npos + skip + new_lines (hk_lines h)) hs)"

definition adds_bare :: "hunk_line list \<Rightarrow> bool" where
  "adds_bare ls = list_all (\<lambda>l. hl_kind l = Add_Line \<longrightarrow> bare (hl_content l)) ls"

lemma trim_end_char_snoc: "trim_end_char c (s @ [d]) = (if d = c then trim_end_char c s else s @ [d])"
  by (simp add: trim_end_char_def)

lemma trim_end_char_id: "s = [] \<or> last s \<noteq> c \<Longrightarrow> trim_end_char c s = s"
  by (cases s rule: rev_exhaust) (simp_all add: trim_end_char_snoc, simp add: trim_end_char_def)

lemma strip_bare: "bare s \<Longrightarrow> strip_terminator (s @ [CHR 0x0A]) = s"
  unfolding strip_terminator_def bare_def
  by (simp add: trim_end_char_snoc) (metis last_in_set trim_end_char_id)

lemma with_terminator_bare: "bare s \<Longrightarrow> with_terminator s = s @ [CHR 0x0A]"
  by (cases s rule: rev_exhaust) (auto simp: with_terminator_def bare_def suffix_def)

lemma plain_line_eq: "plain_line l \<longleftrightarrow> (\<exists>s. bare s \<and> l = s @ [CHR 0x0A])"
  unfolding plain_line_def by (metis append_butlast_last_id butlast_snoc last_snoc snoc_eq_iff_butlast)

lemma strip_plain: "plain_line l \<Longrightarrow> strip_terminator l = s \<Longrightarrow> bare s \<and> l = s @ [CHR 0x0A]"
  by (auto simp: plain_line_eq strip_bare)

lemma hunk_edit_counts: "hunk_edit ls old new \<Longrightarrow> length old = old_lines ls \<and> length new = new_lines ls"
  by (induction rule: hunk_edit.induct) (auto simp: old_lines_def new_lines_def)

lemma hunk_edit_undo:
  "hunk_edit ls old new \<Longrightarrow> list_all plain_line old \<Longrightarrow> adds_bare ls \<Longrightarrow>
     hunk_edit (map flip_line ls) new old \<and> list_all plain_line new"
proof (induction rule: hunk_edit.induct)
  case (edit_context ls old new l x)
  then show ?case by (auto simp: adds_bare_def intro: hunk_edit.edit_context)
next
  case (edit_remove ls old new l x)
  then have x: "bare (hl_content l)" "x = hl_content l @ [CHR 0x0A]" using strip_plain by auto
  have "hunk_edit (flip_line l # map flip_line ls) new (with_terminator (hl_content (flip_line l)) # old)"
    by (rule hunk_edit.edit_add) (use edit_remove in \<open>auto simp: adds_bare_def\<close>)
  with x edit_remove show ?case by (simp add: with_terminator_bare adds_bare_def)
next
  case (edit_add ls old new l)
  then have b: "bare (hl_content l)" by (simp add: adds_bare_def)
  have "hunk_edit (flip_line l # map flip_line ls) (with_terminator (hl_content l) # new) old"
    by (rule hunk_edit.edit_remove) (use edit_add b in \<open>auto simp: adds_bare_def with_terminator_bare strip_bare\<close>)
  with b edit_add show ?case by (auto simp: adds_bare_def with_terminator_bare plain_line_eq)
qed (simp add: edit_end)

lemma patch_undo:
  "patch pos rest hs out \<Longrightarrow> list_all plain_line rest \<Longrightarrow> list_all (adds_bare \<circ> hk_lines) hs \<Longrightarrow>
     patch npos out (undo_hunks pos npos hs) rest \<and> list_all plain_line out"
proof (induction arbitrary: npos rule: patch.induct)
  case (patch_hunk skip h pos old new rest hs out)
  from hunk_edit_undo [OF patch_hunk(2)] patch_hunk.prems have
    u: "hunk_edit (map flip_line (hk_lines h)) new old" "list_all plain_line new" by simp_all
  note n = hunk_edit_counts [OF patch_hunk(2)]
  have ih: "patch (npos + length skip + length new) out
        (undo_hunks (pos + length skip + length old) (npos + length skip + length new) hs) rest \<and> list_all plain_line out"
    using patch_hunk.IH patch_hunk.prems by simp
  have "patch npos (skip @ new @ out) (\<lparr>hk_old_start = npos + length skip + 1, hk_old_count = new_lines (hk_lines h),
      hk_lines = map flip_line (hk_lines h)\<rparr> # undo_hunks (pos + length skip + length old) (npos + length skip + length new) hs)
      (skip @ old @ rest)"
    by (rule patch.patch_hunk) (use u ih in simp_all)
  then show ?case using u ih n patch_hunk(1) patch_hunk.prems by (simp add: Let_def)
qed (simp add: patch_end)

lemma split_lines_acc:
  "split_lines acc (s @ CHR 0x0A # rest) = (acc @ s @ [CHR 0x0A]) # split_lines [] rest" if "CHR 0x0A \<notin> set s"
  using that by (induction s arbitrary: acc) auto

lemma split_plain: "list_all plain_line ls \<Longrightarrow> split_lines_keep_terminator (concat ls) = ls"
proof (induction ls)
  case (Cons l ls)
  then obtain s where s: "bare s" "l = s @ [CHR 0x0A]" by (auto simp: plain_line_eq)
  with Cons split_lines_acc [of s "[]" "concat ls"] show ?case
    by (simp add: split_lines_keep_terminator_def bare_def)
qed (simp add: split_lines_keep_terminator_def)

lemma concat_split_lines: "concat (split_lines acc s) = acc @ s"
  by (induction acc s rule: split_lines.induct) auto

text \<open>
  C27. A diff can be undone: on a text whose lines, the last one included, all end in a line feed without a carriage return,
  applying hunks whose added lines hold neither and then the hunks that undo them gives the text
  back, whatever the line numbers of the hunks were.
\<close>

theorem undo_restores_text:
  assumes "apply_hunks original hs = Inr (text, sm)"
    and "list_all plain_line (split_lines_keep_terminator original)" "list_all (adds_bare \<circ> hk_lines) hs"
  shows "\<exists>sm'. apply_hunks text (undo_hunks 0 0 hs) = Inr (original, sm')"
proof -
  let ?lines = "split_lines_keep_terminator original"
  from assms(1) obtain out where h: "hs \<noteq> []" "apply_hunk_list ?lines hs [] 0 diff_summary_default = Inr (out, sm)"
    "text = concat out" by (auto simp: apply_hunks_def split: if_splits sum.splits)
  then have "patch 0 ?lines hs out" using apply_hunk_list_patch [of 0 ?lines] by simp
  from patch_undo [OF this assms(2,3), of 0] have u: "patch 0 out (undo_hunks 0 0 hs) ?lines" "list_all plain_line out" by simp_all
  then have t: "split_lines_keep_terminator text = out" using h(3) split_plain by simp
  have "apply_hunk_list out (undo_hunks 0 0 hs) [] 0 diff_summary_default
      = Inr (?lines, fold count_hunk (undo_hunks 0 0 hs) diff_summary_default)"
    using apply_hunk_list_patch [of 0 out] u(1) by simp
  moreover have "undo_hunks 0 0 hs \<noteq> []" using h(1) by (cases hs) (simp_all add: Let_def)
  moreover have "concat ?lines = original" by (simp add: split_lines_keep_terminator_def concat_split_lines)
  ultimately show ?thesis by (simp add: apply_hunks_def t)
qed

text \<open>A sample: the second of three lines is replaced.\<close>

definition lf :: string where
  "lf = [CHR 0x0A]"

definition sample_hunk :: hunk where
  "sample_hunk = \<lparr>hk_old_start = 1, hk_old_count = 2,
     hk_lines = [\<lparr>hl_kind = Context_Line, hl_content = ''a''\<rparr>, \<lparr>hl_kind = Remove_Line, hl_content = ''b''\<rparr>,
       \<lparr>hl_kind = Add_Line, hl_content = ''x''\<rparr>]\<rparr>"

theorem undo_restores_text_witness:
  "apply_hunks (''a'' @ lf @ ''b'' @ lf @ ''c'' @ lf) [sample_hunk]
     = Inr (''a'' @ lf @ ''x'' @ lf @ ''c'' @ lf, \<lparr>ds_lines_added = 1, ds_lines_removed = 1, ds_hunks_applied = 1\<rparr>)
   \<and> (\<exists>sm'. apply_hunks (''a'' @ lf @ ''x'' @ lf @ ''c'' @ lf) (undo_hunks 0 0 [sample_hunk])
         = Inr (''a'' @ lf @ ''b'' @ lf @ ''c'' @ lf, sm'))"
proof -
  have a: "apply_hunks (''a'' @ lf @ ''b'' @ lf @ ''c'' @ lf) [sample_hunk]
     = Inr (''a'' @ lf @ ''x'' @ lf @ ''c'' @ lf, \<lparr>ds_lines_added = 1, ds_lines_removed = 1, ds_hunks_applied = 1\<rparr>)"
    by code_simp
  have l: "list_all plain_line (split_lines_keep_terminator (''a'' @ lf @ ''b'' @ lf @ ''c'' @ lf))"
    "list_all (adds_bare \<circ> hk_lines) [sample_hunk]" by code_simp+
  from undo_restores_text [OF a l] a show ?thesis by blast
qed

section \<open>Printing and reading\<close>

definition show_kind :: "hunk_line_kind \<Rightarrow> char" where
  "show_kind k = (case k of Context_Line \<Rightarrow> CHR '' '' | Remove_Line \<Rightarrow> CHR ''-'' | Add_Line \<Rightarrow> CHR ''+'')"

definition show_header :: "hunk \<Rightarrow> nat \<Rightarrow> string" where
  "show_header h new_start =
     ''@@ -'' @ show_nat (hk_old_start h) @ '','' @ show_nat (hk_old_count h)
       @ '' +'' @ show_nat new_start @ '','' @ show_nat (new_lines (hk_lines h)) @ '' @@''"

definition show_hunk :: "hunk \<times> nat \<Rightarrow> string list" where
  "show_hunk hn = show_header (fst hn) (snd hn) # map (\<lambda>l. show_kind (hl_kind l) # hl_content l) (hk_lines (fst hn))"

definition show_diff :: "(hunk \<times> nat) list \<Rightarrow> string" where
  "show_diff hns = concat (map (\<lambda>l. l @ lf) (concat (map show_hunk hns)))"

definition hunk_ok :: "hunk \<Rightarrow> bool" where
  "hunk_ok h \<longleftrightarrow> hk_old_start h \<le> u64_max \<and> hk_old_count h \<le> u64_max \<and> validate_hunk h = None
     \<and> list_all (bare \<circ> hl_content) (hk_lines h)"

lemma split_on_concat:
  "list_all (\<lambda>l. CHR 0x0A \<notin> set l) ls \<Longrightarrow> split_on (CHR 0x0A) (concat (map (\<lambda>l. l @ lf) ls)) = ls @ [[]]"
proof (induction ls)
  case (Cons l ls)
  have "CHR 0x0A \<notin> set l \<Longrightarrow> split_on (CHR 0x0A) (l @ CHR 0x0A # r) = l # split_on (CHR 0x0A) r" for r
    by (induction l) auto
  with Cons show ?case by (simp add: lf_def)
qed simp

lemma str_lines_concat: "list_all bare ls \<Longrightarrow> str_lines (concat (map (\<lambda>l. l @ lf) ls)) = ls"
proof -
  assume b: "list_all bare ls"
  then have "list_all (\<lambda>l. CHR 0x0A \<notin> set l) ls" by (auto simp: bare_def list_all_iff)
  moreover have "map strip_cr ls = ls" using b by (intro map_idI) (auto simp: list_all_iff bare_def strip_cr_def)
  ultimately show ?thesis by (simp add: str_lines_def split_on_concat Let_def)
qed

lemma digit_of: "parse_digits n s = Some m \<Longrightarrow> c \<in> set s \<Longrightarrow> 48 \<le> byte_val c \<and> byte_val c \<le> 57"
proof (induction s arbitrary: n)
  case (Cons d s)
  then show ?case by (auto simp: digit_value_def Let_def split: option.splits if_splits)
qed simp

lemma show_nat_digit: "c \<in> set (show_nat n) \<Longrightarrow> 48 \<le> byte_val c \<and> byte_val c \<le> 57"
  using digit_of [OF parse_show_nat] .

lemma parse_usize_show: "n \<le> u64_max \<Longrightarrow> parse_usize (show_nat n) = Some n"
  using parse_show_nat [of n] show_nat_no_sign [of n] show_nat_not_empty [of n]
  by (cases "show_nat n") (auto simp: parse_usize_def Let_def)

text \<open>A character that no white space begins with.\<close>

definition graphic :: "char \<Rightarrow> bool" where
  "graphic c \<longleftrightarrow> 33 \<le> byte_val c \<and> byte_val c \<le> 126"

lemma ws_not_graphic: "list_all (\<lambda>w. w \<noteq> [] \<and> \<not> graphic (hd w)) ws_encodings"
  by code_simp

lemma graphic_find: "graphic c \<Longrightarrow> find (\<lambda>w. prefix w (c # cs)) ws_encodings = None"
  using ws_not_graphic unfolding find_None_iff list_all_iff by (metis list.sel(1) prefix_Cons)

lemma split_ws_graphic: "list_all graphic s \<Longrightarrow> split_ws cur (s @ rest) = split_ws (cur @ s) rest"
proof (induction s arbitrary: cur)
  case (Cons c s)
  then show ?case by (simp add: graphic_find)
qed simp

lemma split_ws_space: "split_ws cur (CHR '' '' # rest) = (if cur = [] then [] else [cur]) @ split_ws [] rest"
  by (simp add: ws_encodings_def)

lemma show_nat_graphic: "list_all graphic (show_nat n)"
  unfolding list_all_iff graphic_def using show_nat_digit by force

lemma parse_header_show:
  assumes "hk_old_start h \<le> u64_max" "hk_old_count h \<le> u64_max"
  shows "parse_hunk_header (show_header h n) = Inr (hk_old_start h, hk_old_count h)"
proof -
  let ?old = "show_nat (hk_old_start h) @ '','' @ show_nat (hk_old_count h)"
  let ?new = "show_nat n @ '','' @ show_nat (new_lines (hk_lines h))"
  have inner: "dropWhile (\<lambda>c. c = CHR '' '') (dropWhile (\<lambda>c. c = CHR ''@'') (show_header h n))
      = (CHR ''-'' # ?old) @ CHR '' '' # (CHR ''+'' # ?new) @ '' @@''"
    by (simp add: show_header_def)
  have g: "list_all graphic (CHR ''-'' # ?old)" "list_all graphic (CHR ''+'' # ?new)"
    using show_nat_graphic by (simp_all add: graphic_def byte_val_def)
  have w: "find (\<lambda>s. starts_with s ''-'') (split_whitespace ((CHR ''-'' # ?old) @ CHR '' '' # (CHR ''+'' # ?new) @ '' @@''))
      = Some (CHR ''-'' # ?old)"
    unfolding split_whitespace_def split_ws_graphic [OF g(1)] split_ws_space by simp
  have nd: "c \<noteq> CHR ''-'' \<and> c \<noteq> CHR '',''" if "c \<in> set (show_nat k)" for c k
    using show_nat_digit [OF that] by (auto simp: byte_val_def)
  have o: "dropWhile (\<lambda>c. c = CHR ''-'') (CHR ''-'' # ?old) = ?old"
  proof -
    obtain c cs where c: "show_nat (hk_old_start h) = c # cs" by (cases "show_nat (hk_old_start h)") simp_all
    with nd [of c "hk_old_start h"] show ?thesis by simp
  qed
  have t: "takeWhile (\<lambda>c. c \<noteq> CHR '','') ?old = show_nat (hk_old_start h)"
    "dropWhile (\<lambda>c. c \<noteq> CHR '','') ?old = '','' @ show_nat (hk_old_count h)"
    using nd [of _ "hk_old_start h"] by (subst takeWhile_append2 dropWhile_append2; simp)+
  show ?thesis
    unfolding parse_hunk_header_def Let_def inner w option.case o using t assms by (simp add: parse_usize_show)
qed

lemma parse_show_lines:
  "list_all (bare \<circ> hl_content) ls \<Longrightarrow>
     parse_lines hunks (Some h) (map (\<lambda>l. show_kind (hl_kind l) # hl_content l) ls @ rest) =
       parse_lines hunks (Some (h\<lparr>hk_lines := hk_lines h @ ls\<rparr>)) rest"
proof (induction ls arbitrary: h)
  case (Cons l ls)
  obtain k c where l: "l = \<lparr>hl_kind = k, hl_content = c\<rparr>" by (cases l)
  have "line_kind (show_kind k # c) = Some k" "CHR ''@'' \<noteq> show_kind k"
    by (cases k; simp add: line_kind_def show_kind_def)+
  with Cons show ?case by (simp add: l)
qed simp

lemma parse_show_hunks:
  "list_all (hunk_ok \<circ> fst) hns \<Longrightarrow> pre = None \<or> (\<exists>h. pre = Some h \<and> hunk_ok h) \<Longrightarrow>
     parse_lines hunks pre (concat (map show_hunk hns)) = Inr (hunks @ (case pre of None \<Rightarrow> [] | Some h \<Rightarrow> [h]) @ map fst hns)"
proof (induction hns arbitrary: hunks pre)
  case Nil
  then show ?case by (auto simp: close_hunk_def hunk_ok_def)
next
  case (Cons hn hns)
  obtain h n where hn: "hn = (h, n)" by (cases hn)
  let ?hunks = "hunks @ (case pre of None \<Rightarrow> [] | Some h \<Rightarrow> [h])"
  have c: "close_hunk hunks pre = Inr ?hunks" using Cons.prems(2) by (auto simp: close_hunk_def hunk_ok_def)
  have h: "hunk_ok h" using Cons.prems(1) by (simp add: hn)
  then have p: "parse_hunk_header (show_header h n) = Inr (hk_old_start h, hk_old_count h)"
    by (intro parse_header_show) (simp_all add: hunk_ok_def)
  have s: "starts_with (show_header h n) ''@@''" by (simp add: show_header_def)
  have r: "\<lparr>hk_old_start = hk_old_start h, hk_old_count = hk_old_count h, hk_lines = hk_lines h\<rparr> = h" by (cases h) simp
  have "parse_lines hunks pre (concat (map show_hunk (hn # hns)))
      = parse_lines ?hunks (Some \<lparr>hk_old_start = hk_old_start h, hk_old_count = hk_old_count h, hk_lines = hk_lines h\<rparr>)
          (concat (map show_hunk hns))"
    using h by (simp add: hn show_hunk_def s c p parse_show_lines hunk_ok_def)
  also have "\<dots> = parse_lines ?hunks (Some h) (concat (map show_hunk hns))" unfolding r ..
  also have "\<dots> = Inr (?hunks @ [h] @ map fst hns)" using Cons.IH [of "Some h" ?hunks] Cons.prems(1) h by simp
  finally show ?case by (simp add: hn)
qed

text \<open>
  A diff in the standard form is read as it is meant: reading the print of hunks whose counts are
  right gives these hunks, whatever the numbers on the new side.
\<close>

theorem diff_reads_back:
  assumes "list_all (hunk_ok \<circ> fst) hns"
  shows "parse_hunks (show_diff hns) = Inr (map fst hns)"
proof -
  have "list_all bare (show_hunk hn)" if "hunk_ok (fst hn)" for hn
  proof -
    have "CHR 0x0A \<notin> set (show_header (fst hn) (snd hn))"
      using show_nat_digit by (fastforce simp: show_header_def byte_val_def)
    moreover have "last (show_header (fst hn) (snd hn)) \<noteq> CHR 0x0D" by (simp add: show_header_def)
    moreover have "bare (show_kind (hl_kind l) # hl_content l)" if "l \<in> set (hk_lines (fst hn))" for l
      using that \<open>hunk_ok (fst hn)\<close> by (cases "hl_kind l") (auto simp: bare_def hunk_ok_def list_all_iff show_kind_def)
    ultimately show ?thesis by (auto simp: show_hunk_def bare_def list_all_iff)
  qed
  then have "list_all bare (concat (map show_hunk hns))" using assms by (auto simp: list_all_iff)
  then show ?thesis
    unfolding parse_hunks_def show_diff_def using parse_show_hunks [OF assms, of None "[]"] by (simp add: str_lines_concat)
qed

theorem diff_reads_back_witness: "parse_hunks (show_diff [(sample_hunk, 7)]) = Inr [sample_hunk]"
proof -
  have "list_all (hunk_ok \<circ> fst) [(sample_hunk, 7)]" by code_simp
  from diff_reads_back [OF this] show ?thesis by simp
qed

section \<open>Where the application goes wrong\<close>

text \<open>
  A hunk whose first line has already been passed is not refused: it is applied where the previous
  hunk ended. Here the line that belongs before the first line comes after the third.
\<close>

theorem late_hunk_misplaced:
  "apply_unified_diff (''a'' @ lf @ ''b'' @ lf @ ''c'' @ lf)
     (''@@ -3,1 +3,1 @@'' @ lf @ ''-c'' @ lf @ ''+C'' @ lf @ ''@@ -1,0 +1,1 @@'' @ lf @ ''+first'' @ lf)
   = Inr (''a'' @ lf @ ''b'' @ lf @ ''C'' @ lf @ ''first'' @ lf,
       \<lparr>ds_lines_added = 2, ds_lines_removed = 1, ds_hunks_applied = 2\<rparr>)"
  by code_simp

text \<open>
  A line added after a last line without a line feed is joined to it.
\<close>

theorem last_line_joined:
  "apply_unified_diff ''a'' (''@@ -1,1 +1,2 @@'' @ lf @ '' a'' @ lf @ ''+b'' @ lf)
   = Inr (''ab'' @ lf, \<lparr>ds_lines_added = 1, ds_lines_removed = 0, ds_hunks_applied = 1\<rparr>)"
  by code_simp

text \<open>
  An insertion in the standard form for an empty old side, at line 0 or after line k, is put one
  line too early when k is positive: a zero count names the line after which to insert, and the
  code inserts before it.
\<close>

theorem pure_insertion_one_early:
  "apply_unified_diff (''a'' @ lf @ ''b'' @ lf) (''@@ -1,0 +2,1 @@'' @ lf @ ''+x'' @ lf)
   = Inr (''x'' @ lf @ ''a'' @ lf @ ''b'' @ lf, \<lparr>ds_lines_added = 1, ds_lines_removed = 0, ds_hunks_applied = 1\<rparr>)"
  by code_simp

end
