(* ===== verification/Edit_Match.thy ===== *)
theory Edit_Match
  imports Zepto_Prelude
begin

text \<open>
  How the edit tool of \<open>src/src/tools/filesystem.rs\<close> finds the place of an edit, and how tool output is
  cut (\<open>src/src/tools/output.rs\<close>, \<open>src/src/utils/string.rs\<close>). A match is exact, or exact after Unicode
  normalisation, or after normalisation of blanks, and must be the only one; the ranges found in
  a normalised text are mapped back to the text. The normal form NFC comes from a package and is the
  parameter \<open>nfc\<close>. Texts are bytes, and ranges are byte offsets as in the code.
\<close>

section \<open>Occurrences\<close>

text \<open>\<open>str::find\<close> of a text.\<close>

fun find_str :: "string \<Rightarrow> string \<Rightarrow> nat option" where
  "find_str needle s =
     (if prefix needle s then Some 0 else case s of [] \<Rightarrow> None | _ # cs \<Rightarrow> map_option Suc (find_str needle cs))"

declare find_str.simps [simp del]

lemma find_str_Some:
  "find_str needle s = Some i \<Longrightarrow> i \<le> length s \<and> prefix needle (drop i s) \<and> (\<forall>j<i. \<not> prefix needle (drop j s))"
proof (induction needle s arbitrary: i rule: find_str.induct)
  case (1 needle s)
  show ?case
  proof (cases "prefix needle s")
    case True
    with "1.prems" show ?thesis by (simp add: find_str.simps [of needle s])
  next
    case False
    with "1.prems" obtain c cs k where s: "s = c # cs" "find_str needle cs = Some k" "i = Suc k"
      by (auto simp: find_str.simps [of needle s] split: list.splits)
    from "1.IH" [OF False s(1) s(2)] False show ?thesis
      by (auto simp: s less_Suc_eq_0_disj)
  qed
qed

lemma find_str_None: "find_str needle s = None \<longleftrightarrow> \<not> sublist needle s"
proof (induction s)
  case Nil
  then show ?case by (simp add: find_str.simps [of needle "[]"])
next
  case (Cons c cs)
  then show ?case by (simp add: find_str.simps [of needle "c # cs"] sublist_Cons_right)
qed

text \<open>The search goes on behind each occurrence; \<open>start\<close> is how far it is.\<close>

function occurrences_from :: "string \<Rightarrow> nat \<Rightarrow> string \<Rightarrow> nat list" where
  "occurrences_from needle start s =
     (if needle = [] then []
      else case find_str needle s of
             None \<Rightarrow> []
           | Some pos \<Rightarrow> (start + pos) # occurrences_from needle (start + pos + length needle) (drop (pos + length needle) s))"
  by pat_completeness auto
termination
proof (relation "measure (\<lambda>(needle, start, s). length s)")
  fix needle :: string and start :: nat and s :: string and pos :: nat
  assume a: "needle \<noteq> []" "find_str needle s = Some pos"
  from find_str_Some [OF a(2)] a(1) have "length needle \<le> length (drop pos s)" by (metis prefix_length_le)
  with a(1) show "((needle, start + pos + length needle, drop (pos + length needle) s), needle, start, s)
      \<in> measure (\<lambda>(needle, start, s). length s)" by (cases needle) auto
qed simp

declare occurrences_from.simps [simp del]

definition find_all_occurrences :: "string \<Rightarrow> string \<Rightarrow> nat list" where
  "find_all_occurrences haystack needle = occurrences_from needle 0 haystack"

text \<open>\<open>str::replace\<close> of a text that is not empty.\<close>

function replace_str :: "string \<Rightarrow> string \<Rightarrow> string \<Rightarrow> string" where
  "replace_str needle new s =
     (if needle = [] then s
      else case find_str needle s of
             None \<Rightarrow> s
           | Some pos \<Rightarrow> take pos s @ new @ replace_str needle new (drop (pos + length needle) s))"
  by pat_completeness auto
termination
proof (relation "measure (\<lambda>(needle, new, s). length s)")
  fix needle new :: string and s :: string and pos :: nat
  assume a: "needle \<noteq> []" "find_str needle s = Some pos"
  from find_str_Some [OF a(2)] a(1) have "length needle \<le> length (drop pos s)" by (metis prefix_length_le)
  with a(1) show "((needle, new, drop (pos + length needle) s), needle, new, s)
      \<in> measure (\<lambda>(needle, new, s). length s)" by (cases needle) auto
qed simp

declare replace_str.simps [simp del]

section \<open>Blanks\<close>

definition blank :: "char \<Rightarrow> bool" where
  "blank c \<longleftrightarrow> c = CHR '' '' \<or> c = CHR 0x09"

fun collapse_blanks :: "bool \<Rightarrow> string \<Rightarrow> string" where
  "collapse_blanks prev_ws [] = []"
| "collapse_blanks prev_ws (c # cs) =
     (if blank c then (if prev_ws then [] else '' '') @ collapse_blanks True cs else c # collapse_blanks False cs)"

definition normalize_whitespace :: "string \<Rightarrow> string" where
  "normalize_whitespace s =
     join [CHR 0x0A] (map (\<lambda>line. trim_end (collapse_blanks False line))
       (str_lines (replace_str [CHR 0x0D, CHR 0x0A] [CHR 0x0A] s)))"

text \<open>
  The walk over the text and its normal form; \<open>orig\<close> and \<open>nrm\<close> are what is left of them at the offsets
  \<open>i\<close> and \<open>n\<close>. The last test of the code changes nothing and is left out.
\<close>

function ws_walk :: "nat \<Rightarrow> nat \<Rightarrow> string \<Rightarrow> nat \<Rightarrow> string \<Rightarrow> nat \<Rightarrow> nat \<Rightarrow> nat \<Rightarrow> nat \<times> nat" where
  "ws_walk norm_start norm_end orig i nrm n result_start result_end =
     (if nrm = [] \<or> orig = [] then (result_start, result_end)
      else let result_start = (if n = norm_start then i else result_start)
           in if n = norm_end then (result_start, i)
              else if hd orig = CHR 0x0D \<and> length orig > 1 \<and> orig ! 1 = CHR 0x0A \<and> hd nrm = CHR 0x0A
              then ws_walk norm_start norm_end (drop 2 orig) (i + 2) (tl nrm) (n + 1) result_start result_end
              else if blank (hd orig) \<and> hd nrm = CHR '' ''
              then ws_walk norm_start norm_end (dropWhile blank (tl orig)) (i + 1 + length (takeWhile blank (tl orig)))
                     (tl nrm) (n + 1) result_start result_end
              else if blank (hd orig) \<and> hd nrm = CHR 0x0A
              then ws_walk norm_start norm_end (tl orig) (i + 1) nrm n result_start result_end
              else ws_walk norm_start norm_end (tl orig) (i + 1) (tl nrm) (n + 1) result_start result_end)"
  by pat_completeness auto
termination
  by (relation "measure (\<lambda>(norm_start, norm_end, orig, i, nrm, n, rs, re). length orig)")
    (auto simp: le_less_trans [OF length_dropWhile_le])

declare ws_walk.simps [simp del]

definition map_ws_range_to_original :: "string \<Rightarrow> string \<Rightarrow> nat \<Rightarrow> nat \<Rightarrow> nat \<times> nat" where
  "map_ws_range_to_original original normalized norm_start norm_end =
     ws_walk norm_start norm_end original 0 normalized 0 0 (length original)"

section \<open>Unicode normal form\<close>

definition char_start :: "string list \<Rightarrow> nat \<Rightarrow> nat" where
  "char_start cs i = length (concat (take i cs))"

text \<open>The number of characters of the text, from \<open>start\<close> on, that the normal form makes into \<open>ch\<close>.\<close>

function consume_chars :: "(string \<Rightarrow> string) \<Rightarrow> string list \<Rightarrow> nat \<Rightarrow> nat \<Rightarrow> string \<Rightarrow> nat" where
  "consume_chars nfc cs start idx ch =
     (let idx = idx + 1
      in if nfc (concat (drop start (take idx cs))) = ch \<or> length cs \<le> idx then idx
         else consume_chars nfc cs start idx ch)"
  by pat_completeness auto
termination
  by (relation "measure (\<lambda>(nfc, cs, start, idx, ch). length cs - idx)") auto

declare consume_chars.simps [simp del]

fun nfc_table :: "(string \<Rightarrow> string) \<Rightarrow> string list \<Rightarrow> nat \<Rightarrow> string list \<Rightarrow> (nat \<times> nat) list" where
  "nfc_table nfc cs idx [] = []"
| "nfc_table nfc cs idx (ch # chs) =
     (let idx' = consume_chars nfc cs idx idx ch
      in replicate (length ch) (char_start cs idx, char_start cs idx') @ nfc_table nfc cs idx' chs)"

definition map_nfc_range_to_original :: "(string \<Rightarrow> string) \<Rightarrow> string \<Rightarrow> nat \<Rightarrow> nat \<Rightarrow> nat \<times> nat" where
  "map_nfc_range_to_original nfc original nfc_start nfc_end =
     (let table = nfc_table nfc (str_chars original) 0 (str_chars (nfc original))
      in (if nfc_start < length table then fst (table ! nfc_start) else 0,
          if 0 < nfc_end then (if nfc_end - 1 < length table then snd (table ! (nfc_end - 1)) else length original) else 0))"

section \<open>The only match\<close>

datatype match_tier = Exact | UnicodeNormalized | WhitespaceNormalized

definition show_tier :: "match_tier \<Rightarrow> string" where
  "show_tier t = (case t of Exact \<Rightarrow> ''exact'' | UnicodeNormalized \<Rightarrow> ''unicode-normalized''
     | WhitespaceNormalized \<Rightarrow> ''whitespace-normalized'')"

record unique_match =
  um_start :: nat
  um_end :: nat
  um_tier :: match_tier

datatype edit_match_error = NotFound_Match | MultipleMatches nat

text \<open>One tier: a single occurrence ends the search, several refuse the edit, none passes on.\<close>

definition tier_result :: "nat list \<Rightarrow> (nat \<Rightarrow> unique_match) \<Rightarrow> (edit_match_error + unique_match) option" where
  "tier_result positions found =
     (case positions of [] \<Rightarrow> None | [p] \<Rightarrow> Some (Inr (found p)) | _ \<Rightarrow> Some (Inl (MultipleMatches (length positions))))"

definition find_unique_match :: "(string \<Rightarrow> string) \<Rightarrow> string \<Rightarrow> string \<Rightarrow> edit_match_error + unique_match" where
  "find_unique_match nfc content old_text =
     (case tier_result (find_all_occurrences content old_text)
             (\<lambda>p. \<lparr>um_start = p, um_end = p + length old_text, um_tier = Exact\<rparr>) of
        Some r \<Rightarrow> r
      | None \<Rightarrow>
          (let content_nfc = nfc content; search_nfc = nfc old_text in
           case (if content_nfc \<noteq> content \<or> search_nfc \<noteq> old_text
                 then tier_result (find_all_occurrences content_nfc search_nfc)
                        (\<lambda>p. let (a, b) = map_nfc_range_to_original nfc content p (p + length search_nfc)
                             in \<lparr>um_start = a, um_end = b, um_tier = UnicodeNormalized\<rparr>)
                 else None) of
             Some r \<Rightarrow> r
           | None \<Rightarrow>
               (let content_ws = normalize_whitespace content; search_ws = normalize_whitespace old_text in
                case tier_result (find_all_occurrences content_ws search_ws)
                       (\<lambda>p. let (a, b) = map_ws_range_to_original content content_ws p (p + length search_ws)
                            in \<lparr>um_start = a, um_end = b, um_tier = WhitespaceNormalized\<rparr>) of
                  Some r \<Rightarrow> r
                | None \<Rightarrow> Inl NotFound_Match)))"

text \<open>The text with the range of a match replaced; slicing inside a character panics.\<close>

definition splice_match :: "string \<Rightarrow> unique_match \<Rightarrow> string \<Rightarrow> string option" where
  "splice_match content m new_text =
     (if is_char_boundary content (um_start m) \<and> is_char_boundary content (um_end m)
      then Some (take (um_start m) content @ new_text @ drop (um_end m) content) else None)"

section \<open>Cutting output\<close>

definition prefix_chars :: "string \<Rightarrow> nat \<Rightarrow> string" where
  "prefix_chars s n = concat (take n (str_chars s))"

definition preview :: "string \<Rightarrow> nat \<Rightarrow> string" where
  "preview s n = prefix_chars s n @ (if n < length (str_chars s) then ''...'' else [])"

definition default_max_lines :: nat where
  "default_max_lines = 2000"

definition default_max_bytes :: nat where
  "default_max_bytes = 50000"

fun split_inclusive :: "string \<Rightarrow> string \<Rightarrow> string list" where
  "split_inclusive acc [] = (if acc = [] then [] else [acc])"
| "split_inclusive acc (c # cs) =
     (if c = CHR 0x0A then (acc @ [c]) # split_inclusive [] cs else split_inclusive (acc @ [c]) cs)"

definition cut_mark :: string where
  "cut_mark = ''... [output truncated at ''"

fun cut_lines :: "string \<Rightarrow> nat \<Rightarrow> nat \<Rightarrow> nat \<Rightarrow> string \<Rightarrow> nat \<Rightarrow> string list \<Rightarrow> string" where
  "cut_lines output max_lines max_bytes line_index result byte_count [] = result"
| "cut_lines output max_lines max_bytes line_index result byte_count (segment # rest) =
     (if max_lines \<le> line_index
      then result @ cut_mark @ show_nat max_lines @ '' lines, ''
             @ show_nat (length (split_inclusive [] output) - line_index) @ '' lines omitted]''
      else if max_bytes < byte_count + length segment
      then let kept = boundary_before segment (max_bytes - byte_count);
               result = result @ take kept segment
           in result @ (if \<not> ends_with result [CHR 0x0A] then [CHR 0x0A] else [])
                @ cut_mark @ show_nat max_bytes @ '' bytes, ''
                @ show_nat (length output - (byte_count + kept)) @ '' bytes omitted]''
      else cut_lines output max_lines max_bytes (line_index + 1) (result @ segment) (byte_count + length segment) rest)"

definition truncate_tool_output :: "string \<Rightarrow> nat \<Rightarrow> nat \<Rightarrow> string" where
  "truncate_tool_output output max_lines max_bytes =
     (if output = [] then [] else cut_lines output max_lines max_bytes 0 [] 0 (split_inclusive [] output))"

section \<open>Replacing\<close>

lemma find_str_split:
  assumes "find_str needle s = Some i"
  shows "s = take i s @ needle @ drop (i + length needle) s"
proof -
  from find_str_Some [OF assms] obtain r where "drop i s = needle @ r" by (auto elim: prefixE)
  moreover from this have "r = drop (i + length needle) s" by (metis add.commute append_eq_conv_conj drop_drop)
  ultimately show ?thesis by (metis append_take_drop_id)
qed

lemma find_str_before:
  assumes "find_str needle s = Some i" "needle \<noteq> []"
  shows "\<not> sublist needle (take i s)"
proof
  assume "sublist needle (take i s)"
  then obtain a b where ab: "take i s = a @ needle @ b" by (auto simp: sublist_def)
  then have "length a < i" using assms(2) by (metis add_lessD1 length_append length_greater_0_conv length_take less_add_same_cancel1
        min_less_iff_conj nat_neq_iff not_add_less1 trans_less_add1)
  moreover have "s = a @ needle @ b @ drop i s" using ab by (metis append.assoc append_take_drop_id)
  then have "prefix needle (drop (length a) s)" by (metis append_eq_conv_conj prefixI)
  ultimately show False using find_str_Some [OF assms(1)] by blast
qed

lemma join_Cons: "xs \<noteq> [] \<Longrightarrow> join sep (x # xs) = x @ sep @ join sep xs"
  by (cases xs) auto

lemma replace_parts:
  "needle \<noteq> [] \<Longrightarrow> \<exists>parts. s = join needle parts \<and> length parts = length (occurrences_from needle start s) + 1
     \<and> (\<forall>new. replace_str needle new s = join new parts) \<and> list_all (\<lambda>p. \<not> sublist needle p) parts"
proof (induction needle start s rule: occurrences_from.induct)
  case (1 needle start s)
  show ?case
  proof (cases "find_str needle s")
    case None
    then have "\<not> sublist needle s" by (rule iffD1 [OF find_str_None])
    with None 1(2) show ?thesis
      by (intro exI [of _ "[s]"]) (simp add: occurrences_from.simps [of needle start s] replace_str.simps [of needle _ s])
  next
    case (Some i)
    from 1(1) [OF 1(2) Some 1(2)] obtain parts where
      p: "drop (i + length needle) s = join needle parts"
        "length parts = length (occurrences_from needle (start + i + length needle) (drop (i + length needle) s)) + 1"
        "\<forall>new. replace_str needle new (drop (i + length needle) s) = join new parts"
        "list_all (\<lambda>p. \<not> sublist needle p) parts" by blast
    have ne: "parts \<noteq> []" using p(2) by auto
    show ?thesis
    proof (intro exI [of _ "take i s # parts"] conjI)
      show "s = join needle (take i s # parts)" using find_str_split [OF Some] by (simp add: join_Cons [OF ne] p(1) [symmetric])
      show "length (take i s # parts) = length (occurrences_from needle start s) + 1"
        using 1(2) Some p(2) by (simp add: occurrences_from.simps [of needle start s])
      show "\<forall>new. replace_str needle new s = join new (take i s # parts)"
        using 1(2) Some p(3) by (simp add: replace_str.simps [of needle _ s] join_Cons [OF ne])
      show "list_all (\<lambda>p. \<not> sublist needle p) (take i s # parts)" using p(4) find_str_before [OF Some 1(2)] by simp
    qed
  qed
qed

text \<open>
  Replacing all occurrences is exact: the text is cut into parts without the old text, joined by
  it as often as occurrences are counted, and the result is the same parts joined by the new text;
  so replacing the old text by itself changes nothing.
\<close>

theorem replace_all_exact:
  assumes "old_text \<noteq> []"
  shows "\<exists>parts. content = join old_text parts \<and> length parts = length (find_all_occurrences content old_text) + 1
     \<and> (\<forall>new_text. replace_str old_text new_text content = join new_text parts)
     \<and> list_all (\<lambda>p. \<not> str_contains p old_text) parts"
  using replace_parts [OF assms, of content 0] by (simp add: find_all_occurrences_def)

theorem replace_all_exact_witness:
  "(\<exists>parts. ''x=1; y=1'' = join ''=1'' parts \<and> length parts = length (find_all_occurrences ''x=1; y=1'' ''=1'') + 1)
   \<and> replace_str ''=1'' ''=2'' ''x=1; y=1'' = ''x=2; y=2''"
proof
  show "\<exists>parts. ''x=1; y=1'' = join ''=1'' parts \<and> length parts = length (find_all_occurrences ''x=1; y=1'' ''=1'') + 1"
    using replace_all_exact [of "''=1''" "''x=1; y=1''"] by auto
  show "replace_str ''=1'' ''=2'' ''x=1; y=1'' = ''x=2; y=2''" by code_simp
qed

section \<open>The exact tier\<close>

lemma occurrences_single:
  assumes "find_all_occurrences s needle = [p]" "needle \<noteq> []"
  shows "find_str needle s = Some p" "\<not> sublist needle (drop (p + length needle) s)"
  using assms unfolding find_all_occurrences_def
  by (auto simp: occurrences_from.simps [of needle 0 s] occurrences_from.simps [of needle "_ + _"] find_str_None split: option.splits)

lemma tier_result_Inr: "tier_result ps f = Some (Inr m) \<longleftrightarrow> (\<exists>p. ps = [p] \<and> m = f p)"
  by (auto simp: tier_result_def split: list.splits)

lemma tier_result_Inl: "tier_result ps f = Some (Inl e) \<longleftrightarrow> 2 \<le> length ps \<and> e = MultipleMatches (length ps)"
  by (auto simp: tier_result_def split: list.splits)

lemma unique_match_exact:
  assumes "find_unique_match nfc content old_text = Inr m" "um_tier m = Exact"
  shows "find_all_occurrences content old_text = [um_start m] \<and> um_end m = um_start m + length old_text"
  using assms by (auto simp: find_unique_match_def Let_def tier_result_Inr case_prod_beta split: option.splits if_splits)

lemma is_char_boundary_0: "is_char_boundary s 0"
  by (simp add: is_char_boundary_def)

text \<open>
  An exact edit replaces what it was asked to, once: the range of the match is the old text, the new
  content differs only there, and every other place where the old text stands overlaps the match.
\<close>

theorem exact_edit_unique:
  assumes "find_unique_match nfc content old_text = Inr m" "um_tier m = Exact" "old_text \<noteq> []"
    and "splice_match content m new_text = Some result"
  shows "\<exists>pre post. content = pre @ old_text @ post \<and> result = pre @ new_text @ post
    \<and> (\<forall>j. prefix old_text (drop j content) \<longrightarrow> length pre \<le> j \<and> j < length pre + length old_text)"
proof -
  let ?p = "um_start m"
  note u = unique_match_exact [OF assms(1,2)]
  note o = occurrences_single [OF conjunct1 [OF u] assms(3)]
  have split: "content = take ?p content @ old_text @ drop (?p + length old_text) content" by (rule find_str_split [OF o(1)])
  have len: "length (take ?p content) = ?p" using find_str_Some [OF o(1)] by simp
  have r: "result = take ?p content @ new_text @ drop (?p + length old_text) content"
    using assms(4) u by (auto simp: splice_match_def split: if_splits)
  have "?p \<le> j \<and> j < ?p + length old_text" if "prefix old_text (drop j content)" for j
  proof -
    have "?p \<le> j" using find_str_Some [OF o(1)] that by (meson not_le)
    moreover have "j < ?p + length old_text"
    proof (rule ccontr)
      assume "\<not> j < ?p + length old_text"
      then have "drop j content = drop (j - (?p + length old_text)) (drop (?p + length old_text) content)" by simp
      then have "sublist old_text (drop (?p + length old_text) content)"
        using that by (metis prefix_imp_sublist sublist_drop sublist_order.order_trans)
      with o(2) show False by simp
    qed
    ultimately show ?thesis by simp
  qed
  with split r len show ?thesis by (metis (no_types, lifting))
qed

theorem exact_edit_unique_witness:
  "\<exists>pre post. ''let x = 1;'' = pre @ ''x'' @ post \<and> ''let y = 1;'' = pre @ ''y'' @ post"
proof -
  have m: "find_unique_match id ''let x = 1;'' ''x'' = Inr \<lparr>um_start = 4, um_end = 5, um_tier = Exact\<rparr>" by code_simp
  have s: "splice_match ''let x = 1;'' \<lparr>um_start = 4, um_end = 5, um_tier = Exact\<rparr> ''y'' = Some ''let y = 1;''" by code_simp
  from exact_edit_unique [OF m _ _ s] show ?thesis by auto
qed

text \<open>
  An overlap is not an ambiguity: the old text may stand in two places that share bytes, and the
  first is taken without a word.
\<close>

theorem overlapping_match_accepted:
  "find_unique_match nfc ''aaa'' ''aa'' = Inr \<lparr>um_start = 0, um_end = 2, um_tier = Exact\<rparr>
   \<and> prefix ''aa'' (drop 0 ''aaa'') \<and> prefix ''aa'' (drop 1 ''aaa'')"
proof -
  have "find_all_occurrences ''aaa'' ''aa'' = [0]" by code_simp
  then show ?thesis by (simp add: find_unique_match_def tier_result_def)
qed

section \<open>The blank tier\<close>

lemma ws_walk_end:
  "n + length nrm = norm_end \<Longrightarrow> snd (ws_walk norm_start norm_end orig i nrm n rs re) = re"
proof (induction norm_start norm_end orig i nrm n rs re rule: ws_walk.induct)
  case (1 norm_start norm_end orig i nrm n rs re)
  show ?case
  proof (cases "nrm = [] \<or> orig = []")
    case False
    then have "n \<noteq> norm_end" "n + 1 + length (tl nrm) = norm_end" using "1.prems" by (cases nrm; auto)+
    with False 1 show ?thesis by (subst ws_walk.simps) (auto simp: Let_def)
  qed (simp add: ws_walk.simps)
qed

text \<open>Text of ASCII characters is its own normal form.\<close>

definition keeps_ascii :: "(string \<Rightarrow> string) \<Rightarrow> bool" where
  "keeps_ascii nfc \<longleftrightarrow> (\<forall>s. list_all (\<lambda>c. byte_val c < 128) s \<longrightarrow> nfc s = s)"

lemma normal_text_match:
  "nfc content = content \<Longrightarrow> nfc old_text = old_text \<Longrightarrow>
     find_unique_match nfc content old_text = find_unique_match id content old_text"
  by (simp add: find_unique_match_def split: option.split)

text \<open>
  A match of the blank tier that ends the normalised text runs to the end of the file: with it go
  the last line feed and all trailing blanks, although the old text had none.
\<close>

theorem blank_match_eats_ending:
  assumes "find_unique_match nfc content old_text = Inr m" "um_tier m = WhitespaceNormalized"
    and "find_all_occurrences (normalize_whitespace content) (normalize_whitespace old_text) = [p]"
    and "p + length (normalize_whitespace old_text) = length (normalize_whitespace content)"
  shows "um_end m = length content
    \<and> splice_match content m new_text =
        (if is_char_boundary content (um_start m) then Some (take (um_start m) content @ new_text) else None)"
proof -
  have "um_end m = length content"
    using assms ws_walk_end [of 0 "normalize_whitespace content"]
    by (auto simp: find_unique_match_def map_ws_range_to_original_def Let_def tier_result_Inr case_prod_beta
        split: option.splits if_splits)
  moreover have "is_char_boundary content (length content)" by (simp add: is_char_boundary_def)
  ultimately show ?thesis by (simp add: splice_match_def)
qed

theorem blank_match_eats_ending_witness:
  "splice_match (''a  b'' @ [CHR 0x0A]) \<lparr>um_start = 0, um_end = 5, um_tier = WhitespaceNormalized\<rparr> ''c'' = Some ''c''"
proof -
  have m: "find_unique_match id (''a  b'' @ [CHR 0x0A]) ''a b'' = Inr \<lparr>um_start = 0, um_end = 5, um_tier = WhitespaceNormalized\<rparr>"
    by code_simp
  have o: "find_all_occurrences (normalize_whitespace (''a  b'' @ [CHR 0x0A])) (normalize_whitespace ''a b'') = [0]"
    "0 + length (normalize_whitespace ''a b'') = length (normalize_whitespace (''a  b'' @ [CHR 0x0A]))" by code_simp+
  from blank_match_eats_ending [OF m _ o] show ?thesis by (simp add: is_char_boundary_0)
qed

text \<open>
  The ranges of the blank tier are not those of the old text: an old text that ends in a line feed
  is matched without it, so that replacing one line by another leaves an empty line behind.
\<close>

theorem blank_edit_doubles_newline:
  assumes "keeps_ascii nfc"
  shows "\<exists>m. find_unique_match nfc (''a  b'' @ [CHR 0x0A] @ ''c'' @ [CHR 0x0A]) (''a b'' @ [CHR 0x0A]) = Inr m
    \<and> splice_match (''a  b'' @ [CHR 0x0A] @ ''c'' @ [CHR 0x0A]) m (''d'' @ [CHR 0x0A])
      = Some (''d'' @ [CHR 0x0A, CHR 0x0A] @ ''c'' @ [CHR 0x0A])"
proof -
  let ?c = "''a  b'' @ [CHR 0x0A] @ ''c'' @ [CHR 0x0A]" and ?o = "''a b'' @ [CHR 0x0A]"
  have "nfc ?c = ?c" "nfc ?o = ?o" using assms by (simp_all add: keeps_ascii_def byte_val_def)
  then have "find_unique_match nfc ?c ?o = find_unique_match id ?c ?o" by (rule normal_text_match)
  moreover have "find_unique_match id ?c ?o = Inr \<lparr>um_start = 0, um_end = 4, um_tier = WhitespaceNormalized\<rparr>" by code_simp
  moreover have "splice_match ?c \<lparr>um_start = 0, um_end = 4, um_tier = WhitespaceNormalized\<rparr> (''d'' @ [CHR 0x0A])
      = Some (''d'' @ [CHR 0x0A, CHR 0x0A] @ ''c'' @ [CHR 0x0A])" by code_simp
  ultimately show ?thesis by auto
qed

theorem blank_edit_doubles_newline_witness:
  "\<exists>m. find_unique_match id (''a  b'' @ [CHR 0x0A] @ ''c'' @ [CHR 0x0A]) (''a b'' @ [CHR 0x0A]) = Inr m"
  using blank_edit_doubles_newline [of id] by (auto simp: keeps_ascii_def)

text \<open>
  The walk back from the blank tier loses its way over white space that is trimmed but is no space or
  tab: with a no-break space at the end of a line it comes to stand inside a character, and
  slicing the text there panics.
\<close>

theorem blank_edit_panics:
  "find_unique_match id (''x'' @ [CHR 0xC2, CHR 0xA0, CHR 0x0A] @ ''y  z'') ''y z''
     = Inr \<lparr>um_start = 2, um_end = 8, um_tier = WhitespaceNormalized\<rparr>
   \<and> splice_match (''x'' @ [CHR 0xC2, CHR 0xA0, CHR 0x0A] @ ''y  z'')
        \<lparr>um_start = 2, um_end = 8, um_tier = WhitespaceNormalized\<rparr> new_text = None"
proof
  show "find_unique_match id (''x'' @ [CHR 0xC2, CHR 0xA0, CHR 0x0A] @ ''y  z'') ''y z''
     = Inr \<lparr>um_start = 2, um_end = 8, um_tier = WhitespaceNormalized\<rparr>" by code_simp
  have "\<not> is_char_boundary (''x'' @ [CHR 0xC2, CHR 0xA0, CHR 0x0A] @ ''y  z'') 2" by code_simp
  then show "splice_match (''x'' @ [CHR 0xC2, CHR 0xA0, CHR 0x0A] @ ''y  z'')
        \<lparr>um_start = 2, um_end = 8, um_tier = WhitespaceNormalized\<rparr> new_text = None"
    by (simp add: splice_match_def)
qed

section \<open>Cut output\<close>

lemma concat_split_inclusive: "concat (split_inclusive acc s) = acc @ s"
  by (induction acc s rule: split_inclusive.induct) auto

lemma split_inclusive_nonempty: "[] \<notin> set (split_inclusive acc s)"
  by (induction acc s rule: split_inclusive.induct) auto

lemma notice_contains: "str_contains (a @ m @ c) m"
  unfolding sublist_def by blast

lemma cut_lines_spec:
  assumes "output = result @ concat segs" "byte_count = length result" "byte_count \<le> mb" "line_index \<le> ml" "[] \<notin> set segs"
  shows "\<exists>k t. cut_lines output ml mb line_index result byte_count segs = take k output @ t \<and> k \<le> mb \<and> k \<le> length output
    \<and> (t = [] \<longleftrightarrow> length output \<le> mb \<and> line_index + length segs \<le> ml) \<and> (t = [] \<longrightarrow> k = length output)
    \<and> (t \<noteq> [] \<longrightarrow> str_contains t cut_mark)"
  using assms
proof (induction segs arbitrary: line_index result byte_count)
  case Nil
  then show ?case by (intro exI [of _ "length output"] exI [of _ "[]"]) simp
next
  case (Cons seg segs)
  show ?case
  proof (cases "ml \<le> line_index")
    case True
    let ?t = "cut_mark @ show_nat ml @ '' lines, ''
      @ show_nat (length (split_inclusive [] output) - line_index) @ '' lines omitted]''"
    have "str_contains ?t cut_mark" using notice_contains [of "[]" cut_mark] by simp
    moreover have "result = take byte_count output" using Cons.prems(1,2) by simp
    moreover have "byte_count \<le> length output" using Cons.prems(1,2) by simp
    ultimately show ?thesis using True Cons.prems(3)
      by (intro exI [of _ byte_count] exI [of _ ?t]) simp
  next
    case False
    show ?thesis
    proof (cases "mb < byte_count + length seg")
      case True
      let ?kept = "boundary_before seg (mb - byte_count)"
      let ?t = "(if \<not> ends_with (result @ take ?kept seg) [CHR 0x0A] then [CHR 0x0A] else [])
                @ cut_mark @ show_nat mb @ '' bytes, ''
                @ show_nat (length output - (byte_count + ?kept)) @ '' bytes omitted]''"
      have c: "str_contains ?t cut_mark" by (rule notice_contains)
      have k: "?kept \<le> mb - byte_count" by (rule boundary_before_le)
      then have le: "?kept \<le> length seg" using True by simp
      have "result @ take ?kept seg = take (byte_count + ?kept) output" using Cons.prems(1,2) le by simp
      moreover have "byte_count + ?kept \<le> mb" "byte_count + ?kept \<le> length output" "mb < length output"
        using k le True Cons.prems by simp_all
      ultimately show ?thesis using True False c
        by (intro exI [of _ "byte_count + ?kept"] exI [of _ ?t]) (simp add: Let_def)
    next
      case le: False
      have "\<exists>k t. cut_lines output ml mb (line_index + 1) (result @ seg) (byte_count + length seg) segs = take k output @ t
        \<and> k \<le> mb \<and> k \<le> length output
        \<and> (t = [] \<longleftrightarrow> length output \<le> mb \<and> line_index + 1 + length segs \<le> ml) \<and> (t = [] \<longrightarrow> k = length output)
        \<and> (t \<noteq> [] \<longrightarrow> str_contains t cut_mark)"
        by (rule Cons.IH) (use Cons.prems le False in simp_all)
      then show ?thesis using False le by simp
    qed
  qed
qed

text \<open>
  Tool output is bounded and honest: what is returned is at most the allowed number of bytes from
  the start of the output, and a notice follows exactly when there were more bytes or more lines than
  allowed.
\<close>

theorem tool_output_bounded:
  "\<exists>k notice. truncate_tool_output output max_lines max_bytes = take k output @ notice \<and> k \<le> max_bytes
    \<and> (notice = [] \<longleftrightarrow> length output \<le> max_bytes \<and> length (split_inclusive [] output) \<le> max_lines)
    \<and> (if notice = [] then take k output = output else str_contains notice cut_mark)"
proof (cases "output = []")
  case False
  from cut_lines_spec [of "output" "[]" "split_inclusive [] output" 0 max_bytes 0 max_lines] obtain k t where
    "cut_lines output max_lines max_bytes 0 [] 0 (split_inclusive [] output) = take k output @ t" "k \<le> max_bytes"
    "t = [] \<longleftrightarrow> length output \<le> max_bytes \<and> length (split_inclusive [] output) \<le> max_lines"
    "t = [] \<longrightarrow> k = length output" "t \<noteq> [] \<longrightarrow> str_contains t cut_mark"
    by (auto simp: concat_split_inclusive split_inclusive_nonempty)
  with False show ?thesis by (intro exI [of _ k] exI [of _ t]) (simp add: truncate_tool_output_def)
qed (auto simp: truncate_tool_output_def)

end
