(* ===== verification/File_Tools.thy ===== *)
theory File_Tools
  imports Tool_Gate Path_Security Diff Edit_Match "HOL-Library.List_Lexorder" "HOL-Library.Char_ord"
begin

text \<open>
  The file tools of \<open>src/src/tools/filesystem.rs\<close>: reading, writing, listing and editing files under the
  workspace. A disk is the file system of \<open>Path_Fs\<close> with the text of each file, what may be read and
  written, and how much room a write finds. A tool takes the disk and returns its result, with
  \<open>None\<close> for a panic, and the disk after it. No other process acts in between. When the securing of a
  directory chain fails, the directories it had made by then are not recorded. The order in which the
  system lists a directory is the parameter \<open>names\<close>, the text of a diff error the parameter \<open>msg\<close>, the
  Unicode normal form the parameter \<open>nfc\<close>.
\<close>

section \<open>The disk\<close>

record disk =
  dk_fs :: file_system
  dk_text :: "string list \<Rightarrow> string option"
  dk_may_read :: "string list \<Rightarrow> bool"
  dk_may_write :: "string list \<Rightarrow> bool"
  dk_room :: "string list \<Rightarrow> nat option"

definition is_a_directory :: string where
  "is_a_directory = ''Is a directory (os error 21)''"

text \<open>\<open>read_to_string\<close>; bytes that are not UTF-8 have no text.\<close>

definition read_to_string :: "disk \<Rightarrow> path_buf \<Rightarrow> string + string" where
  "read_to_string dk path =
     (case resolve (dk_fs dk) path of
        Inl e \<Rightarrow> Inl (show_io_error e)
      | Inr d \<Rightarrow>
          if node_at (fs_node (dk_fs dk)) d = Some Dir_Node then Inl is_a_directory
          else if \<not> dk_may_read dk d then Inl (show_io_error Permission_Denied)
          else (case dk_text dk d of Some text \<Rightarrow> Inr text | None \<Rightarrow> Inl ''stream did not contain valid UTF-8''))"

text \<open>\<open>open\<close> for writing, creating, and not following a final link: the name of the opened file.\<close>

definition open_write :: "disk \<Rightarrow> path_buf \<Rightarrow> string + string list \<times> disk" where
  "open_write dk path =
     (if path = [] then Inl (show_io_error Not_Found)
      else case last path of
        Normal s \<Rightarrow>
          (case resolve_parent (dk_fs dk) (butlast path) of
             Inl e \<Rightarrow> Inl (show_io_error e)
           | Inr d \<Rightarrow>
               (case fs_node (dk_fs dk) (d @ [s]) of
                  None \<Rightarrow>
                    if fs_writable (dk_fs dk) d
                    then Inr (d @ [s], dk\<lparr>dk_fs := (dk_fs dk)\<lparr>fs_node := (fs_node (dk_fs dk))(d @ [s] \<mapsto> File_Node 1)\<rparr>,
                                dk_text := (dk_text dk)(d @ [s] := Some [])\<rparr>)
                    else Inl (show_io_error Permission_Denied)
                | Some (Link_Node t) \<Rightarrow> Inl (show_io_error Link_Loop)
                | Some Dir_Node \<Rightarrow> Inl is_a_directory
                | Some (File_Node n) \<Rightarrow>
                    if dk_may_write dk (d @ [s]) then Inr (d @ [s], dk) else Inl (show_io_error Permission_Denied)))
      | _ \<Rightarrow> Inl is_a_directory)"

text \<open>\<open>set_len(0)\<close> and \<open>write_all\<close>: bytes are written as far as there is room.\<close>

definition overwrite :: "disk \<Rightarrow> string list \<Rightarrow> string \<Rightarrow> string option \<times> disk" where
  "overwrite dk name content =
     (case dk_room dk name of
        Some n \<Rightarrow>
          if n < length content
          then (Some ''No space left on device (os error 28)'', dk\<lparr>dk_text := (dk_text dk)(name := Some (take n content))\<rparr>)
          else (None, dk\<lparr>dk_text := (dk_text dk)(name := Some content)\<rparr>)
      | None \<Rightarrow> (None, dk\<lparr>dk_text := (dk_text dk)(name := Some content)\<rparr>))"

section \<open>Writing\<close>

definition resolve_path :: "file_system \<Rightarrow> string \<Rightarrow> string option \<Rightarrow> (path_buf \<times> string) zresult" where
  "resolve_path fs path ctx_workspace =
     (case ctx_workspace of
        None \<Rightarrow> Inl (SecurityViolation ''Workspace not configured; filesystem tools require a workspace for safety'')
      | Some workspace \<Rightarrow>
          (case validate_path_in_workspace fs path workspace of Inl e \<Rightarrow> Inl e | Inr safe_path \<Rightarrow> Inr (safe_path, workspace)))"

text \<open>\<open>Path::parent\<close>, unless it is empty.\<close>

definition real_parent :: "path_buf \<Rightarrow> path_buf option" where
  "real_parent p = (if p = [] \<or> last p = RootDir \<or> butlast p = [] then None else Some (butlast p))"

definition secure_parent :: "disk \<Rightarrow> path_buf \<Rightarrow> string \<Rightarrow> disk zresult" where
  "secure_parent dk path workspace =
     (case real_parent path of
        None \<Rightarrow> Inr dk
      | Some parent \<Rightarrow>
          (case ensure_directory_chain_secure parent workspace (dk_fs dk) of
             Inl e \<Rightarrow> Inl e
           | Inr fs \<Rightarrow> (case revalidate_path fs parent workspace of Inl e \<Rightarrow> Inl e | Inr _ \<Rightarrow> Inr (dk\<lparr>dk_fs := fs\<rparr>))))"

definition write_file_secure :: "disk \<Rightarrow> path_buf \<Rightarrow> string \<Rightarrow> string \<Rightarrow> unit zresult \<times> disk" where
  "write_file_secure dk path workspace content =
     (case secure_parent dk path workspace of
        Inl e \<Rightarrow> (Inl e, dk)
      | Inr dk \<Rightarrow>
          (case revalidate_path (dk_fs dk) path workspace of
             Inl e \<Rightarrow> (Inl e, dk)
           | Inr _ \<Rightarrow>
               (case open_write dk path of
                  Inl e \<Rightarrow> (Inl (Tool (''Failed to securely open file '' @ quoted (show_path path) @ '': '' @ e)), dk)
                | Inr (name, dk) \<Rightarrow>
                    (case fs_node (dk_fs dk) name of
                       Some (File_Node n) \<Rightarrow>
                         if 1 < n
                         then (Inl (SecurityViolation (''Write blocked: '' @ quoted (show_path path) @ '' has '' @ show_nat n
                                 @ '' hard links and may alias content outside workspace'')), dk)
                         else (case overwrite dk name content of
                                 (Some e, dk) \<Rightarrow>
                                   (Inl (Tool (''Failed to write file '' @ quoted (show_path path) @ '': '' @ e)), dk)
                               | (None, dk) \<Rightarrow> (Inr (), dk))
                     | _ \<Rightarrow> (Inr (), dk)))))"

section \<open>The tools\<close>

record file_args =
  fa_path :: "string option"
  fa_content :: "string option"
  fa_old_text :: "string option"
  fa_new_text :: "string option"
  fa_diff :: "string option"
  fa_expected :: "nat option"

type_synonym tool_run = "tool_output zresult option \<times> disk"

definition failing :: "zepto_error \<Rightarrow> disk \<Rightarrow> tool_run" where
  "failing e dk = (Some (Inl e), dk)"

definition missing_arg :: "string \<Rightarrow> disk \<Rightarrow> tool_run" where
  "missing_arg name dk = failing (Tool (''Missing '' @ quoted name @ '' argument'')) dk"

definition read_failed :: "path_buf \<Rightarrow> string \<Rightarrow> zepto_error" where
  "read_failed path e = Tool (''Failed to read file '' @ quoted (show_path path) @ '': '' @ e)"

definition read_file :: "file_args \<Rightarrow> string option \<Rightarrow> disk \<Rightarrow> tool_run" where
  "read_file args ctx_workspace dk =
     (case fa_path args of
        None \<Rightarrow> missing_arg ''path'' dk
      | Some path \<Rightarrow>
          (case resolve_path (dk_fs dk) path ctx_workspace of
             Inl e \<Rightarrow> failing e dk
           | Inr (full_path, workspace) \<Rightarrow>
               (case revalidate_path (dk_fs dk) full_path workspace of
                  Inl e \<Rightarrow> failing e dk
                | Inr _ \<Rightarrow>
                    (case read_to_string dk full_path of
                       Inl e \<Rightarrow> failing (read_failed full_path e) dk
                     | Inr content \<Rightarrow>
                         (Some (Inr (output_llm_only (truncate_tool_output content default_max_lines default_max_bytes))), dk)))))"

definition write_file :: "file_args \<Rightarrow> string option \<Rightarrow> disk \<Rightarrow> tool_run" where
  "write_file args ctx_workspace dk =
     (case fa_path args of
        None \<Rightarrow> missing_arg ''path'' dk
      | Some path \<Rightarrow>
          (case fa_content args of
             None \<Rightarrow> missing_arg ''content'' dk
           | Some content \<Rightarrow>
               (case resolve_path (dk_fs dk) path ctx_workspace of
                  Inl e \<Rightarrow> failing e dk
                | Inr (full_path, workspace) \<Rightarrow>
                    (case write_file_secure dk full_path workspace content of
                       (Inl e, dk) \<Rightarrow> failing e dk
                     | (Inr _, dk) \<Rightarrow>
                         (Some (Inr (output_llm_only (''Successfully wrote '' @ show_nat (length content) @ '' bytes to ''
                            @ show_path full_path))), dk)))))"

definition type_indicator :: "node option \<Rightarrow> string" where
  "type_indicator nd = (case nd of Some Dir_Node \<Rightarrow> ''/'' | Some (Link_Node t) \<Rightarrow> ''@'' | _ \<Rightarrow> [])"

definition list_dir :: "(file_system \<Rightarrow> string list \<Rightarrow> string list) \<Rightarrow> file_args \<Rightarrow> string option \<Rightarrow> disk \<Rightarrow> tool_run" where
  "list_dir names args ctx_workspace dk =
     (case fa_path args of
        None \<Rightarrow> missing_arg ''path'' dk
      | Some path \<Rightarrow>
          (case resolve_path (dk_fs dk) path ctx_workspace of
             Inl e \<Rightarrow> failing e dk
           | Inr (full_path, workspace) \<Rightarrow>
               (case revalidate_path (dk_fs dk) full_path workspace of
                  Inl e \<Rightarrow> failing e dk
                | Inr _ \<Rightarrow>
                    (case resolve_parent (dk_fs dk) full_path of
                       Inl e \<Rightarrow>
                         failing (Tool (''Failed to read directory '' @ quoted (show_path full_path) @ '': '' @ show_io_error e)) dk
                     | Inr d \<Rightarrow>
                         (let items = map (\<lambda>name. name @ type_indicator (fs_node (dk_fs dk) (d @ [name]))) (names (dk_fs dk) d);
                              joined = join [CHR 0x0A] (sort items)
                          in (Some (Inr (output_llm_only (truncate_tool_output joined default_max_lines default_max_bytes))), dk))))))"

text \<open>The two ways of an edit, from the content that was read to the new content or an error.\<close>

definition not_found_error :: "string \<Rightarrow> path_buf \<Rightarrow> zepto_error" where
  "not_found_error old_text path =
     Tool (''Text '' @ quoted (preview old_text 50) @ '' not found in file '' @ quoted (show_path path))"

text \<open>The new content with the message of success; \<open>None\<close> is a panic.\<close>

definition replaced_content ::
    "(string \<Rightarrow> string) \<Rightarrow> path_buf \<Rightarrow> string \<Rightarrow> string \<Rightarrow> nat option \<Rightarrow> string \<Rightarrow> (string \<times> string) zresult option" where
  "replaced_content nfc path old_text new_text expected content =
     (case expected of
        Some n \<Rightarrow>
          (let replacements = length (find_all_occurrences content old_text)
           in Some (if replacements = 0 then Inl (not_found_error old_text path)
                    else if replacements \<noteq> n
                    then Inl (Tool (''Expected '' @ show_nat n @ '' replacement(s) for '' @ quoted (preview old_text 50)
                           @ '' in '' @ quoted (show_path path) @ '', found '' @ show_nat replacements))
                    else Inr (replace_str old_text new_text content,
                           ''Successfully replaced '' @ show_nat replacements @ '' occurrence(s) in '' @ show_path path)))
      | None \<Rightarrow>
          (case find_unique_match nfc content old_text of
             Inr m \<Rightarrow>
               map_option (\<lambda>new_content. Inr (new_content,
                   ''Successfully replaced 1 occurrence ('' @ show_tier (um_tier m) @ '' match) in '' @ show_path path))
                 (splice_match content m new_text)
           | Inl (MultipleMatches n) \<Rightarrow>
               Some (Inl (Tool (''Found '' @ show_nat n @ '' occurrences of text in '' @ quoted (show_path path)
                 @ ''. Provide more surrounding context to uniquely identify the location.'')))
           | Inl NotFound_Match \<Rightarrow> Some (Inl (not_found_error old_text path))))"

definition patched_content ::
    "(diff_error \<Rightarrow> string) \<Rightarrow> path_buf \<Rightarrow> string \<Rightarrow> string \<Rightarrow> (string \<times> string) zresult option" where
  "patched_content msg path diff content =
     Some (case apply_unified_diff content diff of
             Inl e \<Rightarrow> Inl (Tool (''Diff apply failed: '' @ msg e))
           | Inr (new_content, summary) \<Rightarrow>
               Inr (new_content, ''Applied '' @ show_nat (ds_hunks_applied summary) @ '' hunk(s): +''
                 @ show_nat (ds_lines_added summary) @ '' -'' @ show_nat (ds_lines_removed summary) @ '' in '' @ show_path path))"

text \<open>Reading, computing the new content, and writing it.\<close>

definition rewrite_file ::
    "path_buf \<Rightarrow> string \<Rightarrow> (string \<Rightarrow> (string \<times> string) zresult option) \<Rightarrow> disk \<Rightarrow> tool_run" where
  "rewrite_file path workspace f dk =
     (case read_to_string dk path of
        Inl e \<Rightarrow> failing (read_failed path e) dk
      | Inr content \<Rightarrow>
          (case f content of
             None \<Rightarrow> (None, dk)
           | Some (Inl e) \<Rightarrow> failing e dk
           | Some (Inr (new_content, done_text)) \<Rightarrow>
               (case write_file_secure dk path workspace new_content of
                  (Inl e, dk) \<Rightarrow> failing e dk
                | (Inr _, dk) \<Rightarrow> (Some (Inr (output_llm_only done_text)), dk))))"

definition edit_file ::
    "(string \<Rightarrow> string) \<Rightarrow> (diff_error \<Rightarrow> string) \<Rightarrow> file_args \<Rightarrow> string option \<Rightarrow> disk \<Rightarrow> tool_run" where
  "edit_file nfc msg args ctx_workspace dk =
     (case fa_path args of
        None \<Rightarrow> missing_arg ''path'' dk
      | Some path \<Rightarrow>
          if fa_diff args \<noteq> None \<and> (fa_old_text args \<noteq> None \<or> fa_new_text args \<noteq> None)
          then failing (Tool ''Provide either 'diff' or 'old_text'/'new_text', not both.'') dk
          else if fa_diff args = None \<and> (fa_old_text args = None \<or> fa_new_text args = None)
          then failing (Tool (''Provide either 'diff' or 'old_text'/'' @ quoted ''new_text'')) dk
          else (case resolve_path (dk_fs dk) path ctx_workspace of
             Inl e \<Rightarrow> failing e dk
           | Inr (full_path, workspace) \<Rightarrow>
               (case revalidate_path (dk_fs dk) full_path workspace of
                  Inl e \<Rightarrow> failing e dk
                | Inr _ \<Rightarrow>
                    (case (fa_diff args, fa_old_text args, fa_new_text args) of
                       (Some diff, _, _) \<Rightarrow> rewrite_file full_path workspace (patched_content msg full_path diff) dk
                     | (None, Some old_text, Some new_text) \<Rightarrow>
                         if old_text = [] then failing (Tool (quoted ''old_text'' @ '' must not be empty'')) dk
                         else rewrite_file full_path workspace
                                (replaced_content nfc full_path old_text new_text (fa_expected args)) dk
                     | _ \<Rightarrow> failing (Tool (''Provide either 'diff' or 'old_text'/'' @ quoted ''new_text'')) dk))))"

section \<open>Growing file systems\<close>

lemma node_at_extend: "node_at nd p = Some x \<Longrightarrow> nd \<subseteq>\<^sub>m nd' \<Longrightarrow> node_at nd' p = Some x"
  by (auto simp: node_at_def map_le_def dom_def split: if_splits)

lemma walk_extend: "walk nd n here cs = Inr r \<Longrightarrow> nd \<subseteq>\<^sub>m nd' \<Longrightarrow> walk nd' n here cs = Inr r"
proof (induction nd n here cs arbitrary: r rule: walk.induct)
  case (5 nd n here s cs)
  have at: "node_at nd here = Some Dir_Node \<Longrightarrow> node_at nd' here = Some Dir_Node" by (rule node_at_extend [OF _ 5(6)])
  have ext: "nd (here @ [s]) = Some x \<Longrightarrow> nd' (here @ [s]) = Some x" for x using 5(6) by (auto simp: map_le_def dom_def)
  from 5(5) obtain d k where r: "r = (d, k)" "walk nd n here (Normal s # cs) = Inr (d, k)" by (cases r) auto
  from r(2) show ?case
  proof (cases rule: walk_NormalE)
    case (link t there j)
    have "walk nd' (n - 1) here t = Inr (there, j)" using 5(3) [OF _ link(2) refl link(3,4) link(5) 5(6)] link(1) by simp
    moreover have "walk nd' (min j (n - 1)) there cs = Inr (d, k)"
      using 5(4) [OF _ link(2) refl link(3,4,5) refl link(6) 5(6)] link(1) by simp
    ultimately show ?thesis using link at ext [OF link(2)] by (simp add: r(1))
  next
    case (plain x)
    have "walk nd' n (here @ [s]) cs = Inr (d, k)"
      using 5(1) [OF _ _ _ _ 5(6)] 5(2) [OF _ _ _ _ 5(6)] plain by (cases x) auto
    then show ?thesis using plain at ext [OF plain(2)] by (cases x) (auto simp: r(1))
  qed
qed (auto intro: node_at_extend split: if_splits)

lemma canonicalize_extend:
  "canonicalize fs p = Inr c \<Longrightarrow> fs_node fs \<subseteq>\<^sub>m fs_node fs' \<Longrightarrow> fs_cwd fs' = fs_cwd fs \<Longrightarrow> canonicalize fs' p = Inr c"
  by (auto simp: canonicalize_def resolve_def dest: walk_extend split: sum.splits if_splits)

lemma fs_ok_extend: "fs_ok fs \<Longrightarrow> fs_node fs \<subseteq>\<^sub>m fs_node fs' \<Longrightarrow> fs_cwd fs' = fs_cwd fs \<Longrightarrow> fs_ok fs'"
  by (simp add: fs_ok_def real_name_extend)

lemma abs_path_prefix: "prefix (abs_path w) (abs_path d) \<longleftrightarrow> prefix w d"
proof -
  have "prefix (map Normal w) (map Normal d) \<longleftrightarrow> prefix w d"
  proof (induction w arbitrary: d)
    case (Cons a w)
    then show ?case by (cases d) auto
  qed simp
  then show ?thesis by (simp add: abs_path_def)
qed

text \<open>What the securing of directories may change: new directories, and nothing else.\<close>

definition grows_by_dirs :: "file_system \<Rightarrow> file_system \<Rightarrow> bool" where
  "grows_by_dirs fs fs' \<longleftrightarrow> fs_node fs \<subseteq>\<^sub>m fs_node fs' \<and> fs_cwd fs' = fs_cwd fs
     \<and> (\<forall>q. fs_node fs q = None \<longrightarrow> fs_node fs' q = None \<or> fs_node fs' q = Some Dir_Node)"

lemma chain_grows:
  assumes "fs_ok fs" "canonicalize fs (path_of workspace) = Inr (abs_path w)"
    and "ensure_directory_chain_secure parent workspace fs = Inr fs'"
  shows "grows_by_dirs fs fs'"
proof -
  have ws: "canonical_workspace fs workspace = abs_path w" using assms(2) by (simp add: canonical_workspace_def)
  obtain r where r: "normalize_path fs parent = abs_path w @ r" "ensure_components (abs_path w) (abs_path w) r fs = Inr fs'"
    using assms(3) by (auto simp: ensure_directory_chain_secure_def ws Let_def strip_prefix_Some split: option.splits)
  have n: "list_all is_normal r"
    using normal_path_suffix [of "abs_path w" r] normalize_path_normal [OF assms(1), of parent] r(1) by (simp add: abs_path_def)
  obtain w' where "abs_path w = abs_path w'" "real_name (fs_node fs) w'" using canonicalize_abs [OF assms(1,2)] by blast
  then have "real_name (fs_node fs) w" by (metis abs_path_prefix prefix_order.antisym prefix_order.refl)
  from ensure_components_abs [OF r(2) n this] have "adds_dirs (\<lambda>q. strict_prefix w q) fs fs'" by (rule conjunct1)
  then show ?thesis unfolding adds_dirs_def grows_by_dirs_def by blast
qed

lemma parent_resolved:
  assumes "resolve_parent fs p = Inr d" "p \<noteq> []"
  shows "canonicalize fs p = Inr (abs_path d)"
  using assms by (auto simp: resolve_parent_def canonicalize_def resolve_def split: sum.splits if_splits)

lemma secure_parent_facts:
  assumes "fs_ok (dk_fs dk)" "canonicalize (dk_fs dk) (path_of workspace) = Inr (abs_path w)" "prefix (abs_path w) p"
    and "secure_parent dk p workspace = Inr dk1"
  shows "\<exists>fs1. dk1 = dk\<lparr>dk_fs := fs1\<rparr> \<and> grows_by_dirs (dk_fs dk) fs1
    \<and> (\<forall>s d. last p = Normal s \<longrightarrow> resolve_parent fs1 (butlast p) = Inr d \<longrightarrow> prefix w d)"
proof (cases "real_parent p")
  case None
  obtain r where r: "p = RootDir # map Normal w @ r" using assms(3) by (auto simp: abs_path_def elim: prefixE)
  have "last p = RootDir"
  proof (cases "map Normal w @ r = []")
    case False
    then have "butlast p \<noteq> []" by (simp add: r)
    with None r show ?thesis by (simp add: real_parent_def split: if_splits)
  qed (simp add: r)
  then show ?thesis using None assms(4)
    by (intro exI [of _ "dk_fs dk"]) (simp add: secure_parent_def grows_by_dirs_def)
next
  case (Some parent)
  then have par: "parent = butlast p" "parent \<noteq> []" by (auto simp: real_parent_def split: if_splits)
  from assms(4) Some obtain fs1 where
    fs1: "ensure_directory_chain_secure parent workspace (dk_fs dk) = Inr fs1" "revalidate_path fs1 parent workspace = Inr ()"
      "dk1 = dk\<lparr>dk_fs := fs1\<rparr>" by (auto simp: secure_parent_def split: sum.splits)
  have g: "grows_by_dirs (dk_fs dk) fs1" by (rule chain_grows [OF assms(1,2) fs1(1)])
  then have "canonicalize fs1 (path_of workspace) = Inr (abs_path w)"
    using canonicalize_extend [OF assms(2)] by (simp add: grows_by_dirs_def)
  then have ws: "canonical_workspace fs1 workspace = abs_path w" by (simp add: canonical_workspace_def)
  have "prefix w d" if "resolve_parent fs1 (butlast p) = Inr d" for d
    using fs1(2) parent_resolved [OF that] par
    by (auto simp: revalidate_path_def ws Let_def abs_path_prefix split: option.splits if_splits)
  with fs1(3) g show ?thesis by blast
qed

lemma open_write_cases:
  assumes "open_write dk p = Inr (name, dk1)"
  obtains (created) s d where "p \<noteq> []" "last p = Normal s" "resolve_parent (dk_fs dk) (butlast p) = Inr d" "name = d @ [s]"
      "fs_node (dk_fs dk) name = None"
      "dk1 = dk\<lparr>dk_fs := (dk_fs dk)\<lparr>fs_node := (fs_node (dk_fs dk))(name \<mapsto> File_Node 1)\<rparr>, dk_text := (dk_text dk)(name := Some [])\<rparr>"
  | (opened) s d n where "p \<noteq> []" "last p = Normal s" "resolve_parent (dk_fs dk) (butlast p) = Inr d" "name = d @ [s]"
      "fs_node (dk_fs dk) name = Some (File_Node n)" "dk1 = dk"
proof -
  have p: "p \<noteq> []" using assms by (auto simp: open_write_def)
  obtain s where s: "last p = Normal s" using assms p by (cases "last p") (simp_all add: open_write_def)
  obtain d where d: "resolve_parent (dk_fs dk) (butlast p) = Inr d"
    using assms p s by (cases "resolve_parent (dk_fs dk) (butlast p)") (simp_all add: open_write_def)
  show thesis
  proof (cases "fs_node (dk_fs dk) (d @ [s])")
    case None
    with assms p s d have "fs_writable (dk_fs dk) d" by (simp add: open_write_def split: if_splits)
    with assms p s d None show ?thesis by (intro created [of s d]) (auto simp: open_write_def)
  next
    case (Some x)
    then obtain n where x: "x = File_Node n" using assms p s d by (cases x) (simp_all add: open_write_def)
    with assms p s d Some have "dk_may_write dk (d @ [s])" by (simp add: open_write_def split: if_splits)
    with assms p s d Some x show ?thesis by (intro opened [of s d n]) (auto simp: open_write_def)
  qed
qed

lemma resolve_file:
  assumes "resolve_parent fs (butlast p) = Inr d" "last p = Normal s" "p \<noteq> []"
    and "fs_node fs \<subseteq>\<^sub>m fs_node fs'" "fs_cwd fs' = fs_cwd fs" "fs_node fs' (d @ [s]) = Some (File_Node n)"
  shows "resolve fs' p = Inr (d @ [s])"
proof -
  obtain k where k: "walk (fs_node fs) max_symlinks (fs_cwd fs) (butlast p) = Inr (d, k)" "node_at (fs_node fs) d = Some Dir_Node"
    using assms(1) by (auto simp: resolve_parent_def split: sum.splits if_splits)
  have "walk (fs_node fs') max_symlinks (fs_cwd fs') (butlast p @ [Normal s]) = Inr (d @ [s], k)"
    using walk_extend [OF k(1) assms(4)] node_at_extend [OF k(2) assms(4)] assms(5,6) by (simp add: walk_append)
  moreover have "butlast p @ [Normal s] = p" using assms(2,3) by (metis append_butlast_last_id)
  ultimately show ?thesis using assms(3) by (simp add: resolve_def)
qed

lemma secure_write_outcome:
  assumes "fs_ok (dk_fs dk)" "canonicalize (dk_fs dk) (path_of workspace) = Inr (abs_path w)" "prefix (abs_path w) p"
    and "write_file_secure dk p workspace c = (res, dk')"
  obtains (kept) e where "res = Inl e" "dk_text dk' = dk_text dk"
  | (written) name t n where "name \<noteq> []" "prefix w name" "fs_node (dk_fs dk) name = None \<or> (\<exists>k\<le>1. fs_node (dk_fs dk) name = Some (File_Node k))"
      "dk_text dk' = (dk_text dk)(name := Some t)" "resolve (dk_fs dk') p = Inr name" "fs_node (dk_fs dk') name = Some (File_Node n)"
      "res = Inr () \<and> t = c \<or> (\<exists>e m. res = Inl e \<and> dk_room dk name = Some m \<and> m < length c \<and> t = take m c)"
      "dk_may_read dk' = dk_may_read dk"
proof (cases "secure_parent dk p workspace")
  case (Inl e)
  with assms(4) show ?thesis by (intro kept [of e]) (auto simp: write_file_secure_def)
next
  case (Inr dk1)
  from secure_parent_facts [OF assms(1-3) Inr] obtain fs1 where
    fs1: "dk1 = dk\<lparr>dk_fs := fs1\<rparr>" "grows_by_dirs (dk_fs dk) fs1"
      "\<And>s d. last p = Normal s \<Longrightarrow> resolve_parent fs1 (butlast p) = Inr d \<Longrightarrow> prefix w d" by blast
  show ?thesis
  proof (cases "revalidate_path fs1 p workspace = Inr () \<and> (\<exists>x. open_write dk1 p = Inr x)")
    case False
    show ?thesis
    proof (cases "revalidate_path fs1 p workspace")
      case (Inl e)
      with \<open>secure_parent dk p workspace = Inr dk1\<close> assms(4) have "(Inl e, dk1) = (res, dk')"
        by (simp add: write_file_secure_def fs1(1))
      then show ?thesis by (intro kept [of e]) (auto simp: fs1(1))
    next
      case (Inr u)
      with False obtain e where "open_write dk1 p = Inl e" by (cases "open_write dk1 p") auto
      with \<open>secure_parent dk p workspace = Inr dk1\<close> Inr assms(4)
      have "(Inl (Tool (''Failed to securely open file '' @ quoted (show_path p) @ '': '' @ e)), dk1) = (res, dk')"
        by (simp add: write_file_secure_def fs1(1))
      then show ?thesis by (intro kept) (auto simp: fs1(1))
    qed
  next
    case True
    then obtain name dk2 where o: "open_write dk1 p = Inr (name, dk2)" by auto
    from o obtain s d n where
      p: "p \<noteq> []" "last p = Normal s" "resolve_parent fs1 (butlast p) = Inr d" "name = d @ [s]"
      and nd: "fs_node (dk_fs dk2) name = Some (File_Node n)" "fs_node fs1 name = None \<and> n = 1 \<or> fs_node fs1 name = Some (File_Node n)"
      and grow: "fs_node fs1 \<subseteq>\<^sub>m fs_node (dk_fs dk2)" "fs_cwd (dk_fs dk2) = fs_cwd fs1"
      and tx: "(dk_text dk2)(name := x) = (dk_text dk)(name := x)" "fs_node fs1 name \<noteq> None \<Longrightarrow> dk_text dk2 = dk_text dk"
      and same: "dk_room dk2 = dk_room dk" "dk_may_read dk2 = dk_may_read dk" for x
    proof (cases rule: open_write_cases)
      case (created s d)
      then show ?thesis by (intro that [of s d 1]) (auto simp: fs1(1) map_le_def)
    next
      case (opened s d n)
      then show ?thesis by (intro that [of s d n]) (auto simp: fs1(1))
    qed
    have old: "fs_node (dk_fs dk) name = None \<or> fs_node (dk_fs dk) name = Some (File_Node n)"
    proof (cases "fs_node (dk_fs dk) name")
      case (Some x)
      then have "fs_node fs1 name = Some x" using fs1(2) by (auto simp: grows_by_dirs_def map_le_def dom_def)
      with nd(2) Some show ?thesis by auto
    qed simp
    have inside: "prefix w name" using fs1(3) [OF p(2,3)] by (simp add: p(4))
    have run: "write_file_secure dk p workspace c =
        (if 1 < n then (Inl (SecurityViolation (''Write blocked: '' @ quoted (show_path p) @ '' has '' @ show_nat n
                                 @ '' hard links and may alias content outside workspace'')), dk2)
         else (case overwrite dk2 name c of
                 (Some e, dk) \<Rightarrow> (Inl (Tool (''Failed to write file '' @ quoted (show_path p) @ '': '' @ e)), dk)
               | (None, dk) \<Rightarrow> (Inr (), dk)))"
      using Inr True o nd(1) by (simp add: write_file_secure_def fs1(1))
    show ?thesis
    proof (cases "1 < n")
      case True
      then have "dk_text dk2 = dk_text dk" using tx(2) nd(2) by auto
      with run True assms(4) show ?thesis by (intro kept) auto
    next
      case False
      then obtain t where t: "dk_text dk' = (dk_text dk)(name := Some t)" "dk_fs dk' = dk_fs dk2" "dk_may_read dk' = dk_may_read dk"
        "res = Inr () \<and> t = c \<or> (\<exists>e m. res = Inl e \<and> dk_room dk name = Some m \<and> m < length c \<and> t = take m c)"
        using run assms(4) tx(1) same by (auto simp: overwrite_def split: option.splits if_splits)
      have "resolve (dk_fs dk2) p = Inr name"
        using resolve_file [OF p(3,2,1) grow] nd(1) by (simp add: p(4))
      with t inside old False nd(1) p(4) show ?thesis by (intro written [of name t n]) auto
    qed
  qed
qed

section \<open>What the tools do to the disk\<close>

lemma validated_below:
  assumes "validate_path_in_workspace fs path workspace = Inr p" "canonicalize fs (path_of workspace) = Inr (abs_path w)"
  shows "prefix (abs_path w) p"
  by (rule validated_parts [OF assms(1)]) (simp add: canonical_workspace_def assms(2))

lemma write_file_run:
  assumes "write_file args ctx dk = (res, dk')"
  shows "(dk' = dk \<and> (\<exists>e. res = Some (Inl e)))
    \<or> (\<exists>workspace path content p r. ctx = Some workspace \<and> fa_path args = Some path \<and> fa_content args = Some content
        \<and> validate_path_in_workspace (dk_fs dk) path workspace = Inr p \<and> write_file_secure dk p workspace content = (r, dk')
        \<and> ((\<exists>e. r = Inl e \<and> res = Some (Inl e)) \<or> r = Inr () \<and> (\<exists>out. res = Some (Inr out))))"
  using assms
  by (auto simp: write_file_def resolve_path_def missing_arg_def failing_def split: option.splits sum.splits prod.splits)

text \<open>What an edit makes of the content it read.\<close>

definition edited ::
    "(string \<Rightarrow> string) \<Rightarrow> (diff_error \<Rightarrow> string) \<Rightarrow> file_args \<Rightarrow> path_buf \<Rightarrow> string \<Rightarrow> (string \<times> string) zresult option" where
  "edited nfc msg args p content =
     (case fa_diff args of
        Some diff \<Rightarrow> patched_content msg p diff content
      | None \<Rightarrow> replaced_content nfc p (the (fa_old_text args)) (the (fa_new_text args)) (fa_expected args) content)"

lemma rewrite_file_run:
  assumes "rewrite_file p workspace f dk = (res, dk')"
  shows "(dk' = dk \<and> (\<forall>out. res \<noteq> Some (Inr out)))
    \<or> (\<exists>content new info r. read_to_string dk p = Inr content \<and> f content = Some (Inr (new, info))
        \<and> write_file_secure dk p workspace new = (r, dk')
        \<and> ((\<exists>e. r = Inl e \<and> res = Some (Inl e)) \<or> r = Inr () \<and> (\<exists>out. res = Some (Inr out))))"
proof (cases "read_to_string dk p")
  case (Inr content)
  show ?thesis
  proof (cases "\<exists>new info. f content = Some (Inr (new, info))")
    case True
    then obtain new info where f: "f content = Some (Inr (new, info))" by blast
    obtain r d where w: "write_file_secure dk p workspace new = (r, d)" by (cases "write_file_secure dk p workspace new")
    from assms Inr f w show ?thesis by (cases r) (auto simp: rewrite_file_def failing_def)
  next
    case False
    with assms Inr show ?thesis by (auto simp: rewrite_file_def failing_def split: option.splits sum.splits)
  qed
qed (use assms in \<open>auto simp: rewrite_file_def failing_def\<close>)

lemma edit_file_shape:
  "(\<exists>e. edit_file nfc msg args ctx dk = failing e dk)
   \<or> (\<exists>workspace path p. ctx = Some workspace \<and> fa_path args = Some path
        \<and> validate_path_in_workspace (dk_fs dk) path workspace = Inr p
        \<and> (fa_diff args = None \<longrightarrow> fa_old_text args \<noteq> Some [])
        \<and> edit_file nfc msg args ctx dk = rewrite_file p workspace (edited nfc msg args p) dk)"
proof (cases "fa_path args = None \<or> fa_diff args \<noteq> None \<and> (fa_old_text args \<noteq> None \<or> fa_new_text args \<noteq> None)
    \<or> fa_diff args = None \<and> (fa_old_text args = None \<or> fa_new_text args = None)")
  case True
  then show ?thesis by (cases "fa_path args") (auto simp: edit_file_def missing_arg_def)
next
  case False
  then obtain path where path: "fa_path args = Some path" by auto
  show ?thesis
  proof (cases "\<exists>p workspace. resolve_path (dk_fs dk) path ctx = Inr (p, workspace) \<and> revalidate_path (dk_fs dk) p workspace = Inr ()")
    case no: False
    then show ?thesis using False path
      by (cases "resolve_path (dk_fs dk) path ctx")
        (auto simp: edit_file_def split: sum.split)
  next
    case True
    then obtain p workspace where p: "resolve_path (dk_fs dk) path ctx = Inr (p, workspace)"
      "revalidate_path (dk_fs dk) p workspace = Inr ()" by blast
    then have c: "ctx = Some workspace" "validate_path_in_workspace (dk_fs dk) path workspace = Inr p"
      by (auto simp: resolve_path_def split: option.splits sum.splits)
    show ?thesis
    proof (cases "fa_diff args")
      case (Some diff)
      then have "edited nfc msg args p = patched_content msg p diff" by (simp add: edited_def fun_eq_iff)
      with Some False path p c show ?thesis by (simp add: edit_file_def)
    next
      case None
      with False obtain old new where o: "fa_old_text args = Some old" "fa_new_text args = Some new" by auto
      then have "edited nfc msg args p = replaced_content nfc p old new (fa_expected args)"
        using None by (simp add: edited_def fun_eq_iff)
      with None o False path p c show ?thesis by (cases "old = []") (auto simp: edit_file_def)
    qed
  qed
qed

lemma edit_file_run:
  assumes "edit_file nfc msg args ctx dk = (res, dk')"
  shows "(dk' = dk \<and> (\<forall>out. res \<noteq> Some (Inr out)))
    \<or> (\<exists>workspace path p content new info r. ctx = Some workspace \<and> fa_path args = Some path
        \<and> validate_path_in_workspace (dk_fs dk) path workspace = Inr p
        \<and> read_to_string dk p = Inr content \<and> edited nfc msg args p content = Some (Inr (new, info))
        \<and> (fa_diff args = None \<longrightarrow> fa_old_text args \<noteq> Some [])
        \<and> write_file_secure dk p workspace new = (r, dk')
        \<and> ((\<exists>e. r = Inl e \<and> res = Some (Inl e)) \<or> r = Inr () \<and> (\<exists>out. res = Some (Inr out))))"
proof (cases "\<exists>e. edit_file nfc msg args ctx dk = failing e dk")
  case True
  with assms show ?thesis by (auto simp: failing_def)
next
  case False
  with edit_file_shape [of nfc msg args ctx dk] obtain workspace path p where
    c: "ctx = Some workspace" "fa_path args = Some path" "validate_path_in_workspace (dk_fs dk) path workspace = Inr p"
      "fa_diff args = None \<longrightarrow> fa_old_text args \<noteq> Some []"
    and r: "edit_file nfc msg args ctx dk = rewrite_file p workspace (edited nfc msg args p) dk" by (elim disjE exE conjE) auto
  have "rewrite_file p workspace (edited nfc msg args p) dk = (res, dk')" using assms r by simp
  from rewrite_file_run [OF this] show ?thesis
    by (rule disj_forward)
      (assumption, elim exE conjE, intro exI conjI, (rule c)+, assumption, assumption, rule c, assumption, assumption)
qed

text \<open>Both tools that change files, with the content they set out to write.\<close>

definition file_change ::
    "(string \<Rightarrow> string) \<Rightarrow> (diff_error \<Rightarrow> string) \<Rightarrow> file_args \<Rightarrow> string \<Rightarrow> disk \<Rightarrow> tool_run set" where
  "file_change nfc msg args workspace dk = {write_file args (Some workspace) dk, edit_file nfc msg args (Some workspace) dk}"

lemma file_change_run:
  assumes "(res, dk') \<in> file_change nfc msg args workspace dk"
  shows "(dk' = dk \<and> (\<forall>out. res \<noteq> Some (Inr out)))
    \<or> (\<exists>path p c r. fa_path args = Some path \<and> validate_path_in_workspace (dk_fs dk) path workspace = Inr p
        \<and> write_file_secure dk p workspace c = (r, dk')
        \<and> ((\<exists>e. r = Inl e \<and> res = Some (Inl e)) \<or> r = Inr () \<and> (\<exists>out. res = Some (Inr out))))"
proof -
  from assms consider "write_file args (Some workspace) dk = (res, dk')" | "edit_file nfc msg args (Some workspace) dk = (res, dk')"
    unfolding file_change_def by (metis insertE singletonD)
  then show ?thesis
  proof cases
    case 1
    from write_file_run [OF 1] show ?thesis by fastforce
  next
    case 2
    from edit_file_run [OF 2] show ?thesis by fastforce
  qed
qed

text \<open>
  C22. Files change only inside the workspace: whatever the write and edit tools are asked and however
  they end, a text that differs afterwards belongs to a name below the workspace as it resolves, through
  no link, and that name was free or a file without a second name. Texts are kept by resolved names, and the workspace exists.
\<close>

theorem file_changes_confined:
  assumes "fs_ok (dk_fs dk)" "canonicalize (dk_fs dk) (path_of workspace) = Inr (abs_path w)"
    and "(res, dk') \<in> file_change nfc msg args workspace dk" "dk_text dk' name \<noteq> dk_text dk name"
  shows "prefix w name \<and> (fs_node (dk_fs dk) name = None \<or> (\<exists>n\<le>1. fs_node (dk_fs dk) name = Some (File_Node n)))
    \<and> (\<forall>other. other \<noteq> name \<longrightarrow> dk_text dk' other = dk_text dk other)"
proof -
  from file_change_run [OF assms(3)] assms(4) obtain path p c r where
    v: "validate_path_in_workspace (dk_fs dk) path workspace = Inr p" and wr: "write_file_secure dk p workspace c = (r, dk')"
    by auto
  from assms(1,2) validated_below [OF v assms(2)] wr show ?thesis
  proof (cases rule: secure_write_outcome)
    case (kept e)
    with assms(4) show ?thesis by simp
  next
    case (written name' t n)
    with assms(4) show ?thesis by (cases "name = name'") auto
  qed
qed

text \<open>
  A refused change changes no file: when there is room on the disk, a write or an edit that does not
  report success leaves the text of every file as it was.
\<close>

theorem refused_change_keeps_files:
  assumes "fs_ok (dk_fs dk)" "canonicalize (dk_fs dk) (path_of workspace) = Inr (abs_path w)"
    and "(res, dk') \<in> file_change nfc msg args workspace dk" "\<forall>out. res \<noteq> Some (Inr out)" "\<forall>name. dk_room dk name = None"
  shows "dk_text dk' = dk_text dk"
proof (cases "dk' = dk")
  case False
  with file_change_run [OF assms(3)] assms(4) obtain path p c e where
    v: "validate_path_in_workspace (dk_fs dk) path workspace = Inr p" and wr: "write_file_secure dk p workspace c = (Inl e, dk')"
    by blast
  from assms(1,2) validated_below [OF v assms(2)] wr show ?thesis
    by (cases rule: secure_write_outcome) (use assms(5) in auto)
qed simp

lemma written_content_read:
  assumes "fs_ok (dk_fs dk)" "canonicalize (dk_fs dk) (path_of workspace) = Inr (abs_path w)" "prefix (abs_path w) p"
    and "write_file_secure dk p workspace c = (Inr (), dk')" "\<forall>name. dk_may_read dk name"
  shows "read_to_string dk' p = Inr c"
  using assms(1-4)
proof (cases rule: secure_write_outcome)
  case (written name t n)
  then have "node_at (fs_node (dk_fs dk')) name = Some (File_Node n)" by (simp add: node_at_def)
  with written assms(5) show ?thesis by (auto simp: read_to_string_def)
qed simp

text \<open>
  What was written is read back: after a successful write, reading the same path gives the content,
  cut to the size of tool output.
\<close>

theorem written_file_reads_back:
  assumes "fs_ok (dk_fs dk)" "canonicalize (dk_fs dk) (path_of workspace) = Inr (abs_path w)"
    and "write_file args (Some workspace) dk = (Some (Inr out), dk')" "\<forall>name. dk_may_read dk name"
  shows "\<exists>path p content. fa_path args = Some path \<and> fa_content args = Some content
    \<and> validate_path_in_workspace (dk_fs dk) path workspace = Inr p \<and> read_to_string dk' p = Inr content"
proof -
  from write_file_run [OF assms(3)] obtain path content p where
    a: "fa_path args = Some path" "fa_content args = Some content" "validate_path_in_workspace (dk_fs dk) path workspace = Inr p"
    and wr: "write_file_secure dk p workspace content = (Inr (), dk')" by auto
  have "read_to_string dk' p = Inr content"
    by (rule written_content_read [OF assms(1,2) validated_below [OF a(3) assms(2)] wr assms(4)])
  with a show ?thesis by blast
qed

text \<open>
  A successful edit is the edit of what was there: the file is read, the diff or the replacement is
  computed on its text, and afterwards the file holds the result.
\<close>

theorem edit_takes_effect:
  assumes "fs_ok (dk_fs dk)" "canonicalize (dk_fs dk) (path_of workspace) = Inr (abs_path w)"
    and "edit_file nfc msg args (Some workspace) dk = (Some (Inr out), dk')" "\<forall>name. dk_may_read dk name"
  shows "\<exists>path p content new info. fa_path args = Some path \<and> validate_path_in_workspace (dk_fs dk) path workspace = Inr p
    \<and> read_to_string dk p = Inr content \<and> edited nfc msg args p content = Some (Inr (new, info))
    \<and> read_to_string dk' p = Inr new"
proof -
  from edit_file_run [OF assms(3)] obtain path p content new info where
    a: "fa_path args = Some path" "validate_path_in_workspace (dk_fs dk) path workspace = Inr p"
      "read_to_string dk p = Inr content" "edited nfc msg args p content = Some (Inr (new, info))"
    and wr: "write_file_secure dk p workspace new = (Inr (), dk')" by auto
  have "read_to_string dk' p = Inr new"
    by (rule written_content_read [OF assms(1,2) validated_below [OF a(2) assms(2)] wr assms(4)])
  with a show ?thesis by blast
qed

text \<open>
  A failed write may destroy the file: the file is emptied before it is written, so that when there is
  no room, the text that is left is the beginning of the new one and the old one is gone.
\<close>

theorem failed_change_truncates:
  assumes "fs_ok (dk_fs dk)" "canonicalize (dk_fs dk) (path_of workspace) = Inr (abs_path w)"
    and "(Some (Inl e), dk') \<in> file_change nfc msg args workspace dk" "dk_text dk' name \<noteq> dk_text dk name"
  shows "\<exists>content m. dk_room dk name = Some m \<and> m < length content \<and> dk_text dk' name = Some (take m content)"
proof -
  from file_change_run [OF assms(3)] assms(4) obtain path p c where
    v: "validate_path_in_workspace (dk_fs dk) path workspace = Inr p" and wr: "write_file_secure dk p workspace c = (Inl e, dk')"
    by auto
  from assms(1,2) validated_below [OF v assms(2)] wr show ?thesis
  proof (cases rule: secure_write_outcome)
    case (written name' t n)
    with assms(4) show ?thesis by (cases "name = name'") auto
  qed (use assms(4) in simp)
qed

text \<open>
  A listing is complete: it has one line for each entry of the directory, with a mark for directories
  and links, in order, cut to the size of tool output.
\<close>

theorem listing_complete:
  assumes "list_dir names args (Some workspace) dk = (Some (Inr out), dk')"
    and "\<forall>d. set (names (dk_fs dk) d) = {s. fs_node (dk_fs dk) (d @ [s]) \<noteq> None}"
  shows "\<exists>p d items. resolve_parent (dk_fs dk) p = Inr d \<and> sorted items
    \<and> set items = {s @ type_indicator (Some x) |s x. fs_node (dk_fs dk) (d @ [s]) = Some x}
    \<and> for_llm out = truncate_tool_output (join [CHR 0x0A] items) default_max_lines default_max_bytes \<and> dk' = dk"
proof -
  from assms(1) obtain p d where d: "resolve_parent (dk_fs dk) p = Inr d" "dk' = dk"
    "for_llm out = truncate_tool_output (join [CHR 0x0A] (sort (map (\<lambda>name. name @ type_indicator (fs_node (dk_fs dk) (d @ [name])))
       (names (dk_fs dk) d)))) default_max_lines default_max_bytes"
  proof (cases "fa_path args")
    case (Some path)
    show ?thesis
    proof (cases "resolve_path (dk_fs dk) path (Some workspace)")
      case (Inr pw)
      obtain p ws where pw: "pw = (p, ws)" by (cases pw)
      show ?thesis
      proof (cases "revalidate_path (dk_fs dk) p ws")
        case (Inl e)
        with assms(1) Some Inr pw show ?thesis by (simp add: list_dir_def failing_def)
      next
        case r: (Inr u)
        show ?thesis
        proof (cases "resolve_parent (dk_fs dk) p")
          case (Inl e)
          with assms(1) Some Inr pw r show ?thesis by (simp add: list_dir_def failing_def)
        next
          case d: (Inr d)
          show ?thesis
            by (rule that [OF d]) (use assms(1) Some Inr pw r d in \<open>auto simp: list_dir_def Let_def output_llm_only_def\<close>)
        qed
      qed
    qed (use assms(1) Some in \<open>simp add: list_dir_def failing_def\<close>)
  qed (use assms(1) in \<open>simp add: list_dir_def missing_arg_def failing_def\<close>)
  let ?items = "sort (map (\<lambda>name. name @ type_indicator (fs_node (dk_fs dk) (d @ [name]))) (names (dk_fs dk) d))"
  have "set ?items = {s @ type_indicator (Some x) |s x. fs_node (dk_fs dk) (d @ [s]) = Some x}"
    using assms(2) by (force simp: image_def)
  moreover have "sorted ?items" by simp
  ultimately show ?thesis using d by blast
qed

section \<open>A sample disk\<close>

definition sample_disk :: disk where
  "sample_disk =
     \<lparr>dk_fs = \<lparr>fs_node = [[''ws''] \<mapsto> Dir_Node, [''ws'', ''a''] \<mapsto> File_Node 1, [''ws'', ''out''] \<mapsto> Link_Node (abs_path [''secret'']),
          [''secret''] \<mapsto> File_Node 1], fs_cwd = [], fs_writable = (\<lambda>_. True), fs_dir_links = (\<lambda>_. 2)\<rparr>,
      dk_text = [[''ws'', ''a''] \<mapsto> ''x=1; y=1'', [''secret''] \<mapsto> ''key''],
      dk_may_read = (\<lambda>_. True), dk_may_write = (\<lambda>_. True), dk_room = (\<lambda>_. None)\<rparr>"

definition sample_file_args :: file_args where
  "sample_file_args = \<lparr>fa_path = Some ''a'', fa_content = Some ''new'', fa_old_text = Some ''=1'', fa_new_text = Some ''=2'',
     fa_diff = None, fa_expected = Some 2\<rparr>"

lemma sample_disk_ok: "fs_ok (dk_fs sample_disk)"
    "canonicalize (dk_fs sample_disk) (path_of ''/ws'') = Inr (abs_path [''ws''])"
  by (simp add: sample_disk_def fs_ok_def, code_simp)

theorem file_changes_confined_witness:
  "\<exists>res dk'. (res, dk') \<in> file_change id (\<lambda>_. []) sample_file_args ''/ws'' sample_disk
     \<and> dk_text dk' [''ws'', ''a''] = Some ''new'' \<and> dk_text dk' [''secret''] = Some ''key''"
proof -
  let ?run = "write_file sample_file_args (Some ''/ws'') sample_disk"
  have t: "dk_text (snd ?run) [''ws'', ''a''] = Some ''new''" by code_simp
  have m: "(fst ?run, snd ?run) \<in> file_change id (\<lambda>_. []) sample_file_args ''/ws'' sample_disk" by (simp add: file_change_def)
  have "dk_text (snd ?run) [''ws'', ''a''] \<noteq> dk_text sample_disk [''ws'', ''a'']" unfolding t by (simp add: sample_disk_def)
  from file_changes_confined [OF sample_disk_ok m this]
  have "dk_text (snd ?run) [''secret''] = dk_text sample_disk [''secret'']" by simp
  also have "\<dots> = Some ''key''" by (simp add: sample_disk_def)
  finally show ?thesis using t m by blast
qed

theorem refused_change_keeps_files_witness:
  "\<exists>res dk'. (res, dk') \<in> file_change id (\<lambda>_. []) (sample_file_args\<lparr>fa_path := Some ''out''\<rparr>) ''/ws'' sample_disk
     \<and> dk_text dk' = dk_text sample_disk"
proof -
  let ?run = "write_file (sample_file_args\<lparr>fa_path := Some ''out''\<rparr>) (Some ''/ws'') sample_disk"
  have m: "(fst ?run, snd ?run) \<in> file_change id (\<lambda>_. []) (sample_file_args\<lparr>fa_path := Some ''out''\<rparr>) ''/ws'' sample_disk"
    by (simp add: file_change_def)
  have "(case fst ?run of Some (Inl e) \<Rightarrow> True | _ \<Rightarrow> False)" by code_simp
  then have f: "\<forall>out. fst ?run \<noteq> Some (Inr out)" by (auto split: option.splits sum.splits)
  have "\<forall>name. dk_room sample_disk name = None" by (simp add: sample_disk_def)
  from refused_change_keeps_files [OF sample_disk_ok m f this] m show ?thesis by blast
qed

theorem written_file_reads_back_witness:
  "\<exists>dk' p. read_to_string dk' p = Inr ''new'' \<and> dk' = snd (write_file sample_file_args (Some ''/ws'') sample_disk)"
proof -
  let ?run = "write_file sample_file_args (Some ''/ws'') sample_disk"
  have "(case fst ?run of Some (Inr out) \<Rightarrow> True | _ \<Rightarrow> False)" by code_simp
  then obtain out where "?run = (Some (Inr out), snd ?run)" by (auto split: option.splits sum.splits simp: prod_eq_iff)
  from written_file_reads_back [OF sample_disk_ok this] show ?thesis by (auto simp: sample_disk_def sample_file_args_def)
qed

theorem edit_takes_effect_witness:
  "\<exists>dk' p new. read_to_string dk' p = Inr new \<and> dk' = snd (edit_file id (\<lambda>_. []) sample_file_args (Some ''/ws'') sample_disk)"
proof -
  let ?run = "edit_file id (\<lambda>_. []) sample_file_args (Some ''/ws'') sample_disk"
  have "(case fst ?run of Some (Inr out) \<Rightarrow> True | _ \<Rightarrow> False)" by code_simp
  then obtain out where "?run = (Some (Inr out), snd ?run)" by (auto split: option.splits sum.splits simp: prod_eq_iff)
  from edit_takes_effect [OF sample_disk_ok this] show ?thesis by (auto simp: sample_disk_def)
qed

theorem failed_change_truncates_witness:
  "\<exists>dk' content m. dk_text dk' [''ws'', ''a''] = Some (take m content) \<and> m < length content
     \<and> dk' = snd (write_file sample_file_args (Some ''/ws'') (sample_disk\<lparr>dk_room := (\<lambda>_. Some 1)\<rparr>))"
proof -
  let ?dk = "sample_disk\<lparr>dk_room := (\<lambda>_. Some 1)\<rparr>"
  let ?run = "write_file sample_file_args (Some ''/ws'') ?dk"
  have ok: "fs_ok (dk_fs ?dk)" "canonicalize (dk_fs ?dk) (path_of ''/ws'') = Inr (abs_path [''ws''])"
    using sample_disk_ok by simp_all
  have "(case fst ?run of Some (Inl e) \<Rightarrow> True | _ \<Rightarrow> False)" by code_simp
  then obtain e where "fst ?run = Some (Inl e)" by (auto split: option.splits sum.splits)
  then have m: "(Some (Inl e), snd ?run) \<in> file_change id (\<lambda>_. []) sample_file_args ''/ws'' ?dk"
    by (metis file_change_def insertI1 prod.collapse)
  have "dk_text (snd ?run) [''ws'', ''a''] = Some ''n''" by code_simp
  then have "dk_text (snd ?run) [''ws'', ''a''] \<noteq> dk_text ?dk [''ws'', ''a'']" by (simp add: sample_disk_def)
  from failed_change_truncates [OF ok m this] show ?thesis by blast
qed

definition sample_names :: "file_system \<Rightarrow> string list \<Rightarrow> string list" where
  "sample_names fs d = (if d = [''ws''] then [''out'', ''a''] else if d = [] then [''ws'', ''secret''] else [])"

theorem listing_complete_witness:
  "\<exists>out p d items. list_dir sample_names (sample_file_args\<lparr>fa_path := Some ''/ws''\<rparr>) (Some ''/ws'') sample_disk
       = (Some (Inr out), sample_disk)
     \<and> resolve_parent (dk_fs sample_disk) p = Inr d \<and> sorted items
     \<and> for_llm out = truncate_tool_output (join [CHR 0x0A] items) default_max_lines default_max_bytes"
proof -
  let ?run = "list_dir sample_names (sample_file_args\<lparr>fa_path := Some ''/ws''\<rparr>) (Some ''/ws'') sample_disk"
  have "(case fst ?run of Some (Inr out) \<Rightarrow> True | _ \<Rightarrow> False)" by code_simp
  then obtain out where r: "?run = (Some (Inr out), snd ?run)" by (auto split: option.splits sum.splits simp: prod_eq_iff)
  have n: "\<forall>d. set (sample_names (dk_fs sample_disk) d) = {s. fs_node (dk_fs sample_disk) (d @ [s]) \<noteq> None}"
    by (auto simp: sample_names_def sample_disk_def append_eq_Cons_conv Cons_eq_append_conv)
  from listing_complete [OF r n] r show ?thesis by metis
qed

end
