(* ===== verification/Channel_Manager.thy ===== *)
theory Channel_Manager
  imports Bus "HOL-Library.AList"
begin

text \<open>
  The channel manager (\<open>src/src/channels/manager.rs\<close>) with the health registry it reports to
  (\<open>src/src/health.rs\<close>): starting and stopping all channels, delivering outbound messages, and the
  supervisor that polls the channels and restarts dead ones. The channels themselves are adapters to
  chat services: their four operations on a common world are the argument \<open>A\<close>. A hash map is the list of
  its entries in the order in which it is walked. Instants are milliseconds; a pass of the
  supervisor carries its clock along, and \<open>took\<close> is how long a restart takes. The HTTP server of the
  health checks and the usage counters are left out.
\<close>

section \<open>Health\<close>

datatype health_status = Health_Ok | Degraded | Down

definition status_str :: "health_status \<Rightarrow> string" where
  "status_str s = (case s of Health_Ok \<Rightarrow> ''ok'' | Degraded \<Rightarrow> ''degraded'' | Down \<Rightarrow> ''down'')"

record health_check =
  hc_name :: string
  hc_status :: health_status
  hc_message :: "string option"
  hc_restart_count :: nat
  hc_last_error :: "string option"

definition health_check_default :: health_check where
  "health_check_default =
     \<lparr>hc_name = [], hc_status = Health_Ok, hc_message = None, hc_restart_count = 0, hc_last_error = None\<rparr>"

type_synonym health_registry = "(string \<times> health_check) list"

definition health_register :: "health_check \<Rightarrow> health_registry \<Rightarrow> health_registry" where
  "health_register check reg = AList.update (hc_name check) check reg"

text \<open>\<open>get_mut\<close> on the map: nothing happens to an unknown name.\<close>

definition health_modify :: "string \<Rightarrow> (health_check \<Rightarrow> health_check) \<Rightarrow> health_registry \<Rightarrow> health_registry" where
  "health_modify name f reg = (case map_of reg name of None \<Rightarrow> reg | Some check \<Rightarrow> AList.update name (f check) reg)"

definition health_update :: "string \<Rightarrow> health_status \<Rightarrow> string option \<Rightarrow> health_registry \<Rightarrow> health_registry" where
  "health_update name status message = health_modify name (\<lambda>c. c\<lparr>hc_status := status, hc_message := message\<rparr>)"

definition is_ready :: "health_registry \<Rightarrow> bool" where
  "is_ready reg = list_all (\<lambda>(name, c). hc_status c \<noteq> Down) reg"

definition bump_restart :: "string \<Rightarrow> health_registry \<Rightarrow> health_registry" where
  "bump_restart name = health_modify name (\<lambda>c. c\<lparr>hc_restart_count := wrap64 (hc_restart_count c + 1)\<rparr>)"

definition set_error :: "string \<Rightarrow> string \<Rightarrow> health_registry \<Rightarrow> health_registry" where
  "set_error name err = health_modify name (\<lambda>c. c\<lparr>hc_status := Down, hc_last_error := Some err\<rparr>)"

definition quote_char :: char where
  "quote_char = CHR 0x22"

definition backslash :: char where
  "backslash = CHR 0x5C"

definition escape_quotes :: "string \<Rightarrow> string" where
  "escape_quotes s = concat (map (\<lambda>c. if c = quote_char then [backslash, quote_char] else [c]) s)"

definition in_quotes :: "string \<Rightarrow> string" where
  "in_quotes s = [quote_char] @ s @ [quote_char]"

definition render_check :: "health_check \<Rightarrow> string" where
  "render_check c =
     in_quotes (hc_name c) @ '':{'' @ in_quotes ''status'' @ '':'' @ in_quotes (status_str (hc_status c))
       @ (case hc_message c of None \<Rightarrow> [] | Some msg \<Rightarrow> '','' @ in_quotes ''message'' @ '':'' @ in_quotes (escape_quotes msg))
       @ (if 0 < hc_restart_count c then '','' @ in_quotes ''restart_count'' @ '':'' @ show_nat (hc_restart_count c) else [])
       @ (case hc_last_error c of None \<Rightarrow> [] | Some err \<Rightarrow> '','' @ in_quotes ''last_error'' @ '':'' @ in_quotes (escape_quotes err))
       @ ''}''"

definition render_checks_json :: "health_registry \<Rightarrow> string" where
  "render_checks_json reg = (if reg = [] then ''{}'' else ''{'' @ join '','' (map (\<lambda>(name, c). render_check c) reg) @ ''}'')"

section \<open>The manager\<close>

definition supervisor_cooldown_secs :: nat where
  "supervisor_cooldown_secs = 60"

definition supervisor_max_restarts :: nat where
  "supervisor_max_restarts = 5"

record supervisor_entry =
  se_restart_count :: nat
  se_last_restart :: "nat option"
  se_started :: bool

record 'w channel_api =
  ca_start :: "string \<Rightarrow> 'w \<Rightarrow> unit zresult \<times> 'w"
  ca_stop :: "string \<Rightarrow> 'w \<Rightarrow> unit zresult \<times> 'w"
  ca_is_running :: "string \<Rightarrow> 'w \<Rightarrow> bool"
  ca_send :: "string \<Rightarrow> outbound_message \<Rightarrow> 'w \<Rightarrow> unit zresult \<times> 'w"

record 'w channel_manager =
  mg_channels :: "string list"
  mg_world :: 'w
  mg_dispatching :: bool
  mg_health :: "health_registry option"
  mg_entries :: "(string \<times> supervisor_entry) list"
  mg_shutdown :: bool

definition manager_new :: "'w \<Rightarrow> 'w channel_manager" where
  "manager_new w = \<lparr>mg_channels = [], mg_world = w, mg_dispatching = False, mg_health = None, mg_entries = [], mg_shutdown = False\<rparr>"

definition set_health_registry :: "health_registry \<Rightarrow> 'w channel_manager \<Rightarrow> 'w channel_manager" where
  "set_health_registry reg s = s\<lparr>mg_health := Some reg\<rparr>"

text \<open>The world with the new channel in it is an argument.\<close>

definition register_channel :: "string \<Rightarrow> 'w \<Rightarrow> 'w channel_manager \<Rightarrow> 'w channel_manager" where
  "register_channel name w s =
     s\<lparr>mg_world := w, mg_channels := (if name \<in> set (mg_channels s) then mg_channels s else mg_channels s @ [name])\<rparr>"

definition has_channel :: "string \<Rightarrow> 'w channel_manager \<Rightarrow> bool" where
  "has_channel name s \<longleftrightarrow> name \<in> set (mg_channels s)"

definition channel_count :: "'w channel_manager \<Rightarrow> nat" where
  "channel_count s = length (mg_channels s)"

fun start_channels :: "'w channel_api \<Rightarrow> string list \<Rightarrow> 'w \<Rightarrow> string list \<times> 'w" where
  "start_channels A [] w = ([], w)"
| "start_channels A (name # names) w =
     (case ca_start A name w of
        (r, w) \<Rightarrow> (case start_channels A names w of (started, w) \<Rightarrow> ((case r of Inl _ \<Rightarrow> started | Inr _ \<Rightarrow> name # started), w)))"

definition supervisor_entries :: "string list \<Rightarrow> (string \<times> supervisor_entry) list" where
  "supervisor_entries started = map (\<lambda>name. (name, \<lparr>se_restart_count = 0, se_last_restart = None, se_started = True\<rparr>)) started"

definition start_all :: "'w channel_api \<Rightarrow> 'w channel_manager \<Rightarrow> 'w channel_manager" where
  "start_all A s =
     (if mg_dispatching s then s
      else case start_channels A (mg_channels s) (mg_world s) of
             (started, w) \<Rightarrow>
               s\<lparr>mg_world := w,
                 mg_health := map_option (fold (\<lambda>name. health_register (health_check_default\<lparr>hc_name := name\<rparr>)) started) (mg_health s),
                 mg_shutdown := False, mg_dispatching := True, mg_entries := supervisor_entries started\<rparr>)"

text \<open>Whether the supervisor restarts a channel that it finds dead.\<close>

definition restart_due :: "nat \<Rightarrow> supervisor_entry \<Rightarrow> bool" where
  "restart_due now e \<longleftrightarrow> se_restart_count e < supervisor_max_restarts
     \<and> (case se_last_restart e of Some at \<Rightarrow> supervisor_cooldown_secs \<le> (now - at) div 1000 | None \<Rightarrow> True)"

definition restart_health :: "string \<Rightarrow> bool \<Rightarrow> nat \<Rightarrow> health_registry \<Rightarrow> health_registry" where
  "restart_health name restart_ok count reg =
     (let reg = (if restart_ok then bump_restart name (health_update name Health_Ok None reg) else bump_restart name reg)
      in if supervisor_max_restarts \<le> count
         then set_error name (''exceeded max restarts ('' @ show_nat supervisor_max_restarts @ '')'') reg else reg)"

text \<open>One channel in a pass of the supervisor; the result holds the clock afterwards and the restart, if any.\<close>

definition supervise_one ::
    "'w channel_api \<Rightarrow> nat \<Rightarrow> string \<Rightarrow> nat \<times> 'w channel_manager \<Rightarrow> (string \<times> nat) list \<times> nat \<times> 'w channel_manager" where
  "supervise_one A took name st =
     (case st of (now, s) \<Rightarrow>
       case map_of (mg_entries s) name of
         None \<Rightarrow> ([], now, s)
       | Some e \<Rightarrow>
           if name \<notin> set (mg_channels s) \<or> \<not> se_started e \<or> ca_is_running A name (mg_world s) \<or> \<not> restart_due now e then ([], now, s)
           else (let w = snd (ca_stop A name (mg_world s));
                     (r, w) = ca_start A name w;
                     e = e\<lparr>se_restart_count := se_restart_count e + 1, se_last_restart := Some (now + took)\<rparr>
                 in ([(name, now + took)], now + took,
                     s\<lparr>mg_world := w, mg_entries := AList.update name e (mg_entries s),
                       mg_health := map_option (restart_health name (case r of Inl _ \<Rightarrow> False | Inr _ \<Rightarrow> True) (se_restart_count e)) (mg_health s)\<rparr>)))"

fun supervise_pass ::
    "'w channel_api \<Rightarrow> (string \<Rightarrow> nat) \<Rightarrow> string list \<Rightarrow> nat \<times> 'w channel_manager \<Rightarrow> (string \<times> nat) list \<times> nat \<times> 'w channel_manager" where
  "supervise_pass A took [] st = ([], st)"
| "supervise_pass A took (name # names) st =
     (case supervise_one A (took name) name st of
        (log, st) \<Rightarrow> (case supervise_pass A took names st of (log', st) \<Rightarrow> (log @ log', st)))"

text \<open>A poll of the supervisor, unless it is told to stop.\<close>

definition supervise ::
    "'w channel_api \<Rightarrow> (string \<Rightarrow> nat) \<Rightarrow> nat \<Rightarrow> 'w channel_manager \<Rightarrow> (string \<times> nat) list \<times> nat \<times> 'w channel_manager" where
  "supervise A took now s =
     (if mg_shutdown s then ([], now, s) else supervise_pass A took (map fst (mg_entries s)) (now, s))"

definition stop_all :: "'w channel_api \<Rightarrow> 'w channel_manager \<Rightarrow> 'w channel_manager" where
  "stop_all A s =
     s\<lparr>mg_shutdown := True, mg_dispatching := False,
       mg_world := fold (\<lambda>name w. snd (ca_stop A name w)) (mg_channels s) (mg_world s)\<rparr>"

definition send_target :: "string \<Rightarrow> string list \<Rightarrow> string option" where
  "send_target name channels =
     (if name \<in> set channels then Some name
      else if name = ''whatsapp'' \<and> ''whatsapp_web'' \<in> set channels then Some ''whatsapp_web''
      else if name = ''whatsapp_web'' \<and> ''whatsapp'' \<in> set channels then Some ''whatsapp''
      else None)"

definition manager_send :: "'w channel_api \<Rightarrow> string \<Rightarrow> outbound_message \<Rightarrow> 'w channel_manager \<Rightarrow> unit zresult \<times> 'w channel_manager" where
  "manager_send A name msg s =
     (case send_target name (mg_channels s) of
        None \<Rightarrow> (Inr (), s)
      | Some target \<Rightarrow> (case ca_send A target msg (mg_world s) of (r, w) \<Rightarrow> (r, s\<lparr>mg_world := w\<rparr>)))"

text \<open>One message that the dispatcher takes from the bus.\<close>

definition dispatch_outbound :: "'w channel_api \<Rightarrow> outbound_message \<Rightarrow> 'w channel_manager \<Rightarrow> 'w channel_manager" where
  "dispatch_outbound A msg s =
     (if om_channel msg \<in> set (mg_channels s) then s\<lparr>mg_world := snd (ca_send A (om_channel msg) msg (mg_world s))\<rparr> else s)"

section \<open>How often channels are restarted\<close>

text \<open>Polls of the supervisor after start, each after a pause, with whatever happened to the channels before it.\<close>

fun run_supervisor ::
    "'w channel_api \<Rightarrow> (nat \<times> (string \<Rightarrow> nat) \<times> ('w \<Rightarrow> 'w)) list \<Rightarrow> nat \<times> 'w channel_manager
       \<Rightarrow> (string \<times> nat) list \<times> nat \<times> 'w channel_manager" where
  "run_supervisor A [] st = ([], st)"
| "run_supervisor A ((pause, took, env) # polls) (now, s) =
     (case supervise A took (now + pause) (s\<lparr>mg_world := env (mg_world s)\<rparr>) of
        (log, st) \<Rightarrow> (case run_supervisor A polls st of (log', st) \<Rightarrow> (log @ log', st)))"

definition restart_times :: "string \<Rightarrow> (string \<times> nat) list \<Rightarrow> nat list" where
  "restart_times name log = map snd (filter (\<lambda>(n, t). n = name) log)"

lemma restart_times_append [simp]: "restart_times name (log @ log') = restart_times name log @ restart_times name log'"
  by (simp add: restart_times_def)

lemma restart_times_simps [simp]: "restart_times name [] = []" "restart_times name [(n, t)] = (if n = name then [t] else [])"
  by (simp_all add: restart_times_def)

definition paced :: "nat list \<Rightarrow> bool" where
  "paced ts \<longleftrightarrow> length ts \<le> supervisor_max_restarts \<and> sorted_wrt (\<lambda>a b. a + 1000 * supervisor_cooldown_secs \<le> b) ts"

text \<open>The entries of the supervisor say what the log of restarts says.\<close>

definition accounts :: "(string \<times> nat) list \<Rightarrow> nat \<Rightarrow> (string \<times> supervisor_entry) list \<Rightarrow> bool" where
  "accounts log now entries \<longleftrightarrow>
     (\<forall>name. case map_of entries name of
        None \<Rightarrow> restart_times name log = []
      | Some e \<Rightarrow>
          (let ts = restart_times name log
           in paced ts \<and> se_restart_count e = length ts \<and> se_last_restart e = (if ts = [] then None else Some (last ts))
              \<and> (\<forall>t\<in>set ts. t \<le> now)))"

lemma paced_snoc:
  assumes "paced ts" "restart_due now e" "se_restart_count e = length ts" "now \<le> t"
    and "se_last_restart e = (if ts = [] then None else Some (last ts))"
  shows "paced (ts @ [t])"
proof -
  have n: "length ts < supervisor_max_restarts" using assms(2,3) by (simp add: restart_due_def)
  have "a + 1000 * supervisor_cooldown_secs \<le> t" if "a \<in> set ts" for a
  proof -
    from that have "ts \<noteq> []" by auto
    with assms(2,5) have "supervisor_cooldown_secs \<le> (now - last ts) div 1000" by (simp add: restart_due_def)
    then have "last ts + 1000 * supervisor_cooldown_secs \<le> t" using assms(4) by (simp add: supervisor_cooldown_secs_def)
    moreover have "a \<le> last ts"
    proof (cases ts rule: rev_exhaust)
      case (snoc us u)
      then show ?thesis using assms(1) that by (auto simp: paced_def sorted_wrt_append)
    qed (use that in simp)
    ultimately show ?thesis by simp
  qed
  with assms(1) n show ?thesis by (auto simp: paced_def sorted_wrt_append)
qed

lemma supervise_one_cases:
  assumes "supervise_one A took name (now, s) = (l, now', s')"
  obtains (left) "l = []" "now' = now" "s' = s"
  | (restarted) e where "map_of (mg_entries s) name = Some e" "restart_due now e" "\<not> ca_is_running A name (mg_world s)"
      "l = [(name, now + took)]" "now' = now + took"
      "mg_entries s' = AList.update name (e\<lparr>se_restart_count := se_restart_count e + 1, se_last_restart := Some (now + took)\<rparr>) (mg_entries s)"
proof (cases "map_of (mg_entries s) name")
  case None
  with assms show ?thesis by (intro left) (simp_all add: supervise_one_def)
next
  case (Some e)
  show ?thesis
  proof (cases "name \<notin> set (mg_channels s) \<or> \<not> se_started e \<or> ca_is_running A name (mg_world s) \<or> \<not> restart_due now e")
    case True
    with Some assms show ?thesis by (intro left) (simp_all add: supervise_one_def)
  next
    case False
    with Some assms show ?thesis
      by (intro restarted [of e]) (auto simp: supervise_one_def Let_def case_prod_beta)
  qed
qed

lemma supervise_one_accounts:
  assumes "accounts log now (mg_entries s)" "supervise_one A took name (now, s) = (l, now', s')"
  shows "now \<le> now' \<and> accounts (log @ l) now' (mg_entries s') \<and> dom (map_of (mg_entries s')) = dom (map_of (mg_entries s))"
  using assms(2)
proof (cases rule: supervise_one_cases)
  case left
  with assms(1) show ?thesis by simp
next
  case e0: (restarted e)
  note e = e0(1,2,4,5,6)
  let ?ts = "restart_times name log"
  have a: "paced ?ts" "se_restart_count e = length ?ts" "se_last_restart e = (if ?ts = [] then None else Some (last ?ts))"
    "\<forall>t\<in>set ?ts. t \<le> now"
    using assms(1) [unfolded accounts_def, rule_format, of name] e(1) by (auto simp: Let_def)
  have p: "paced (?ts @ [now + took])" by (rule paced_snoc [OF a(1) e(2) a(2) _ a(3)]) simp
  have "case map_of (mg_entries s') n of
        None \<Rightarrow> restart_times n (log @ l) = []
      | Some e \<Rightarrow>
          (let ts = restart_times n (log @ l)
           in paced ts \<and> se_restart_count e = length ts \<and> se_last_restart e = (if ts = [] then None else Some (last ts))
              \<and> (\<forall>t\<in>set ts. t \<le> now'))" for n
  proof (cases "n = name")
    case True
    with p a show ?thesis by (auto simp: e update_conv' Let_def)
  next
    case False
    then show ?thesis using assms(1) [unfolded accounts_def, rule_format, of n]
      by (auto simp: e update_conv' Let_def split: option.splits)
  qed
  then have "accounts (log @ l) now' (mg_entries s')" unfolding accounts_def by blast
  moreover have "now \<le> now'" by (simp add: e)
  moreover have "dom (map_of (mg_entries s')) = dom (map_of (mg_entries s))" using e(1) by (auto simp: e(5) update_conv')
  ultimately show ?thesis by simp
qed

lemma supervise_pass_accounts:
  "accounts log now (mg_entries s) \<Longrightarrow> supervise_pass A took names (now, s) = (l, now', s') \<Longrightarrow>
     now \<le> now' \<and> accounts (log @ l) now' (mg_entries s') \<and> dom (map_of (mg_entries s')) = dom (map_of (mg_entries s))"
proof (induction names arbitrary: log now s l)
  case (Cons name names)
  obtain l1 n1 s1 where one: "supervise_one A (took name) name (now, s) = (l1, n1, s1)"
    by (cases "supervise_one A (took name) name (now, s)") auto
  obtain l2 n2 s2 where rest: "supervise_pass A took names (n1, s1) = (l2, n2, s2)"
    by (cases "supervise_pass A took names (n1, s1)") auto
  from supervise_one_accounts [OF Cons.prems(1) one] have "now \<le> n1" "accounts (log @ l1) n1 (mg_entries s1)"
    "dom (map_of (mg_entries s1)) = dom (map_of (mg_entries s))" by simp_all
  moreover from Cons.IH [OF this(2), of l2] rest Cons.prems(2) one have "n1 \<le> now'" "accounts ((log @ l1) @ l2) now' (mg_entries s')"
    "dom (map_of (mg_entries s')) = dom (map_of (mg_entries s1))"
    by auto
  moreover have "l = l1 @ l2" using Cons.prems(2) one rest by simp
  ultimately show ?case by simp
qed simp

lemma accounts_later: "accounts log now es \<Longrightarrow> now \<le> now' \<Longrightarrow> accounts log now' es"
  unfolding accounts_def by (fastforce simp: Let_def split: option.splits)

lemma run_supervisor_accounts:
  "accounts log now (mg_entries s) \<Longrightarrow> run_supervisor A polls (now, s) = (l, now', s') \<Longrightarrow>
     accounts (log @ l) now' (mg_entries s') \<and> dom (map_of (mg_entries s')) = dom (map_of (mg_entries s))"
proof (induction polls arbitrary: log now s l)
  case (Cons p polls)
  obtain pause took env where p: "p = (pause, took, env)" by (cases p)
  let ?s = "s\<lparr>mg_world := env (mg_world s)\<rparr>"
  obtain l1 n1 s1 where one: "supervise A took (now + pause) ?s = (l1, n1, s1)"
    by (cases "supervise A took (now + pause) ?s") auto
  obtain l2 n2 s2 where rest: "run_supervisor A polls (n1, s1) = (l2, n2, s2)"
    by (cases "run_supervisor A polls (n1, s1)") auto
  have "accounts log (now + pause) (mg_entries ?s)" using accounts_later [OF Cons.prems(1)] by simp
  then have "accounts (log @ l1) n1 (mg_entries s1)" "dom (map_of (mg_entries s1)) = dom (map_of (mg_entries s))"
    using one supervise_pass_accounts [of log "now + pause" ?s A took "map fst (mg_entries ?s)" l1 n1 s1]
    by (auto simp: supervise_def split: if_splits)
  from Cons.IH [OF this(1), of l2] this(2) rest Cons.prems(2) one show ?case by (auto simp: p)
qed simp

lemma entries_fresh: "map_of (supervisor_entries started) n = Some e \<Longrightarrow> se_restart_count e = 0 \<and> se_last_restart e = None"
  by (induction started) (auto simp: supervisor_entries_def split: if_splits)

lemma start_all_accounts: "\<not> mg_dispatching s \<Longrightarrow> accounts [] now (mg_entries (start_all A s))"
  using entries_fresh
  by (cases "start_channels A (mg_channels s) (mg_world s)")
    (fastforce simp: start_all_def accounts_def paced_def supervisor_max_restarts_def Let_def split: option.splits)

text \<open>
  C18. Restarts are bounded and paced: from the start of the manager on, whatever happens to the
  channels between the polls, the supervisor restarts each channel at most five times, and a minute
  passes between two restarts of the same channel.
\<close>

theorem restarts_paced:
  assumes "\<not> mg_dispatching s" "run_supervisor A polls (now, start_all A s) = (log, now', s')"
  shows "length (restart_times name log) \<le> 5 \<and> sorted_wrt (\<lambda>a b. a + 60000 \<le> b) (restart_times name log)"
proof -
  from run_supervisor_accounts [OF start_all_accounts [OF assms(1)] assms(2)] have a: "accounts log now' (mg_entries s')" by simp
  show ?thesis
    using a [unfolded accounts_def, rule_format, of name]
    by (auto simp: paced_def supervisor_max_restarts_def supervisor_cooldown_secs_def Let_def split: option.splits)
qed

text \<open>A sample: two channels, the running ones are the world.\<close>

definition sample_api :: "string list channel_api" where
  "sample_api =
     \<lparr>ca_start = (\<lambda>name w. (Inr (), name # w)), ca_stop = (\<lambda>name w. (Inr (), removeAll name w)),
      ca_is_running = (\<lambda>name w. name \<in> set w), ca_send = (\<lambda>name msg w. (Inr (), w))\<rparr>"

definition sample_manager :: "string list channel_manager" where
  "sample_manager = set_health_registry [] (register_channel ''slack'' [] (register_channel ''telegram'' [] (manager_new [])))"

theorem restarts_paced_witness:
  "\<exists>log now' s'. run_supervisor sample_api [(15000, \<lambda>_. 10, \<lambda>w. []), (15000, \<lambda>_. 10, \<lambda>w. [])] (0, start_all sample_api sample_manager)
       = (log, now', s')
     \<and> length (restart_times ''slack'' log) \<le> 5"
proof -
  obtain log now' s' where r: "run_supervisor sample_api [(15000, \<lambda>_. 10, \<lambda>w. []), (15000, \<lambda>_. 10, \<lambda>w. [])]
      (0, start_all sample_api sample_manager) = (log, now', s')" by (metis prod_cases3)
  have "\<not> mg_dispatching sample_manager" by code_simp
  from restarts_paced [OF this r] r show ?thesis by blast
qed

section \<open>Channels that are given up\<close>

lemma map_of_health_modify:
  "map_of (health_modify name f reg) n = (if n = name then map_option f (map_of reg n) else map_of reg n)"
  by (auto simp: health_modify_def update_conv' split: option.splits)

lemmas health_defs = restart_health_def health_update_def bump_restart_def set_error_def Let_def

lemma not_ready: "map_of reg name = Some c \<Longrightarrow> hc_status c = Down \<Longrightarrow> \<not> is_ready reg"
  by (auto simp: is_ready_def list_all_iff dest: map_of_SomeD)

text \<open>
  The restart that uses up the allowance marks the channel as down, also when the channel runs again:
  from then on the service reports that it is not ready.
\<close>

theorem last_restart_not_ready:
  assumes "map_of (mg_entries s) name = Some e" "se_restart_count e = 4" "se_started e" "name \<in> set (mg_channels s)"
    and "\<not> ca_is_running A name (mg_world s)" "restart_due now e"
    and "mg_health s = Some reg" "map_of reg name = Some c"
    and "supervise_one A took name (now, s) = (l, now', s')"
  shows "\<exists>reg'. mg_health s' = Some reg' \<and> \<not> is_ready reg'"
proof -
  have h: "mg_health s' = Some (restart_health name ok 5 reg)"
    if "ok = (case fst (ca_start A name (snd (ca_stop A name (mg_world s)))) of Inl _ \<Rightarrow> False | Inr _ \<Rightarrow> True)" for ok
    using assms that by (auto simp: supervise_one_def Let_def case_prod_beta)
  have "\<exists>c'. map_of (restart_health name ok 5 reg) name = Some c' \<and> hc_status c' = Down" for ok
    using assms(8) by (simp add: health_defs map_of_health_modify supervisor_max_restarts_def)
  then show ?thesis using h not_ready by blast
qed

lemma supervise_one_given_up:
  assumes "map_of (mg_entries s) name = Some e" "supervisor_max_restarts \<le> se_restart_count e"
  shows "supervise_one A took name (now, s) = ([], now, s)"
  using assms by (simp add: supervise_one_def restart_due_def)

text \<open>A channel that failed to start with the manager is not supervised: no poll ever restarts it.\<close>

lemma dom_supervisor_entries: "dom (map_of (supervisor_entries started)) = set started"
  by (simp add: dom_map_of_conv_image_fst supervisor_entries_def image_image)

theorem failed_start_never_restarted:
  assumes "\<not> mg_dispatching s" "start_channels A (mg_channels s) (mg_world s) = (started, w)" "name \<notin> set started"
    and "run_supervisor A polls (now, start_all A s) = (log, now', s')"
  shows "restart_times name log = []"
proof -
  have "mg_entries (start_all A s) = supervisor_entries started" using assms(1,2) by (simp add: start_all_def)
  with run_supervisor_accounts [OF start_all_accounts [OF assms(1)] assms(4)] assms(3)
  have "accounts log now' (mg_entries s')" "map_of (mg_entries s') name = None"
    by (auto simp: dom_supervisor_entries domIff)
  from this(1) [unfolded accounts_def, rule_format, of name] this(2) show ?thesis by simp
qed

text \<open>After \<open>stop_all\<close> no poll touches a channel.\<close>

lemma supervise_after_stop: "supervise A took now (stop_all A s) = ([], now, stop_all A s)"
  by (simp add: supervise_def stop_all_def)

text \<open>
  A pass that is under way when \<open>stop_all\<close> stops waiting for it goes on, and restarts a channel that was
  just stopped: the flag is only read before a pass.
\<close>

lemma pass_restarts_stopped_channel:
  "case supervise_pass sample_api (\<lambda>_. 10) [''telegram''] (15000, stop_all sample_api (start_all sample_api sample_manager)) of
     (log, now, s) \<Rightarrow> mg_shutdown s \<and> ''telegram'' \<in> set (mg_world s)"
  by code_simp

section \<open>Where outbound messages go\<close>

text \<open>
  A direct send reaches the one WhatsApp channel that is there under either of its names; the
  dispatcher drops the same message.
\<close>

theorem whatsapp_alias:
  assumes "om_channel msg = ''whatsapp''" "''whatsapp'' \<notin> set (mg_channels s)" "''whatsapp_web'' \<in> set (mg_channels s)"
  shows "fst (manager_send A (om_channel msg) msg s) = fst (ca_send A ''whatsapp_web'' msg (mg_world s))
     \<and> dispatch_outbound A msg s = s"
  using assms by (simp add: manager_send_def send_target_def dispatch_outbound_def case_prod_beta)

lemma dispatch_is_send:
  "om_channel msg \<in> set (mg_channels s) \<Longrightarrow> dispatch_outbound A msg s = snd (manager_send A (om_channel msg) msg s)"
  by (simp add: manager_send_def send_target_def dispatch_outbound_def case_prod_beta)

section \<open>The report as JSON\<close>

text \<open>How a reader of JSON finds the end of a string.\<close>

fun scan_quoted :: "string \<Rightarrow> (string \<times> string) option" where
  "scan_quoted [] = None"
| "scan_quoted (c # cs) =
     (if c = quote_char then Some ([], cs)
      else if c = backslash then (case cs of [] \<Rightarrow> None | d # ds \<Rightarrow> map_option (map_prod ((#) d) id) (scan_quoted ds))
      else map_option (map_prod ((#) c) id) (scan_quoted cs))"

lemma quote_not_backslash [simp]: "quote_char \<noteq> backslash" "backslash \<noteq> quote_char"
  by (simp_all add: quote_char_def backslash_def)

text \<open>A message without backslashes is read back as it is; one that ends in a backslash swallows the closing quote.\<close>

theorem scan_escape_quotes:
  "backslash \<notin> set msg \<Longrightarrow> scan_quoted (escape_quotes msg @ quote_char # rest) = Some (msg, rest)"
  by (induction msg) (auto simp: escape_quotes_def)

lemma scan_trailing_backslash:
  "backslash \<notin> set msg \<Longrightarrow>
     scan_quoted (escape_quotes (msg @ [backslash]) @ quote_char # rest)
       = map_option (map_prod (\<lambda>r. msg @ quote_char # r) id) (scan_quoted rest)"
  by (cases "scan_quoted rest"; induction msg) (auto simp: escape_quotes_def)

end
