(* ===== verification/Routines.thy ===== *)
theory Routines
  imports Zepto_Prelude "HOL-Library.AList"
begin

text \<open>
  Routines (\<open>src/src/routines/mod.rs\<close>, \<open>src/src/routines/engine.rs\<close>): the store of routines with its file,
  the engine that matches messages and webhooks, and the counters of running executions. The JSON
  reader and writer and the regular expressions are arguments; what the file system does to a save is an
  argument of the operations that save. Instants are milliseconds.
\<close>

section \<open>Routines and their store\<close>

datatype trigger =
    Trigger_Cron string
  | Trigger_Event string "string option"
  | Trigger_Webhook string
  | Trigger_Manual

datatype routine_action = Lightweight string | Full_Job string

record routine_guardrails =
  rg_cooldown_secs :: nat
  rg_max_concurrent :: nat

definition routine_guardrails_default :: routine_guardrails where
  "routine_guardrails_default = \<lparr>rg_cooldown_secs = 60, rg_max_concurrent = 1\<rparr>"

record routine =
  rt_id :: string
  rt_name :: string
  rt_enabled :: bool
  rt_trigger :: trigger
  rt_action :: routine_action
  rt_guardrails :: routine_guardrails

text \<open>The text of the file is \<open>None\<close> while there is none that can be read.\<close>

record routine_store =
  st_file :: "string option"
  st_routines :: "routine list"
  st_last_executed :: "(string \<times> nat) list"

record routine_json =
  rj_read :: "string \<Rightarrow> routine list option"
  rj_write :: "routine list \<Rightarrow> string + string"

text \<open>What happens to a save: the directory cannot be made, the write fails and leaves some file, or it is written.\<close>

datatype save_fate = Dir_Fails string | Write_Fails string "string option" | Saves

definition routine_store_new :: "routine_json \<Rightarrow> string option \<Rightarrow> routine_store" where
  "routine_store_new J file =
     \<lparr>st_file = file,
      st_routines = (case file of None \<Rightarrow> [] | Some text \<Rightarrow> (case rj_read J text of None \<Rightarrow> [] | Some rs \<Rightarrow> rs)),
      st_last_executed = []\<rparr>"

definition save_routines :: "routine_json \<Rightarrow> save_fate \<Rightarrow> routine_store \<Rightarrow> (string + unit) \<times> routine_store" where
  "save_routines J fate st =
     (case fate of
        Dir_Fails e \<Rightarrow> (Inl (''Failed to create directory: '' @ e), st)
      | _ \<Rightarrow>
        (case rj_write J (st_routines st) of
           Inl e \<Rightarrow> (Inl (''Failed to serialize routines: '' @ e), st)
         | Inr json \<Rightarrow>
             (case fate of
                Write_Fails e left \<Rightarrow> (Inl (''Failed to write routines file: '' @ e), st\<lparr>st_file := left\<rparr>)
              | _ \<Rightarrow> (Inr (), st\<lparr>st_file := Some json\<rparr>))))"

definition get_routine :: "string \<Rightarrow> routine_store \<Rightarrow> routine option" where
  "get_routine i st = find (\<lambda>r. rt_id r = i) (st_routines st)"

definition named_routine :: "string \<Rightarrow> string" where
  "named_routine i = ''Routine '' @ [CHR 0x27] @ i @ [CHR 0x27]"

definition no_routine :: "string \<Rightarrow> string" where
  "no_routine i = named_routine i @ '' not found''"

definition add_routine :: "routine_json \<Rightarrow> save_fate \<Rightarrow> routine \<Rightarrow> routine_store \<Rightarrow> (string + unit) \<times> routine_store" where
  "add_routine J fate r st =
     (if list_ex (\<lambda>q. rt_id q = rt_id r) (st_routines st) then (Inl (named_routine (rt_id r) @ '' already exists''), st)
      else save_routines J fate (st\<lparr>st_routines := st_routines st @ [r]\<rparr>))"

definition remove_routine :: "routine_json \<Rightarrow> save_fate \<Rightarrow> string \<Rightarrow> routine_store \<Rightarrow> (string + unit) \<times> routine_store" where
  "remove_routine J fate i st =
     (let rest = filter (\<lambda>r. rt_id r \<noteq> i) (st_routines st)
      in if length rest = length (st_routines st) then (Inl (no_routine i), st\<lparr>st_routines := rest\<rparr>)
         else save_routines J fate (st\<lparr>st_routines := rest\<rparr>))"

text \<open>The first routine with the identifier is changed.\<close>

fun toggle_first :: "string \<Rightarrow> routine list \<Rightarrow> (bool \<times> routine list) option" where
  "toggle_first i [] = None"
| "toggle_first i (r # rs) =
     (if rt_id r = i then Some (\<not> rt_enabled r, r\<lparr>rt_enabled := \<not> rt_enabled r\<rparr> # rs)
      else map_option (map_prod id ((#) r)) (toggle_first i rs))"

definition toggle_routine :: "routine_json \<Rightarrow> save_fate \<Rightarrow> string \<Rightarrow> routine_store \<Rightarrow> (string + bool) \<times> routine_store" where
  "toggle_routine J fate i st =
     (case toggle_first i (st_routines st) of
        None \<Rightarrow> (Inl (no_routine i), st)
      | Some (b, rs) \<Rightarrow>
          (case save_routines J fate (st\<lparr>st_routines := rs\<rparr>) of
             (Inl e, st) \<Rightarrow> (Inl e, st)
           | (Inr _, st) \<Rightarrow> (Inr b, st)))"

definition check_routine_cooldown :: "nat \<Rightarrow> string \<Rightarrow> routine_store \<Rightarrow> bool" where
  "check_routine_cooldown now i st =
     (case get_routine i st of
        None \<Rightarrow> False
      | Some r \<Rightarrow>
          (case map_of (st_last_executed st) i of
             Some at \<Rightarrow> 1000 * rg_cooldown_secs (rt_guardrails r) \<le> now - at
           | None \<Rightarrow> True))"

definition record_execution :: "nat \<Rightarrow> string \<Rightarrow> routine_store \<Rightarrow> routine_store" where
  "record_execution now i st = st\<lparr>st_last_executed := AList.update i now (st_last_executed st)\<rparr>"

section \<open>The engine\<close>

record 're compiled_pattern =
  cp_routine_id :: string
  cp_regex :: 're
  cp_channel_filter :: "string option"

record 're routine_engine =
  en_event_patterns :: "'re compiled_pattern list"
  en_webhook_paths :: "(string \<times> string) list"
  en_active_counts :: "(string \<times> nat) list"

record 're regex_engine =
  rx_new :: "string \<Rightarrow> 're option"
  rx_is_match :: "'re \<Rightarrow> string \<Rightarrow> bool"

record trigger_match =
  tm_routine_id :: string
  tm_trigger_type :: string

definition engine_add :: "'re regex_engine \<Rightarrow> routine \<Rightarrow> 're routine_engine \<Rightarrow> 're routine_engine" where
  "engine_add X r en =
     (if \<not> rt_enabled r then en
      else let en = en\<lparr>en_active_counts := AList.update (rt_id r) 0 (en_active_counts en)\<rparr>
           in case rt_trigger r of
                Trigger_Event pattern channel \<Rightarrow>
                  (case rx_new X pattern of
                     None \<Rightarrow> en
                   | Some re \<Rightarrow>
                       en\<lparr>en_event_patterns := en_event_patterns en
                            @ [\<lparr>cp_routine_id = rt_id r, cp_regex = re, cp_channel_filter = channel\<rparr>]\<rparr>)
              | Trigger_Webhook path \<Rightarrow> en\<lparr>en_webhook_paths := AList.update path (rt_id r) (en_webhook_paths en)\<rparr>
              | _ \<Rightarrow> en)"

definition engine_from_store :: "'re regex_engine \<Rightarrow> routine_store \<Rightarrow> 're routine_engine" where
  "engine_from_store X st =
     fold (engine_add X) (st_routines st) \<lparr>en_event_patterns = [], en_webhook_paths = [], en_active_counts = []\<rparr>"

definition pattern_fires :: "'re regex_engine \<Rightarrow> string \<Rightarrow> string \<Rightarrow> 're compiled_pattern \<Rightarrow> bool" where
  "pattern_fires X channel message p =
     (case cp_channel_filter p of
        Some only \<Rightarrow> only = channel \<and> rx_is_match X (cp_regex p) message
      | None \<Rightarrow> rx_is_match X (cp_regex p) message)"

definition check_event_triggers :: "'re regex_engine \<Rightarrow> string \<Rightarrow> string \<Rightarrow> 're routine_engine \<Rightarrow> trigger_match list" where
  "check_event_triggers X channel message en =
     map (\<lambda>p. \<lparr>tm_routine_id = cp_routine_id p, tm_trigger_type = ''event''\<rparr>)
       (filter (pattern_fires X channel message) (en_event_patterns en))"

definition check_webhook_trigger :: "string \<Rightarrow> 're routine_engine \<Rightarrow> trigger_match option" where
  "check_webhook_trigger path en =
     map_option (\<lambda>i. \<lparr>tm_routine_id = i, tm_trigger_type = ''webhook''\<rparr>) (map_of (en_webhook_paths en) path)"

definition get_cron_routines :: "routine_store \<Rightarrow> routine list" where
  "get_cron_routines st =
     filter (\<lambda>r. rt_enabled r \<and> (case rt_trigger r of Trigger_Cron _ \<Rightarrow> True | _ \<Rightarrow> False)) (st_routines st)"

definition can_execute :: "routine \<Rightarrow> 're routine_engine \<Rightarrow> bool" where
  "can_execute r en =
     (case map_of (en_active_counts en) (rt_id r) of
        Some n \<Rightarrow> n < rg_max_concurrent (rt_guardrails r)
      | None \<Rightarrow> True)"

definition modify_count :: "string \<Rightarrow> (nat \<Rightarrow> nat) \<Rightarrow> 're routine_engine \<Rightarrow> 're routine_engine" where
  "modify_count i f en =
     (case map_of (en_active_counts en) i of
        None \<Rightarrow> en
      | Some n \<Rightarrow> en\<lparr>en_active_counts := AList.update i (f n) (en_active_counts en)\<rparr>)"

definition start_execution :: "string \<Rightarrow> 're routine_engine \<Rightarrow> 're routine_engine" where
  "start_execution i = modify_count i (\<lambda>n. wrap64 (n + 1))"

text \<open>The counter is read and, if it was positive, decremented by a second atomic access, which wraps.\<close>

definition load_count :: "string \<Rightarrow> 're routine_engine \<Rightarrow> nat option" where
  "load_count i en = map_of (en_active_counts en) i"

definition fetch_sub_count :: "string \<Rightarrow> 're routine_engine \<Rightarrow> 're routine_engine" where
  "fetch_sub_count i = modify_count i (\<lambda>n. wrap64 (n + (2 ^ 64 - 1)))"

definition finish_execution :: "string \<Rightarrow> 're routine_engine \<Rightarrow> 're routine_engine" where
  "finish_execution i en =
     (case load_count i en of
        None \<Rightarrow> en
      | Some n \<Rightarrow> if 0 < n then fetch_sub_count i en else en)"

section \<open>The store and its file\<close>

datatype routine_call = Add_Routine routine | Remove_Routine string | Toggle_Routine string | Record_Execution nat string

definition routine_step :: "routine_json \<Rightarrow> routine_call \<times> save_fate \<Rightarrow> routine_store \<Rightarrow> routine_store" where
  "routine_step J c st =
     (case c of
        (Add_Routine r, fate) \<Rightarrow> snd (add_routine J fate r st)
      | (Remove_Routine i, fate) \<Rightarrow> snd (remove_routine J fate i st)
      | (Toggle_Routine i, fate) \<Rightarrow> snd (toggle_routine J fate i st)
      | (Record_Execution now i, fate) \<Rightarrow> record_execution now i st)"

lemma id_known: "list_ex (\<lambda>q. rt_id q = i) rs \<longleftrightarrow> i \<in> rt_id ` set rs"
  by (induction rs) auto

lemma save_routines_routines [simp]: "st_routines (snd (save_routines J fate st)) = st_routines st"
  by (simp add: save_routines_def split: save_fate.split sum.split)

lemma toggle_first_ids: "toggle_first i rs = Some (b, rs') \<Longrightarrow> map rt_id rs' = map rt_id rs"
  by (induction rs arbitrary: rs') (auto split: if_splits)

lemma toggle_routine_routines:
  "st_routines (snd (toggle_routine J fate i st))
     = (case toggle_first i (st_routines st) of None \<Rightarrow> st_routines st | Some (b, rs) \<Rightarrow> rs)"
proof (cases "toggle_first i (st_routines st)")
  case (Some p)
  obtain b rs where p: "p = (b, rs)" by (cases p)
  obtain r st' where r: "save_routines J fate (st\<lparr>st_routines := rs\<rparr>) = (r, st')" by (cases "save_routines J fate (st\<lparr>st_routines := rs\<rparr>)")
  then have "st_routines st' = rs" using save_routines_routines [of J fate "st\<lparr>st_routines := rs\<rparr>"] by simp
  with Some p r show ?thesis by (simp add: toggle_routine_def split: sum.split)
qed (simp add: toggle_routine_def)

text \<open>Identifiers stay unique, whatever happens to the saves.\<close>

lemma routine_step_ids:
  assumes "distinct (map rt_id (st_routines st))"
  shows "distinct (map rt_id (st_routines (routine_step J c st)))"
proof -
  obtain call fate where c: "c = (call, fate)" by (cases c)
  show ?thesis
  proof (cases call)
    case (Add_Routine r)
    with assms show ?thesis by (simp add: c routine_step_def add_routine_def id_known)
  next
    case (Remove_Routine i)
    with assms show ?thesis by (simp add: c routine_step_def remove_routine_def Let_def distinct_map_filter)
  next
    case (Toggle_Routine i)
    with assms show ?thesis
      by (auto simp: c routine_step_def toggle_routine_routines dest!: toggle_first_ids simp del: distinct_map split: option.split)
  next
    case (Record_Execution now i)
    with assms show ?thesis by (simp add: c routine_step_def record_execution_def)
  qed
qed

theorem routine_ids_distinct:
  "distinct (map rt_id (st_routines st)) \<Longrightarrow> distinct (map rt_id (st_routines (fold (routine_step J) calls st)))"
  by (induction calls arbitrary: st) (simp_all add: routine_step_ids del: distinct_map)

text \<open>
  While the saves succeed, opening the file again gives the routines of the store, without the
  times of their executions.
\<close>

definition file_current :: "routine_json \<Rightarrow> routine_store \<Rightarrow> bool" where
  "file_current J st \<longleftrightarrow> st_routines (routine_store_new J (st_file st)) = st_routines st"

lemma save_routines_current:
  assumes "\<And>rs. \<exists>text. rj_write J rs = Inr text \<and> rj_read J text = Some rs"
  shows "\<exists>text. save_routines J Saves st = (Inr (), st\<lparr>st_file := Some text\<rparr>) \<and> rj_read J text = Some (st_routines st)"
  using assms [of "st_routines st"] by (auto simp: save_routines_def)

lemma routine_step_current:
  assumes J: "\<And>rs. \<exists>text. rj_write J rs = Inr text \<and> rj_read J text = Some rs" and "file_current J st"
  shows "file_current J (routine_step J (c, Saves) st)"
proof -
  have s: "file_current J (snd (save_routines J Saves st'))" for st'
    using save_routines_current [OF J, of st'] by (auto simp: file_current_def routine_store_new_def)
  have t: "file_current J (snd (toggle_routine J Saves i st))" for i
  proof (cases "toggle_first i (st_routines st)")
    case (Some p)
    obtain b rs where p: "p = (b, rs)" by (cases p)
    from save_routines_current [OF J, of "st\<lparr>st_routines := rs\<rparr>"] Some p s [of "st\<lparr>st_routines := rs\<rparr>"] show ?thesis
      by (auto simp: toggle_routine_def)
  qed (simp add: toggle_routine_def assms(2))
  have f: "length (filter (\<lambda>r. rt_id r \<noteq> i) rs) = length rs \<Longrightarrow> filter (\<lambda>r. rt_id r \<noteq> i) rs = rs" for i rs
    using length_filter_less [of _ rs "\<lambda>r. rt_id r \<noteq> i"] by (auto intro!: filter_True)
  show ?thesis
    using assms(2) s t
    by (auto simp: routine_step_def add_routine_def remove_routine_def record_execution_def Let_def f file_current_def
        split: routine_call.split)
qed

theorem routines_survive_restart:
  assumes "\<And>rs. \<exists>text. rj_write J rs = Inr text \<and> rj_read J text = Some rs" "st = routine_store_new J file"
  shows "st_routines (routine_store_new J (st_file (fold (routine_step J) (map (\<lambda>c. (c, Saves)) calls) st)))
       = st_routines (fold (routine_step J) (map (\<lambda>c. (c, Saves)) calls) st)"
proof -
  have "file_current J st \<Longrightarrow> file_current J (fold (routine_step J) (map (\<lambda>c. (c, Saves)) calls) st)" for st
    by (induction calls arbitrary: st) (simp_all add: routine_step_current [OF assms(1)])
  moreover have "file_current J st" by (simp add: assms(2) file_current_def routine_store_new_def)
  ultimately show ?thesis by (simp add: file_current_def)
qed

text \<open>An addition that reports an error of its save has happened all the same, until the process ends.\<close>

lemma failed_add_stays:
  assumes "rt_id r \<notin> rt_id ` set (st_routines st)"
  shows "fst (add_routine J (Dir_Fails e) r st) = Inl (''Failed to create directory: '' @ e)
    \<and> get_routine (rt_id r) (snd (add_routine J (Dir_Fails e) r st)) = Some r
    \<and> st_file (snd (add_routine J (Dir_Fails e) r st)) = st_file st"
proof -
  have "find (\<lambda>q. rt_id q = rt_id r) (rs @ [r]) = Some r" if "rt_id r \<notin> rt_id ` set rs" for rs
    using that by (induction rs) auto
  with assms show ?thesis by (simp add: add_routine_def save_routines_def get_routine_def id_known)
qed

lemma cooldown_after_execution:
  "get_routine i st = Some r \<Longrightarrow>
     check_routine_cooldown now i (record_execution at i st) \<longleftrightarrow> at + 1000 * rg_cooldown_secs (rt_guardrails r) \<le> now
       \<or> rg_cooldown_secs (rt_guardrails r) = 0"
  by (auto simp: check_routine_cooldown_def record_execution_def get_routine_def update_conv')

section \<open>Which routines a message or a webhook starts\<close>

definition event_fires :: "'re regex_engine \<Rightarrow> string \<Rightarrow> string \<Rightarrow> routine \<Rightarrow> bool" where
  "event_fires X channel message r =
     (rt_enabled r \<and>
       (case rt_trigger r of
          Trigger_Event pattern only \<Rightarrow>
            (only = None \<or> only = Some channel)
              \<and> (case rx_new X pattern of None \<Rightarrow> False | Some re \<Rightarrow> rx_is_match X re message)
        | _ \<Rightarrow> False))"

lemma engine_add_fires:
  "check_event_triggers X channel message (engine_add X r en)
     = check_event_triggers X channel message en
         @ (if event_fires X channel message r then [\<lparr>tm_routine_id = rt_id r, tm_trigger_type = ''event''\<rparr>] else [])"
  by (auto simp: engine_add_def check_event_triggers_def event_fires_def pattern_fires_def Let_def
      split: trigger.split option.split)

lemma engine_fold_fires:
  "check_event_triggers X channel message (fold (engine_add X) rs en)
     = check_event_triggers X channel message en
         @ map (\<lambda>r. \<lparr>tm_routine_id = rt_id r, tm_trigger_type = ''event''\<rparr>) (filter (event_fires X channel message) rs)"
  by (induction rs arbitrary: en) (simp_all add: engine_add_fires)

text \<open>
  A message starts exactly the enabled event routines of the store whose pattern is valid and matches
  it and whose channel is free or that of the message, in the order of the store; of the enabled
  routines with the path of a webhook only the last one is started.
\<close>

theorem event_triggers_exact:
  "check_event_triggers X channel message (engine_from_store X st)
     = map (\<lambda>r. \<lparr>tm_routine_id = rt_id r, tm_trigger_type = ''event''\<rparr>)
         (filter (event_fires X channel message) (st_routines st))"
  by (simp add: engine_from_store_def engine_fold_fires) (simp add: check_event_triggers_def)

definition on_webhook :: "string \<Rightarrow> routine \<Rightarrow> bool" where
  "on_webhook path r \<longleftrightarrow> rt_enabled r \<and> rt_trigger r = Trigger_Webhook path"

lemma engine_add_webhook:
  "map_of (en_webhook_paths (engine_add X r en)) path
     = (if on_webhook path r then Some (rt_id r) else map_of (en_webhook_paths en) path)"
  by (auto simp: engine_add_def on_webhook_def Let_def update_conv' split: trigger.split option.split)

lemma engine_fold_webhook:
  "map_of (en_webhook_paths (fold (engine_add X) rs en)) path
     = (case find (on_webhook path) (rev rs) of None \<Rightarrow> map_of (en_webhook_paths en) path | Some r \<Rightarrow> Some (rt_id r))"
proof (induction rs arbitrary: en)
  case (Cons r rs)
  have "find P (xs @ ys) = (case find P xs of None \<Rightarrow> find P ys | Some x \<Rightarrow> Some x)" for P and xs ys :: "routine list"
    by (induction xs) auto
  then show ?case by (simp add: Cons.IH engine_add_webhook split: option.split)
qed simp

theorem webhook_trigger_exact:
  "check_webhook_trigger path (engine_from_store X st)
     = map_option (\<lambda>r. \<lparr>tm_routine_id = rt_id r, tm_trigger_type = ''webhook''\<rparr>) (find (on_webhook path) (rev (st_routines st)))"
  by (simp add: check_webhook_trigger_def engine_from_store_def engine_fold_webhook split: option.split)

section \<open>How many executions run\<close>

lemma load_modify_count:
  "load_count j (modify_count i f en) = (if j = i then map_option f (load_count j en) else load_count j en)"
  by (auto simp: load_count_def modify_count_def update_conv' split: option.split)

text \<open>Executions of one routine begin and end; \<open>True\<close> is a beginning.\<close>

definition execution_step :: "string \<Rightarrow> bool \<Rightarrow> 're routine_engine \<Rightarrow> 're routine_engine" where
  "execution_step i begins en = (if begins then start_execution i en else finish_execution i en)"

lemma load_execution_step:
  assumes "load_count i en = Some n" "n < u64_max"
  shows "load_count i (execution_step i begins en) = Some (if begins then n + 1 else n - 1)"
proof -
  have "wrap64 (n + (2 ^ 64 - 1)) = n - 1" if "0 < n"
  proof -
    from that obtain m where m: "n = Suc m" by (cases n) auto
    have "n + (2 ^ 64 - 1) = m + 2 ^ 64" by (simp add: m)
    then have "wrap64 (n + (2 ^ 64 - 1)) = m mod 2 ^ 64" by (simp only: wrap64_def mod_add_self2)
    then show ?thesis using assms(2) by (simp add: m u64_max_def)
  qed
  moreover have "wrap64 (n + 1) = n + 1" using assms(2) by (simp add: wrap64_def u64_max_def)
  ultimately show ?thesis
    using assms(1)
    by (auto simp: execution_step_def start_execution_def finish_execution_def fetch_sub_count_def load_modify_count)
qed

text \<open>
  Called one at a time, the counter of an enabled routine is the number of its executions that run, as
  long as none ends that did not begin.
\<close>

theorem running_count_exact:
  assumes "load_count i en = Some 0" "length steps < u64_max"
    and "\<And>k. k \<le> length steps \<Longrightarrow> count_list (take k steps) False \<le> count_list (take k steps) True"
  shows "load_count i (fold (execution_step i) steps en) = Some (count_list steps True - count_list steps False)"
  using assms(2,3)
proof (induction steps rule: rev_induct)
  case Nil
  then show ?case using assms(1) by simp
next
  case (snoc b steps)
  have p: "count_list (take k steps) False \<le> count_list (take k steps) True" if "k \<le> length steps" for k
    using snoc.prems(2) [of k] that by simp
  let ?n = "count_list steps True - count_list steps False"
  have "?n \<le> length steps" by (meson count_le_length diff_le_self le_trans)
  then have "?n < u64_max" using snoc.prems(1) by simp
  moreover have "load_count i (fold (execution_step i) steps en) = Some ?n" using snoc.IH p snoc.prems(1) by simp
  moreover have "count_list steps False \<le> count_list steps True" using p [of "length steps"] by simp
  ultimately show ?case by (cases b) (simp_all add: load_execution_step Suc_diff_le)
qed

text \<open>
  Two executions that end at once can both read the last one as running: the counter wraps to its
  largest value, and the routine is not started again.
\<close>

theorem finish_race_blocks_routine:
  assumes "load_count (rt_id r) en = Some 1" "rg_max_concurrent (rt_guardrails r) \<le> u64_max"
  shows "load_count (rt_id r) (fetch_sub_count (rt_id r) (fetch_sub_count (rt_id r) en)) = Some u64_max
    \<and> \<not> can_execute r (fetch_sub_count (rt_id r) (fetch_sub_count (rt_id r) en))"
proof -
  let ?en = "fetch_sub_count (rt_id r) (fetch_sub_count (rt_id r) en)"
  have "load_count (rt_id r) ?en = Some u64_max"
    using assms(1) by (simp add: fetch_sub_count_def load_modify_count wrap64_def u64_max_def)
  with assms(2) show ?thesis by (simp add: can_execute_def load_count_def)
qed

text \<open>A routine that was disabled when the engine was built has no counter: nothing limits its executions.\<close>

lemma engine_fold_counts:
  "rt_id r \<notin> rt_id ` {q \<in> set rs. rt_enabled q} \<Longrightarrow> load_count (rt_id r) (fold (engine_add X) rs en) = load_count (rt_id r) en"
proof (induction rs arbitrary: en)
  case (Cons q rs)
  then have "load_count (rt_id r) (engine_add X q en) = load_count (rt_id r) en"
    by (auto simp: engine_add_def load_count_def Let_def update_conv' image_iff split: trigger.split option.split)
  moreover have "rt_id r \<notin> rt_id ` {q \<in> set rs. rt_enabled q}" using Cons.prems by auto
  ultimately show ?case using Cons.IH by simp
qed simp

lemma disabled_unlimited:
  assumes "rt_id r \<notin> rt_id ` {q \<in> set (st_routines st). rt_enabled q}"
  shows "can_execute r (fold (execution_step (rt_id r)) steps (engine_from_store X st))"
proof -
  have "load_count (rt_id r) en = None \<Longrightarrow> load_count (rt_id r) (fold (execution_step (rt_id r)) steps en) = None" for en :: "'a routine_engine"
    by (induction steps arbitrary: en)
      (simp_all add: execution_step_def start_execution_def finish_execution_def load_modify_count)
  moreover have "load_count (rt_id r) (engine_from_store X st) = None"
    using engine_fold_counts [OF assms, of X] by (simp add: engine_from_store_def load_count_def)
  ultimately show ?thesis by (simp add: can_execute_def load_count_def)
qed

end
