(* ===== verification/Heartbeat.thy ===== *)
theory Heartbeat
  imports Bus
begin

text \<open>
  The heartbeat (\<open>src/src/heartbeat/service.rs\<close>, \<open>template.rs\<close>): a service that reads a file at intervals and
  puts a prompt on the bus when the file asks for work. The file as it is found and the time are
  arguments of a tick; a tick that waits for room on the bus has no result yet.
\<close>

definition line_feed :: char where
  "line_feed = CHR 0x0A"

definition heartbeat_prompt :: string where
  "heartbeat_prompt =
     ''Read HEARTBEAT.md in your workspace (if it exists).'' @ [line_feed]
     @ ''Follow any actionable items listed there.'' @ [line_feed]
     @ ''If nothing needs attention, reply with: HEARTBEAT_OK''"

definition heartbeat_template :: string where
  "heartbeat_template =
     concat (map (\<lambda>l. l @ [line_feed])
       [''# Heartbeat Tasks'', [],
        ''This file is checked periodically by your ZeptoClaw agent.'',
        ''Add background tasks below. Keep tasks actionable and specific.'', [],
        ''## Active Tasks'', [],
        ''<!-- Add your periodic tasks below this line -->'',
        ''<!-- Examples:'',
        ''- Check Google Sheet for new orders and send WhatsApp confirmations'',
        ''- Alert me if any inventory item is below minimum stock'',
        ''- Send shipping reminder for orders older than 24 hours'',
        ''-->'', [],
        ''## Completed'', [],
        ''<!-- Move completed tasks here or delete them -->''])"

datatype heartbeat_file = Hb_Missing | Hb_Unreadable string | Hb_Text string

text \<open>The file that is left, and whether it was made; \<open>fault\<close> is an error of making the directory or writing, with the file it leaves.\<close>

definition ensure_heartbeat_file ::
    "(string \<times> heartbeat_file) option \<Rightarrow> heartbeat_file \<Rightarrow> (string + bool) \<times> heartbeat_file" where
  "ensure_heartbeat_file fault file =
     (if file \<noteq> Hb_Missing then (Inr False, file)
      else case fault of
             Some (e, left) \<Rightarrow> (Inl e, left)
           | None \<Rightarrow> (Inr True, Hb_Text heartbeat_template))"

record heartbeat_result =
  hr_timestamp :: nat
  hr_file_found :: bool
  hr_actionable :: bool
  hr_delivered :: bool
  hr_error :: "string option"

definition heartbeat_ok :: "nat \<Rightarrow> bool \<Rightarrow> bool \<Rightarrow> bool \<Rightarrow> heartbeat_result" where
  "heartbeat_ok now file_found actionable delivered =
     \<lparr>hr_timestamp = now, hr_file_found = file_found, hr_actionable = actionable, hr_delivered = delivered, hr_error = None\<rparr>"

definition heartbeat_err :: "nat \<Rightarrow> string \<Rightarrow> heartbeat_result" where
  "heartbeat_err now msg =
     \<lparr>hr_timestamp = now, hr_file_found = False, hr_actionable = False, hr_delivered = False, hr_error = Some msg\<rparr>"

text \<open>\<open>hb_loops\<close> counts the loops that were spawned and have not ended.\<close>

record heartbeat_service =
  hb_interval_secs :: nat
  hb_chat_id :: string
  hb_channel :: string
  hb_running :: bool
  hb_loops :: nat
  hb_failures :: nat
  hb_failure_threshold :: nat

definition heartbeat_new :: "nat \<Rightarrow> string \<Rightarrow> string \<Rightarrow> heartbeat_service" where
  "heartbeat_new interval_secs channel chat_id =
     \<lparr>hb_interval_secs = max interval_secs 30, hb_chat_id = chat_id, hb_channel = channel, hb_running = False, hb_loops = 0,
      hb_failures = 0, hb_failure_threshold = 3\<rparr>"

definition hb_start :: "heartbeat_service \<Rightarrow> heartbeat_service" where
  "hb_start s = (if hb_running s then s else s\<lparr>hb_running := True, hb_loops := hb_loops s + 1\<rparr>)"

definition hb_stop :: "heartbeat_service \<Rightarrow> heartbeat_service" where
  "hb_stop s = s\<lparr>hb_running := False\<rparr>"

definition hb_is_healthy :: "heartbeat_service \<Rightarrow> bool" where
  "hb_is_healthy s \<longleftrightarrow> hb_failures s < hb_failure_threshold s"

definition idle_line :: "string \<Rightarrow> bool" where
  "idle_line raw =
     (let line = trim raw
      in line = [] \<or> prefix ''#'' line \<or> prefix ''<!--'' line \<or> line = ''- [ ]'' \<or> line = ''* [ ]'')"

definition heartbeat_is_empty :: "string \<Rightarrow> bool" where
  "heartbeat_is_empty content = list_all idle_line (str_lines content)"

definition hb_tick ::
    "nat \<Rightarrow> heartbeat_file \<Rightarrow> heartbeat_service \<Rightarrow> 'w message_bus \<Rightarrow> 'w \<Rightarrow> heartbeat_result option \<times> 'w message_bus \<times> 'w" where
  "hb_tick now file s b w =
     (case file of
        Hb_Missing \<Rightarrow> (Some (heartbeat_ok now False False False), b, w)
      | Hb_Unreadable e \<Rightarrow> (Some (heartbeat_err now (''Failed to read file: '' @ e)), b, w)
      | Hb_Text content \<Rightarrow>
          if heartbeat_is_empty content then (Some (heartbeat_ok now True False False), b, w)
          else (case publish_inbound_with_status (inbound_new (hb_channel s) ''system'' (hb_chat_id s) heartbeat_prompt) b w of
                  (r, b, w) \<Rightarrow>
                    ((case r of
                        Failed e \<Rightarrow> Some (heartbeat_err now (''Delivery failed: '' @ zepto_error_display e))
                      | Awaiting_Room \<Rightarrow> None
                      | _ \<Rightarrow> Some (heartbeat_ok now True True True)), b, w)))"

definition hb_count_failure :: "heartbeat_result \<Rightarrow> heartbeat_service \<Rightarrow> heartbeat_service" where
  "hb_count_failure r s = s\<lparr>hb_failures := (if hr_error r \<noteq> None then wrap32 (hb_failures s + 1) else 0)\<rparr>"

text \<open>One loop wakes up: it ends, or does its tick and counts.\<close>

definition hb_wake ::
    "nat \<Rightarrow> heartbeat_file \<Rightarrow> heartbeat_service \<Rightarrow> 'w message_bus \<Rightarrow> 'w \<Rightarrow> heartbeat_service \<times> 'w message_bus \<times> 'w" where
  "hb_wake now file s b w =
     (if \<not> hb_running s then (s\<lparr>hb_loops := hb_loops s - 1, hb_running := False\<rparr>, b, w)
      else case hb_tick now file s b w of
             (r, b, w) \<Rightarrow> ((case r of None \<Rightarrow> s | Some r \<Rightarrow> hb_count_failure r s), b, w))"

section \<open>What a tick sends\<close>

text \<open>
  A tick puts exactly one prompt on the bus if the file has a line that asks for work and the bus
  is open, and changes nothing otherwise; what it reports is what happened.
\<close>

definition asks_for_work :: "heartbeat_file \<Rightarrow> bool" where
  "asks_for_work file = (case file of Hb_Text content \<Rightarrow> list_ex (\<lambda>l. \<not> idle_line l) (str_lines content) | _ \<Rightarrow> False)"

lemma asks_for_work_text: "asks_for_work (Hb_Text content) \<longleftrightarrow> \<not> heartbeat_is_empty content"
  by (simp add: asks_for_work_def heartbeat_is_empty_def list_ex_iff list_all_iff)

theorem heartbeat_tick_exact:
  assumes "bus_interceptor b = None" "mpsc_ok (bus_inbound b)" "hb_tick now file s b w = (r, b', w')"
  defines "sends \<equiv> asks_for_work file \<and> ch_open (bus_inbound b)"
  shows "mpsc_contents (bus_inbound b') = mpsc_contents (bus_inbound b)
       @ (if sends then [inbound_new (hb_channel s) ''system'' (hb_chat_id s) heartbeat_prompt] else [])
     \<and> bus_outbound b' = bus_outbound b \<and> w' = w \<and> (\<forall>res. r = Some res \<longrightarrow> hr_delivered res = sends)"
proof (cases "file")
  case (Hb_Text content)
  then show ?thesis
    using assms
    by (auto simp: hb_tick_def asks_for_work_text publish_inbound_with_status_def intercept_def mpsc_send_def publish_outcome_of_def
        heartbeat_ok_def heartbeat_err_def mpsc_contents_def mpsc_ok_def split: if_splits)
qed (use assms in \<open>auto simp: hb_tick_def asks_for_work_def heartbeat_ok_def heartbeat_err_def\<close>)

text \<open>
  The file that the program itself makes asks for work: its explanations are ordinary lines, and
  the lines of its long comment are not seen as a comment.
\<close>

theorem template_is_actionable: "\<not> heartbeat_is_empty heartbeat_template"
  by code_simp

theorem long_comment_is_actionable:
  "\<not> heartbeat_is_empty (''<!--'' @ [line_feed] @ ''notes'' @ [line_feed] @ ''-->'')"
  by code_simp

section \<open>How many loops run\<close>

text \<open>A stop and a start before the next tick leave the old loop alive beside the new one.\<close>

theorem restart_doubles_loops:
  "hb_running s \<Longrightarrow> hb_loops (hb_start (hb_stop s)) = hb_loops s + 1 \<and> hb_running (hb_start (hb_stop s))"
  by (simp add: hb_start_def hb_stop_def)

text \<open>Started once, the service runs one loop until it is stopped.\<close>

lemma started_once: "\<not> hb_running s \<Longrightarrow> hb_start (hb_start s) = hb_start s"
  by (simp add: hb_start_def)

text \<open>The service is unhealthy exactly after three failures in a row.\<close>

lemma failures_in_a_row:
  assumes "hb_failures s = 0" "hb_failure_threshold s = 3" "length rs < u32_max"
  shows "hb_failures (fold hb_count_failure rs s) = length (takeWhile (\<lambda>r. hr_error r \<noteq> None) (rev rs))"
  using assms(3)
proof (induction rs rule: rev_induct)
  case (snoc r rs)
  then have "length (takeWhile (\<lambda>r. hr_error r \<noteq> None) (rev rs)) < u32_max"
    using length_takeWhile_le [of "\<lambda>r. hr_error r \<noteq> None" "rev rs"] by simp
  with snoc show ?case by (simp add: hb_count_failure_def wrap32_def u32_max_def)
qed (simp add: assms(1))

lemma healthy_exact:
  assumes "hb_failures s = 0" "hb_failure_threshold s = 3" "length rs < u32_max"
  shows "hb_is_healthy (fold hb_count_failure rs s) \<longleftrightarrow> length (takeWhile (\<lambda>r. hr_error r \<noteq> None) (rev rs)) < 3"
proof -
  have "hb_failure_threshold (fold hb_count_failure rs s) = 3"
    using assms(2) by (induction rs arbitrary: s) (simp_all add: hb_count_failure_def)
  with failures_in_a_row [OF assms] show ?thesis by (simp add: hb_is_healthy_def)
qed

end
