(* ===== verification/Chat_Overrides.thy ===== *)
theory Chat_Overrides
  imports Registry Memory_Store
begin

text \<open>
  The model and the persona that a chat chose for itself (\<open>src/src/channels/model_switch.rs\<close>,
  \<open>src/src/channels/persona_switch.rs\<close>): the commands, the texts that answer them, and the copies of the
  choices in the long-term memory, from which they are read at start. A store of overrides is
  a map from chats.
\<close>

section \<open>Commands\<close>

record known_model =
  km_provider :: string
  km_model :: string
  km_label :: string

definition known_models :: "known_model list" where
  "known_models =
     map (\<lambda>(p, m, l). \<lparr>km_provider = p, km_model = m, km_label = l\<rparr>)
       [(''anthropic'', ''claude-opus-4-6'', ''Claude Opus 4.6''),
        (''anthropic'', ''claude-sonnet-4-6'', ''Claude Sonnet 4.6''),
        (''anthropic'', ''claude-haiku-4-5-20251001'', ''Claude Haiku 4.5''),
        (''openai'', ''gpt-5.4'', ''GPT-5.4''),
        (''openai'', ''gpt-5.4-mini'', ''GPT-5.4 Mini''),
        (''openai'', ''gpt-5.4-nano'', ''GPT-5.4 Nano''),
        (''openai'', ''gpt-5.3-codex'', ''GPT-5.3 Codex''),
        (''openrouter'', ''anthropic/claude-sonnet-4-6'', ''Claude Sonnet 4.6 (OR)''),
        (''openrouter'', ''google/gemini-3.1-pro'', ''Gemini 3.1 Pro (OR)''),
        (''groq'', ''llama-4-scout-17b-16e-instruct'', ''Llama 4 Scout''),
        (''groq'', ''llama-4-maverick-17b-128e-instruct'', ''Llama 4 Maverick''),
        (''gemini'', ''gemini-3.1-pro'', ''Gemini 3.1 Pro''),
        (''gemini'', ''gemini-3.1-flash-lite'', ''Gemini 3.1 Flash Lite''),
        (''ollama'', ''llama3.3'', ''Llama 3.3 (local)''),
        (''ollama'', ''mistral'', ''Mistral (local)''),
        (''deepseek'', ''deepseek-chat'', ''DeepSeek V3''),
        (''deepseek'', ''deepseek-reasoner'', ''DeepSeek R1''),
        (''kimi'', ''moonshot-v1-128k'', ''Kimi 128K''),
        (''kimi'', ''moonshot-v1-32k'', ''Kimi 32K'')]"

record model_override =
  mo_provider :: "string option"
  mo_model :: string

datatype model_command = Model_Show | Model_Set model_override | Model_Reset | Model_List | Model_Fetch

text \<open>\<open>split_once(':')\<close>.\<close>

definition split_colon :: "string \<Rightarrow> (string \<times> string) option" where
  "split_colon s = (if CHR '':'' \<in> set s then Some (takeWhile (\<lambda>c. c \<noteq> CHR '':'') s, tl (dropWhile (\<lambda>c. c \<noteq> CHR '':'') s)) else None)"

definition is_provider_name :: "string \<Rightarrow> bool" where
  "is_provider_name name = list_ex (\<lambda>s. spec_name s = name) provider_registry"

definition override_of_arg :: "string \<Rightarrow> model_override" where
  "override_of_arg arg =
     (case split_colon arg of
        Some (left, right) \<Rightarrow>
          if is_provider_name left then \<lparr>mo_provider = Some left, mo_model = right\<rparr> else \<lparr>mo_provider = None, mo_model = arg\<rparr>
      | None \<Rightarrow> \<lparr>mo_provider = None, mo_model = arg\<rparr>)"

text \<open>What follows the name of a command in a message, if the message is that command.\<close>

definition command_rest :: "string \<Rightarrow> string \<Rightarrow> string option" where
  "command_rest command text =
     (let trimmed = trim text
      in if trimmed = command then Some []
         else if prefix (command @ '' '') trimmed then Some (trim (drop (length command + 1) trimmed))
         else None)"

definition parse_model_command :: "string \<Rightarrow> model_command option" where
  "parse_model_command text =
     map_option
       (\<lambda>rest. if rest = [] then Model_Show
               else if rest = ''reset'' then Model_Reset
               else if rest = ''list'' then Model_List
               else if rest = ''fetch'' then Model_Fetch
               else Model_Set (override_of_arg rest))
       (command_rest ''/model'' text)"

datatype persona_command = Persona_Show | Persona_Set string | Persona_Reset | Persona_List

definition parse_persona_command :: "string \<Rightarrow> persona_command option" where
  "parse_persona_command text =
     map_option
       (\<lambda>rest. if rest = [] then Persona_Show
               else if rest = ''reset'' then Persona_Reset
               else if rest = ''list'' then Persona_List
               else Persona_Set rest)
       (command_rest ''/persona'' text)"

section \<open>Answers\<close>

definition newline :: string where
  "newline = [CHR 0x0A]"

fun group_models :: "(string \<times> known_model list) list \<Rightarrow> known_model list \<Rightarrow> (string \<times> known_model list) list" where
  "group_models groups [] = groups"
| "group_models groups (k # ks) =
     group_models
       (case map_of groups (km_provider k) of
          Some ms \<Rightarrow> AList.update (km_provider k) (ms @ [k]) groups
        | None \<Rightarrow> groups @ [(km_provider k, [k])]) ks"

definition is_current :: "model_override option \<Rightarrow> string \<Rightarrow> string \<Rightarrow> bool" where
  "is_current current provider model =
     (case current of None \<Rightarrow> False | Some c \<Rightarrow> mo_model c = model \<and> mo_provider c = Some provider)"

definition configured_line :: "model_override option \<Rightarrow> string \<Rightarrow> string \<Rightarrow> string" where
  "configured_line current provider model =
     ''  '' @ model @ (if is_current current provider model then '' (configured, current)'' else '' (configured)'') @ newline"

definition known_group :: "string list \<Rightarrow> model_override option \<Rightarrow> (string \<times> string) list \<Rightarrow> string \<times> known_model list \<Rightarrow> string" where
  "known_group configured_providers current configured_models g =
     (case g of (provider, models) \<Rightarrow>
       let is_configured = provider \<in> set configured_providers
       in (if is_configured then ''[ok]'' else ''[warn]'') @ '' '' @ provider @ '':'' @ newline
          @ concat (map (\<lambda>k. ''  '' @ km_model k @ '' '' @ km_label k
                @ (if is_current current (km_provider k) (km_model k) then '' (current)'' else []) @ newline) models)
          @ concat (map (\<lambda>(p, m). if p = provider \<and> m \<notin> set (map km_model models) then configured_line current provider m else [])
                configured_models)
          @ (if is_configured then [] else ''  (no API key configured)'' @ newline) @ newline)"

text \<open>\<open>Vec::dedup\<close> removes an element only if it equals the one before it.\<close>

definition extra_providers :: "(string \<times> known_model list) list \<Rightarrow> (string \<times> string) list \<Rightarrow> string list" where
  "extra_providers groups configured_models = remdups_adj (filter (\<lambda>p. p \<notin> set (map fst groups)) (map fst configured_models))"

definition extra_group :: "model_override option \<Rightarrow> (string \<times> string) list \<Rightarrow> string \<Rightarrow> string" where
  "extra_group current configured_models provider =
     ''[ok] '' @ provider @ '':'' @ newline
       @ concat (map (\<lambda>(p, m). if p = provider then configured_line current provider m else []) configured_models) @ newline"

definition format_model_list :: "string list \<Rightarrow> model_override option \<Rightarrow> (string \<times> string) list \<Rightarrow> string" where
  "format_model_list configured_providers current configured_models =
     (let groups = group_models [] known_models
      in trim_end
           (''Available models:'' @ newline @ newline
            @ concat (map (known_group configured_providers current configured_models) groups)
            @ concat (map (extra_group current configured_models) (extra_providers groups configured_models))
            @ newline @ ''Switch model:  /model <model-id>'' @ newline
            @ ''With provider: /model <provider>:<model-id>'' @ newline
            @ ''Reset:         /model reset'' @ newline
            @ ''Config:        agents.defaults.model in ~/.zeptoclaw/config.json''))"

definition format_current_model :: "model_override option \<Rightarrow> string \<Rightarrow> string" where
  "format_current_model current dflt =
     (case current of
        Some ov \<Rightarrow> ''Current: '' @ (case mo_provider ov of Some p \<Rightarrow> p | None \<Rightarrow> ''auto'') @ '':'' @ mo_model ov @ '' (override)'' @ newline
                     @ ''Default: '' @ dflt
      | None \<Rightarrow> ''Current: '' @ dflt @ '' (default)'')"

record persona_preset =
  pp_name :: string
  pp_label :: string
  pp_soul_content :: string

definition persona_presets :: "persona_preset list" where
  "persona_presets =
     map (\<lambda>(n, l, s). \<lparr>pp_name = n, pp_label = l, pp_soul_content = s\<rparr>)
       [(''default'', ''Default Assistant'', []),
        (''concise'', ''Concise & Direct'',
         ''You are extremely concise. Answer in as few words as possible. No filler, no pleasantries. Get straight to the point.''),
        (''friendly'', ''Friendly & Warm'',
         ''You are warm, friendly, and encouraging. Use a conversational tone. Show genuine interest in helping. Be supportive and positive.''),
        (''professional'', ''Professional & Formal'',
         ''You are professional and formal. Use precise language. Structure responses clearly. Maintain a business-appropriate tone at all times.''),
        (''creative'', ''Creative & Playful'',
         ''You are creative, playful, and imaginative. Use vivid language, metaphors, and humor when appropriate. Think outside the box.''),
        (''technical'', ''Technical Expert'',
         ''You are a technical expert. Provide detailed, accurate technical explanations. Include code examples when relevant. Prioritize precision over simplicity.'')]"

definition em_dash :: string where
  "em_dash = [CHR 0xE2, CHR 0x80, CHR 0x94]"

definition format_persona_list :: "string option \<Rightarrow> string" where
  "format_persona_list current =
     trim_end
       (''Available personas:'' @ newline @ newline
        @ concat (map (\<lambda>p. ''  '' @ pp_name p @ '' '' @ em_dash @ '' '' @ pp_label p
              @ (if current = Some (pp_name p) then '' (current)'' else []) @ newline) persona_presets)
        @ newline @ ''Use /persona <name> to set a preset, or /persona <custom text> for a custom persona.'')"

definition find_preset :: "string \<Rightarrow> persona_preset option" where
  "find_preset name = find (\<lambda>p. pp_name p = name) persona_presets"

definition format_current_persona :: "string option \<Rightarrow> string" where
  "format_current_persona current =
     (case current of
        Some name \<Rightarrow>
          (case find_preset name of
             Some p \<Rightarrow> ''Current persona: '' @ pp_name p @ '' '' @ em_dash @ '' '' @ pp_label p @ '' (override)''
           | None \<Rightarrow> ''Current persona: custom override'' @ newline @ ''Content: '' @ name)
      | None \<Rightarrow> ''Current persona: default (no override)'')"

definition resolve_soul_content :: "string \<Rightarrow> string" where
  "resolve_soul_content name_or_text = (case find_preset name_or_text of Some p \<Rightarrow> pp_soul_content p | None \<Rightarrow> name_or_text)"

section \<open>The copies in the memory\<close>

definition model_pref_category :: string where
  "model_pref_category = ''model_pref''"

definition model_pref_prefix :: string where
  "model_pref_prefix = ''model_pref:''"

definition persona_pref_category :: string where
  "persona_pref_category = ''persona_pref''"

definition persona_pref_prefix :: string where
  "persona_pref_prefix = ''persona_pref:''"

definition override_value :: "model_override \<Rightarrow> string" where
  "override_value ov = (case mo_provider ov of Some p \<Rightarrow> p @ '':'' @ mo_model ov | None \<Rightarrow> mo_model ov)"

definition persist_model ::
    "('d, 's) memory_env \<Rightarrow> 'd disk \<Rightarrow> nat \<Rightarrow> string \<times> model_override \<Rightarrow> ('d, 's) longterm_memory \<Rightarrow> ('d, 's) longterm_memory" where
  "persist_model E d now c m =
     snd (lt_set E d now (model_pref_prefix @ fst c) (override_value (snd c)) model_pref_category [] (Fin (2 / 10)) m)"

definition remove_model :: "('d, 's) memory_env \<Rightarrow> 'd disk \<Rightarrow> string \<Rightarrow> ('d, 's) longterm_memory \<Rightarrow> ('d, 's) longterm_memory" where
  "remove_model E d chat_id m = snd (lt_delete E d (model_pref_prefix @ chat_id) m)"

text \<open>All overrides, in the order in which the store is walked.\<close>

definition persist_overrides ::
    "('d, 's) memory_env \<Rightarrow> 'd disk \<Rightarrow> nat \<Rightarrow> (string \<times> model_override) list \<Rightarrow> ('d, 's) longterm_memory \<Rightarrow> ('d, 's) longterm_memory" where
  "persist_overrides E d now overrides m = fold (persist_model E d now) overrides m"

definition parse_override_value :: "string \<Rightarrow> model_override option" where
  "parse_override_value v = (if v = [] then None else Some (override_of_arg v))"

definition hydrate_entry :: "string \<Rightarrow> (string \<Rightarrow> 'v option) \<Rightarrow> memory_entry \<Rightarrow> (string \<rightharpoonup> 'v) \<Rightarrow> (string \<rightharpoonup> 'v)" where
  "hydrate_entry pre parse e store =
     (if prefix pre (me_key e)
      then (case parse (me_value e) of Some v \<Rightarrow> store(drop (length pre) (me_key e) \<mapsto> v) | None \<Rightarrow> store)
      else store)"

definition hydrate_models :: "('d, 's) memory_env \<Rightarrow> ('d, 's) longterm_memory \<Rightarrow> (string \<rightharpoonup> model_override) \<Rightarrow> (string \<rightharpoonup> model_override)" where
  "hydrate_models E m store =
     fold (hydrate_entry model_pref_prefix parse_override_value) (list_by_category E model_pref_category m) store"

definition persist_persona ::
    "('d, 's) memory_env \<Rightarrow> 'd disk \<Rightarrow> nat \<Rightarrow> string \<Rightarrow> string \<Rightarrow> ('d, 's) longterm_memory \<Rightarrow> ('d, 's) longterm_memory" where
  "persist_persona E d now chat_id v m =
     snd (lt_set E d now (persona_pref_prefix @ chat_id) v persona_pref_category [] (Fin (2 / 10)) m)"

definition remove_persona :: "('d, 's) memory_env \<Rightarrow> 'd disk \<Rightarrow> string \<Rightarrow> ('d, 's) longterm_memory \<Rightarrow> ('d, 's) longterm_memory" where
  "remove_persona E d chat_id m = snd (lt_delete E d (persona_pref_prefix @ chat_id) m)"

definition hydrate_personas :: "('d, 's) memory_env \<Rightarrow> ('d, 's) longterm_memory \<Rightarrow> (string \<rightharpoonup> string) \<Rightarrow> (string \<rightharpoonup> string)" where
  "hydrate_personas E m store =
     fold (hydrate_entry persona_pref_prefix (\<lambda>v. if v = [] then None else Some v)) (list_by_category E persona_pref_category m) store"

section \<open>What survives a restart\<close>

lemma split_colon_join: "split_colon s = Some (l, r) \<Longrightarrow> s = l @ '':'' @ r"
proof -
  assume a: "split_colon s = Some (l, r)"
  then have c: "CHR '':'' \<in> set s" by (simp add: split_colon_def split: if_splits)
  then have "dropWhile (\<lambda>c. c \<noteq> CHR '':'') s \<noteq> []" by (simp add: dropWhile_eq_Nil_conv)
  moreover from this have "hd (dropWhile (\<lambda>c. c \<noteq> CHR '':'') s) = CHR '':''" using hd_dropWhile by blast
  ultimately have "dropWhile (\<lambda>c. c \<noteq> CHR '':'') s = CHR '':'' # r" using a c
    by (cases "dropWhile (\<lambda>c. c \<noteq> CHR '':'') s") (auto simp: split_colon_def)
  then show ?thesis using a c takeWhile_dropWhile_id [of "\<lambda>c. c \<noteq> CHR '':''" s] by (simp add: split_colon_def)
qed

lemma override_value_of_arg: "override_value (override_of_arg arg) = arg"
  by (auto simp: override_value_def override_of_arg_def split: option.split dest: split_colon_join)

text \<open>Every override that a command sets is read back from its stored form.\<close>

lemma command_override:
  "parse_model_command text = Some (Model_Set ov) \<Longrightarrow> override_value ov \<noteq> [] \<and> override_of_arg (override_value ov) = ov"
  by (auto simp: parse_model_command_def override_value_of_arg split: if_splits)

theorem command_override_roundtrip:
  "parse_model_command text = Some (Model_Set ov) \<Longrightarrow> parse_override_value (override_value ov) = Some ov"
  using command_override by (simp add: parse_override_value_def)

lemma fold_hydrate_entry:
  assumes "distinct (map me_key es)"
  shows "fold (hydrate_entry pre parse) es store cid
     = (case find (\<lambda>e. me_key e = pre @ cid) es of
          None \<Rightarrow> store cid
        | Some e \<Rightarrow> (case parse (me_value e) of None \<Rightarrow> store cid | Some v \<Rightarrow> Some v))"
  using assms
proof (induction es arbitrary: store)
  case (Cons e es)
  have other: "find (\<lambda>e'. me_key e' = me_key e) es = None" using Cons.prems by (simp add: find_None_iff) (metis imageI)
  show ?case
  proof (cases "me_key e = pre @ cid")
    case True
    with other Cons show ?thesis by (auto simp: hydrate_entry_def split: option.split)
  next
    case False
    then have "hydrate_entry pre parse e store cid = store cid"
      by (auto simp: hydrate_entry_def prefix_def split: option.split)
    with False Cons show ?thesis by (simp split: option.split)
  qed
qed simp

lemma find_unique: "distinct (map f xs) \<Longrightarrow> x \<in> set xs \<Longrightarrow> find (\<lambda>y. f y = f x) xs = Some x"
  by (induction xs) (auto simp: rev_image_eqI)

lemma keyed_list_by_category:
  assumes "keyed (lt_entries m)"
  shows "distinct (map me_key (list_by_category E c m))"
proof -
  have "map me_key (map snd (lt_entries m)) = map fst (lt_entries m)" using assms by (auto simp: keyed_def)
  with assms have "distinct (map me_key (map snd (lt_entries m)))" by (simp only: keyed_def)
  then have "distinct (map me_key (filter P (map snd (lt_entries m))))" for P by (rule distinct_map_filter)
  moreover have "distinct (map me_key (sort_key f xs)) \<longleftrightarrow> distinct (map me_key xs)" for f :: "memory_entry \<Rightarrow> int" and xs
    by (simp add: distinct_map)
  ultimately show ?thesis by (simp only: list_by_category_def newest_used_def)
qed

lemma find_by_category:
  assumes "keyed (lt_entries m)"
  shows "find (\<lambda>e. me_key e = k) (list_by_category E c m)
     = (case map_of (lt_entries m) k of
          Some e \<Rightarrow> if mv_lower E (me_category e) = mv_lower E c then Some e else None
        | None \<Rightarrow> None)"
proof -
  let ?es = "list_by_category E c m"
  have s: "set ?es = {e. (me_key e, e) \<in> set (lt_entries m) \<and> mv_lower E (me_category e) = mv_lower E c}"
    using assms by (force simp: list_by_category_def newest_used_def keyed_def)
  have m: "map_of (lt_entries m) k = Some e \<longleftrightarrow> (k, e) \<in> set (lt_entries m)" for e
    using assms by (simp add: keyed_def map_of_eq_Some_iff)
  show ?thesis
  proof (cases "find (\<lambda>e. me_key e = k) ?es")
    case None
    then show ?thesis using s m assms by (auto simp: find_None_iff keyed_def split: option.split)
  next
    case (Some e)
    then have "e \<in> set ?es" "me_key e = k" by (auto simp: find_Some_iff)
    with s have "map_of (lt_entries m) k = Some e" "mv_lower E (me_category e) = mv_lower E c" by (auto simp: m)
    with Some show ?thesis by simp
  qed
qed

lemma hydrate_models_exact:
  assumes "keyed (lt_entries m)"
  shows "hydrate_models E m store cid
     = (case map_of (lt_entries m) (model_pref_prefix @ cid) of
          Some e \<Rightarrow>
            if mv_lower E (me_category e) = mv_lower E model_pref_category \<and> me_value e \<noteq> []
            then Some (override_of_arg (me_value e)) else store cid
        | None \<Rightarrow> store cid)"
  using assms
  by (auto simp: hydrate_models_def fold_hydrate_entry keyed_list_by_category find_by_category parse_override_value_def
      split: option.split)

lemma map_of_upsert:
  "\<exists>e. map_of (upsert now k val c ts w es) k = Some e \<and> me_value e = val \<and> me_category e = c"
  by (auto simp: upsert_def update_conv' new_entry_def split: option.split)

text \<open>
  An override that a command set and that the memory took is there after a start, and the
  overrides of other chats are as before; whatever the disk did.
\<close>

theorem persisted_override_hydrated:
  assumes "keyed (lt_entries m)" "parse_model_command text = Some (Model_Set ov)" "\<not> injected E (override_value ov)"
  shows "hydrate_models E (persist_model E d now (cid, ov) m) store cid = Some ov
     \<and> (other \<noteq> cid \<longrightarrow> hydrate_models E (persist_model E d now (cid, ov) m) store other = hydrate_models E m store other)"
proof -
  let ?m = "persist_model E d now (cid, ov) m"
  have e: "lt_entries ?m = upsert now (model_pref_prefix @ cid) (override_value ov) model_pref_category [] (Fin (2 / 10)) (lt_entries m)"
    using assms(3) by (simp add: persist_model_def lt_set_entries)
  have k: "keyed (lt_entries ?m)" using assms(1) by (simp add: e keyed_upsert)
  have v: "override_value ov \<noteq> []" "override_of_arg (override_value ov) = ov"
    using command_override [OF assms(2)] by auto
  show ?thesis
    using map_of_upsert [of now "model_pref_prefix @ cid" "override_value ov" model_pref_category "[]" "Fin (2 / 10)" "lt_entries m"] v
    by (auto simp: hydrate_models_exact [OF k] hydrate_models_exact [OF assms(1)] e map_of_upsert_other)
qed

text \<open>A choice that the memory refuses holds until the process ends; its sender is not told.\<close>

theorem refused_persona_lost: "injected E v \<Longrightarrow> persist_persona E d now cid v m = m"
  by (simp add: persist_persona_def lt_set_def injected_def Let_def)

text \<open>Providers that are not known are listed once for each run of their models, each time with all of them.\<close>

theorem extra_provider_listed_twice:
  "extra_providers groups [(''acme'', ''m1''), (''umbrella'', ''m2''), (''acme'', ''m3'')] = [''acme'', ''umbrella'', ''acme'']"
  if "''acme'' \<notin> set (map fst groups)" "''umbrella'' \<notin> set (map fst groups)"
  using that by (simp add: extra_providers_def)

end
