(* ===== verification/Spec2Isabelle.thy ===== *)
theory Spec2Isabelle
  imports Provider_Chain Rotation Loop_Guard Agent_Budget Dedup Gateway Response_Cache Tool_Gate
    Hitl Pairing Path_Security Shell_Security Agent_Loop Agent_Stream A2ui Web_Guard Agent_Queue
    Memory_Store Memory_Files Cron Audit_Chain Mount File_Tools
    Channel_Manager Routines Heartbeat Chat_Overrides Config_Check
begin

text \<open>
  ZeptoClaw, \<open>src/src\<close>, is an agent runtime in Rust: messages from channels reach an agent loop,
  which keeps a session, asks language model providers for answers and runs the tools they
  request. This library models the parts that decide: what is sent to a provider and which
  provider answers, when the loop stops, which tool calls run, and what the gateway lets in.

  The parts and the theories that model them

  \<^item> \<open>Zepto_Prelude\<close>: fixed-width arithmetic, UTF-8 strings, counting maps, association lists.
  \<^item> \<open>Errors\<close> (\<open>error.rs\<close>, \<open>providers/error_classifier.rs\<close>, \<open>providers/mod.rs\<close>): the error
    types and the classification of an HTTP failure into retry and fallback decisions.
  \<^item> \<open>Session\<close> (\<open>session/types.rs\<close>, \<open>session/repair.rs\<close>): messages, sessions and the five repair
    passes that run before a history is sent. Shown: repaired histories have answered tool results
    and alternating roles, the statistics are exact; and where repair falls short.
  \<^item> \<open>Agent_Budget\<close> (\<open>agent/budget.rs\<close>, \<open>agent/tool_call_limit.rs\<close>): counters of machine words;
    accounting and independence of the interleaving of atomic additions.
  \<^item> \<open>Loop_Guard\<close> (\<open>agent/loop_guard.rs\<close>): repetition, outcome and ping-pong detection. Shown: an
    invariant of all reachable states, the graduated response, the sticky breaker, and that
    the periodicity scan decides its specification.
  \<^item> \<open>Provider_Api\<close> (\<open>providers/types.rs\<close>): responses, streams, the world a provider runs in. The
    locales \<open>provider_call\<close>, \<open>provider_ok\<close> and \<open>sleeping_world\<close> are the contracts between the
    decorators. Each decorator is a state transformer: a request yields a result of the
    program's error type and the next state, or \<open>None\<close> for a panic.
  \<^item> \<open>Retry\<close>, \<open>Provider_Health\<close>, \<open>Fallback\<close>, \<open>Rotation\<close>, \<open>Quota\<close> (the files of the same name in
    \<open>providers/\<close>, and \<open>providers/cooldown.rs\<close>), \<open>Cost\<close> (\<open>utils/cost.rs\<close>): the decorators with their
    state beside the wrapped provider's world. The circuit breaker and the rotation's health
    record both interpret the locale \<open>failure_tracker\<close>; every decorator is shown to keep the call
    contract. Concurrent requests at a breaker are the step relation \<open>fb_step\<close>.
  \<^item> \<open>Registry\<close> (\<open>providers/registry.rs\<close>, \<open>auth/mod.rs\<close>) and \<open>Provider_Chain\<close> (\<open>kernel/provider.rs\<close>):
    which providers and credentials are selected, and how they are nested. Shown: the nested
    fallbacks are a scan of all candidates in order; a hard quota stops the whole stack; the
    stack returns on every request when the providers do.
  \<^item> \<open>Dedup\<close> (\<open>gateway/idempotency.rs\<close>, \<open>r8r_bridge/dedup.rs\<close>): two stores, one contract (the locale
    \<open>dedup\<close>): a rejection is always justified, an immediate replay is always rejected.
  \<^item> \<open>Gateway\<close> (\<open>gateway/rate_limit.rs\<close>, \<open>gateway/startup_guard.rs\<close>): the limiter refines a
    specification on the log of accepted requests; the crash guard's degraded mode.
  \<^item> \<open>Response_Cache\<close> (\<open>cache/response_cache.rs\<close>): injective keys, sound and bounded contents.
  \<^item> \<open>Taint\<close> (\<open>safety/taint.rs\<close>, \<open>safety/chain_alert.rs\<close>): the sink check decides its rules, the
    chain alert decides the subsequence relation, and what escapes both.
  \<^item> \<open>Tool_Policy\<close> (\<open>tools/approval.rs\<close>, \<open>tools/hard_floor.rs\<close>, \<open>security/agent_mode.rs\<close>,
    \<open>hooks/mod.rs\<close> and the admission sequence of \<open>agent/loop.rs\<close>): when a tool call runs.
  \<^item> \<open>Tool_Gate\<close> (\<open>kernel/gate.rs\<close>, \<open>tools/registry.rs\<close>): scanning, taint check, execution, labelling
    and accounting of one call. The present theory follows data across calls.
  \<^item> \<open>Safety\<close> (\<open>safety/mod.rs\<close>, \<open>leak_detector.rs\<close>, \<open>policy.rs\<close>, \<open>sanitizer.rs\<close>, \<open>validator.rs\<close>): validation,
    leak masking, policy rules and the injection scan. Shown: the exact verdict, that masking from the
    end is a replacement, and when the cut of a long output panics.
  \<^item> \<open>Bus\<close> (\<open>bus/\<close>): messages and the two bounded queues; the locale \<open>fifo_queue\<close> is the contract of both.
  \<^item> \<open>Approval_Broker\<close> (\<open>tools/approval_broker.rs\<close>) and \<open>Hitl\<close> (\<open>tools/thread_approval.rs\<close>,
    \<open>tools/thread_identity.rs\<close>, \<open>cli/gateway.rs\<close>): pending approvals per thread, the modes of a thread, and the handler
    and interceptor of the gateway around them. Shown: only a reply decides, decisions reach the right request,
    no request starves, automatic approval was confirmed.
  \<^item> \<open>Pairing\<close> (\<open>security/pairing.rs\<close>): codes, tokens and lockouts; a bound on guesses.
  \<^item> \<open>Path_Fs\<close> and \<open>Path_Security\<close> (\<open>security/path.rs\<close>): a file system with links and the validation of paths on it;
    \<open>Shell_Security\<close> (\<open>security/shell.rs\<close>): the tokenizer and the command filter.
  \<^item> \<open>Context_Window\<close> (\<open>agent/context_monitor.rs\<close>, \<open>agent/compaction.rs\<close>) and \<open>Sanitize\<close> (\<open>utils/sanitize.rs\<close>): token
    estimates, the pre-flight guard, the recovery tiers and the cutting of tool results.
  \<^item> \<open>Session_Store\<close> (\<open>session/mod.rs\<close>, \<open>history.rs\<close>, \<open>media.rs\<close>): sessions in memory and on disk.
  \<^item> \<open>Agent_Message\<close> and \<open>Agent_Loop\<close> (\<open>agent/loop.rs\<close>): the handling of one message, composed of the parts above.
    The locale \<open>chat_meter\<close> counts tool and provider calls along it, by a clock of the world that the calls advance.
    Shown: a turn stays in its session and stores its answer, it ends, results answer calls;
    and what the memory flush and the cache let through.
  \<^item> \<open>Agent_Stream\<close> (\<open>agent/loop.rs\<close>, \<open>process_message_streaming\<close>): the same for a message whose answer is streamed. The
    locale \<open>stream_meter\<close> extends \<open>chat_meter\<close> by the streamed call. Shown: both ways of handling a message keep the tool call
    limit, a streamed turn stays in its session, and what it stores.
  \<^item> \<open>A2ui\<close> (\<open>agent/loop.rs\<close>, \<open>extract_a2ui_messages_from_response\<close> and what it calls): the interface messages in a response.
  \<^item> \<open>Agent_Queue\<close> (\<open>agent/loop.rs\<close>, \<open>start\<close> and what it calls): the loop that takes messages from the bus, refuses
    unpaired devices, sets messages of a busy session aside and answers the others, with what their tools say, interface
    messages and the pieces of a stream before the answer. Shown: one answer per message; and how the loop blocks itself,
    and which streamed answers are shown and not kept.
  \<^item> \<open>Web_Guard\<close> (\<open>tools/web.rs\<close>): which addresses a fetch or a redirect may reach, on words for the octets and groups.
    Shown: the exact blocked networks, and that no spelling or wrapping of a blocked IPv4 address passes.
  \<^item> \<open>Memory_Search\<close>, \<open>Memory_Store\<close> and \<open>Memory_Files\<close> (\<open>memory/\<close>, \<open>tools/longterm_memory.rs\<close>): the searchers under the
    locale \<open>memory_searcher\<close>, the long-term store with its file, hygiene and snapshots, and the Markdown files of the
    workspace. The locale \<open>entry_law\<close> carries a property of entries through every operation. Shown: the BM25 index scores
    as the documents do, the memory survives a restart, no injection is stored, a cycle keeps the best entries, the
    prompt part is bounded, reads stay in the workspace; and how a weight out of range loses the file.
  \<^item> \<open>Number_Text\<close> and \<open>Cron\<close> (\<open>cron/mod.rs\<close>, \<open>tools/cron.rs\<close>): the scheduler as operations and a reachability relation with a
    clock. Shown: the next run is the first matching minute, what a tick sends and keeps, back-off and the limit of
    active jobs; and the jobs that are lost.
  \<^item> \<open>Audit_Chain\<close> (\<open>audit.rs\<close>): the hash chain of audit events. Shown: it refines an unbounded log and always verifies, a change
    of the window needs a collision of the digest, the calls of the tool gate are its entries; and what the check cannot see.
  \<^item> \<open>Mount\<close> (\<open>security/mount.rs\<close>): which host paths a container may see, on the file system of \<open>Path_Fs\<close>. Shown: accepted mounts lie
    under an allowed root with the mode that root gives; and that the light check accepts the whole host.
  \<^item> \<open>Diff\<close> (\<open>tools/diff.rs\<close>), \<open>Edit_Match\<close> and \<open>File_Tools\<close> (\<open>tools/filesystem.rs\<close>, \<open>tools/output.rs\<close>): unified diffs as the relation
    \<open>patch\<close> on lines, the three tiers that find the place of an edit, and the file tools on a disk with texts, permissions and room.
    Shown: diffs apply exactly, read back and can be undone, changes stay in the workspace, refused ones change nothing, what is
    written is read back, output is bounded; and where diffs, blank matches and full disks lose text.
  \<^item> \<open>Channel_Manager\<close> (\<open>channels/manager.rs\<close>, \<open>health.rs\<close>): the supervisor of the channels, their starts and sends, and the
    health registry. Shown: restarts are bounded and paced; and channels that are given up or never supervised.
  \<^item> \<open>Routines\<close> (\<open>routines/\<close>) and \<open>Heartbeat\<close> (\<open>heartbeat/\<close>): automations with their file, triggers and counters, and the
    prompt that a file asks for. Shown: unique identifiers, survival of a restart, exact triggers, ticks and counts; and the
    race that blocks a routine.
  \<^item> \<open>Chat_Overrides\<close> (\<open>channels/model_switch.rs\<close>, \<open>persona_switch.rs\<close>): the model and persona of a chat, kept in the memory.
    Shown: an override set by a command is read back.
  \<^item> \<open>Config_Check\<close> (\<open>config/validate.rs\<close>): validation of the configuration. Shown: the table of suggestions is the edit
    distance on single-byte texts, and what passes without error; and what it computes on other texts.

  Conventions. A Rust struct is a record, an enum a datatype, a \<open>HashMap\<close> a map or an association
  list with distinct keys, an error a value of a sum type. Machine integers are naturals with
  the wrap-around or saturation written out, as the release build computes. Clocks are
  arguments: milliseconds for instants, seconds for epochs. Loops are structural recursions, or
  total functions with a measure; the only bound the model chooses is the limit of forty links
  that resolving a path follows, which is the kernel's. The tool loop and the overflow retries are
  bounded by the configuration, as in the code. A panic is the result \<open>None\<close>. Locks are held for a
  whole operation in the code, so an operation is one step; tool calls that run concurrently are taken in an order the
  scheduler chooses, as an argument.

  Code outside the repository is a parameter of the definitions that use it: the providers' HTTP
  calls, the calendar's period keys, serde_json's rendering, the compiled regular expressions,
  the digest, the token store. What is relied on is a named hypothesis, with a witness.

  Not modelled: floating-point rounding (money, ratios and estimates are exact rationals), log lines, the
  files of quota, cache and crash state (they are their in-memory values), the HTTP clients of the
  providers and channels, the CLI, the panel and the container runtimes, which are input and output around
  this core; in the agent loop, the status events on channels with a custom interface (thinking, tool calls, written files; all of the
  kind \<open>Custom\<close>), feedback, spans and metrics, and that a stream is passed on while it is still coming in (a stream is the list
  of its events, and the task that passes it on is a step of its turn); of the memory, the embedding and vector searchers, which
  call services and libraries; the parsing of configuration files, whose values are records of the components that use
  them, and the servers that report health and usage.
\<close>

section \<open>Taint across calls\<close>









end
